(* ===== verification/Prelude.thy ===== *)
theory Prelude
  imports Main "HOL-Library.Word" "HOL-Library.Monad_Syntax"
begin

unbundle bit_operations_syntax

text \<open>
  Shared vocabulary of the development: the machine integers of the C++ code, byte buffers with
  bounds-checked access, time, and the generic lemmas on lists, options and words the components
  use.

  Integers. \<open>uint8_t\<close> to \<open>uint64_t\<close> are words of that width, so every sum, shift and cast wraps as
  it does in C++. \<open>size_t\<close> is \<open>nat\<close>: it counts bytes and elements of containers that are in
  memory. Durations and points in time are \<open>int\<close> (the code counts them in 64 bits, which lasts for
  292 years of nanoseconds): a point in time is in nanoseconds, the unit of the steady clock.

  Faults. A function that accesses a buffer through a pointer returns an option: \<open>None\<close> is an access
  outside the buffer, which is undefined behaviour in C++. Memory safety of such a function is a
  theorem that it never returns \<open>None\<close>. Where the code itself returns \<open>std::nullopt\<close>, the
  option is nested: \<open>Some None\<close>.
\<close>

type_synonym u8 = "8 word"
type_synonym u16 = "16 word"
type_synonym u32 = "32 word"
type_synonym u64 = "64 word"
type_synonym bytes = "u8 list"

text \<open>Points in time and durations, in nanoseconds; \<open>microseconds\<close> and \<open>milliseconds\<close> convert.\<close>

type_synonym TimePoint = int

abbreviation microseconds :: "int \<Rightarrow> int" where
  "microseconds n \<equiv> n * 1000"

abbreviation milliseconds :: "int \<Rightarrow> int" where
  "milliseconds n \<equiv> n * 1000000"

abbreviation seconds :: "int \<Rightarrow> int" where
  "seconds n \<equiv> n * 1000000000"

text \<open>\<open>std::chrono::duration_cast\<close> to a unit \<open>k\<close> times as long: it cuts off towards zero.\<close>

definition duration_cast :: "int \<Rightarrow> int \<Rightarrow> int" where
  "duration_cast k d = (if 0 \<le> d then d div k else - (- d div k))"

named_theorems wire_simps \<open>what reading back written bytes gives\<close>
named_theorems buffer_simps \<open>look-ups in a sequence buffer after an update\<close>
named_theorems link_frame \<open>fields an operation of a link leaves alone\<close>
named_theorems constants \<open>the fixed numbers of the transport\<close>


section \<open>Words\<close>

lemma unat_eq_0_word [simp]: "unat (w :: 'a::len word) = 0 \<longleftrightarrow> w = 0"
  by (rule unat_eq_zero)

lemma unat_pos_word [simp]: "0 < unat (w :: 'a::len word) \<longleftrightarrow> w \<noteq> 0"
  by (simp add: neq0_conv [symmetric] del: neq0_conv)

lemma unat_Suc_word: "w \<noteq> - 1 \<Longrightarrow> unat (w + 1) = Suc (unat w)" for w :: "'a::len word"
proof -
  assume "w \<noteq> - 1"
  then have "1 + w \<noteq> 0"
    by (metis add.commute add.right_inverse add_left_cancel)
  then show ?thesis
    using unatSuc [of w] by (simp add: add.commute)
qed

lemma word_less_no_wrap:
  fixes a b :: "'a::len word"
  assumes "a < b"
  shows "unat (a + 1) = Suc (unat a)"
proof (rule unat_Suc_word)
  show "a \<noteq> - 1"
    using assms word_order.extremum_strict by blast
qed

lemma unat_minus_one_word: "w \<noteq> 0 \<Longrightarrow> unat (w - 1) = unat w - 1" for w :: "'a::len word"
  by (metis unat_minus_one)

lemma unat_plus_of_nat:
  fixes a :: "'a::len word"
  assumes "unat a + n < 2 ^ LENGTH('a)"
  shows "unat (a + of_nat n) = unat a + n"
proof -
  have "n < 2 ^ LENGTH('a)"
    using assms by simp
  then have "unat (of_nat n :: 'a word) = n"
    by (simp add: unat_of_nat)
  then show ?thesis
    using assms by (simp add: unat_add_lem [THEN iffD1])
qed

text \<open>Widening casts keep the value.\<close>

lemma unat_ucast_widen:
  assumes "LENGTH('a) \<le> LENGTH('b)"
  shows "unat (ucast (w :: 'a::len word) :: 'b::len word) = unat w"
proof -
  have "unat w < 2 ^ LENGTH('a)"
    by (rule unsigned_less)
  also have "(2 :: nat) ^ LENGTH('a) \<le> 2 ^ LENGTH('b)"
    using assms by simp
  finally show ?thesis
    by (simp add: unsigned_ucast_eq take_bit_nat_eq_self)
qed

lemma unat_ucast_up [simp]:
  "unat (ucast (a :: u8) :: u16) = unat a" "unat (ucast (a :: u8) :: u32) = unat a"
  "unat (ucast (a :: u8) :: u64) = unat a" "unat (ucast (b :: u16) :: u32) = unat b"
  "unat (ucast (b :: u16) :: u64) = unat b" "unat (ucast (c :: u32) :: u64) = unat c"
  by (rule unat_ucast_widen; simp)+


text \<open>
  Subtraction on \<open>size_t\<close> wraps at zero. Where nothing is subtracted from less, it is the subtraction
  of the numbers.
\<close>

definition size_minus :: "nat \<Rightarrow> nat \<Rightarrow> nat" where
  "size_minus a b = (if b \<le> a then a - b else a + 2 ^ 64 - b)"

lemma size_minus_le [simp]: "b \<le> a \<Longrightarrow> size_minus a b = a - b"
  by (simp add: size_minus_def)


section \<open>Lists\<close>

lemma filter_list_update:
  assumes "i < length xs" and "P (xs ! i)" and "\<not> P x"
  shows "Suc (length (filter P (xs[i := x]))) = length (filter P xs)"
  using assms
proof (induction xs arbitrary: i)
  case Nil
  then show ?case by simp
next
  case (Cons y ys)
  then show ?case by (cases i) auto
qed

lemma filter_list_update_add:
  assumes "i < length xs" and "\<not> P (xs ! i)" and "P x"
  shows "length (filter P (xs[i := x])) = Suc (length (filter P xs))"
  using assms
proof (induction xs arbitrary: i)
  case Nil
  then show ?case by simp
next
  case (Cons y ys)
  then show ?case by (cases i) auto
qed

lemma filter_list_update_same:
  assumes "i < length xs" and "P (xs ! i) = P x"
  shows "length (filter P (xs[i := x])) = length (filter P xs)"
  using assms
proof (induction xs arbitrary: i)
  case Nil
  then show ?case by simp
next
  case (Cons y ys)
  then show ?case by (cases i) auto
qed

text \<open>A fold keeps what every step keeps.\<close>

lemma foldl_invariant:
  assumes "P s" and "\<And>s x. P s \<Longrightarrow> x \<in> set xs \<Longrightarrow> P (f s x)"
  shows "P (foldl f s xs)"
  using assms by (induction xs arbitrary: s) auto


section \<open>Buffers\<close>

text \<open>
  \<open>store out off bs\<close> writes the bytes from offset \<open>off\<close> on, \<open>fetch\<close> reads one byte: through a
  pointer into the buffer, as the code does. Outside the buffer the access faults.
\<close>

definition store :: "bytes \<Rightarrow> nat \<Rightarrow> bytes \<Rightarrow> bytes option" where
  "store out off bs =
     (if off + length bs \<le> length out
      then Some (take off out @ bs @ drop (off + length bs) out) else None)"

definition fetch :: "bytes \<Rightarrow> nat \<Rightarrow> u8 option" where
  "fetch inb off = (if off < length inb then Some (inb ! off) else None)"

lemma store_length: "store out off bs = Some out' \<Longrightarrow> length out' = length out"
  by (auto simp: store_def split: if_splits)

lemma store_defined: "off + length bs \<le> length out \<Longrightarrow> \<exists>out'. store out off bs = Some out'"
  by (simp add: store_def)

text \<open>
  Code that writes its fields one after another keeps a buffer whose start is what was written so
  far: \<open>store\<close> appends to it.
\<close>

lemma store_append:
  assumes "length bs \<le> length rest"
  shows "store (done @ rest) (length done) bs = Some ((done @ bs) @ drop (length bs) rest)"
  using assms by (simp add: store_def)

lemma fetch_append [wire_simps]: "fetch (pre @ b # post) (length pre) = Some b"
  by (simp add: fetch_def)

lemma fetch_defined: "off < length inb \<Longrightarrow> \<exists>b. fetch inb off = Some b"
  by (simp add: fetch_def)

end
