(* ===== verification/Wire.thy ===== *)
theory Wire
  imports Prelude
begin

text \<open>
  The byte level of the wire format: \<open>ByteOrder.h\<close> (big-endian fields at an offset of a buffer) and
  \<open>WireBuffer.h\<close> (the writer and the reader of the variable-length session messages).

  The lemmas show that every field is read back as it was written, that the writer's fields can be
  read in the same order by the reader, and that a reader that failed once stays failed.
\<close>

unbundle bit_operations_syntax

section \<open>ByteOrder.h\<close>

definition writeUint16 :: "bytes \<Rightarrow> nat \<Rightarrow> u16 \<Rightarrow> bytes option" where
  "writeUint16 out off value = store out off [ucast (drop_bit 8 value), ucast value]"

definition writeUint32 :: "bytes \<Rightarrow> nat \<Rightarrow> u32 \<Rightarrow> bytes option" where
  "writeUint32 out off value =
     store out off [ucast (drop_bit 24 value), ucast (drop_bit 16 value),
                    ucast (drop_bit 8 value), ucast value]"

definition writeUint64 :: "bytes \<Rightarrow> nat \<Rightarrow> u64 \<Rightarrow> bytes option" where
  "writeUint64 out off value =
     do { out \<leftarrow> writeUint32 out off (ucast (drop_bit 32 value));
          writeUint32 out (off + 4) (ucast value) }"

definition readUint16 :: "bytes \<Rightarrow> nat \<Rightarrow> u16 option" where
  "readUint16 inb off =
     do { b0 \<leftarrow> fetch inb off; b1 \<leftarrow> fetch inb (off + 1);
          Some (push_bit 8 (ucast b0) OR ucast b1) }"

definition readUint32 :: "bytes \<Rightarrow> nat \<Rightarrow> u32 option" where
  "readUint32 inb off =
     do { b0 \<leftarrow> fetch inb off; b1 \<leftarrow> fetch inb (off + 1);
          b2 \<leftarrow> fetch inb (off + 2); b3 \<leftarrow> fetch inb (off + 3);
          Some (push_bit 24 (ucast b0) OR push_bit 16 (ucast b1) OR
                push_bit 8 (ucast b2) OR ucast b3) }"

definition readUint64 :: "bytes \<Rightarrow> nat \<Rightarrow> u64 option" where
  "readUint64 inb off =
     do { hi \<leftarrow> readUint32 inb off; lo \<leftarrow> readUint32 inb (off + 4);
          Some (push_bit 32 (ucast hi) OR ucast lo) }"

text \<open>The bytes a field is made of, in the order they are on the wire.\<close>

definition be16 :: "u16 \<Rightarrow> bytes" where
  "be16 v = [ucast (drop_bit 8 v), ucast v]"

definition be32 :: "u32 \<Rightarrow> bytes" where
  "be32 v = [ucast (drop_bit 24 v), ucast (drop_bit 16 v), ucast (drop_bit 8 v), ucast v]"

definition be64 :: "u64 \<Rightarrow> bytes" where
  "be64 v = be32 (ucast (drop_bit 32 v)) @ be32 (ucast v)"

lemma length_be16 [simp]: "length (be16 v) = 2"
  by (simp add: be16_def)

lemma length_be32 [simp]: "length (be32 v) = 4"
  by (simp add: be32_def)

lemma length_be64 [simp]: "length (be64 v) = 8"
  by (simp add: be64_def)

lemma writeUint16_store: "writeUint16 out off v = store out off (be16 v)"
  by (simp add: writeUint16_def be16_def)

lemma writeUint32_store: "writeUint32 out off v = store out off (be32 v)"
  by (simp add: writeUint32_def be32_def)

lemma store_store:
  "store out off (xs @ ys) = Option.bind (store out off xs) (\<lambda>out. store out (off + length xs) ys)"
  by (cases xs) (auto simp: store_def min_def ac_simps)

lemma store_bind:
  "n = off + length xs \<Longrightarrow>
   Option.bind (store out off xs) (\<lambda>out. Option.bind (store out n ys) f) =
   Option.bind (store out off (xs @ ys)) f"
  by (simp add: store_store)

lemma writeUint64_store: "writeUint64 out off v = store out off (be64 v)"
  by (simp add: writeUint64_def writeUint32_store be64_def store_store)

lemma join16: "push_bit 8 (ucast (ucast (drop_bit 8 v) :: u8)) OR ucast (ucast v :: u8) = v" for v :: u16
  by (rule bit_word_eqI) (auto simp: bit_simps)

lemma join32:
  "push_bit 24 (ucast (ucast (drop_bit 24 v) :: u8)) OR push_bit 16 (ucast (ucast (drop_bit 16 v) :: u8)) OR
   push_bit 8 (ucast (ucast (drop_bit 8 v) :: u8)) OR ucast (ucast v :: u8) = v" for v :: u32
proof (rule bit_word_eqI)
  fix n assume "n < LENGTH(32)"
  consider "n < 8" | "8 \<le> n" "n < 16" | "16 \<le> n" "n < 24" | "24 \<le> n"
    by linarith
  then show "bit (push_bit 24 (ucast (ucast (drop_bit 24 v) :: u8)) OR
      push_bit 16 (ucast (ucast (drop_bit 16 v) :: u8)) OR
      push_bit 8 (ucast (ucast (drop_bit 8 v) :: u8)) OR ucast (ucast v :: u8) :: u32) n = bit v n"
    using \<open>n < LENGTH(32)\<close> by cases (auto simp: bit_simps)
qed

lemma join64: "push_bit 32 (ucast (ucast (drop_bit 32 v) :: u32)) OR ucast (ucast v :: u32) = v" for v :: u64
  by (rule bit_word_eqI) (auto simp: bit_simps)

text \<open>Every field is read back as it was written, wherever it is in a buffer.\<close>

lemma fetch_nth:
  "off < length inb \<Longrightarrow> fetch inb off = Some (inb ! off)"
  by (simp add: fetch_def)

lemma readUint16_be16 [wire_simps]: "readUint16 (pre @ be16 v @ post) (length pre) = Some v"
  by (simp add: readUint16_def be16_def fetch_def nth_append join16)

lemma readUint32_be32 [wire_simps]: "readUint32 (pre @ be32 v @ post) (length pre) = Some v"
  by (simp add: readUint32_def be32_def fetch_def nth_append join32)

lemma readUint64_be64 [wire_simps]: "readUint64 (pre @ be64 v @ post) (length pre) = Some v"
proof -
  have hi: "readUint32 (pre @ be64 v @ post) (length pre) = Some (ucast (drop_bit 32 v))"
    using readUint32_be32 [of pre "ucast (drop_bit 32 v)" "be32 (ucast v) @ post"]
    by (simp add: be64_def)
  have lo: "readUint32 (pre @ be64 v @ post) (length pre + 4) = Some (ucast v)"
    using readUint32_be32 [of "pre @ be32 (ucast (drop_bit 32 v))" "ucast v" post]
    by (simp add: be64_def)
  show ?thesis
    by (simp add: readUint64_def hi lo join64)
qed

lemma readUint16_defined: "off + 2 \<le> length inb \<Longrightarrow> \<exists>v. readUint16 inb off = Some v"
  by (simp add: readUint16_def fetch_def)

lemma readUint32_defined: "off + 4 \<le> length inb \<Longrightarrow> \<exists>v. readUint32 inb off = Some v"
  by (simp add: readUint32_def fetch_def)

lemma readUint64_defined: "off + 8 \<le> length inb \<Longrightarrow> \<exists>v. readUint64 inb off = Some v"
  by (simp add: readUint64_def readUint32_def fetch_def)


text \<open>... and what was read is what the bytes at that place say: a field has one encoding only.\<close>

lemma split16:
  "ucast (drop_bit 8 (push_bit 8 (ucast b0) OR ucast b1 :: u16)) = (b0 :: u8)"
  "ucast (push_bit 8 (ucast b0) OR ucast b1 :: u16) = (b1 :: u8)"
  by (rule bit_word_eqI; auto simp: bit_simps dest: bit_imp_le_length)+

lemma split32:
  "ucast (drop_bit 24 (push_bit 24 (ucast b0) OR push_bit 16 (ucast b1) OR push_bit 8 (ucast b2) OR ucast b3 :: u32)) = (b0 :: u8)"
  "ucast (drop_bit 16 (push_bit 24 (ucast b0) OR push_bit 16 (ucast b1) OR push_bit 8 (ucast b2) OR ucast b3 :: u32)) = (b1 :: u8)"
  "ucast (drop_bit 8 (push_bit 24 (ucast b0) OR push_bit 16 (ucast b1) OR push_bit 8 (ucast b2) OR ucast b3 :: u32)) = (b2 :: u8)"
  "ucast (push_bit 24 (ucast b0) OR push_bit 16 (ucast b1) OR push_bit 8 (ucast b2) OR ucast b3 :: u32) = (b3 :: u8)"
  by (rule bit_word_eqI; auto simp: bit_simps dest: bit_imp_le_length)+

lemma split64:
  "ucast (drop_bit 32 (push_bit 32 (ucast hi) OR ucast lo :: u64)) = (hi :: u32)"
  "ucast (push_bit 32 (ucast hi) OR ucast lo :: u64) = (lo :: u32)"
  by (rule bit_word_eqI; auto simp: bit_simps dest: bit_imp_le_length)+

lemma readUint16_bytes: "readUint16 inb off = Some v \<Longrightarrow> take 2 (drop off inb) = be16 v"
proof -
  assume "readUint16 inb off = Some v"
  then have len: "off + 1 < length inb"
    and v: "v = push_bit 8 (ucast (inb ! off)) OR ucast (inb ! (off + 1))"
    by (auto simp: readUint16_def fetch_def split: if_splits bind_splits)
  have "take 2 (drop off inb) = [inb ! off, inb ! (off + 1)]"
    using len by (intro nth_equalityI) (auto simp: less_Suc_eq numeral_eq_Suc)
  then show ?thesis
    by (simp only: v be16_def split16)
qed

lemma readUint32_bytes: "readUint32 inb off = Some v \<Longrightarrow> take 4 (drop off inb) = be32 v"
proof -
  assume "readUint32 inb off = Some v"
  then have len: "off + 3 < length inb"
    and v: "v = push_bit 24 (ucast (inb ! off)) OR push_bit 16 (ucast (inb ! (off + 1))) OR
      push_bit 8 (ucast (inb ! (off + 2))) OR ucast (inb ! (off + 3))"
    by (auto simp: readUint32_def fetch_def split: if_splits bind_splits)
  have "take 4 (drop off inb) = [inb ! off, inb ! (off + 1), inb ! (off + 2), inb ! (off + 3)]"
    using len by (intro nth_equalityI) (auto simp: less_Suc_eq numeral_eq_Suc)
  then show ?thesis
    by (simp only: v be32_def split32)
qed

lemma readUint64_bytes: "readUint64 inb off = Some v \<Longrightarrow> take 8 (drop off inb) = be64 v"
proof -
  assume "readUint64 inb off = Some v"
  then obtain hi lo where hi: "readUint32 inb off = Some hi" and lo: "readUint32 inb (off + 4) = Some lo"
    and v: "v = push_bit 32 (ucast hi) OR ucast lo"
    by (auto simp: readUint64_def split: bind_splits)
  have "take 8 (drop off inb) = take 4 (drop off inb) @ take 4 (drop (off + 4) inb)"
    using take_add [of 4 4 "drop off inb"] by (simp add: add.commute)
  then show ?thesis
    by (simp only: readUint32_bytes [OF hi] readUint32_bytes [OF lo] v be64_def split64)
qed


section \<open>WireBuffer.h: WireWriter\<close>

type_synonym WireWriter = bytes

definition writer_u8 :: "WireWriter \<Rightarrow> u8 \<Rightarrow> WireWriter" where
  "writer_u8 mBytes value = mBytes @ [value]"

definition writer_u16 :: "WireWriter \<Rightarrow> u16 \<Rightarrow> WireWriter option" where
  "writer_u16 mBytes value =
     (let mBytes = mBytes @ replicate 2 0 in writeUint16 mBytes (length mBytes - 2) value)"

definition writer_u64 :: "WireWriter \<Rightarrow> u64 \<Rightarrow> WireWriter option" where
  "writer_u64 mBytes value =
     (let mBytes = mBytes @ replicate 8 0 in writeUint64 mBytes (length mBytes - 8) value)"

definition writer_text :: "WireWriter \<Rightarrow> bytes \<Rightarrow> WireWriter" where
  "writer_text mBytes value =
     (let n = (word_of_nat (min (length value) 255) :: u8)
      in writer_u8 mBytes n @ take (unat n) value)"

definition writer_bytes :: "WireWriter \<Rightarrow> bytes \<Rightarrow> WireWriter" where
  "writer_bytes mBytes value = mBytes @ value"

text \<open>What the writer appends: it never writes outside the bytes it made room for.\<close>

definition text_field :: "bytes \<Rightarrow> bytes" where
  "text_field value = word_of_nat (min (length value) 255) # take 255 value"

lemma writer_u16_appends [wire_simps]: "writer_u16 w v = Some (w @ be16 v)"
  by (simp add: writer_u16_def writeUint16_store store_def)

lemma writer_u64_appends [wire_simps]: "writer_u64 w v = Some (w @ be64 v)"
  by (simp add: writer_u64_def writeUint64_store store_def)

lemma writer_text_appends [wire_simps]: "writer_text w v = w @ text_field v"
proof -
  have "unat (word_of_nat (min (length v) 255) :: u8) = min (length v) 255"
    by (simp add: unat_of_nat)
  then show ?thesis
    by (simp add: writer_text_def writer_u8_def text_field_def min_def)
qed

lemmas writer_simps = writer_u8_def writer_u16_appends writer_u64_appends writer_text_appends
  writer_bytes_def


section \<open>WireBuffer.h: WireReader\<close>

record WireReader =
  rd_bytes :: bytes
  rd_failed :: bool

definition reader :: "bytes \<Rightarrow> WireReader" where
  "reader bs = \<lparr>rd_bytes = bs, rd_failed = False\<rparr>"

definition reader_next :: "nat \<Rightarrow> WireReader \<Rightarrow> bytes \<times> WireReader" where
  "reader_next n r =
     (if rd_failed r \<or> length (rd_bytes r) < n then ([], r\<lparr>rd_failed := True\<rparr>)
      else (take n (rd_bytes r), r\<lparr>rd_bytes := drop n (rd_bytes r)\<rparr>))"

definition reader_u8 :: "WireReader \<Rightarrow> u8 \<times> WireReader" where
  "reader_u8 r = (let (field, r) = reader_next 1 r in (if field = [] then 0 else field ! 0, r))"

definition reader_u16 :: "WireReader \<Rightarrow> u16 \<times> WireReader" where
  "reader_u16 r =
     (let (field, r) = reader_next 2 r
      in (if field = [] then 0 else the (readUint16 field 0), r))"

definition reader_u64 :: "WireReader \<Rightarrow> u64 \<times> WireReader" where
  "reader_u64 r =
     (let (field, r) = reader_next 8 r
      in (if field = [] then 0 else the (readUint64 field 0), r))"

definition reader_text :: "WireReader \<Rightarrow> bytes \<times> WireReader" where
  "reader_text r = (let (n, r) = reader_u8 r in reader_next (unat n) r)"

definition reader_complete :: "WireReader \<Rightarrow> bool" where
  "reader_complete r \<longleftrightarrow> \<not> rd_failed r \<and> rd_bytes r = []"

text \<open>
  The values the reader takes out of a field with \<open>the\<close> are in the field: a field that is not empty
  has the size that was asked for.
\<close>

lemma reader_next_size:
  "reader_next n r = (field, r') \<Longrightarrow> field \<noteq> [] \<Longrightarrow> length field = n"
  by (auto simp: reader_next_def split: if_splits)

lemma reader_u16_in_bounds:
  assumes "reader_next 2 r = (field, r')" and "field \<noteq> []"
  shows "\<exists>v. readUint16 field 0 = Some v"
  using reader_next_size [OF assms] by (intro readUint16_defined) simp

lemma reader_u64_in_bounds:
  assumes "reader_next 8 r = (field, r')" and "field \<noteq> []"
  shows "\<exists>v. readUint64 field 0 = Some v"
  using reader_next_size [OF assms] by (intro readUint64_defined) simp

lemma reader_next_append [wire_simps]:
  "length bs = n \<Longrightarrow> reader_next n (reader (bs @ rest)) = (bs, reader rest)"
  by (simp add: reader_next_def reader_def)

lemma reader_u8_append [wire_simps]: "reader_u8 (reader (v # rest)) = (v, reader rest)"
  by (simp add: reader_u8_def reader_next_def reader_def)

lemma reader_u16_append [wire_simps]: "reader_u16 (reader (be16 v @ rest)) = (v, reader rest)"
  using readUint16_be16 [of "[]" v "[]"]
  by (simp add: reader_u16_def reader_next_append) (metis list.size(3) length_be16 zero_neq_numeral)

lemma reader_u64_append [wire_simps]: "reader_u64 (reader (be64 v @ rest)) = (v, reader rest)"
  using readUint64_be64 [of "[]" v "[]"]
  by (simp add: reader_u64_def reader_next_append) (metis list.size(3) length_be64 zero_neq_numeral)

lemma reader_text_append [wire_simps]:
  "reader_text (reader (text_field v @ rest)) = (take 255 v, reader rest)"
proof -
  have "unat (word_of_nat (min (length v) 255) :: u8) = min (length v) 255"
    by (simp add: unat_of_nat)
  then show ?thesis
    by (simp add: reader_text_def text_field_def reader_u8_append reader_next_append min.commute)
qed

lemma reader_complete_reader [wire_simps]: "reader_complete (reader bs) \<longleftrightarrow> bs = []"
  by (simp add: reader_complete_def reader_def)

lemma reader_not_failed [wire_simps]: "\<not> rd_failed (reader bs)"
  by (simp add: reader_def)

lemma rd_bytes_reader [wire_simps]: "rd_bytes (reader bs) = bs"
  by (simp add: reader_def)

text \<open>Every read fails once one read went past the end.\<close>

lemma reader_next_failed: "rd_failed r \<Longrightarrow> reader_next n r = ([], r)"
  by (simp add: reader_next_def)

lemma reader_u8_failed: "rd_failed r \<Longrightarrow> reader_u8 r = (0, r)"
  by (simp add: reader_u8_def reader_next_failed)

lemma reader_u16_failed: "rd_failed r \<Longrightarrow> reader_u16 r = (0, r)"
  by (simp add: reader_u16_def reader_next_failed)

lemma reader_u64_failed: "rd_failed r \<Longrightarrow> reader_u64 r = (0, r)"
  by (simp add: reader_u64_def reader_next_failed)

lemma reader_text_failed: "rd_failed r \<Longrightarrow> reader_text r = ([], r)"
  by (simp add: reader_text_def reader_u8_failed reader_next_failed)

lemmas reader_failed_simps = reader_next_failed reader_u8_failed reader_u16_failed
  reader_u64_failed reader_text_failed

end
