(* ===== verification/Constants.thy ===== *)
theory Constants
  imports Prelude
begin

text \<open>
  The fixed numbers of the transport, \<open>TransportConstants.h\<close>, and the timings of a link. Durations
  keep the unit the code gives them; the record of timings is in milliseconds.
\<close>

definition PackageBufferSize :: nat where [constants]: "PackageBufferSize = 65536"
definition MaxMessagePayload :: nat where [constants]: "MaxMessagePayload = 16 * 1024 * 1024"
definition MaxMediaPayload :: nat where [constants]: "MaxMediaPayload = 64 * 1024"
definition MaxDatagramSize :: nat where [constants]: "MaxDatagramSize = 1200"

definition BeaconInterval :: int where [constants]: "BeaconInterval = seconds 2"
definition PeerExpiry :: int where [constants]: "PeerExpiry = seconds 6"
definition MaxDiscoveredPeers :: nat where [constants]: "MaxDiscoveredPeers = 1024"
definition DecisionTimeout :: int where [constants]: "DecisionTimeout = seconds 30"
definition DrainTimeout :: int where [constants]: "DrainTimeout = seconds 1"
definition CloseLinger :: int where [constants]: "CloseLinger = milliseconds 250"
definition MaxPendingSessions :: nat where [constants]: "MaxPendingSessions = 64"

definition ControlWindow :: nat where [constants]: "ControlWindow = 32"
definition ReliableWindow :: nat where [constants]: "ReliableWindow = 256"
definition BulkWindow :: nat where [constants]: "BulkWindow = 256"

definition MinCongestionWindow :: nat where [constants]: "MinCongestionWindow = 8"
definition MaxCongestionWindow :: nat where [constants]: "MaxCongestionWindow = 256"
definition InitialCongestionWindow :: nat where [constants]: "InitialCongestionWindow = 32"
definition FastRetransmitThreshold :: u64 where [constants]: "FastRetransmitThreshold = 3"
definition MinPauseProbeInterval :: int where [constants]: "MinPauseProbeInterval = 50"

definition MediaQueueMessages :: nat where [constants]: "MediaQueueMessages = 32"
definition MediaAssemblySlots :: nat where [constants]: "MediaAssemblySlots = 4"
definition BacklogPauseBytes :: nat where [constants]: "BacklogPauseBytes = 32 * 1024 * 1024"
definition BacklogResumeBytes :: nat where [constants]: "BacklogResumeBytes = 16 * 1024 * 1024"
definition AssemblyBudgetBytes :: nat where [constants]: "AssemblyBudgetBytes = 256 * 1024 * 1024"
definition DefaultSendQueueBytes :: nat where [constants]: "DefaultSendQueueBytes = 64 * 1024 * 1024"
definition DefaultMaxSendRate :: u32 where [constants]: "DefaultMaxSendRate = 80000"

text \<open>\<open>LinkTimings\<close>: durations in milliseconds, congestion windows in packets.\<close>

record LinkTimings =
  initialRto :: int
  minRto :: int
  maxRto :: int
  peerTimeout :: int
  keepAlive :: int
  initialCwnd :: nat
  fixedCwnd :: nat

definition defaultTimings :: LinkTimings where
  "defaultTimings =
     \<lparr>initialRto = 100, minRto = 20, maxRto = 1000, peerTimeout = 5000, keepAlive = 1000,
      initialCwnd = InitialCongestionWindow, fixedCwnd = 0\<rparr>"

end
