(* ===== verification/Flags.thy ===== *)
theory Flags
  imports Prelude
begin

text \<open>
  \<open>PacketFlags.h\<close>: the flags byte of a packet. The class holds one byte, \<open>mBits\<close>, so its objects
  are bytes here. The lemmas show that each setter changes its own field only, that the factories
  build flags that say what they were asked to say, and which flags \<open>isValid\<close> lets through.
\<close>

unbundle bit_operations_syntax

datatype PacketKind = Data | Ack | Ping | Beacon

datatype Lane = Control | Reliable | Bulk | Media

datatype FlagBit = Fragmented | LastFragment | Paused | Encrypted

type_synonym PacketFlags = u8

fun kindValue :: "PacketKind \<Rightarrow> u8" where
  "kindValue Data = 0" | "kindValue Ack = 1" | "kindValue Ping = 2" | "kindValue Beacon = 3"

fun laneValue :: "Lane \<Rightarrow> u8" where
  "laneValue Control = 0" | "laneValue Reliable = 1" | "laneValue Bulk = 2" | "laneValue Media = 3"

fun bitValue :: "FlagBit \<Rightarrow> u8" where
  "bitValue Fragmented = push_bit 4 1" | "bitValue LastFragment = push_bit 5 1"
| "bitValue Paused = push_bit 6 1" | "bitValue Encrypted = push_bit 7 1"

definition KindMask :: u8 where "KindMask = 0x03"
definition LaneMask :: u8 where "LaneMask = 0x0C"
definition LaneShift :: nat where "LaneShift = 2"

text \<open>\<open>static_cast\<close> to an enumeration: the masks leave two bits, which are one of four values.\<close>

definition toKind :: "u8 \<Rightarrow> PacketKind" where
  "toKind v = (if v = 0 then Data else if v = 1 then Ack else if v = 2 then Ping else Beacon)"

definition toLane :: "u8 \<Rightarrow> Lane" where
  "toLane v = (if v = 0 then Control else if v = 1 then Reliable else if v = 2 then Bulk else Media)"

definition kind :: "PacketFlags \<Rightarrow> PacketKind" where
  "kind mBits = toKind (mBits AND KindMask)"

definition lane :: "PacketFlags \<Rightarrow> Lane" where
  "lane mBits = toLane (drop_bit LaneShift (mBits AND LaneMask))"

definition has :: "PacketFlags \<Rightarrow> FlagBit \<Rightarrow> bool" where
  "has mBits b \<longleftrightarrow> mBits AND bitValue b \<noteq> 0"

definition isFragmented :: "PacketFlags \<Rightarrow> bool" where
  "isFragmented f = has f Fragmented"

definition isLastFragment :: "PacketFlags \<Rightarrow> bool" where
  "isLastFragment f = has f LastFragment"

definition isPaused :: "PacketFlags \<Rightarrow> bool" where
  "isPaused f = has f Paused"

definition setKind :: "PacketFlags \<Rightarrow> PacketKind \<Rightarrow> PacketFlags" where
  "setKind mBits k = (mBits AND NOT KindMask) OR kindValue k"

definition setLane :: "PacketFlags \<Rightarrow> Lane \<Rightarrow> PacketFlags" where
  "setLane mBits l = (mBits AND NOT LaneMask) OR push_bit LaneShift (laneValue l)"

definition setBit :: "PacketFlags \<Rightarrow> FlagBit \<Rightarrow> bool \<Rightarrow> PacketFlags" where
  "setBit mBits b on = (if on then mBits OR bitValue b else mBits AND NOT (bitValue b))"

definition setFragment :: "PacketFlags \<Rightarrow> bool \<Rightarrow> bool \<Rightarrow> PacketFlags" where
  "setFragment f fragmented lastOne =
     setBit (setBit f Fragmented fragmented) LastFragment (fragmented \<and> lastOne)"

definition isValid :: "PacketFlags \<Rightarrow> bool" where
  "isValid f =
     (if has f Encrypted then False
      else if isLastFragment f \<and> \<not> isFragmented f then False
      else if isFragmented f \<and> kind f \<noteq> Data then False
      else if isPaused f \<and> kind f \<noteq> Ack then False
      else if (kind f = Ack \<or> kind f = Ping) \<and> lane f = Media then False
      else if kind f = Beacon \<and> f AND NOT KindMask \<noteq> 0 then False
      else True)"

definition dataFlags :: "Lane \<Rightarrow> PacketFlags" where
  "dataFlags l = setLane (setKind 0 Data) l"

definition ackFlags :: "Lane \<Rightarrow> bool \<Rightarrow> PacketFlags" where
  "ackFlags l pa = setBit (setLane (setKind 0 Ack) l) Paused pa"

definition pingFlags :: "Lane \<Rightarrow> PacketFlags" where
  "pingFlags l = setLane (setKind 0 Ping) l"

lemmas flag_defs = kind_def lane_def has_def isFragmented_def isLastFragment_def isPaused_def
  setKind_def setLane_def setBit_def setFragment_def isValid_def toKind_def toLane_def
  KindMask_def LaneMask_def LaneShift_def

section \<open>Fields and bits\<close>

text \<open>A flags byte is its eight bits; each accessor reads its own ones.\<close>

lemma u8_eq:
  "(w :: u8) = v \<longleftrightarrow> bit w 0 = bit v 0 \<and> bit w 1 = bit v 1 \<and> bit w 2 = bit v 2 \<and>
     bit w 3 = bit v 3 \<and> bit w 4 = bit v 4 \<and> bit w 5 = bit v 5 \<and> bit w 6 = bit v 6 \<and>
     bit w 7 = bit v 7" (is "_ \<longleftrightarrow> ?bits")
proof
  assume bits: ?bits
  show "w = v"
  proof (rule bit_word_eqI)
    fix n assume "n < LENGTH(8)"
    then have "n \<in> {0, 1, 2, 3, 4, 5, 6, 7}" by auto
    then show "bit w n = bit v n" using bits by auto
  qed
qed simp

lemma kind_bits:
  "kind f = (if bit f 0 then if bit f 1 then Beacon else Ack else if bit f 1 then Ping else Data)"
  by (simp add: kind_def toKind_def KindMask_def u8_eq bit_simps)

lemma lane_bits:
  "lane f = (if bit f 2 then if bit f 3 then Media else Reliable else if bit f 3 then Bulk else Control)"
  by (simp add: lane_def toLane_def LaneMask_def LaneShift_def u8_eq bit_simps)

lemma has_bits:
  "has f Fragmented = bit f 4" "has f LastFragment = bit f 5" "has f Paused = bit f 6"
  "has f Encrypted = bit f 7"
  by (simp_all add: has_def u8_eq bit_simps)

lemmas field_bits = kind_bits lane_bits has_bits bit_simps

text \<open>Each setter changes its own field and nothing else.\<close>

lemma setKind_fields [simp]:
  "kind (setKind f k) = k" "lane (setKind f k) = lane f" "has (setKind f k) b = has f b"
  by (cases k; cases b; simp add: setKind_def KindMask_def field_bits)+

lemma setLane_fields [simp]:
  "lane (setLane f l) = l" "kind (setLane f l) = kind f" "has (setLane f l) b = has f b"
  by (cases l; cases b; simp add: setLane_def LaneMask_def LaneShift_def field_bits)+

lemma setBit_fields [simp]:
  "kind (setBit f b on) = kind f" "lane (setBit f b on) = lane f"
  "has (setBit f b on) c = (if c = b then on else has f c)"
  by (cases b; cases c; simp add: setBit_def field_bits)+

text \<open>The two fields and the four bits determine the byte.\<close>

lemma flags_eqI:
  assumes "kind f = kind g" and "lane f = lane g" and "\<And>b. has f b = has g b"
  shows "f = g"
  using assms(1,2) assms(3) [of Fragmented] assms(3) [of LastFragment] assms(3) [of Paused]
    assms(3) [of Encrypted]
  by (simp add: u8_eq kind_bits lane_bits has_bits split: if_splits)

lemma empty_flags [simp]:
  "kind 0 = Data" "lane 0 = Control" "\<not> has 0 b"
  by (simp_all add: flag_defs)

lemma setFragment_fields [simp]:
  "kind (setFragment f fr la) = kind f" "lane (setFragment f fr la) = lane f"
  "isFragmented (setFragment f fr la) = fr" "isLastFragment (setFragment f fr la) = (fr \<and> la)"
  "isPaused (setFragment f fr la) = isPaused f" "has (setFragment f fr la) Encrypted = has f Encrypted"
  by (simp_all add: setFragment_def isFragmented_def isLastFragment_def isPaused_def)

lemma dataFlags_fields [simp]:
  "kind (dataFlags l) = Data" "lane (dataFlags l) = l" "\<not> isFragmented (dataFlags l)"
  "\<not> isLastFragment (dataFlags l)" "\<not> isPaused (dataFlags l)" "\<not> has (dataFlags l) Encrypted"
  by (simp_all add: dataFlags_def isFragmented_def isLastFragment_def isPaused_def)

lemma ackFlags_fields [simp]:
  "kind (ackFlags l pa) = Ack" "lane (ackFlags l pa) = l" "\<not> isFragmented (ackFlags l pa)"
  "\<not> isLastFragment (ackFlags l pa)" "isPaused (ackFlags l pa) = pa" "\<not> has (ackFlags l pa) Encrypted"
  by (simp_all add: ackFlags_def isFragmented_def isLastFragment_def isPaused_def)

lemma pingFlags_fields [simp]:
  "kind (pingFlags l) = Ping" "lane (pingFlags l) = l" "\<not> isFragmented (pingFlags l)"
  "\<not> isLastFragment (pingFlags l)" "\<not> isPaused (pingFlags l)" "\<not> has (pingFlags l) Encrypted"
  by (simp_all add: pingFlags_def isFragmented_def isLastFragment_def isPaused_def)

text \<open>Everything a link sends passes \<open>isValid\<close>, as long as it does not acknowledge Media.\<close>

lemma isValid_data: "isValid (dataFlags l)"
  by (simp add: isValid_def)

lemma isValid_fragment: "isValid (setFragment (dataFlags l) True la)"
  by (simp add: isValid_def)

lemma isValid_ack: "l \<noteq> Media \<Longrightarrow> isValid (ackFlags l pa)"
  by (simp add: isValid_def)

lemma isValid_ping: "l \<noteq> Media \<Longrightarrow> isValid (pingFlags l)"
  by (simp add: isValid_def)

end
