(* ===== verification/PacketHeader.thy ===== *)
theory PacketHeader
  imports Wire Constants Flags
begin

text \<open>
  \<open>PacketHeader.h\<close>: the header of every datagram of a link and its binary encoding.

  The header is written field by field into a buffer (\<open>encodeHeader\<close>) and read back from the
  datagram with every check the code makes (\<open>decodeHeader\<close>, \<open>decodePacket\<close>). The lemmas show that
  the buffer ends up holding the concatenated fields, that decoding never reads outside the datagram
  whatever its bytes are, that decoding what was encoded gives the header back as far as it is on
  the wire, and which headers the decoder lets through.
\<close>

unbundle bit_operations_syntax

section \<open>Definitions\<close>

definition ProtocolMagic :: u16 where [constants]: "ProtocolMagic = 0x4E4C"
definition ProtocolVersion :: u8 where [constants]: "ProtocolVersion = 3"
definition BaseHeaderSize :: nat where [constants]: "BaseHeaderSize = 20"
definition FragmentExtensionSize :: nat where [constants]: "FragmentExtensionSize = 4"
definition TagExtensionSize :: nat where [constants]: "TagExtensionSize = 4"
definition LengthExtensionSize :: nat where [constants]: "LengthExtensionSize = 4"

definition MaxHeaderSize :: nat where [constants]:
  "MaxHeaderSize = BaseHeaderSize + FragmentExtensionSize + TagExtensionSize + LengthExtensionSize"

definition MaxFragmentBody :: nat where [constants]:
  "MaxFragmentBody = MaxDatagramSize - MaxHeaderSize"

definition fragmentsOf :: "nat \<Rightarrow> nat" where
  "fragmentsOf len = (if len = 0 then 1 else (len + MaxFragmentBody - 1) div MaxFragmentBody)"

definition maxMessageSize :: "Lane \<Rightarrow> nat" where
  "maxMessageSize l = (if l = Media then MaxMediaPayload else MaxMessagePayload)"

record PacketHeader =
  flags :: PacketFlags
  srcStreamID :: u32
  dstStreamID :: u32
  seq :: u64
  fragIndex :: u16
  fragCount :: u16
  tag :: u32
  totalLength :: u32

definition emptyHeader :: PacketHeader where
  "emptyHeader =
     \<lparr>flags = 0, srcStreamID = 0, dstStreamID = 0, seq = 0, fragIndex = 0, fragCount = 0, tag = 0,
      totalLength = 0\<rparr>"

definition startsMessage :: "PacketHeader \<Rightarrow> bool" where
  "startsMessage h \<longleftrightarrow> kind (flags h) = Data \<and> (\<not> isFragmented (flags h) \<or> fragIndex h = 0)"

definition startsFragmentedMessage :: "PacketHeader \<Rightarrow> bool" where
  "startsFragmentedMessage h \<longleftrightarrow> isFragmented (flags h) \<and> fragIndex h = 0"

definition encodedSize :: "PacketHeader \<Rightarrow> nat" where
  "encodedSize h =
     BaseHeaderSize + (if isFragmented (flags h) then FragmentExtensionSize else 0) +
     (if startsMessage h then TagExtensionSize else 0) +
     (if startsFragmentedMessage h then LengthExtensionSize else 0)"

text \<open>A packet that was decoded: its header, and the body that points into the datagram.\<close>

record DecodedPacket =
  pkt_header :: PacketHeader
  pkt_body :: bytes

text \<open>\<open>encodeHeader(header, out)\<close>: the number of bytes written, and the buffer.\<close>

definition encodeHeader :: "PacketHeader \<Rightarrow> bytes \<Rightarrow> (nat \<times> bytes) option" where
  "encodeHeader h out =
     do { out \<leftarrow> writeUint16 out 0 ProtocolMagic;
          out \<leftarrow> store out 2 [ProtocolVersion];
          out \<leftarrow> store out 3 [flags h];
          out \<leftarrow> writeUint32 out 4 (srcStreamID h);
          out \<leftarrow> writeUint32 out 8 (dstStreamID h);
          out \<leftarrow> writeUint64 out 12 (seq h);
          let sz = BaseHeaderSize;
          (sz, out) \<leftarrow>
            (if isFragmented (flags h)
             then do { out \<leftarrow> writeUint16 out sz (fragIndex h);
                       out \<leftarrow> writeUint16 out (sz + 2) (fragCount h);
                       Some (sz + FragmentExtensionSize, out) }
             else Some (sz, out));
          (sz, out) \<leftarrow>
            (if startsMessage h
             then do { out \<leftarrow> writeUint32 out sz (tag h); Some (sz + TagExtensionSize, out) }
             else Some (sz, out));
          if startsFragmentedMessage h
          then do { out \<leftarrow> writeUint32 out sz (totalLength h); Some (sz + LengthExtensionSize, out) }
          else Some (sz, out) }"

definition encodePacket :: "PacketHeader \<Rightarrow> bytes \<Rightarrow> bytes option" where
  "encodePacket h body =
     do { (headerSize, datagram) \<leftarrow> encodeHeader h (replicate (encodedSize h + length body) 0);
          if body \<noteq> [] then store datagram headerSize body else Some datagram }"

text \<open>
  \<open>decodeHeader\<close>: the outer option is a fault (a read outside the datagram), the inner one the
  \<open>std::optional\<close> of the code. The three extensions of the header are read one after another; each
  stage gets the offset it starts at and the header so far.
\<close>

definition decodeFragmentExt :: "bytes \<Rightarrow> nat \<Rightarrow> PacketHeader \<Rightarrow> (nat \<times> PacketHeader) option option" where
  "decodeFragmentExt datagram sz h =
     (if isFragmented (flags h) then
        if length datagram < sz + FragmentExtensionSize then Some None else
        do { index \<leftarrow> readUint16 datagram sz;
             count \<leftarrow> readUint16 datagram (sz + 2);
             let h = h\<lparr>fragIndex := index, fragCount := count\<rparr>;
             if unat count < 2 \<or> unat count > fragmentsOf (maxMessageSize (lane (flags h))) \<or> index \<ge> count
             then Some None
             else if isLastFragment (flags h) \<noteq> (unat index + 1 = unat count) then Some None
             else Some (Some (sz + FragmentExtensionSize, h)) }
      else Some (Some (sz, h)))"

definition decodeTagExt :: "bytes \<Rightarrow> nat \<Rightarrow> PacketHeader \<Rightarrow> (nat \<times> PacketHeader) option option" where
  "decodeTagExt datagram sz h =
     (if startsMessage h then
        if length datagram < sz + TagExtensionSize then Some None else
        do { t \<leftarrow> readUint32 datagram sz; Some (Some (sz + TagExtensionSize, h\<lparr>tag := t\<rparr>)) }
      else Some (Some (sz, h)))"

definition decodeLengthExt :: "bytes \<Rightarrow> nat \<Rightarrow> PacketHeader \<Rightarrow> (nat \<times> PacketHeader) option option" where
  "decodeLengthExt datagram sz h =
     (if startsFragmentedMessage h then
        if length datagram < sz + LengthExtensionSize then Some None else
        do { total \<leftarrow> readUint32 datagram sz;
             let h = h\<lparr>totalLength := total\<rparr>;
             if unat total > maxMessageSize (lane (flags h)) \<or> fragmentsOf (unat total) \<noteq> unat (fragCount h)
             then Some None
             else Some (Some (sz + LengthExtensionSize, h)) }
      else Some (Some (sz, h)))"

definition decodeHeader :: "bytes \<Rightarrow> DecodedPacket option option" where
  "decodeHeader datagram =
     (if length datagram < BaseHeaderSize then Some None else
      do { magic \<leftarrow> readUint16 datagram 0;
           ver \<leftarrow> fetch datagram 2;
           if magic \<noteq> ProtocolMagic \<or> ver \<noteq> ProtocolVersion then Some None else
           do { fl \<leftarrow> fetch datagram 3;
                if \<not> isValid fl \<or> kind fl = Beacon then Some None else
                do { src \<leftarrow> readUint32 datagram 4;
                     dst \<leftarrow> readUint32 datagram 8;
                     sq \<leftarrow> readUint64 datagram 12;
                     let h = emptyHeader\<lparr>flags := fl, srcStreamID := src, dstStreamID := dst, seq := sq\<rparr>;
                     if src = 0 \<or> (kind fl = Data \<and> sq = 0) then Some None else
                     do { r \<leftarrow> decodeFragmentExt datagram BaseHeaderSize h;
                          case r of None \<Rightarrow> Some None | Some (sz, h) \<Rightarrow>
                          do { r \<leftarrow> decodeTagExt datagram sz h;
                               case r of None \<Rightarrow> Some None | Some (sz, h) \<Rightarrow>
                               do { r \<leftarrow> decodeLengthExt datagram sz h;
                                    case r of None \<Rightarrow> Some None | Some (sz, h) \<Rightarrow>
                                    Some (Some \<lparr>pkt_header = h, pkt_body = drop sz datagram\<rparr>) } } } } } })"

definition isBodySizeValid :: "PacketHeader \<Rightarrow> nat \<Rightarrow> bool" where
  "isBodySizeValid h n =
     (case kind (flags h) of
        Data \<Rightarrow>
          if \<not> isFragmented (flags h) then n \<le> MaxFragmentBody
          else if isLastFragment (flags h) then n > 0 \<and> n \<le> MaxFragmentBody
          else n = MaxFragmentBody
      | Ping \<Rightarrow> n = 0
      | Ack \<Rightarrow> True
      | Beacon \<Rightarrow> True)"

definition decodePacket :: "bytes \<Rightarrow> DecodedPacket option option" where
  "decodePacket datagram =
     (if length datagram > MaxDatagramSize then Some None else
      do { packet \<leftarrow> decodeHeader datagram;
           case packet of None \<Rightarrow> Some None
           | Some p \<Rightarrow> if isBodySizeValid (pkt_header p) (length (pkt_body p)) then Some (Some p) else Some None })"


section \<open>Encoding\<close>

text \<open>The header on the wire: the fields one after another.\<close>

definition header_bytes :: "PacketHeader \<Rightarrow> bytes" where
  "header_bytes h =
     be16 ProtocolMagic @ [ProtocolVersion] @ [flags h] @ be32 (srcStreamID h) @ be32 (dstStreamID h) @
     be64 (seq h) @
     (if isFragmented (flags h) then be16 (fragIndex h) @ be16 (fragCount h) else []) @
     (if startsMessage h then be32 (tag h) else []) @
     (if startsFragmentedMessage h then be32 (totalLength h) else [])"

lemma length_header_bytes [simp]: "length (header_bytes h) = encodedSize h"
  by (simp add: header_bytes_def encodedSize_def constants)

lemma encodedSize_max: "encodedSize h \<le> MaxHeaderSize"
  by (simp add: encodedSize_def constants)

text \<open>The writes of \<open>encodeHeader\<close> are one write of the whole header.\<close>

lemma encodeHeader_store:
  "encodeHeader h out = Option.bind (store out 0 (header_bytes h)) (\<lambda>out. Some (encodedSize h, out))"
  by (cases "isFragmented (flags h)"; cases "startsMessage h"; cases "startsFragmentedMessage h")
    (simp_all add: encodeHeader_def header_bytes_def encodedSize_def writeUint16_store
      writeUint32_store writeUint64_store store_store constants
      del: append_Cons add_2_eq_Suc add_2_eq_Suc')

lemma encodeHeader_eq:
  assumes "encodedSize h \<le> length out"
  shows "encodeHeader h out = Some (encodedSize h, header_bytes h @ drop (encodedSize h) out)"
  using assms by (simp add: encodeHeader_store store_def)

lemma encodePacket_eq: "encodePacket h body = Some (header_bytes h @ body)"
  by (auto simp: encodePacket_def encodeHeader_eq store_def)


section \<open>Decoding\<close>

text \<open>The header as far as it is on the wire: what a receiver can know about it.\<close>

definition wire_view :: "PacketHeader \<Rightarrow> PacketHeader" where
  "wire_view h =
     h\<lparr>fragIndex := (if isFragmented (flags h) then fragIndex h else 0),
       fragCount := (if isFragmented (flags h) then fragCount h else 0),
       tag := (if startsMessage h then tag h else 0),
       totalLength := (if startsFragmentedMessage h then totalLength h else 0)\<rparr>"

text \<open>The headers the decoder takes.\<close>

definition header_ok :: "PacketHeader \<Rightarrow> bool" where
  "header_ok h \<longleftrightarrow>
     isValid (flags h) \<and> kind (flags h) \<noteq> Beacon \<and> srcStreamID h \<noteq> 0 \<and>
     (kind (flags h) = Data \<longrightarrow> seq h \<noteq> 0) \<and>
     (isFragmented (flags h) \<longrightarrow>
        2 \<le> unat (fragCount h) \<and> unat (fragCount h) \<le> fragmentsOf (maxMessageSize (lane (flags h))) \<and>
        fragIndex h < fragCount h \<and>
        isLastFragment (flags h) = (unat (fragIndex h) + 1 = unat (fragCount h)) \<and>
        (fragIndex h = 0 \<longrightarrow>
           unat (totalLength h) \<le> maxMessageSize (lane (flags h)) \<and>
           fragmentsOf (unat (totalLength h)) = unat (fragCount h)))"

lemma readUint16_at [wire_simps]: "n = length pre \<Longrightarrow> readUint16 (pre @ be16 v @ post) n = Some v"
  by (simp add: readUint16_be16)

lemma readUint32_at [wire_simps]: "n = length pre \<Longrightarrow> readUint32 (pre @ be32 v @ post) n = Some v"
  by (simp add: readUint32_be32)

lemma readUint64_at [wire_simps]: "n = length pre \<Longrightarrow> readUint64 (pre @ be64 v @ post) n = Some v"
  by (simp add: readUint64_be64)

definition base_bytes :: "PacketHeader \<Rightarrow> bytes" where
  "base_bytes h =
     be16 ProtocolMagic @ [ProtocolVersion] @ [flags h] @ be32 (srcStreamID h) @ be32 (dstStreamID h) @
     be64 (seq h)"

lemma length_base_bytes [simp]: "length (base_bytes h) = BaseHeaderSize"
  by (simp add: base_bytes_def constants)

lemma read_base:
  "readUint16 (base_bytes h @ rest) 0 = Some ProtocolMagic"
  "fetch (base_bytes h @ rest) 2 = Some ProtocolVersion"
  "fetch (base_bytes h @ rest) 3 = Some (flags h)"
  "readUint32 (base_bytes h @ rest) 4 = Some (srcStreamID h)"
  "readUint32 (base_bytes h @ rest) 8 = Some (dstStreamID h)"
  "readUint64 (base_bytes h @ rest) 12 = Some (seq h)"
proof -
  let ?m = "be16 ProtocolMagic" and ?s = "be32 (srcStreamID h)" and ?d = "be32 (dstStreamID h)"
    and ?q = "be64 (seq h)"
  let ?v = "[ProtocolVersion] @ [flags h]"
  show "readUint16 (base_bytes h @ rest) 0 = Some ProtocolMagic"
    using readUint16_at [of 0 "[]"] by (simp add: base_bytes_def)
  show "fetch (base_bytes h @ rest) 2 = Some ProtocolVersion"
    by (simp add: base_bytes_def fetch_def nth_append)
  show "fetch (base_bytes h @ rest) 3 = Some (flags h)"
    by (simp add: base_bytes_def fetch_def nth_append)
  show "readUint32 (base_bytes h @ rest) 4 = Some (srcStreamID h)"
    using readUint32_at [of 4 "?m @ ?v" "srcStreamID h" "?d @ ?q @ rest"] by (simp add: base_bytes_def)
  show "readUint32 (base_bytes h @ rest) 8 = Some (dstStreamID h)"
    using readUint32_at [of 8 "?m @ ?v @ ?s" "dstStreamID h" "?q @ rest"] by (simp add: base_bytes_def)
  show "readUint64 (base_bytes h @ rest) 12 = Some (seq h)"
    using readUint64_at [of 12 "?m @ ?v @ ?s @ ?d" "seq h" rest] by (simp add: base_bytes_def)
qed

lemma decodeHeader_header_bytes:
  assumes ok: "header_ok h"
  shows "decodeHeader (header_bytes h @ body) = Some (Some \<lparr>pkt_header = wire_view h, pkt_body = body\<rparr>)"
proof -
  define fb where "fb = (if isFragmented (flags h) then be16 (fragIndex h) @ be16 (fragCount h) else [])"
  define tb where "tb = (if startsMessage h then be32 (tag h) else [])"
  define lb where "lb = (if startsFragmentedMessage h then be32 (totalLength h) else [])"
  let ?dg = "base_bytes h @ fb @ tb @ lb @ body"
  have dg: "header_bytes h @ body = ?dg"
    by (simp add: header_bytes_def base_bytes_def fb_def tb_def lb_def)
  define h0 where "h0 = emptyHeader\<lparr>flags := flags h, srcStreamID := srcStreamID h,
    dstStreamID := dstStreamID h, seq := seq h\<rparr>"
  define h1 where "h1 = (if isFragmented (flags h) then h0\<lparr>fragIndex := fragIndex h, fragCount := fragCount h\<rparr> else h0)"
  define h2 where "h2 = (if startsMessage h then h1\<lparr>tag := tag h\<rparr> else h1)"
  define h3 where "h3 = (if startsFragmentedMessage h then h2\<lparr>totalLength := totalLength h\<rparr> else h2)"
  let ?n1 = "BaseHeaderSize + length fb" let ?n2 = "?n1 + length tb" let ?n3 = "?n2 + length lb"
  have s1: "decodeFragmentExt ?dg BaseHeaderSize h0 = Some (Some (?n1, h1))"
    using ok readUint16_at [of BaseHeaderSize "base_bytes h" "fragIndex h" "be16 (fragCount h) @ tb @ lb @ body"]
      readUint16_at [of "BaseHeaderSize + 2" "base_bytes h @ be16 (fragIndex h)" "fragCount h" "tb @ lb @ body"]
    by (auto simp: decodeFragmentExt_def header_ok_def h0_def h1_def fb_def constants emptyHeader_def Let_def)
  have sm: "startsMessage h1 = startsMessage h" and sf: "startsFragmentedMessage h2 = startsFragmentedMessage h"
    by (auto simp: startsMessage_def startsFragmentedMessage_def h0_def h1_def h2_def emptyHeader_def)
  have s2: "decodeTagExt ?dg ?n1 h1 = Some (Some (?n2, h2))"
    using readUint32_at [of ?n1 "base_bytes h @ fb" "tag h" "lb @ body"]
    by (auto simp: decodeTagExt_def sm h2_def tb_def constants)
  have s3: "decodeLengthExt ?dg ?n2 h2 = Some (Some (?n3, h3))"
    using ok readUint32_at [of ?n2 "base_bytes h @ fb @ tb" "totalLength h" body]
    by (auto simp: decodeLengthExt_def sf header_ok_def h0_def h1_def h2_def h3_def lb_def constants
        startsFragmentedMessage_def Let_def)
  have "h3 = wire_view h"
    by (simp add: h0_def h1_def h2_def h3_def wire_view_def emptyHeader_def)
  then show ?thesis
    using ok by (simp add: dg decodeHeader_def read_base s1 s2 s3 header_ok_def Let_def flip: h0_def)
qed

text \<open>Reads fault outside the datagram and nowhere else, so the size checks keep the decoder safe.\<close>

lemma fetch_None [simp]: "fetch inb off = None \<longleftrightarrow> length inb \<le> off"
  by (simp add: fetch_def)

lemma readUint16_None [simp]: "readUint16 inb off = None \<longleftrightarrow> length inb < off + 2"
  by (auto simp: readUint16_def fetch_def)

lemma readUint32_None [simp]: "readUint32 inb off = None \<longleftrightarrow> length inb < off + 4"
  by (auto simp: readUint32_def fetch_def)

lemma readUint64_None [simp]: "readUint64 inb off = None \<longleftrightarrow> length inb < off + 8"
  by (auto simp: readUint64_def readUint32_def fetch_def)

lemma decodeFragmentExt_safe: "decodeFragmentExt d n h \<noteq> None"
  by (auto simp: decodeFragmentExt_def Let_def constants split: bind_splits)

lemma decodeTagExt_safe: "decodeTagExt d n h \<noteq> None"
  by (auto simp: decodeTagExt_def constants split: bind_splits)

lemma decodeLengthExt_safe: "decodeLengthExt d n h \<noteq> None"
  by (auto simp: decodeLengthExt_def Let_def constants split: bind_splits)

lemma decodeHeader_safe: "decodeHeader d \<noteq> None"
  by (auto simp: decodeHeader_def Let_def constants decodeFragmentExt_safe decodeTagExt_safe
      decodeLengthExt_safe split: bind_splits option.splits)

text \<open>What each stage read, and what it checked.\<close>

lemma decodeFragmentExt_Some:
  assumes "decodeFragmentExt d n h = Some (Some (n', h'))" and "n \<le> length d"
  obtains index count where
    "h' = (if isFragmented (flags h) then h\<lparr>fragIndex := index, fragCount := count\<rparr> else h)"
    "n' \<le> length d" "n \<le> n'"
    "take (n' - n) (drop n d) = (if isFragmented (flags h) then be16 index @ be16 count else [])"
    "isFragmented (flags h) \<Longrightarrow> 2 \<le> unat count \<and> unat count \<le> fragmentsOf (maxMessageSize (lane (flags h))) \<and>
       index < count \<and> isLastFragment (flags h) = (unat index + 1 = unat count)"
proof (cases "isFragmented (flags h)")
  case True
  with assms obtain index count where
    r: "readUint16 d n = Some index" "readUint16 d (n + 2) = Some count"
    and len: "n + 4 \<le> length d"
    and c: "2 \<le> unat count \<and> unat count \<le> fragmentsOf (maxMessageSize (lane (flags h))) \<and>
       index < count \<and> isLastFragment (flags h) = (unat index + 1 = unat count)"
    and h': "h' = h\<lparr>fragIndex := index, fragCount := count\<rparr>" "n' = n + 4"
    by (auto simp: decodeFragmentExt_def Let_def constants not_le not_less split: bind_splits if_splits)
  have "take 4 (drop n d) = be16 index @ be16 count"
    using readUint16_bytes [OF r(1)] readUint16_bytes [OF r(2)] take_add [of 2 2 "drop n d"]
    by (simp add: add.commute)
  then show ?thesis
    using that [of count index] True c h' len by simp
next
  case False
  then show ?thesis using assms that [of 0 0] by (simp add: decodeFragmentExt_def)
qed

lemma decodeTagExt_Some:
  assumes "decodeTagExt d n h = Some (Some (n', h'))" and "n \<le> length d"
  obtains t where "h' = (if startsMessage h then h\<lparr>tag := t\<rparr> else h)" "n' \<le> length d" "n \<le> n'"
    "take (n' - n) (drop n d) = (if startsMessage h then be32 t else [])"
  using assms readUint32_bytes
  by (auto simp: decodeTagExt_def constants split: bind_splits if_splits)

lemma decodeLengthExt_Some:
  assumes "decodeLengthExt d n h = Some (Some (n', h'))" and "n \<le> length d"
  obtains total where "h' = (if startsFragmentedMessage h then h\<lparr>totalLength := total\<rparr> else h)"
    "n' \<le> length d" "n \<le> n'"
    "take (n' - n) (drop n d) = (if startsFragmentedMessage h then be32 total else [])"
    "startsFragmentedMessage h \<Longrightarrow> unat total \<le> maxMessageSize (lane (flags h)) \<and>
       fragmentsOf (unat total) = unat (fragCount h)"
  using assms readUint32_bytes
  by (auto simp: decodeLengthExt_def Let_def constants split: bind_splits if_splits)

lemma drop_split: "n \<le> n' \<Longrightarrow> drop n xs = take (n' - n) (drop n xs) @ drop n' xs"
  by (metis append_take_drop_id drop_drop le_add_diff_inverse2)

lemma base_bytes_read:
  assumes "readUint16 d 0 = Some ProtocolMagic" "fetch d 2 = Some ProtocolVersion" "fetch d 3 = Some (flags h)"
    "readUint32 d 4 = Some (srcStreamID h)" "readUint32 d 8 = Some (dstStreamID h)"
    "readUint64 d 12 = Some (seq h)"
  shows "d = base_bytes h @ drop 20 d"
proof -
  have f: "take 1 (drop 2 d) = [ProtocolVersion]" "take 1 (drop 3 d) = [flags h]"
    using assms(2,3) by (auto simp: fetch_def take_Suc_conv_app_nth hd_drop_conv_nth take_Suc split: if_splits)
  have "d = take 2 (drop 0 d) @ take 1 (drop 2 d) @ take 1 (drop 3 d) @ take 4 (drop 4 d) @
      take 4 (drop 8 d) @ take 8 (drop 12 d) @ drop 20 d"
    using drop_split [of 0 2 d] drop_split [of 2 3 d] drop_split [of 3 4 d] drop_split [of 4 8 d]
      drop_split [of 8 12 d] drop_split [of 12 20 d] by simp
  then show ?thesis
    by (simp only: readUint16_bytes [OF assms(1)] f readUint32_bytes [OF assms(4)]
        readUint32_bytes [OF assms(5)] readUint64_bytes [OF assms(6)] base_bytes_def append_assoc)
qed

lemma decodeHeader_sound:
  assumes "decodeHeader d = Some (Some p)"
  shows "header_ok (pkt_header p) \<and> wire_view (pkt_header p) = pkt_header p \<and>
    d = header_bytes (pkt_header p) @ pkt_body p"
proof -
  obtain fl src dst sq n1 h1 n2 h2 n3 h3 where
    base: "readUint16 d 0 = Some ProtocolMagic" "fetch d 2 = Some ProtocolVersion" "fetch d 3 = Some fl"
      "readUint32 d 4 = Some src" "readUint32 d 8 = Some dst" "readUint64 d 12 = Some sq"
    and chk: "20 \<le> length d" "isValid fl" "kind fl \<noteq> Beacon" "src \<noteq> 0" "kind fl = Data \<longrightarrow> sq \<noteq> 0"
    and s1: "decodeFragmentExt d 20 (emptyHeader\<lparr>flags := fl, srcStreamID := src, dstStreamID := dst, seq := sq\<rparr>)
      = Some (Some (n1, h1))"
    and s2: "decodeTagExt d n1 h1 = Some (Some (n2, h2))"
    and s3: "decodeLengthExt d n2 h2 = Some (Some (n3, h3))"
    and p: "p = \<lparr>pkt_header = h3, pkt_body = drop n3 d\<rparr>"
    using assms by (auto simp: decodeHeader_def Let_def constants not_less split: bind_splits if_splits option.splits)
  define h0 where "h0 = emptyHeader\<lparr>flags := fl, srcStreamID := src, dstStreamID := dst, seq := sq\<rparr>"
  have f0: "flags h0 = fl"
    by (simp add: h0_def)
  obtain a b where r1': "h1 = (if isFragmented (flags h0) then h0\<lparr>fragIndex := a, fragCount := b\<rparr> else h0)"
    "n1 \<le> length d" "20 \<le> n1"
    "take (n1 - 20) (drop 20 d) = (if isFragmented (flags h0) then be16 a @ be16 b else [])"
    "isFragmented (flags h0) \<Longrightarrow> 2 \<le> unat b \<and> unat b \<le> fragmentsOf (maxMessageSize (lane (flags h0))) \<and>
       a < b \<and> isLastFragment (flags h0) = (unat a + 1 = unat b)"
    using decodeFragmentExt_Some [OF s1 [folded h0_def] chk(1)] by blast
  note r1 = r1' [unfolded f0]
  obtain t where r2: "h2 = (if startsMessage h1 then h1\<lparr>tag := t\<rparr> else h1)" "n2 \<le> length d" "n1 \<le> n2"
    "take (n2 - n1) (drop n1 d) = (if startsMessage h1 then be32 t else [])"
    using decodeTagExt_Some [OF s2 r1(2)] .
  obtain l where r3: "h3 = (if startsFragmentedMessage h2 then h2\<lparr>totalLength := l\<rparr> else h2)" "n3 \<le> length d" "n2 \<le> n3"
    "take (n3 - n2) (drop n2 d) = (if startsFragmentedMessage h2 then be32 l else [])"
    "startsFragmentedMessage h2 \<Longrightarrow> unat l \<le> maxMessageSize (lane (flags h2)) \<and> fragmentsOf (unat l) = unat (fragCount h2)"
    using decodeLengthExt_Some [OF s3 r2(2)] by blast
  have fl: "flags h1 = fl" "flags h2 = fl" "flags h3 = fl" "fragIndex h2 = fragIndex h1" "fragIndex h3 = fragIndex h1"
    "fragCount h2 = fragCount h1" "fragCount h3 = fragCount h1" "tag h3 = tag h2"
    by (auto simp: r1(1) r2(1) r3(1) h0_def)
  have st: "startsMessage h1 = startsMessage h3" "startsFragmentedMessage h2 = startsFragmentedMessage h3"
    by (simp_all add: startsMessage_def startsFragmentedMessage_def fl)
  have ids: "srcStreamID h3 = src" "dstStreamID h3 = dst" "seq h3 = sq"
    by (simp_all add: r1(1) r2(1) r3(1) h0_def)
  have frag: "isFragmented fl \<Longrightarrow> fragIndex h3 = a" "isFragmented fl \<Longrightarrow> fragCount h3 = b"
    unfolding fl by (simp_all add: r1(1))
  have t: "startsMessage h3 \<Longrightarrow> tag h3 = t"
    unfolding fl st(1) [symmetric] by (simp add: r2(1))
  have l: "startsFragmentedMessage h3 \<Longrightarrow> totalLength h3 = l"
    unfolding st(2) [symmetric] by (simp add: r3(1))
  note flds = ids frag t l
  have "d = base_bytes h3 @ drop 20 d"
    using base by (intro base_bytes_read) (simp_all add: flds fl)
  also have "drop 20 d = take (n1 - 20) (drop 20 d) @ take (n2 - n1) (drop n1 d) @ take (n3 - n2) (drop n2 d) @ drop n3 d"
    using drop_split [OF r1(3), of d] drop_split [OF r2(3), of d] drop_split [OF r3(3), of d] by simp
  finally have "d = header_bytes h3 @ drop n3 d"
    unfolding r1(4) r2(4) r3(4) by (auto simp: header_bytes_def base_bytes_def flds fl(3) st)
  moreover have "header_ok h3"
    using chk r1(5) r3(5) [unfolded fl(2,6) fl(7) [symmetric] st]
    by (auto simp: header_ok_def flds fl(3) startsFragmentedMessage_def)
  moreover have "wire_view h3 = h3"
  proof -
    have "\<not> isFragmented fl \<Longrightarrow> fragIndex h3 = 0" "\<not> isFragmented fl \<Longrightarrow> fragCount h3 = 0"
      unfolding fl by (simp_all add: r1(1) h0_def emptyHeader_def)
    moreover have "\<not> startsMessage h3 \<Longrightarrow> tag h3 = 0"
      unfolding fl st(1) [symmetric] by (simp add: r2(1)) (simp add: r1(1) h0_def emptyHeader_def)
    moreover have "totalLength h2 = 0"
      by (simp add: r1(1) r2(1) h0_def emptyHeader_def)
    then have "\<not> startsFragmentedMessage h3 \<Longrightarrow> totalLength h3 = 0"
      unfolding st(2) [symmetric] by (simp add: r3(1))
    ultimately show ?thesis
      by (simp add: wire_view_def fl(3))
  qed
  ultimately show ?thesis
    by (simp add: p)
qed

lemma decodePacket_sound:
  assumes "decodePacket d = Some (Some p)"
  shows "header_ok (pkt_header p) \<and> wire_view (pkt_header p) = pkt_header p \<and>
    d = header_bytes (pkt_header p) @ pkt_body p \<and>
    isBodySizeValid (pkt_header p) (length (pkt_body p)) \<and> length d \<le> MaxDatagramSize"
  using assms decodeHeader_sound [of d p]
  by (auto simp: decodePacket_def split: if_splits bind_splits option.splits)

lemma decodePacket_header_bytes:
  assumes "header_ok h" and "isBodySizeValid h (length body)" and "encodedSize h + length body \<le> MaxDatagramSize"
  shows "decodePacket (header_bytes h @ body) = Some (Some \<lparr>pkt_header = wire_view h, pkt_body = body\<rparr>)"
proof -
  have "isBodySizeValid (wire_view h) (length body)"
    using assms(2) by (cases "kind (flags h)") (auto simp: isBodySizeValid_def wire_view_def split: if_splits)
  then show ?thesis
    using assms by (simp add: decodePacket_def decodeHeader_header_bytes)
qed

text \<open>Data that fits into a fragment fits into a datagram.\<close>

lemma data_fits_datagram:
  assumes "kind (flags h) = Data" and "isBodySizeValid h n"
  shows "encodedSize h + n \<le> MaxDatagramSize"
  using assms encodedSize_max [of h]
  by (auto simp: isBodySizeValid_def constants split: if_splits)

text \<open>Fragment counts and indices fit into their 16 bits, and Media into one bit per fragment.\<close>

lemma fragmentsOf_mono: "m \<le> n \<Longrightarrow> fragmentsOf m \<le> fragmentsOf n"
  by (auto simp: fragmentsOf_def constants intro!: div_le_mono)

lemma fragmentsOf_pos: "0 < fragmentsOf n"
  by (auto simp: fragmentsOf_def constants div_greater_zero_iff)

lemma fragmentsOf_message: "n \<le> MaxMessagePayload \<Longrightarrow> fragmentsOf n \<le> 14365"
  using fragmentsOf_mono [of n MaxMessagePayload] by (simp add: fragmentsOf_def constants)

lemma fragmentsOf_media: "n \<le> MaxMediaPayload \<Longrightarrow> fragmentsOf n \<le> 57"
  using fragmentsOf_mono [of n MaxMediaPayload] by (simp add: fragmentsOf_def constants)

lemma fragmentsOf_bounds:
  assumes "0 < n"
  shows "(fragmentsOf n - 1) * MaxFragmentBody < n \<and> n \<le> fragmentsOf n * MaxFragmentBody"
  using assms by (auto simp: fragmentsOf_def constants)


section \<open>Properties\<close>

definition sample_header :: PacketHeader where
  "sample_header = emptyHeader\<lparr>flags := setFragment (dataFlags Bulk) True False, srcStreamID := 9, seq := 4,
     fragIndex := 0, fragCount := 2, tag := 5, totalLength := 1200\<rparr>"

lemma sample_header_ok: "header_ok sample_header" "isBodySizeValid sample_header 1168"
    "encodedSize sample_header + 1168 \<le> MaxDatagramSize"
  by (simp_all add: sample_header_def header_ok_def isValid_fragment isBodySizeValid_def encodedSize_def emptyHeader_def
      maxMessageSize_def fragmentsOf_def startsMessage_def startsFragmentedMessage_def constants)

text \<open>C10: A packet whose header and body size the protocol allows is decoded to what was encoded: the header as far
  as it is on the wire, and the body.\<close>

theorem packet_roundtrip:
  assumes "header_ok h" and "isBodySizeValid h (length body)" and "encodedSize h + length body \<le> MaxDatagramSize"
  shows "Option.bind (encodePacket h body) decodePacket = Some (Some \<lparr>pkt_header = wire_view h, pkt_body = body\<rparr>)"
  using assms by (simp add: encodePacket_eq decodePacket_header_bytes)

theorem packet_roundtrip_witness:
  "Option.bind (encodePacket sample_header (replicate 1168 7)) decodePacket =
     Some (Some \<lparr>pkt_header = wire_view sample_header, pkt_body = replicate 1168 7\<rparr>)"
  by (rule packet_roundtrip) (simp_all add: sample_header_ok)

text \<open>C11: The decoder never reads outside the datagram, whatever its bytes are.\<close>

theorem decodePacket_in_bounds: "decodePacket d \<noteq> None"
  using decodeHeader_safe [of d] by (auto simp: decodePacket_def split: bind_splits option.splits)

text \<open>C12: A datagram the decoder takes is the one encoding of the packet it returns, which obeys the protocol: there are
  no two datagrams for one packet, and no accepted packet has a fragment index, a count, a total length or a
  body size out of bounds.\<close>

theorem decodePacket_canonical:
  assumes "decodePacket d = Some (Some p)"
  shows "encodePacket (pkt_header p) (pkt_body p) = Some d \<and> header_ok (pkt_header p) \<and>
    isBodySizeValid (pkt_header p) (length (pkt_body p)) \<and> length d \<le> MaxDatagramSize"
  using decodePacket_sound [OF assms] by (auto simp: encodePacket_eq)

theorem decodePacket_canonical_witness:
  "\<exists>d p. decodePacket d = Some (Some p) \<and> encodePacket (pkt_header p) (pkt_body p) = Some d \<and> header_ok (pkt_header p)"
proof -
  let ?d = "header_bytes sample_header @ replicate 1168 7"
  have "decodePacket ?d = Some (Some \<lparr>pkt_header = wire_view sample_header, pkt_body = replicate 1168 7\<rparr>)"
    by (rule decodePacket_header_bytes) (simp_all add: sample_header_ok)
  then show ?thesis
    using decodePacket_canonical by blast
qed

end
