(* ===== verification/AckRanges.thy ===== *)
theory AckRanges
  imports PacketHeader
begin

text \<open>
  \<open>AckRanges.h\<close>: the body of an Ack. The lemmas show that the body is read back as it was written
  (cut off after the ranges that fit), that reading a body never leaves it whatever its bytes are, and
  that \<open>toRanges\<close> covers exactly the seqs it is given, in ascending ranges that are as long as they
  can be.
\<close>

unbundle bit_operations_syntax

section \<open>Definitions\<close>

definition AckFieldsSize :: nat where [constants]: "AckFieldsSize = 8"
definition SeqRangeSize :: nat where [constants]: "SeqRangeSize = 10"

record SeqRange =
  rg_first :: u64
  rg_count :: u16

definition rangeLast :: "SeqRange \<Rightarrow> u64" where
  "rangeLast r = rg_first r + ucast (rg_count r) - 1"

record AckBody =
  ack_serial :: u32
  ack_mediaReceived :: u32
  ack_ranges :: "SeqRange list"

text \<open>The loop of \<open>encodeAck\<close>: range number \<open>i\<close> and the ones after it.\<close>

fun encodeRanges :: "SeqRange list \<Rightarrow> nat \<Rightarrow> bytes \<Rightarrow> bytes option" where
  "encodeRanges [] i body = Some body"
| "encodeRanges (r # rs) i body =
     do { let out = AckFieldsSize + i * SeqRangeSize;
          body \<leftarrow> writeUint64 body out (rg_first r);
          body \<leftarrow> writeUint16 body (out + 8) (rg_count r);
          encodeRanges rs (Suc i) body }"

definition encodeAck :: "AckBody \<Rightarrow> nat \<Rightarrow> bytes option" where
  "encodeAck ack maxRanges =
     (let count = min (length (ack_ranges ack)) maxRanges;
          body = replicate (AckFieldsSize + count * SeqRangeSize) 0
      in do { body \<leftarrow> writeUint32 body 0 (ack_serial ack);
              body \<leftarrow> writeUint32 body 4 (ack_mediaReceived ack);
              encodeRanges (take count (ack_ranges ack)) 0 body })"

text \<open>The loop of \<open>decodeAck\<close> from an offset on: the outer option is a read outside the body.\<close>

function decodeRanges :: "bytes \<Rightarrow> nat \<Rightarrow> SeqRange list option option" where
  "decodeRanges body offset =
     (if offset < length body then
        do { f \<leftarrow> readUint64 body offset;
             c \<leftarrow> readUint16 body (offset + 8);
             let range = \<lparr>rg_first = f, rg_count = c\<rparr>;
             if c = 0 \<or> f = 0 \<or> rangeLast range < f then Some None
             else do { rest \<leftarrow> decodeRanges body (offset + SeqRangeSize);
                       Some (map_option ((#) range) rest) } }
      else Some (Some []))"
  by pat_completeness auto
termination
  by (relation "measure (\<lambda>(body, offset). length body - offset)") (auto simp: constants)

declare decodeRanges.simps [simp del]

definition decodeAck :: "bytes \<Rightarrow> AckBody option option" where
  "decodeAck body =
     (if length body < AckFieldsSize \<or> (length body - AckFieldsSize) mod SeqRangeSize \<noteq> 0 then Some None
      else do { s \<leftarrow> readUint32 body 0;
                m \<leftarrow> readUint32 body 4;
                rs \<leftarrow> decodeRanges body AckFieldsSize;
                Some (map_option (\<lambda>rs. \<lparr>ack_serial = s, ack_mediaReceived = m, ack_ranges = rs\<rparr>) rs) })"

text \<open>The loop body of \<open>toRanges\<close>.\<close>

definition addToRanges :: "SeqRange list \<Rightarrow> u64 \<Rightarrow> SeqRange list" where
  "addToRanges ranges s =
     (if ranges \<noteq> [] \<and> s \<le> rangeLast (last ranges) then ranges
      else if ranges \<noteq> [] \<and> s = rangeLast (last ranges) + 1 \<and> unat (rg_count (last ranges)) < 65535
      then butlast ranges @ [(last ranges)\<lparr>rg_count := rg_count (last ranges) + 1\<rparr>]
      else ranges @ [\<lparr>rg_first = s, rg_count = 1\<rparr>])"

definition toRanges :: "u64 list \<Rightarrow> SeqRange list" where
  "toRanges seqs =
     (if seqs = [] then []
      else let seqs = (if \<not> sorted seqs then sort seqs else seqs)
           in foldl addToRanges [] seqs)"


section \<open>Ranges\<close>

text \<open>A range that does not wrap, and the seqs it stands for.\<close>

definition range_ok :: "SeqRange \<Rightarrow> bool" where
  "range_ok r \<longleftrightarrow> rg_count r \<noteq> 0 \<and> rg_first r \<noteq> 0 \<and> \<not> rangeLast r < rg_first r"

definition range_seqs :: "SeqRange \<Rightarrow> u64 set" where
  "range_seqs r = {s. rg_first r \<le> s \<and> s \<le> rangeLast r}"

text \<open>Two neighbours in a list of ranges: apart from each other, or the first one is full.\<close>

definition apart :: "SeqRange \<Rightarrow> SeqRange \<Rightarrow> bool" where
  "apart r r' \<longleftrightarrow> rangeLast r < rg_first r' \<and> (rangeLast r + 1 = rg_first r' \<longrightarrow> rg_count r = 65535)"

text \<open>What the loop of \<open>toRanges\<close> keeps: the ranges so far cover what it has seen.\<close>

definition covering :: "SeqRange list \<Rightarrow> u64 set \<Rightarrow> bool" where
  "covering rs seen \<longleftrightarrow>
     (\<Union>r\<in>set rs. range_seqs r) = seen \<and>
     (\<forall>r\<in>set rs. rg_count r \<noteq> 0 \<and> rg_first r \<le> rangeLast r) \<and>
     successively apart rs \<and>
     (rs \<noteq> [] \<longrightarrow> rangeLast (last rs) \<in> seen \<and> (\<forall>s\<in>seen. s \<le> rangeLast (last rs)))"

lemma rangeLast_single: "rangeLast \<lparr>rg_first = s, rg_count = 1\<rparr> = s"
  by (simp add: rangeLast_def)

lemma rangeLast_grow:
  assumes "unat (rg_count r) < 65535"
  shows "rangeLast (r\<lparr>rg_count := rg_count r + 1\<rparr>) = rangeLast r + 1"
proof -
  have "unat (rg_count r + 1) = unat (rg_count r) + 1"
    using assms unat_plus_of_nat [of "rg_count r" 1] by simp
  then have "(ucast (rg_count r + 1) :: u64) = ucast (rg_count r) + 1"
    by (simp add: word_unat_eq_iff unat_word_ariths)
  then show ?thesis
    by (simp add: rangeLast_def)
qed

lemma word_le_Suc:
  fixes a x :: "'a::len word"
  assumes "a < a + 1"
  shows "x \<le> a + 1 \<longleftrightarrow> x \<le> a \<or> x = a + 1"
  using word_less_no_wrap [OF assms] by (auto simp: word_le_nat_alt word_unat_eq_iff)

lemma covering_grow:
  assumes cov: "covering (bs @ [r]) seen" and s: "s = rangeLast r + 1" "rangeLast r < s"
    and count: "unat (rg_count r) < 65535"
  shows "covering (bs @ [r\<lparr>rg_count := rg_count r + 1\<rparr>]) (insert s seen)"
proof -
  let ?r = "r\<lparr>rg_count := rg_count r + 1\<rparr>"
  have last: "rangeLast ?r = s"
    using rangeLast_grow [OF count] s by simp
  have "rg_first r \<le> rangeLast r"
    using cov by (simp add: covering_def)
  then have "rg_first r \<le> s"
    using s(2) by simp
  then have seqs: "range_seqs ?r = insert s (range_seqs r)"
    using word_le_Suc [of "rangeLast r"] s by (auto simp: range_seqs_def last)
  have "unat (rg_count r + 1) = Suc (unat (rg_count r))"
    using count unat_plus_of_nat [of "rg_count r" 1] by simp
  then have "rg_count r + 1 \<noteq> 0"
    by (metis nat.distinct(1) unat_0)
  moreover have "successively apart (bs @ [?r])"
    using cov by (auto simp: covering_def successively_append_iff apart_def)
  moreover have "\<forall>x\<in>seen. x \<le> rangeLast r"
    using cov by (simp add: covering_def)
  then have "\<forall>x\<in>seen. x \<le> s"
    using s(2) by (meson less_imp_le order_trans)
  ultimately show ?thesis
    using cov \<open>rg_first r \<le> s\<close> by (auto simp: covering_def seqs last)
qed

lemma covering_add:
  assumes cov: "covering rs seen" and above: "\<forall>x\<in>seen. x \<le> s"
  shows "covering (addToRanges rs s) (insert s seen)"
proof (cases rs rule: rev_cases)
  case Nil
  then show ?thesis
    using cov by (auto simp: covering_def addToRanges_def range_seqs_def rangeLast_single)
next
  case (snoc bs r)
  have last: "rangeLast r \<in> seen"
    using cov snoc by (simp add: covering_def)
  consider (le) "s \<le> rangeLast r"
    | (grow) "\<not> s \<le> rangeLast r" "s = rangeLast r + 1" "unat (rg_count r) < 65535"
    | (new) "\<not> s \<le> rangeLast r" "\<not> (s = rangeLast r + 1 \<and> unat (rg_count r) < 65535)"
    by blast
  then show ?thesis
  proof cases
    case le
    then have "s = rangeLast r"
      using above last by (simp add: order_antisym)
    then show ?thesis
      using cov snoc last by (simp add: addToRanges_def insert_absorb)
  next
    case grow
    have "covering (bs @ [r\<lparr>rg_count := rg_count r + 1\<rparr>]) (insert s seen)"
      using cov grow snoc by (intro covering_grow) auto
    then show ?thesis
      using grow snoc by (simp add: addToRanges_def)
  next
    case new
    have "unat (rg_count r) < 65536"
      using unsigned_less [of "rg_count r"] by simp
    then have "rangeLast r + 1 = s \<longrightarrow> rg_count r = 65535"
      using new(2) by (auto simp: word_unat_eq_iff)
    then have ap: "apart r \<lparr>rg_first = s, rg_count = 1\<rparr>"
      using new(1) by (simp add: apart_def not_le)
    have "addToRanges rs s = rs @ [\<lparr>rg_first = s, rg_count = 1\<rparr>]"
      using new snoc by (auto simp: addToRanges_def)
    moreover have "range_seqs \<lparr>rg_first = s, rg_count = 1\<rparr> = {s}"
      by (auto simp: range_seqs_def rangeLast_single)
    ultimately show ?thesis
      using cov snoc above ap by (simp add: covering_def successively_append_iff rangeLast_single)
  qed
qed

lemma covering_foldl:
  assumes "covering rs seen" and "sorted xs" and "\<forall>x\<in>seen. \<forall>y\<in>set xs. x \<le> y"
  shows "covering (foldl addToRanges rs xs) (seen \<union> set xs)"
  using assms
proof (induction xs arbitrary: rs seen)
  case Nil
  then show ?case by simp
next
  case (Cons x xs)
  have "covering (addToRanges rs x) (insert x seen)"
    using Cons.prems by (intro covering_add) auto
  then have "covering (foldl addToRanges (addToRanges rs x) xs) (insert x seen \<union> set xs)"
    using Cons.prems by (intro Cons.IH) auto
  then show ?case by simp
qed

lemma covering_toRanges: "covering (toRanges seqs) (set seqs)"
proof (cases "seqs = []")
  case True
  then show ?thesis by (simp add: toRanges_def covering_def)
next
  case False
  define xs where "xs = (if \<not> sorted seqs then sort seqs else seqs)"
  have "covering (foldl addToRanges [] xs) ({} \<union> set xs)"
    by (rule covering_foldl) (auto simp: covering_def xs_def)
  then show ?thesis
    using False by (simp add: toRanges_def xs_def split: if_splits)
qed


section \<open>The body on the wire\<close>

definition range_bytes :: "SeqRange \<Rightarrow> bytes" where
  "range_bytes r = be64 (rg_first r) @ be16 (rg_count r)"

definition ack_bytes :: "AckBody \<Rightarrow> bytes" where
  "ack_bytes ack = be32 (ack_serial ack) @ be32 (ack_mediaReceived ack) @ concat (map range_bytes (ack_ranges ack))"

lemma length_range_bytes [simp]: "length (range_bytes r) = 10"
  by (simp add: range_bytes_def)

lemma length_concat_ranges [simp]: "length (concat (map range_bytes rs)) = 10 * length rs"
  by (induction rs) auto

lemma length_ack_bytes: "length (ack_bytes ack) = AckFieldsSize + length (ack_ranges ack) * SeqRangeSize"
  by (simp add: ack_bytes_def constants)

lemma encodeRanges_eq:
  assumes "length pre = AckFieldsSize + i * SeqRangeSize" and "length rest = length rs * SeqRangeSize"
  shows "encodeRanges rs i (pre @ rest) = Some (pre @ concat (map range_bytes rs))"
  using assms
proof (induction rs arbitrary: i pre rest)
  case Nil
  then show ?case by simp
next
  case (Cons r rs)
  let ?out = "AckFieldsSize + i * SeqRangeSize"
  have "store (pre @ rest) ?out (range_bytes r) = Some ((pre @ range_bytes r) @ drop 10 rest)"
    using store_append [of "range_bytes r" rest pre] Cons.prems by (simp add: constants)
  moreover have "encodeRanges rs (Suc i) ((pre @ range_bytes r) @ drop 10 rest) =
      Some ((pre @ range_bytes r) @ concat (map range_bytes rs))"
    using Cons.prems by (intro Cons.IH) (simp_all add: constants)
  ultimately show ?case
    by (simp add: writeUint64_store writeUint16_store store_bind flip: range_bytes_def)
qed

lemma encodeAck_eq: "encodeAck ack n = Some (ack_bytes (ack\<lparr>ack_ranges := take n (ack_ranges ack)\<rparr>))"
proof -
  let ?rs = "take (min (length (ack_ranges ack)) n) (ack_ranges ack)"
  let ?hdr = "be32 (ack_serial ack) @ be32 (ack_mediaReceived ack)"
  let ?rest = "replicate (length ?rs * SeqRangeSize) (0 :: u8)"
  have "encodeRanges ?rs 0 (?hdr @ ?rest) = Some (?hdr @ concat (map range_bytes ?rs))"
    by (rule encodeRanges_eq) (simp_all add: constants)
  moreover have "store (replicate (AckFieldsSize + length ?rs * SeqRangeSize) 0) 0 ?hdr = Some (?hdr @ ?rest)"
    by (simp add: store_def constants drop_replicate)
  moreover have "?rs = take n (ack_ranges ack)"
    by (simp add: min_def)
  ultimately show ?thesis
    by (simp add: encodeAck_def writeUint32_store ack_bytes_def store_bind Let_def)
qed

lemma decodeRanges_safe:
  "(length body - offset) mod SeqRangeSize = 0 \<Longrightarrow> decodeRanges body offset \<noteq> None"
proof (induction "length body - offset" arbitrary: offset rule: less_induct)
  case less
  show ?case
  proof (cases "offset < length body")
    case True
    then have len: "SeqRangeSize \<le> length body - offset"
      using less.prems by (metis mod_less not_less zero_less_diff less_irrefl)
    then have "(length body - (offset + SeqRangeSize)) mod SeqRangeSize = 0"
      using less.prems by (simp flip: diff_diff_left add: le_mod_geq)
    then have "decodeRanges body (offset + SeqRangeSize) \<noteq> None"
      using True by (intro less.hyps) (simp_all add: constants)
    then show ?thesis
      using len by (subst decodeRanges.simps) (auto simp: Let_def constants split: bind_splits)
  qed (simp add: decodeRanges.simps)
qed

lemma decodeRanges_range_bytes:
  "decodeRanges (pre @ concat (map range_bytes rs)) (length pre) =
     Some (if \<forall>r\<in>set rs. range_ok r then Some rs else None)"
proof (induction rs arbitrary: pre)
  case Nil
  then show ?case by (simp add: decodeRanges.simps)
next
  case (Cons r rs)
  have f: "readUint64 (pre @ concat (map range_bytes (r # rs))) (length pre) = Some (rg_first r)"
    using readUint64_be64 [of pre "rg_first r"] by (simp add: range_bytes_def)
  have c: "readUint16 (pre @ concat (map range_bytes (r # rs))) (length pre + 8) = Some (rg_count r)"
    using readUint16_be16 [of "pre @ be64 (rg_first r)" "rg_count r"] by (simp add: range_bytes_def)
  have rest: "decodeRanges (pre @ concat (map range_bytes (r # rs))) (length pre + SeqRangeSize) =
      Some (if \<forall>r\<in>set rs. range_ok r then Some rs else None)"
    using Cons.IH [of "pre @ range_bytes r"] by (simp add: constants)
  show ?case
    by (subst decodeRanges.simps) (auto simp: f c rest range_ok_def rangeLast_def Let_def simp del: concat.simps list.map)
qed

lemma decodeRanges_sound:
  assumes "decodeRanges body offset = Some (Some rs)" and "offset \<le> length body"
    and "(length body - offset) mod SeqRangeSize = 0"
  shows "(\<forall>r\<in>set rs. range_ok r) \<and> drop offset body = concat (map range_bytes rs)"
  using assms
proof (induction body offset arbitrary: rs rule: decodeRanges.induct)
  case (1 body offset)
  show ?case
  proof (cases "offset < length body")
    case True
    obtain f c where r: "readUint64 body offset = Some f" "readUint16 body (offset + 8) = Some c"
      using 1(2) True by (subst (asm) decodeRanges.simps) (auto split: bind_splits)
    define range where "range = \<lparr>rg_first = f, rg_count = c\<rparr>"
    obtain rs' where rest: "decodeRanges body (offset + SeqRangeSize) = Some (Some rs')" and rs: "rs = range # rs'"
      and ok: "range_ok range"
      using 1(2) True r by (subst (asm) decodeRanges.simps)
        (auto simp: Let_def range_def range_ok_def split: bind_splits if_splits)
    have "\<not> length body - offset < SeqRangeSize"
      using 1(4) True by (metis mod_less less_irrefl zero_less_diff)
    then have le: "offset + SeqRangeSize \<le> length body"
      using True by simp
    then have "(length body - (offset + SeqRangeSize)) mod SeqRangeSize = 0"
      using 1(4) by (simp flip: diff_diff_left add: le_mod_geq le_diff_conv2)
    then have IH: "(\<forall>r\<in>set rs'. range_ok r) \<and> drop (offset + SeqRangeSize) body = concat (map range_bytes rs')"
      using 1(1) [OF True] r ok rest le by (simp add: range_def range_ok_def)
    have "take 10 (drop offset body) = range_bytes range"
      using readUint64_bytes [OF r(1)] readUint16_bytes [OF r(2)] take_add [of 8 2 "drop offset body"]
      by (simp add: range_def range_bytes_def add.commute)
    then show ?thesis
      using IH ok rs drop_split [of offset "offset + 10" body] by (simp add: constants)
  qed (use 1 in \<open>auto simp: decodeRanges.simps\<close>)
qed

lemma decodeAck_ack_bytes:
  "decodeAck (ack_bytes ack) = Some (if \<forall>r\<in>set (ack_ranges ack). range_ok r then Some ack else None)"
proof -
  let ?hdr = "be32 (ack_serial ack) @ be32 (ack_mediaReceived ack)"
  let ?rs = "concat (map range_bytes (ack_ranges ack))"
  have "readUint32 (?hdr @ ?rs) 0 = Some (ack_serial ack)"
    using readUint32_be32 [of "[]"] by simp
  moreover have "readUint32 (?hdr @ ?rs) 4 = Some (ack_mediaReceived ack)"
    using readUint32_be32 [of "be32 (ack_serial ack)"] by simp
  moreover have "decodeRanges (?hdr @ ?rs) AckFieldsSize =
      Some (if \<forall>r\<in>set (ack_ranges ack). range_ok r then Some (ack_ranges ack) else None)"
    using decodeRanges_range_bytes [of ?hdr] by (simp add: constants)
  ultimately show ?thesis
    by (auto simp: decodeAck_def ack_bytes_def constants)
qed

lemma decodeAck_safe: "decodeAck body \<noteq> None"
  using decodeRanges_safe [of body AckFieldsSize]
  by (auto simp: decodeAck_def constants split: bind_splits)

lemma decodeAck_sound:
  assumes "decodeAck body = Some (Some ack)"
  shows "(\<forall>r\<in>set (ack_ranges ack). range_ok r) \<and> body = ack_bytes ack"
proof -
  obtain s m rs where r: "readUint32 body 0 = Some s" "readUint32 body 4 = Some m"
      "decodeRanges body AckFieldsSize = Some (Some rs)"
    and len: "AckFieldsSize \<le> length body" "(length body - AckFieldsSize) mod SeqRangeSize = 0"
    and ack: "ack = \<lparr>ack_serial = s, ack_mediaReceived = m, ack_ranges = rs\<rparr>"
    using assms by (auto simp: decodeAck_def not_less split: if_splits bind_splits)
  have "body = take 4 (drop 0 body) @ take 4 (drop 4 body) @ drop 8 body"
    using drop_split [of 0 4 body] drop_split [of 4 8 body] by simp
  then show ?thesis
    using decodeRanges_sound [OF r(3) len] readUint32_bytes [OF r(1)] readUint32_bytes [OF r(2)]
    by (simp add: ack ack_bytes_def constants)
qed


section \<open>Properties\<close>

text \<open>C13: \<open>toRanges\<close> names exactly the seqs it is given, in whatever order and however often they come, in
  ascending ranges of which no two could be one: neighbours have a gap between them, or the first is full.\<close>

theorem toRanges_exact:
  "(\<Union>r\<in>set (toRanges seqs). range_seqs r) = set seqs \<and> successively apart (toRanges seqs)"
  using covering_toRanges [of seqs] by (simp add: covering_def)

text \<open>C14: The body of an Ack is read back as it was written, cut off after the ranges that fit: the ranges that are
  missing are the last ones.\<close>

theorem ack_roundtrip:
  assumes "\<forall>r\<in>set (ack_ranges ack). range_ok r"
  shows "Option.bind (encodeAck ack n) decodeAck = Some (Some (ack\<lparr>ack_ranges := take n (ack_ranges ack)\<rparr>))"
proof -
  have "\<forall>r\<in>set (take n (ack_ranges ack)). range_ok r"
    using assms by (meson in_set_takeD)
  then show ?thesis
    by (simp add: encodeAck_eq decodeAck_ack_bytes)
qed

definition sample_ack :: AckBody where
  "sample_ack = \<lparr>ack_serial = 3, ack_mediaReceived = 1,
     ack_ranges = [\<lparr>rg_first = 4, rg_count = 2\<rparr>, \<lparr>rg_first = 9, rg_count = 1\<rparr>]\<rparr>"

theorem ack_roundtrip_witness:
  "Option.bind (encodeAck sample_ack 1) decodeAck =
     Some (Some \<lparr>ack_serial = 3, ack_mediaReceived = 1, ack_ranges = [\<lparr>rg_first = 4, rg_count = 2\<rparr>]\<rparr>)"
  using ack_roundtrip [of sample_ack 1] by (simp add: sample_ack_def range_ok_def rangeLast_def)

text \<open>Reading the body of an Ack never leaves it, whatever its bytes are.\<close>

theorem decodeAck_in_bounds: "decodeAck body \<noteq> None"
  by (rule decodeAck_safe)

text \<open>What \<open>decodeAck\<close> takes it would write the same way, and its ranges are not empty, do not wrap and do not hold
  seq 0.\<close>

theorem decodeAck_canonical:
  assumes "decodeAck body = Some (Some ack)"
  shows "encodeAck ack (length (ack_ranges ack)) = Some body \<and>
    (\<forall>r\<in>set (ack_ranges ack). range_seqs r \<noteq> {} \<and> 0 \<notin> range_seqs r)"
  using decodeAck_sound [OF assms] by (fastforce simp: encodeAck_eq range_ok_def range_seqs_def not_less)

theorem decodeAck_canonical_witness:
  "decodeAck (ack_bytes sample_ack) = Some (Some sample_ack) \<and> encodeAck sample_ack 2 = Some (ack_bytes sample_ack)"
proof -
  have "decodeAck (ack_bytes sample_ack) = Some (Some sample_ack)"
    by (simp add: decodeAck_ack_bytes) (simp add: sample_ack_def range_ok_def rangeLast_def)
  with decodeAck_canonical [OF this] show ?thesis
    by (simp add: sample_ack_def numeral_2_eq_2)
qed

end
