(* ===== verification/SequenceBuffer.thy ===== *)
theory SequenceBuffer
  imports Prelude
begin

text \<open>
  \<open>SequenceBuffer.h\<close>: a ring of slots indexed by the low bits of a sequence number. A slot holds the
  seq it is occupied by, and a value (\<open>None\<close> is the \<open>T{}\<close> of a free slot). A pointer to an entry,
  which the code gets from \<open>insert\<close> or \<open>find\<close> and writes through, is \<open>buf_update\<close> here.

  The lemmas show that a buffer whose seqs lie within one capacity behaves as a finite map, that its
  size is the number of entries, and that the entries never outnumber the capacity. The users of the
  buffer, the send window and the reorder buffer of a lane, rely on that interface only: it is the
  locale \<open>sequence_store\<close>, which the buffer is an instance of.
\<close>

unbundle bit_operations_syntax

section \<open>Definitions\<close>

record 'a Slot =
  sl_seq :: u64
  sl_occupied :: bool
  sl_value :: "'a option"

record 'a SequenceBuffer =
  mSlots :: "'a Slot list"
  mSize :: nat

definition freeSlot :: "'a Slot" where
  "freeSlot = \<lparr>sl_seq = 0, sl_occupied = False, sl_value = None\<rparr>"

definition sequenceBuffer :: "nat \<Rightarrow> 'a SequenceBuffer" where
  "sequenceBuffer cap = \<lparr>mSlots = replicate cap freeSlot, mSize = 0\<rparr>"

definition capacity :: "'a SequenceBuffer \<Rightarrow> nat" where
  "capacity b = length (mSlots b)"

definition buf_index :: "'a SequenceBuffer \<Rightarrow> u64 \<Rightarrow> nat" where
  "buf_index b s = unat (s AND (of_nat (length (mSlots b)) - 1))"

definition release :: "'a Slot \<Rightarrow> 'a Slot" where
  "release slot = slot\<lparr>sl_occupied := False, sl_value := None\<rparr>"

definition buf_insert :: "'a SequenceBuffer \<Rightarrow> u64 \<Rightarrow> 'a \<Rightarrow> 'a SequenceBuffer" where
  "buf_insert b s v =
     (let i = buf_index b s; slot = mSlots b ! i;
          sz = (if \<not> sl_occupied slot then mSize b + 1 else mSize b)
      in \<lparr>mSlots = (mSlots b)[i := \<lparr>sl_seq = s, sl_occupied = True, sl_value = Some v\<rparr>], mSize = sz\<rparr>)"

definition buf_find :: "'a SequenceBuffer \<Rightarrow> u64 \<Rightarrow> 'a option" where
  "buf_find b s =
     (let slot = mSlots b ! buf_index b s
      in if sl_occupied slot \<and> sl_seq slot = s then sl_value slot else None)"

definition buf_contains :: "'a SequenceBuffer \<Rightarrow> u64 \<Rightarrow> bool" where
  "buf_contains b s \<longleftrightarrow> buf_find b s \<noteq> None"

text \<open>Writing through the pointer that \<open>find(seq)\<close> returned, or nothing if it returned null.\<close>

definition buf_update :: "'a SequenceBuffer \<Rightarrow> u64 \<Rightarrow> ('a \<Rightarrow> 'a) \<Rightarrow> 'a SequenceBuffer" where
  "buf_update b s f =
     (let i = buf_index b s; slot = mSlots b ! i
      in if sl_occupied slot \<and> sl_seq slot = s
         then b\<lparr>mSlots := (mSlots b)[i := slot\<lparr>sl_value := map_option f (sl_value slot)\<rparr>]\<rparr> else b)"

definition buf_take :: "'a SequenceBuffer \<Rightarrow> u64 \<Rightarrow> 'a option \<times> 'a SequenceBuffer" where
  "buf_take b s =
     (let i = buf_index b s; slot = mSlots b ! i
      in if \<not> sl_occupied slot \<or> sl_seq slot \<noteq> s then (None, b)
         else (sl_value slot, \<lparr>mSlots = (mSlots b)[i := release slot], mSize = size_minus (mSize b) 1\<rparr>))"

definition buf_erase :: "'a SequenceBuffer \<Rightarrow> u64 \<Rightarrow> bool \<times> 'a SequenceBuffer" where
  "buf_erase b s =
     (let i = buf_index b s; slot = mSlots b ! i
      in if \<not> sl_occupied slot \<or> sl_seq slot \<noteq> s then (False, b)
         else (True, \<lparr>mSlots = (mSlots b)[i := release slot], mSize = size_minus (mSize b) 1\<rparr>))"

definition buf_clear :: "'a SequenceBuffer \<Rightarrow> 'a SequenceBuffer" where
  "buf_clear b =
     \<lparr>mSlots = map (\<lambda>slot. if sl_occupied slot then release slot else slot) (mSlots b),
      mSize = size_minus (mSize b) (length (filter sl_occupied (mSlots b)))\<rparr>"

definition buf_size :: "'a SequenceBuffer \<Rightarrow> nat" where
  "buf_size b = mSize b"

definition buf_empty :: "'a SequenceBuffer \<Rightarrow> bool" where
  "buf_empty b \<longleftrightarrow> mSize b = 0"

text \<open>\<open>forEach\<close> with a function that keeps every entry: the seqs it is called with, in slot order.\<close>

definition buf_seqs :: "'a SequenceBuffer \<Rightarrow> u64 list" where
  "buf_seqs b = map sl_seq (filter sl_occupied (mSlots b))"


section \<open>Invariant\<close>

definition buf_ok :: "nat \<Rightarrow> 'a SequenceBuffer \<Rightarrow> bool" where
  "buf_ok cap b \<longleftrightarrow>
     length (mSlots b) = cap \<and> (\<exists>k \<le> 32. cap = 2 ^ k) \<and>
     mSize b = length (filter sl_occupied (mSlots b)) \<and>
     (\<forall>i < cap. sl_occupied (mSlots b ! i) \<longrightarrow>
        buf_index b (sl_seq (mSlots b ! i)) = i \<and> sl_value (mSlots b ! i) \<noteq> None)"

lemma buf_index_mod:
  assumes "buf_ok cap b"
  shows "buf_index b s = unat s mod cap"
proof -
  obtain k where k: "k \<le> 32" "cap = 2 ^ k" and len: "length (mSlots b) = cap"
    using assms by (auto simp: buf_ok_def)
  have "(of_nat (2 ^ k) - 1 :: u64) = mask k"
    by (simp add: mask_eq_exp_minus_1)
  then have "buf_index b s = unat (take_bit k s)"
    by (simp add: buf_index_def len k take_bit_eq_mask)
  also have "\<dots> = unat s mod 2 ^ k"
    by (simp only: unsigned_take_bit_eq) (simp only: take_bit_eq_mod)
  finally show ?thesis
    by (simp add: k)
qed

lemma buf_index_less:
  assumes "buf_ok cap b"
  shows "buf_index b s < length (mSlots b)"
  using assms buf_index_mod [OF assms] by (auto simp: buf_ok_def)

lemma buf_index_cong: "length (mSlots b') = length (mSlots b) \<Longrightarrow> buf_index b' s = buf_index b s"
  by (simp add: buf_index_def)

lemma buf_ok_new: "k \<le> 32 \<Longrightarrow> buf_ok (2 ^ k) (sequenceBuffer (2 ^ k))"
  by (auto simp: buf_ok_def sequenceBuffer_def freeSlot_def)

lemma buf_find_new:
  assumes "buf_ok cap (sequenceBuffer cap :: 'a SequenceBuffer)"
  shows "buf_find (sequenceBuffer cap :: 'a SequenceBuffer) s = None"
  using buf_index_less [OF assms, of s] by (simp add: buf_find_def sequenceBuffer_def freeSlot_def Let_def)

text \<open>Every operation keeps the slot of one index, and the others as they are.\<close>

lemma buf_ok_slot:
  assumes ok: "buf_ok cap b" and i: "i < cap"
    and slot: "sl_occupied slot \<Longrightarrow> buf_index b (sl_seq slot) = i \<and> sl_value slot \<noteq> None"
    and size: "sz + (if sl_occupied (mSlots b ! i) then 1 else 0) = mSize b + (if sl_occupied slot then 1 else 0)"
  shows "buf_ok cap \<lparr>mSlots = (mSlots b)[i := slot], mSize = sz\<rparr>"
proof -
  let ?b = "\<lparr>mSlots = (mSlots b)[i := slot], mSize = sz\<rparr>"
  have len: "length (mSlots b) = cap" and sz: "mSize b = length (filter sl_occupied (mSlots b))"
    using ok by (auto simp: buf_ok_def)
  have idx: "\<And>s. buf_index ?b s = buf_index b s"
    by (simp add: buf_index_def)
  have "length (filter sl_occupied ((mSlots b)[i := slot])) = sz"
    using size i len sz filter_list_update [of i "mSlots b" sl_occupied slot]
      filter_list_update_add [of i "mSlots b" sl_occupied slot]
      filter_list_update_same [of i "mSlots b" sl_occupied slot]
    by (cases "sl_occupied slot"; cases "sl_occupied (mSlots b ! i)") auto
  then show ?thesis
    using ok slot i len by (auto simp: buf_ok_def idx nth_list_update)
qed

lemma buf_size_pos:
  assumes "buf_ok cap b" and "i < cap" and "sl_occupied (mSlots b ! i)"
  shows "0 < mSize b"
  using assms nth_mem [of i "mSlots b"] by (auto simp: buf_ok_def filter_empty_conv)

lemma buf_ok_insert: "buf_ok cap b \<Longrightarrow> buf_ok cap (buf_insert b s v)"
  using buf_index_less [of cap b s]
  by (auto simp: buf_insert_def Let_def intro!: buf_ok_slot) (auto simp: buf_ok_def)

lemma buf_ok_update:
  assumes "buf_ok cap b"
  shows "buf_ok cap (buf_update b s f)"
proof -
  let ?slot = "mSlots b ! buf_index b s"
  have i: "buf_index b s < cap"
    using buf_index_less [OF assms, of s] assms by (simp add: buf_ok_def)
  have "buf_ok cap \<lparr>mSlots = (mSlots b)[buf_index b s := ?slot\<lparr>sl_value := map_option f (sl_value ?slot)\<rparr>],
      mSize = mSize b\<rparr>"
    using assms i by (intro buf_ok_slot [OF assms i]) (auto simp: buf_ok_def)
  then show ?thesis
    using assms by (auto simp: buf_update_def Let_def) (metis SequenceBuffer.surjective SequenceBuffer.update_convs(1) old.unit.exhaust)
qed

lemma buf_ok_erase:
  assumes "buf_ok cap b"
  shows "buf_ok cap (snd (buf_erase b s))"
proof -
  let ?i = "buf_index b s"
  have i: "?i < cap"
    using buf_index_less [OF assms, of s] assms by (simp add: buf_ok_def)
  show ?thesis
    using buf_size_pos [OF assms i] assms i
    by (auto simp: buf_erase_def Let_def release_def intro!: buf_ok_slot)
qed

lemma buf_take_erase: "buf_take b s = (buf_find b s, snd (buf_erase b s))"
  by (auto simp: buf_take_def buf_find_def buf_erase_def Let_def)

lemma buf_erase_contains: "buf_ok cap b \<Longrightarrow> fst (buf_erase b s) = buf_contains b s"
  using buf_index_less [of cap b s]
  by (auto simp: buf_erase_def buf_contains_def buf_find_def Let_def buf_ok_def)

text \<open>\<open>clear\<close> leaves a buffer that finds nothing.\<close>

lemma buf_clear_finds_nothing:
  assumes "buf_ok cap b"
  shows "buf_ok cap (buf_clear b) \<and> buf_empty (buf_clear b) \<and> buf_find (buf_clear b) s = None"
proof -
  have free: "\<forall>i < length (mSlots b). \<not> sl_occupied (mSlots (buf_clear b) ! i)"
    by (simp add: buf_clear_def release_def)
  have len: "length (mSlots (buf_clear b)) = length (mSlots b)"
    by (simp add: buf_clear_def)
  have none: "filter sl_occupied (mSlots (buf_clear b)) = []"
    using free len by (simp add: filter_empty_conv all_set_conv_all_nth)
  have size: "mSize (buf_clear b) = 0"
    using assms by (simp add: buf_clear_def buf_ok_def)
  have "buf_index (buf_clear b) s < length (mSlots b)"
    using buf_index_less [OF assms, of s] by (simp add: buf_index_def len)
  then show ?thesis
    using assms free len none size by (simp add: buf_ok_def buf_empty_def buf_find_def Let_def)
qed


section \<open>Look-ups\<close>

lemma buf_index_ops [simp]:
  "buf_index (buf_insert b s v) t = buf_index b t"
  "buf_index (snd (buf_erase b s)) t = buf_index b t"
  "buf_index (buf_update b s f) t = buf_index b t"
  by (simp_all add: buf_index_def buf_insert_def buf_erase_def buf_update_def Let_def)

lemma buf_find_insert [buffer_simps]:
  assumes "buf_ok cap b"
  shows "buf_find (buf_insert b s v) t =
    (if t = s then Some v else if unat t mod cap = unat s mod cap then None else buf_find b t)"
proof -
  have "mSlots (buf_insert b s v) ! buf_index b t =
      (if buf_index b t = buf_index b s then \<lparr>sl_seq = s, sl_occupied = True, sl_value = Some v\<rparr>
       else mSlots b ! buf_index b t)"
    using buf_index_less [OF assms, of s] by (simp add: buf_insert_def Let_def)
  then show ?thesis
    by (auto simp: buf_find_def Let_def buf_index_mod [OF assms])
qed

lemma buf_find_erase [buffer_simps]:
  assumes "buf_ok cap b"
  shows "buf_find (snd (buf_erase b s)) t = (if t = s then None else buf_find b t)"
proof -
  have "mSlots (snd (buf_erase b s)) ! buf_index b t =
      (if buf_index b t = buf_index b s \<and> buf_contains b s then release (mSlots b ! buf_index b s)
       else mSlots b ! buf_index b t)"
    using buf_index_less [OF assms, of s] assms
    by (auto simp: buf_erase_def buf_contains_def buf_find_def Let_def buf_ok_def)
  then show ?thesis
    by (cases "t = s"; cases "buf_contains b s")
      (simp_all add: buf_find_def buf_contains_def release_def Let_def split: if_splits, blast+)
qed

lemma buf_find_update [buffer_simps]:
  assumes "buf_ok cap b"
  shows "buf_find (buf_update b s f) t = (if t = s then map_option f (buf_find b s) else buf_find b t)"
proof -
  let ?slot = "mSlots b ! buf_index b s"
  have "mSlots (buf_update b s f) ! buf_index b t =
      (if buf_index b t = buf_index b s \<and> sl_occupied ?slot \<and> sl_seq ?slot = s
       then ?slot\<lparr>sl_value := map_option f (sl_value ?slot)\<rparr> else mSlots b ! buf_index b t)"
    using buf_index_less [OF assms, of s] by (auto simp: buf_update_def Let_def)
  then show ?thesis
    by (cases "t = s") (simp_all add: buf_find_def Let_def, blast+)
qed

lemma buf_find_eq:
  assumes "buf_ok cap b"
  shows "buf_find b s = Some v \<longleftrightarrow>
    (\<exists>i < cap. sl_occupied (mSlots b ! i) \<and> sl_seq (mSlots b ! i) = s \<and> sl_value (mSlots b ! i) = Some v)"
  using assms buf_index_less [OF assms, of s] by (auto simp: buf_find_def Let_def buf_ok_def)

lemma buf_seqs_dom:
  assumes "buf_ok cap b"
  shows "set (buf_seqs b) = dom (buf_find b)"
proof -
  have "s \<in> set (buf_seqs b) \<longleftrightarrow> (\<exists>i < cap. sl_occupied (mSlots b ! i) \<and> sl_seq (mSlots b ! i) = s)" for s
    using assms by (auto simp: buf_seqs_def buf_ok_def in_set_conv_nth image_iff)
  moreover have "s \<in> dom (buf_find b) \<longleftrightarrow> (\<exists>i < cap. sl_occupied (mSlots b ! i) \<and> sl_seq (mSlots b ! i) = s)" for s
    using assms unfolding dom_def mem_Collect_eq not_None_eq buf_find_eq [OF assms]
    by (auto simp: buf_ok_def) metis
  ultimately show ?thesis
    by blast
qed

lemma buf_seqs_distinct:
  assumes "buf_ok cap b"
  shows "distinct (buf_seqs b)"
proof -
  have "distinct (map sl_seq (filter sl_occupied xs))"
    if "\<forall>i < length xs. sl_occupied (xs ! i) \<longrightarrow> f (sl_seq (xs ! i)) = n + i" for xs :: "'a Slot list" and f n
    using that
  proof (induction xs arbitrary: n)
    case (Cons x xs)
    have IH: "distinct (map sl_seq (filter sl_occupied xs))"
      using Cons.prems by (intro Cons.IH [of "Suc n"]) force
    have "f (sl_seq y) \<noteq> n" if "y \<in> set xs" "sl_occupied y" for y
      using that Cons.prems by (force simp: in_set_conv_nth)
    moreover have "sl_occupied x \<Longrightarrow> f (sl_seq x) = n"
      using Cons.prems by force
    ultimately show ?case
      using IH by auto
  qed simp
  from this [of "mSlots b" "buf_index b" 0] show ?thesis
    using assms by (simp add: buf_seqs_def buf_ok_def)
qed

lemma buf_size_card:
  assumes "buf_ok cap b"
  shows "mSize b = card (dom (buf_find b))"
  using assms distinct_card [OF buf_seqs_distinct [OF assms]] buf_seqs_dom [OF assms]
  by (simp add: buf_seqs_def buf_ok_def)


section \<open>The interface\<close>

text \<open>The keys of a map from seqs, as numbers, lie within a window.\<close>

definition in_window :: "(u64 \<rightharpoonup> 'a) \<Rightarrow> nat \<Rightarrow> nat \<Rightarrow> bool" where
  "in_window m lo c \<longleftrightarrow> (\<forall>s \<in> dom m. lo \<le> unat s \<and> unat s < lo + c)"

lemma mod_window_unique:
  fixes x y :: nat
  assumes "x mod c = y mod c" and "lo \<le> x" "x < lo + c" and "lo \<le> y" "y < lo + c"
  shows "x = y"
proof -
  have near: "x = y" if "x mod c = y mod c" "x \<le> y" "y - x < c" for x y :: nat
  proof -
    have "c dvd y - x"
      using that(1) mod_eq_dvd_iff_nat [OF that(2), of c] by simp
    then show ?thesis
      using that(2,3) nat_dvd_not_less [of "y - x" c] by (cases "x = y") simp_all
  qed
  show ?thesis
  proof (cases "x \<le> y")
    case True
    then show ?thesis
      using assms(2-) by (intro near [OF assms(1)]) linarith+
  next
    case False
    then have "y = x"
      using assms(2-) by (intro near [OF assms(1) [symmetric]]) linarith+
    then show ?thesis ..
  qed
qed

locale sequence_store =
  fixes ok :: "nat \<Rightarrow> 'b \<Rightarrow> bool"
    and lookup :: "'b \<Rightarrow> u64 \<rightharpoonup> 'a"
    and put :: "'b \<Rightarrow> u64 \<Rightarrow> 'a \<Rightarrow> 'b"
    and remove :: "'b \<Rightarrow> u64 \<Rightarrow> 'b"
    and modify :: "'b \<Rightarrow> u64 \<Rightarrow> ('a \<Rightarrow> 'a) \<Rightarrow> 'b"
    and entries :: "'b \<Rightarrow> nat"
  assumes ok_put: "ok c b \<Longrightarrow> ok c (put b s v)"
    and ok_remove: "ok c b \<Longrightarrow> ok c (remove b s)"
    and ok_modify: "ok c b \<Longrightarrow> ok c (modify b s f)"
    and lookup_put: "ok c b \<Longrightarrow> lookup (put b s v) t =
      (if t = s then Some v else if unat t mod c = unat s mod c then None else lookup b t)"
    and lookup_remove: "ok c b \<Longrightarrow> lookup (remove b s) t = (if t = s then None else lookup b t)"
    and lookup_modify: "ok c b \<Longrightarrow> lookup (modify b s f) t =
      (if t = s then map_option f (lookup b s) else lookup b t)"
    and entries_card: "ok c b \<Longrightarrow> entries b = card (dom (lookup b))"
begin

text \<open>Within a window of the capacity no two seqs share a slot, so inserting is a map update.\<close>

lemma put_map:
  assumes "ok c b" and "in_window (lookup b) lo c" and "lo \<le> unat s" "unat s < lo + c"
  shows "lookup (put b s v) = (lookup b)(s \<mapsto> v)"
proof
  fix t
  show "lookup (put b s v) t = ((lookup b)(s \<mapsto> v)) t"
  proof (cases "t \<noteq> s \<and> unat t mod c = unat s mod c")
    case True
    have "lookup b t = None"
    proof (rule ccontr)
      assume "lookup b t \<noteq> None"
      then have "lo \<le> unat t" "unat t < lo + c"
        using assms(2) by (auto simp: in_window_def dom_def)
      then have "unat t = unat s"
        using True assms(3,4) mod_window_unique by blast
      then show False
        using True by (simp add: word_unat_eq_iff)
    qed
    then show ?thesis
      using True lookup_put [OF assms(1)] by simp
  qed (use lookup_put [OF assms(1)] in auto)
qed

lemma remove_map: "ok c b \<Longrightarrow> lookup (remove b s) = (lookup b)(s := None)"
  by (auto simp: lookup_remove)

lemma modify_map: "ok c b \<Longrightarrow> lookup (modify b s f) = (lookup b)(s := map_option f (lookup b s))"
  by (auto simp: lookup_modify)

lemma dom_modify: "ok c b \<Longrightarrow> dom (lookup (modify b s f)) = dom (lookup b)"
  by (auto simp: lookup_modify dom_def)

lemma entries_modify: "ok c b \<Longrightarrow> entries (modify b s f) = entries b"
  using entries_card [OF ok_modify, of c b s f] entries_card [of c b] by (simp add: dom_modify)

lemma window_put:
  assumes "ok c b" and "in_window (lookup b) lo c" and "lo \<le> unat s" "unat s < lo + c"
  shows "in_window (lookup (put b s v)) lo c"
  using assms(2-) by (auto simp: put_map [OF assms] in_window_def)

lemma window_remove: "ok c b \<Longrightarrow> in_window (lookup b) lo c \<Longrightarrow> in_window (lookup (remove b s)) lo c"
  by (auto simp: remove_map in_window_def split: if_splits)

lemma window_modify: "ok c b \<Longrightarrow> in_window (lookup b) lo c \<Longrightarrow> in_window (lookup (modify b s f)) lo c"
  by (simp add: dom_modify in_window_def)

text \<open>... and there are never more entries than slots.\<close>

lemma entries_bound:
  assumes "ok c b" and "in_window (lookup b) lo c"
  shows "entries b \<le> c"
proof -
  have "unat ` dom (lookup b) \<subseteq> {lo..<lo + c}"
    using assms(2) by (auto simp: in_window_def)
  then have "card (unat ` dom (lookup b)) \<le> card {lo..<lo + c}"
    by (intro card_mono) auto
  moreover have "inj_on unat (dom (lookup b))"
    by (auto intro: inj_onI simp: word_unat_eq_iff)
  ultimately show ?thesis
    using entries_card [OF assms(1)] by (simp add: card_image)
qed

lemma entries_zero:
  assumes "ok c b"
  shows "entries b = 0 \<longleftrightarrow> lookup b = Map.empty"
  using entries_card [OF assms] by simp

lemma entries_remove:
  assumes "ok c b" and "lookup b s = Some v"
  shows "Suc (entries (remove b s)) = entries b"
proof -
  have "s \<in> dom (lookup b)"
    using assms(2) by auto
  then have "Suc (card (dom (lookup b) - {s})) = card (dom (lookup b))"
    by (intro card_Suc_Diff1) auto
  then show ?thesis
    using entries_card [OF assms(1)] entries_card [OF ok_remove [OF assms(1)]]
    by (simp add: remove_map [OF assms(1)])
qed

end

interpretation sb: sequence_store buf_ok buf_find buf_insert "\<lambda>b s. snd (buf_erase b s)" buf_update mSize
  by unfold_locales (simp_all add: buf_ok_insert buf_ok_erase buf_ok_update buffer_simps buf_size_card)


section \<open>Properties\<close>

text \<open>C15: Within a window of its capacity the ring buffer is a map from seqs: inserting, taking and erasing are the
  operations of the map, \<open>take\<close> returns what the map holds, and the size is the number of entries, which is
  at most the capacity.\<close>

theorem buffer_refines_map:
  assumes "buf_ok c b" and "in_window (buf_find b) lo c" and "lo \<le> unat s" "unat s < lo + c"
  shows "buf_find (buf_insert b s v) = (buf_find b)(s \<mapsto> v) \<and>
    buf_take b s = (buf_find b s, snd (buf_erase b s)) \<and>
    buf_find (snd (buf_erase b s)) = (buf_find b)(s := None) \<and>
    buf_size b = card (dom (buf_find b)) \<and> buf_size b \<le> capacity b"
  using assms sb.put_map [OF assms] sb.remove_map [OF assms(1)] buf_take_erase sb.entries_bound [OF assms(1,2)]
    sb.entries_card [OF assms(1)]
  by (simp_all add: buf_size_def capacity_def buf_ok_def)

theorem buffer_refines_map_witness:
  "buf_find (buf_insert (sequenceBuffer 4 :: nat SequenceBuffer) 6 1) = [6 \<mapsto> 1]"
proof -
  let ?b = "sequenceBuffer 4 :: nat SequenceBuffer"
  have ok: "buf_ok 4 ?b"
    using buf_ok_new [of 2] by simp
  have none: "buf_find ?b = Map.empty"
    using buf_find_new [OF ok] by (rule ext)
  then have "in_window (buf_find ?b) 5 4"
    by (simp add: in_window_def)
  from buffer_refines_map [OF ok this, of 6 1] show ?thesis
    by (simp add: none)
qed

end
