(* ===== verification/MessageAssembler.thy ===== *)
theory MessageAssembler
  imports PacketHeader
begin

text \<open>
  \<open>MessageAssembler.h\<close> and \<open>MessageAssembler.cpp\<close>: the fragments of one stream, which arrive in order,
  are put back together into messages. The budget the assembler may point to is shared between the
  streams; it is passed in and out here, and \<open>None\<close> is the null pointer.

  The lemmas show what the assembler keeps as an invariant whatever packets it is given (in particular
  that it has reserved what it holds, and never holds more than it has reserved), and that the
  fragments of a message, in order, give the message back.
\<close>

section \<open>Definitions\<close>

record AssembledMessage =
  am_tag :: u32
  am_body :: bytes

record AssemblyBudget =
  bg_limit :: nat
  bg_used :: nat

definition budget_fits :: "AssemblyBudget \<Rightarrow> nat \<Rightarrow> bool" where
  "budget_fits b n \<longleftrightarrow> n \<le> size_minus (bg_limit b) (bg_used b)"

definition budget_reserve :: "AssemblyBudget \<Rightarrow> nat \<Rightarrow> bool \<times> AssemblyBudget" where
  "budget_reserve b n = (if \<not> budget_fits b n then (False, b) else (True, b\<lparr>bg_used := bg_used b + n\<rparr>))"

definition budget_release :: "AssemblyBudget \<Rightarrow> nat \<Rightarrow> AssemblyBudget" where
  "budget_release b n = b\<lparr>bg_used := size_minus (bg_used b) n\<rparr>"

record MessageAssembler =
  ma_assembling :: bool
  ma_fragCount :: u16
  ma_nextIndex :: u16
  ma_tag :: u32
  ma_totalLength :: u32
  ma_body :: bytes

definition emptyAssembler :: MessageAssembler where
  "emptyAssembler =
     \<lparr>ma_assembling = False, ma_fragCount = 0, ma_nextIndex = 0, ma_tag = 0, ma_totalLength = 0, ma_body = []\<rparr>"

definition hasRoomFor :: "AssemblyBudget option \<Rightarrow> PacketHeader \<Rightarrow> bool" where
  "hasRoomFor bg h \<longleftrightarrow>
     (case bg of None \<Rightarrow> True
      | Some b \<Rightarrow> \<not> startsFragmentedMessage h \<or> budget_fits b (unat (totalLength h)))"

text \<open>\<open>reset\<close>, which is the destructor too: what it leaves of the assembler and the budget.\<close>

definition assembler_reset ::
  "MessageAssembler \<times> AssemblyBudget option \<Rightarrow> MessageAssembler \<times> AssemblyBudget option" where
  "assembler_reset = (\<lambda>(a, bg).
     (emptyAssembler,
      if ma_assembling a then map_option (\<lambda>b. budget_release b (unat (ma_totalLength a))) bg else bg))"

text \<open>The block of \<open>accept\<close> for a first fragment: \<open>None\<close> if the message is not taken.\<close>

definition beginMessage ::
  "PacketHeader \<Rightarrow> MessageAssembler \<times> AssemblyBudget option \<Rightarrow> bool \<times> MessageAssembler \<times> AssemblyBudget option" where
  "beginMessage h st =
     (let (a, bg) = assembler_reset st in
      if unat (totalLength h) > MaxMessagePayload \<or> fragmentsOf (unat (totalLength h)) \<noteq> unat (fragCount h)
      then (False, a, bg)
      else let (reserved, bg) =
             (case bg of None \<Rightarrow> (True, None)
              | Some b \<Rightarrow> (let (r, b) = budget_reserve b (unat (totalLength h)) in (r, Some b)))
        in if \<not> reserved then (False, a, bg)
           else (True, a\<lparr>ma_assembling := True, ma_fragCount := fragCount h, ma_tag := tag h,
                         ma_totalLength := totalLength h\<rparr>, bg))"

text \<open>The rest of \<open>accept\<close>: the fragment has to be the next one of the message in progress.\<close>

definition continueMessage ::
  "PacketHeader \<Rightarrow> bytes \<Rightarrow> MessageAssembler \<times> AssemblyBudget option \<Rightarrow>
   AssembledMessage option \<times> MessageAssembler \<times> AssemblyBudget option" where
  "continueMessage h body = (\<lambda>(a, bg).
     if \<not> ma_assembling a \<or> fragCount h \<noteq> ma_fragCount a \<or> fragIndex h \<noteq> ma_nextIndex a
     then (None, assembler_reset (a, bg))
     else let expected = (if isLastFragment (flags h)
                          then size_minus (unat (ma_totalLength a)) (length (ma_body a)) else MaxFragmentBody)
       in if length body \<noteq> expected then (None, assembler_reset (a, bg))
          else let a = a\<lparr>ma_body := ma_body a @ body, ma_nextIndex := ma_nextIndex a + 1\<rparr>
            in if ma_nextIndex a < ma_fragCount a then (None, a, bg)
               else (Some \<lparr>am_tag = ma_tag a, am_body = ma_body a\<rparr>, assembler_reset (a, bg)))"

definition assembler_accept ::
  "PacketHeader \<Rightarrow> bytes \<Rightarrow> MessageAssembler \<times> AssemblyBudget option \<Rightarrow>
   AssembledMessage option \<times> MessageAssembler \<times> AssemblyBudget option" where
  "assembler_accept h body st =
     (if \<not> isFragmented (flags h)
      then (Some \<lparr>am_tag = tag h, am_body = body\<rparr>, assembler_reset st)
      else if fragIndex h = 0
      then let (taken, st) = beginMessage h st
           in if \<not> taken then (None, st) else continueMessage h body st
      else continueMessage h body st)"


section \<open>Invariant\<close>

text \<open>
  What the assembler holds: nothing while no message is in progress, else the full fragments before
  the next one, of a message that is longer than that.
\<close>

definition assembler_ok :: "MessageAssembler \<Rightarrow> bool" where
  "assembler_ok a \<longleftrightarrow>
     (if ma_assembling a
      then ma_nextIndex a < ma_fragCount a \<and> 2 \<le> unat (ma_fragCount a) \<and>
           fragmentsOf (unat (ma_totalLength a)) = unat (ma_fragCount a) \<and>
           unat (ma_totalLength a) \<le> MaxMessagePayload \<and>
           length (ma_body a) = unat (ma_nextIndex a) * MaxFragmentBody
      else a = emptyAssembler)"

text \<open>What the assembler has reserved in the budget.\<close>

definition reserved :: "MessageAssembler \<Rightarrow> nat" where
  "reserved a = (if ma_assembling a then unat (ma_totalLength a) else 0)"

definition budget_ok :: "AssemblyBudget \<Rightarrow> bool" where
  "budget_ok b \<longleftrightarrow> bg_used b \<le> bg_limit b \<and> bg_limit b < 2 ^ 64"

text \<open>\<open>others\<close> is what the other assemblers that share the budget have reserved.\<close>

definition accounted :: "nat \<Rightarrow> MessageAssembler \<times> AssemblyBudget option \<Rightarrow> bool" where
  "accounted others = (\<lambda>(a, bg). case bg of None \<Rightarrow> True
     | Some b \<Rightarrow> budget_ok b \<and> bg_used b = others + reserved a)"

lemma assembler_ok_empty [simp]: "assembler_ok emptyAssembler"
  by (simp add: assembler_ok_def emptyAssembler_def)

lemma reserved_empty [simp]: "reserved emptyAssembler = 0"
  by (simp add: reserved_def emptyAssembler_def)

lemma assembler_reset_fst [simp]: "fst (assembler_reset st) = emptyAssembler"
  by (simp add: assembler_reset_def split: prod.splits)

lemma accounted_reset: "accounted others st \<Longrightarrow> accounted others (assembler_reset st)"
  by (cases st; cases "snd st")
    (auto simp: accounted_def assembler_reset_def budget_ok_def budget_release_def reserved_def emptyAssembler_def)

text \<open>The body in progress fits into what is announced, so it is covered by the reservation.\<close>

lemma body_below_total:
  assumes "assembler_ok a" and "ma_assembling a"
  shows "length (ma_body a) < unat (ma_totalLength a)"
proof -
  have n: "unat (ma_nextIndex a) < unat (ma_fragCount a)"
    using assms by (simp add: assembler_ok_def word_less_nat_alt)
  have f: "fragmentsOf (unat (ma_totalLength a)) = unat (ma_fragCount a)" "2 \<le> unat (ma_fragCount a)"
    using assms by (simp_all add: assembler_ok_def)
  have "0 < unat (ma_totalLength a)"
    using f by (auto simp: fragmentsOf_def split: if_splits)
  then have "(unat (ma_fragCount a) - 1) * MaxFragmentBody < unat (ma_totalLength a)"
    using fragmentsOf_bounds [of "unat (ma_totalLength a)"] f(1) by simp
  moreover have "unat (ma_nextIndex a) * MaxFragmentBody \<le> (unat (ma_fragCount a) - 1) * MaxFragmentBody"
    using n by (intro mult_le_mono1) simp
  moreover have "length (ma_body a) = unat (ma_nextIndex a) * MaxFragmentBody"
    using assms by (simp add: assembler_ok_def)
  ultimately show ?thesis
    by linarith
qed

lemma reserved_covers_body: "assembler_ok a \<Longrightarrow> length (ma_body a) \<le> reserved a"
  using body_below_total [of a] by (auto simp: reserved_def assembler_ok_def emptyAssembler_def)

lemma beginMessage_ok:
  assumes "beginMessage h st = (True, st')" and "2 \<le> unat (fragCount h)"
  shows "assembler_ok (fst st')" and "ma_nextIndex (fst st') = 0"
  using assms
  by (auto simp: beginMessage_def Let_def assembler_ok_def emptyAssembler_def assembler_reset_def
      word_less_nat_alt split: prod.splits if_splits option.splits)

lemma beginMessage_refused: "beginMessage h st = (False, st') \<Longrightarrow> fst st' = emptyAssembler"
  by (auto simp: beginMessage_def Let_def assembler_reset_def split: prod.splits if_splits option.splits)

lemma beginMessage_accounted:
  assumes "beginMessage h st = (taken, st')" and "accounted others st"
  shows "accounted others st'"
proof -
  obtain a bg where r: "assembler_reset st = (a, bg)"
    by (cases "assembler_reset st") auto
  then have "accounted others (a, bg)" "a = emptyAssembler"
    using accounted_reset [OF assms(2)] assembler_reset_fst [of st] by simp_all
  then show ?thesis
    using assms(1) r
    by (auto simp: beginMessage_def Let_def accounted_def budget_reserve_def budget_fits_def budget_ok_def
        reserved_def emptyAssembler_def split: prod.splits if_splits option.splits)
qed

lemma continueMessage_ok:
  assumes "assembler_ok (fst st)" and "header_ok h" and "isFragmented (flags h)"
  shows "assembler_ok (fst (snd (continueMessage h body st)))"
proof -
  obtain a bg where st: "st = (a, bg)"
    by (cases st)
  show ?thesis
  proof (cases "ma_assembling a \<and> fragCount h = ma_fragCount a \<and> fragIndex h = ma_nextIndex a \<and>
      ma_nextIndex a + 1 < ma_fragCount a \<and>
      length body = (if isLastFragment (flags h)
        then size_minus (unat (ma_totalLength a)) (length (ma_body a)) else MaxFragmentBody)")
    case True
    have "ma_nextIndex a < ma_fragCount a"
      using assms(1) True st by (simp add: assembler_ok_def)
    then have n: "unat (ma_nextIndex a + 1) = Suc (unat (ma_nextIndex a))"
      by (rule word_less_no_wrap)
    then have "Suc (unat (ma_nextIndex a)) \<noteq> unat (ma_fragCount a)"
      using True by (simp add: word_less_nat_alt)
    then have "\<not> isLastFragment (flags h)"
      using assms(2,3) True by (simp add: header_ok_def)
    then show ?thesis
      using assms(1) True n st by (simp add: continueMessage_def assembler_ok_def)
  qed (auto simp: continueMessage_def st Let_def)
qed

lemma continueMessage_accounted:
  assumes "accounted others st"
  shows "accounted others (snd (continueMessage h body st))"
proof -
  obtain a bg where st: "st = (a, bg)"
    by (cases st)
  let ?a = "a\<lparr>ma_body := ma_body a @ body, ma_nextIndex := ma_nextIndex a + 1\<rparr>"
  have "accounted others (?a, bg)"
    using assms by (simp add: st accounted_def reserved_def split: option.splits)
  then show ?thesis
    using assms accounted_reset by (auto simp: st continueMessage_def Let_def)
qed

text \<open>Every packet the decoder lets through keeps the invariant, and the budget adds up.\<close>

lemma assembler_accept_ok:
  assumes "assembler_ok (fst st)" and "header_ok h"
  shows "assembler_ok (fst (snd (assembler_accept h body st)))"
proof (cases "isFragmented (flags h) \<and> fragIndex h = 0")
  case True
  obtain taken st' where b: "beginMessage h st = (taken, st')"
    by (cases "beginMessage h st")
  have two: "2 \<le> unat (fragCount h)"
    using assms(2) True by (simp add: header_ok_def)
  show ?thesis
  proof (cases taken)
    case taken: True
    have "assembler_ok (fst st')"
      using beginMessage_ok(1) [OF _ two] b taken by simp
    then have "assembler_ok (fst (snd (continueMessage h body st')))"
      using True assms(2) by (intro continueMessage_ok) simp_all
    then show ?thesis
      using True b taken by (simp add: assembler_accept_def)
  next
    case False
    then show ?thesis
      using True b beginMessage_refused [of h st st'] by (simp add: assembler_accept_def)
  qed
next
  case False
  then show ?thesis
    using assms continueMessage_ok by (auto simp: assembler_accept_def)
qed

lemma assembler_accept_accounted:
  assumes "accounted others st"
  shows "accounted others (snd (assembler_accept h body st))"
  using assms accounted_reset continueMessage_accounted beginMessage_accounted
  by (auto simp: assembler_accept_def Let_def split: prod.splits)


section \<open>Round trip\<close>

text \<open>Fragment \<open>k\<close> of a message, and the headers that carry it.\<close>

definition fragment_body :: "bytes \<Rightarrow> nat \<Rightarrow> bytes" where
  "fragment_body body k = take MaxFragmentBody (drop (k * MaxFragmentBody) body)"

definition carries :: "PacketHeader \<Rightarrow> u32 \<Rightarrow> bytes \<Rightarrow> nat \<Rightarrow> bool" where
  "carries h t body k \<longleftrightarrow>
     (let n = fragmentsOf (length body) in
      if n = 1 then \<not> isFragmented (flags h) \<and> tag h = t
      else isFragmented (flags h) \<and> unat (fragCount h) = n \<and> unat (fragIndex h) = k \<and>
           isLastFragment (flags h) = (k + 1 = n) \<and>
           (k = 0 \<longrightarrow> tag h = t \<and> unat (totalLength h) = length body))"

text \<open>The assembler after the first \<open>k\<close> fragments of a message.\<close>

definition asm_mid :: "u32 \<Rightarrow> bytes \<Rightarrow> nat \<Rightarrow> MessageAssembler" where
  "asm_mid t body k =
     \<lparr>ma_assembling = True, ma_fragCount = of_nat (fragmentsOf (length body)), ma_nextIndex = of_nat k,
      ma_tag = t, ma_totalLength = of_nat (length body), ma_body = take (k * MaxFragmentBody) body\<rparr>"

definition asm_at :: "u32 \<Rightarrow> bytes \<Rightarrow> nat \<Rightarrow> MessageAssembler" where
  "asm_at t body k = (if k = 0 then emptyAssembler else asm_mid t body k)"

lemma fragment_body_append: "take (k * MaxFragmentBody) body @ fragment_body body k = take (Suc k * MaxFragmentBody) body"
  by (simp only: fragment_body_def mult_Suc add.commute [of MaxFragmentBody] take_add)

lemma fragment_offset:
  assumes "k < fragmentsOf (length body)"
  shows "k * MaxFragmentBody \<le> length body"
proof (cases "length body = 0")
  case True
  then show ?thesis
    using assms by (simp add: fragmentsOf_def)
next
  case False
  then have "(fragmentsOf (length body) - 1) * MaxFragmentBody < length body"
    using fragmentsOf_bounds by simp
  moreover have "k * MaxFragmentBody \<le> (fragmentsOf (length body) - 1) * MaxFragmentBody"
    using assms by (intro mult_le_mono1) simp
  ultimately show ?thesis
    by linarith
qed

lemma length_fragment_body:
  assumes "k < fragmentsOf (length body)"
  shows "length (fragment_body body k) =
    (if k + 1 = fragmentsOf (length body) then length body - k * MaxFragmentBody else MaxFragmentBody)"
proof (cases "k + 1 = fragmentsOf (length body)")
  case True
  have "length body \<le> Suc k * MaxFragmentBody"
    using fragmentsOf_bounds [of "length body"] True by (cases "length body = 0") auto
  then show ?thesis
    using True by (simp add: fragment_body_def)
next
  case False
  then have "Suc k * MaxFragmentBody \<le> length body"
    using assms by (intro fragment_offset) simp
  then show ?thesis
    using False by (simp add: fragment_body_def)
qed

lemma whole_message: "take (fragmentsOf (length body) * MaxFragmentBody) body = body"
  using fragmentsOf_bounds [of "length body"] by (cases "length body = 0") auto

lemma carries_fields:
  assumes "carries h t body k" and "fragmentsOf (length body) \<noteq> 1" and "length body \<le> MaxMessagePayload"
  shows "isFragmented (flags h)" and "unat (fragCount h) = fragmentsOf (length body)"
    and "unat (fragIndex h) = k" and "isLastFragment (flags h) = (k + 1 = fragmentsOf (length body))"
    and "k = 0 \<Longrightarrow> tag h = t" and "k = 0 \<Longrightarrow> unat (totalLength h) = length body"
  using assms by (simp_all add: carries_def Let_def)

lemma word_eq_of_nat: "unat w = n \<Longrightarrow> w = of_nat n" for w :: "'a::len word"
  by auto

lemma continue_fragment:
  assumes len: "length body \<le> MaxMessagePayload" and k: "k < fragmentsOf (length body)"
    and n: "fragmentsOf (length body) \<noteq> 1" and h: "carries h t body k"
  shows "continueMessage h (fragment_body body k) (asm_mid t body k, bg) =
    (if k + 1 = fragmentsOf (length body)
     then (Some \<lparr>am_tag = t, am_body = body\<rparr>, assembler_reset (asm_mid t body (k + 1), bg))
     else (None, asm_mid t body (k + 1), bg))"
proof -
  let ?n = "fragmentsOf (length body)"
  have "?n \<le> 14365" "length body < 2 ^ 32"
    using fragmentsOf_message [OF len] len by (simp_all add: constants)
  then have un: "unat (of_nat ?n :: u16) = ?n" "unat (of_nat k :: u16) = k" "unat (of_nat (Suc k) :: u16) = Suc k"
    "unat (of_nat (length body) :: u32) = length body"
    using k by (simp_all add: unat_of_nat del: of_nat_Suc)
  note hd = carries_fields(2,3) [OF h n len, THEN word_eq_of_nat] carries_fields(4) [OF h n len]
  have next_frag: "(of_nat k + 1 :: u16) < of_nat ?n \<longleftrightarrow> Suc k < ?n"
    using un by (simp add: word_less_nat_alt add.commute flip: of_nat_Suc)
  have size: "length (fragment_body body k) = (if k + 1 = ?n
      then size_minus (unat (of_nat (length body) :: u32)) (length (take (k * MaxFragmentBody) body)) else MaxFragmentBody)"
    using length_fragment_body [OF k] fragment_offset [OF k] un by (simp add: min_def)
  show ?thesis
    using k next_frag whole_message [of body]
    by (auto simp: continueMessage_def asm_mid_def hd size fragment_body_append assembler_reset_def add.commute)
qed

lemma begin_fragment:
  assumes "length body \<le> MaxMessagePayload" and "fragmentsOf (length body) \<noteq> 1" and "carries h t body 0"
    and "hasRoomFor bg h"
  shows "\<exists>bg'. beginMessage h (emptyAssembler, bg) = (True, asm_mid t body 0, bg')"
proof -
  let ?n = "fragmentsOf (length body)"
  note f = carries_fields [OF assms(3,2,1)]
  have "fragCount h = of_nat ?n" "totalLength h = of_nat (length body)"
    using f by (simp_all add: word_eq_of_nat)
  moreover have "unat (totalLength h) = length body" "unat (fragCount h) = ?n" "tag h = t"
    "startsFragmentedMessage h"
    using f by (simp_all add: startsFragmentedMessage_def)
  ultimately show ?thesis
    using assms(1,4)
    by (cases bg) (auto simp: beginMessage_def assembler_reset_def emptyAssembler_def asm_mid_def hasRoomFor_def
        budget_reserve_def)
qed

text \<open>One fragment takes the assembler one step further; the last one gives the message back.\<close>

lemma accept_fragment:
  assumes len: "length body \<le> MaxMessagePayload" and k: "k < fragmentsOf (length body)"
    and h: "carries h t body k" and room: "hasRoomFor bg h"
  obtains bg' where "assembler_accept h (fragment_body body k) (asm_at t body k, bg) =
    (if k + 1 = fragmentsOf (length body) then (Some \<lparr>am_tag = t, am_body = body\<rparr>, emptyAssembler, bg')
     else (None, asm_at t body (k + 1), bg'))"
proof (cases "fragmentsOf (length body) = 1")
  case True
  then have "fragment_body body k = body" "k = 0"
    using whole_message [of body] k by (simp_all add: fragment_body_def)
  then show ?thesis
    using that [of bg] True h
    by (simp add: assembler_accept_def carries_def asm_at_def assembler_reset_def emptyAssembler_def)
next
  case False
  obtain bg' where step: "assembler_accept h (fragment_body body k) (asm_at t body k, bg) =
      continueMessage h (fragment_body body k) (asm_mid t body k, bg')"
  proof (cases "k = 0")
    case True
    with begin_fragment [OF len False] h room show ?thesis
      using that carries_fields(1,3) [OF h False len] by (fastforce simp: assembler_accept_def asm_at_def)
  next
    case k0: False
    then show ?thesis
      using that [of bg] carries_fields(1,3) [OF h False len] by (auto simp: assembler_accept_def asm_at_def)
  qed
  moreover obtain a bg'' where "assembler_reset (asm_mid t body (k + 1), bg') = (a, bg'')" "a = emptyAssembler"
    by (metis assembler_reset_fst surjective_pairing)
  ultimately show ?thesis
    using that [of bg'] that [of bg''] continue_fragment [OF len k False h] by (simp add: asm_at_def split: if_splits)
qed


section \<open>Properties\<close>

text \<open>C16: Whatever packet arrives, the assembler keeps its invariant and the budget its account: what is used of it is
  what the assemblers that share it have reserved, never more than the limit, and an assembler holds no more
  bytes than it has reserved.\<close>

theorem assembler_within_budget:
  assumes "assembler_ok a" and "accounted others (a, bg)" and "header_ok h"
    and "assembler_accept h body (a, bg) = (r, a', bg')"
  shows "assembler_ok a' \<and> accounted others (a', bg') \<and> length (ma_body a') \<le> reserved a'"
  using assembler_accept_ok [of "(a, bg)" h body] assembler_accept_accounted [of others "(a, bg)" h body] assms
  by (simp add: reserved_covers_body)

theorem assembler_within_budget_witness:
  "\<exists>r a' bg'. assembler_accept sample_header (replicate 1168 7) (emptyAssembler, Some \<lparr>bg_limit = 5000, bg_used = 100\<rparr>) =
     (r, a', bg') \<and> accounted 100 (a', bg')"
proof -
  let ?bg = "Some \<lparr>bg_limit = 5000, bg_used = 100\<rparr>"
  obtain r a' bg' where r: "assembler_accept sample_header (replicate 1168 7) (emptyAssembler, ?bg) = (r, a', bg')"
    by (metis prod.exhaust)
  have "accounted 100 (emptyAssembler, ?bg)"
    by (simp add: accounted_def budget_ok_def)
  then show ?thesis
    using assembler_within_budget [OF assembler_ok_empty _ sample_header_ok(1) r] r by blast
qed

text \<open>The packets of a message, accepted one after another.\<close>

fun assembler_feed ::
  "(PacketHeader \<times> bytes) list \<Rightarrow> MessageAssembler \<times> AssemblyBudget option \<Rightarrow>
   AssembledMessage list \<times> MessageAssembler \<times> AssemblyBudget option" where
  "assembler_feed [] st = ([], st)"
| "assembler_feed ((h, body) # packets) st =
     (let (r, st) = assembler_accept h body st; (rs, st) = assembler_feed packets st
      in (case r of None \<Rightarrow> rs | Some m \<Rightarrow> m # rs, st))"

lemma feed_from:
  assumes len: "length body \<le> MaxMessagePayload" and h: "\<And>k. k < fragmentsOf (length body) \<Longrightarrow> carries (hdr k) t body k"
  shows "k < fragmentsOf (length body) \<Longrightarrow> hasRoomFor bg (hdr k) \<Longrightarrow>
    \<exists>bg'. assembler_feed (map (\<lambda>k. (hdr k, fragment_body body k)) [k..<fragmentsOf (length body)]) (asm_at t body k, bg) =
      ([\<lparr>am_tag = t, am_body = body\<rparr>], emptyAssembler, bg')"
proof (induction "fragmentsOf (length body) - k" arbitrary: k bg)
  case (Suc n)
  let ?n = "fragmentsOf (length body)"
  obtain bg' where acc: "assembler_accept (hdr k) (fragment_body body k) (asm_at t body k, bg) =
      (if k + 1 = ?n then (Some \<lparr>am_tag = t, am_body = body\<rparr>, emptyAssembler, bg') else (None, asm_at t body (k + 1), bg'))"
    using accept_fragment [OF len Suc.prems(1) h [OF Suc.prems(1)] Suc.prems(2)] by blast
  show ?case
  proof (cases "k + 1 = ?n")
    case True
    then show ?thesis
      using acc by (simp add: upt_rec)
  next
    case False
    then have k: "k + 1 < ?n" "?n \<noteq> 1"
      using Suc.prems(1) by linarith+
    have "\<not> startsFragmentedMessage (hdr (k + 1))"
      using carries_fields(3) [OF h [OF k(1)] k(2) len] by (auto simp: startsFragmentedMessage_def)
    then have "hasRoomFor bg' (hdr (k + 1))"
      by (simp add: hasRoomFor_def split: option.splits)
    then obtain bg'' where "assembler_feed (map (\<lambda>k. (hdr k, fragment_body body k)) [k + 1..<?n]) (asm_at t body (k + 1), bg') =
        ([\<lparr>am_tag = t, am_body = body\<rparr>], emptyAssembler, bg'')"
      using Suc.hyps(1) [of "k + 1" bg'] Suc.hyps(2) k(1) by fastforce
    then show ?thesis
      using acc False Suc.prems(1) by (simp add: upt_rec [of k])
  qed
qed simp

text \<open>C17: The fragments of a message, accepted in their order by an assembler with room for it, give exactly this
  message, once and at the end, and leave the assembler empty.\<close>

theorem message_reassembled:
  assumes "length body \<le> MaxMessagePayload" and "\<And>k. k < fragmentsOf (length body) \<Longrightarrow> carries (hdr k) t body k"
    and "hasRoomFor bg (hdr 0)"
  shows "\<exists>bg'. assembler_feed (map (\<lambda>k. (hdr k, fragment_body body k)) [0..<fragmentsOf (length body)]) (emptyAssembler, bg) =
      ([\<lparr>am_tag = t, am_body = body\<rparr>], emptyAssembler, bg')"
  using feed_from [OF assms(1,2) fragmentsOf_pos assms(3)] by (simp add: asm_at_def)

definition sample_fragment :: "nat \<Rightarrow> PacketHeader" where
  "sample_fragment k = sample_header\<lparr>flags := setFragment (dataFlags Bulk) True (k = 1), seq := 4 + of_nat k,
     fragIndex := of_nat k\<rparr>"

lemma sample_count: "fragmentsOf 1200 = 2"
  by (simp add: fragmentsOf_def constants)

lemma sample_carries: "k < 2 \<Longrightarrow> carries (sample_fragment k) 5 (replicate 1200 7) k"
  by (auto simp: carries_def sample_count sample_fragment_def sample_header_def emptyHeader_def less_2_cases_iff Let_def)

theorem message_reassembled_witness:
  "\<exists>bg'. assembler_feed (map (\<lambda>k. (sample_fragment k, fragment_body (replicate 1200 7) k)) [0..<2])
      (emptyAssembler, Some \<lparr>bg_limit = 5000, bg_used = 100\<rparr>) =
    ([\<lparr>am_tag = 5, am_body = replicate 1200 7\<rparr>], emptyAssembler, bg')"
proof -
  let ?bg = "Some \<lparr>bg_limit = 5000, bg_used = 100\<rparr>"
  have "hasRoomFor ?bg (sample_fragment 0)"
    by (simp add: hasRoomFor_def budget_fits_def size_minus_def sample_fragment_def sample_header_def emptyHeader_def)
  then show ?thesis
    using message_reassembled [of "replicate 1200 7" sample_fragment 5 ?bg] by (simp add: sample_count sample_carries constants)
qed

end
