(* ===== verification/MediaAssembler.thy ===== *)
theory MediaAssembler
  imports MessageAssembler
begin

text \<open>
  \<open>MediaAssembler.h\<close> and \<open>MediaAssembler.cpp\<close>: the fragments of unacknowledged messages are put
  together in whatever order they arrive, a few messages at a time. The operations return an option:
  \<open>None\<close> is undefined behaviour, a copy outside the body of a slot or a shift by more than 63.

  The lemmas show that neither happens for a packet the decoder lets through, that every slot keeps
  count of what it holds, and that the fragments of a message give it back in any order.
\<close>

unbundle bit_operations_syntax

section \<open>Definitions\<close>

record MediaSlot =
  ms_used :: bool
  ms_id :: u64
  ms_count :: u16
  ms_received :: u16
  ms_present :: u64
  ms_tag :: u32
  ms_totalLength :: u32
  ms_lastLength :: u32
  ms_body :: bytes

record MediaAssembler =
  med_slots :: "MediaSlot list"
  med_abandoned :: u64

definition emptyMediaSlot :: MediaSlot where
  "emptyMediaSlot =
     \<lparr>ms_used = False, ms_id = 0, ms_count = 0, ms_received = 0, ms_present = 0, ms_tag = 0,
      ms_totalLength = 0, ms_lastLength = 0, ms_body = []\<rparr>"

definition emptyMediaAssembler :: MediaAssembler where
  "emptyMediaAssembler = \<lparr>med_slots = replicate MediaAssemblySlots emptyMediaSlot, med_abandoned = 0\<rparr>"

text \<open>\<open>std::vector::resize\<close>.\<close>

definition resize :: "nat \<Rightarrow> bytes \<Rightarrow> bytes" where
  "resize n bs = take n bs @ replicate (n - length bs) 0"

text \<open>
  The loop of \<open>slotFor\<close>: the slots from number \<open>i\<close> on, with the free slot and the oldest slot (and
  its id) found so far. \<open>Inl\<close> is the early return of the slot that has the id.
\<close>

fun scanSlots ::
  "MediaSlot list \<Rightarrow> nat \<Rightarrow> u64 \<Rightarrow> nat option \<Rightarrow> (nat \<times> u64) option \<Rightarrow> nat + nat option \<times> (nat \<times> u64) option" where
  "scanSlots [] i mid free oldest = Inr (free, oldest)"
| "scanSlots (slot # slots) i mid free oldest =
     (if ms_used slot \<and> ms_id slot = mid then Inl i
      else if \<not> ms_used slot then scanSlots slots (Suc i) mid (Some i) oldest
      else if oldest = None \<or> ms_id slot < snd (the oldest)
      then scanSlots slots (Suc i) mid free (Some (i, ms_id slot))
      else scanSlots slots (Suc i) mid free oldest)"

definition slotFor :: "u64 \<Rightarrow> u16 \<Rightarrow> MediaAssembler \<Rightarrow> nat option \<times> MediaAssembler" where
  "slotFor mid count m =
     (let claim = (\<lambda>i (m :: MediaAssembler).
        (Some i, m\<lparr>med_slots := (med_slots m)[i := (med_slots m ! i)\<lparr>ms_used := True, ms_id := mid,
           ms_count := count, ms_body := resize (unat count * MaxFragmentBody) (ms_body (med_slots m ! i))\<rparr>]\<rparr>))
      in case scanSlots (med_slots m) 0 mid None None of
           Inl i \<Rightarrow> (Some i, m)
         | Inr (Some i, _) \<Rightarrow> claim i m
         | Inr (None, None) \<Rightarrow> (None, m)
         | Inr (None, Some (i, oldest)) \<Rightarrow>
             if mid < oldest then (None, m)
             else claim i (m\<lparr>med_slots := (med_slots m)[i := emptyMediaSlot],
                             med_abandoned := med_abandoned m + 1\<rparr>))"

text \<open>What \<open>accept\<close> does with the slot of its message: the fragment is copied in and counted.\<close>

definition addFragment :: "PacketHeader \<Rightarrow> bytes \<Rightarrow> MediaSlot \<Rightarrow> MediaSlot option" where
  "addFragment h body slot =
     do { copied \<leftarrow> store (ms_body slot) (unat (fragIndex h) * MaxFragmentBody) body;
          let slot = slot\<lparr>ms_body := copied, ms_present := ms_present slot OR push_bit (unat (fragIndex h)) 1,
                          ms_received := ms_received slot + 1\<rparr>;
          let slot = (if fragIndex h = 0 then slot\<lparr>ms_tag := tag h, ms_totalLength := totalLength h\<rparr> else slot);
          Some (if isLastFragment (flags h) then slot\<lparr>ms_lastLength := of_nat (length body)\<rparr> else slot) }"

text \<open>The message of a slot that has all its fragments, and \<open>None\<close> if it is not as long as announced.\<close>

definition finishSlot :: "MediaSlot \<Rightarrow> AssembledMessage option" where
  "finishSlot slot =
     (let len = (unat (ms_count slot) - 1) * MaxFragmentBody + unat (ms_lastLength slot)
      in if len = unat (ms_totalLength slot)
         then Some \<lparr>am_tag = ms_tag slot, am_body = resize len (ms_body slot)\<rparr> else None)"

definition media_accept ::
  "PacketHeader \<Rightarrow> bytes \<Rightarrow> MediaAssembler \<Rightarrow> (AssembledMessage option \<times> MediaAssembler) option" where
  "media_accept h body m =
     (if \<not> isFragmented (flags h) then Some (Some \<lparr>am_tag = tag h, am_body = body\<rparr>, m)
      else if unat (fragCount h) > 64 \<or> seq h \<le> ucast (fragIndex h) then Some (None, m)
      else if (if isLastFragment (flags h) then body = [] \<or> length body > MaxFragmentBody
               else length body \<noteq> MaxFragmentBody) then Some (None, m)
      else case slotFor (seq h - ucast (fragIndex h)) (fragCount h) m of
        (None, m) \<Rightarrow> Some (None, m)
      | (Some i, m) \<Rightarrow>
          let slot = med_slots m ! i in
          if unat (fragIndex h) \<ge> 64 then None
          else if ms_count slot \<noteq> fragCount h \<or> ms_present slot AND push_bit (unat (fragIndex h)) 1 \<noteq> 0
          then Some (None, m)
          else do { slot \<leftarrow> addFragment h body slot;
                    if ms_received slot < ms_count slot
                    then Some (None, m\<lparr>med_slots := (med_slots m)[i := slot]\<rparr>)
                    else Some (finishSlot slot, m\<lparr>med_slots := (med_slots m)[i := emptyMediaSlot]\<rparr>) })"

definition inProgress :: "MediaAssembler \<Rightarrow> nat" where
  "inProgress m = length (filter ms_used (med_slots m))"


section \<open>Invariant\<close>

text \<open>The fragments a slot has, as a set of indices.\<close>

definition present :: "MediaSlot \<Rightarrow> nat set" where
  "present slot = {k. bit (ms_present slot) k}"

definition slot_ok :: "MediaSlot \<Rightarrow> bool" where
  "slot_ok slot \<longleftrightarrow>
     (if ms_used slot
      then 2 \<le> unat (ms_count slot) \<and> unat (ms_count slot) \<le> 64 \<and>
           length (ms_body slot) = unat (ms_count slot) * MaxFragmentBody \<and>
           present slot \<subseteq> {..<unat (ms_count slot)} \<and>
           unat (ms_received slot) = card (present slot) \<and> ms_received slot < ms_count slot
      else slot = emptyMediaSlot)"

definition media_ok :: "MediaAssembler \<Rightarrow> bool" where
  "media_ok m \<longleftrightarrow>
     length (med_slots m) = MediaAssemblySlots \<and> (\<forall>slot \<in> set (med_slots m). slot_ok slot) \<and>
     (\<forall>i < length (med_slots m). \<forall>j < length (med_slots m).
        ms_used (med_slots m ! i) \<and> ms_used (med_slots m ! j) \<and> ms_id (med_slots m ! i) = ms_id (med_slots m ! j)
        \<longrightarrow> i = j)"

lemma emptyMediaSlot_unused [simp]: "\<not> ms_used emptyMediaSlot"
  by (simp add: emptyMediaSlot_def)

lemma slot_ok_empty [simp]: "slot_ok emptyMediaSlot"
  by (simp add: slot_ok_def emptyMediaSlot_def)

lemma media_ok_empty: "media_ok emptyMediaAssembler"
  by (simp add: media_ok_def emptyMediaAssembler_def emptyMediaSlot_def slot_ok_def)

lemma slot_ok_nth: "media_ok m \<Longrightarrow> i < length (med_slots m) \<Longrightarrow> slot_ok (med_slots m ! i)"
  by (simp add: media_ok_def)

text \<open>What the scan finds.\<close>

lemma scanSlots_Inl:
  "scanSlots slots i mid free oldest = Inl j \<Longrightarrow>
   i \<le> j \<and> j < i + length slots \<and> ms_used (slots ! (j - i)) \<and> ms_id (slots ! (j - i)) = mid"
  by (induction slots i mid free oldest rule: scanSlots.induct)
    (auto simp: nth_Cons' Suc_le_eq split: if_splits)

lemma scanSlots_Inr:
  "scanSlots slots i mid free oldest = Inr (f, old) \<Longrightarrow>
   (\<forall>slot \<in> set slots. \<not> (ms_used slot \<and> ms_id slot = mid)) \<and>
   (f = free \<or> (\<exists>j. f = Some j \<and> i \<le> j \<and> j < i + length slots \<and> \<not> ms_used (slots ! (j - i)))) \<and>
   (old = oldest \<or> (\<exists>j. old = Some (j, ms_id (slots ! (j - i))) \<and> i \<le> j \<and> j < i + length slots))"
proof (induction slots i mid free oldest rule: scanSlots.induct)
  case (2 slot slots i mid free oldest)
  from 2(4) have no: "\<not> (ms_used slot \<and> ms_id slot = mid)"
    by (auto split: if_splits)
  have shift: "(slot # slots) ! (j - i) = slots ! (j - Suc i)" if "Suc i \<le> j" for j
    using that by (simp add: nth_Cons')
  consider "\<not> ms_used slot" "scanSlots slots (Suc i) mid (Some i) oldest = Inr (f, old)"
    | "ms_used slot" "oldest = None \<or> ms_id slot < snd (the oldest)"
      "scanSlots slots (Suc i) mid free (Some (i, ms_id slot)) = Inr (f, old)"
    | "ms_used slot" "\<not> (oldest = None \<or> ms_id slot < snd (the oldest))"
      "scanSlots slots (Suc i) mid free oldest = Inr (f, old)"
    using 2(4) no by (auto split: if_splits)
  then show ?case
    by cases (use 2(1) [OF no] 2(2) [OF no] 2(3) [OF no] no shift in \<open>auto simp: less_Suc_eq_le\<close>)
qed simp


definition freshSlot :: "u64 \<Rightarrow> u16 \<Rightarrow> MediaSlot" where
  "freshSlot mid count =
     emptyMediaSlot\<lparr>ms_used := True, ms_id := mid, ms_count := count,
       ms_body := replicate (unat count * MaxFragmentBody) 0\<rparr>"

text \<open>\<open>slotFor\<close> gives no slot and changes nothing, finds the slot of the message, or sets one up.\<close>

lemma slotFor_cases:
  assumes ok: "media_ok m" and s: "slotFor mid count m = (r, m')"
  obtains (none) "r = None" "m' = m"
  | (found) i where "r = Some i" "m' = m" "i < length (med_slots m)" "ms_used (med_slots m ! i)"
      "ms_id (med_slots m ! i) = mid"
  | (claimed) i where "r = Some i" "i < length (med_slots m)"
      "med_slots m' = (med_slots m)[i := freshSlot mid count]"
      "\<forall>slot \<in> set (med_slots m). \<not> (ms_used slot \<and> ms_id slot = mid)"
proof (cases "scanSlots (med_slots m) 0 mid None None")
  case (Inl i)
  then show ?thesis
    using s found scanSlots_Inl [OF Inl] by (auto simp: slotFor_def)
next
  case (Inr fo)
  obtain f old where fo: "fo = (f, old)"
    by (cases fo)
  note scan = scanSlots_Inr [OF Inr [unfolded fo]]
  show ?thesis
  proof (cases f)
    case (Some i)
    then have i: "i < length (med_slots m)" "\<not> ms_used (med_slots m ! i)"
      using scan by auto
    then have "med_slots m ! i = emptyMediaSlot"
      using slot_ok_nth [OF ok i(1)] by (simp add: slot_ok_def)
    then show ?thesis
      using s Inr fo Some i scan claimed [of i]
      by (auto simp: slotFor_def freshSlot_def resize_def emptyMediaSlot_def)
  next
    case None
    show ?thesis
    proof (cases "old = None \<or> mid < snd (the old)")
      case True
      then show ?thesis
        using s Inr fo None none by (auto simp: slotFor_def split: option.splits)
    next
      case False
      then obtain i o_id where old: "old = Some (i, o_id)" "\<not> mid < o_id"
        by auto
      then have "i < length (med_slots m)"
        using scan by auto
      then show ?thesis
        using s Inr fo None old scan claimed [of i]
        by (auto simp: slotFor_def freshSlot_def resize_def emptyMediaSlot_def)
    qed
  qed
qed

lemma media_ok_update:
  assumes "media_ok m" and "slot_ok slot" and "med_slots m' = (med_slots m)[i := slot]" and "i < length (med_slots m)"
    and "ms_used slot \<Longrightarrow> \<forall>j < length (med_slots m). j \<noteq> i \<longrightarrow>
      \<not> (ms_used (med_slots m ! j) \<and> ms_id (med_slots m ! j) = ms_id slot)"
  shows "media_ok m'"
  using assms set_update_subset_insert [of "med_slots m" i slot]
  unfolding media_ok_def by (auto simp: nth_list_update)

lemma slot_ok_fresh: "2 \<le> unat count \<Longrightarrow> unat count \<le> 64 \<Longrightarrow> slot_ok (freshSlot mid count)"
  by (auto simp: slot_ok_def freshSlot_def emptyMediaSlot_def present_def word_less_nat_alt)

lemma slotFor_ok:
  assumes ok: "media_ok m" and s: "slotFor mid count m = (r, m')" and count: "2 \<le> unat count" "unat count \<le> 64"
  shows "media_ok m'"
  using ok s
proof (cases rule: slotFor_cases)
  case (claimed i)
  then show ?thesis
    using media_ok_update [OF ok slot_ok_fresh [OF count] claimed(3,2)]
    by (simp add: freshSlot_def all_set_conv_all_nth)
qed (use ok in simp_all)

lemma present_bit: "k < 64 \<Longrightarrow> ms_present slot AND push_bit k 1 \<noteq> 0 \<longleftrightarrow> k \<in> present slot"
  by (simp add: present_def push_bit_eq_mult and_exp_eq_0_iff_not_bit)

lemma present_insert:
  assumes "k < 64"
  shows "{j. bit (w OR 2 ^ k :: u64) j} = insert k {j. bit w j}"
  using assms by (auto simp: bit_simps)

text \<open>A fragment the checks let through stays within the body of its slot.\<close>

lemma addFragment_fits:
  assumes ok: "slot_ok slot" "ms_used slot" and k: "unat (fragIndex h) < unat (ms_count slot)"
    and body: "length body \<le> MaxFragmentBody"
  obtains slot' where "addFragment h body slot = Some slot'"
    "ms_used slot'" "ms_id slot' = ms_id slot" "ms_count slot' = ms_count slot"
    "ms_received slot' = ms_received slot + 1"
    "present slot' = insert (unat (fragIndex h)) (present slot)"
    "store (ms_body slot) (unat (fragIndex h) * MaxFragmentBody) body = Some (ms_body slot')"
    "ms_tag slot' = (if fragIndex h = 0 then tag h else ms_tag slot)"
    "ms_totalLength slot' = (if fragIndex h = 0 then totalLength h else ms_totalLength slot)"
    "ms_lastLength slot' = (if isLastFragment (flags h) then of_nat (length body) else ms_lastLength slot)"
proof -
  have count: "unat (ms_count slot) \<le> 64" "length (ms_body slot) = unat (ms_count slot) * MaxFragmentBody"
    using ok by (simp_all add: slot_ok_def)
  have "Suc (unat (fragIndex h)) * MaxFragmentBody \<le> unat (ms_count slot) * MaxFragmentBody"
    using k by (intro mult_le_mono1) simp
  then have "unat (fragIndex h) * MaxFragmentBody + length body \<le> length (ms_body slot)"
    using body count by simp
  then obtain copied where copied: "store (ms_body slot) (unat (fragIndex h) * MaxFragmentBody) body = Some copied"
    using store_defined by blast
  let ?k = "unat (fragIndex h)"
  let ?a = "slot\<lparr>ms_body := copied, ms_present := ms_present slot OR push_bit ?k 1, ms_received := ms_received slot + 1\<rparr>"
  let ?b = "if fragIndex h = 0 then ?a\<lparr>ms_tag := tag h, ms_totalLength := totalLength h\<rparr> else ?a"
  let ?c = "if isLastFragment (flags h) then ?b\<lparr>ms_lastLength := of_nat (length body)\<rparr> else ?b"
  have add: "addFragment h body slot = Some ?c"
    by (simp add: addFragment_def copied Let_def)
  have "ms_present ?c = ms_present slot OR 2 ^ ?k"
    by simp
  then have pres: "present ?c = insert ?k (present slot)"
    unfolding present_def using present_insert [of ?k "ms_present slot"] k count(1) by simp
  show ?thesis
    by (rule that [OF add _ _ _ _ pres]) (use ok(2) copied in auto)
qed

lemma addFragment_ok:
  assumes ok: "slot_ok slot" "ms_used slot" and k: "unat (fragIndex h) < unat (ms_count slot)"
    and "length body \<le> MaxFragmentBody" and new: "unat (fragIndex h) \<notin> present slot"
    and slot': "addFragment h body slot = Some slot'" and more: "ms_received slot' < ms_count slot'"
  shows "slot_ok slot'"
proof -
  obtain s where s: "addFragment h body slot = Some s" "ms_used s" "ms_count s = ms_count slot"
    "ms_received s = ms_received slot + 1" "present s = insert (unat (fragIndex h)) (present slot)"
    "store (ms_body slot) (unat (fragIndex h) * MaxFragmentBody) body = Some (ms_body s)"
    using addFragment_fits [OF assms(1-4)] by metis
  then have "s = slot'"
    using slot' by simp
  have "unat (ms_received slot + 1) = Suc (card (present slot))"
    using ok word_less_no_wrap [of "ms_received slot" "ms_count slot"] by (simp add: slot_ok_def)
  moreover have "finite (present slot)"
    using ok by (auto simp: slot_ok_def intro: finite_subset)
  ultimately show ?thesis
    using ok k new more s store_length [OF s(6)] unfolding \<open>s = slot'\<close> by (simp add: slot_ok_def)
qed


text \<open>Memory safety: with a header the decoder lets through \<open>accept\<close> never leaves the body of a slot.\<close>

definition fragment_size_ok :: "PacketHeader \<Rightarrow> bytes \<Rightarrow> bool" where
  "fragment_size_ok h body \<longleftrightarrow>
     (if isLastFragment (flags h) then body \<noteq> [] \<and> length body \<le> MaxFragmentBody else length body = MaxFragmentBody)"

lemma media_accept_slot:
  assumes "isFragmented (flags h)" and "unat (fragCount h) \<le> 64" and "\<not> seq h \<le> ucast (fragIndex h)"
    and "fragment_size_ok h body" and "slotFor (seq h - ucast (fragIndex h)) (fragCount h) m = (Some i, m')"
    and "unat (fragIndex h) < 64"
  shows "media_accept h body m =
    (if ms_count (med_slots m' ! i) \<noteq> fragCount h \<or> unat (fragIndex h) \<in> present (med_slots m' ! i)
     then Some (None, m')
     else do { slot \<leftarrow> addFragment h body (med_slots m' ! i);
               if ms_received slot < ms_count slot then Some (None, m'\<lparr>med_slots := (med_slots m')[i := slot]\<rparr>)
               else Some (finishSlot slot, m'\<lparr>med_slots := (med_slots m')[i := emptyMediaSlot]\<rparr>) })"
  using assms
  by (cases "isLastFragment (flags h)") (simp_all add: media_accept_def fragment_size_ok_def present_bit del: push_bit_of_1)

lemma media_accept_ignored:
  assumes "isFragmented (flags h)"
    and "64 < unat (fragCount h) \<or> seq h \<le> ucast (fragIndex h) \<or> \<not> fragment_size_ok h body"
  shows "media_accept h body m = Some (None, m)"
  using assms by (auto simp: media_accept_def fragment_size_ok_def)

lemma slotFor_slot:
  assumes "media_ok m" and "slotFor mid count m = (Some i, m')"
  shows "i < length (med_slots m')" and "ms_used (med_slots m' ! i)" and "ms_id (med_slots m' ! i) = mid"
  using assms by (cases rule: slotFor_cases; simp add: freshSlot_def)+

lemma media_accept_safe:
  assumes ok: "media_ok m" and h: "header_ok h"
  shows "\<exists>r m'. media_accept h body m = Some (r, m') \<and> media_ok m'"
proof (cases "isFragmented (flags h) \<and> unat (fragCount h) \<le> 64 \<and> \<not> seq h \<le> ucast (fragIndex h) \<and> fragment_size_ok h body")
  case False
  then show ?thesis
    using ok media_accept_ignored [of h body m] by (cases "isFragmented (flags h)") (auto simp: media_accept_def)
next
  case True
  let ?mid = "seq h - ucast (fragIndex h)"
  have frag: "2 \<le> unat (fragCount h)" "unat (fragIndex h) < unat (fragCount h)"
    using h True by (simp_all add: header_ok_def word_less_nat_alt)
  obtain r m' where s: "slotFor ?mid (fragCount h) m = (r, m')"
    by (cases "slotFor ?mid (fragCount h) m")
  have ok': "media_ok m'"
    using slotFor_ok [OF ok s] frag True by simp
  show ?thesis
  proof (cases r)
    case None
    then show ?thesis
      using ok' s True by (auto simp: media_accept_def fragment_size_ok_def)
  next
    case (Some i)
    note slot = slotFor_slot [OF ok s [unfolded Some]]
    show ?thesis
    proof (cases "ms_count (med_slots m' ! i) \<noteq> fragCount h \<or> unat (fragIndex h) \<in> present (med_slots m' ! i)")
      case True
      then show ?thesis
        using media_accept_slot [of h body m i m'] s Some ok' frag \<open>isFragmented (flags h) \<and> _\<close> by simp
    next
      case False
      note sok = slot_ok_nth [OF ok' slot(1)]
      have len: "length body \<le> MaxFragmentBody"
        using True by (auto simp: fragment_size_ok_def split: if_splits)
      obtain slot' where slot': "addFragment h body (med_slots m' ! i) = Some slot'" "ms_id slot' = ?mid"
        using addFragment_fits [OF sok slot(2) _ len, of h] frag False slot(3) by metis
      have unique: "\<forall>j < length (med_slots m'). j \<noteq> i \<longrightarrow> \<not> (ms_used (med_slots m' ! j) \<and> ms_id (med_slots m' ! j) = ?mid)"
        using ok' slot by (auto simp: media_ok_def)
      have "media_ok (m'\<lparr>med_slots := (med_slots m')[i := slot']\<rparr>)" if "ms_received slot' < ms_count slot'"
        using addFragment_ok [OF sok slot(2) _ len _ slot'(1) that] frag False unique [folded slot'(2)] slot(1)
        by (intro media_ok_update [OF ok']) simp_all
      moreover have "media_ok (m'\<lparr>med_slots := (med_slots m')[i := emptyMediaSlot]\<rparr>)"
        using slot(1) by (intro media_ok_update [OF ok' slot_ok_empty]) simp_all
      ultimately show ?thesis
        using media_accept_slot [of h body m i m'] True s Some frag False slot' by auto
    qed
  qed
qed


section \<open>Round trip\<close>

text \<open>What a slot holds of the message with that tag and body, whichever fragments have arrived.\<close>

definition slot_holds :: "MediaSlot \<Rightarrow> u32 \<Rightarrow> bytes \<Rightarrow> bool" where
  "slot_holds slot t body \<longleftrightarrow>
     (let n = fragmentsOf (length body) in
      unat (ms_count slot) = n \<and> length (ms_body slot) = n * MaxFragmentBody \<and>
      (0 \<in> present slot \<longrightarrow> ms_tag slot = t \<and> unat (ms_totalLength slot) = length body) \<and>
      (n - 1 \<in> present slot \<longrightarrow> unat (ms_lastLength slot) = length (fragment_body body (n - 1))) \<and>
      (\<forall>k \<in> present slot. k < n \<and>
         take (length (fragment_body body k)) (drop (k * MaxFragmentBody) (ms_body slot)) = fragment_body body k))"

lemma slot_holds_fresh: "unat count = fragmentsOf (length body) \<Longrightarrow> slot_holds (freshSlot mid count) t body"
  by (simp add: slot_holds_def freshSlot_def emptyMediaSlot_def present_def)

lemma store_inside: "store xs off bs = Some ys \<Longrightarrow> take (length bs) (drop off ys) = bs"
  by (auto simp: store_def split: if_splits)

lemma store_before:
  "store xs off bs = Some ys \<Longrightarrow> a + m \<le> off \<Longrightarrow> take m (drop a ys) = take m (drop a xs)"
  by (auto simp: store_def take_drop split: if_splits)

lemma store_after:
  "store xs off bs = Some ys \<Longrightarrow> off + length bs \<le> a \<Longrightarrow> drop a ys = drop a xs"
  by (auto simp: store_def split: if_splits)

lemma fragment_body_le: "length (fragment_body body k) \<le> MaxFragmentBody"
  by (simp add: fragment_body_def)

lemma store_other_fragment:
  assumes "store xs (k * MaxFragmentBody) (fragment_body body k) = Some ys" and "j \<noteq> k"
  shows "take (length (fragment_body body j)) (drop (j * MaxFragmentBody) ys) =
    take (length (fragment_body body j)) (drop (j * MaxFragmentBody) xs)"
proof (cases "j < k")
  case True
  then have "Suc j * MaxFragmentBody \<le> k * MaxFragmentBody"
    by (intro mult_le_mono1) simp
  then show ?thesis
    using fragment_body_le [of body j] by (intro store_before [OF assms(1)]) simp
next
  case False
  then have "Suc k * MaxFragmentBody \<le> j * MaxFragmentBody"
    using assms(2) by (intro mult_le_mono1) simp
  then have "drop (j * MaxFragmentBody) ys = drop (j * MaxFragmentBody) xs"
    using fragment_body_le [of body k] by (intro store_after [OF assms(1)]) simp
  then show ?thesis
    by simp
qed

lemma slot_holds_add:
  assumes holds: "slot_holds slot t body" and ok: "slot_ok slot" "ms_used slot"
    and len: "length body \<le> MaxMessagePayload" and n: "fragmentsOf (length body) \<noteq> 1"
    and k: "k < fragmentsOf (length body)" and h: "carries h t body k"
    and slot': "addFragment h (fragment_body body k) slot = Some slot'"
  shows "slot_holds slot' t body"
proof -
  note f = carries_fields [OF h n len]
  have count: "unat (ms_count slot) = fragmentsOf (length body)"
    using holds by (simp add: slot_holds_def Let_def)
  have k0: "fragIndex h = 0 \<longleftrightarrow> k = 0"
    using f(3) unat_eq_0_word [of "fragIndex h"] by simp
  obtain s where s: "addFragment h (fragment_body body k) slot = Some s" "ms_count s = ms_count slot"
    "present s = insert k (present slot)"
    "store (ms_body slot) (k * MaxFragmentBody) (fragment_body body k) = Some (ms_body s)"
    "ms_tag s = (if k = 0 then tag h else ms_tag slot)"
    "ms_totalLength s = (if k = 0 then totalLength h else ms_totalLength slot)"
    "ms_lastLength s = (if k + 1 = fragmentsOf (length body) then of_nat (length (fragment_body body k)) else ms_lastLength slot)"
    by (rule addFragment_fits [OF ok _ fragment_body_le, of h body k, unfolded f(3,4) k0]) (use count k in simp_all)
  have "s = slot'"
    using s(1) slot' by simp
  have last: "unat (of_nat (length (fragment_body body k)) :: u32) = length (fragment_body body k)"
    using fragment_body_le [of body k] by (simp add: unat_of_nat constants)
  have "take (length (fragment_body body j)) (drop (j * MaxFragmentBody) (ms_body s)) = fragment_body body j"
    if "j \<in> present s" for j
    using that holds s(3) store_inside [OF s(4)] store_other_fragment [OF s(4), of j]
    by (cases "j = k") (auto simp: slot_holds_def Let_def)
  moreover have "Suc k = fragmentsOf (length body) \<Longrightarrow> fragmentsOf (length body) - Suc 0 = k"
    by (metis diff_Suc_1' One_nat_def)
  ultimately show ?thesis
    using holds k s(2,3,5-7) f(5,6) last store_length [OF s(4)] n
    unfolding \<open>s = slot'\<close> slot_holds_def Let_def by auto
qed

text \<open>A slot that has every fragment has the message.\<close>

lemma fragments_whole:
  assumes "\<forall>k < n. take (length (fragment_body body k)) (drop (k * MaxFragmentBody) bs) = fragment_body body k"
    and "length bs \<ge> length body"
  shows "take (min (n * MaxFragmentBody) (length body)) bs = take (n * MaxFragmentBody) body"
  using assms(1)
proof (induction n)
  case (Suc n)
  let ?off = "min (n * MaxFragmentBody) (length body)"
  have IH: "take ?off bs = take (n * MaxFragmentBody) body"
    using Suc by simp
  show ?case
  proof (cases "n * MaxFragmentBody \<le> length body")
    case True
    have "min (Suc n * MaxFragmentBody) (length body) = n * MaxFragmentBody + length (fragment_body body n)"
      using True by (auto simp: fragment_body_def min_def)
    then have "take (min (Suc n * MaxFragmentBody) (length body)) bs =
        take (n * MaxFragmentBody) bs @ fragment_body body n"
      using Suc.prems by (simp add: take_add)
    then show ?thesis
      using IH True fragment_body_append [of n body] by (simp add: min_def)
  next
    case False
    then show ?thesis
      using IH by (simp add: min_def)
  qed
qed simp

lemma finishSlot_whole:
  assumes holds: "slot_holds slot t body" and all: "present slot = {..<fragmentsOf (length body)}"
  shows "finishSlot slot = Some \<lparr>am_tag = t, am_body = body\<rparr>"
proof -
  let ?n = "fragmentsOf (length body)"
  have pos: "0 < ?n"
    by (rule fragmentsOf_pos)
  have f: "unat (ms_count slot) = ?n" "length (ms_body slot) = ?n * MaxFragmentBody" "ms_tag slot = t"
    "unat (ms_totalLength slot) = length body" "unat (ms_lastLength slot) = length (fragment_body body (?n - 1))"
    and frag: "\<forall>k < ?n. take (length (fragment_body body k)) (drop (k * MaxFragmentBody) (ms_body slot)) = fragment_body body k"
    using holds pos by (simp_all add: slot_holds_def Let_def all)
  have "length (fragment_body body (?n - 1)) = length body - (?n - 1) * MaxFragmentBody"
    using length_fragment_body [of "?n - 1" body] pos by simp
  then have len: "(?n - 1) * MaxFragmentBody + length (fragment_body body (?n - 1)) = length body"
    using fragment_offset [of "?n - 1" body] pos by simp
  have le: "length body \<le> ?n * MaxFragmentBody"
    using fragmentsOf_bounds [of "length body"] by (cases "length body = 0") auto
  then have "take (length body) (ms_body slot) = body"
    using fragments_whole [OF frag] f(2) whole_message [of body] by (simp add: min_absorb2)
  then show ?thesis
    using f len le by (simp add: finishSlot_def Let_def resize_def)
qed


text \<open>
  One packet that carries a fragment of a message, when every slot holds fragments of the message its
  id stands for: \<open>msgs\<close> gives the tag and the body of the message that starts with a seq.
\<close>

definition slots_hold :: "(u64 \<rightharpoonup> u32 \<times> bytes) \<Rightarrow> MediaAssembler \<Rightarrow> bool" where
  "slots_hold msgs m \<longleftrightarrow> (\<forall>slot \<in> set (med_slots m). ms_used slot \<longrightarrow>
     (\<exists>t body. msgs (ms_id slot) = Some (t, body) \<and> slot_holds slot t body))"

definition carries_media :: "(u64 \<rightharpoonup> u32 \<times> bytes) \<Rightarrow> PacketHeader \<Rightarrow> bytes \<Rightarrow> bool" where
  "carries_media msgs h frag \<longleftrightarrow>
     (\<exists>t body k. msgs (seq h - of_nat k) = Some (t, body) \<and> length body \<le> MaxMediaPayload \<and>
        k < fragmentsOf (length body) \<and> k < unat (seq h) \<and> carries h t body k \<and> frag = fragment_body body k)"

lemma slots_hold_update:
  assumes "slots_hold msgs m" and "ms_used slot \<Longrightarrow> \<exists>t body. msgs (ms_id slot) = Some (t, body) \<and> slot_holds slot t body"
    and "med_slots m' = (med_slots m)[i := slot]"
  shows "slots_hold msgs m'"
  using assms set_update_subset_insert [of "med_slots m" i slot] by (auto simp: slots_hold_def)

lemma present_all:
  assumes "slot_ok slot" "ms_used slot" "\<not> ms_received slot + 1 < ms_count slot" "k \<notin> present slot" "k < unat (ms_count slot)"
  shows "insert k (present slot) = {..<unat (ms_count slot)}"
proof -
  have sub: "insert k (present slot) \<subseteq> {..<unat (ms_count slot)}" and rec: "unat (ms_received slot) = card (present slot)"
    and lt: "ms_received slot < ms_count slot"
    using assms by (auto simp: slot_ok_def)
  have fin: "finite (present slot)"
    using sub by (auto intro: finite_subset)
  have "unat (ms_count slot) \<le> Suc (card (present slot))"
    using assms(3) word_less_no_wrap [OF lt] rec by (simp add: word_less_nat_alt not_less)
  moreover have "card (insert k (present slot)) \<le> unat (ms_count slot)"
    using card_mono [OF _ sub] by simp
  ultimately show ?thesis
    using sub fin assms(4) by (intro card_subset_eq) auto
qed

text \<open>A fragment that is not there yet: it is added, and the last one completes the message.\<close>

lemma fragment_step:
  assumes holds: "slot_holds slot t body" and ok: "slot_ok slot" "ms_used slot"
    and len: "length body \<le> MaxMessagePayload" and n: "fragmentsOf (length body) \<noteq> 1"
    and k: "k < fragmentsOf (length body)" and h: "carries h t body k" and new: "k \<notin> present slot"
  obtains slot' where "addFragment h (fragment_body body k) slot = Some slot'" "ms_used slot'"
    "ms_id slot' = ms_id slot" "slot_holds slot' t body" "present slot' = insert k (present slot)"
    "ms_received slot' < ms_count slot' \<longleftrightarrow> present slot' \<noteq> {..<fragmentsOf (length body)}"
    "\<not> ms_received slot' < ms_count slot' \<Longrightarrow> finishSlot slot' = Some \<lparr>am_tag = t, am_body = body\<rparr>"
proof -
  have count: "unat (ms_count slot) = fragmentsOf (length body)"
    using holds by (simp add: slot_holds_def Let_def)
  obtain slot' where s: "addFragment h (fragment_body body k) slot = Some slot'" "ms_used slot'"
    "ms_id slot' = ms_id slot" "ms_count slot' = ms_count slot" "ms_received slot' = ms_received slot + 1"
    "present slot' = insert k (present slot)"
    by (rule addFragment_fits [OF ok _ fragment_body_le, of h body k, unfolded carries_fields(3) [OF h n len]])
      (use count k in simp_all)
  have holds': "slot_holds slot' t body"
    by (rule slot_holds_add [OF holds ok len n k h s(1)])
  have rec: "unat (ms_received slot') = card (present slot')"
    using ok s(5,6) new word_less_no_wrap [of "ms_received slot" "ms_count slot"]
    by (auto simp: slot_ok_def card_insert_if dest: finite_subset)
  have "present slot' = {..<fragmentsOf (length body)}" if "\<not> ms_received slot' < ms_count slot'"
    using present_all [OF ok _ new] that k s(4-6) count by simp
  moreover have "ms_received slot' < ms_count slot'" if "present slot' \<noteq> {..<fragmentsOf (length body)}"
    using that calculation by blast
  moreover have "\<not> ms_received slot' < ms_count slot'" if "present slot' = {..<fragmentsOf (length body)}"
    using rec that s(4) count by (simp add: word_less_nat_alt)
  ultimately show ?thesis
    using that [OF s(1-3) holds' s(6)] finishSlot_whole [OF holds'] by blast
qed

lemma carried_size_ok:
  assumes "carries h t body k" and "fragmentsOf (length body) \<noteq> 1" and "length body \<le> MaxMessagePayload"
    and "k < fragmentsOf (length body)"
  shows "fragment_size_ok h (fragment_body body k)"
proof (cases "k + 1 = fragmentsOf (length body)")
  case True
  have "body \<noteq> []"
    using assms(2) by (auto simp: fragmentsOf_def)
  then have "(fragmentsOf (length body) - 1) * MaxFragmentBody < length body"
    using fragmentsOf_bounds [of "length body"] by simp
  moreover have "fragmentsOf (length body) - 1 = k"
    using True by simp
  ultimately have "0 < length (fragment_body body k)"
    using length_fragment_body [OF assms(4)] True by simp
  then show ?thesis
    using carries_fields(4) [OF assms(1-3)] True fragment_body_le [of body k] by (simp add: fragment_size_ok_def)
next
  case False
  then show ?thesis
    using carries_fields(4) [OF assms(1-3)] length_fragment_body [OF assms(4)] by (simp add: fragment_size_ok_def)
qed

lemma media_accept_holds:
  assumes ok: "media_ok m" and hold: "slots_hold msgs m" and h: "header_ok h"
    and carried: "carries_media msgs h frag" and acc: "media_accept h frag m = Some (r, m')"
  shows "slots_hold msgs m' \<and> (\<forall>msg. r = Some msg \<longrightarrow> (am_tag msg, am_body msg) \<in> ran msgs)"
proof -
  obtain t body k where msg: "msgs (seq h - of_nat k) = Some (t, body)" "length body \<le> MaxMediaPayload"
    and k: "k < fragmentsOf (length body)" "k < unat (seq h)" and c: "carries h t body k" and frag: "frag = fragment_body body k"
    using carried by (auto simp: carries_media_def)
  have len: "length body \<le> MaxMessagePayload"
    using msg(2) by (simp add: constants)
  show ?thesis
  proof (cases "fragmentsOf (length body) = 1")
    case True
    then have "k = 0" "frag = body" "\<not> isFragmented (flags h)" "tag h = t"
      using k c frag whole_message [of body] by (simp_all add: fragment_body_def carries_def)
    then show ?thesis
      using acc hold msg by (auto simp: media_accept_def ran_def)
  next
    case n: False
    note f = carries_fields [OF c n len]
    let ?mid = "seq h - ucast (fragIndex h)"
    have fi: "(ucast (fragIndex h) :: u64) = of_nat k"
      using f(3) by (metis of_nat_unat ucast_id unat_ucast_up(5) word_eq_of_nat)
    show ?thesis
    proof (cases "slotFor ?mid (fragCount h) m")
      case (Pair ro m1)
      have hold1: "slots_hold msgs m1"
        using ok Pair
      proof (cases rule: slotFor_cases)
        case (claimed i)
        have "slot_holds (freshSlot ?mid (fragCount h)) t body"
          by (rule slot_holds_fresh [OF f(2)])
        then show ?thesis
          using slots_hold_update [OF hold _ claimed(3)] msg(1) fi by (simp add: freshSlot_def)
      qed (use hold in simp_all)
      have cnt: "2 \<le> unat (fragCount h)" "unat (fragCount h) \<le> 64"
        using h f(1,2) fragmentsOf_media [OF msg(2)] by (simp_all add: header_ok_def)
      have ok1: "media_ok m1"
        by (rule slotFor_ok [OF ok Pair cnt])
      have k64: "k < 64"
        using k(1) fragmentsOf_media [OF msg(2)] by simp
      have sq: "\<not> seq h \<le> ucast (fragIndex h)"
        using k(2) k64 fi by (simp add: word_le_nat_alt unat_of_nat)
      have size: "fragment_size_ok h frag"
        unfolding frag by (rule carried_size_ok [OF c n len k(1)])
      show ?thesis
      proof (cases ro)
        case None
        then have "media_accept h frag m = Some (None, m1)"
          using f(1) cnt(2) sq size Pair by (auto simp: media_accept_def fragment_size_ok_def)
        then show ?thesis
          using acc hold1 by simp
      next
        case (Some i)
        note slot = slotFor_slot [OF ok Pair [unfolded Some]]
        let ?slot = "med_slots m1 ! i"
        have holds: "slot_holds ?slot t body"
          using hold1 slot msg(1) fi by (force simp: slots_hold_def)
        then have count: "unat (ms_count ?slot) = fragmentsOf (length body)"
          by (simp add: slot_holds_def Let_def)
        note sok = slot_ok_nth [OF ok1 slot(1)]
        note step = media_accept_slot [OF f(1) cnt(2) sq size Pair [unfolded Some], unfolded f(3), OF k64]
        show ?thesis
        proof (cases "ms_count ?slot \<noteq> fragCount h \<or> k \<in> present ?slot")
          case True
          then show ?thesis
            using step acc hold1 by simp
        next
          case False
          then have new: "k \<notin> present ?slot"
            by simp
          obtain slot' where s: "addFragment h frag ?slot = Some slot'" "ms_id slot' = ?mid" "slot_holds slot' t body"
            "\<not> ms_received slot' < ms_count slot' \<Longrightarrow> finishSlot slot' = Some \<lparr>am_tag = t, am_body = body\<rparr>"
            using fragment_step [OF holds sok slot(2) len n k(1) c new] unfolding frag slot(3) by metis
          have "slots_hold msgs (m1\<lparr>med_slots := (med_slots m1)[i := slot']\<rparr>)"
            using msg(1) fi s(2,3) by (intro slots_hold_update [OF hold1]) simp_all
          moreover have "slots_hold msgs (m1\<lparr>med_slots := (med_slots m1)[i := emptyMediaSlot]\<rparr>)"
            by (rule slots_hold_update [OF hold1]) simp_all
          ultimately show ?thesis
            using step acc False s msg(1) by (auto simp: ran_def split: if_splits)
        qed
      qed
    qed
  qed
qed


text \<open>The fragments of one message, fed one after another in whatever order.\<close>

fun media_feed :: "(PacketHeader \<times> bytes) list \<Rightarrow> MediaAssembler \<Rightarrow> (AssembledMessage list \<times> MediaAssembler) option" where
  "media_feed [] m = Some ([], m)"
| "media_feed ((h, body) # packets) m =
     do { (r, m) \<leftarrow> media_accept h body m;
          (rs, m) \<leftarrow> media_feed packets m;
          Some (case r of None \<Rightarrow> rs | Some msg \<Rightarrow> msg # rs, m) }"

lemma scanSlots_free:
  "scanSlots slots i mid free oldest = Inr (f, old) \<Longrightarrow> free \<noteq> None \<or> (\<exists>slot \<in> set slots. \<not> ms_used slot) \<Longrightarrow> f \<noteq> None"
  by (induction slots i mid free oldest rule: scanSlots.induct) (auto split: if_splits)

lemma slotFor_free: "\<exists>slot \<in> set (med_slots m). \<not> ms_used slot \<Longrightarrow> fst (slotFor mid count m) \<noteq> None"
  using scanSlots_free [of "med_slots m" 0 mid None None]
  by (auto simp: slotFor_def split: sum.splits option.splits prod.splits)

lemma slotFor_found:
  assumes "media_ok m" and "i < length (med_slots m)" "ms_used (med_slots m ! i)" "ms_id (med_slots m ! i) = mid"
  shows "slotFor mid count m = (Some i, m)"
proof (cases "scanSlots (med_slots m) 0 mid None None")
  case (Inl j)
  then have "j = i"
    using scanSlots_Inl [OF Inl] assms by (auto simp: media_ok_def)
  then show ?thesis
    using Inl by (simp add: slotFor_def)
next
  case (Inr fo)
  then show ?thesis
    using scanSlots_Inr [of "med_slots m" 0 mid None None "fst fo" "snd fo"] assms nth_mem by fastforce
qed

definition gathering :: "MediaAssembler \<Rightarrow> u64 \<Rightarrow> u32 \<Rightarrow> bytes \<Rightarrow> nat set \<Rightarrow> bool" where
  "gathering m mid t body F \<longleftrightarrow> media_ok m \<and>
     (if F = {} then \<forall>slot \<in> set (med_slots m). \<not> ms_used slot
      else \<exists>i < length (med_slots m). ms_used (med_slots m ! i) \<and> ms_id (med_slots m ! i) = mid \<and>
        slot_holds (med_slots m ! i) t body \<and> present (med_slots m ! i) = F \<and>
        (\<forall>j < length (med_slots m). j \<noteq> i \<longrightarrow> \<not> ms_used (med_slots m ! j)))"

text \<open>While a message is gathered, \<open>slotFor\<close> returns its slot, set up if there was none.\<close>

lemma gathering_slot:
  assumes g: "gathering m mid t body F" and count: "unat count = fragmentsOf (length body)" "2 \<le> unat count" "unat count \<le> 64"
  obtains i m' where "slotFor mid count m = (Some i, m')" "media_ok m'" "i < length (med_slots m')"
    "ms_used (med_slots m' ! i)" "ms_id (med_slots m' ! i) = mid" "slot_holds (med_slots m' ! i) t body"
    "present (med_slots m' ! i) = F" "\<forall>j < length (med_slots m'). j \<noteq> i \<longrightarrow> \<not> ms_used (med_slots m' ! j)"
proof (cases "F = {}")
  case True
  then have free: "\<forall>slot \<in> set (med_slots m). \<not> ms_used slot" and ok: "media_ok m"
    using g by (simp_all add: gathering_def)
  have "med_slots m ! 0 \<in> set (med_slots m)"
    using ok by (intro nth_mem) (simp add: media_ok_def constants)
  then have some: "fst (slotFor mid count m) \<noteq> None"
    using free by (intro slotFor_free) blast
  obtain r m' where s: "slotFor mid count m = (r, m')"
    by (cases "slotFor mid count m")
  from ok s show ?thesis
  proof (cases rule: slotFor_cases)
    case none
    then show ?thesis using some s by simp
  next
    case (found i)
    then show ?thesis using free nth_mem by blast
  next
    case (claimed i)
    have "present (freshSlot mid count) = {}"
      by (simp add: present_def freshSlot_def emptyMediaSlot_def)
    moreover have "ms_used (freshSlot mid count)" "ms_id (freshSlot mid count) = mid"
      by (simp_all add: freshSlot_def)
    ultimately show ?thesis
      using that [of i m'] s claimed(1-3) slotFor_ok [OF ok s count(2,3)] slot_holds_fresh [OF count(1)] free True
      by simp
  qed
next
  case False
  then obtain i where i: "i < length (med_slots m)" "ms_used (med_slots m ! i)" "ms_id (med_slots m ! i) = mid"
    "slot_holds (med_slots m ! i) t body" "present (med_slots m ! i) = F"
    "\<forall>j < length (med_slots m). j \<noteq> i \<longrightarrow> \<not> ms_used (med_slots m ! j)" and ok: "media_ok m"
    using g by (auto simp: gathering_def)
  show ?thesis
    by (rule that [OF slotFor_found [OF ok i(1-3)] ok i])
qed

lemma gathering_step:
  assumes g: "gathering m mid t body F" and len: "length body \<le> MaxMediaPayload" and n: "fragmentsOf (length body) \<noteq> 1"
    and k: "k < fragmentsOf (length body)" "k \<notin> F" and h: "carries h t body k"
    and sq: "mid = seq h - of_nat k" "k < unat (seq h)"
  shows "\<exists>m'. media_accept h (fragment_body body k) m =
      Some (if insert k F = {..<fragmentsOf (length body)} then Some \<lparr>am_tag = t, am_body = body\<rparr> else None, m') \<and>
    gathering m' mid t body (if insert k F = {..<fragmentsOf (length body)} then {} else insert k F)"
proof -
  have len': "length body \<le> MaxMessagePayload"
    using len by (simp add: constants)
  note f = carries_fields [OF h n len']
  have fi: "(ucast (fragIndex h) :: u64) = of_nat k"
    using f(3) by (metis of_nat_unat ucast_id unat_ucast_up(5) word_eq_of_nat)
  have cnt: "2 \<le> unat (fragCount h)" "unat (fragCount h) \<le> 64" and k64: "k < 64"
    using f(2) n k(1) fragmentsOf_media [OF len] by simp_all
  have late: "\<not> seq h \<le> ucast (fragIndex h)"
    using sq(2) k64 fi by (simp add: word_le_nat_alt unat_of_nat)
  obtain i m1 where s: "slotFor mid (fragCount h) m = (Some i, m1)" and ok: "media_ok m1"
    and i: "i < length (med_slots m1)" "ms_used (med_slots m1 ! i)" "ms_id (med_slots m1 ! i) = mid"
      "slot_holds (med_slots m1 ! i) t body" "present (med_slots m1 ! i) = F"
      "\<forall>j < length (med_slots m1). j \<noteq> i \<longrightarrow> \<not> ms_used (med_slots m1 ! j)"
    using gathering_slot [OF g f(2) cnt] .
  let ?slot = "med_slots m1 ! i"
  have "ms_count ?slot = fragCount h"
    using i(4) f(2) by (simp add: slot_holds_def Let_def word_unat_eq_iff)
  then have acc: "media_accept h (fragment_body body k) m =
      do { slot \<leftarrow> addFragment h (fragment_body body k) ?slot;
           if ms_received slot < ms_count slot then Some (None, m1\<lparr>med_slots := (med_slots m1)[i := slot]\<rparr>)
           else Some (finishSlot slot, m1\<lparr>med_slots := (med_slots m1)[i := emptyMediaSlot]\<rparr>) }"
    using media_accept_slot [OF f(1) cnt(2) late carried_size_ok [OF h n len' k(1)], of m i m1] s fi sq(1) f(3) k64 k(2) i(5)
    by simp
  obtain slot' where s': "addFragment h (fragment_body body k) ?slot = Some slot'" "ms_used slot'" "ms_id slot' = mid"
    "slot_holds slot' t body" "present slot' = insert k F"
    "ms_received slot' < ms_count slot' \<longleftrightarrow> present slot' \<noteq> {..<fragmentsOf (length body)}"
    "\<not> ms_received slot' < ms_count slot' \<Longrightarrow> finishSlot slot' = Some \<lparr>am_tag = t, am_body = body\<rparr>"
    using fragment_step [OF i(4) slot_ok_nth [OF ok i(1)] i(2) len' n k(1) h] k(2) i(3,5) by metis
  have "media_ok (m1\<lparr>med_slots := (med_slots m1)[i := emptyMediaSlot]\<rparr>)"
    using i(1) by (intro media_ok_update [OF ok slot_ok_empty]) simp_all
  moreover have "media_ok (m1\<lparr>med_slots := (med_slots m1)[i := slot']\<rparr>)" if "ms_received slot' < ms_count slot'"
    using addFragment_ok [OF slot_ok_nth [OF ok i(1)] i(2) _ fragment_body_le _ s'(1) that] f(3) i k s'(2,3)
    by (intro media_ok_update [OF ok]) (auto simp: slot_holds_def Let_def)
  ultimately show ?thesis
    using acc s' i by (auto simp: gathering_def in_set_conv_nth nth_list_update split: if_splits)
qed


lemma media_feed_gathering:
  assumes "gathering m mid t body F" and "length body \<le> MaxMediaPayload" and "fragmentsOf (length body) \<noteq> 1"
    and "distinct ks" "ks \<noteq> []" "set ks \<inter> F = {}" "set ks \<union> F = {..<fragmentsOf (length body)}"
    and "\<And>k. k < fragmentsOf (length body) \<Longrightarrow> carries (hdr k) t body k \<and> mid = seq (hdr k) - of_nat k \<and> k < unat (seq (hdr k))"
  shows "\<exists>m'. media_feed (map (\<lambda>k. (hdr k, fragment_body body k)) ks) m =
      Some ([\<lparr>am_tag = t, am_body = body\<rparr>], m') \<and> gathering m' mid t body {}"
  using assms(1,4-7)
proof (induction ks arbitrary: m F)
  case (Cons k ks)
  let ?n = "fragmentsOf (length body)"
  have k: "k < ?n" "k \<notin> F"
    using Cons.prems by auto
  let ?last = "insert k F = {..<?n}"
  obtain m1 where acc: "media_accept (hdr k) (fragment_body body k) m =
      Some (if ?last then Some \<lparr>am_tag = t, am_body = body\<rparr> else None, m1)"
    and g: "gathering m1 mid t body (if ?last then {} else insert k F)"
    using gathering_step [OF Cons.prems(1) assms(2,3) k] assms(8) [OF k(1)] by blast
  show ?case
  proof (cases ?last)
    case True
    have "set ks = {}"
    proof (rule equals0I)
      fix x assume "x \<in> set ks"
      then have "x \<in> insert k F" "x \<noteq> k" "x \<notin> F"
        using Cons.prems(2,4,5) unfolding True by auto
      then show False by simp
    qed
    then show ?thesis
      using True acc g by simp
  next
    case False
    have "ks \<noteq> []"
    proof
      assume "ks = []"
      then show False
        using False Cons.prems(5) by simp
    qed
    moreover have "set ks \<inter> insert k F = {}" "set ks \<union> insert k F = {..<?n}"
      using Cons.prems(2,4,5) by auto
    ultimately obtain m' where "media_feed (map (\<lambda>k. (hdr k, fragment_body body k)) ks) m1 =
        Some ([\<lparr>am_tag = t, am_body = body\<rparr>], m')" "gathering m' mid t body {}"
      using Cons.IH [of m1 "insert k F"] g Cons.prems(2) by (auto simp only: False if_False distinct.simps)
    then show ?thesis
      using False acc by simp
  qed
qed simp


section \<open>Properties\<close>

text \<open>Whatever packet the decoder let through, the assembler reads and writes within its slots and their bodies,
  and keeps its invariant: a body has a place for every fragment, and no two slots are for one message.\<close>

theorem media_accept_in_bounds:
  assumes "media_ok m" and "header_ok h"
  shows "\<exists>r m'. media_accept h body m = Some (r, m') \<and> media_ok m'"
  using assms by (rule media_accept_safe)

theorem media_accept_in_bounds_witness:
  "\<exists>r m'. media_accept (sample_header\<lparr>flags := setFragment (dataFlags Media) True False\<rparr>) (replicate 1168 7)
     emptyMediaAssembler = Some (r, m') \<and> media_ok m'"
  by (rule media_accept_in_bounds [OF media_ok_empty])
    (simp add: header_ok_def sample_header_def emptyHeader_def isValid_fragment maxMessageSize_def fragmentsOf_def constants)

text \<open>C18: The fragments of a Media message, each once and in whatever order, give exactly this message when the last one
  of them arrives.\<close>

theorem media_any_order:
  assumes "length body \<le> MaxMediaPayload" and "fragmentsOf (length body) \<noteq> 1"
    and "distinct ks" "set ks = {..<fragmentsOf (length body)}"
    and "\<And>k. k < fragmentsOf (length body) \<Longrightarrow> carries (hdr k) t body k \<and> mid = seq (hdr k) - of_nat k \<and> k < unat (seq (hdr k))"
  shows "\<exists>m'. media_feed (map (\<lambda>k. (hdr k, fragment_body body k)) ks) emptyMediaAssembler =
      Some ([\<lparr>am_tag = t, am_body = body\<rparr>], m')"
proof -
  have g: "gathering emptyMediaAssembler mid t body {}"
    using media_ok_empty by (simp add: gathering_def emptyMediaAssembler_def)
  have "0 \<in> set ks"
    unfolding assms(4) by (simp add: fragmentsOf_pos)
  then have "ks \<noteq> []"
    by auto
  moreover have "set ks \<inter> {} = {}" "set ks \<union> {} = {..<fragmentsOf (length body)}"
    using assms(4) by simp_all
  ultimately show ?thesis
    using media_feed_gathering [OF g assms(1-3) _ _ _ assms(5)] by blast
qed

theorem media_any_order_witness:
  "\<exists>m'. media_feed (map (\<lambda>k. (sample_fragment k, fragment_body (replicate 1200 7) k)) [1, 0]) emptyMediaAssembler =
      Some ([\<lparr>am_tag = 5, am_body = replicate 1200 7\<rparr>], m')"
proof (rule media_any_order [of _ _ _ _ 4])
  show "set [1, 0] = {..<fragmentsOf (length (replicate 1200 (7 :: u8)))}"
    by (auto simp: sample_count)
  show "carries (sample_fragment k) 5 (replicate 1200 7) k \<and> 4 = seq (sample_fragment k) - of_nat k \<and>
      k < unat (seq (sample_fragment k))" if "k < fragmentsOf (length (replicate 1200 (7 :: u8)))" for k
    using that sample_carries [of k] by (auto simp: sample_count sample_fragment_def less_2_cases_iff)
qed (simp_all add: sample_count constants)

text \<open>C19: When every slot holds fragments of the message its id stands for and a packet carries a fragment of one of
  them, so do the slots afterwards, and a message that is returned is one of them.\<close>

theorem media_genuine:
  assumes "media_ok m" and "slots_hold msgs m" and "header_ok h" and "carries_media msgs h frag"
    and "media_accept h frag m = Some (r, m')"
  shows "slots_hold msgs m' \<and> (\<forall>msg. r = Some msg \<longrightarrow> (am_tag msg, am_body msg) \<in> ran msgs)"
  using assms by (rule media_accept_holds)

theorem media_genuine_witness:
  "\<exists>r m'. media_accept (emptyHeader\<lparr>flags := dataFlags Media, srcStreamID := 9, seq := 4, tag := 5\<rparr>) [1, 2] emptyMediaAssembler =
     Some (r, m') \<and> (\<forall>msg. r = Some msg \<longrightarrow> (am_tag msg, am_body msg) \<in> ran [4 \<mapsto> (5, [1, 2])])"
proof -
  let ?h = "emptyHeader\<lparr>flags := dataFlags Media, srcStreamID := 9, seq := 4, tag := 5\<rparr>"
  have h: "header_ok ?h"
    by (simp add: header_ok_def emptyHeader_def isValid_data)
  obtain r m' where r: "media_accept ?h [1, 2] emptyMediaAssembler = Some (r, m')"
    using media_accept_safe [OF media_ok_empty h] by blast
  have "slots_hold [4 \<mapsto> (5, [1, 2])] emptyMediaAssembler"
    by (simp add: slots_hold_def emptyMediaAssembler_def)
  moreover have "carries_media [4 \<mapsto> (5, [1, 2])] ?h [1, 2]"
    unfolding carries_media_def
    by (rule exI [of _ 5], rule exI [of _ "[1, 2]"], rule exI [of _ 0])
      (simp add: carries_def fragmentsOf_def fragment_body_def emptyHeader_def constants)
  ultimately show ?thesis
    using media_genuine [OF media_ok_empty _ h _ r, of "[4 \<mapsto> (5, [1, 2])]"] r by auto
qed

end
