(* ===== verification/RttEstimator.thy ===== *)
theory RttEstimator
  imports Constants
begin

text \<open>
  \<open>RttEstimator.h\<close>: the round-trip time and the retransmission timeout, durations in microseconds.
  Division truncates towards zero as in C++; every value divided is non-negative. The lemmas show that
  the timeout always is between its two bounds, and that \<open>timeoutFor\<close>, a loop that doubles, is the
  doubled timeout capped at the maximum.
\<close>

record RttEstimator =
  rtt_initialRto :: int
  rtt_minRto :: int
  rtt_maxRto :: int
  rtt_rto :: int
  rtt_srtt :: int
  rtt_rttVar :: int
  rtt_hasSample :: bool

text \<open>\<open>std::clamp\<close>.\<close>

definition clamp :: "'a::linorder \<Rightarrow> 'a \<Rightarrow> 'a \<Rightarrow> 'a" where
  "clamp v lo hi = (if v < lo then lo else if hi < v then hi else v)"

definition rtt_clamp :: "RttEstimator \<Rightarrow> int \<Rightarrow> int" where
  "rtt_clamp r v = clamp v (rtt_minRto r) (rtt_maxRto r)"

text \<open>The constructor takes milliseconds and keeps microseconds.\<close>

definition rttEstimator :: "int \<Rightarrow> int \<Rightarrow> int \<Rightarrow> RttEstimator" where
  "rttEstimator initial lo hi =
     (let r = \<lparr>rtt_initialRto = initial * 1000, rtt_minRto = lo * 1000, rtt_maxRto = hi * 1000, rtt_rto = 0,
               rtt_srtt = 0, rtt_rttVar = 0, rtt_hasSample = False\<rparr>
      in r\<lparr>rtt_rto := rtt_clamp r (initial * 1000)\<rparr>)"

definition addSample :: "RttEstimator \<Rightarrow> int \<Rightarrow> RttEstimator" where
  "addSample r rtt =
     (if rtt < 0 then r
      else let r = (if \<not> rtt_hasSample r
                    then r\<lparr>rtt_srtt := rtt, rtt_rttVar := rtt div 2, rtt_hasSample := True\<rparr>
                    else let delta = (if rtt_srtt r > rtt then rtt_srtt r - rtt else rtt - rtt_srtt r)
                         in r\<lparr>rtt_rttVar := (rtt_rttVar r * 3 + delta) div 4,
                              rtt_srtt := (rtt_srtt r * 7 + rtt) div 8\<rparr>)
           in r\<lparr>rtt_rto := rtt_clamp r (rtt_srtt r + max 1000 (rtt_rttVar r * 4))\<rparr>)"

definition rtt_reset :: "RttEstimator \<Rightarrow> RttEstimator" where
  "rtt_reset r =
     r\<lparr>rtt_hasSample := False, rtt_srtt := 0, rtt_rttVar := 0, rtt_rto := rtt_clamp r (rtt_initialRto r)\<rparr>"

text \<open>The loop of \<open>timeoutFor\<close>: \<open>n\<close> doublings are left.\<close>

fun doubled :: "nat \<Rightarrow> int \<Rightarrow> int \<Rightarrow> int" where
  "doubled 0 hi timeout = timeout"
| "doubled (Suc n) hi timeout = (if timeout < hi then doubled n hi (timeout * 2) else timeout)"

definition timeoutFor :: "RttEstimator \<Rightarrow> nat \<Rightarrow> int" where
  "timeoutFor r attempt = rtt_clamp r (doubled attempt (rtt_maxRto r) (rtt_rto r))"


section \<open>Bounds\<close>

definition rtt_ok :: "RttEstimator \<Rightarrow> bool" where
  "rtt_ok r \<longleftrightarrow>
     0 \<le> rtt_minRto r \<and> rtt_minRto r \<le> rtt_maxRto r \<and>
     rtt_minRto r \<le> rtt_rto r \<and> rtt_rto r \<le> rtt_maxRto r \<and> 0 \<le> rtt_srtt r \<and> 0 \<le> rtt_rttVar r"

lemma clamp_bounds: "lo \<le> hi \<Longrightarrow> lo \<le> clamp v lo hi \<and> clamp v lo hi \<le> hi"
  by (auto simp: clamp_def not_less)

lemma clamp_eq: "lo \<le> hi \<Longrightarrow> clamp v lo hi = max lo (min v hi)" for v :: "'a::linorder"
  by (auto simp: clamp_def max_def min_def)

lemma rtt_ok_new: "0 \<le> lo \<Longrightarrow> lo \<le> hi \<Longrightarrow> rtt_ok (rttEstimator initial lo hi)"
  by (simp add: rtt_ok_def rttEstimator_def rtt_clamp_def clamp_bounds)

lemma rtt_ok_addSample: "rtt_ok r \<Longrightarrow> rtt_ok (addSample r rtt)"
  by (auto simp: rtt_ok_def addSample_def Let_def rtt_clamp_def clamp_bounds)

lemma rtt_ok_reset: "rtt_ok r \<Longrightarrow> rtt_ok (rtt_reset r)"
  by (auto simp: rtt_ok_def rtt_reset_def rtt_clamp_def clamp_bounds)

lemma rtt_limits [simp]:
  "rtt_minRto (addSample r rtt) = rtt_minRto r" "rtt_maxRto (addSample r rtt) = rtt_maxRto r"
  "rtt_minRto (rtt_reset r) = rtt_minRto r" "rtt_maxRto (rtt_reset r) = rtt_maxRto r"
  by (simp_all add: addSample_def rtt_reset_def Let_def)

text \<open>The smoothed estimate stays between the smallest and the largest sample it has seen.\<close>

lemma addSample_between:
  assumes "rtt_hasSample r" and "lo \<le> rtt_srtt r" "rtt_srtt r \<le> hi" and "lo \<le> rtt" "rtt \<le> hi" "0 \<le> rtt"
  shows "lo \<le> rtt_srtt (addSample r rtt) \<and> rtt_srtt (addSample r rtt) \<le> hi"
proof -
  have "rtt_srtt (addSample r rtt) = (rtt_srtt r * 7 + rtt) div 8"
    using assms by (simp add: addSample_def Let_def)
  then show ?thesis
    using assms(2-) by linarith
qed


section \<open>The timeout of an attempt\<close>

lemma doubled_cap: "0 \<le> t \<Longrightarrow> min (doubled n hi t) hi = min (t * 2 ^ n) hi"
proof (induction n arbitrary: t)
  case (Suc n)
  show ?case
  proof (cases "t < hi")
    case True
    then show ?thesis
      using Suc.IH [of "t * 2"] Suc.prems by (simp add: mult.assoc)
  next
    case False
    have "t * 1 \<le> t * 2 ^ Suc n"
      using Suc.prems by (intro mult_left_mono one_le_power) simp_all
    then have "hi \<le> t * 2 ^ Suc n"
      using False by linarith
    then show ?thesis
      using False by (simp add: min_absorb2 del: power_Suc)
  qed
qed simp

lemma timeoutFor_eq:
  assumes "rtt_ok r"
  shows "timeoutFor r attempt = min (rtt_rto r * 2 ^ attempt) (rtt_maxRto r)"
proof -
  have ok: "0 \<le> rtt_minRto r" "rtt_minRto r \<le> rtt_maxRto r" "rtt_minRto r \<le> rtt_rto r"
    using assms by (simp_all add: rtt_ok_def)
  have "rtt_rto r * 1 \<le> rtt_rto r * 2 ^ attempt"
    using ok by (intro mult_left_mono) simp_all
  then have "rtt_minRto r \<le> min (rtt_rto r * 2 ^ attempt) (rtt_maxRto r)"
    using ok by simp
  then show ?thesis
    using doubled_cap [of "rtt_rto r" attempt "rtt_maxRto r"] ok
    by (simp add: timeoutFor_def rtt_clamp_def clamp_eq)
qed

lemma timeoutFor_mono:
  assumes "rtt_ok r" and "m \<le> n"
  shows "timeoutFor r m \<le> timeoutFor r n"
proof -
  have "rtt_rto r * 2 ^ m \<le> rtt_rto r * 2 ^ n"
    using assms by (intro mult_left_mono power_increasing) (simp_all add: rtt_ok_def)
  then show ?thesis
    by (simp add: timeoutFor_eq [OF assms(1)] min_def)
qed


section \<open>Properties\<close>

lemma rtt_limits_new:
  "rtt_minRto (rttEstimator initial lo hi) = lo * 1000" "rtt_maxRto (rttEstimator initial lo hi) = hi * 1000"
  by (simp_all add: rttEstimator_def Let_def)

text \<open>C20: After any samples, the retransmission timeout is between its two bounds, and the timeout of a later attempt is
  the first one doubled as often as there were attempts, capped at the upper bound.\<close>

theorem timeout_backoff:
  assumes "0 \<le> lo" and "lo \<le> hi"
  shows "let r = foldl addSample (rttEstimator initial lo hi) samples in
    lo * 1000 \<le> rtt_rto r \<and> rtt_rto r \<le> hi * 1000 \<and>
    timeoutFor r attempt = min (rtt_rto r * 2 ^ attempt) (hi * 1000)"
proof -
  have "rtt_ok (foldl addSample r samples) \<and> rtt_minRto (foldl addSample r samples) = rtt_minRto r \<and>
      rtt_maxRto (foldl addSample r samples) = rtt_maxRto r" if "rtt_ok r" for r
    using that by (induction samples arbitrary: r) (simp_all add: rtt_ok_addSample)
  from this [OF rtt_ok_new [OF assms, of initial]] show ?thesis
    using timeoutFor_eq [of "foldl addSample (rttEstimator initial lo hi) samples" attempt] rtt_limits_new [of initial lo hi]
    by (simp add: rtt_ok_def)
qed

theorem timeout_backoff_witness:
  "timeoutFor (foldl addSample (rttEstimator 100 20 1000) [3000, 5000]) 4 = 320000"
  using timeout_backoff [of 20 1000 100 "[3000, 5000]" 4]
  by (simp add: addSample_def rttEstimator_def rtt_clamp_def clamp_def Let_def)

end
