(* ===== verification/Double.thy ===== *)
theory Double
  imports Complex_Main
begin

text \<open>
  The \<open>double\<close> of C++, as far as the congestion window and the token bucket use it: IEEE 754 binary64
  with rounding to the nearest value, ties to even. A double is the rational number it stands for, and
  \<open>rnd\<close> rounds the exact result of an operation: every sum, quotient or conversion of the code is
  \<open>rnd\<close> of the exact one. Infinities and subnormal numbers do not come up: the values of the code are
  zero or between \<open>2\<^sup>-\<^sup>6\<^sup>4\<close> and \<open>2\<^sup>6\<^sup>4\<close> in size.

  The lemmas are the ones bounds need: rounding is monotone, and whole numbers below \<open>2\<^sup>5\<^sup>3\<close> are exact.
\<close>

section \<open>Definitions\<close>

text \<open>The nearest whole number, the even one of two that are equally near.\<close>

definition round_even :: "rat \<Rightarrow> int" where
  "round_even x =
     (let f = \<lfloor>x\<rfloor>; d = x - of_int f
      in if d < 1 / 2 \<or> (d = 1 / 2 \<and> even f) then f else f + 1)"

fun ilog2 :: "nat \<Rightarrow> nat" where
  "ilog2 n = (if n < 2 then 0 else Suc (ilog2 (n div 2)))"

declare ilog2.simps [simp del]

text \<open>Powers of two with a negative exponent too.\<close>

definition pow2 :: "int \<Rightarrow> rat" where
  "pow2 e = (if 0 \<le> e then 2 ^ nat e else 1 / 2 ^ nat (- e))"

text \<open>The exponent of a positive number: it is between that power of two and the next one.\<close>

definition exponent :: "rat \<Rightarrow> int" where
  "exponent x =
     (if 1 \<le> x then int (ilog2 (nat \<lfloor>x\<rfloor>))
      else let k = ilog2 (nat \<lfloor>1 / x\<rfloor>) in if 1 / x = 2 ^ k then - int k else - int k - 1)"

definition rnd_pos :: "rat \<Rightarrow> rat" where
  "rnd_pos x = of_int (round_even (x * pow2 (52 - exponent x))) * pow2 (exponent x - 52)"

definition rnd :: "rat \<Rightarrow> rat" where
  "rnd x = (if x = 0 then 0 else if 0 < x then rnd_pos x else - rnd_pos (- x))"


section \<open>Powers and exponents\<close>

lemma pow2_pos [simp]: "0 < pow2 e"
  by (simp add: pow2_def)

lemma pow2_nat [simp]: "pow2 (int n) = 2 ^ n"
  by (simp add: pow2_def)

lemma pow2_Suc: "pow2 (e + 1) = 2 * pow2 e"
proof (cases "0 \<le> e")
  case True
  then show ?thesis
    by (simp add: pow2_def nat_add_distrib)
next
  case False
  then have "nat (- e) = Suc (nat (- (e + 1)))"
    by simp
  then show ?thesis
    using False by (simp add: pow2_def)
qed

lemma pow2_add_nat: "pow2 (e + int n) = pow2 e * 2 ^ n"
proof (induction n)
  case (Suc n)
  have "pow2 (e + int (Suc n)) = pow2 ((e + int n) + 1)"
    by (simp add: ac_simps)
  then show ?case
    using Suc by (simp only: pow2_Suc) simp
qed simp

lemma pow2_mono: "a \<le> b \<Longrightarrow> pow2 a \<le> pow2 b"
  using pow2_add_nat [of a "nat (b - a)"] by simp

lemma pow2_inverse: "pow2 a * pow2 (- a) = 1"
  by (cases a "0 :: int" rule: linorder_cases) (simp_all add: pow2_def)

lemma pow2_add: "pow2 (a + b) = pow2 a * pow2 b"
proof (cases "0 \<le> b")
  case True
  then show ?thesis
    using pow2_add_nat [of a "nat b"] by (simp add: pow2_def)
next
  case False
  then have "pow2 a = pow2 (a + b) * 2 ^ nat (- b)"
    using pow2_add_nat [of "a + b" "nat (- b)"] by simp
  then show ?thesis
    using False by (simp add: pow2_def)
qed

lemma ilog2_bounds: "0 < n \<Longrightarrow> 2 ^ ilog2 n \<le> n \<and> n < 2 ^ Suc (ilog2 n)"
proof (induction n rule: ilog2.induct)
  case (1 n)
  show ?case
  proof (cases "n < 2")
    case True
    then show ?thesis
      using 1(2) by (simp add: ilog2.simps [of n])
  next
    case False
    then have "2 ^ ilog2 (n div 2) \<le> n div 2" "n div 2 < 2 ^ Suc (ilog2 (n div 2))"
      using 1(1) by auto
    moreover have "ilog2 n = Suc (ilog2 (n div 2))"
      using False by (simp add: ilog2.simps [of n])
    ultimately show ?thesis
      by (simp only: power_Suc) linarith
  qed
qed

lemma exponent_ge_one:
  fixes x :: rat
  assumes "1 \<le> x"
  shows "2 ^ ilog2 (nat \<lfloor>x\<rfloor>) \<le> x \<and> x < 2 ^ Suc (ilog2 (nat \<lfloor>x\<rfloor>))"
proof -
  define n where "n = nat \<lfloor>x\<rfloor>"
  have fl: "\<lfloor>x\<rfloor> = int n" and pos: "0 < n"
    using assms by (auto simp: n_def)
  have "2 ^ ilog2 n \<le> n" "Suc n \<le> 2 ^ Suc (ilog2 n)"
    using ilog2_bounds [OF pos] by auto
  then have "(of_nat (2 ^ ilog2 n) :: rat) \<le> of_nat n" "(of_nat (Suc n) :: rat) \<le> of_nat (2 ^ Suc (ilog2 n))"
    by (simp_all only: of_nat_le_iff)
  then have "(2 :: rat) ^ ilog2 n \<le> of_nat n" "of_nat n + 1 \<le> (2 :: rat) ^ Suc (ilog2 n)"
    by (simp_all only: of_nat_power of_nat_numeral of_nat_Suc add.commute)
  moreover have "of_nat n \<le> x \<and> x < of_nat n + 1"
    using fl by (simp add: floor_eq_iff)
  ultimately show ?thesis
    unfolding n_def [symmetric] by linarith
qed

lemma exponent_bounds:
  assumes "0 < x"
  shows "pow2 (exponent x) \<le> x \<and> x < pow2 (exponent x + 1)"
proof (cases "1 \<le> x")
  case True
  then show ?thesis
    using exponent_ge_one [OF True] by (simp add: exponent_def pow2_Suc)
next
  case False
  define k where "k = ilog2 (nat \<lfloor>1 / x\<rfloor>)"
  have "1 \<le> 1 / x"
    using False assms by simp
  then have k: "2 ^ k \<le> 1 / x" "1 / x < 2 ^ Suc k"
    using exponent_ge_one unfolding k_def by blast+
  then have up: "x \<le> 1 / 2 ^ k" and lo: "1 / 2 ^ Suc k < x"
    using assms by (simp_all add: field_simps)
  have e: "pow2 (- int k) = 1 / 2 ^ k" "pow2 (- int k - 1) = 1 / 2 ^ Suc k"
    by (simp_all add: pow2_def nat_add_distrib)
  have exp: "exponent x = (if 1 / x = 2 ^ k then - int k else - int k - 1)"
    by (simp only: exponent_def Let_def False if_False flip: k_def)
  show ?thesis
  proof (cases "1 / x = 2 ^ k")
    case True
    then have "x = 1 / 2 ^ k"
      using assms by (simp add: field_simps)
    then have "x = pow2 (- int k)"
      by (simp only: e(1))
    moreover have "exponent x = - int k"
      unfolding exp using True by (rule if_P)
    ultimately show ?thesis
      using pow2_Suc [of "- int k"] pow2_pos [of "- int k"] by (simp del: pow2_pos)
  next
    case neq: False
    have "x \<noteq> 1 / 2 ^ k"
      using neq by auto
    then show ?thesis
      using exp neq e up lo by simp
  qed
qed

lemma exponent_mono:
  assumes "0 < x" and "x \<le> y"
  shows "exponent x \<le> exponent y"
proof (rule ccontr)
  assume "\<not> exponent x \<le> exponent y"
  then have "pow2 (exponent y + 1) \<le> pow2 (exponent x)"
    by (intro pow2_mono) simp
  then show False
    using exponent_bounds [of x] exponent_bounds [of y] assms by linarith
qed


section \<open>Rounding\<close>

lemma round_even_bounds: "\<lfloor>x\<rfloor> \<le> round_even x \<and> round_even x \<le> \<lfloor>x\<rfloor> + 1"
  by (simp add: round_even_def Let_def)

lemma round_even_int [simp]: "round_even (of_int n) = n"
  by (simp add: round_even_def)

lemma round_even_mono:
  assumes "x \<le> y"
  shows "round_even x \<le> round_even y"
proof (cases "\<lfloor>x\<rfloor> = \<lfloor>y\<rfloor>")
  case True
  then show ?thesis
    using assms by (auto simp: round_even_def Let_def)
next
  case False
  then have "\<lfloor>x\<rfloor> + 1 \<le> \<lfloor>y\<rfloor>"
    using floor_mono [OF assms] by simp
  then show ?thesis
    using round_even_bounds [of x] round_even_bounds [of y] by linarith
qed

lemma rnd_pos_binade:
  assumes "0 < x"
  shows "pow2 (exponent x) \<le> rnd_pos x \<and> rnd_pos x \<le> pow2 (exponent x + 1)"
proof -
  let ?e = "exponent x"
  have "pow2 ?e * pow2 (52 - ?e) \<le> x * pow2 (52 - ?e)" "x * pow2 (52 - ?e) \<le> pow2 (?e + 1) * pow2 (52 - ?e)"
    using exponent_bounds [OF assms] by (intro mult_right_mono; simp add: less_imp_le)+
  then have "pow2 52 \<le> x * pow2 (52 - ?e)" "x * pow2 (52 - ?e) \<le> pow2 53"
    by (simp_all flip: pow2_add)
  then have "of_int (2 ^ 52) \<le> x * pow2 (52 - ?e)" "x * pow2 (52 - ?e) \<le> of_int (2 ^ 53)"
    by (simp_all add: pow2_def)
  then have "2 ^ 52 \<le> round_even (x * pow2 (52 - ?e))" "round_even (x * pow2 (52 - ?e)) \<le> 2 ^ 53"
    using round_even_mono round_even_int by metis+
  then have "(of_int (2 ^ 52) :: rat) * pow2 (?e - 52) \<le> rnd_pos x" "rnd_pos x \<le> of_int (2 ^ 53) * pow2 (?e - 52)"
    unfolding rnd_pos_def by (intro mult_right_mono; simp only: of_int_le_iff pow2_pos less_imp_le)+
  moreover have "(of_int (2 ^ 52) :: rat) = pow2 52" "(of_int (2 ^ 53) :: rat) = pow2 53"
    by (simp_all add: pow2_def)
  ultimately show ?thesis
    using pow2_add [of 52 "?e - 52"] pow2_add [of 53 "?e - 52"] by (simp add: add.commute)
qed

lemma rnd_pos_mono:
  assumes "0 < x" and "x \<le> y"
  shows "rnd_pos x \<le> rnd_pos y"
proof (cases "exponent x = exponent y")
  case True
  have "x * pow2 (52 - exponent x) \<le> y * pow2 (52 - exponent x)"
    using assms by (intro mult_right_mono) (simp_all add: less_imp_le)
  then show ?thesis
    unfolding rnd_pos_def True by (intro mult_right_mono) (simp_all add: round_even_mono less_imp_le)
next
  case False
  then have "exponent x + 1 \<le> exponent y"
    using exponent_mono [OF assms] by simp
  then have "pow2 (exponent x + 1) \<le> pow2 (exponent y)"
    by (rule pow2_mono)
  then show ?thesis
    using rnd_pos_binade [of x] rnd_pos_binade [of y] assms by linarith
qed

lemma rnd_pos_positive: "0 < x \<Longrightarrow> 0 < rnd_pos x"
  using rnd_pos_binade [of x] pow2_pos [of "exponent x"] by linarith

text \<open>Rounding is monotone.\<close>

lemma rnd_mono:
  assumes "x \<le> y"
  shows "rnd x \<le> rnd y"
proof -
  consider "0 < x" | "x \<le> 0" "0 \<le> y" | "y < 0"
    by linarith
  then show ?thesis
  proof cases
    case 1
    then show ?thesis
      using assms rnd_pos_mono [of x y] by (simp add: rnd_def)
  next
    case 2
    then have "rnd x \<le> 0" "0 \<le> rnd y"
      using rnd_pos_positive [of "- x"] rnd_pos_positive [of y] by (auto simp: rnd_def)
    then show ?thesis by linarith
  next
    case 3
    then show ?thesis
      using assms rnd_pos_mono [of "- y" "- x"] by (simp add: rnd_def)
  qed
qed

text \<open>Whole numbers up to \<open>2\<^sup>5\<^sup>3\<close> are doubles.\<close>

lemma rnd_of_nat [simp]:
  assumes "n < 2 ^ 53"
  shows "rnd (of_nat n) = of_nat n"
proof (cases "n = 0")
  case False
  define e where "e = ilog2 n"
  have "2 ^ e < (2 :: nat) ^ 53"
    using ilog2_bounds [of n] False assms unfolding e_def by linarith
  then have "e \<le> 52"
    using power_less_imp_less_exp [of "2 :: nat" e 53] by simp
  then have p: "pow2 (52 - int e) = of_nat (2 ^ (52 - e))"
    by (simp add: pow2_def nat_diff_distrib)
  have exp: "exponent (of_nat n) = int e"
    using False by (simp add: exponent_def e_def)
  have "of_nat n * pow2 (52 - int e) = of_int (int (n * 2 ^ (52 - e)))"
    by (simp add: p)
  then have "rnd_pos (of_nat n) = of_nat n * pow2 (52 - int e) * pow2 (int e - 52)"
    unfolding rnd_pos_def exp by (simp only: round_even_int)
  also have "\<dots> = of_nat n"
    using pow2_inverse [of "52 - int e"] by (simp add: mult.assoc)
  finally show ?thesis
    using False by (simp add: rnd_def)
qed (simp add: rnd_def)

lemma rnd_le_of_nat: "n < 2 ^ 53 \<Longrightarrow> x \<le> of_nat n \<Longrightarrow> rnd x \<le> of_nat n"
  using rnd_mono [of x "of_nat n"] by simp

lemma rnd_ge_of_nat: "n < 2 ^ 53 \<Longrightarrow> of_nat n \<le> x \<Longrightarrow> of_nat n \<le> rnd x"
  using rnd_mono [of "of_nat n" x] by simp


text \<open>A number on a grid of at most \<open>2\<^sup>5\<^sup>3\<close> steps is a double; so is every rounded number.\<close>

lemma pow2_le_iff: "pow2 a \<le> pow2 b \<longleftrightarrow> a \<le> b"
proof
  show "a \<le> b" if "pow2 a \<le> pow2 b"
  proof (rule ccontr)
    assume "\<not> a \<le> b"
    then have "pow2 (b + 1) \<le> pow2 a"
      by (intro pow2_mono) simp
    then show False
      using that pow2_Suc [of b] pow2_pos [of b] by linarith
  qed
qed (rule pow2_mono)

lemma rnd_pos_int:
  assumes "x * pow2 (52 - exponent x) = of_int k"
  shows "rnd_pos x = x"
proof -
  have "rnd_pos x = x * pow2 (52 - exponent x) * pow2 (exponent x - 52)"
    unfolding rnd_pos_def assms by simp
  then show ?thesis
    using pow2_inverse [of "52 - exponent x"] by (simp add: mult.assoc)
qed

lemma rnd_grid:
  assumes "x = of_int j * pow2 e" and "0 < j" and "j \<le> 2 ^ 53"
  shows "rnd x = x"
proof -
  have pos: "0 < x"
    using assms by simp
  have "(of_int j :: rat) \<le> of_int (2 ^ 53)"
    using assms(3) by (simp only: of_int_le_iff)
  then have "x \<le> of_int (2 ^ 53) * pow2 e"
    unfolding assms(1) by (rule mult_right_mono) (simp add: less_imp_le)
  also have "of_int (2 ^ 53) * pow2 e = pow2 (e + 53)"
    by (subst add.commute) (simp add: pow2_add, simp add: pow2_def)
  finally have le: "x \<le> pow2 (e + 53)" .
  then have q: "exponent x \<le> e + 53"
    using exponent_bounds [OF pos] pow2_le_iff by (meson order_trans)
  have "\<exists>k. x * pow2 (52 - exponent x) = of_int k"
  proof (cases "exponent x \<le> e + 52")
    case True
    then have "x * pow2 (52 - exponent x) = of_int (j * 2 ^ nat (e + 52 - exponent x))"
      unfolding assms(1) mult.assoc pow2_add [symmetric] by (simp add: pow2_def algebra_simps)
    then show ?thesis ..
  next
    case False
    then have e: "exponent x = e + 53"
      using q by simp
    then have "x = pow2 (e + 53)"
      using le exponent_bounds [OF pos] by simp
    then have "x * pow2 (52 - exponent x) = pow2 52"
      unfolding e by (simp flip: pow2_add)
    also have "\<dots> = of_int (2 ^ 52)"
      by (simp add: pow2_def)
    finally show ?thesis ..
  qed
  then show ?thesis
    using rnd_pos_int pos by (auto simp: rnd_def)
qed

lemma rnd_pos_grid:
  assumes "0 < x"
  shows "\<exists>j. 2 ^ 52 \<le> j \<and> j \<le> 2 ^ 53 \<and> rnd_pos x = of_int j * pow2 (exponent x - 52)"
proof -
  let ?y = "x * pow2 (52 - exponent x)"
  have "pow2 52 \<le> ?y" "?y \<le> pow2 53"
    using exponent_bounds [OF assms] mult_right_mono [of "pow2 (exponent x)" x "pow2 (52 - exponent x)"]
      mult_right_mono [of x "pow2 (exponent x + 1)" "pow2 (52 - exponent x)"]
    by (simp_all add: less_imp_le flip: pow2_add)
  then have "of_int (2 ^ 52) \<le> ?y" "?y \<le> of_int (2 ^ 53)"
    by (simp_all add: pow2_def)
  then have "2 ^ 52 \<le> round_even ?y" "round_even ?y \<le> 2 ^ 53"
    using round_even_mono round_even_int by metis+
  then show ?thesis
    by (auto simp: rnd_pos_def)
qed

lemma rnd_idem [simp]: "rnd (rnd x) = rnd x"
proof -
  have pos: "rnd (rnd_pos y) = rnd_pos y" if "0 < y" for y
    using rnd_pos_grid [OF that] rnd_grid by (metis zero_less_numeral zero_less_power order.strict_trans2)
  have neg: "rnd (- y) = - rnd y" for y
    by (simp add: rnd_def)
  show ?thesis
    using pos [of x] pos [of "- x"] neg by (cases x "0 :: rat" rule: linorder_cases) (simp_all add: rnd_def)
qed

text \<open>Taking one off a double of at least one is exact.\<close>

lemma rnd_minus_one:
  assumes "rnd t = t" and "1 \<le> t" and "t < 2 ^ 53"
  shows "rnd (t - 1) = t - 1"
proof (cases "t = 1")
  case False
  let ?q = "exponent t"
  have pos: "0 < t"
    using assms(2) by simp
  have "pow2 ?q < pow2 53"
    using exponent_bounds [OF pos] assms(3) by (simp add: pow2_def)
  then have q: "?q \<le> 52"
    using pow2_mono [of 53 ?q] by linarith
  obtain j where j: "j \<le> 2 ^ 53" "t = of_int j * pow2 (?q - 52)"
    using rnd_pos_grid [OF pos] assms(1) pos by (auto simp: rnd_def)
  have "of_int (2 ^ nat (52 - ?q)) * pow2 (?q - 52) = 1"
    using q pow2_inverse [of "52 - ?q"] by (simp add: pow2_def)
  then have eq: "t - 1 = of_int (j - 2 ^ nat (52 - ?q)) * pow2 (?q - 52)"
    unfolding of_int_diff left_diff_distrib using j(2) by simp
  have "0 < t - 1"
    using False assms(2) by simp
  then have "0 < j - 2 ^ nat (52 - ?q)"
    unfolding eq using pow2_pos [of "?q - 52"] by (simp add: zero_less_mult_iff not_less_iff_gr_or_eq)
  moreover have "j - 2 ^ nat (52 - ?q) \<le> 2 ^ 53"
    using j(1) zero_less_power [of "2 :: int" "nat (52 - ?q)"] by linarith
  ultimately show ?thesis
    by (rule rnd_grid [OF eq])
qed (simp add: rnd_def)

end
