(* ===== verification/ReliableLink.thy ===== *)
theory ReliableLink
  imports AckRanges SequenceBuffer MediaAssembler RttEstimator Double
begin

text \<open>
  \<open>ReliableLink.h\<close> and \<open>ReliableLink.cpp\<close>: message streams to one remote peer on top of datagrams. This
  theory holds the state of a link and one definition per function of the class, in the order of
  their dependencies.

  State. A link is a record of the members of the class. The array \<open>mStreams\<close> is a function from lanes:
  \<open>None\<close> is the null pointer, and \<open>Media\<close>, which has no element in the array, always is \<open>None\<close>.
  A reference to a stream or to an entry of a send window, which the code writes through, is the lane
  and the seq it was found with. The budget is what \<open>mBudget\<close> points to. The message bodies, shared
  pointers to constant vectors, are the bytes.

  Effects. An operation takes the link and returns the changed one. The message source a link takes
  its messages from is a parameter: a function \<open>next\<close> on a state of its own. \<open>onPacket\<close> returns an
  option, \<open>None\<close> for a memory fault of the \<open>MediaAssembler\<close>.

  Loops over seqs are folds over the list of them; the loop over the reorder buffer has the capacity
  of the buffer as fuel, which is enough since every round takes an entry out of it.
\<close>

unbundle bit_operations_syntax

section \<open>State\<close>

record OutboundMessage =
  om_tag :: u32
  om_body :: bytes

record DeliveredMessage =
  dm_lane :: Lane
  dm_tag :: u32
  dm_body :: bytes

record OutgoingDatagram =
  od_head :: bytes
  od_headSize :: u8
  od_message :: "bytes option"
  od_offset :: u32
  od_length :: u32
  od_owned :: bytes

definition emptyDatagram :: OutgoingDatagram where
  "emptyDatagram =
     \<lparr>od_head = replicate MaxHeaderSize 0, od_headSize = 0, od_message = None, od_offset = 0, od_length = 0,
      od_owned = []\<rparr>"

definition datagramHeader :: "OutgoingDatagram \<Rightarrow> bytes" where
  "datagramHeader d = take (unat (od_headSize d)) (od_head d)"

text \<open>The body is a view into the message: \<open>None\<close> if it does not lie within it.\<close>

definition datagramBody :: "OutgoingDatagram \<Rightarrow> bytes option" where
  "datagramBody d =
     (case od_message d of
        Some m \<Rightarrow> if unat (od_offset d) + unat (od_length d) \<le> length m
                  then Some (take (unat (od_length d)) (drop (unat (od_offset d)) m)) else None
      | None \<Rightarrow> Some (od_owned d))"

record LinkStats =
  dataSent :: u64
  retransmissions :: u64
  fastRetransmissions :: u64
  acksSent :: u64
  pingsSent :: u64
  duplicatesReceived :: u64
  staleDropped :: u64
  outOfWindowDropped :: u64
  delivered :: u64
  bytesSent :: u64
  bytesReceived :: u64
  mediaSent :: u64
  mediaReceived :: u64
  mediaReceivedByPeer :: u64
  timerWork :: u64

definition emptyStats :: LinkStats where
  "emptyStats =
     \<lparr>dataSent = 0, retransmissions = 0, fastRetransmissions = 0, acksSent = 0, pingsSent = 0,
      duplicatesReceived = 0, staleDropped = 0, outOfWindowDropped = 0, delivered = 0, bytesSent = 0,
      bytesReceived = 0, mediaSent = 0, mediaReceived = 0, mediaReceivedByPeer = 0, timerWork = 0\<rparr>"

record InFlight =
  fl_message :: bytes
  fl_offset :: u32
  fl_length :: u32
  fl_tag :: u32
  fl_totalLength :: u32
  fl_fragIndex :: u16
  fl_fragCount :: u16
  fl_transmissions :: u16
  fl_lost :: bool
  fl_sentAt :: TimePoint
  fl_transmission :: u64

record BufferedData =
  bd_header :: PacketHeader
  bd_body :: bytes

record FragmentCursor =
  cur_message :: OutboundMessage
  cur_count :: nat
  cur_next :: nat

record SentRecord =
  sr_transmission :: u64
  sr_seq :: u64
  sr_lane :: Lane

text \<open>\<open>Stream\<close>: the send side and the receive side of one acknowledged lane.\<close>

record Stream =
  s_cursor :: "FragmentCursor option"
  s_inFlight :: "InFlight SequenceBuffer"
  s_lost :: "u64 list"
  s_nextSendSeq :: u64
  s_sendBase :: u64
  s_onTheWire :: nat
  s_peerPaused :: bool
  s_ackSerial :: "u32 option"
  s_probeAt :: "TimePoint option"
  s_probeInterval :: int
  s_reorder :: "BufferedData SequenceBuffer"
  s_nextExpected :: u64
  s_budgetPaused :: bool
  s_refusedLength :: u32
  s_assembler :: MessageAssembler

definition newStream :: "nat \<Rightarrow> Stream" where
  "newStream window =
     \<lparr>s_cursor = None, s_inFlight = sequenceBuffer window, s_lost = [], s_nextSendSeq = 1, s_sendBase = 1,
      s_onTheWire = 0, s_peerPaused = False, s_ackSerial = None, s_probeAt = None, s_probeInterval = 0,
      s_reorder = sequenceBuffer window, s_nextExpected = 1, s_budgetPaused = False, s_refusedLength = 0,
      s_assembler = emptyAssembler\<rparr>"

record Link =
  mTimings :: LinkTimings
  mLocalStreamID :: u32
  mRemoteStreamID :: "u32 option"
  mRtt :: RttEstimator
  mBudget :: "AssemblyBudget option"
  mStreams :: "Lane \<Rightarrow> Stream option"
  mMediaCursor :: "FragmentCursor option"
  mNextMediaSeq :: u64
  mMediaAssembler :: "MediaAssembler option"
  mMediaReceived :: u32
  mSent :: "SentRecord list"
  mTransmissions :: u64
  mLargestAcked :: u64
  mStalledSince :: "TimePoint option"
  mLastReceived :: "TimePoint option"
  mPingedAt :: TimePoint
  mTimeoutsInARow :: nat
  mCongestionWindow :: rat
  mRecoveryStart :: u64
  mPaused :: bool
  mAckSerial :: u32
  mAckDue :: u8
  mPingDue :: u8
  mPendingAcks :: "OutgoingDatagram list"
  mPeeked :: OutgoingDatagram
  mDelivered :: "DeliveredMessage list"
  mFailed :: bool
  mStats :: LinkStats

definition MaxBackoffSteps :: nat where [constants]: "MaxBackoffSteps = 16"

definition MaxAckRanges :: nat where [constants]:
  "MaxAckRanges = (MaxDatagramSize - BaseHeaderSize - AckFieldsSize) div SeqRangeSize"

definition StreamLanes :: "Lane list" where
  "StreamLanes = [Control, Reliable, Bulk]"

definition sharesCongestionWindow :: "Lane \<Rightarrow> bool" where
  "sharesCongestionWindow l \<longleftrightarrow> l = Reliable \<or> l = Bulk"

definition initialWindow :: "LinkTimings \<Rightarrow> rat" where
  "initialWindow t =
     rnd (of_nat (if fixedCwnd t > 0 then fixedCwnd t
                  else clamp (initialCwnd t) MinCongestionWindow MaxCongestionWindow))"

definition windowOf :: "Lane \<Rightarrow> nat" where
  "windowOf l = (if l = Control then ControlWindow else if l = Reliable then ReliableWindow else BulkWindow)"

definition bitOf :: "Lane \<Rightarrow> u8" where
  "bitOf l = push_bit (unat (laneValue l)) 1"

text \<open>The constructor. \<open>makeStreamID\<close> is random: its value is the argument \<open>randomID\<close>.\<close>

definition reliableLink :: "LinkTimings \<Rightarrow> u32 \<Rightarrow> u32 \<Rightarrow> AssemblyBudget option \<Rightarrow> Link" where
  "reliableLink t localStreamID randomID bg =
     \<lparr>mTimings = t, mLocalStreamID = (if localStreamID \<noteq> 0 then localStreamID else randomID),
      mRemoteStreamID = None, mRtt = rttEstimator (initialRto t) (minRto t) (maxRto t), mBudget = bg,
      mStreams = (\<lambda>_. None), mMediaCursor = None, mNextMediaSeq = 1, mMediaAssembler = None,
      mMediaReceived = 0, mSent = [], mTransmissions = 0, mLargestAcked = 0, mStalledSince = None,
      mLastReceived = None, mPingedAt = 0, mTimeoutsInARow = 0, mCongestionWindow = initialWindow t,
      mRecoveryStart = 0, mPaused = False, mAckSerial = 0, mAckDue = 0, mPingDue = 0, mPendingAcks = [],
      mPeeked = emptyDatagram, mDelivered = [], mFailed = False, mStats = emptyStats\<rparr>"

definition setStream :: "Lane \<Rightarrow> Stream \<Rightarrow> Link \<Rightarrow> Link" where
  "setStream la s l = l\<lparr>mStreams := (mStreams l)(la := Some s)\<rparr>"

abbreviation bump :: "((u64 \<Rightarrow> u64) \<Rightarrow> LinkStats \<Rightarrow> LinkStats) \<Rightarrow> Link \<Rightarrow> Link" where
  "bump field l \<equiv> l\<lparr>mStats := field (\<lambda>n. n + 1) (mStats l)\<rparr>"

definition streamFor :: "Lane \<Rightarrow> Link \<Rightarrow> Stream \<times> Link" where
  "streamFor la l =
     (case mStreams l la of
        Some s \<Rightarrow> (s, l)
      | None \<Rightarrow> let s = newStream (windowOf la) in (s, setStream la s l))"

definition supervise :: "TimePoint \<Rightarrow> Link \<Rightarrow> Link" where
  "supervise now l = l\<lparr>mLastReceived := Some now, mPingedAt := now\<rparr>"


section \<open>Helpers\<close>

definition makeHeader :: "Link \<Rightarrow> PacketFlags \<Rightarrow> u64 \<Rightarrow> PacketHeader" where
  "makeHeader l fl sq =
     emptyHeader\<lparr>flags := fl, srcStreamID := mLocalStreamID l,
       dstStreamID := (case mRemoteStreamID l of Some r \<Rightarrow> r | None \<Rightarrow> 0), seq := sq\<rparr>"

text \<open>The header fits into the array, \<open>makeDatagram_head\<close> below, so \<open>encodeHeader\<close> does not fault.\<close>

definition makeDatagram :: "PacketHeader \<Rightarrow> OutgoingDatagram" where
  "makeDatagram h =
     (let (n, head) = the (encodeHeader h (replicate MaxHeaderSize 0))
      in emptyDatagram\<lparr>od_head := head, od_headSize := of_nat n\<rparr>)"

definition hasPending :: "Lane \<Rightarrow> Link \<Rightarrow> bool" where
  "hasPending la l =
     (if la = Media then mMediaCursor l \<noteq> None
      else case mStreams l la of None \<Rightarrow> False
           | Some s \<Rightarrow> \<not> buf_empty (s_inFlight s) \<or> s_cursor s \<noteq> None)"

definition hasPendingReliable :: "Link \<Rightarrow> bool" where
  "hasPendingReliable l =
     list_ex (\<lambda>la. case mStreams l la of None \<Rightarrow> False
       | Some s \<Rightarrow> \<not> buf_empty (s_inFlight s) \<or> s_cursor s \<noteq> None) StreamLanes"

definition inFlightCount :: "Link \<Rightarrow> nat" where
  "inFlightCount l =
     foldl (\<lambda>count la. count + (case mStreams l la of None \<Rightarrow> 0 | Some s \<Rightarrow> buf_size (s_inFlight s)))
       0 StreamLanes"

definition congestionWindow :: "Link \<Rightarrow> nat" where
  "congestionWindow l = nat \<lfloor>mCongestionWindow l\<rfloor>"

definition mediaIncomplete :: "Link \<Rightarrow> u64" where
  "mediaIncomplete l = (case mMediaAssembler l of Some m \<Rightarrow> med_abandoned m | None \<Rightarrow> 0)"

definition takeDelivered :: "Link \<Rightarrow> DeliveredMessage list \<times> Link" where
  "takeDelivered l = (mDelivered l, l\<lparr>mDelivered := []\<rparr>)"

text \<open>Destroying a stream destroys its assembler, which gives back what it has reserved.\<close>

definition dropStream :: "Link \<Rightarrow> Lane \<Rightarrow> Link" where
  "dropStream l la =
     (case mStreams l la of None \<Rightarrow> l
      | Some s \<Rightarrow> l\<lparr>mStreams := (mStreams l)(la := None),
                   mBudget := snd (assembler_reset (s_assembler s, mBudget l))\<rparr>)"

definition resetStreams :: "Link \<Rightarrow> Link" where
  "resetStreams l =
     (let l = foldl dropStream l StreamLanes
      in l\<lparr>mMediaCursor := None, mMediaAssembler := None, mNextMediaSeq := 1, mMediaReceived := 0,
           mRtt := rtt_reset (mRtt l), mSent := [], mCongestionWindow := initialWindow (mTimings l),
           mTransmissions := 0, mLargestAcked := 0, mRecoveryStart := 0, mTimeoutsInARow := 0,
           mStalledSince := None, mPendingAcks := [], mAckDue := 0, mPingDue := 0\<rparr>)"


section \<open>Loss and congestion\<close>

definition updateProgressClock :: "TimePoint \<Rightarrow> bool \<Rightarrow> Link \<Rightarrow> Link" where
  "updateProgressClock now progress l =
     (let waiting = list_ex (\<lambda>la. case mStreams l la of None \<Rightarrow> False
            | Some s \<Rightarrow> \<not> s_peerPaused s \<and> \<not> buf_empty (s_inFlight s)) StreamLanes
      in if \<not> waiting then l\<lparr>mStalledSince := None\<rparr>
         else if progress \<or> mStalledSince l = None then l\<lparr>mStalledSince := Some now\<rparr>
         else l)"

definition entryOf :: "SentRecord \<Rightarrow> Link \<Rightarrow> InFlight option" where
  "entryOf r l =
     (case mStreams l (sr_lane r) of None \<Rightarrow> None
      | Some s \<Rightarrow> (case buf_find (s_inFlight s) (sr_seq r) of None \<Rightarrow> None
                   | Some e \<Rightarrow> if \<not> fl_lost e \<and> fl_transmission e = sr_transmission r then Some e else None))"

text \<open>\<open>markLost\<close> of the record whose entry is \<open>entry\<close>, in the stream of its lane.\<close>

definition markLost :: "SentRecord \<Rightarrow> InFlight \<Rightarrow> bool \<Rightarrow> Link \<Rightarrow> Link" where
  "markLost r entry timedOut l =
     (case mStreams l (sr_lane r) of None \<Rightarrow> l
      | Some s \<Rightarrow>
          let s = s\<lparr>s_inFlight := buf_update (s_inFlight s) (sr_seq r) (\<lambda>e. e\<lparr>fl_lost := True\<rparr>),
                    s_onTheWire := size_minus (s_onTheWire s) 1, s_lost := s_lost s @ [sr_seq r]\<rparr>;
              l = setStream (sr_lane r) s l;
              l = (if \<not> timedOut then bump fastRetransmissions_update l else l)
          in if \<not> sharesCongestionWindow (sr_lane r) \<or> fixedCwnd (mTimings l) > 0 \<or>
                fl_transmission entry \<le> mRecoveryStart l then l
             else l\<lparr>mCongestionWindow := max (rnd (mCongestionWindow l / 2)) (of_nat MinCongestionWindow),
                    mRecoveryStart := mTransmissions l\<rparr>)"

text \<open>The loop of \<open>detectLosses\<close> over the records that are left in \<open>mSent\<close>.\<close>

fun detectLoop :: "SentRecord list \<Rightarrow> bool \<Rightarrow> Link \<Rightarrow> bool \<times> Link" where
  "detectLoop [] lost l = (lost, l\<lparr>mSent := []\<rparr>)"
| "detectLoop (r # rs) lost l =
     (case entryOf r l of
        Some e \<Rightarrow> if sr_transmission r + FastRetransmitThreshold > mLargestAcked l
                  then (lost, l\<lparr>mSent := r # rs\<rparr>)
                  else detectLoop rs True (markLost r e False (l\<lparr>mSent := rs\<rparr>))
      | None \<Rightarrow> detectLoop rs lost (l\<lparr>mSent := rs\<rparr>))"

definition detectLosses :: "Link \<Rightarrow> bool \<times> Link" where
  "detectLosses l = detectLoop (mSent l) False l"

definition setPeerPaused :: "Lane \<Rightarrow> bool \<Rightarrow> TimePoint \<Rightarrow> Link \<Rightarrow> Link" where
  "setPeerPaused la paused now l =
     (case mStreams l la of None \<Rightarrow> l
      | Some s \<Rightarrow>
          if s_peerPaused s = paused then l
          else let s = s\<lparr>s_peerPaused := paused, s_probeAt := None\<rparr>;
                   s = (if paused
                        then let interval = max (duration_cast 1000 (rtt_rto (mRtt l))) MinPauseProbeInterval
                             in s\<lparr>s_probeInterval := interval, s_probeAt := Some (now + milliseconds interval)\<rparr>
                        else s)
               in updateProgressClock now False (setStream la s l))"

definition linkFail :: "Link \<Rightarrow> Link" where
  "linkFail l = (resetStreams l)\<lparr>mLastReceived := None, mFailed := True\<rparr>"


section \<open>Receiving\<close>

definition acceptInOrder :: "Lane \<Rightarrow> PacketHeader \<Rightarrow> bytes \<Rightarrow> Link \<Rightarrow> bool \<times> Link" where
  "acceptInOrder la h body l =
     (case mStreams l la of None \<Rightarrow> (False, l)
      | Some s \<Rightarrow>
          if \<not> hasRoomFor (mBudget l) h
          then (False, setStream la (s\<lparr>s_budgetPaused := True, s_refusedLength := totalLength h\<rparr>) l)
          else let (message, a, bg) = assembler_accept h body (s_assembler s, mBudget l);
                   l = (setStream la (s\<lparr>s_assembler := a\<rparr>) l)\<lparr>mBudget := bg\<rparr>
               in (True,
                   case message of None \<Rightarrow> l
                   | Some m \<Rightarrow>
                       let l = l\<lparr>mStats := bytesReceived_update
                                  (\<lambda>n. n + (if la \<noteq> Control then of_nat (length (am_body m)) else 0)) (mStats l)\<rparr>;
                           l = l\<lparr>mDelivered := mDelivered l @
                                  [\<lparr>dm_lane = la, dm_tag = am_tag m, dm_body = am_body m\<rparr>]\<rparr>
                       in bump delivered_update l))"

text \<open>The loop of \<open>drainReorderBuffer\<close>, at most \<open>n\<close> rounds of it.\<close>

fun drainLoop :: "nat \<Rightarrow> Lane \<Rightarrow> Link \<Rightarrow> Link" where
  "drainLoop 0 la l = l"
| "drainLoop (Suc n) la l =
     (case mStreams l la of None \<Rightarrow> l
      | Some s \<Rightarrow>
          (case buf_find (s_reorder s) (s_nextExpected s) of None \<Rightarrow> l
           | Some buffered \<Rightarrow>
               let (taken, l) = acceptInOrder la (bd_header buffered) (bd_body buffered) l
               in if \<not> taken then l
                  else drainLoop n la
                    (case mStreams l la of None \<Rightarrow> l
                     | Some s \<Rightarrow> setStream la (s\<lparr>s_reorder := snd (buf_erase (s_reorder s) (s_nextExpected s)),
                                                s_nextExpected := s_nextExpected s + 1\<rparr>) l)))"

definition drainReorderBuffer :: "Lane \<Rightarrow> Link \<Rightarrow> Link" where
  "drainReorderBuffer la l =
     (case mStreams l la of None \<Rightarrow> l | Some s \<Rightarrow> drainLoop (capacity (s_reorder s)) la l)"

definition retryRefused :: "Lane \<Rightarrow> Link \<Rightarrow> Link" where
  "retryRefused la l =
     (case mStreams l la of None \<Rightarrow> l
      | Some s \<Rightarrow>
          if \<not> s_budgetPaused s \<or>
             (case mBudget l of None \<Rightarrow> False | Some b \<Rightarrow> \<not> budget_fits b (unat (s_refusedLength s))) then l
          else let l = drainReorderBuffer la (setStream la (s\<lparr>s_budgetPaused := False\<rparr>) l)
               in l\<lparr>mAckDue := mAckDue l OR bitOf la\<rparr>)"

definition handleData :: "Lane \<Rightarrow> PacketHeader \<Rightarrow> bytes \<Rightarrow> Link \<Rightarrow> Link" where
  "handleData la h body l =
     (let l = retryRefused la (snd (streamFor la l))
      in case mStreams l la of None \<Rightarrow> l
         | Some s \<Rightarrow>
             if seq h \<ge> s_nextExpected s + of_nat (capacity (s_reorder s))
             then bump outOfWindowDropped_update l
             else let l = l\<lparr>mAckDue := mAckDue l OR bitOf la\<rparr>
               in if seq h < s_nextExpected s \<or> buf_contains (s_reorder s) (seq h)
                  then bump duplicatesReceived_update l
                  else if seq h \<noteq> s_nextExpected s
                  then setStream la (s\<lparr>s_reorder := buf_insert (s_reorder s) (seq h)
                                        \<lparr>bd_header = h, bd_body = body\<rparr>\<rparr>) l
                  else let (taken, l) = acceptInOrder la h body l
                    in if \<not> taken then l
                       else drainReorderBuffer la
                         (case mStreams l la of None \<Rightarrow> l
                          | Some s \<Rightarrow> setStream la (s\<lparr>s_nextExpected := s_nextExpected s + 1\<rparr>) l))"

definition handleMedia :: "PacketHeader \<Rightarrow> bytes \<Rightarrow> Link \<Rightarrow> Link option" where
  "handleMedia h body l =
     (let l = bump mediaReceived_update (l\<lparr>mMediaReceived := mMediaReceived l + 1\<rparr>);
          assembler = (case mMediaAssembler l of Some m \<Rightarrow> m | None \<Rightarrow> emptyMediaAssembler)
      in do { (message, assembler) \<leftarrow> media_accept h body assembler;
              let l = l\<lparr>mMediaAssembler := Some assembler\<rparr>;
              Some (case message of None \<Rightarrow> l
                    | Some m \<Rightarrow>
                        let l = l\<lparr>mStats := bytesReceived_update (\<lambda>n. n + of_nat (length (am_body m))) (mStats l)\<rparr>;
                            l = l\<lparr>mDelivered := mDelivered l @
                                   [\<lparr>dm_lane = Media, dm_tag = am_tag m, dm_body = am_body m\<rparr>]\<rparr>
                        in bump delivered_update l) })"

text \<open>
  What the lambda \<open>release\<close> of \<open>handleAck\<close> changes: the stream, \<open>mLargestAcked\<close>, and the local
  variables \<open>acked\<close>, \<open>counted\<close>, \<open>hasSample\<close> and \<open>sampleSentAt\<close>.
\<close>

record AckTally =
  ta_stream :: Stream
  ta_largestAcked :: u64
  ta_acked :: nat
  ta_counted :: nat
  ta_hasSample :: bool
  ta_sampleSentAt :: TimePoint

definition releaseSeq :: "u64 \<Rightarrow> AckTally \<Rightarrow> u64 \<Rightarrow> AckTally" where
  "releaseSeq recoveryStart t sq =
     (case buf_take (s_inFlight (ta_stream t)) sq of
        (None, _) \<Rightarrow> t
      | (Some e, rest) \<Rightarrow>
          let s = (ta_stream t)\<lparr>s_inFlight := rest\<rparr>;
              s = (if \<not> fl_lost e then s\<lparr>s_onTheWire := size_minus (s_onTheWire s) 1\<rparr> else s);
              t = t\<lparr>ta_stream := s, ta_largestAcked := max (ta_largestAcked t) (fl_transmission e),
                    ta_acked := ta_acked t + 1,
                    ta_counted := ta_counted t + (if fl_transmission e > recoveryStart then 1 else 0)\<rparr>
          in if fl_transmissions e = 1 \<and> (\<not> ta_hasSample t \<or> fl_sentAt e > ta_sampleSentAt t)
             then t\<lparr>ta_hasSample := True, ta_sampleSentAt := fl_sentAt e\<rparr> else t)"

text \<open>The seqs of a loop from \<open>lo\<close> up to and including \<open>hi\<close>.\<close>

definition seqsUpTo :: "u64 \<Rightarrow> u64 \<Rightarrow> u64 list" where
  "seqsUpTo lo hi = map of_nat [unat lo..<Suc (unat hi)]"

definition releaseRange :: "u64 \<Rightarrow> u64 \<Rightarrow> AckTally \<Rightarrow> SeqRange \<Rightarrow> AckTally" where
  "releaseRange recoveryStart lastSent t rg =
     (if rg_first rg > lastSent then t
      else foldl (releaseSeq recoveryStart) t
        (seqsUpTo (max (rg_first rg) (s_sendBase (ta_stream t))) (min (rangeLast rg) lastSent)))"

text \<open>The loop that moves \<open>sendBase\<close> behind everything that is acknowledged.\<close>

function advanceBase :: "InFlight SequenceBuffer \<Rightarrow> u64 \<Rightarrow> u64 \<Rightarrow> u64" where
  "advanceBase b base nextSeq =
     (if base < nextSeq \<and> \<not> buf_contains b base then advanceBase b (base + 1) nextSeq else base)"
  by pat_completeness auto
termination
  by (relation "measure (\<lambda>(b, base, nextSeq). unat nextSeq - unat base)")
    (auto simp: word_less_no_wrap word_less_nat_alt)

declare advanceBase.simps [simp del]

text \<open>
  \<open>handleAck\<close> in its three parts: the pause state, if the Ack is newer than the one it was taken from;
  the packets that are acknowledged; and what follows from that for the timers and the window.
\<close>

definition takeAckState :: "Lane \<Rightarrow> PacketHeader \<Rightarrow> AckBody \<Rightarrow> TimePoint \<Rightarrow> Link \<Rightarrow> Link" where
  "takeAckState la h ack now l =
     (case mStreams l la of None \<Rightarrow> l
      | Some s \<Rightarrow>
          if s_ackSerial s = None \<or> sint (ack_serial ack - the (s_ackSerial s)) > 0
          then let l = setStream la (s\<lparr>s_ackSerial := Some (ack_serial ack)\<rparr>) l;
                   l = l\<lparr>mStats := (mStats l)\<lparr>mediaReceivedByPeer := ucast (ack_mediaReceived ack)\<rparr>\<rparr>
               in setPeerPaused la (isPaused (flags h)) now l
          else l)"

definition releaseAcked :: "PacketHeader \<Rightarrow> AckBody \<Rightarrow> u64 \<Rightarrow> u64 \<Rightarrow> Stream \<Rightarrow> AckTally" where
  "releaseAcked h ack recoveryStart largestAcked s =
     (let t = \<lparr>ta_stream = s, ta_largestAcked = largestAcked, ta_acked = 0, ta_counted = 0,
               ta_hasSample = False, ta_sampleSentAt = 0\<rparr>;
          lastSent = s_nextSendSeq s - 1;
          t = foldl (releaseSeq recoveryStart) t (seqsUpTo (s_sendBase s) (min (seq h) lastSent));
          t = foldl (releaseRange recoveryStart lastSent) t (ack_ranges ack);
          s = ta_stream t
      in t\<lparr>ta_stream := s\<lparr>s_sendBase := advanceBase (s_inFlight s) (s_sendBase s) (s_nextSendSeq s)\<rparr>\<rparr>)"

definition settleAck :: "Lane \<Rightarrow> AckTally \<Rightarrow> TimePoint \<Rightarrow> Link \<Rightarrow> Link" where
  "settleAck la t now l =
     (let l = (if ta_acked t > 0
               then (if ta_hasSample t
                     then l\<lparr>mRtt := addSample (mRtt l) (duration_cast 1000 (now - ta_sampleSentAt t))\<rparr>
                     else l)\<lparr>mTimeoutsInARow := 0\<rparr>
               else l);
          (losses, l) = detectLosses l;
          l = updateProgressClock now (ta_acked t > 0) l
      in if sharesCongestionWindow la \<and> \<not> losses \<and> ta_counted t > 0 \<and> fixedCwnd (mTimings l) = 0
         then l\<lparr>mCongestionWindow :=
                  min (rnd (mCongestionWindow l + rnd (rnd (of_nat (ta_counted t)) / mCongestionWindow l)))
                      (of_nat MaxCongestionWindow)\<rparr>
         else l)"

definition handleAck :: "Lane \<Rightarrow> PacketHeader \<Rightarrow> bytes \<Rightarrow> TimePoint \<Rightarrow> Link \<Rightarrow> Link" where
  "handleAck la h body now l =
     (case the (decodeAck body) of None \<Rightarrow> l
      | Some ack \<Rightarrow>
          let l = takeAckState la h ack now l
          in case mStreams l la of None \<Rightarrow> l
             | Some s \<Rightarrow>
                 let t = releaseAcked h ack (mRecoveryStart l) (mLargestAcked l) s
                 in settleAck la t now ((setStream la (ta_stream t) l)\<lparr>mLargestAcked := ta_largestAcked t\<rparr>))"

definition onPacket :: "DecodedPacket \<Rightarrow> TimePoint \<Rightarrow> Link \<Rightarrow> Link option" where
  "onPacket p now l =
     (let h = pkt_header p in
      if mFailed l then Some l
      else if (dstStreamID h \<noteq> 0 \<and> dstStreamID h \<noteq> mLocalStreamID l) \<or>
              (mRemoteStreamID l \<noteq> None \<and> the (mRemoteStreamID l) \<noteq> srcStreamID h)
      then Some (bump staleDropped_update l)
      else let l = l\<lparr>mRemoteStreamID := Some (srcStreamID h)\<rparr>;
               l = (if mLastReceived l \<noteq> None then l\<lparr>mLastReceived := Some now\<rparr> else l);
               la = lane (flags h)
           in case kind (flags h) of
                Data \<Rightarrow> if la = Media then handleMedia h (pkt_body p) l else Some (handleData la h (pkt_body p) l)
              | Ack \<Rightarrow> Some (if mStreams l la \<noteq> None then handleAck la h (pkt_body p) now l else l)
              | Ping \<Rightarrow> Some (l\<lparr>mAckDue := mAckDue l OR bitOf la\<rparr>)
              | Beacon \<Rightarrow> Some l)"

definition setPaused :: "bool \<Rightarrow> Link \<Rightarrow> Link" where
  "setPaused paused l =
     (if mPaused l = paused then l
      else foldl (\<lambda>l la. if mStreams l la \<noteq> None then l\<lparr>mAckDue := mAckDue l OR bitOf la\<rparr> else l)
             (l\<lparr>mPaused := paused\<rparr>) [Reliable, Bulk])"


section \<open>Sending\<close>

text \<open>What waits in the reorder buffer, as ranges; the seq of the header names everything before.\<close>

definition makeAck :: "Lane \<Rightarrow> Link \<Rightarrow> OutgoingDatagram \<times> Link" where
  "makeAck la l =
     (let l = (if mStreams l la \<noteq> None then retryRefused la l else l);
          stream = mStreams l la;
          l = l\<lparr>mAckSerial := mAckSerial l + 1\<rparr>;
          waiting = (case stream of None \<Rightarrow> [] | Some s \<Rightarrow>
            if buf_empty (s_reorder s) then [] else toRanges (buf_seqs (s_reorder s)));
          ack = \<lparr>ack_serial = mAckSerial l, ack_mediaReceived = mMediaReceived l, ack_ranges = waiting\<rparr>;
          paused = ((mPaused l \<and> la \<noteq> Control) \<or> (case stream of None \<Rightarrow> False | Some s \<Rightarrow> s_budgetPaused s));
          sq = (case stream of None \<Rightarrow> 0 | Some s \<Rightarrow> s_nextExpected s - 1);
          d = (makeDatagram (makeHeader l (ackFlags la paused) sq))\<lparr>od_owned := the (encodeAck ack MaxAckRanges)\<rparr>
      in (d, bump acksSent_update l))"

text \<open>One round of the loop of \<open>peekAck\<close>: the Ack and the Ping of a lane, as far as they are due.\<close>

definition queueAcks :: "Link \<Rightarrow> Lane \<Rightarrow> Link" where
  "queueAcks l la =
     (let l = (if mAckDue l AND bitOf la \<noteq> 0
               then let (d, l) = makeAck la l in l\<lparr>mPendingAcks := mPendingAcks l @ [d]\<rparr> else l)
      in if mPingDue l AND bitOf la \<noteq> 0
         then bump pingsSent_update
           (l\<lparr>mPendingAcks := mPendingAcks l @ [makeDatagram (makeHeader l (pingFlags la) 0)]\<rparr>)
         else l)"

definition peekAck :: "Link \<Rightarrow> OutgoingDatagram option \<times> Link" where
  "peekAck l =
     (if mFailed l then (None, l)
      else let l = (if mPendingAcks l = []
                    then (foldl queueAcks l StreamLanes)\<lparr>mAckDue := 0, mPingDue := 0\<rparr> else l)
           in (if mPendingAcks l = [] then None else Some (hd (mPendingAcks l)), l))"

definition commitAck :: "Link \<Rightarrow> Link" where
  "commitAck l = (if mPendingAcks l \<noteq> [] then l\<lparr>mPendingAcks := tl (mPendingAcks l)\<rparr> else l)"

definition congestionWindowOpen :: "Lane \<Rightarrow> Link \<Rightarrow> bool" where
  "congestionWindowOpen la l \<longleftrightarrow>
     \<not> sharesCongestionWindow la \<or>
     (case mStreams l Reliable of None \<Rightarrow> 0 | Some s \<Rightarrow> s_onTheWire s) +
     (case mStreams l Bulk of None \<Rightarrow> 0 | Some s \<Rightarrow> s_onTheWire s) < nat \<lfloor>mCongestionWindow l\<rfloor>"

text \<open>The loop of \<open>nextLost\<close>: the entry it returns, and what is left of the list.\<close>

fun nextLostLoop :: "InFlight SequenceBuffer \<Rightarrow> u64 list \<Rightarrow> InFlight option \<times> u64 list" where
  "nextLostLoop b [] = (None, [])"
| "nextLostLoop b (sq # lost) =
     (case buf_find b sq of
        Some e \<Rightarrow> if fl_lost e then (Some e, sq # lost) else nextLostLoop b lost
      | None \<Rightarrow> nextLostLoop b lost)"

definition nextLost :: "Stream \<Rightarrow> InFlight option \<times> Stream" where
  "nextLost s = (let (e, lost) = nextLostLoop (s_inFlight s) (s_lost s) in (e, s\<lparr>s_lost := lost\<rparr>))"

definition cursorFor :: "OutboundMessage \<Rightarrow> FragmentCursor" where
  "cursorFor m = \<lparr>cur_message = m, cur_count = fragmentsOf (length (om_body m)), cur_next = 0\<rparr>"

definition fragmentAt :: "FragmentCursor \<Rightarrow> InFlight" where
  "fragmentAt c =
     (let body = om_body (cur_message c); offset = cur_next c * MaxFragmentBody
      in \<lparr>fl_message = body, fl_offset = of_nat offset,
          fl_length = of_nat (min MaxFragmentBody (size_minus (length body) offset)),
          fl_tag = om_tag (cur_message c), fl_totalLength = of_nat (length body),
          fl_fragIndex = of_nat (cur_next c), fl_fragCount = of_nat (cur_count c),
          fl_transmissions = 0, fl_lost = False, fl_sentAt = 0, fl_transmission = 0\<rparr>)"

definition headerOf :: "Link \<Rightarrow> Lane \<Rightarrow> u64 \<Rightarrow> InFlight \<Rightarrow> PacketHeader" where
  "headerOf l la sq e =
     (let h = (makeHeader l (dataFlags la) sq)\<lparr>tag := fl_tag e\<rparr>
      in if unat (fl_fragCount e) > 1
         then h\<lparr>flags := setFragment (flags h) True (unat (fl_fragIndex e) + 1 = unat (fl_fragCount e)),
                fragIndex := fl_fragIndex e, fragCount := fl_fragCount e, totalLength := fl_totalLength e\<rparr>
         else h)"

definition offer :: "PacketHeader \<Rightarrow> InFlight \<Rightarrow> Link \<Rightarrow> OutgoingDatagram \<times> Link" where
  "offer h e l =
     (let d = (makeDatagram h)\<lparr>od_message := Some (fl_message e), od_offset := fl_offset e, od_length := fl_length e\<rparr>
      in (d, l\<lparr>mPeeked := d\<rparr>))"

definition peekMedia ::
  "('s \<Rightarrow> Lane \<Rightarrow> OutboundMessage option \<times> 's) \<Rightarrow> 's \<Rightarrow> Link \<Rightarrow> OutgoingDatagram option \<times> 's \<times> Link" where
  "peekMedia next src l =
     (let (cursor, src) = (case mMediaCursor l of Some c \<Rightarrow> (Some c, src)
        | None \<Rightarrow> (case next src Media of (None, src) \<Rightarrow> (None, src) | (Some m, src) \<Rightarrow> (Some (cursorFor m), src)))
      in case cursor of None \<Rightarrow> (None, src, l)
         | Some c \<Rightarrow>
             let l = l\<lparr>mMediaCursor := Some c\<rparr>; e = fragmentAt c;
                 (d, l) = offer (headerOf l Media (mNextMediaSeq l) e) e l
             in (Some d, src, l))"

text \<open>The end of \<open>peek\<close>, for a stream without lost packets: the next fragment, or the next message.\<close>

definition peekFragment ::
  "('s \<Rightarrow> Lane \<Rightarrow> OutboundMessage option \<times> 's) \<Rightarrow> Lane \<Rightarrow> 's \<Rightarrow> Link \<Rightarrow> OutgoingDatagram option \<times> 's \<times> Link" where
  "peekFragment next la src l =
     (let (ready, src, l) =
        (case mStreams l la of
           Some s \<Rightarrow> if s_cursor s \<noteq> None then (True, src, l)
             else (case next src la of (None, src) \<Rightarrow> (False, src, l)
                   | (Some m, src) \<Rightarrow> (True, src, setStream la (s\<lparr>s_cursor := Some (cursorFor m)\<rparr>) l))
         | None \<Rightarrow> (case next src la of (None, src) \<Rightarrow> (False, src, l)
                   | (Some m, src) \<Rightarrow>
                       let (s, l) = streamFor la l
                       in (True, src, setStream la (s\<lparr>s_cursor := Some (cursorFor m)\<rparr>) l)))
      in if \<not> ready then (None, src, l)
         else let s = the (mStreams l la); e = fragmentAt (the (s_cursor s));
                  (d, l) = offer (headerOf l la (s_nextSendSeq s) e) e l
              in (Some d, src, l))"

definition peek ::
  "('s \<Rightarrow> Lane \<Rightarrow> OutboundMessage option \<times> 's) \<Rightarrow> Lane \<Rightarrow> 's \<Rightarrow> Link \<Rightarrow> OutgoingDatagram option \<times> 's \<times> Link" where
  "peek next la src l =
     (if mFailed l then (None, src, l)
      else if la = Media then peekMedia next src l
      else case mStreams l la of
        None \<Rightarrow> if \<not> congestionWindowOpen la l then (None, src, l) else peekFragment next la src l
      | Some s \<Rightarrow>
          let (lost, s) = nextLost s; l = setStream la s l
          in if lost = None \<and> unat (s_nextSendSeq s - s_sendBase s) \<ge> capacity (s_inFlight s) then (None, src, l)
             else if s_peerPaused s then (None, src, l)
             else if \<not> congestionWindowOpen la l then (None, src, l)
             else case lost of
               Some e \<Rightarrow> let (d, l) = offer (headerOf l la (hd (s_lost s)) e) e l in (Some d, src, l)
             | None \<Rightarrow> peekFragment next la src l)"

definition transmit :: "Lane \<Rightarrow> u64 \<Rightarrow> TimePoint \<Rightarrow> Link \<Rightarrow> Link" where
  "transmit la sq now l =
     (let s = the (mStreams l la); e = the (buf_find (s_inFlight s) sq);
          l = (if fl_transmissions e = 0 then bump dataSent_update l else bump retransmissions_update l);
          l = l\<lparr>mTransmissions := mTransmissions l + 1\<rparr>;
          e = e\<lparr>fl_lost := False, fl_sentAt := now, fl_transmission := mTransmissions l,
                fl_transmissions := fl_transmissions e + 1\<rparr>;
          s = s\<lparr>s_inFlight := buf_update (s_inFlight s) sq (\<lambda>_. e), s_onTheWire := s_onTheWire s + 1\<rparr>;
          l = setStream la s l;
          l = (if fl_transmissions e = 1 \<and> la \<noteq> Control
               then l\<lparr>mStats := bytesSent_update (\<lambda>n. n + ucast (fl_length e)) (mStats l)\<rparr> else l);
          l = l\<lparr>mSent := mSent l @ [\<lparr>sr_transmission = fl_transmission e, sr_seq = sq, sr_lane = la\<rparr>]\<rparr>
      in updateProgressClock now False l)"

definition advanceCursor :: "FragmentCursor \<Rightarrow> FragmentCursor option" where
  "advanceCursor c = (if cur_next c + 1 \<ge> cur_count c then None else Some (c\<lparr>cur_next := cur_next c + 1\<rparr>))"

definition commit :: "Lane \<Rightarrow> TimePoint \<Rightarrow> Link \<Rightarrow> Link" where
  "commit la now l =
     (if la = Media
      then case mMediaCursor l of None \<Rightarrow> l
           | Some c \<Rightarrow>
               let l = bump mediaSent_update (l\<lparr>mNextMediaSeq := mNextMediaSeq l + 1\<rparr>);
                   l = l\<lparr>mStats := bytesSent_update (\<lambda>n. n + ucast (od_length (mPeeked l))) (mStats l)\<rparr>
               in l\<lparr>mMediaCursor := advanceCursor c\<rparr>
      else case mStreams l la of None \<Rightarrow> l
      | Some s \<Rightarrow>
          let (lost, s) = nextLost s
          in case lost of
               Some _ \<Rightarrow> transmit la (hd (s_lost s)) now (setStream la (s\<lparr>s_lost := tl (s_lost s)\<rparr>) l)
             | None \<Rightarrow>
                 (case s_cursor s of None \<Rightarrow> setStream la s l
                  | Some c \<Rightarrow>
                      let sq = s_nextSendSeq s;
                          s = s\<lparr>s_nextSendSeq := sq + 1, s_inFlight := buf_insert (s_inFlight s) sq (fragmentAt c),
                                s_cursor := advanceCursor c\<rparr>
                      in transmit la sq now (setStream la s l)))"


section \<open>Timers\<close>

text \<open>The loop of \<open>onTimer\<close> over the records that are left in \<open>mSent\<close>; the timeout is in microseconds.\<close>

fun timeoutLoop :: "SentRecord list \<Rightarrow> TimePoint \<Rightarrow> int \<Rightarrow> bool \<Rightarrow> Link \<Rightarrow> bool \<times> Link" where
  "timeoutLoop [] now timeout expired l = (expired, l\<lparr>mSent := []\<rparr>)"
| "timeoutLoop (r # rs) now timeout expired l =
     (let l = bump timerWork_update l
      in case entryOf r l of
           Some e \<Rightarrow> if now < fl_sentAt e + microseconds timeout then (expired, l\<lparr>mSent := r # rs\<rparr>)
                     else timeoutLoop rs now timeout True (markLost r e True (l\<lparr>mSent := rs\<rparr>))
         | None \<Rightarrow> timeoutLoop rs now timeout expired (l\<lparr>mSent := rs\<rparr>))"

text \<open>The loop of \<open>onTimer\<close> over the lanes: the remote of a paused lane is asked again.\<close>

definition probePaused :: "TimePoint \<Rightarrow> Link \<Rightarrow> Lane \<Rightarrow> Link" where
  "probePaused now l la =
     (case mStreams l la of None \<Rightarrow> l
      | Some s \<Rightarrow>
          (case s_probeAt s of
             Some tp \<Rightarrow>
               if s_peerPaused s \<and> now \<ge> tp
               then let interval = min (s_probeInterval s * 2) (maxRto (mTimings l))
                    in setStream la (s\<lparr>s_probeInterval := interval, s_probeAt := Some (now + milliseconds interval)\<rparr>)
                         (l\<lparr>mPingDue := mPingDue l OR bitOf la\<rparr>)
               else l
           | None \<Rightarrow> l))"

definition overdue :: "TimePoint \<Rightarrow> Link \<Rightarrow> bool" where
  "overdue now l \<longleftrightarrow>
     (case mStalledSince l of None \<Rightarrow> False | Some since \<Rightarrow> now - since \<ge> milliseconds (peerTimeout (mTimings l))) \<or>
     (case mLastReceived l of None \<Rightarrow> False | Some tp \<Rightarrow> now - tp \<ge> milliseconds (peerTimeout (mTimings l)))"

definition onTimer :: "TimePoint \<Rightarrow> Link \<Rightarrow> Link" where
  "onTimer now l =
     (if mFailed l then l
      else if overdue now l then linkFail l
      else let l = (case mLastReceived l of None \<Rightarrow> l
                    | Some tp \<Rightarrow>
                        if mRemoteStreamID l \<noteq> None \<and>
                           now - max tp (mPingedAt l) \<ge> milliseconds (keepAlive (mTimings l))
                        then l\<lparr>mPingDue := mPingDue l OR bitOf Control, mPingedAt := now\<rparr> else l);
               (expired, l) = timeoutLoop (mSent l) now (timeoutFor (mRtt l) (mTimeoutsInARow l)) False l;
               l = (if expired \<and> mTimeoutsInARow l < MaxBackoffSteps
                    then l\<lparr>mTimeoutsInARow := mTimeoutsInARow l + 1\<rparr> else l)
           in foldl (probePaused now) l StreamLanes)"

text \<open>\<open>nextDeadline\<close>: the earliest of the times it considers.\<close>

definition consider_time :: "TimePoint option \<Rightarrow> TimePoint \<Rightarrow> TimePoint option" where
  "consider_time earliest tp =
     (case earliest of None \<Rightarrow> Some tp | Some e \<Rightarrow> if tp < e then Some tp else Some e)"

definition deadlines :: "Link \<Rightarrow> TimePoint list" where
  "deadlines l =
     (case mSent l of [] \<Rightarrow> []
      | r # _ \<Rightarrow> (case mStreams l (sr_lane r) of None \<Rightarrow> []
          | Some s \<Rightarrow> (case buf_find (s_inFlight s) (sr_seq r) of None \<Rightarrow> []
              | Some e \<Rightarrow> [fl_sentAt e + microseconds (timeoutFor (mRtt l) (mTimeoutsInARow l))]))) @
     (case mStalledSince l of None \<Rightarrow> [] | Some since \<Rightarrow> [since + milliseconds (peerTimeout (mTimings l))]) @
     (case mLastReceived l of None \<Rightarrow> []
      | Some tp \<Rightarrow> (tp + milliseconds (peerTimeout (mTimings l))) #
          (if mRemoteStreamID l \<noteq> None then [max tp (mPingedAt l) + milliseconds (keepAlive (mTimings l))] else [])) @
     concat (map (\<lambda>la. case mStreams l la of None \<Rightarrow> []
       | Some s \<Rightarrow> if \<not> s_peerPaused s then [] else (case s_probeAt s of None \<Rightarrow> [] | Some tp \<Rightarrow> [tp])) StreamLanes)"

definition nextDeadline :: "Link \<Rightarrow> TimePoint option" where
  "nextDeadline l = foldl consider_time None (deadlines l)"

end
