(* ===== verification/LinkFrames.thy ===== *)
theory LinkFrames
  imports ReliableLink
begin

text \<open>
  What the operations of a link leave alone. The state of a stream has a send side and a receive side,
  and most operations work on one of them: \<open>same_send\<close> and \<open>same_recv\<close> relate the links before and
  after an operation that keeps one of the sides. \<open>send_kept\<close> is what loss detection and
  acknowledgements keep of the send side: entries of the window go, or change their bookkeeping, but
  the fragment an entry carries stays.
\<close>

section \<open>The three relations\<close>

definition send_side ::
  "Stream \<Rightarrow> FragmentCursor option \<times> InFlight SequenceBuffer \<times> u64 list \<times> u64 \<times> u64 \<times> nat \<times> bool \<times>
     u32 option \<times> TimePoint option \<times> int" where
  "send_side s =
     (s_cursor s, s_inFlight s, s_lost s, s_nextSendSeq s, s_sendBase s, s_onTheWire s, s_peerPaused s,
      s_ackSerial s, s_probeAt s, s_probeInterval s)"

definition recv_side :: "Stream \<Rightarrow> BufferedData SequenceBuffer \<times> u64 \<times> bool \<times> u32 \<times> MessageAssembler" where
  "recv_side s = (s_reorder s, s_nextExpected s, s_budgetPaused s, s_refusedLength s, s_assembler s)"

text \<open>A stream that an operation found or created, as far as \<open>view\<close> sees it.\<close>

definition same_view :: "(Stream \<Rightarrow> 'v) \<Rightarrow> Lane \<Rightarrow> Stream option \<Rightarrow> Stream option \<Rightarrow> bool" where
  "same_view view la before after \<longleftrightarrow>
     map_option view after = map_option view before \<or>
     (before = None \<and> la \<noteq> Media \<and> map_option view after = Some (view (newStream (windowOf la))))"

definition same_send :: "Link \<Rightarrow> Link \<Rightarrow> bool" where
  "same_send l l' \<longleftrightarrow>
     (\<forall>la. same_view send_side la (mStreams l la) (mStreams l' la)) \<and>
     mMediaCursor l' = mMediaCursor l \<and> mNextMediaSeq l' = mNextMediaSeq l \<and> mSent l' = mSent l \<and>
     mTransmissions l' = mTransmissions l \<and> mLargestAcked l' = mLargestAcked l \<and>
     mStalledSince l' = mStalledSince l \<and> mTimeoutsInARow l' = mTimeoutsInARow l \<and>
     mCongestionWindow l' = mCongestionWindow l \<and> mRecoveryStart l' = mRecoveryStart l \<and>
     mTimings l' = mTimings l \<and> mRtt l' = mRtt l \<and> mLocalStreamID l' = mLocalStreamID l \<and> mFailed l' = mFailed l"

definition same_recv :: "Link \<Rightarrow> Link \<Rightarrow> bool" where
  "same_recv l l' \<longleftrightarrow>
     (\<forall>la. same_view recv_side la (mStreams l la) (mStreams l' la)) \<and>
     mMediaAssembler l' = mMediaAssembler l \<and> mBudget l' = mBudget l \<and> mDelivered l' = mDelivered l \<and>
     mLocalStreamID l' = mLocalStreamID l \<and> mFailed l' = mFailed l"

definition same_fragment :: "InFlight \<Rightarrow> InFlight \<Rightarrow> bool" where
  "same_fragment e e' \<longleftrightarrow>
     fl_message e' = fl_message e \<and> fl_offset e' = fl_offset e \<and> fl_length e' = fl_length e \<and>
     fl_tag e' = fl_tag e \<and> fl_totalLength e' = fl_totalLength e \<and> fl_fragIndex e' = fl_fragIndex e \<and>
     fl_fragCount e' = fl_fragCount e"

definition window_kept :: "nat \<Rightarrow> Stream \<Rightarrow> Stream \<Rightarrow> bool" where
  "window_kept c s s' \<longleftrightarrow>
     s_cursor s' = s_cursor s \<and> s_nextSendSeq s' = s_nextSendSeq s \<and>
     (buf_ok c (s_inFlight s) \<longrightarrow> buf_ok c (s_inFlight s') \<and>
       (\<forall>k e'. buf_find (s_inFlight s') k = Some e' \<longrightarrow> (\<exists>e. buf_find (s_inFlight s) k = Some e \<and> same_fragment e e')))"

definition stream_kept :: "Lane \<Rightarrow> Stream option \<Rightarrow> Stream option \<Rightarrow> bool" where
  "stream_kept la before after \<longleftrightarrow> rel_option (window_kept (windowOf la)) before after"

definition send_kept :: "Link \<Rightarrow> Link \<Rightarrow> bool" where
  "send_kept l l' \<longleftrightarrow>
     (\<forall>la. stream_kept la (mStreams l la) (mStreams l' la)) \<and>
     mMediaCursor l' = mMediaCursor l \<and> mNextMediaSeq l' = mNextMediaSeq l \<and>
     mLocalStreamID l' = mLocalStreamID l \<and> mFailed l' = mFailed l"

lemma same_view_refl [simp]: "same_view view la st st"
  by (simp add: same_view_def)

lemma same_view_trans: "same_view view la a b \<Longrightarrow> same_view view la b c \<Longrightarrow> same_view view la a c"
  by (auto simp: same_view_def)

lemma same_send_refl [simp]: "same_send l l"
  by (simp add: same_send_def)

lemma same_recv_refl [simp]: "same_recv l l"
  by (simp add: same_recv_def)

lemma same_fragment_refl [simp]: "same_fragment e e"
  by (simp add: same_fragment_def)

lemma window_kept_refl [simp]: "window_kept c s s"
  by (auto simp: window_kept_def)

lemma stream_kept_refl [simp]: "stream_kept la st st"
  by (cases st) (simp_all add: stream_kept_def)

lemma send_kept_refl [simp]: "send_kept l l"
  by (simp add: send_kept_def)

lemma same_send_trans: "same_send a b \<Longrightarrow> same_send b c \<Longrightarrow> same_send a c"
  unfolding same_send_def by (auto intro: same_view_trans)

lemma same_recv_trans: "same_recv a b \<Longrightarrow> same_recv b c \<Longrightarrow> same_recv a c"
  unfolding same_recv_def by (auto intro: same_view_trans)

lemma same_fragment_trans: "same_fragment a b \<Longrightarrow> same_fragment b c \<Longrightarrow> same_fragment a c"
  by (simp add: same_fragment_def)

lemma window_kept_trans:
  assumes a: "window_kept c s s'" and b: "window_kept c s' s''"
  shows "window_kept c s s''"
proof -
  have "\<exists>e. buf_find (s_inFlight s) k = Some e \<and> same_fragment e e''"
    if ok: "buf_ok c (s_inFlight s)" and find: "buf_find (s_inFlight s'') k = Some e''" for k e''
  proof -
    have "buf_ok c (s_inFlight s')"
      using a ok by (simp add: window_kept_def)
    then obtain e' where "buf_find (s_inFlight s') k = Some e'" "same_fragment e' e''"
      using b find by (auto simp: window_kept_def)
    moreover then obtain e where "buf_find (s_inFlight s) k = Some e" "same_fragment e e'"
      using a ok by (auto simp: window_kept_def)
    ultimately show ?thesis
      using same_fragment_trans by blast
  qed
  then show ?thesis
    using a b by (simp add: window_kept_def)
qed

lemma stream_kept_trans: "stream_kept la a b \<Longrightarrow> stream_kept la b c \<Longrightarrow> stream_kept la a c"
  by (cases a; cases b; cases c) (auto simp: stream_kept_def intro: window_kept_trans)

lemma send_kept_trans: "send_kept a b \<Longrightarrow> send_kept b c \<Longrightarrow> send_kept a c"
  unfolding send_kept_def by (auto intro: stream_kept_trans)



section \<open>Loops keep what their rounds keep\<close>

text \<open>
  A relation between the links before and after an operation that can be composed. The loops of the
  code, over lanes and over the records of what was sent, are in it when each of their rounds is.
\<close>

locale link_preorder =
  fixes rel :: "Link \<Rightarrow> Link \<Rightarrow> bool"
  assumes rel_refl: "rel l l"
    and rel_trans: "rel a b \<Longrightarrow> rel b c \<Longrightarrow> rel a c"
begin

lemma rel_foldl:
  assumes "\<And>l x. x \<in> set xs \<Longrightarrow> rel l (f l x)"
  shows "rel l (foldl f l xs)"
  using assms
proof (induction xs arbitrary: l)
  case Nil
  then show ?case by (simp add: rel_refl)
next
  case (Cons x xs)
  have "rel l (f l x)" "rel (f l x) (foldl f (f l x) xs)"
    using Cons by simp_all
  then show ?case
    using rel_trans by simp
qed

end

locale loss_frame = link_preorder +
  assumes rel_sent: "rel l (l\<lparr>mSent := sent\<rparr>)"
    and rel_stats: "rel l (l\<lparr>mStats := stats\<rparr>)"
    and rel_markLost: "entryOf r l = Some e \<Longrightarrow> rel l (markLost r e timedOut l)"
begin

lemma rel_detectLoop: "rel l (snd (detectLoop rs lost l))"
proof (induction rs arbitrary: lost l)
  case Nil
  then show ?case by (simp add: rel_sent)
next
  case (Cons r rs)
  let ?l = "l\<lparr>mSent := rs\<rparr>"
  have entry: "entryOf r ?l = entryOf r l"
    by (simp add: entryOf_def)
  have step: "rel l (snd (detectLoop rs lost' l'))" if "rel ?l l'" for lost' l'
    using rel_trans [OF rel_sent rel_trans [OF that Cons.IH]] .
  show ?case
    using step [OF rel_refl] step [OF rel_markLost] entry rel_sent by (simp split: option.splits)
qed

lemma rel_detectLosses: "rel l (snd (detectLosses l))"
  by (simp add: detectLosses_def rel_detectLoop)

lemma rel_timeoutLoop: "rel l (snd (timeoutLoop rs now timeout expired l))"
proof (induction rs arbitrary: expired l)
  case Nil
  then show ?case by (simp add: rel_sent)
next
  case (Cons r rs)
  let ?b = "bump timerWork_update l"
  let ?l = "?b\<lparr>mSent := rs\<rparr>"
  have entry: "entryOf r ?b = entryOf r ?l"
    by (simp add: entryOf_def)
  have start: "rel l ?l" "rel l (?b\<lparr>mSent := r # rs\<rparr>)"
    using rel_trans [OF rel_stats rel_sent] by blast+
  have step: "rel l (snd (timeoutLoop rs now timeout expired' l'))" if "rel ?l l'" for expired' l'
    using rel_trans [OF start(1) rel_trans [OF that Cons.IH]] .
  show ?case
    using step [OF rel_refl] step [OF rel_markLost] entry start(2)
    by (auto simp: Let_def simp del: fun_upd_apply split: option.splits)
qed

end


section \<open>Setting one stream\<close>

lemma mStreams_setStream [simp]: "mStreams (setStream la s l) = (mStreams l)(la := Some s)"
  by (simp add: setStream_def)

lemma setStream_fields [simp]:
  "mTimings (setStream la s l) = mTimings l" "mLocalStreamID (setStream la s l) = mLocalStreamID l"
  "mRemoteStreamID (setStream la s l) = mRemoteStreamID l" "mRtt (setStream la s l) = mRtt l"
  "mBudget (setStream la s l) = mBudget l" "mMediaCursor (setStream la s l) = mMediaCursor l"
  "mNextMediaSeq (setStream la s l) = mNextMediaSeq l" "mMediaAssembler (setStream la s l) = mMediaAssembler l"
  "mMediaReceived (setStream la s l) = mMediaReceived l" "mSent (setStream la s l) = mSent l"
  "mTransmissions (setStream la s l) = mTransmissions l" "mLargestAcked (setStream la s l) = mLargestAcked l"
  "mStalledSince (setStream la s l) = mStalledSince l" "mLastReceived (setStream la s l) = mLastReceived l"
  "mPingedAt (setStream la s l) = mPingedAt l" "mTimeoutsInARow (setStream la s l) = mTimeoutsInARow l"
  "mCongestionWindow (setStream la s l) = mCongestionWindow l" "mRecoveryStart (setStream la s l) = mRecoveryStart l"
  "mPaused (setStream la s l) = mPaused l" "mAckDue (setStream la s l) = mAckDue l"
  "mPingDue (setStream la s l) = mPingDue l" "mPendingAcks (setStream la s l) = mPendingAcks l"
  "mPeeked (setStream la s l) = mPeeked l" "mDelivered (setStream la s l) = mDelivered l"
  "mFailed (setStream la s l) = mFailed l" "mStats (setStream la s l) = mStats l" "mAckSerial (setStream la s l) = mAckSerial l"
  by (simp_all add: setStream_def)

lemma same_send_setStream:
  assumes "mStreams l la = Some s" and "send_side s' = send_side s"
  shows "same_send l (setStream la s' l)"
  using assms by (simp add: same_send_def same_view_def)

lemma same_recv_setStream:
  assumes "mStreams l la = Some s" and "recv_side s' = recv_side s"
  shows "same_recv l (setStream la s' l)"
  using assms by (simp add: same_recv_def same_view_def)

lemma send_kept_setStream:
  assumes "mStreams l la = Some s" and "window_kept (windowOf la) s s'"
  shows "send_kept l (setStream la s' l)"
  using assms by (simp add: send_kept_def stream_kept_def option.rel_refl)


section \<open>Receiving keeps the send side\<close>

interpretation send: link_preorder same_send
  by unfold_locales (simp, rule same_send_trans)

lemma same_send_streamFor: "la \<noteq> Media \<Longrightarrow> same_send l (snd (streamFor la l))"
  by (auto simp: streamFor_def same_send_def same_view_def Let_def split: option.splits)

lemma same_send_acceptInOrder: "same_send l (snd (acceptInOrder la h body l))"
  by (auto simp: acceptInOrder_def same_send_def same_view_def send_side_def Let_def split: option.splits prod.splits)

lemma same_send_drainLoop: "same_send l (drainLoop n la l)"
proof (induction n arbitrary: l)
  case (Suc n)
  show ?case
  proof (cases "mStreams l la")
    case (Some s)
    show ?thesis
    proof (cases "buf_find (s_reorder s) (s_nextExpected s)")
      case found: (Some b)
      obtain taken l1 where acc: "acceptInOrder la (bd_header b) (bd_body b) l = (taken, l1)"
        by (cases "acceptInOrder la (bd_header b) (bd_body b) l")
      then have l1: "same_send l l1"
        using same_send_acceptInOrder [of l la "bd_header b" "bd_body b"] by simp
      let ?l2 = "case mStreams l1 la of None \<Rightarrow> l1
        | Some s \<Rightarrow> setStream la (s\<lparr>s_reorder := snd (buf_erase (s_reorder s) (s_nextExpected s)),
                                   s_nextExpected := s_nextExpected s + 1\<rparr>) l1"
      have "same_send l1 ?l2"
        by (cases "mStreams l1 la") (simp_all add: same_send_setStream send_side_def)
      then show ?thesis
        using l1 Suc.IH [of ?l2] Some found acc by (auto intro: same_send_trans)
    qed (simp add: Some)
  qed simp
qed simp

lemma same_send_drain: "same_send l (drainReorderBuffer la l)"
  by (simp add: drainReorderBuffer_def same_send_drainLoop split: option.splits)

lemma same_send_ackDue: "same_send l l' \<Longrightarrow> same_send l (l'\<lparr>mAckDue := x\<rparr>)"
  by (simp add: same_send_def)

lemma same_send_retryRefused: "same_send l (retryRefused la l)"
proof (cases "mStreams l la")
  case (Some s)
  have "same_send l (setStream la (s\<lparr>s_budgetPaused := False\<rparr>) l)"
    using Some by (simp add: same_send_setStream send_side_def)
  then have "same_send l (drainReorderBuffer la (setStream la (s\<lparr>s_budgetPaused := False\<rparr>) l))"
    using same_send_drain same_send_trans by blast
  then show ?thesis
    using Some by (simp add: retryRefused_def Let_def same_send_ackDue)
qed (simp add: retryRefused_def)


lemma same_send_handleData:
  assumes "la \<noteq> Media"
  shows "same_send l (handleData la h body l)"
proof -
  define l1 where "l1 = retryRefused la (snd (streamFor la l))"
  have l1: "same_send l l1"
    unfolding l1_def using same_send_streamFor [OF assms] same_send_retryRefused same_send_trans by blast
  have "same_send l1 (handleData la h body l)"
  proof (cases "mStreams l1 la")
    case None
    then show ?thesis
      by (simp add: handleData_def Let_def flip: l1_def)
  next
    case (Some s)
    let ?l2 = "l1\<lparr>mAckDue := mAckDue l1 OR bitOf la\<rparr>"
    obtain taken l3 where acc: "acceptInOrder la h body ?l2 = (taken, l3)"
      by (cases "acceptInOrder la h body ?l2")
    then have l3: "same_send ?l2 l3"
      using same_send_acceptInOrder [of ?l2 la h body] by simp
    let ?l4 = "case mStreams l3 la of None \<Rightarrow> l3 | Some s \<Rightarrow> setStream la (s\<lparr>s_nextExpected := s_nextExpected s + 1\<rparr>) l3"
    have "same_send l3 ?l4"
      by (cases "mStreams l3 la") (simp_all add: same_send_setStream send_side_def)
    then have l5: "same_send ?l2 (drainReorderBuffer la ?l4)"
      using l3 same_send_drain same_send_trans by blast
    have ins: "same_send ?l2 (setStream la (s\<lparr>s_reorder := b\<rparr>) ?l2)" for b
      using Some by (intro same_send_setStream) (simp_all add: send_side_def)
    have due: "same_send l1 ?l2"
      by (simp add: same_send_def)
    have bumps: "same_send l1 (bump f l1)" "same_send l1 (bump f ?l2)" for f
      by (simp_all add: same_send_def)
    show ?thesis
      using Some l3 l5 ins same_send_trans [OF due] bumps
      by (auto simp: handleData_def Let_def acc simp flip: l1_def split: prod.splits)
  qed
  then show ?thesis
    using l1 same_send_trans by blast
qed

lemma same_send_handleMedia: "handleMedia h body l = Some l' \<Longrightarrow> same_send l l'"
  by (auto simp: handleMedia_def same_send_def Let_def split: bind_splits option.splits)

lemma same_send_makeAck: "same_send l (snd (makeAck la l))"
proof -
  let ?l = "if mStreams l la \<noteq> None then retryRefused la l else l"
  have "same_send l ?l"
    by (simp add: same_send_retryRefused)
  moreover have "same_send ?l (snd (makeAck la l))"
    by (simp add: makeAck_def Let_def same_send_def)
  ultimately show ?thesis
    using same_send_trans by blast
qed

lemma same_send_queueAcks: "same_send l (queueAcks l la)"
proof -
  have "same_send l ((snd (makeAck la l))\<lparr>mPendingAcks := x\<rparr>)" for x
    using same_send_makeAck [of l la] by (simp add: same_send_def)
  then show ?thesis
    by (auto simp: queueAcks_def Let_def same_send_def split: prod.splits)
qed

lemma same_send_peekAck: "same_send l (snd (peekAck l))"
proof -
  have "same_send l (foldl queueAcks l StreamLanes)"
    by (rule send.rel_foldl [OF same_send_queueAcks])
  then show ?thesis
    by (auto simp: peekAck_def Let_def same_send_def)
qed

lemma same_send_commitAck: "same_send l (commitAck l)"
  by (simp add: commitAck_def same_send_def)

lemma same_send_setPaused: "same_send l (setPaused p l)"
  by (auto simp: setPaused_def same_send_def)

lemma same_send_takeDelivered: "same_send l (snd (takeDelivered l))"
  by (simp add: takeDelivered_def same_send_def)

lemma same_send_supervise: "same_send l (supervise now l)"
  by (simp add: supervise_def same_send_def)


section \<open>Sending keeps the receive side\<close>

lemma same_recv_updateProgressClock: "same_recv l (updateProgressClock now p l)"
  by (simp add: updateProgressClock_def Let_def same_recv_def)

lemma same_recv_markLost: "same_recv l (markLost r e t l)"
  by (auto simp: markLost_def Let_def same_recv_def same_view_def recv_side_def split: option.splits)

interpretation recv: loss_frame same_recv
  by unfold_locales (simp_all add: same_recv_markLost, rule same_recv_trans, assumption+, simp_all add: same_recv_def)

lemma same_recv_setPeerPaused: "same_recv l (setPeerPaused la p now l)"
proof (cases "mStreams l la")
  case (Some s)
  let ?s = "s\<lparr>s_peerPaused := p, s_probeAt := None\<rparr>"
  let ?i = "max (duration_cast 1000 (rtt_rto (mRtt l))) MinPauseProbeInterval"
  let ?t = "if p then ?s\<lparr>s_probeInterval := ?i, s_probeAt := Some (now + milliseconds ?i)\<rparr> else ?s"
  have "same_recv l (setStream la ?t l)"
    by (rule same_recv_setStream [OF Some]) (simp add: recv_side_def)
  then have "same_recv l (updateProgressClock now False (setStream la ?t l))"
    using same_recv_updateProgressClock same_recv_trans by blast
  then show ?thesis
    using Some by (auto simp: setPeerPaused_def Let_def)
qed (simp add: setPeerPaused_def)


lemma same_recv_takeAckState: "same_recv l (takeAckState la h ack now l)"
proof (cases "mStreams l la")
  case (Some s)
  have "same_recv l ((setStream la (s\<lparr>s_ackSerial := x\<rparr>) l)\<lparr>mStats := y\<rparr>)" for x y
    using Some by (simp add: same_recv_def same_view_def recv_side_def)
  then show ?thesis
    using Some same_recv_setPeerPaused same_recv_trans by (simp add: takeAckState_def Let_def) blast
qed (simp add: takeAckState_def)

text \<open>Releasing a packet changes the window and what is counted, nothing else of the stream.\<close>

lemma releaseSeq_stream [simp]:
  "recv_side (ta_stream (releaseSeq rs t sq)) = recv_side (ta_stream t)"
  "s_nextSendSeq (ta_stream (releaseSeq rs t sq)) = s_nextSendSeq (ta_stream t)"
  "s_sendBase (ta_stream (releaseSeq rs t sq)) = s_sendBase (ta_stream t)"
  "s_cursor (ta_stream (releaseSeq rs t sq)) = s_cursor (ta_stream t)"
  "s_lost (ta_stream (releaseSeq rs t sq)) = s_lost (ta_stream t)"
  by (auto simp: releaseSeq_def recv_side_def Let_def split: prod.splits option.splits)

text \<open>What every release keeps, an Ack keeps.\<close>

lemma releaseRange_invariant:
  assumes "P t" and "\<And>t sq. P t \<Longrightarrow> P (releaseSeq rs t sq)"
  shows "P (releaseRange rs lastSent t rg)"
  using assms by (simp add: releaseRange_def) (blast intro: foldl_invariant)

lemma releases_invariant:
  assumes "P t" and "\<And>t sq. P t \<Longrightarrow> P (releaseSeq rs t sq)"
  shows "P (foldl (releaseRange rs lastSent) (foldl (releaseSeq rs) t sqs) rgs)"
  using assms by (intro foldl_invariant [where P = P]) (blast intro: foldl_invariant releaseRange_invariant)+

definition emptyTally :: "Stream \<Rightarrow> u64 \<Rightarrow> AckTally" where
  "emptyTally s largest =
     \<lparr>ta_stream = s, ta_largestAcked = largest, ta_acked = 0, ta_counted = 0, ta_hasSample = False, ta_sampleSentAt = 0\<rparr>"

text \<open>The releases of an Ack, before \<open>sendBase\<close> moves on.\<close>

definition released :: "PacketHeader \<Rightarrow> AckBody \<Rightarrow> u64 \<Rightarrow> u64 \<Rightarrow> Stream \<Rightarrow> AckTally" where
  "released h ack rs largest s =
     foldl (releaseRange rs (s_nextSendSeq s - 1))
       (foldl (releaseSeq rs) (emptyTally s largest) (seqsUpTo (s_sendBase s) (min (seq h) (s_nextSendSeq s - 1))))
       (ack_ranges ack)"

lemma released_invariant:
  assumes "P (emptyTally s largest)" and "\<And>t sq. P t \<Longrightarrow> P (releaseSeq rs t sq)"
  shows "P (released h ack rs largest s)"
  unfolding released_def using assms by (rule releases_invariant)

lemma released_stream [simp]:
  "recv_side (ta_stream (released h ack rs largest s)) = recv_side s"
  "s_nextSendSeq (ta_stream (released h ack rs largest s)) = s_nextSendSeq s"
  "s_sendBase (ta_stream (released h ack rs largest s)) = s_sendBase s"
  "s_cursor (ta_stream (released h ack rs largest s)) = s_cursor s"
  "s_lost (ta_stream (released h ack rs largest s)) = s_lost s"
  by (rule released_invariant; simp add: emptyTally_def)+

lemma releaseAcked_eq:
  "releaseAcked h ack rs largest s =
     (let t = released h ack rs largest s
      in t\<lparr>ta_stream := (ta_stream t)\<lparr>s_sendBase := advanceBase (s_inFlight (ta_stream t)) (s_sendBase s) (s_nextSendSeq s)\<rparr>\<rparr>)"
  using released_stream(2,3) [of h ack rs largest s]
  by (simp add: releaseAcked_def released_def emptyTally_def Let_def)

lemma recv_side_releaseAcked [simp]: "recv_side (ta_stream (releaseAcked h ack rs largest s)) = recv_side s"
  using released_stream(1) [of h ack rs largest s] by (simp add: releaseAcked_eq Let_def recv_side_def)

lemma same_recv_settleAck: "same_recv l (settleAck la t now l)"
proof -
  let ?l = "if ta_acked t > 0
    then (if ta_hasSample t then l\<lparr>mRtt := addSample (mRtt l) (duration_cast 1000 (now - ta_sampleSentAt t))\<rparr>
          else l)\<lparr>mTimeoutsInARow := 0\<rparr> else l"
  obtain losses l1 where d: "detectLosses ?l = (losses, l1)"
    by (cases "detectLosses ?l")
  let ?l2 = "updateProgressClock now (ta_acked t > 0) l1"
  have "same_recv l ?l"
    by (simp add: same_recv_def)
  then have "same_recv l ?l2"
    using recv.rel_detectLosses [of ?l] d same_recv_updateProgressClock same_recv_trans by (metis snd_conv)
  moreover have "same_recv ?l2 (?l2\<lparr>mCongestionWindow := x\<rparr>)" for x
    by (simp add: same_recv_def)
  ultimately show ?thesis
    using same_recv_trans by (auto simp: settleAck_def Let_def d)
qed

lemma same_recv_handleAck: "same_recv l (handleAck la h body now l)"
proof (cases "the (decodeAck body)")
  case (Some ack)
  let ?l = "takeAckState la h ack now l"
  show ?thesis
  proof (cases "mStreams ?l la")
    case st: (Some s)
    let ?t = "releaseAcked h ack (mRecoveryStart ?l) (mLargestAcked ?l) s"
    have "same_recv ?l ((setStream la (ta_stream ?t) ?l)\<lparr>mLargestAcked := ta_largestAcked ?t\<rparr>)"
      using st by (simp add: same_recv_def same_view_def)
    then have "same_recv ?l (handleAck la h body now l)"
      using Some st same_recv_trans [OF _ same_recv_settleAck] by (simp add: handleAck_def Let_def)
    then show ?thesis
      by (rule same_recv_trans [OF same_recv_takeAckState])
  qed (simp add: handleAck_def Some same_recv_takeAckState)
qed (simp add: handleAck_def)


lemma nextLost_stream [simp]:
  "recv_side (snd (nextLost s)) = recv_side s" "s_inFlight (snd (nextLost s)) = s_inFlight s"
  "s_nextSendSeq (snd (nextLost s)) = s_nextSendSeq s" "s_sendBase (snd (nextLost s)) = s_sendBase s"
  "s_cursor (snd (nextLost s)) = s_cursor s" "s_onTheWire (snd (nextLost s)) = s_onTheWire s"
  "s_peerPaused (snd (nextLost s)) = s_peerPaused s"
  by (simp_all add: nextLost_def recv_side_def split: prod.splits)

lemma same_recv_offer: "same_recv l (snd (offer h e l))"
  by (simp add: offer_def Let_def same_recv_def)

lemma same_recv_peekMedia: "same_recv l (snd (snd (peekMedia next src l)))"
  by (auto simp: peekMedia_def offer_def Let_def same_recv_def split: prod.splits option.splits)

lemma same_recv_setCursor: "la \<noteq> Media \<Longrightarrow> same_recv l (setStream la ((fst (streamFor la l))\<lparr>s_cursor := c\<rparr>) (snd (streamFor la l)))"
  by (auto simp: same_recv_def same_view_def recv_side_def streamFor_def Let_def split: option.splits)

text \<open>The end of \<open>peek\<close> by cases: no message to send, or a fragment of the message in progress.\<close>

lemma peekFragment_cases:
  obtains (none) src' where "peekFragment next la src l = (None, src', l)"
      "fst (next src la) = None" "src' = snd (next src la)"
      "case mStreams l la of None \<Rightarrow> True | Some s \<Rightarrow> s_cursor s = None"
  | (same) s c where "mStreams l la = Some s" "s_cursor s = Some c"
      "peekFragment next la src l =
         (let (d, l') = offer (headerOf l la (s_nextSendSeq s) (fragmentAt c)) (fragmentAt c) l in (Some d, src, l'))"
  | (taken) m src' s l1 where "next src la = (Some m, src')" "streamFor la l = (s, l1)" "s_cursor s = None \<or> mStreams l la = None"
      "peekFragment next la src l =
         (let l2 = setStream la (s\<lparr>s_cursor := Some (cursorFor m)\<rparr>) l1;
              (d, l') = offer (headerOf l2 la (s_nextSendSeq s) (fragmentAt (cursorFor m))) (fragmentAt (cursorFor m)) l2
          in (Some d, src', l'))"
proof (cases "mStreams l la")
  case None
  obtain m src' where n: "next src la = (m, src')"
    by (cases "next src la")
  obtain s l1 where s: "streamFor la l = (s, l1)"
    by (cases "streamFor la l")
  show ?thesis
  proof (cases m)
    case m: None
    show ?thesis
      by (rule none [of src']) (simp_all add: None n m peekFragment_def)
  next
    case (Some m')
    show ?thesis
      by (rule taken [of m' src' s l1]) (use None n s Some in \<open>auto simp: peekFragment_def Let_def split_beta\<close>)
  qed
next
  case (Some s)
  obtain m src' where n: "next src la = (m, src')"
    by (cases "next src la")
  have s: "streamFor la l = (s, l)"
    using Some by (simp add: streamFor_def)
  show ?thesis
  proof (cases "s_cursor s")
    case None
    show ?thesis
    proof (cases m)
      case m: None
      show ?thesis
        by (rule none [of src']) (simp_all add: Some None n m peekFragment_def)
    next
      case m: (Some m')
      show ?thesis
        by (rule taken [of m' src' s l]) (use Some None n s m in \<open>auto simp: peekFragment_def Let_def split_beta\<close>)
    qed
  next
    case c: (Some c)
    show ?thesis
      by (rule same [of s c]) (simp_all add: Some c peekFragment_def Let_def)
  qed
qed

lemma same_recv_peekFragment:
  assumes "la \<noteq> Media"
  shows "same_recv l (snd (snd (peekFragment next la src l)))"
proof (cases rule: peekFragment_cases [of "next" la src l])
  case (none src')
  then show ?thesis by simp
next
  case (same s c)
  then show ?thesis
    using same_recv_offer [of l] by (simp add: offer_def Let_def)
next
  case (taken m src' s l1)
  then have "same_recv l (setStream la (s\<lparr>s_cursor := Some (cursorFor m)\<rparr>) l1)"
    using same_recv_setCursor [OF assms, of l "Some (cursorFor m)"] by simp
  then show ?thesis
    using taken same_recv_trans [OF _ same_recv_offer] by (simp add: Let_def split_beta)
qed

text \<open>\<open>peek\<close> by cases: the lane is held back, a lost packet is offered again, or the next fragment is.\<close>

lemma peek_cases:
  assumes "la \<noteq> Media"
  obtains (held) l1 where "peek next la src l = (None, src, l1)" "l1 = l \<or> (\<exists>s. mStreams l la = Some s \<and> l1 = setStream la (snd (nextLost s)) l)"
  | (lost) s e where "mStreams l la = Some s" "fst (nextLost s) = Some e" "\<not> mFailed l"
      "\<not> s_peerPaused s" "congestionWindowOpen la (setStream la (snd (nextLost s)) l)"
      "peek next la src l =
         (let l1 = setStream la (snd (nextLost s)) l;
              (d, l2) = offer (headerOf l1 la (hd (s_lost (snd (nextLost s)))) e) e l1 in (Some d, src, l2))"
  | (fresh) "mStreams l la = None" "\<not> mFailed l" "congestionWindowOpen la l"
      "peek next la src l = peekFragment next la src l"
  | (onward) s where "mStreams l la = Some s" "fst (nextLost s) = None" "\<not> mFailed l" "\<not> s_peerPaused s"
      "unat (s_nextSendSeq s - s_sendBase s) < capacity (s_inFlight s)"
      "congestionWindowOpen la (setStream la (snd (nextLost s)) l)"
      "peek next la src l = peekFragment next la src (setStream la (snd (nextLost s)) l)"
proof (cases "mFailed l")
  case True
  then show ?thesis
    using held [of l] by (simp add: peek_def)
next
  case False
  show ?thesis
  proof (cases "mStreams l la")
    case None
    then show ?thesis
      using False assms held [of l] fresh by (cases "congestionWindowOpen la l") (simp_all add: peek_def)
  next
    case (Some s)
    obtain lost s' where n: "nextLost s = (lost, s')"
      by (cases "nextLost s")
    have s': "s_nextSendSeq s' = s_nextSendSeq s" "s_sendBase s' = s_sendBase s" "s_inFlight s' = s_inFlight s"
      "s_peerPaused s' = s_peerPaused s"
      using nextLost_stream [of s] n by simp_all
    let ?full = "lost = None \<and> capacity (s_inFlight s) \<le> unat (s_nextSendSeq s - s_sendBase s)"
    show ?thesis
    proof (cases "?full \<or> s_peerPaused s \<or> \<not> congestionWindowOpen la (setStream la s' l)")
      case True
      then show ?thesis
        using held [of "setStream la s' l"] Some False assms n s' by (auto simp: peek_def Let_def)
    next
      case ready: False
      then show ?thesis
        using lost [of s] onward [of s] Some False assms n s' by (cases lost) (auto simp: peek_def Let_def not_le)
    qed
  qed
qed

lemma same_recv_peek: "same_recv l (snd (snd (peek next la src l)))"
proof (cases "la = Media")
  case True
  then show ?thesis
    by (simp add: peek_def same_recv_peekMedia)
next
  case False
  then show ?thesis
  proof (cases rule: peek_cases [of la "next" src l])
    case (held l1)
    then show ?thesis
      by (auto simp: same_recv_setStream)
  next
    case (lost s e)
    then have "same_recv l (setStream la (snd (nextLost s)) l)"
      by (simp add: same_recv_setStream)
    then show ?thesis
      using lost same_recv_trans [OF _ same_recv_offer] by (simp add: Let_def split_beta)
  next
    case fresh
    then show ?thesis
      using False by (simp add: same_recv_peekFragment)
  next
    case (onward s)
    then have "same_recv l (setStream la (snd (nextLost s)) l)"
      by (simp add: same_recv_setStream)
    then show ?thesis
      using onward same_recv_trans [OF _ same_recv_peekFragment [OF False]] by simp
  qed
qed


text \<open>\<open>transmit\<close>, the statistics aside.\<close>

definition transmitted :: "TimePoint \<Rightarrow> u64 \<Rightarrow> InFlight \<Rightarrow> InFlight" where
  "transmitted now n e =
     e\<lparr>fl_lost := False, fl_sentAt := now, fl_transmission := n, fl_transmissions := fl_transmissions e + 1\<rparr>"

lemma transmit_eq:
  assumes s: "mStreams l la = Some s" and e: "the (buf_find (s_inFlight s) sq) = e"
  obtains stats where "transmit la sq now l = updateProgressClock now False
    (l\<lparr>mStats := stats, mTransmissions := mTransmissions l + 1,
       mStreams := (mStreams l)(la := Some (s\<lparr>s_inFlight := buf_update (s_inFlight s) sq (\<lambda>_. transmitted now (mTransmissions l + 1) e),
         s_onTheWire := s_onTheWire s + 1\<rparr>)),
       mSent := mSent l @ [\<lparr>sr_transmission = mTransmissions l + 1, sr_seq = sq, sr_lane = la\<rparr>]\<rparr>)"
proof -
  let ?stats = "if fl_transmissions e = 0 then dataSent_update (\<lambda>n. n + 1) (mStats l)
    else retransmissions_update (\<lambda>n. n + 1) (mStats l)"
  let ?stats' = "if fl_transmissions e + 1 = 1 \<and> la \<noteq> Control
    then bytesSent_update (\<lambda>n. n + ucast (fl_length e)) ?stats else ?stats"
  show ?thesis
    by (rule that [of ?stats'])
      (simp add: transmit_def Let_def s e transmitted_def setStream_def,
        intro impI arg_cong [where f = "updateProgressClock now False"], simp)
qed

lemma same_recv_transmit:
  assumes "mStreams l la = Some s"
  shows "same_recv l (transmit la sq now l)"
proof -
  let ?e = "the (buf_find (s_inFlight s) sq)"
  obtain stats where t: "transmit la sq now l = updateProgressClock now False
    (l\<lparr>mStats := stats, mTransmissions := mTransmissions l + 1,
       mStreams := (mStreams l)(la := Some (s\<lparr>s_inFlight := buf_update (s_inFlight s) sq (\<lambda>_. transmitted now (mTransmissions l + 1) ?e),
         s_onTheWire := s_onTheWire s + 1\<rparr>)),
       mSent := mSent l @ [\<lparr>sr_transmission = mTransmissions l + 1, sr_seq = sq, sr_lane = la\<rparr>]\<rparr>)"
    by (rule transmit_eq [OF assms refl])
  show ?thesis
    unfolding t using assms
    by (intro same_recv_trans [OF _ same_recv_updateProgressClock]) (simp add: same_recv_def same_view_def recv_side_def)
qed

lemma commit_cases:
  assumes "la \<noteq> Media"
  obtains (absent) "mStreams l la = None" "commit la now l = l"
  | (idle) s where "mStreams l la = Some s" "fst (nextLost s) = None" "s_cursor s = None"
      "commit la now l = setStream la (snd (nextLost s)) l"
  | (again) s e where "mStreams l la = Some s" "fst (nextLost s) = Some e"
      "commit la now l = transmit la (hd (s_lost (snd (nextLost s)))) now
         (setStream la ((snd (nextLost s))\<lparr>s_lost := tl (s_lost (snd (nextLost s)))\<rparr>) l)"
  | (first) s c where "mStreams l la = Some s" "fst (nextLost s) = None" "s_cursor s = Some c"
      "commit la now l = transmit la (s_nextSendSeq s) now
         (setStream la ((snd (nextLost s))\<lparr>s_nextSendSeq := s_nextSendSeq s + 1,
            s_inFlight := buf_insert (s_inFlight s) (s_nextSendSeq s) (fragmentAt c), s_cursor := advanceCursor c\<rparr>) l)"
proof (cases "mStreams l la")
  case None
  then show ?thesis
    using absent assms by (simp add: commit_def)
next
  case (Some s)
  obtain lost s' where n: "nextLost s = (lost, s')"
    by (cases "nextLost s")
  have s': "s_nextSendSeq s' = s_nextSendSeq s" "s_inFlight s' = s_inFlight s" "s_cursor s' = s_cursor s"
    using nextLost_stream [of s] n by simp_all
  show ?thesis
  proof (cases lost)
    case None
    show ?thesis
    proof (cases "s_cursor s")
      case c: None
      show ?thesis
        by (rule idle [of s]) (use Some None n s' c assms in \<open>simp_all add: commit_def\<close>)
    next
      case c: (Some c)
      show ?thesis
        by (rule first [of s c]) (use Some None n s' c assms in \<open>simp_all add: commit_def Let_def\<close>)
    qed
  next
    case e: (Some e)
    show ?thesis
      by (rule again [of s e]) (use Some n e assms in \<open>simp_all add: commit_def\<close>)
  qed
qed

lemma same_recv_commit: "same_recv l (commit la now l)"
proof (cases "la = Media")
  case True
  then show ?thesis
    by (simp add: commit_def same_recv_def Let_def split: option.splits)
next
  case False
  then show ?thesis
  proof (cases rule: commit_cases [of la l now])
    case absent
    then show ?thesis by simp
  next
    case (idle s)
    then show ?thesis by (simp add: same_recv_setStream)
  next
    case (again s e)
    then have "same_recv l (setStream la ((snd (nextLost s))\<lparr>s_lost := tl (s_lost (snd (nextLost s)))\<rparr>) l)"
      by (intro same_recv_setStream [of _ _ s]) (simp_all add: recv_side_def nextLost_def split_beta)
    then show ?thesis
      using again same_recv_trans [OF _ same_recv_transmit] by fastforce
  next
    case (first s c)
    let ?s = "(snd (nextLost s))\<lparr>s_nextSendSeq := s_nextSendSeq s + 1,
      s_inFlight := buf_insert (s_inFlight s) (s_nextSendSeq s) (fragmentAt c), s_cursor := advanceCursor c\<rparr>"
    have "same_recv l (setStream la ?s l)"
      using first by (intro same_recv_setStream [of _ _ s]) (simp_all add: recv_side_def nextLost_def split_beta)
    then show ?thesis
      using first same_recv_trans [OF _ same_recv_transmit] by fastforce
  qed
qed

lemma same_recv_probePaused: "same_recv l (probePaused now l la)"
proof (cases "mStreams l la")
  case (Some s)
  have "same_recv l (setStream la (s\<lparr>s_probeInterval := x, s_probeAt := y\<rparr>) (l\<lparr>mPingDue := z\<rparr>))" for x y z
    using Some by (simp add: same_recv_def same_view_def recv_side_def)
  then show ?thesis
    using Some by (simp add: probePaused_def Let_def split: option.splits)
qed (simp add: probePaused_def)

text \<open>\<open>onTimer\<close> when the link does not fail: the keep-alive, the timeouts, the back-off and the probes.\<close>

definition keepAliveDue :: "TimePoint \<Rightarrow> Link \<Rightarrow> Link" where
  "keepAliveDue now l =
     (case mLastReceived l of None \<Rightarrow> l
      | Some tp \<Rightarrow>
          if mRemoteStreamID l \<noteq> None \<and> now - max tp (mPingedAt l) \<ge> milliseconds (keepAlive (mTimings l))
          then l\<lparr>mPingDue := mPingDue l OR bitOf Control, mPingedAt := now\<rparr> else l)"

lemma onTimer_running:
  assumes "\<not> mFailed l" and "\<not> overdue now l"
  obtains expired l1 where
    "timeoutLoop (mSent l) now (timeoutFor (mRtt l) (mTimeoutsInARow l)) False (keepAliveDue now l) = (expired, l1)"
    "onTimer now l = foldl (probePaused now)
       (if expired \<and> mTimeoutsInARow l1 < MaxBackoffSteps then l1\<lparr>mTimeoutsInARow := mTimeoutsInARow l1 + 1\<rparr> else l1)
       StreamLanes"
proof -
  have same: "mSent (keepAliveDue now l) = mSent l" "mRtt (keepAliveDue now l) = mRtt l"
    "mTimeoutsInARow (keepAliveDue now l) = mTimeoutsInARow l"
    by (simp_all add: keepAliveDue_def split: option.splits)
  obtain expired l1 where
    t: "timeoutLoop (mSent l) now (timeoutFor (mRtt l) (mTimeoutsInARow l)) False (keepAliveDue now l) = (expired, l1)"
    by (cases "timeoutLoop (mSent l) now (timeoutFor (mRtt l) (mTimeoutsInARow l)) False (keepAliveDue now l)")
  show ?thesis
    by (rule that [OF t]) (use assms t same in \<open>simp add: onTimer_def Let_def flip: keepAliveDue_def\<close>)
qed

lemma same_recv_onTimer:
  assumes "\<not> overdue now l"
  shows "same_recv l (onTimer now l)"
proof (cases "mFailed l")
  case False
  obtain expired l1 where
    t: "timeoutLoop (mSent l) now (timeoutFor (mRtt l) (mTimeoutsInARow l)) False (keepAliveDue now l) = (expired, l1)"
    and eq: "onTimer now l = foldl (probePaused now)
       (if expired \<and> mTimeoutsInARow l1 < MaxBackoffSteps then l1\<lparr>mTimeoutsInARow := mTimeoutsInARow l1 + 1\<rparr> else l1)
       StreamLanes"
    by (rule onTimer_running [OF False assms])
  have "same_recv l (keepAliveDue now l)"
    by (simp add: keepAliveDue_def same_recv_def split: option.splits)
  then have "same_recv l l1"
    using recv.rel_timeoutLoop [of "keepAliveDue now l"] t same_recv_trans by (metis snd_conv)
  then have "same_recv l (if expired \<and> mTimeoutsInARow l1 < MaxBackoffSteps then l1\<lparr>mTimeoutsInARow := mTimeoutsInARow l1 + 1\<rparr> else l1)"
    by (simp add: same_recv_def)
  then show ?thesis
    unfolding eq by (rule same_recv_trans) (rule recv.rel_foldl [OF same_recv_probePaused])
qed (simp add: onTimer_def)



section \<open>Acknowledgements and losses keep what the window carries\<close>

lemma window_kept_same:
  "s_cursor s' = s_cursor s \<Longrightarrow> s_nextSendSeq s' = s_nextSendSeq s \<Longrightarrow> s_inFlight s' = s_inFlight s \<Longrightarrow> window_kept c s s'"
  by (auto simp: window_kept_def)

lemma window_kept_update:
  assumes "s_cursor s' = s_cursor s" "s_nextSendSeq s' = s_nextSendSeq s" "s_inFlight s' = buf_update (s_inFlight s) sq f"
    and "\<And>e. buf_find (s_inFlight s) sq = Some e \<Longrightarrow> same_fragment e (f e)"
  shows "window_kept c s s'"
  using assms(4) unfolding window_kept_def assms(1-3)
  by (auto simp: buf_ok_update buf_find_update split: if_splits)

lemma window_kept_erase:
  assumes "s_cursor s' = s_cursor s" "s_nextSendSeq s' = s_nextSendSeq s" "s_inFlight s' = snd (buf_erase (s_inFlight s) sq)"
  shows "window_kept c s s'"
  unfolding window_kept_def assms by (auto simp: buf_ok_erase buf_find_erase split: if_splits)

lemma send_kept_updateProgressClock: "send_kept l (updateProgressClock now p l)"
  by (simp add: updateProgressClock_def Let_def send_kept_def)

lemma send_kept_fields:
  assumes "send_kept l l'" and "mStreams l'' = mStreams l'" "mMediaCursor l'' = mMediaCursor l'"
    "mNextMediaSeq l'' = mNextMediaSeq l'" "mLocalStreamID l'' = mLocalStreamID l'" "mFailed l'' = mFailed l'"
  shows "send_kept l l''"
  using assms by (simp add: send_kept_def)

lemma send_kept_markLost: "send_kept l (markLost r e t l)"
proof (cases "mStreams l (sr_lane r)")
  case (Some s)
  let ?s = "s\<lparr>s_inFlight := buf_update (s_inFlight s) (sr_seq r) (\<lambda>e. e\<lparr>fl_lost := True\<rparr>),
    s_onTheWire := size_minus (s_onTheWire s) 1, s_lost := s_lost s @ [sr_seq r]\<rparr>"
  have "window_kept (windowOf (sr_lane r)) s ?s"
    by (rule window_kept_update [where sq = "sr_seq r" and f = "\<lambda>e. e\<lparr>fl_lost := True\<rparr>"]) (auto simp: same_fragment_def)
  then have "send_kept l (setStream (sr_lane r) ?s l)"
    by (rule send_kept_setStream [OF Some])
  then show ?thesis
    using Some by (auto simp: markLost_def Let_def intro: send_kept_fields)
qed (simp add: markLost_def)

interpretation kept: loss_frame send_kept
  by unfold_locales (simp_all add: send_kept_markLost, rule send_kept_trans, assumption+, simp_all add: send_kept_def)

lemma send_kept_setPeerPaused: "send_kept l (setPeerPaused la p now l)"
proof (cases "mStreams l la")
  case (Some s)
  let ?s = "s\<lparr>s_peerPaused := p, s_probeAt := None\<rparr>"
  let ?i = "max (duration_cast 1000 (rtt_rto (mRtt l))) MinPauseProbeInterval"
  let ?t = "if p then ?s\<lparr>s_probeInterval := ?i, s_probeAt := Some (now + milliseconds ?i)\<rparr> else ?s"
  have "send_kept l (setStream la ?t l)"
    by (rule send_kept_setStream [OF Some]) (simp add: window_kept_same)
  then have "send_kept l (updateProgressClock now False (setStream la ?t l))"
    using send_kept_updateProgressClock send_kept_trans by blast
  then show ?thesis
    using Some by (auto simp: setPeerPaused_def Let_def)
qed (simp add: setPeerPaused_def)

lemma send_kept_takeAckState: "send_kept l (takeAckState la h ack now l)"
proof (cases "mStreams l la")
  case (Some s)
  have "send_kept l (setStream la (s\<lparr>s_ackSerial := x\<rparr>) l)" for x
    by (rule send_kept_setStream [OF Some]) (simp add: window_kept_same)
  then have "send_kept l ((setStream la (s\<lparr>s_ackSerial := x\<rparr>) l)\<lparr>mStats := y\<rparr>)" for x y
    by (rule send_kept_fields) simp_all
  then show ?thesis
    using Some send_kept_setPeerPaused send_kept_trans by (simp add: takeAckState_def Let_def) blast
qed (simp add: takeAckState_def)

lemma window_kept_releaseSeq: "window_kept c (ta_stream t) (ta_stream (releaseSeq rs t sq))"
proof (cases "buf_find (s_inFlight (ta_stream t)) sq")
  case (Some e)
  have "s_inFlight (ta_stream (releaseSeq rs t sq)) = snd (buf_erase (s_inFlight (ta_stream t)) sq)"
    by (simp add: releaseSeq_def buf_take_erase Some Let_def)
  then show ?thesis
    by (intro window_kept_erase) simp_all
qed (simp add: releaseSeq_def buf_take_erase)

lemma window_kept_released: "window_kept c s (ta_stream (released h ack rs largest s))"
proof (rule released_invariant)
  show "window_kept c s (ta_stream (releaseSeq rs t sq))" if "window_kept c s (ta_stream t)" for t sq
    using that window_kept_releaseSeq window_kept_trans by blast
qed (simp add: emptyTally_def)

lemma window_kept_releaseAcked: "window_kept c s (ta_stream (releaseAcked h ack rs largest s))"
  using window_kept_released [of c s h ack rs largest] by (simp add: releaseAcked_eq Let_def window_kept_def)

lemma send_kept_settleAck: "send_kept l (settleAck la t now l)"
proof -
  let ?l = "if ta_acked t > 0
    then (if ta_hasSample t then l\<lparr>mRtt := addSample (mRtt l) (duration_cast 1000 (now - ta_sampleSentAt t))\<rparr>
          else l)\<lparr>mTimeoutsInARow := 0\<rparr> else l"
  obtain losses l1 where d: "detectLosses ?l = (losses, l1)"
    by (cases "detectLosses ?l")
  let ?l2 = "updateProgressClock now (ta_acked t > 0) l1"
  have "send_kept l ?l"
    by (rule send_kept_fields [OF send_kept_refl]) simp_all
  then have "send_kept l ?l2"
    using kept.rel_detectLosses [of ?l] d send_kept_updateProgressClock send_kept_trans by (metis snd_conv)
  moreover have "send_kept l (?l2\<lparr>mCongestionWindow := x\<rparr>)" for x
    using calculation by (rule send_kept_fields) simp_all
  ultimately show ?thesis
    by (simp add: settleAck_def Let_def d)
qed

lemma send_kept_handleAck: "send_kept l (handleAck la h body now l)"
proof (cases "the (decodeAck body)")
  case (Some ack)
  let ?l = "takeAckState la h ack now l"
  show ?thesis
  proof (cases "mStreams ?l la")
    case st: (Some s)
    let ?t = "releaseAcked h ack (mRecoveryStart ?l) (mLargestAcked ?l) s"
    have "send_kept ?l (setStream la (ta_stream ?t) ?l)"
      by (rule send_kept_setStream [OF st window_kept_releaseAcked])
    then have "send_kept ?l ((setStream la (ta_stream ?t) ?l)\<lparr>mLargestAcked := ta_largestAcked ?t\<rparr>)"
      by (rule send_kept_fields) simp_all
    then have "send_kept ?l (handleAck la h body now l)"
      using Some st send_kept_trans [OF _ send_kept_settleAck] by (simp add: handleAck_def Let_def)
    then show ?thesis
      by (rule send_kept_trans [OF send_kept_takeAckState])
  qed (simp add: handleAck_def Some send_kept_takeAckState)
qed (simp add: handleAck_def)

lemma send_kept_probePaused: "send_kept l (probePaused now l la)"
proof (cases "mStreams l la")
  case (Some s)
  have "send_kept l (setStream la (s\<lparr>s_probeInterval := x, s_probeAt := y\<rparr>) l)" for x y
    by (rule send_kept_setStream [OF Some]) (simp add: window_kept_same)
  then have "send_kept l (setStream la (s\<lparr>s_probeInterval := x, s_probeAt := y\<rparr>) (l\<lparr>mPingDue := z\<rparr>))" for x y z
    by (rule send_kept_fields) simp_all
  then show ?thesis
    using Some by (simp add: probePaused_def Let_def split: option.splits)
qed (simp add: probePaused_def)

lemma send_kept_onTimer:
  assumes "\<not> overdue now l"
  shows "send_kept l (onTimer now l)"
proof (cases "mFailed l")
  case False
  obtain expired l1 where
    t: "timeoutLoop (mSent l) now (timeoutFor (mRtt l) (mTimeoutsInARow l)) False (keepAliveDue now l) = (expired, l1)"
    and eq: "onTimer now l = foldl (probePaused now)
       (if expired \<and> mTimeoutsInARow l1 < MaxBackoffSteps then l1\<lparr>mTimeoutsInARow := mTimeoutsInARow l1 + 1\<rparr> else l1)
       StreamLanes"
    by (rule onTimer_running [OF False assms])
  have "send_kept l (keepAliveDue now l)"
    by (simp add: keepAliveDue_def send_kept_def split: option.splits)
  then have "send_kept l l1"
    using kept.rel_timeoutLoop [of "keepAliveDue now l"] t send_kept_trans by (metis snd_conv)
  then have "send_kept l (if expired \<and> mTimeoutsInARow l1 < MaxBackoffSteps then l1\<lparr>mTimeoutsInARow := mTimeoutsInARow l1 + 1\<rparr> else l1)"
    by (simp add: send_kept_def)
  then show ?thesis
    unfolding eq by (rule send_kept_trans) (rule kept.rel_foldl [OF send_kept_probePaused])
qed (simp add: onTimer_def)

end
