(* ===== verification/LinkDatagrams.thy ===== *)
theory LinkDatagrams
  imports LinkFrames
begin

text \<open>
  What a link puts on the wire. The messages a lane takes from its source, cut into fragments, are one
  sequence of fragments: the packet with seq \<open>n\<close> carries number \<open>n - 1\<close> of them. The lemmas show that
  an entry of the send window is offered as a datagram the decoder of the remote accepts, and that the
  decoded packet carries the fragment of the entry; and that Acks and Pings decode to what was meant.
\<close>

section \<open>Messages and fragments\<close>

type_synonym message = "u32 \<times> bytes"

definition fragments_of :: "message list \<Rightarrow> (message \<times> nat) list" where
  "fragments_of ms = concat (map (\<lambda>m. map (Pair m) [0..<fragmentsOf (length (snd m))]) ms)"

lemma fragments_of_Nil [simp]: "fragments_of [] = []"
  by (simp add: fragments_of_def)

lemma fragments_of_append [simp]: "fragments_of (ms @ ms') = fragments_of ms @ fragments_of ms'"
  by (simp add: fragments_of_def)

lemma fragments_of_one [simp]: "fragments_of [m] = map (Pair m) [0..<fragmentsOf (length (snd m))]"
  by (simp add: fragments_of_def)

lemma fragments_of_Cons: "fragments_of (m # ms) = map (Pair m) [0..<fragmentsOf (length (snd m))] @ fragments_of ms"
  by (simp add: fragments_of_def)

lemma fragments_nth:
  assumes "i < length ms" and "k < fragmentsOf (length (snd (ms ! i)))"
  shows "fragments_of ms ! (length (fragments_of (take i ms)) + k) = (ms ! i, k)"
    and "length (fragments_of (take i ms)) + k < length (fragments_of ms)"
proof -
  have "fragments_of ms = fragments_of (take i ms) @ fragments_of (ms ! i # drop (Suc i) ms)"
    by (metis assms(1) fragments_of_append id_take_nth_drop)
  then show "fragments_of ms ! (length (fragments_of (take i ms)) + k) = (ms ! i, k)"
    "length (fragments_of (take i ms)) + k < length (fragments_of ms)"
    using assms(2) by (simp_all add: fragments_of_Cons nth_append)
qed

text \<open>Every fragment has its message's first fragment before it.\<close>

lemma fragments_start:
  assumes "i < length (fragments_of ms)" and "fragments_of ms ! i = (m, k)"
  shows "k \<le> i \<and> fragments_of ms ! (i - k) = (m, 0) \<and> k < fragmentsOf (length (snd m)) \<and> m \<in> set ms"
  using assms
proof (induction ms rule: rev_induct)
  case (snoc m' ms)
  show ?case
  proof (cases "i < length (fragments_of ms)")
    case True
    then show ?thesis
      using snoc by (auto simp: nth_append)
  next
    case False
    then show ?thesis
      using snoc.prems by (auto simp: nth_append)
  qed
qed simp

lemma fragments_prefix:
  "i < length (fragments_of ms) \<Longrightarrow> fragments_of (ms @ ms') ! i = fragments_of ms ! i"
  by (simp add: nth_append)


section \<open>Entries of the window\<close>

definition entry_carries :: "InFlight \<Rightarrow> message \<times> nat \<Rightarrow> bool" where
  "entry_carries e f \<longleftrightarrow>
     (let t = fst (fst f); body = snd (fst f); k = snd f in
      fl_message e = body \<and> fl_tag e = t \<and> fl_offset e = of_nat (k * MaxFragmentBody) \<and>
      fl_length e = of_nat (length (fragment_body body k)) \<and> fl_totalLength e = of_nat (length body) \<and>
      fl_fragIndex e = of_nat k \<and> fl_fragCount e = of_nat (fragmentsOf (length body)))"

lemma entry_carries_same: "entry_carries e f \<Longrightarrow> same_fragment e e' \<Longrightarrow> entry_carries e' f"
  by (simp add: entry_carries_def same_fragment_def Let_def)

lemma fragmentAt_carries:
  assumes "cur_count c = fragmentsOf (length (om_body (cur_message c)))" and "cur_next c < cur_count c"
  shows "entry_carries (fragmentAt c) ((om_tag (cur_message c), om_body (cur_message c)), cur_next c)"
proof -
  let ?b = "om_body (cur_message c)"
  have "cur_next c * MaxFragmentBody \<le> length ?b"
    using assms by (intro fragment_offset) simp
  then have "min MaxFragmentBody (size_minus (length ?b) (cur_next c * MaxFragmentBody)) =
      length (fragment_body ?b (cur_next c))"
    by (simp add: fragment_body_def min.commute)
  then show ?thesis
    using assms(1) by (simp add: entry_carries_def fragmentAt_def Let_def)
qed

text \<open>The sizes of a message that fits into a lane fit into their fields.\<close>

lemma lane_size: "n \<le> maxMessageSize la \<Longrightarrow> n \<le> MaxMessagePayload"
  by (simp add: maxMessageSize_def constants split: if_splits)

lemma message_words:
  assumes "length body \<le> MaxMessagePayload" and "k < fragmentsOf (length body)"
  shows "unat (of_nat (fragmentsOf (length body)) :: u16) = fragmentsOf (length body)"
    and "unat (of_nat k :: u16) = k" and "unat (of_nat (length body) :: u32) = length body"
    and "unat (of_nat (k * MaxFragmentBody) :: u32) = k * MaxFragmentBody"
    and "unat (of_nat (length (fragment_body body k)) :: u32) = length (fragment_body body k)"
proof -
  have n: "fragmentsOf (length body) \<le> 14365" and len: "length body < 2 ^ 32"
    using fragmentsOf_message [OF assms(1)] assms(1) by (simp_all add: constants)
  have off: "k * MaxFragmentBody < 2 ^ 32" "length (fragment_body body k) < 2 ^ 32"
    using fragment_offset [OF assms(2)] fragment_body_le [of body k] len by (simp_all add: constants)
  show "unat (of_nat (fragmentsOf (length body)) :: u16) = fragmentsOf (length body)" "unat (of_nat k :: u16) = k"
    using n assms(2) by (simp_all add: unat_of_nat)
  show "unat (of_nat (length body) :: u32) = length body"
    "unat (of_nat (k * MaxFragmentBody) :: u32) = k * MaxFragmentBody"
    "unat (of_nat (length (fragment_body body k)) :: u32) = length (fragment_body body k)"
    using len off by (simp_all only: unat_of_nat) simp_all
qed

lemma headerOf_fields [simp]:
  "kind (flags (headerOf l la sq e)) = Data" "lane (flags (headerOf l la sq e)) = la"
  "srcStreamID (headerOf l la sq e) = mLocalStreamID l" "seq (headerOf l la sq e) = sq"
  "dstStreamID (headerOf l la sq e) = (case mRemoteStreamID l of Some r \<Rightarrow> r | None \<Rightarrow> 0)"
  by (simp_all add: headerOf_def makeHeader_def Let_def)

lemma headerOf_carries:
  assumes "entry_carries e ((t, body), k)" and "length body \<le> MaxMessagePayload" and "k < fragmentsOf (length body)"
  shows "carries (headerOf l la sq e) t body k"
  using assms(1,3) message_words [OF assms(2,3)] fragmentsOf_pos [of "length body"]
  by (auto simp: entry_carries_def headerOf_def makeHeader_def carries_def Let_def)

lemma wire_view_carries:
  assumes "carries h t body k" and "kind (flags h) = Data"
  shows "carries (wire_view h) t body k"
  using assms
  by (auto simp: carries_def wire_view_def startsMessage_def startsFragmentedMessage_def Let_def split: if_splits)

lemma headerOf_ok:
  assumes e: "entry_carries e ((t, body), k)" and len: "length body \<le> maxMessageSize la"
    and k: "k < fragmentsOf (length body)" and "sq \<noteq> 0" and "mLocalStreamID l \<noteq> 0"
  shows "header_ok (headerOf l la sq e)"
proof -
  let ?n = "fragmentsOf (length body)"
  note words = message_words [OF lane_size [OF len] k]
  have n: "?n \<le> fragmentsOf (maxMessageSize la)"
    by (rule fragmentsOf_mono [OF len])
  have f: "unat (fl_fragCount e) = ?n" "unat (fl_fragIndex e) = k" "unat (fl_totalLength e) = length body"
    using e words by (simp_all add: entry_carries_def Let_def)
  have frag: "fl_fragIndex e < fl_fragCount e"
    using f k by (simp add: word_less_nat_alt)
  show ?thesis
    using assms(4,5) n f frag len isValid_data [of la] isValid_fragment [of la]
    by (auto simp: header_ok_def headerOf_def makeHeader_def Let_def)
qed

lemma headerOf_body_size:
  assumes e: "entry_carries e ((t, body), k)" and len: "length body \<le> MaxMessagePayload" and k: "k < fragmentsOf (length body)"
  shows "isBodySizeValid (headerOf l la sq e) (length (fragment_body body k))"
proof (cases "fragmentsOf (length body) = 1")
  case True
  then have "\<not> isFragmented (flags (headerOf l la sq e))"
    using headerOf_carries [OF assms, of l la sq] by (simp add: carries_def)
  then show ?thesis
    using fragment_body_le [of body k] by (simp add: isBodySizeValid_def)
next
  case False
  note c = headerOf_carries [OF assms, of l la sq]
  show ?thesis
    using carried_size_ok [OF c False len k] carries_fields(1) [OF c False len]
    by (auto simp: isBodySizeValid_def fragment_size_ok_def split: if_splits)
qed


section \<open>Datagrams\<close>

definition wire_bytes :: "OutgoingDatagram \<Rightarrow> bytes option" where
  "wire_bytes d = map_option (\<lambda>body. datagramHeader d @ body) (datagramBody d)"

text \<open>The header fits into its array, and its size into a byte.\<close>

lemma makeDatagram_head:
  "encodeHeader h (replicate MaxHeaderSize 0) \<noteq> None"
  "datagramHeader (makeDatagram h) = header_bytes h"
proof -
  have le: "encodedSize h \<le> MaxHeaderSize"
    by (rule encodedSize_max)
  have eq: "encodeHeader h (replicate MaxHeaderSize 0) =
      Some (encodedSize h, header_bytes h @ drop (encodedSize h) (replicate MaxHeaderSize 0))"
    using le by (intro encodeHeader_eq) simp
  then show "encodeHeader h (replicate MaxHeaderSize 0) \<noteq> None"
    by simp
  have "unat (of_nat (encodedSize h) :: u8) = encodedSize h"
    using le by (simp add: unat_of_nat constants)
  then show "datagramHeader (makeDatagram h) = header_bytes h"
    by (simp add: makeDatagram_def eq datagramHeader_def)
qed

lemma makeDatagram_body [simp]:
  "od_message (makeDatagram h) = None" "od_owned (makeDatagram h) = []"
  by (simp_all add: makeDatagram_def emptyDatagram_def split: prod.splits)

lemma datagramHeader_update [simp]:
  "datagramHeader (d\<lparr>od_owned := x\<rparr>) = datagramHeader d"
  "datagramHeader (d\<lparr>od_message := m, od_offset := a, od_length := b\<rparr>) = datagramHeader d"
  by (simp_all add: datagramHeader_def)

text \<open>What is offered stays within the message, and the decoder gives back what was offered.\<close>

lemma offer_bytes:
  assumes "entry_carries e ((t, body), k)" and "length body \<le> MaxMessagePayload" and "k < fragmentsOf (length body)"
  shows "wire_bytes (fst (offer h e l)) = Some (header_bytes h @ fragment_body body k)"
proof -
  note words = message_words [OF assms(2,3)]
  have f: "fl_message e = body" "unat (fl_offset e) = k * MaxFragmentBody"
    "unat (fl_length e) = length (fragment_body body k)"
    using assms(1) words by (simp_all add: entry_carries_def Let_def)
  have fit: "k * MaxFragmentBody + length (fragment_body body k) \<le> length body"
    using fragment_offset [OF assms(3)] by (simp add: fragment_body_def)
  have "take (length (fragment_body body k)) (drop (k * MaxFragmentBody) body) = fragment_body body k"
    by (simp add: fragment_body_def min_def)
  then show ?thesis
    using fit by (simp add: wire_bytes_def offer_def datagramBody_def f makeDatagram_head(2) Let_def)
qed

lemma offer_decodes:
  assumes e: "entry_carries e ((t, body), k)" and len: "length body \<le> maxMessageSize la"
    and k: "k < fragmentsOf (length body)" and sq: "sq \<noteq> 0" and id: "mLocalStreamID l \<noteq> 0"
  obtains d where "wire_bytes (fst (offer (headerOf l la sq e) e l')) = Some d"
    "decodePacket d = Some (Some \<lparr>pkt_header = wire_view (headerOf l la sq e), pkt_body = fragment_body body k\<rparr>)"
proof -
  let ?h = "headerOf l la sq e"
  note len' = lane_size [OF len]
  have "isBodySizeValid ?h (length (fragment_body body k))"
    by (rule headerOf_body_size [OF e len' k])
  moreover from this have "encodedSize ?h + length (fragment_body body k) \<le> MaxDatagramSize"
    by (intro data_fits_datagram) simp_all
  ultimately have "decodePacket (header_bytes ?h @ fragment_body body k) =
      Some (Some \<lparr>pkt_header = wire_view ?h, pkt_body = fragment_body body k\<rparr>)"
    by (rule decodePacket_header_bytes [OF headerOf_ok [OF e len k sq id]])
  then show ?thesis
    using that offer_bytes [OF e len' k, of ?h l'] by blast
qed

end
