(* ===== verification/LinkSending.thy ===== *)
theory LinkSending
  imports LinkDatagrams
begin

text \<open>
  The send side of a link, as what it has to do with the messages taken from the source. \<open>link_sends\<close>
  says that the window and the cursor of every lane stand for the sequence of fragments of the messages
  taken so far; every operation keeps it, and every datagram that is offered carries the fragment its
  seq stands for. A link that has failed sends nothing anymore.
\<close>

section \<open>What a link is sending\<close>

text \<open>The cursor, and the seq of the next packet: the fragments before it have been sent.\<close>

definition cursor_sends :: "message list \<Rightarrow> FragmentCursor option \<Rightarrow> nat \<Rightarrow> bool" where
  "cursor_sends ms cur n \<longleftrightarrow>
     (case cur of
        None \<Rightarrow> n = Suc (length (fragments_of ms))
      | Some c \<Rightarrow> (\<exists>ms0. ms = ms0 @ [(om_tag (cur_message c), om_body (cur_message c))] \<and>
          cur_count c = fragmentsOf (length (om_body (cur_message c))) \<and> cur_next c < cur_count c \<and>
          n = Suc (length (fragments_of ms0) + cur_next c)))"

definition stream_sends :: "nat \<Rightarrow> message list \<Rightarrow> Stream \<Rightarrow> bool" where
  "stream_sends cap ms s \<longleftrightarrow>
     buf_ok cap (s_inFlight s) \<and> cursor_sends ms (s_cursor s) (unat (s_nextSendSeq s)) \<and>
     (\<forall>sq e. buf_find (s_inFlight s) sq = Some e \<longrightarrow>
        sq \<noteq> 0 \<and> sq < s_nextSendSeq s \<and> entry_carries e (fragments_of ms ! (unat sq - 1)))"

definition lane_sends :: "Lane \<Rightarrow> message list \<Rightarrow> Link \<Rightarrow> bool" where
  "lane_sends la ms l \<longleftrightarrow>
     (\<forall>m \<in> set ms. length (snd m) \<le> maxMessageSize la) \<and>
     (if la = Media then cursor_sends ms (mMediaCursor l) (unat (mNextMediaSeq l))
      else case mStreams l la of None \<Rightarrow> ms = [] | Some s \<Rightarrow> stream_sends (windowOf la) ms s)"

definition link_sends :: "(Lane \<Rightarrow> message list) \<Rightarrow> Link \<Rightarrow> bool" where
  "link_sends sent l \<longleftrightarrow> mLocalStreamID l \<noteq> 0 \<and> (\<forall>la. lane_sends la (sent la) l)"

text \<open>A packet of data carries the fragment its lane and its seq stand for.\<close>

definition packet_carries :: "(Lane \<Rightarrow> message list) \<Rightarrow> DecodedPacket \<Rightarrow> bool" where
  "packet_carries sent p \<longleftrightarrow>
     (let h = pkt_header p; fs = fragments_of (sent (lane (flags h))); i = unat (seq h) - 1 in
      kind (flags h) = Data \<longrightarrow>
        seq h \<noteq> 0 \<and> i < length fs \<and>
        (\<exists>t body k. fs ! i = ((t, body), k) \<and> carries h t body k \<and> pkt_body p = fragment_body body k))"

text \<open>Seqs have 64 bits: what is sent in one direction of a lane is less than half of them.\<close>

definition few :: "(Lane \<Rightarrow> message list) \<Rightarrow> bool" where
  "few sent \<longleftrightarrow> (\<forall>la. length (fragments_of (sent la)) < 2 ^ 63)"

text \<open>More messages taken from the source: the sequences of a lane only grow at their end.\<close>

definition extends :: "(Lane \<Rightarrow> message list) \<Rightarrow> (Lane \<Rightarrow> message list) \<Rightarrow> bool" where
  "extends sent sent' \<longleftrightarrow> (\<forall>la. \<exists>ms. sent' la = sent la @ ms)"

lemma extends_refl [simp]: "extends sent sent"
  by (simp add: extends_def)

lemma extends_trans: "extends a b \<Longrightarrow> extends b c \<Longrightarrow> extends a c"
  unfolding extends_def by (metis append.assoc)

lemma extends_append [simp]: "extends sent (sent(la := sent la @ ms))"
  by (simp add: extends_def)

lemma extends_fragments:
  assumes "extends sent sent'" and "i < length (fragments_of (sent la))"
  shows "i < length (fragments_of (sent' la)) \<and> fragments_of (sent' la) ! i = fragments_of (sent la) ! i"
proof -
  obtain ms where "sent' la = sent la @ ms"
    using assms(1) by (auto simp: extends_def)
  then show ?thesis
    using assms(2) by (simp add: nth_append)
qed

lemma packet_carries_extends: "packet_carries sent p \<Longrightarrow> extends sent sent' \<Longrightarrow> packet_carries sent' p"
  using extends_fragments [of sent sent' "unat (seq (pkt_header p)) - 1" "lane (flags (pkt_header p))"]
  by (auto simp: packet_carries_def Let_def)

lemma cursor_sends_bound:
  assumes "cursor_sends ms cur n"
  shows "0 < n \<and> n \<le> Suc (length (fragments_of ms))"
  using assms by (auto simp: cursor_sends_def split: option.splits)

lemma cursor_sends_next:
  assumes "cursor_sends ms (Some c) n"
  shows "n - 1 < length (fragments_of ms)"
    and "fragments_of ms ! (n - 1) = ((om_tag (cur_message c), om_body (cur_message c)), cur_next c)"
    and "entry_carries (fragmentAt c) (fragments_of ms ! (n - 1))"
proof -
  obtain ms0 where ms: "ms = ms0 @ [(om_tag (cur_message c), om_body (cur_message c))]"
    and c: "cur_count c = fragmentsOf (length (om_body (cur_message c)))" "cur_next c < cur_count c"
    and n: "n = Suc (length (fragments_of ms0) + cur_next c)"
    using assms by (auto simp: cursor_sends_def)
  show "n - 1 < length (fragments_of ms)"
    using ms c n by simp
  show f: "fragments_of ms ! (n - 1) = ((om_tag (cur_message c), om_body (cur_message c)), cur_next c)"
    using ms c n by (simp add: nth_append)
  show "entry_carries (fragmentAt c) (fragments_of ms ! (n - 1))"
    unfolding f by (rule fragmentAt_carries [OF c])
qed

lemma cursor_sends_advance:
  assumes "cursor_sends ms (Some c) n"
  shows "cursor_sends ms (advanceCursor c) (Suc n)"
  using assms by (auto simp: cursor_sends_def advanceCursor_def)

lemma cursor_sends_new:
  assumes "cursor_sends ms None n"
  shows "cursor_sends (ms @ [(om_tag m, om_body m)]) (Some (cursorFor m)) n"
  using assms fragmentsOf_pos [of "length (om_body m)"] by (simp add: cursor_sends_def cursorFor_def)

lemma stream_sends_new:
  assumes "la \<noteq> Media"
  shows "stream_sends (windowOf la) [] (newStream (windowOf la))"
proof -
  have "\<exists>k \<le> 32. windowOf la = 2 ^ k"
    using assms by (cases la) (auto simp: windowOf_def constants intro: exI [of _ 5] exI [of _ 8])
  then have "buf_ok (windowOf la) (sequenceBuffer (windowOf la) :: InFlight SequenceBuffer)"
    using buf_ok_new by auto
  then show ?thesis
    by (simp add: stream_sends_def newStream_def cursor_sends_def buf_find_new)
qed



section \<open>Operations that take nothing from the source\<close>

lemma stream_sends_kept:
  assumes "stream_sends cap ms s" and "window_kept cap s s'"
  shows "stream_sends cap ms s'"
proof -
  have "sq \<noteq> 0 \<and> sq < s_nextSendSeq s' \<and> entry_carries e' (fragments_of ms ! (unat sq - 1))"
    if found: "buf_find (s_inFlight s') sq = Some e'" for sq e'
  proof -
    have "\<exists>e. buf_find (s_inFlight s) sq = Some e \<and> same_fragment e e'"
      using assms found by (simp add: stream_sends_def window_kept_def)
    then obtain e where "buf_find (s_inFlight s) sq = Some e" "same_fragment e e'"
      by blast
    then show ?thesis
      using assms entry_carries_same [of e "fragments_of ms ! (unat sq - 1)" e']
      by (simp add: stream_sends_def window_kept_def)
  qed
  then show ?thesis
    using assms by (simp add: stream_sends_def window_kept_def)
qed

lemma link_sends_kept:
  assumes "link_sends sent l" and "send_kept l l'"
  shows "link_sends sent l'"
proof -
  have "lane_sends la (sent la) l'" for la
  proof -
    have "lane_sends la (sent la) l" "stream_kept la (mStreams l la) (mStreams l' la)"
      using assms by (simp_all add: link_sends_def send_kept_def)
    then show ?thesis
      using assms(2) stream_sends_kept
      by (cases "mStreams l la"; cases "mStreams l' la")
        (auto simp: lane_sends_def stream_kept_def send_kept_def split: if_splits)
  qed
  then show ?thesis
    using assms by (simp add: link_sends_def send_kept_def)
qed

lemma stream_sends_side:
  assumes "stream_sends cap ms s" and "send_side s' = send_side s"
  shows "stream_sends cap ms s'"
  using assms by (simp add: stream_sends_def send_side_def)

lemma link_sends_same:
  assumes "link_sends sent l" and "same_send l l'"
  shows "link_sends sent l'"
proof -
  have "lane_sends la (sent la) l'" for la
  proof -
    have "lane_sends la (sent la) l" "same_view send_side la (mStreams l la) (mStreams l' la)"
      using assms by (simp_all add: link_sends_def same_send_def)
    then show ?thesis
      using assms(2) stream_sends_side stream_sends_new [of la]
      by (cases "mStreams l la"; cases "mStreams l' la")
        (auto simp: lane_sends_def same_view_def same_send_def split: if_splits)
  qed
  then show ?thesis
    using assms by (simp add: link_sends_def same_send_def)
qed

lemma link_sends_new:
  assumes "mLocalStreamID (reliableLink t lid rid bg) \<noteq> 0"
  shows "link_sends (\<lambda>_. []) (reliableLink t lid rid bg)"
  using assms by (simp add: link_sends_def lane_sends_def reliableLink_def cursor_sends_def)

text \<open>Packets of any kind and any content keep it: they free entries of the window at most.\<close>

lemma link_sends_fields:
  assumes "link_sends sent l" and "mStreams l' = mStreams l" "mMediaCursor l' = mMediaCursor l"
    "mNextMediaSeq l' = mNextMediaSeq l" "mLocalStreamID l' = mLocalStreamID l"
  shows "link_sends sent l'"
  using assms by (simp add: link_sends_def lane_sends_def)

lemma link_sends_onPacket:
  assumes "link_sends sent l" and "onPacket p now l = Some l'"
  shows "link_sends sent l'"
proof -
  let ?h = "pkt_header p" and ?la = "lane (flags (pkt_header p))"
  define l1 where "l1 = (let l = l\<lparr>mRemoteStreamID := Some (srcStreamID ?h)\<rparr>
    in if mLastReceived l \<noteq> None then l\<lparr>mLastReceived := Some now\<rparr> else l)"
  have l1: "link_sends sent l1"
    using assms(1) by (rule link_sends_fields) (simp_all add: l1_def Let_def)
  have bump: "link_sends sent (bump staleDropped_update l)" and due: "link_sends sent (l1\<lparr>mAckDue := x\<rparr>)" for x
    using link_sends_fields [OF assms(1)] link_sends_fields [OF l1] by simp_all
  show ?thesis
    using assms bump due l1 link_sends_same [OF l1 same_send_handleData, of ?la]
      link_sends_same [OF l1 same_send_handleMedia] link_sends_kept [OF l1 send_kept_handleAck]
    by (auto simp: onPacket_def Let_def l1_def split: if_splits PacketKind.splits)
qed

lemma link_sends_onTimer:
  assumes "link_sends sent l" and "\<not> mFailed (onTimer now l)"
  shows "link_sends sent (onTimer now l)"
proof (cases "overdue now l")
  case True
  then show ?thesis
    using assms by (cases "mFailed l") (simp_all add: onTimer_def linkFail_def)
next
  case False
  then show ?thesis
    by (rule link_sends_kept [OF assms(1) send_kept_onTimer])
qed


section \<open>Sending\<close>

text \<open>The source, and a record of what was taken from it.\<close>

definition recording ::
  "('s \<Rightarrow> Lane \<Rightarrow> OutboundMessage option \<times> 's) \<Rightarrow> 's \<times> (Lane \<Rightarrow> message list) \<Rightarrow> Lane \<Rightarrow>
   OutboundMessage option \<times> 's \<times> (Lane \<Rightarrow> message list)" where
  "recording next = (\<lambda>(src, sent) la.
     case next src la of
       (None, src) \<Rightarrow> (None, src, sent)
     | (Some m, src) \<Rightarrow> (Some m, src, sent(la := sent la @ [(om_tag m, om_body m)])))"

text \<open>A source gives no message that is too long for its lane.\<close>

definition bounded_source :: "('s \<Rightarrow> Lane \<Rightarrow> OutboundMessage option \<times> 's) \<Rightarrow> bool" where
  "bounded_source next \<longleftrightarrow>
     (\<forall>src la m src'. next src la = (Some m, src') \<longrightarrow> length (om_body m) \<le> maxMessageSize la)"

text \<open>A datagram that is on its way carries what the sequence of its lane says.\<close>

definition datagram_carries :: "(Lane \<Rightarrow> message list) \<Rightarrow> u32 \<Rightarrow> OutgoingDatagram \<Rightarrow> bool" where
  "datagram_carries sent stream d \<longleftrightarrow>
     (\<exists>bs p. wire_bytes d = Some bs \<and> decodePacket bs = Some (Some p) \<and> packet_carries sent p \<and>
        srcStreamID (pkt_header p) = stream \<and> kind (flags (pkt_header p)) = Data)"

lemma offer_carries:
  assumes "entry_carries e (fragments_of (sent la) ! (unat sq - 1))" and "unat sq - 1 < length (fragments_of (sent la))"
    and "sq \<noteq> 0" and "mLocalStreamID l \<noteq> 0" and "\<forall>m \<in> set (sent la). length (snd m) \<le> maxMessageSize la"
  shows "datagram_carries sent (mLocalStreamID l) (fst (offer (headerOf l la sq e) e l'))"
proof -
  obtain t body k where f: "fragments_of (sent la) ! (unat sq - 1) = ((t, body), k)"
    by (metis prod.exhaust)
  have e: "entry_carries e ((t, body), k)"
    using assms(1) f by simp
  have "k < fragmentsOf (length (snd (t, body))) \<and> (t, body) \<in> set (sent la)"
    using fragments_start [OF assms(2) f] by simp
  then have k: "k < fragmentsOf (length body)" and len: "length body \<le> maxMessageSize la"
    using assms(5) by auto
  obtain d where "wire_bytes (fst (offer (headerOf l la sq e) e l')) = Some d"
    "decodePacket d = Some (Some \<lparr>pkt_header = wire_view (headerOf l la sq e), pkt_body = fragment_body body k\<rparr>)"
    by (rule offer_decodes [OF e len k assms(3,4)])
  moreover have "carries (wire_view (headerOf l la sq e)) t body k"
    using headerOf_carries [OF e lane_size [OF len] k] by (intro wire_view_carries) simp_all
  ultimately show ?thesis
    unfolding datagram_carries_def packet_carries_def Let_def
    using assms(2,3) f by (auto simp: wire_view_def)
qed


text \<open>Taking the next message: the cursor starts with its first fragment.\<close>

lemma lane_sends_other:
  assumes "lane_sends la' ms l" and "la' \<noteq> la" and "mMediaCursor l' = mMediaCursor l" "mNextMediaSeq l' = mNextMediaSeq l"
    and "mStreams l' = (mStreams l)(la := st)"
  shows "lane_sends la' ms l'"
  using assms by (simp add: lane_sends_def)

lemma stream_sends_take:
  assumes s: "stream_sends cap ms s" and "s_cursor s = None"
  shows "stream_sends cap (ms @ [(om_tag m, om_body m)]) (s\<lparr>s_cursor := Some (cursorFor m)\<rparr>)"
proof -
  have n: "cursor_sends ms None (unat (s_nextSendSeq s))"
    using assms by (simp add: stream_sends_def)
  have "fragments_of (ms @ [(om_tag m, om_body m)]) ! (unat sq - 1) = fragments_of ms ! (unat sq - 1)"
    if "buf_find (s_inFlight s) sq = Some e" for sq e
  proof (rule fragments_prefix)
    have "sq \<noteq> 0" "sq < s_nextSendSeq s"
      using s that by (auto simp: stream_sends_def)
    then show "unat sq - 1 < length (fragments_of ms)"
      using cursor_sends_bound [OF n] unat_pos_word [of sq] by (simp add: word_less_nat_alt del: unat_pos_word)
  qed
  then show ?thesis
    using s cursor_sends_new [OF n, of m] by (simp add: stream_sends_def)
qed

lemma link_sends_cursor:
  assumes "link_sends sent l" and "la \<noteq> Media" and s: "streamFor la l = (s, l1)" and "s_cursor s = None \<or> mStreams l la = None"
    and len: "length (om_body m) \<le> maxMessageSize la"
  shows "link_sends (sent(la := sent la @ [(om_tag m, om_body m)])) (setStream la (s\<lparr>s_cursor := Some (cursorFor m)\<rparr>) l1)"
    (is "link_sends ?sent ?l")
proof -
  have lane: "lane_sends la (sent la) l"
    using assms(1) by (simp add: link_sends_def)
  have "stream_sends (windowOf la) (sent la) s" "s_cursor s = None"
    using lane s assms(2,4) stream_sends_new [OF assms(2)]
    by (auto simp: streamFor_def lane_sends_def Let_def newStream_def split: option.splits)
  then have str: "stream_sends (windowOf la) (?sent la) (s\<lparr>s_cursor := Some (cursorFor m)\<rparr>)"
    using stream_sends_take [of "windowOf la" "sent la" s m] by simp
  have l: "mStreams ?l = (mStreams l)(la := Some (s\<lparr>s_cursor := Some (cursorFor m)\<rparr>))" "mMediaCursor ?l = mMediaCursor l"
    "mNextMediaSeq ?l = mNextMediaSeq l" "mLocalStreamID ?l = mLocalStreamID l"
    using s by (auto simp: streamFor_def Let_def split: option.splits)
  have "lane_sends la' (?sent la') ?l" for la'
  proof (cases "la' = la")
    case True
    then show ?thesis
      using str lane len assms(2) l by (simp add: lane_sends_def)
  next
    case False
    then show ?thesis
      using assms(1) l by (simp add: link_sends_def lane_sends_other [of la' _ l la])
  qed
  then show ?thesis
    using assms(1) l by (simp add: link_sends_def)
qed

lemma offer_state:
  "mStreams (snd (offer h e l)) = mStreams l" "mMediaCursor (snd (offer h e l)) = mMediaCursor l"
  "mNextMediaSeq (snd (offer h e l)) = mNextMediaSeq l" "mLocalStreamID (snd (offer h e l)) = mLocalStreamID l"
  "mFailed (snd (offer h e l)) = mFailed l"
  by (simp_all add: offer_def Let_def)

text \<open>The cursor of a lane, offered.\<close>

lemma offer_cursor:
  assumes "link_sends sent l" and "mStreams l la = Some s" "s_cursor s = Some c" and "la \<noteq> Media"
  shows "datagram_carries sent (mLocalStreamID l) (fst (offer (headerOf l la (s_nextSendSeq s) (fragmentAt c)) (fragmentAt c) l'))"
proof (rule offer_carries)
  have lane: "lane_sends la (sent la) l" and id: "mLocalStreamID l \<noteq> 0"
    using assms(1) by (simp_all add: link_sends_def)
  then have c: "cursor_sends (sent la) (Some c) (unat (s_nextSendSeq s))"
    using assms(2-4) by (simp add: lane_sends_def stream_sends_def)
  show "entry_carries (fragmentAt c) (fragments_of (sent la) ! (unat (s_nextSendSeq s) - 1))"
    "unat (s_nextSendSeq s) - 1 < length (fragments_of (sent la))"
    using cursor_sends_next [OF c] by simp_all
  show "s_nextSendSeq s \<noteq> 0"
    using cursor_sends_bound [OF c] by auto
  show "\<forall>m \<in> set (sent la). length (snd m) \<le> maxMessageSize la"
    using lane by (simp add: lane_sends_def)
  show "mLocalStreamID l \<noteq> 0"
    by (rule id)
qed

lemma peekFragment_sends:
  assumes sends: "link_sends sent l" and la: "la \<noteq> Media" and src: "bounded_source next"
    and p: "peekFragment (recording next) la (src, sent) l = (r, (src', sent'), l')"
  shows "link_sends sent' l' \<and> extends sent sent' \<and> (\<forall>d. r = Some d \<longrightarrow> datagram_carries sent' (mLocalStreamID l) d)"
proof (cases rule: peekFragment_cases [of "recording next" la "(src, sent)" l])
  case (none st)
  then have "sent' = sent"
    using p src by (auto simp: recording_def split: prod.splits option.splits)
  then show ?thesis
    using none p sends by simp
next
  case (same s c)
  let ?o = "offer (headerOf l la (s_nextSendSeq s) (fragmentAt c)) (fragmentAt c) l"
  have "r = Some (fst ?o)" "sent' = sent" "l' = snd ?o"
    using same p by (simp_all add: split_beta Let_def)
  then show ?thesis
    using offer_cursor [OF sends same(1,2) la, of l] link_sends_fields [OF sends] by (simp add: offer_state)
next
  case (taken m st s l1)
  let ?sent = "sent(la := sent la @ [(om_tag m, om_body m)])"
  let ?l = "setStream la (s\<lparr>s_cursor := Some (cursorFor m)\<rparr>) l1"
  let ?o = "offer (headerOf ?l la (s_nextSendSeq s) (fragmentAt (cursorFor m))) (fragmentAt (cursorFor m)) ?l"
  have rec: "snd st = ?sent" "length (om_body m) \<le> maxMessageSize la"
    using taken(1) src by (auto simp: recording_def bounded_source_def split: prod.splits option.splits)
  have out: "r = Some (fst ?o)" "sent' = ?sent" "l' = snd ?o"
    using taken(4) p rec(1) by (auto simp: split_beta Let_def)
  have new: "link_sends ?sent ?l"
    by (rule link_sends_cursor [OF sends la taken(2,3) rec(2)])
  have "mLocalStreamID ?l = mLocalStreamID l"
    using taken(2) by (auto simp: streamFor_def Let_def split: option.splits)
  then show ?thesis
    unfolding out using offer_cursor [OF new _ _ la, of "s\<lparr>s_cursor := Some (cursorFor m)\<rparr>" "cursorFor m" ?l] link_sends_fields [OF new]
    by (simp add: offer_state)
qed


lemma nextLost_Some:
  assumes "fst (nextLost s) = Some e"
  shows "s_lost (snd (nextLost s)) \<noteq> []"
    and "buf_find (s_inFlight s) (hd (s_lost (snd (nextLost s)))) = Some e" and "fl_lost e"
proof -
  have "fst (nextLostLoop b xs) = Some e \<Longrightarrow> snd (nextLostLoop b xs) \<noteq> [] \<and>
      buf_find b (hd (snd (nextLostLoop b xs))) = Some e \<and> fl_lost e" for b xs
    by (induction b xs rule: nextLostLoop.induct) (auto split: option.splits if_splits)
  from this [of "s_inFlight s" "s_lost s"]
  show "s_lost (snd (nextLost s)) \<noteq> []" "buf_find (s_inFlight s) (hd (s_lost (snd (nextLost s)))) = Some e" "fl_lost e"
    using assms by (simp_all add: nextLost_def split_beta)
qed

lemma send_kept_nextLost: "mStreams l la = Some s \<Longrightarrow> send_kept l (setStream la (snd (nextLost s)) l)"
  by (rule send_kept_setStream) (simp, rule window_kept_same, simp_all)

lemma peek_sends:
  assumes sends: "link_sends sent l" and la: "la \<noteq> Media" and src: "bounded_source next"
    and p: "peek (recording next) la (src, sent) l = (r, (src', sent'), l')"
  shows "link_sends sent' l' \<and> extends sent sent' \<and> (\<forall>d. r = Some d \<longrightarrow> datagram_carries sent' (mLocalStreamID l) d)"
  using la
proof (cases rule: peek_cases [of la "recording next" "(src, sent)" l])
  case (held l1)
  have "link_sends sent l1"
    using held(2) link_sends_kept [OF sends send_kept_nextLost] sends by auto
  then show ?thesis
    using held(1) p by simp
next
  case (lost s e)
  let ?l = "setStream la (snd (nextLost s)) l"
  let ?sq = "hd (s_lost (snd (nextLost s)))"
  let ?o = "offer (headerOf ?l la ?sq e) e ?l"
  have out: "r = Some (fst ?o)" "sent' = sent" "l' = snd ?o"
    using lost(6) p by (simp_all add: split_beta Let_def)
  have new: "link_sends sent ?l"
    using link_sends_kept [OF sends send_kept_nextLost] lost(1) by simp
  have lane: "lane_sends la (sent la) l"
    using sends by (simp add: link_sends_def)
  then have e: "?sq \<noteq> 0" "?sq < s_nextSendSeq s" "entry_carries e (fragments_of (sent la) ! (unat ?sq - 1))"
    and c: "cursor_sends (sent la) (s_cursor s) (unat (s_nextSendSeq s))"
    using la lost(1) nextLost_Some(2) [OF lost(2)] by (simp_all add: lane_sends_def stream_sends_def)
  have "unat ?sq - 1 < length (fragments_of (sent la))"
    using e(1,2) cursor_sends_bound [OF c] unat_pos_word [of ?sq] by (simp add: word_less_nat_alt del: unat_pos_word)
  then have "datagram_carries sent (mLocalStreamID ?l) (fst ?o)"
    using e lane new by (intro offer_carries) (simp_all add: link_sends_def lane_sends_def)
  then show ?thesis
    unfolding out using link_sends_fields [OF new] by (simp add: offer_state)
next
  case fresh
  then show ?thesis
    using peekFragment_sends [OF sends la src p [unfolded fresh(4)]] by simp
next
  case (onward s)
  have "link_sends sent (setStream la (snd (nextLost s)) l)"
    using link_sends_kept [OF sends send_kept_nextLost] onward(1) by simp
  then show ?thesis
    using peekFragment_sends [OF _ la src p [unfolded onward(7)]] by simp
qed

lemma peekMedia_sends:
  assumes sends: "link_sends sent l" and src: "bounded_source next"
    and p: "peekMedia (recording next) (src, sent) l = (r, (src', sent'), l')"
  shows "link_sends sent' l' \<and> extends sent sent' \<and> (\<forall>d. r = Some d \<longrightarrow> datagram_carries sent' (mLocalStreamID l) d)"
proof -
  have offered: "link_sends sn (snd (offer h e (l\<lparr>mMediaCursor := Some c\<rparr>))) \<and>
      datagram_carries sn (mLocalStreamID l) (fst (offer (headerOf (l\<lparr>mMediaCursor := Some c\<rparr>) Media (mNextMediaSeq l) (fragmentAt c))
        (fragmentAt c) (l\<lparr>mMediaCursor := Some c\<rparr>)))"
    if "link_sends sn (l\<lparr>mMediaCursor := Some c\<rparr>)" for sn c h e
  proof
    have lane: "lane_sends Media (sn Media) (l\<lparr>mMediaCursor := Some c\<rparr>)" and id: "mLocalStreamID l \<noteq> 0"
      using that by (simp_all add: link_sends_def)
    then have c: "cursor_sends (sn Media) (Some c) (unat (mNextMediaSeq l))"
      by (simp add: lane_sends_def)
    show "datagram_carries sn (mLocalStreamID l) (fst (offer (headerOf (l\<lparr>mMediaCursor := Some c\<rparr>) Media (mNextMediaSeq l) (fragmentAt c))
        (fragmentAt c) (l\<lparr>mMediaCursor := Some c\<rparr>)))"
      using offer_carries [of "fragmentAt c" sn Media "mNextMediaSeq l" "l\<lparr>mMediaCursor := Some c\<rparr>"]
        cursor_sends_next [OF c] cursor_sends_bound [OF c] lane id by (simp add: lane_sends_def)
    show "link_sends sn (snd (offer h e (l\<lparr>mMediaCursor := Some c\<rparr>)))"
      using link_sends_fields [OF that] by (simp add: offer_state)
  qed
  show ?thesis
  proof (cases "mMediaCursor l")
    case (Some c)
    then have "link_sends sent (l\<lparr>mMediaCursor := Some c\<rparr>)"
      using link_sends_fields [OF sends] by simp
    then show ?thesis
      using offered [of sent c] p Some by (auto simp: peekMedia_def Let_def split_beta)
  next
    case None
    obtain m src1 where n: "next src Media = (m, src1)"
      by (cases "next src Media")
    show ?thesis
    proof (cases m)
      case m: None
      then show ?thesis
        using p None n sends by (auto simp: peekMedia_def recording_def)
    next
      case (Some m')
      let ?sent = "sent(Media := sent Media @ [(om_tag m', om_body m')])"
      have len: "length (om_body m') \<le> maxMessageSize Media"
        using src n Some by (auto simp: bounded_source_def)
      have "cursor_sends (sent Media) None (unat (mNextMediaSeq l))"
        using sends None unfolding link_sends_def lane_sends_def by metis
      then have "link_sends ?sent (l\<lparr>mMediaCursor := Some (cursorFor m')\<rparr>)"
        using sends len cursor_sends_new [of "sent Media" "unat (mNextMediaSeq l)" m']
        by (auto simp: link_sends_def lane_sends_def)
      then show ?thesis
        using offered [of ?sent "cursorFor m'"] p None n Some by (auto simp: peekMedia_def recording_def Let_def split_beta)
    qed
  qed
qed

text \<open>Every datagram that \<open>peek\<close> offers carries what its seq stands for.\<close>

lemma peek_any_sends:
  assumes "link_sends sent l" and "bounded_source next" and "\<not> mFailed l"
    and "peek (recording next) la (src, sent) l = (r, (src', sent'), l')"
  shows "link_sends sent' l' \<and> extends sent sent' \<and> (\<forall>d. r = Some d \<longrightarrow> datagram_carries sent' (mLocalStreamID l) d)"
proof (cases "la = Media")
  case True
  then have "peekMedia (recording next) (src, sent) l = (r, (src', sent'), l')"
    using assms(3,4) by (simp add: peek_def)
  then show ?thesis
    by (rule peekMedia_sends [OF assms(1,2)])
next
  case False
  then show ?thesis
    by (rule peek_sends [OF assms(1) _ assms(2,4)])
qed


lemma send_kept_transmit:
  assumes s: "mStreams l la = Some s" and e: "buf_find (s_inFlight s) sq = Some e"
  shows "send_kept l (transmit la sq now l)"
proof -
  let ?e = "transmitted now (mTransmissions l + 1) e"
  let ?s = "s\<lparr>s_inFlight := buf_update (s_inFlight s) sq (\<lambda>_. ?e), s_onTheWire := s_onTheWire s + 1\<rparr>"
  obtain stats where t: "transmit la sq now l = updateProgressClock now False
    (l\<lparr>mStats := stats, mTransmissions := mTransmissions l + 1, mStreams := (mStreams l)(la := Some ?s),
       mSent := mSent l @ [\<lparr>sr_transmission = mTransmissions l + 1, sr_seq = sq, sr_lane = la\<rparr>]\<rparr>)"
    using transmit_eq [OF s, of sq e] e by auto
  have "window_kept (windowOf la) s ?s"
    by (rule window_kept_update [where sq = sq and f = "\<lambda>_. ?e"]) (use e in \<open>auto simp: same_fragment_def transmitted_def\<close>)
  then have "send_kept l (setStream la ?s l)"
    by (rule send_kept_setStream [OF s])
  then have "send_kept l (l\<lparr>mStats := stats, mTransmissions := mTransmissions l + 1, mStreams := (mStreams l)(la := Some ?s),
       mSent := mSent l @ [\<lparr>sr_transmission = mTransmissions l + 1, sr_seq = sq, sr_lane = la\<rparr>]\<rparr>)"
    by (rule send_kept_fields) (simp_all add: setStream_def)
  then show ?thesis
    unfolding t by (rule send_kept_trans [OF _ send_kept_updateProgressClock])
qed

text \<open>Sending a fragment for the first time: its entry and the cursor move on together.\<close>

lemma stream_sends_insert:
  assumes s: "stream_sends cap ms s" and c: "s_cursor s = Some c" and few: "length (fragments_of ms) < 2 ^ 63"
    and s': "s_inFlight s' = buf_insert (s_inFlight s) (s_nextSendSeq s) (fragmentAt c)"
      "s_nextSendSeq s' = s_nextSendSeq s + 1" "s_cursor s' = advanceCursor c"
  shows "stream_sends cap ms s'"
proof -
  let ?n = "s_nextSendSeq s"
  have cur: "cursor_sends ms (Some c) (unat ?n)" and ok: "buf_ok cap (s_inFlight s)"
    using s c by (simp_all add: stream_sends_def)
  have "unat ?n < 2 ^ 64 - 1"
    using cursor_sends_next(1) [OF cur] few by simp
  then have n: "unat (?n + 1) = Suc (unat ?n)"
    using unat_plus_of_nat [of ?n 1] by simp
  then have less: "?n < ?n + 1" "\<And>sq. sq < ?n \<Longrightarrow> sq < ?n + 1"
    by (simp_all add: word_less_nat_alt)
  have "?n \<noteq> 0"
    using cursor_sends_bound [OF cur] by auto
  then have "sq \<noteq> 0 \<and> sq < ?n + 1 \<and> entry_carries e (fragments_of ms ! (unat sq - 1))"
    if "buf_find (buf_insert (s_inFlight s) ?n (fragmentAt c)) sq = Some e" for sq e
    using that s less cursor_sends_next(3) [OF cur] by (auto simp: buf_find_insert [OF ok] stream_sends_def split: if_splits)
  then show ?thesis
    using cursor_sends_advance [OF cur] n by (simp add: stream_sends_def s' buf_ok_insert [OF ok])
qed

lemma link_sends_setStream:
  assumes "link_sends sent l" and "la \<noteq> Media" and "mStreams l la = Some s" and "stream_sends (windowOf la) (sent la) s'"
  shows "link_sends sent (setStream la s' l)"
proof -
  have "lane_sends la' (sent la') (setStream la s' l)" for la'
    using assms by (cases "la' = la") (auto simp: link_sends_def lane_sends_def)
  then show ?thesis
    using assms(1) by (simp add: link_sends_def)
qed

lemma commit_sends:
  assumes sends: "link_sends sent l" and few: "few sent"
  shows "link_sends sent (commit la now l)"
proof (cases "la = Media")
  case True
  show ?thesis
  proof (cases "mMediaCursor l")
    case (Some c)
    have cur: "cursor_sends (sent Media) (Some c) (unat (mNextMediaSeq l))"
      using sends Some unfolding link_sends_def lane_sends_def by metis
    have "unat (mNextMediaSeq l) < 2 ^ 64 - 1"
      using cursor_sends_next(1) [OF cur] few by (auto simp: few_def dest: spec [of _ Media])
    then have "unat (mNextMediaSeq l + 1) = Suc (unat (mNextMediaSeq l))"
      using unat_plus_of_nat [of "mNextMediaSeq l" 1] by simp
    then show ?thesis
      using sends True Some cursor_sends_advance [OF cur]
      by (auto simp: commit_def Let_def link_sends_def lane_sends_def)
  qed (simp add: commit_def True sends)
next
  case False
  then show ?thesis
  proof (cases rule: commit_cases [of la l now])
    case absent
    then show ?thesis using sends by simp
  next
    case (idle s)
    then show ?thesis
      using link_sends_kept [OF sends send_kept_nextLost] by simp
  next
    case (again s e)
    let ?s = "(snd (nextLost s))\<lparr>s_lost := tl (s_lost (snd (nextLost s)))\<rparr>"
    have "send_kept l (setStream la ?s l)"
      by (rule send_kept_setStream [OF again(1) window_kept_same]) simp_all
    moreover have "send_kept (setStream la ?s l) (commit la now l)"
      unfolding again(3) using nextLost_Some(2) [OF again(2)] by (intro send_kept_transmit [of _ _ ?s]) simp_all
    ultimately show ?thesis
      using link_sends_kept [OF sends] send_kept_trans by blast
  next
    case (first s c)
    let ?s = "(snd (nextLost s))\<lparr>s_nextSendSeq := s_nextSendSeq s + 1,
      s_inFlight := buf_insert (s_inFlight s) (s_nextSendSeq s) (fragmentAt c), s_cursor := advanceCursor c\<rparr>"
    have str: "stream_sends (windowOf la) (sent la) s"
      using sends first(1) False unfolding link_sends_def lane_sends_def by (metis option.simps(5))
    have "stream_sends (windowOf la) (sent la) ?s"
      using few by (intro stream_sends_insert [OF str first(3)]) (simp_all add: few_def)
    then have "link_sends sent (setStream la ?s l)"
      by (rule link_sends_setStream [OF sends False first(1)])
    moreover have "buf_find (s_inFlight ?s) (s_nextSendSeq s) = Some (fragmentAt c)"
      using str buf_find_insert [of "windowOf la" "s_inFlight s"] by (simp add: stream_sends_def)
    then have "send_kept (setStream la ?s l) (commit la now l)"
      unfolding first(4) by (intro send_kept_transmit [of _ _ ?s]) simp_all
    ultimately show ?thesis
      by (rule link_sends_kept)
  qed
qed

end
