(* ===== verification/LinkReceiving.thy ===== *)
theory LinkReceiving
  imports LinkSending
begin

text \<open>
  The receive side of a link, as what it has to do with the messages of the remote. \<open>link_receives\<close>
  says of every acknowledged lane that the messages delivered so far are the first ones the remote
  took from its source, that the assembler holds the fragments of the next one up to
  \<open>nextExpected\<close>, and that what waits in the reorder buffer is what its seqs stand for; of the Media
  lane, that whatever was delivered is a message of the remote. Every operation keeps it.
\<close>

unbundle bit_operations_syntax

section \<open>What a link has received\<close>

definition fragment_packet :: "message list \<Rightarrow> PacketHeader \<Rightarrow> bytes \<Rightarrow> bool" where
  "fragment_packet ms h frag \<longleftrightarrow>
     seq h \<noteq> 0 \<and> unat (seq h) - 1 < length (fragments_of ms) \<and>
     (\<exists>t body k. fragments_of ms ! (unat (seq h) - 1) = ((t, body), k) \<and> carries h t body k \<and> frag = fragment_body body k)"

lemma packet_carries_fragment:
  "packet_carries sent p \<longleftrightarrow> (kind (flags (pkt_header p)) = Data \<longrightarrow>
     fragment_packet (sent (lane (flags (pkt_header p)))) (pkt_header p) (pkt_body p))"
  by (auto simp: packet_carries_def fragment_packet_def Let_def)

text \<open>The messages \<open>got\<close> and the assembler after all the fragments before number \<open>n - 1\<close>.\<close>

definition assembled :: "message list \<Rightarrow> message list \<Rightarrow> nat \<Rightarrow> MessageAssembler \<Rightarrow> bool" where
  "assembled ms got n a \<longleftrightarrow>
     (\<exists>rest k. ms = got @ rest \<and> n = Suc (length (fragments_of got) + k) \<and>
        (case rest of [] \<Rightarrow> k = 0 \<and> a = emptyAssembler
         | m # _ \<Rightarrow> k < fragmentsOf (length (snd m)) \<and> a = asm_at (fst m) (snd m) k))"

definition stream_receives :: "nat \<Rightarrow> message list \<Rightarrow> message list \<Rightarrow> Stream \<Rightarrow> bool" where
  "stream_receives cap ms got s \<longleftrightarrow>
     buf_ok cap (s_reorder s) \<and> assembled ms got (unat (s_nextExpected s)) (s_assembler s) \<and>
     (\<forall>sq b. buf_find (s_reorder s) sq = Some b \<longrightarrow>
        seq (bd_header b) = sq \<and> fragment_packet ms (bd_header b) (bd_body b))"

text \<open>The Media message that starts with a seq.\<close>

definition media_map :: "message list \<Rightarrow> u64 \<rightharpoonup> u32 \<times> bytes" where
  "media_map ms sq =
     (if sq \<noteq> 0 \<and> unat sq - 1 < length (fragments_of ms) \<and> snd (fragments_of ms ! (unat sq - 1)) = 0
      then Some (fst (fragments_of ms ! (unat sq - 1))) else None)"

definition on_lane :: "Lane \<Rightarrow> DeliveredMessage list \<Rightarrow> message list" where
  "on_lane la ds = map (\<lambda>d. (dm_tag d, dm_body d)) (filter (\<lambda>d. dm_lane d = la) ds)"

text \<open>\<open>out\<close> is everything the link has delivered, what was taken from it already included.\<close>

definition lane_receives :: "Lane \<Rightarrow> message list \<Rightarrow> message list \<Rightarrow> Stream option \<Rightarrow> bool" where
  "lane_receives la ms got st \<longleftrightarrow>
     (case st of None \<Rightarrow> got = [] | Some s \<Rightarrow> stream_receives (windowOf la) ms got s)"

definition link_receives :: "(Lane \<Rightarrow> message list) \<Rightarrow> DeliveredMessage list \<Rightarrow> Link \<Rightarrow> bool" where
  "link_receives sent out l \<longleftrightarrow>
     (\<forall>la. \<forall>m \<in> set (sent la). length (snd m) \<le> maxMessageSize la) \<and>
     (\<forall>la. la \<noteq> Media \<longrightarrow> lane_receives la (sent la) (on_lane la out) (mStreams l la)) \<and>
     set (on_lane Media out) \<subseteq> set (sent Media) \<and>
     (case mMediaAssembler l of None \<Rightarrow> True
      | Some m \<Rightarrow> media_ok m \<and> slots_hold (media_map (sent Media)) m)"

lemma on_lane_append [simp]: "on_lane la (ds @ ds') = on_lane la ds @ on_lane la ds'"
  by (simp add: on_lane_def)

lemma on_lane_Nil [simp]: "on_lane la [] = []"
  by (simp add: on_lane_def)

lemma fragment_packet_extends: "fragment_packet ms h frag \<Longrightarrow> fragment_packet (ms @ ms') h frag"
  by (auto simp: fragment_packet_def nth_append)

lemma assembled_extends:
  assumes "assembled ms got n a"
  shows "assembled (ms @ ms') got n a"
proof -
  obtain rest k where r: "ms = got @ rest" "n = Suc (length (fragments_of got) + k)"
    "case rest of [] \<Rightarrow> k = 0 \<and> a = emptyAssembler | m # _ \<Rightarrow> k < fragmentsOf (length (snd m)) \<and> a = asm_at (fst m) (snd m) k"
    using assms unfolding assembled_def by blast
  then have "case rest @ ms' of [] \<Rightarrow> k = 0 \<and> a = emptyAssembler
      | m # _ \<Rightarrow> k < fragmentsOf (length (snd m)) \<and> a = asm_at (fst m) (snd m) k"
    by (cases rest; cases ms') (auto simp: asm_at_def fragmentsOf_pos)
  then show ?thesis
    unfolding assembled_def using r(1,2) by (intro exI [of _ "rest @ ms'"] exI [of _ k]) simp
qed

lemma stream_receives_extends: "stream_receives cap ms got s \<Longrightarrow> stream_receives cap (ms @ ms') got s"
  by (auto simp: stream_receives_def assembled_extends fragment_packet_extends)

lemma media_map_extends: "media_map ms sq = Some m \<Longrightarrow> media_map (ms @ ms') sq = Some m"
  by (auto simp: media_map_def nth_append split: if_splits)

lemma media_map_ran: "ran (media_map ms) \<subseteq> set ms"
proof
  fix m assume "m \<in> ran (media_map ms)"
  then obtain sq where "media_map ms sq = Some m"
    by (auto simp: ran_def)
  then have "unat sq - 1 < length (fragments_of ms)" "fragments_of ms ! (unat sq - 1) = (m, 0)"
    by (auto simp: media_map_def prod_eq_iff split: if_splits)
  then show "m \<in> set ms"
    using fragments_start by blast
qed

lemma carries_media_packet:
  assumes "fragment_packet ms h frag" and "\<forall>m \<in> set ms. length (snd m) \<le> MaxMediaPayload"
  shows "carries_media (media_map ms) h frag"
proof -
  let ?i = "unat (seq h) - 1"
  obtain t body k where i: "seq h \<noteq> 0" "?i < length (fragments_of ms)" and f: "fragments_of ms ! ?i = ((t, body), k)"
    and c: "carries h t body k" "frag = fragment_body body k"
    using assms(1) by (auto simp: fragment_packet_def)
  have st: "k \<le> ?i" "fragments_of ms ! (?i - k) = ((t, body), 0)" "k < fragmentsOf (length body)" "(t, body) \<in> set ms"
    using fragments_start [OF i(2) f] by auto
  have pos: "0 < unat (seq h)"
    using i(1) by simp
  then have k: "k < unat (seq h)"
    using st(1) by linarith
  have "unat (seq h) < 2 ^ LENGTH(64)"
    by (rule unsigned_less)
  then have "unat (of_nat k :: u64) = k"
    using k by (simp add: unat_of_nat)
  then have start: "unat (seq h - of_nat k) = unat (seq h) - k"
    using k by (simp add: unat_sub_if_size word_le_nat_alt)
  then have "seq h - of_nat k \<noteq> 0" "unat (seq h - of_nat k) - 1 = ?i - k"
    using k unat_eq_0_word [of "seq h - of_nat k"] by (simp_all del: unat_eq_0_word)
  then have "media_map ms (seq h - of_nat k) = Some (t, body)"
    using i(2) st(2) by (simp add: media_map_def)
  then show ?thesis
    unfolding carries_media_def using st k c assms(2) by fastforce
qed

lemma link_receives_extends:
  assumes "link_receives sent out l" and "extends sent sent'"
    and "\<forall>la. \<forall>m \<in> set (sent' la). length (snd m) \<le> maxMessageSize la"
  shows "link_receives sent' out l"
proof -
  have ext: "\<exists>ms. sent' la = sent la @ ms" for la
    using assms(2) by (simp add: extends_def)
  have "lane_receives la (sent' la) (on_lane la out) (mStreams l la)" if "la \<noteq> Media" for la
  proof -
    have "lane_receives la (sent la) (on_lane la out) (mStreams l la)"
      using assms(1) that by (simp add: link_receives_def)
    then show ?thesis
      using ext [of la] stream_receives_extends by (cases "mStreams l la") (auto simp: lane_receives_def)
  qed
  moreover obtain ms where ms: "sent' Media = sent Media @ ms"
    using ext by blast
  have "slots_hold (media_map (sent' Media)) m" if "slots_hold (media_map (sent Media)) m" for m
    using that media_map_extends unfolding slots_hold_def ms by blast
  ultimately show ?thesis
    using assms(1,3) ms by (auto simp: link_receives_def split: option.splits)
qed

text \<open>Operations that keep the receive side keep it.\<close>

lemma stream_receives_side:
  "stream_receives cap ms got s \<Longrightarrow> recv_side s' = recv_side s \<Longrightarrow> stream_receives cap ms got s'"
  by (simp add: stream_receives_def recv_side_def)

lemma stream_receives_new:
  assumes "la \<noteq> Media"
  shows "stream_receives (windowOf la) ms [] (newStream (windowOf la))"
proof -
  have "\<exists>k \<le> 32. windowOf la = 2 ^ k"
    using assms by (cases la) (auto simp: windowOf_def constants intro: exI [of _ 5] exI [of _ 8])
  then have "buf_ok (windowOf la) (sequenceBuffer (windowOf la) :: BufferedData SequenceBuffer)"
    using buf_ok_new by auto
  then show ?thesis
    by (cases ms) (simp_all add: stream_receives_def newStream_def assembled_def asm_at_def buf_find_new fragmentsOf_pos)
qed

lemma link_receives_same:
  assumes "link_receives sent out l" and "same_recv l l'"
  shows "link_receives sent out l'"
proof -
  have "lane_receives la (sent la) (on_lane la out) (mStreams l' la)" if "la \<noteq> Media" for la
  proof -
    have "same_view recv_side la (mStreams l la) (mStreams l' la)"
      "lane_receives la (sent la) (on_lane la out) (mStreams l la)"
      using assms that by (simp_all add: same_recv_def link_receives_def)
    then show ?thesis
      using stream_receives_side stream_receives_new [OF that, of "sent la"]
      by (cases "mStreams l la"; cases "mStreams l' la") (auto simp: lane_receives_def same_view_def)
  qed
  then show ?thesis
    using assms by (simp add: link_receives_def same_recv_def)
qed

lemma link_receives_fields:
  assumes "link_receives sent out l" and "mStreams l' = mStreams l" "mMediaAssembler l' = mMediaAssembler l"
  shows "link_receives sent out l'"
  using assms by (simp add: link_receives_def)



section \<open>Taking packets in order\<close>

text \<open>The packet that is expected next takes the assembler one fragment further.\<close>

lemma assembled_accept:
  assumes asm: "assembled ms got (unat (seq h)) a" and f: "fragment_packet ms h frag" and room: "hasRoomFor bg h"
    and len: "\<forall>m \<in> set ms. length (snd m) \<le> MaxMessagePayload"
    and acc: "assembler_accept h frag (a, bg) = (r, a', bg')"
  shows "assembled ms (got @ (case r of None \<Rightarrow> [] | Some m \<Rightarrow> [(am_tag m, am_body m)])) (Suc (unat (seq h))) a'"
proof -
  obtain rest k where ms: "ms = got @ rest" and n: "unat (seq h) = Suc (length (fragments_of got) + k)"
    and rest: "case rest of [] \<Rightarrow> k = 0 \<and> a = emptyAssembler | m # _ \<Rightarrow> k < fragmentsOf (length (snd m)) \<and> a = asm_at (fst m) (snd m) k"
    using asm unfolding assembled_def by blast
  have "unat (seq h) - 1 < length (fragments_of ms)"
    using f by (simp add: fragment_packet_def)
  then obtain t body more where r: "rest = (t, body) # more"
    using n ms rest by (cases rest) auto
  have k: "k < fragmentsOf (length body)" and a: "a = asm_at t body k"
    using rest r by simp_all
  have "fragments_of ms ! (unat (seq h) - 1) = ((t, body), k)"
    using n k by (simp add: ms r fragments_of_Cons nth_append)
  then have c: "carries h t body k" and frag: "frag = fragment_body body k"
    using f by (auto simp: fragment_packet_def)
  have "length body \<le> MaxMessagePayload"
    using len by (simp add: ms r)
  then obtain bg1 where eq: "assembler_accept h frag (a, bg) =
      (if k + 1 = fragmentsOf (length body) then (Some \<lparr>am_tag = t, am_body = body\<rparr>, emptyAssembler, bg1)
       else (None, asm_at t body (k + 1), bg1))"
    using accept_fragment [OF _ k c room] unfolding a frag by metis
  show ?thesis
  proof (cases "k + 1 = fragmentsOf (length body)")
    case True
    then have "r = Some \<lparr>am_tag = t, am_body = body\<rparr>" "a' = emptyAssembler"
      using acc eq by simp_all
    then show ?thesis
      unfolding assembled_def using n True
      by (intro exI [of _ more] exI [of _ 0]) (cases more, simp_all add: ms r asm_at_def fragmentsOf_pos)
  next
    case False
    then have "r = None" "a' = asm_at t body (k + 1)"
      using acc eq by simp_all
    then show ?thesis
      unfolding assembled_def using n k False
      by (intro exI [of _ rest] exI [of _ "k + 1"]) (simp add: ms r)
  qed
qed

lemma assembled_next:
  assumes "assembled ms got n a" and "length (fragments_of ms) < 2 ^ 63"
  shows "0 < n \<and> n \<le> 2 ^ 63"
proof -
  obtain rest k where ms: "ms = got @ rest" and n: "n = Suc (length (fragments_of got) + k)"
    and rest: "case rest of [] \<Rightarrow> k = 0 \<and> a = emptyAssembler | m # _ \<Rightarrow> k < fragmentsOf (length (snd m)) \<and> a = asm_at (fst m) (snd m) k"
    using assms unfolding assembled_def by blast
  have "length (fragments_of got) + k \<le> length (fragments_of ms)"
    using rest by (cases rest) (auto simp: ms fragments_of_Cons)
  then show ?thesis
    using assms(2) n by simp
qed

text \<open>One lane changes, and messages of that lane are delivered.\<close>

definition delivers :: "Lane \<Rightarrow> message list \<Rightarrow> DeliveredMessage list" where
  "delivers la ms = map (\<lambda>m. \<lparr>dm_lane = la, dm_tag = fst m, dm_body = snd m\<rparr>) ms"

lemma on_lane_delivers: "on_lane la' (delivers la ms) = (if la' = la then ms else [])"
  by (induction ms) (auto simp: on_lane_def delivers_def)

lemma delivers_append [simp]: "delivers la (a @ b) = delivers la a @ delivers la b"
  by (simp add: delivers_def)

lemma delivers_Nil [simp]: "delivers la [] = []"
  by (simp add: delivers_def)

lemma link_receives_lane:
  assumes "link_receives sent out l" and "la \<noteq> Media"
    and "mStreams l' = (mStreams l)(la := Some s)" and "mMediaAssembler l' = mMediaAssembler l"
    and "stream_receives (windowOf la) (sent la) (on_lane la out @ new) s"
  shows "link_receives sent (out @ delivers la new) l'"
proof -
  have "lane_receives la' (sent la') (on_lane la' (out @ delivers la new)) (mStreams l' la')" if "la' \<noteq> Media" for la'
    using assms that by (cases "la' = la") (simp_all add: link_receives_def on_lane_delivers, simp add: lane_receives_def)
  then show ?thesis
    using assms by (simp add: link_receives_def on_lane_delivers)
qed

text \<open>\<open>acceptInOrder\<close>: refused for lack of room, or taken.\<close>

lemma acceptInOrder_cases:
  assumes "mStreams l la = Some s"
  obtains (refused) "acceptInOrder la h body l =
      (False, setStream la (s\<lparr>s_budgetPaused := True, s_refusedLength := totalLength h\<rparr>) l)"
      "\<not> hasRoomFor (mBudget l) h"
  | (taken) r a bg stats where "hasRoomFor (mBudget l) h"
      "assembler_accept h body (s_assembler s, mBudget l) = (r, a, bg)"
      "acceptInOrder la h body l = (True, (setStream la (s\<lparr>s_assembler := a\<rparr>) l)\<lparr>mBudget := bg, mStats := stats,
         mDelivered := mDelivered l @ delivers la (case r of None \<Rightarrow> [] | Some m \<Rightarrow> [(am_tag m, am_body m)])\<rparr>)"
proof (cases "hasRoomFor (mBudget l) h")
  case False
  then show ?thesis
    using refused assms by (simp add: acceptInOrder_def)
next
  case True
  obtain r a bg where acc: "assembler_accept h body (s_assembler s, mBudget l) = (r, a, bg)"
    by (metis prod_cases3)
  show ?thesis
  proof (cases r)
    case None
    show ?thesis
      by (rule taken [OF True acc, of "mStats l"])
        (simp add: acceptInOrder_def assms True acc None setStream_def)
  next
    case (Some m)
    let ?stats = "delivered_update (\<lambda>n. n + 1) (bytesReceived_update
      (\<lambda>n. n + (if la \<noteq> Control then of_nat (length (am_body m)) else 0)) (mStats l))"
    show ?thesis
      by (rule taken [OF True acc, of ?stats])
        (simp add: acceptInOrder_def assms True acc Some setStream_def delivers_def Let_def)
  qed
qed


text \<open>
  A step of a link that receives: what it delivers is appended to what was delivered before. Steps
  can be composed.
\<close>

definition recv_step :: "(Lane \<Rightarrow> message list) \<Rightarrow> Link \<Rightarrow> Link \<Rightarrow> bool" where
  "recv_step sent l l' \<longleftrightarrow>
     (\<forall>out. link_receives sent out l \<longrightarrow>
        (\<exists>ds. mDelivered l' = mDelivered l @ ds \<and> link_receives sent (out @ ds) l'))"

lemma recv_step_refl: "recv_step sent l l"
  by (auto simp: recv_step_def)

lemma recv_step_trans:
  assumes ab: "recv_step sent a b" and bc: "recv_step sent b c"
  shows "recv_step sent a c"
  unfolding recv_step_def
proof (intro allI impI)
  fix out assume "link_receives sent out a"
  then obtain ds where b: "mDelivered b = mDelivered a @ ds" "link_receives sent (out @ ds) b"
    using ab by (auto simp: recv_step_def)
  then obtain ds' where "mDelivered c = mDelivered b @ ds'" "link_receives sent ((out @ ds) @ ds') c"
    using bc unfolding recv_step_def by blast
  then show "\<exists>ds. mDelivered c = mDelivered a @ ds \<and> link_receives sent (out @ ds) c"
    using b(1) by (intro exI [of _ "ds @ ds'"]) simp
qed

interpretation step: link_preorder "recv_step sent" for sent
  by unfold_locales (rule recv_step_refl, rule recv_step_trans)

lemma recv_step_same: "same_recv l l' \<Longrightarrow> recv_step sent l l'"
  unfolding recv_step_def using link_receives_same by (fastforce simp: same_recv_def)

lemma recv_step_fields:
  assumes "recv_step sent l l'" and "mStreams l'' = mStreams l'" "mMediaAssembler l'' = mMediaAssembler l'" "mDelivered l'' = mDelivered l'"
  shows "recv_step sent l l''"
  using assms link_receives_fields [of sent _ l' l''] unfolding recv_step_def by metis

lemma recv_step_stream:
  assumes "mStreams l la = Some s" "la \<noteq> Media"
    and "mStreams l' = (mStreams l)(la := Some s')" "mMediaAssembler l' = mMediaAssembler l"
    and "mDelivered l' = mDelivered l @ delivers la new"
    and "\<And>got. stream_receives (windowOf la) (sent la) got s \<Longrightarrow> stream_receives (windowOf la) (sent la) (got @ new) s'"
  shows "recv_step sent l l'"
  unfolding recv_step_def
proof (intro allI impI)
  fix out assume r: "link_receives sent out l"
  then have "lane_receives la (sent la) (on_lane la out) (Some s)"
    using assms(1,2) by (metis link_receives_def)
  then have "stream_receives (windowOf la) (sent la) (on_lane la out @ new) s'"
    using assms(6) by (simp add: lane_receives_def)
  then have "link_receives sent (out @ delivers la new) l'"
    by (rule link_receives_lane [OF r assms(2,3,4)])
  then show "\<exists>ds. mDelivered l' = mDelivered l @ ds \<and> link_receives sent (out @ ds) l'"
    using assms(5) by blast
qed

text \<open>The expected packet, taken: \<open>nextExpected\<close> moves on, and the buffer may lose its entry.\<close>

lemma recv_step_accept:
  assumes s: "mStreams l la = Some s" and la: "la \<noteq> Media" and few: "few sent"
    and f: "fragment_packet (sent la) h frag" "seq h = s_nextExpected s"
    and len: "\<forall>m \<in> set (sent la). length (snd m) \<le> MaxMessagePayload"
    and acc: "acceptInOrder la h frag l = (taken, l1)"
  shows "\<exists>s1. mStreams l1 = (mStreams l)(la := Some s1) \<and>
    (if taken then \<forall>b. b = s_reorder s \<or> (\<exists>sq. b = snd (buf_erase (s_reorder s) sq)) \<longrightarrow>
       recv_step sent l (setStream la (s1\<lparr>s_reorder := b, s_nextExpected := s_nextExpected s1 + 1\<rparr>) l1)
     else recv_step sent l l1) \<and> s_reorder s1 = s_reorder s \<and> s_nextExpected s1 = s_nextExpected s"
  using s
proof (cases rule: acceptInOrder_cases [of l la s h frag])
  case refused
  have "recv_step sent l l1"
    by (rule recv_step_stream [OF s la, of _ "s\<lparr>s_budgetPaused := True, s_refusedLength := totalLength h\<rparr>" "[]"])
      (use refused acc in \<open>auto simp: stream_receives_def\<close>)
  then show ?thesis
    using refused acc by auto
next
  case (taken r a bg stats)
  let ?new = "case r of None \<Rightarrow> [] | Some m \<Rightarrow> [(am_tag m, am_body m)]"
  let ?s1 = "s\<lparr>s_assembler := a\<rparr>"
  have l1: "mStreams l1 = (mStreams l)(la := Some ?s1)" "mMediaAssembler l1 = mMediaAssembler l"
    "mDelivered l1 = mDelivered l @ delivers la ?new" and t: "taken = True"
    using taken(3) acc by auto
  have "recv_step sent l (setStream la (?s1\<lparr>s_reorder := b, s_nextExpected := s_nextExpected ?s1 + 1\<rparr>) l1)"
    if b: "b = s_reorder s \<or> (\<exists>sq. b = snd (buf_erase (s_reorder s) sq))" for b
  proof (rule recv_step_stream [OF s la, where new = ?new])
    fix got assume st: "stream_receives (windowOf la) (sent la) got s"
    then have asm: "assembled (sent la) got (unat (seq h)) (s_assembler s)" and ok: "buf_ok (windowOf la) (s_reorder s)"
      using f(2) by (simp_all add: stream_receives_def)
    have "unat (s_nextExpected s) < 2 ^ 64 - 1"
      using assembled_next [OF asm] few f(2) by (simp add: few_def)
    then have "unat (s_nextExpected s + 1) = Suc (unat (seq h))"
      using unat_plus_of_nat [of "s_nextExpected s" 1] f(2) by simp
    moreover have "assembled (sent la) (got @ ?new) (Suc (unat (seq h))) a"
      by (rule assembled_accept [OF asm f(1) taken(1) len taken(2)])
    moreover have "buf_ok (windowOf la) b" "\<And>sq e. buf_find b sq = Some e \<Longrightarrow> buf_find (s_reorder s) sq = Some e"
      using b ok by (auto simp: buf_ok_erase buf_find_erase [OF ok] split: if_splits)
    ultimately show "stream_receives (windowOf la) (sent la) (got @ ?new)
        (?s1\<lparr>s_reorder := b, s_nextExpected := s_nextExpected ?s1 + 1\<rparr>)"
      using st by (simp add: stream_receives_def) blast
  qed (use l1 in simp_all)
  then show ?thesis
    using l1(1) t by (intro exI [of _ ?s1]) auto
qed


lemma recv_step_if: "(\<And>out. link_receives sent out l \<Longrightarrow> recv_step sent l l') \<Longrightarrow> recv_step sent l l'"
  by (auto simp: recv_step_def)

lemma link_receives_stream:
  assumes "link_receives sent out l" and "la \<noteq> Media" and "mStreams l la = Some s"
  shows "stream_receives (windowOf la) (sent la) (on_lane la out) s"
    and "\<forall>m \<in> set (sent la). length (snd m) \<le> MaxMessagePayload"
proof -
  have "lane_receives la (sent la) (on_lane la out) (Some s)"
    using assms by (metis link_receives_def)
  then show "stream_receives (windowOf la) (sent la) (on_lane la out) s"
    by (simp add: lane_receives_def)
  show "\<forall>m \<in> set (sent la). length (snd m) \<le> MaxMessagePayload"
    using assms(1) lane_size by (auto simp: link_receives_def)
qed

lemma recv_step_drainLoop:
  assumes la: "la \<noteq> Media" and few: "few sent"
  shows "recv_step sent l (drainLoop n la l)"
proof (induction n arbitrary: l)
  case 0
  then show ?case by (simp add: recv_step_refl)
next
  case (Suc n)
  show ?case
  proof (cases "\<exists>s b. mStreams l la = Some s \<and> buf_find (s_reorder s) (s_nextExpected s) = Some b")
    case False
    then show ?thesis
      by (auto simp: recv_step_refl split: option.splits)
  next
    case True
    then obtain s b where s: "mStreams l la = Some s" and b: "buf_find (s_reorder s) (s_nextExpected s) = Some b"
      by blast
    show ?thesis
    proof (rule recv_step_if)
      fix out assume r: "link_receives sent out l"
      have f: "fragment_packet (sent la) (bd_header b) (bd_body b)" "seq (bd_header b) = s_nextExpected s"
        using link_receives_stream(1) [OF r la s] b by (auto simp: stream_receives_def)
      obtain taken l1 where acc: "acceptInOrder la (bd_header b) (bd_body b) l = (taken, l1)"
        by (cases "acceptInOrder la (bd_header b) (bd_body b) l")
      obtain s1 where s1: "mStreams l1 = (mStreams l)(la := Some s1)" "s_reorder s1 = s_reorder s" "s_nextExpected s1 = s_nextExpected s"
        and step: "if taken then \<forall>b. b = s_reorder s \<or> (\<exists>sq. b = snd (buf_erase (s_reorder s) sq)) \<longrightarrow>
             recv_step sent l (setStream la (s1\<lparr>s_reorder := b, s_nextExpected := s_nextExpected s1 + 1\<rparr>) l1)
           else recv_step sent l l1"
        using recv_step_accept [OF s la few f link_receives_stream(2) [OF r la s] acc] by blast
      show "recv_step sent l (drainLoop (Suc n) la l)"
      proof (cases taken)
        case True
        let ?l2 = "setStream la (s1\<lparr>s_reorder := snd (buf_erase (s_reorder s1) (s_nextExpected s1)),
          s_nextExpected := s_nextExpected s1 + 1\<rparr>) l1"
        have "recv_step sent l ?l2"
          using step True s1(2) by auto
        then show ?thesis
          using recv_step_trans [OF _ Suc.IH, of l ?l2] s b acc True s1 by simp
      next
        case False
        then show ?thesis
          using step s b acc by simp
      qed
    qed
  qed
qed

lemma recv_step_drain:
  assumes "la \<noteq> Media" and "few sent"
  shows "recv_step sent l (drainReorderBuffer la l)"
  using recv_step_drainLoop [OF assms] recv_step_refl by (simp add: drainReorderBuffer_def split: option.splits)

lemma recv_step_retryRefused:
  assumes "la \<noteq> Media" and "few sent"
  shows "recv_step sent l (retryRefused la l)"
proof (cases "mStreams l la")
  case (Some s)
  let ?l = "setStream la (s\<lparr>s_budgetPaused := False\<rparr>) l"
  have "recv_step sent l ?l"
    by (rule recv_step_stream [OF Some assms(1), of _ "s\<lparr>s_budgetPaused := False\<rparr>" "[]"]) (auto simp: stream_receives_def)
  then have "recv_step sent l (drainReorderBuffer la ?l)"
    using recv_step_trans recv_step_drain [OF assms] by blast
  then have "recv_step sent l ((drainReorderBuffer la ?l)\<lparr>mAckDue := x\<rparr>)" for x
    by (rule recv_step_fields) simp_all
  then show ?thesis
    using Some recv_step_refl by (simp add: retryRefused_def Let_def)
qed (simp add: retryRefused_def recv_step_refl)

lemma recv_step_handleData:
  assumes la: "la \<noteq> Media" and few: "few sent" and f: "fragment_packet (sent la) h frag"
  shows "recv_step sent l (handleData la h frag l)"
proof -
  define l1 where "l1 = retryRefused la (snd (streamFor la l))"
  have "same_recv l (snd (streamFor la l))"
    using la by (auto simp: streamFor_def same_recv_def same_view_def Let_def split: option.splits)
  then have l1: "recv_step sent l l1"
    unfolding l1_def using recv_step_same recv_step_retryRefused [OF la few] recv_step_trans by blast
  have "recv_step sent l1 (handleData la h frag l)"
  proof (cases "mStreams l1 la")
    case None
    then show ?thesis
      by (simp add: handleData_def Let_def recv_step_refl flip: l1_def)
  next
    case (Some s)
    let ?l2 = "l1\<lparr>mAckDue := mAckDue l1 OR bitOf la\<rparr>"
    have bumps: "recv_step sent l1 (bump g l1)" "recv_step sent l1 (bump g ?l2)" "recv_step sent l1 ?l2" for g
      by (rule recv_step_fields [OF recv_step_refl]; simp)+
    have s2: "mStreams ?l2 la = Some s"
      using Some by simp
    show ?thesis
    proof (rule recv_step_if)
      fix out assume r: "link_receives sent out l1"
      have insert: "recv_step sent l1 (setStream la (s\<lparr>s_reorder := buf_insert (s_reorder s) (seq h) \<lparr>bd_header = h, bd_body = frag\<rparr>\<rparr>) ?l2)"
        by (rule recv_step_stream [OF Some la, of _ "s\<lparr>s_reorder := buf_insert (s_reorder s) (seq h) \<lparr>bd_header = h, bd_body = frag\<rparr>\<rparr>" "[]"])
          (auto simp: stream_receives_def buf_ok_insert buf_find_insert f split: if_splits)
      obtain taken l3 where acc: "acceptInOrder la h frag ?l2 = (taken, l3)"
        by (cases "acceptInOrder la h frag ?l2")
      have "recv_step sent ?l2 (if taken then drainReorderBuffer la (case mStreams l3 la of None \<Rightarrow> l3
          | Some s \<Rightarrow> setStream la (s\<lparr>s_nextExpected := s_nextExpected s + 1\<rparr>) l3) else l3)"
        if sq: "seq h = s_nextExpected s"
      proof -
        obtain s1 where s1: "mStreams l3 = (mStreams ?l2)(la := Some s1)" "s_reorder s1 = s_reorder s"
          and step: "if taken then \<forall>b. b = s_reorder s \<or> (\<exists>sq. b = snd (buf_erase (s_reorder s) sq)) \<longrightarrow>
             recv_step sent ?l2 (setStream la (s1\<lparr>s_reorder := b, s_nextExpected := s_nextExpected s1 + 1\<rparr>) l3)
           else recv_step sent ?l2 l3"
          using recv_step_accept [OF s2 la few f sq link_receives_stream(2) [OF r la Some] acc] by blast
        have "s1\<lparr>s_reorder := s_reorder s, s_nextExpected := s_nextExpected s1 + 1\<rparr> = s1\<lparr>s_nextExpected := s_nextExpected s1 + 1\<rparr>"
          using s1(2) by simp
        then have "taken \<Longrightarrow> recv_step sent ?l2 (setStream la (s1\<lparr>s_nextExpected := s_nextExpected s1 + 1\<rparr>) l3)"
          using step by metis
        then show ?thesis
          using s1(1) step recv_step_trans [OF _ recv_step_drain [OF la few]] by simp
      qed
      then show "recv_step sent l1 (handleData la h frag l)"
        using Some bumps insert recv_step_trans [OF bumps(3)] acc recv_step_refl
        by (auto simp: handleData_def Let_def simp flip: l1_def split: if_splits)
    qed
  qed
  then show ?thesis
    by (rule recv_step_trans [OF l1])
qed


text \<open>Media, Acks and the other operations.\<close>

lemma recv_step_handleMedia:
  assumes h: "header_ok h" and f: "fragment_packet (sent Media) h frag"
    and step: "handleMedia h frag l = Some l'"
  shows "recv_step sent l l'"
  unfolding recv_step_def
proof (intro allI impI)
  fix out assume r: "link_receives sent out l"
  let ?m = "case mMediaAssembler l of Some m \<Rightarrow> m | None \<Rightarrow> emptyMediaAssembler"
  have m: "media_ok ?m" "slots_hold (media_map (sent Media)) ?m"
    using r media_ok_empty
    by (auto simp: link_receives_def slots_hold_def emptyMediaAssembler_def split: option.splits)
  have len: "\<forall>x \<in> set (sent Media). length (snd x) \<le> MaxMediaPayload"
    using r by (auto simp: link_receives_def maxMessageSize_def split: if_splits dest: spec [of _ Media])
  obtain msg m' where acc: "media_accept h frag ?m = Some (msg, m')"
    using step by (auto simp: handleMedia_def Let_def split: bind_splits)
  have ok: "media_ok m'"
    using media_accept_safe [OF m(1) h, of frag] acc by auto
  have hold: "slots_hold (media_map (sent Media)) m'"
    and ran: "\<And>x. msg = Some x \<Longrightarrow> (am_tag x, am_body x) \<in> set (sent Media)"
    using media_accept_holds [OF m h carries_media_packet [OF f len] acc] media_map_ran by fastforce+
  let ?new = "case msg of None \<Rightarrow> [] | Some x \<Rightarrow> [(am_tag x, am_body x)]"
  have l': "mStreams l' = mStreams l" "mMediaAssembler l' = Some m'" "mDelivered l' = mDelivered l @ delivers Media ?new"
    using step acc by (auto simp: handleMedia_def Let_def delivers_def split: option.splits)
  have "link_receives sent (out @ delivers Media ?new) l'"
    using r l'(1,2) ok hold ran by (cases msg) (simp_all add: link_receives_def on_lane_delivers)
  then show "\<exists>ds. mDelivered l' = mDelivered l @ ds \<and> link_receives sent (out @ ds) l'"
    using l'(3) by blast
qed

lemma recv_step_onPacket:
  assumes few: "few sent" and h: "header_ok (pkt_header p)" and c: "packet_carries sent p"
    and step: "onPacket p now l = Some l'"
  shows "recv_step sent l l'"
proof -
  let ?h = "pkt_header p" and ?la = "lane (flags (pkt_header p))"
  define l1 where "l1 = (let l = l\<lparr>mRemoteStreamID := Some (srcStreamID ?h)\<rparr>
    in if mLastReceived l \<noteq> None then l\<lparr>mLastReceived := Some now\<rparr> else l)"
  have l1: "recv_step sent l l1"
    by (rule recv_step_fields [OF recv_step_refl]) (simp_all add: l1_def Let_def)
  have bump: "recv_step sent l (bump staleDropped_update l)"
    by (rule recv_step_fields [OF recv_step_refl]) simp_all
  have due: "recv_step sent l (l1\<lparr>mAckDue := x\<rparr>)" for x
    by (rule recv_step_fields [OF l1]) simp_all
  have ack: "recv_step sent l (handleAck ?la ?h (pkt_body p) now l1)"
    by (rule recv_step_trans [OF l1 recv_step_same [OF same_recv_handleAck]])
  have data: "recv_step sent l (handleData ?la ?h (pkt_body p) l1)" if "kind (flags ?h) = Data" "?la \<noteq> Media"
    using c that few by (intro recv_step_trans [OF l1] recv_step_handleData) (simp_all add: packet_carries_fragment)
  have media: "recv_step sent l l2" if "kind (flags ?h) = Data" "?la = Media" "handleMedia ?h (pkt_body p) l1 = Some l2" for l2
    using c that h by (intro recv_step_trans [OF l1] recv_step_handleMedia) (simp_all add: packet_carries_fragment)
  show ?thesis
    using step l1 bump due ack data media recv_step_refl
    by (auto simp: onPacket_def Let_def l1_def split: if_splits PacketKind.splits)
qed

lemma recv_step_makeAck:
  assumes "la \<noteq> Media" and "few sent"
  shows "recv_step sent l (snd (makeAck la l))"
proof -
  let ?l = "if mStreams l la \<noteq> None then retryRefused la l else l"
  have "recv_step sent l ?l"
    using recv_step_retryRefused [OF assms] recv_step_refl by simp
  then show ?thesis
    by (rule recv_step_fields) (simp_all add: makeAck_def Let_def)
qed

lemma recv_step_queueAcks:
  assumes "la \<noteq> Media" and "few sent"
  shows "recv_step sent l (queueAcks l la)"
proof -
  let ?l = "if mAckDue l AND bitOf la \<noteq> 0 then snd (makeAck la l) else l"
  have "recv_step sent l ?l"
    using recv_step_makeAck [OF assms] recv_step_refl by simp
  then show ?thesis
    by (rule recv_step_fields) (simp_all add: queueAcks_def Let_def split: prod.splits)
qed

lemma recv_step_peekAck:
  assumes "few sent"
  shows "recv_step sent l (snd (peekAck l))"
proof -
  have "recv_step sent l (foldl queueAcks l StreamLanes)"
    by (rule step.rel_foldl, rule recv_step_queueAcks) (auto simp: StreamLanes_def assms)
  then show ?thesis
    using recv_step_fields [of sent l "foldl queueAcks l StreamLanes"] recv_step_refl by (auto simp: peekAck_def Let_def)
qed

text \<open>A link that fails keeps what it has delivered.\<close>

lemma delivered_linkFail: "mDelivered (linkFail l) = mDelivered l"
proof -
  have "mDelivered (foldl dropStream l las) = mDelivered l" for las
    by (induction las arbitrary: l) (simp_all add: dropStream_def split: option.splits)
  then show ?thesis
    by (simp add: linkFail_def resetStreams_def Let_def)
qed

lemma recv_step_onTimer:
  assumes "\<not> mFailed (onTimer now l)"
  shows "recv_step sent l (onTimer now l)"
proof (cases "overdue now l")
  case True
  then show ?thesis
    using assms recv_step_refl by (cases "mFailed l") (simp_all add: onTimer_def linkFail_def)
next
  case False
  then show ?thesis
    by (rule recv_step_same [OF same_recv_onTimer])
qed

text \<open>What was received, in terms of the messages that were sent.\<close>

lemma link_receives_prefix:
  assumes "link_receives sent out l" and "la \<noteq> Media"
  shows "\<exists>rest. sent la = on_lane la out @ rest"
proof (cases "mStreams l la")
  case None
  then show ?thesis
    using assms by (auto simp: link_receives_def lane_receives_def)
next
  case (Some s)
  then show ?thesis
    using link_receives_stream(1) [OF assms Some] by (auto simp: stream_receives_def assembled_def)
qed

lemma link_receives_media: "link_receives sent out l \<Longrightarrow> set (on_lane Media out) \<subseteq> set (sent Media)"
  by (simp add: link_receives_def)

end
