(* ===== verification/LinkDelivery.thy ===== *)
theory LinkDelivery
  imports LinkReceiving "HOL-Library.Sublist"
begin

text \<open>
  Two links and the network between them. The sender takes its messages from a source; every datagram
  it offers may be lost, duplicated, delayed and reordered: the network keeps all of them, and the
  receiver may get any of them at any time. Both links run all their other operations in any order,
  with packets of any content: the sender gets arbitrary packets, the receiver arbitrary Acks, Pings
  and data of other streams. The budget of a link is shared with other links, which may change it.

  For one direction, every reachable state keeps the promise of the lanes: on Control, Reliable and
  Bulk the messages that were handed out are the first ones the sender took from its source, each once
  and in order; on Media each is a message the sender took.
\<close>

section \<open>The system\<close>

text \<open>The operations of a link that have nothing to do with the direction that is looked at.\<close>

inductive local_step :: "Link \<Rightarrow> Link \<Rightarrow> bool" where
  local_supervise: "local_step l (supervise now l)"
| local_paused: "local_step l (setPaused p l)"
| local_peekAck: "local_step l (snd (peekAck l))"
| local_commitAck: "local_step l (commitAck l)"
| local_timer: "local_step l (onTimer now l)"
| local_budget: "local_step l (l\<lparr>mBudget := b\<rparr>)"

text \<open>
  \<open>ex_sent\<close> records the messages the sender took, \<open>ex_wire\<close> the datagrams it offered, \<open>ex_taken\<close> what
  the client of the receiver got; \<open>ex_back\<close> is the source of the messages of the other direction.
\<close>

record ('s, 'r) Exchange =
  ex_source :: 's
  ex_sent :: "Lane \<Rightarrow> message list"
  ex_sender :: Link
  ex_wire :: "bytes list"
  ex_receiver :: Link
  ex_back :: 'r
  ex_taken :: "DeliveredMessage list"

text \<open>
  Data of another stream: it does not name the stream the link has settled on.
\<close>

definition stray :: "Link \<Rightarrow> DecodedPacket \<Rightarrow> bool" where
  "stray l p \<longleftrightarrow>
     (kind (flags (pkt_header p)) = Data \<longrightarrow>
        mRemoteStreamID l \<noteq> None \<and> mRemoteStreamID l \<noteq> Some (srcStreamID (pkt_header p)))"

inductive exchange_step ::
  "('s \<Rightarrow> Lane \<Rightarrow> OutboundMessage option \<times> 's) \<Rightarrow> ('r \<Rightarrow> Lane \<Rightarrow> OutboundMessage option \<times> 'r) \<Rightarrow>
   ('s, 'r) Exchange \<Rightarrow> ('s, 'r) Exchange \<Rightarrow> bool"
  for source :: "'s \<Rightarrow> Lane \<Rightarrow> OutboundMessage option \<times> 's"
  and reply :: "'r \<Rightarrow> Lane \<Rightarrow> OutboundMessage option \<times> 'r" where
  send_nothing: "peek (recording source) la (ex_source x, ex_sent x) (ex_sender x) = (None, (src, sent), l) \<Longrightarrow>
    exchange_step source reply x (x\<lparr>ex_source := src, ex_sent := sent, ex_sender := l\<rparr>)"
| send_datagram: "peek (recording source) la (ex_source x, ex_sent x) (ex_sender x) = (Some d, (src, sent), l) \<Longrightarrow>
    wire_bytes d = Some bs \<Longrightarrow>
    exchange_step source reply x (x\<lparr>ex_source := src, ex_sent := sent, ex_sender := l, ex_wire := ex_wire x @ [bs]\<rparr>)"
| send_commit: "exchange_step source reply x (x\<lparr>ex_sender := commit la now (ex_sender x)\<rparr>)"
| send_packet: "onPacket p now (ex_sender x) = Some l \<Longrightarrow> exchange_step source reply x (x\<lparr>ex_sender := l\<rparr>)"
| send_take: "exchange_step source reply x (x\<lparr>ex_sender := snd (takeDelivered (ex_sender x))\<rparr>)"
| send_local: "local_step (ex_sender x) l \<Longrightarrow> exchange_step source reply x (x\<lparr>ex_sender := l\<rparr>)"
| recv_wire: "bs \<in> set (ex_wire x) \<Longrightarrow> decodePacket bs = Some (Some p) \<Longrightarrow> onPacket p now (ex_receiver x) = Some l \<Longrightarrow>
    exchange_step source reply x (x\<lparr>ex_receiver := l\<rparr>)"
| recv_stray: "decodePacket bs = Some (Some p) \<Longrightarrow> stray (ex_receiver x) p \<Longrightarrow> onPacket p now (ex_receiver x) = Some l \<Longrightarrow>
    exchange_step source reply x (x\<lparr>ex_receiver := l\<rparr>)"
| recv_take: "takeDelivered (ex_receiver x) = (ds, l) \<Longrightarrow>
    exchange_step source reply x (x\<lparr>ex_receiver := l, ex_taken := ex_taken x @ ds\<rparr>)"
| recv_local: "local_step (ex_receiver x) l \<Longrightarrow> exchange_step source reply x (x\<lparr>ex_receiver := l\<rparr>)"
| recv_peek: "peek reply la (ex_back x) (ex_receiver x) = (r, b, l) \<Longrightarrow>
    exchange_step source reply x (x\<lparr>ex_receiver := l, ex_back := b\<rparr>)"
| recv_commit: "exchange_step source reply x (x\<lparr>ex_receiver := commit la now (ex_receiver x)\<rparr>)"

text \<open>Both links are new, and the local stream IDs are not 0, which stands for no stream.\<close>

definition exchange_start :: "('s, 'r) Exchange \<Rightarrow> bool" where
  "exchange_start x \<longleftrightarrow>
     (\<exists>t i r bg. ex_sender x = reliableLink t i r bg) \<and> mLocalStreamID (ex_sender x) \<noteq> 0 \<and>
     (\<exists>t i r bg. ex_receiver x = reliableLink t i r bg) \<and>
     ex_sent x = (\<lambda>_. []) \<and> ex_wire x = [] \<and> ex_taken x = []"

inductive exchange_reachable ::
  "('s \<Rightarrow> Lane \<Rightarrow> OutboundMessage option \<times> 's) \<Rightarrow> ('r \<Rightarrow> Lane \<Rightarrow> OutboundMessage option \<times> 'r) \<Rightarrow>
   ('s, 'r) Exchange \<Rightarrow> bool"
  for source :: "'s \<Rightarrow> Lane \<Rightarrow> OutboundMessage option \<times> 's"
  and reply :: "'r \<Rightarrow> Lane \<Rightarrow> OutboundMessage option \<times> 'r" where
  start: "exchange_start x \<Longrightarrow> exchange_reachable source reply x"
| step: "exchange_reachable source reply x \<Longrightarrow> exchange_step source reply x y \<Longrightarrow> exchange_reachable source reply y"


section \<open>The invariant\<close>

definition lanes_promise :: "(Lane \<Rightarrow> message list) \<Rightarrow> DeliveredMessage list \<Rightarrow> bool" where
  "lanes_promise sent out \<longleftrightarrow>
     (\<forall>la. la \<noteq> Media \<longrightarrow> prefix (on_lane la out) (sent la)) \<and> set (on_lane Media out) \<subseteq> set (sent Media)"

definition sent_bounded :: "(Lane \<Rightarrow> message list) \<Rightarrow> bool" where
  "sent_bounded sent \<longleftrightarrow> (\<forall>la. \<forall>m \<in> set (sent la). length (snd m) \<le> maxMessageSize la)"

definition sender_ok :: "(Lane \<Rightarrow> message list) \<Rightarrow> Link \<Rightarrow> bool" where
  "sender_ok sent l \<longleftrightarrow> mFailed l \<or> link_sends sent l"

definition receiver_ok :: "(Lane \<Rightarrow> message list) \<Rightarrow> DeliveredMessage list \<Rightarrow> Link \<Rightarrow> bool" where
  "receiver_ok sent taken l \<longleftrightarrow>
     lanes_promise sent (taken @ mDelivered l) \<and> (mFailed l \<or> link_receives sent (taken @ mDelivered l) l)"

definition exchange_ok :: "('s, 'r) Exchange \<Rightarrow> bool" where
  "exchange_ok x \<longleftrightarrow>
     sent_bounded (ex_sent x) \<and> sender_ok (ex_sent x) (ex_sender x) \<and>
     (\<forall>bs \<in> set (ex_wire x). \<exists>p. decodePacket bs = Some (Some p) \<and> packet_carries (ex_sent x) p) \<and>
     receiver_ok (ex_sent x) (ex_taken x) (ex_receiver x)"

lemma few_extends:
  assumes "few sent'" and "extends sent sent'"
  shows "few sent"
proof -
  have "length (fragments_of (sent la)) < 2 ^ 63" for la
  proof -
    obtain ms where "sent' la = sent la @ ms"
      using assms(2) by (auto simp: extends_def)
    then have "length (fragments_of (sent' la)) = length (fragments_of (sent la)) + length (fragments_of ms)"
      by simp
    moreover have "length (fragments_of (sent' la)) < 2 ^ 63"
      using assms(1) by (simp only: few_def)
    ultimately show ?thesis
      by linarith
  qed
  then show ?thesis
    by (simp only: few_def simp_thms)
qed

lemma lanes_promise_extends:
  assumes "lanes_promise sent out" and "extends sent sent'"
  shows "lanes_promise sent' out"
proof -
  have "\<exists>ms. sent' la = sent la @ ms" for la
    using assms(2) by (simp add: extends_def)
  then show ?thesis
    using assms(1) unfolding lanes_promise_def by (metis (no_types) Un_iff prefix_prefix set_append subsetD subsetI)
qed

lemma link_receives_promise: "link_receives sent out l \<Longrightarrow> lanes_promise sent out"
  using link_receives_prefix [of sent out l] link_receives_media by (auto simp: lanes_promise_def prefix_def)

text \<open>The sender.\<close>

lemma commit_failed: "mFailed (commit la now l) = mFailed l"
  using same_recv_commit [of l la now] by (simp add: same_recv_def)

lemma sender_commit: "sender_ok sent l \<Longrightarrow> few sent \<Longrightarrow> sender_ok sent (commit la now l)"
  using commit_sends by (auto simp: sender_ok_def commit_failed)

lemma sender_same: "sender_ok sent l \<Longrightarrow> same_send l l' \<Longrightarrow> sender_ok sent l'"
  using link_sends_same by (auto simp: sender_ok_def same_send_def)

lemma sender_packet: "sender_ok sent l \<Longrightarrow> onPacket p now l = Some l' \<Longrightarrow> sender_ok sent l'"
  using link_sends_onPacket by (cases "mFailed l") (auto simp: sender_ok_def onPacket_def)

lemma onTimer_failed: "mFailed l \<Longrightarrow> onTimer now l = l"
  by (simp add: onTimer_def)

lemma sender_timer: "sender_ok sent l \<Longrightarrow> sender_ok sent (onTimer now l)"
  using link_sends_onTimer [of sent l now] by (cases "mFailed l") (auto simp: sender_ok_def onTimer_failed)

lemma sender_local: "local_step l l' \<Longrightarrow> sender_ok sent l \<Longrightarrow> sender_ok sent l'"
proof (induction rule: local_step.induct)
  case (local_budget l b)
  then show ?case
    by (auto simp: sender_ok_def intro: link_sends_fields)
qed (auto intro: sender_same sender_timer same_send_supervise same_send_setPaused same_send_peekAck same_send_commitAck)

lemma sender_peek:
  assumes "sender_ok sent l" and "bounded_source next"
    and "peek (recording next) la (src, sent) l = (r, (src', sent'), l')"
  shows "sender_ok sent' l' \<and> extends sent sent' \<and> (sent_bounded sent \<longrightarrow> sent_bounded sent') \<and>
    (\<forall>d. r = Some d \<longrightarrow> datagram_carries sent' (mLocalStreamID l) d)"
proof (cases "mFailed l")
  case True
  then show ?thesis
    using assms by (simp add: peek_def sender_ok_def)
next
  case False
  then have "link_sends sent' l' \<and> extends sent sent' \<and> (\<forall>d. r = Some d \<longrightarrow> datagram_carries sent' (mLocalStreamID l) d)"
    using assms peek_any_sends [OF _ assms(2) _ assms(3)] by (simp add: sender_ok_def)
  then show ?thesis
    by (auto simp: sender_ok_def sent_bounded_def link_sends_def lane_sends_def)
qed

text \<open>The receiver.\<close>

lemma receiver_step:
  assumes ok: "receiver_ok sent taken l" and step: "recv_step sent l l'" and failed: "mFailed l' \<or> \<not> mFailed l"
    and same: "mFailed l \<Longrightarrow> mDelivered l' = mDelivered l"
  shows "receiver_ok sent taken l'"
proof (cases "mFailed l")
  case True
  then show ?thesis
    using ok failed same by (simp add: receiver_ok_def)
next
  case False
  then obtain ds where "mDelivered l' = mDelivered l @ ds" "link_receives sent ((taken @ mDelivered l) @ ds) l'"
    using ok step unfolding receiver_ok_def recv_step_def by blast
  then show ?thesis
    using link_receives_promise by (auto simp: receiver_ok_def)
qed

lemma receiver_same: "receiver_ok sent taken l \<Longrightarrow> same_recv l l' \<Longrightarrow> receiver_ok sent taken l'"
  by (rule receiver_step) (auto simp: same_recv_def intro: recv_step_same [unfolded same_recv_def])

lemma receiver_packet:
  assumes "receiver_ok sent taken l" and "few sent" and "decodePacket bs = Some (Some p)" and "packet_carries sent p"
    and "onPacket p now l = Some l'"
  shows "receiver_ok sent taken l'"
proof (cases "mFailed l")
  case True
  then show ?thesis
    using assms by (simp add: onPacket_def)
next
  case False
  have "header_ok (pkt_header p)"
    using decodePacket_sound [OF assms(3)] by blast
  then show ?thesis
    using assms recv_step_onPacket False by (blast intro: receiver_step)
qed

lemma receiver_stray:
  assumes "receiver_ok sent taken l" and "few sent" and "decodePacket bs = Some (Some p)" and "stray l p"
    and "onPacket p now l = Some l'"
  shows "receiver_ok sent taken l'"
proof (cases "kind (flags (pkt_header p)) = Data \<and> \<not> mFailed l")
  case True
  then have "l' = bump staleDropped_update l"
    using assms(4,5) by (auto simp: onPacket_def Let_def stray_def)
  then show ?thesis
    using assms(1) recv_step_fields [OF recv_step_refl] by (auto intro: receiver_step)
next
  case False
  then have "packet_carries sent p \<or> mFailed l"
    by (auto simp: packet_carries_def Let_def)
  then show ?thesis
    using assms receiver_packet by (auto simp: onPacket_def)
qed

lemma receiver_timer:
  assumes "receiver_ok sent taken l"
  shows "receiver_ok sent taken (onTimer now l)"
proof (cases "mFailed (onTimer now l)")
  case True
  then have "onTimer now l = l \<or> onTimer now l = linkFail l"
    using same_recv_onTimer [of now l] by (cases "mFailed l"; cases "overdue now l") (auto simp: onTimer_def same_recv_def)
  then show ?thesis
    using assms True delivered_linkFail by (auto simp: receiver_ok_def)
next
  case False
  then show ?thesis
    using assms recv_step_onTimer [OF False] by (cases "mFailed l") (auto intro: receiver_step simp: onTimer_failed)
qed

lemma peekAck_failed: "mFailed l \<Longrightarrow> peekAck l = (None, l)"
  by (simp add: peekAck_def)

lemma receiver_peekAck: "receiver_ok sent taken l \<Longrightarrow> few sent \<Longrightarrow> receiver_ok sent taken (snd (peekAck l))"
  using recv_step_peekAck [of sent l] same_send_peekAck [of l]
  by (cases "mFailed l") (auto intro: receiver_step simp: peekAck_failed same_send_def)

lemma receiver_fields:
  assumes "receiver_ok sent taken l" and "mStreams l' = mStreams l" "mMediaAssembler l' = mMediaAssembler l"
    "mDelivered l' = mDelivered l" "mFailed l' = mFailed l"
  shows "receiver_ok sent taken l'"
  using assms recv_step_fields [OF recv_step_refl, of l' l] by (intro receiver_step [OF assms(1)]) auto

lemma setPaused_fields:
  "mStreams (setPaused p l) = mStreams l" "mMediaAssembler (setPaused p l) = mMediaAssembler l"
  "mDelivered (setPaused p l) = mDelivered l" "mFailed (setPaused p l) = mFailed l"
  by (simp_all add: setPaused_def)

lemma receiver_local: "local_step l l' \<Longrightarrow> receiver_ok sent taken l \<Longrightarrow> few sent \<Longrightarrow> receiver_ok sent taken l'"
proof (induction rule: local_step.induct)
  case (local_supervise l now)
  then show ?case
    by (auto intro: receiver_fields simp: supervise_def)
next
  case (local_paused l p)
  then show ?case
    by (auto intro: receiver_fields simp: setPaused_fields)
next
  case (local_commitAck l)
  then show ?case
    by (auto intro: receiver_fields simp: commitAck_def)
next
  case (local_budget l b)
  then show ?case
    by (auto intro: receiver_fields)
qed (auto intro: receiver_timer receiver_peekAck)

lemma receiver_take:
  assumes "receiver_ok sent taken l" and "takeDelivered l = (ds, l')"
  shows "receiver_ok sent (taken @ ds) l'"
  using assms link_receives_fields [of sent "taken @ mDelivered l" l "l\<lparr>mDelivered := []\<rparr>"]
  by (auto simp: receiver_ok_def takeDelivered_def)

lemma receiver_extends:
  assumes "receiver_ok sent taken l" and "extends sent sent'" and "sent_bounded sent'"
  shows "receiver_ok sent' taken l"
  using assms lanes_promise_extends link_receives_extends unfolding receiver_ok_def sent_bounded_def by blast


section \<open>Every reachable state keeps the promise\<close>

lemma exchange_offer:
  assumes ok: "exchange_ok x" and src: "bounded_source next"
    and p: "peek (recording next) la (ex_source x, ex_sent x) (ex_sender x) = (r, (src', sent'), l')"
    and r: "case r of None \<Rightarrow> bss = [] | Some d \<Rightarrow> \<exists>bs. wire_bytes d = Some bs \<and> bss = [bs]"
  shows "exchange_ok (x\<lparr>ex_source := src', ex_sent := sent', ex_sender := l', ex_wire := ex_wire x @ bss\<rparr>)"
proof -
  have s: "sender_ok sent' l'" "extends (ex_sent x) sent'" "sent_bounded sent'"
    "\<forall>d. r = Some d \<longrightarrow> datagram_carries sent' (mLocalStreamID (ex_sender x)) d"
    using sender_peek [OF _ src p] ok by (auto simp: exchange_ok_def)
  have "\<exists>p. decodePacket bs = Some (Some p) \<and> packet_carries sent' p" if "bs \<in> set (ex_wire x @ bss)" for bs
  proof (cases "bs \<in> set (ex_wire x)")
    case True
    then show ?thesis
      using ok s(2) packet_carries_extends by (fastforce simp: exchange_ok_def)
  next
    case False
    then show ?thesis
      using that r s(4) by (auto simp: datagram_carries_def split: option.splits)
  qed
  then show ?thesis
    using ok s receiver_extends by (auto simp: exchange_ok_def)
qed

text \<open>\<open>peek\<close> takes one message at most.\<close>

lemma recording_extends: "recording next (src, sent) la = (m, src', sent') \<Longrightarrow> extends sent sent'"
  by (auto simp: recording_def split: prod.splits option.splits)

lemma peek_extends:
  assumes "peek (recording next) la (src, sent) l = (r, (src', sent'), l')"
  shows "extends sent sent'"
  using assms recording_extends
  by (fastforce simp: peek_def peekFragment_def peekMedia_def Let_def split: if_splits prod.splits option.splits)

lemma exchange_step_extends: "exchange_step next reply x y \<Longrightarrow> extends (ex_sent x) (ex_sent y)"
  by (induction rule: exchange_step.induct) (auto intro: peek_extends)

lemma exchange_step_ok:
  assumes "exchange_step next reply x y" and ok: "exchange_ok x" and src: "bounded_source next" and few: "few (ex_sent x)"
  shows "exchange_ok y"
  using assms(1)
proof (cases rule: exchange_step.cases)
  case (send_nothing la src sent l)
  then show ?thesis
    using exchange_offer [OF ok src, of la None src sent l "[]"] by simp
next
  case (send_datagram la d src sent l bs)
  then show ?thesis
    using exchange_offer [OF ok assms(3), of la "Some d" src sent l "[bs]"] by simp
next
  case (recv_wire bs p now l)
  then show ?thesis
    using ok few receiver_packet by (fastforce simp: exchange_ok_def)
next
  case (recv_stray bs p now l)
  then show ?thesis
    using ok few receiver_stray by (fastforce simp: exchange_ok_def)
next
  case (recv_peek la r b l)
  then show ?thesis
    using ok receiver_same same_recv_peek [of "ex_receiver x" reply la "ex_back x"] by (auto simp: exchange_ok_def)
next
  case (recv_commit la now)
  then show ?thesis
    using ok receiver_same same_recv_commit by (auto simp: exchange_ok_def)
qed (use ok few in \<open>auto simp: exchange_ok_def intro: sender_commit sender_packet sender_local receiver_take receiver_local
  sender_same same_send_takeDelivered\<close>)

lemma exchange_start_ok: "exchange_start x \<Longrightarrow> exchange_ok x"
  using link_sends_new
  by (auto simp: exchange_start_def exchange_ok_def sent_bounded_def sender_ok_def receiver_ok_def lanes_promise_def
      link_receives_def lane_receives_def reliableLink_def)

lemma exchange_reachable_ok:
  assumes "exchange_reachable next reply x" and "bounded_source next"
  shows "few (ex_sent x) \<longrightarrow> exchange_ok x"
  using assms(1)
proof (induction rule: exchange_reachable.induct)
  case (start x)
  then show ?case
    by (simp add: exchange_start_ok)
next
  case (step x y)
  show ?case
  proof
    assume "few (ex_sent y)"
    then have "few (ex_sent x)"
      using exchange_step_extends [OF step.hyps(2)] few_extends by blast
    then show "exchange_ok y"
      using step exchange_step_ok [OF step.hyps(2) _ assms(2)] by blast
  qed
qed


section \<open>A run\<close>

text \<open>One message on the Control lane: offered, sent, received and taken.\<close>

definition demo_source :: "bool \<Rightarrow> Lane \<Rightarrow> OutboundMessage option \<times> bool" where
  "demo_source pending la =
     (if la = Control \<and> pending then (Some \<lparr>om_tag = 7, om_body = [1, 2, 3]\<rparr>, False) else (None, pending))"

definition demo_link :: "u32 \<Rightarrow> Link" where
  "demo_link i = reliableLink defaultTimings i i None"

definition demo_start :: "(bool, bool) Exchange" where
  "demo_start =
     \<lparr>ex_source = True, ex_sent = (\<lambda>_. []), ex_sender = demo_link 1, ex_wire = [],
      ex_receiver = demo_link 2, ex_back = False, ex_taken = []\<rparr>"

definition demo_entry :: InFlight where
  "demo_entry = fragmentAt (cursorFor \<lparr>om_tag = 7, om_body = [1, 2, 3]\<rparr>)"

lemma demo_peek:
  assumes "sent = ((\<lambda>_. []) (Control := [(7, [1, 2, 3])]))"
  shows "\<exists>l. peek (recording demo_source) Control (ex_source demo_start, ex_sent demo_start) (ex_sender demo_start) =
   (Some (fst (offer (headerOf (demo_link 1) Control 1 demo_entry) demo_entry (demo_link 1))), (False, sent), l)"
  unfolding assms
  by (simp add: peek_def demo_start_def demo_link_def reliableLink_def congestionWindowOpen_def
      sharesCongestionWindow_def peekFragment_def recording_def demo_source_def streamFor_def newStream_def setStream_def
      offer_def headerOf_def makeHeader_def demo_entry_def Let_def fun_eq_iff)

definition demo_packet :: DecodedPacket where
  "demo_packet = \<lparr>pkt_header = wire_view (headerOf (demo_link 1) Control 1 demo_entry), pkt_body = [1, 2, 3]\<rparr>"

lemma demo_header:
  "pkt_header demo_packet = emptyHeader\<lparr>flags := dataFlags Control, srcStreamID := 1, seq := 1, tag := 7\<rparr>"
  "pkt_body demo_packet = [1, 2, 3]"
  by (simp_all add: demo_packet_def wire_view_def headerOf_def demo_entry_def fragmentAt_def cursorFor_def
      fragmentsOf_def makeHeader_def demo_link_def reliableLink_def startsMessage_def startsFragmentedMessage_def
      emptyHeader_def Let_def constants)

lemma demo_wire:
  "\<exists>bs. wire_bytes (fst (offer (headerOf (demo_link 1) Control 1 demo_entry) demo_entry (demo_link 1))) = Some bs \<and>
     decodePacket bs = Some (Some demo_packet)"
proof -
  have "entry_carries demo_entry ((7, [1, 2, 3]), 0)"
    using fragmentAt_carries [of "cursorFor \<lparr>om_tag = 7, om_body = [1, 2, 3]\<rparr>"] fragmentsOf_pos
    by (simp add: demo_entry_def cursorFor_def)
  then show ?thesis
    by (rule offer_decodes [of _ _ _ _ Control 1 "demo_link 1" "demo_link 1"])
      (simp_all add: fragmentsOf_pos demo_link_def reliableLink_def maxMessageSize_def constants demo_packet_def fragment_body_def)
qed

lemma drainLoop_none:
  "mStreams l la = Some s \<Longrightarrow> buf_find (s_reorder s) (s_nextExpected s) = None \<Longrightarrow> drainLoop n la l = l"
  by (cases n) simp_all

lemma demo_receive:
  "\<exists>l. onPacket demo_packet 0 (demo_link 2) = Some l \<and>
     mDelivered l = [\<lparr>dm_lane = Control, dm_tag = 7, dm_body = [1, 2, 3]\<rparr>]"
proof -
  have new: "buf_find (sequenceBuffer 32 :: BufferedData SequenceBuffer) sq = None" 
    "capacity (sequenceBuffer 32 :: BufferedData SequenceBuffer) = 32" for sq
    using buf_find_new [of 32 sq] buf_ok_new [of 5] by (simp_all add: capacity_def sequenceBuffer_def)
  show ?thesis
  by (simp add: onPacket_def demo_header demo_link_def reliableLink_def handleData_def retryRefused_def
      streamFor_def newStream_def setStream_def acceptInOrder_def hasRoomFor_def assembler_accept_def assembler_reset_def
      drainReorderBuffer_def drainLoop_none new buf_contains_def emptyHeader_def windowOf_def emptyAssembler_def word_le_nat_alt Let_def constants)
qed

definition demo_message :: DeliveredMessage where
  "demo_message = \<lparr>dm_lane = Control, dm_tag = 7, dm_body = [1, 2, 3]\<rparr>"

lemma demo_run:
  "\<exists>x. exchange_reachable demo_source demo_source x \<and> ex_taken x = [demo_message] \<and>
     ex_sent x = (\<lambda>_. [])(Control := [(7, [1, 2, 3])])"
proof -
  let ?sent = "(\<lambda>_. [])(Control := [(7, [1, 2, 3])]) :: Lane \<Rightarrow> message list"
  obtain l bs where p: "peek (recording demo_source) Control (ex_source demo_start, ex_sent demo_start) (ex_sender demo_start) =
      (Some (fst (offer (headerOf (demo_link 1) Control 1 demo_entry) demo_entry (demo_link 1))), (False, ?sent), l)"
    and bs: "wire_bytes (fst (offer (headerOf (demo_link 1) Control 1 demo_entry) demo_entry (demo_link 1))) = Some bs"
      "decodePacket bs = Some (Some demo_packet)"
    using demo_peek demo_wire by blast
  obtain l' where l': "onPacket demo_packet 0 (demo_link 2) = Some l'" "mDelivered l' = [demo_message]"
    using demo_receive by (auto simp: demo_message_def)
  let ?x1 = "demo_start\<lparr>ex_source := False, ex_sent := ?sent, ex_sender := l, ex_wire := ex_wire demo_start @ [bs]\<rparr>"
  let ?x2 = "?x1\<lparr>ex_receiver := l'\<rparr>"
  let ?x3 = "?x2\<lparr>ex_receiver := snd (takeDelivered l'), ex_taken := ex_taken ?x2 @ mDelivered l'\<rparr>"
  have "exchange_start demo_start"
    unfolding exchange_start_def by (auto simp: demo_start_def demo_link_def reliableLink_def)
  then have "exchange_reachable demo_source demo_source demo_start"
    by (rule exchange_reachable.start)
  moreover have "exchange_step demo_source demo_source demo_start ?x1"
    using p bs(1) by (rule send_datagram)
  moreover have "exchange_step demo_source demo_source ?x1 ?x2"
    by (rule recv_wire [OF _ bs(2)]) (use l'(1) in \<open>simp_all add: demo_start_def\<close>)
  moreover have "exchange_step demo_source demo_source ?x2 ?x3"
    by (rule recv_take) (simp add: takeDelivered_def)
  ultimately have "exchange_reachable demo_source demo_source ?x3"
    by (blast intro: exchange_reachable.step)
  moreover have "ex_taken ?x3 = [demo_message]" "ex_sent ?x3 = ?sent"
    using l'(2) by (simp_all add: demo_start_def)
  ultimately show ?thesis
    by blast
qed


section \<open>The promise of the lanes\<close>

text \<open>C1: On Control, Reliable and Bulk, the messages handed to the client of the receiver are the first ones
  the sender took from its source, each exactly once and in order; on Media, each is a message the sender
  took. This holds whatever the network loses, duplicates, delays or reorders, whatever else reaches the
  two links, and however their operations interleave.\<close>

theorem delivered_once_in_order:
  assumes "exchange_reachable source reply x" and "bounded_source source" and "few (ex_sent x)"
  shows "(\<forall>la. la \<noteq> Media \<longrightarrow> prefix (on_lane la (ex_taken x)) (ex_sent x la)) \<and>
    set (on_lane Media (ex_taken x)) \<subseteq> set (ex_sent x Media)"
proof -
  have "lanes_promise (ex_sent x) (ex_taken x @ mDelivered (ex_receiver x))"
    using exchange_reachable_ok [OF assms(1,2)] assms(3) by (simp add: exchange_ok_def receiver_ok_def)
  then show ?thesis
    by (auto simp: lanes_promise_def dest: append_prefixD)
qed

theorem delivered_once_in_order_witness:
  "\<exists>x. exchange_reachable demo_source demo_source x \<and> on_lane Control (ex_taken x) = [(7, [1, 2, 3])] \<and>
     prefix (on_lane Control (ex_taken x)) (ex_sent x Control)"
proof -
  obtain x where x: "exchange_reachable demo_source demo_source x" "ex_taken x = [demo_message]"
    "ex_sent x = (\<lambda>_. [])(Control := [(7, [1, 2, 3])])"
    using demo_run by blast
  have "few (ex_sent x)"
    by (simp add: few_def x(3) fragmentsOf_def constants)
  moreover have "bounded_source demo_source"
    by (auto simp: bounded_source_def demo_source_def maxMessageSize_def constants split: if_splits)
  ultimately have "prefix (on_lane Control (ex_taken x)) (ex_sent x Control)"
    using delivered_once_in_order [OF x(1)] by blast
  then show ?thesis
    using x by (auto simp: on_lane_def demo_message_def)
qed

end
