(* ===== verification/ControlMessage.thy ===== *)
theory ControlMessage
  imports Wire
begin

text \<open>
  \<open>Session/ControlMessage.h\<close>: the messages two engines open and end a session with, on top of the
  writer and the reader of \<open>Wire\<close>.

  The codec of each message is characterised exactly: a body decodes to a message if and only if it
  is that message's fields followed by a well-formed list of extension fields, whatever their types
  are. So every message that is sent is read back, and a message of a later version that carries
  extensions is read as if it had none.
\<close>

datatype ControlType = CtHello | CtAccept | CtDecline | CtClose

definition control_value :: "ControlType \<Rightarrow> u32" where
  "control_value t = (case t of CtHello \<Rightarrow> 1 | CtAccept \<Rightarrow> 2 | CtDecline \<Rightarrow> 3 | CtClose \<Rightarrow> 4)"

datatype DeclineReason = Declined | Incompatible

definition decline_value :: "DeclineReason \<Rightarrow> u8" where
  "decline_value r = (case r of Declined \<Rightarrow> 0 | Incompatible \<Rightarrow> 1)"

definition writeExt :: "WireWriter \<Rightarrow> WireWriter option" where
  "writeExt out = writer_u16 out 0"

text \<open>
  The loop of \<open>skipExt\<close> over the reader of the extension fields, and \<open>skipExt\<close>, which returns the
  reader behind them. The loop ends: a pass that goes on has read two bytes at least.
\<close>

lemma reader_next_shorter: "length (rd_bytes (snd (reader_next n r))) \<le> length (rd_bytes r)"
  by (simp add: reader_next_def)

lemma reader_next_fails: "rd_failed r \<Longrightarrow> rd_failed (snd (reader_next n r))"
  by (simp add: reader_next_def)

lemma reader_u8_consumes:
  "\<not> rd_failed (snd (reader_u8 r)) \<Longrightarrow> length (rd_bytes (snd (reader_u8 r))) < length (rd_bytes r)"
  by (auto simp: reader_u8_def reader_next_def Let_def split: if_splits)

lemma reader_u8_shorter: "length (rd_bytes (snd (reader_u8 r))) \<le> length (rd_bytes r)"
  by (auto simp: reader_u8_def reader_next_def Let_def)

lemma reader_u8_fails: "rd_failed r \<Longrightarrow> rd_failed (snd (reader_u8 r))"
  by (simp add: reader_u8_failed)

definition skipField :: "WireReader \<Rightarrow> WireReader" where
  "skipField r =
     (let (_, r) = reader_u8 r;
          (n, r) = reader_u8 r;
          (_, r) = reader_next (unat n) r
      in r)"

lemma skipField_consumes:
  assumes "\<not> rd_failed (skipField r)"
  shows "length (rd_bytes (skipField r)) < length (rd_bytes r)"
proof -
  let ?a = "snd (reader_u8 r)"
  let ?b = "snd (reader_u8 ?a)"
  have s: "skipField r = snd (reader_next (unat (fst (reader_u8 ?a))) ?b)"
    by (simp add: skipField_def split_beta)
  have "\<not> rd_failed ?a"
    using assms s reader_next_fails reader_u8_fails by metis
  then have "length (rd_bytes ?a) < length (rd_bytes r)"
    by (rule reader_u8_consumes)
  then show ?thesis
    unfolding s using reader_next_shorter reader_u8_shorter by (meson le_less_trans)
qed

function skipFields :: "WireReader \<Rightarrow> bool" where
  "skipFields r =
     (if reader_complete r then True
      else let r' = skipField r
           in if rd_failed r' then False else skipFields r')"
  by pat_completeness auto
termination
  by (relation "measure (\<lambda>r. length (rd_bytes r))") (auto simp: skipField_consumes)

declare skipFields.simps [simp del]

definition skipExt :: "WireReader \<Rightarrow> bool \<times> WireReader" where
  "skipExt r =
     (let (n, r) = reader_u16 r;
          (field, r) = reader_next (unat n) r
      in (if rd_failed r then False else skipFields (reader field), r))"


section \<open>Messages\<close>

record Hello =
  fromInstance :: u64
  toInstance :: u64
  appIdHash :: u64
  verMajor :: u16
  verMinor :: u16
  name :: bytes

record Accept =
  accept_name :: bytes

record Decline =
  reason :: DeclineReason
  decline_text :: bytes

definition encodeHello :: "Hello \<Rightarrow> bytes option" where
  "encodeHello hello =
     do { out \<leftarrow> writer_u64 [] (fromInstance hello);
          out \<leftarrow> writer_u64 out (toInstance hello);
          out \<leftarrow> writer_u64 out (appIdHash hello);
          out \<leftarrow> writer_u16 out (verMajor hello);
          out \<leftarrow> writer_u16 out (verMinor hello);
          writeExt (writer_text out (name hello)) }"

definition decodeHello :: "bytes \<Rightarrow> Hello option" where
  "decodeHello body =
     (let (from, r) = reader_u64 (reader body);
          (to, r) = reader_u64 r;
          (app, r) = reader_u64 r;
          (major, r) = reader_u16 r;
          (minor, r) = reader_u16 r;
          (nm, r) = reader_text r;
          (ok, r) = skipExt r
      in if \<not> ok \<or> \<not> reader_complete r \<or> from = 0 then None
         else Some \<lparr>fromInstance = from, toInstance = to, appIdHash = app,
                    verMajor = major, verMinor = minor, name = nm\<rparr>)"

definition encodeAccept :: "Accept \<Rightarrow> bytes option" where
  "encodeAccept accept = writeExt (writer_text [] (accept_name accept))"

definition decodeAccept :: "bytes \<Rightarrow> Accept option" where
  "decodeAccept body =
     (let (nm, r) = reader_text (reader body);
          (ok, r) = skipExt r
      in if \<not> ok \<or> \<not> reader_complete r then None else Some \<lparr>accept_name = nm\<rparr>)"

definition encodeDecline :: "Decline \<Rightarrow> bytes" where
  "encodeDecline decline =
     writer_text (writer_u8 [] (decline_value (reason decline))) (decline_text decline)"

definition decodeDecline :: "bytes \<Rightarrow> Decline option" where
  "decodeDecline body =
     (let (rs, r) = reader_u8 (reader body);
          (txt, r) = reader_text r
      in if \<not> reader_complete r then None
         else Some \<lparr>reason = (if rs = decline_value Incompatible then Incompatible else Declined),
                    decline_text = txt\<rparr>)"

definition encodeClose :: "u8 \<Rightarrow> bytes" where
  "encodeClose rs = [rs]"


section \<open>What a reader has read\<close>

text \<open>
  A reader that has not failed has read the field from the front of its bytes: the converse of the
  lemmas of \<open>Wire\<close> on reading back what was written.
\<close>

lemma unat_u8_le: "unat n \<le> 255" for n :: u8
  using unsigned_less [of n, where ?'a = nat] by simp

lemma unat_u16_less: "unat n < 65536" for n :: u16
  using unsigned_less [of n, where ?'a = nat] by simp

lemma reader_eq: "r = reader bs \<longleftrightarrow> \<not> rd_failed r \<and> rd_bytes r = bs"
  by (cases r) (auto simp: reader_def)

lemma reader_next_read:
  assumes "reader_next n r = (v, r')" and "\<not> rd_failed r'"
  shows "r = reader (v @ rd_bytes r') \<and> length v = n"
  using assms by (auto simp: reader_next_def reader_eq split: if_splits)

lemma reader_u8_read:
  assumes "reader_u8 r = (v, r')" and "\<not> rd_failed r'"
  shows "r = reader (v # rd_bytes r')"
proof -
  obtain field where f: "reader_next 1 r = (field, r')" and v: "v = (if field = [] then 0 else field ! 0)"
    using assms(1) by (auto simp: reader_u8_def split_beta prod_eq_iff)
  then show ?thesis
    using reader_next_read [OF f assms(2)] by (cases field) auto
qed

lemma reader_u16_read:
  assumes "reader_u16 r = (v, r')" and "\<not> rd_failed r'"
  shows "r = reader (be16 v @ rd_bytes r')"
proof -
  obtain field where f: "reader_next 2 r = (field, r')"
    and v: "v = (if field = [] then 0 else the (readUint16 field 0))"
    using assms(1) by (auto simp: reader_u16_def split_beta prod_eq_iff)
  have r: "r = reader (field @ rd_bytes r')" "length field = 2"
    using reader_next_read [OF f assms(2)] by auto
  then obtain w where w: "readUint16 field 0 = Some w"
    using readUint16_defined [of 0 field] by auto
  moreover have "field \<noteq> []"
    using r(2) by auto
  ultimately have "v = w" "field = be16 w"
    using v readUint16_bytes [OF w] r(2) by simp_all
  then show ?thesis
    using r(1) by simp
qed

lemma reader_u64_read:
  assumes "reader_u64 r = (v, r')" and "\<not> rd_failed r'"
  shows "r = reader (be64 v @ rd_bytes r')"
proof -
  obtain field where f: "reader_next 8 r = (field, r')"
    and v: "v = (if field = [] then 0 else the (readUint64 field 0))"
    using assms(1) by (auto simp: reader_u64_def split_beta prod_eq_iff)
  have r: "r = reader (field @ rd_bytes r')" "length field = 8"
    using reader_next_read [OF f assms(2)] by auto
  then obtain w where w: "readUint64 field 0 = Some w"
    using readUint64_defined [of 0 field] by auto
  moreover have "field \<noteq> []"
    using r(2) by auto
  ultimately have "v = w" "field = be64 w"
    using v readUint64_bytes [OF w] r(2) by simp_all
  then show ?thesis
    using r(1) by simp
qed

lemma reader_text_read:
  assumes "reader_text r = (v, r')" and "\<not> rd_failed r'"
  shows "r = reader (text_field v @ rd_bytes r') \<and> length v \<le> 255"
proof -
  obtain n q where n: "reader_u8 r = (n, q)"
    by fastforce
  then have f: "reader_next (unat n) q = (v, r')"
    using assms(1) by (simp add: reader_text_def)
  have q: "q = reader (v @ rd_bytes r')" "length v = unat n"
    using reader_next_read [OF f assms(2)] by auto
  have len: "length v \<le> 255"
    using q(2) unat_u8_le [of n] by simp
  have "r = reader (n # v @ rd_bytes r')"
    using reader_u8_read [OF n] q(1) by (simp add: reader_def)
  moreover have "text_field v = n # v"
    using len q(2) by (simp add: text_field_def)
  ultimately show ?thesis
    using len by simp
qed


section \<open>Extension fields\<close>

text \<open>An extension: its type and its value, of at most 255 bytes.\<close>

type_synonym extension = "u8 \<times> bytes"

definition ext_bytes :: "extension list \<Rightarrow> bytes" where
  "ext_bytes fs = concat (map (\<lambda>(t, v). t # word_of_nat (length v) # v) fs)"

definition ext_ok :: "extension list \<Rightarrow> bool" where
  "ext_ok fs \<longleftrightarrow> (\<forall>(t, v) \<in> set fs. length v \<le> 255) \<and> length (ext_bytes fs) < 65536"

definition ext_field :: "extension list \<Rightarrow> bytes" where
  "ext_field fs = be16 (word_of_nat (length (ext_bytes fs))) @ ext_bytes fs"

lemma ext_bytes_simps [simp]:
  "ext_bytes [] = []"
  "ext_bytes ((t, v) # fs) = t # word_of_nat (length v) # v @ ext_bytes fs"
  by (simp_all add: ext_bytes_def)

lemma skipField_append:
  "length v \<le> 255 \<Longrightarrow> skipField (reader (t # word_of_nat (length v) # v @ rest)) = reader rest"
  by (simp add: skipField_def wire_simps unat_of_nat)

lemma skipField_read:
  assumes "\<not> rd_failed (skipField r)"
  shows "\<exists>t v. length v \<le> 255 \<and>
    r = reader (t # word_of_nat (length v) # v @ rd_bytes (skipField r))"
proof -
  obtain t a where t: "reader_u8 r = (t, a)"
    by fastforce
  obtain n b where n: "reader_u8 a = (n, b)"
    by fastforce
  obtain v c where v: "reader_next (unat n) b = (v, c)"
    by fastforce
  have c: "skipField r = c"
    by (simp add: skipField_def t n v)
  have b: "b = reader (v @ rd_bytes c)" "length v = unat n"
    using reader_next_read [OF v] assms c by auto
  have a: "a = reader (n # v @ rd_bytes c)"
    using reader_u8_read [OF n] b by (simp add: reader_def)
  have r: "r = reader (t # n # v @ rd_bytes c)"
    using reader_u8_read [OF t] a by (simp add: reader_def)
  have "length v \<le> 255"
    using b(2) unat_u8_le [of n] by simp
  then show ?thesis
    using r b(2) c by (intro exI [of _ t] exI [of _ v]) simp
qed

lemma skipFields_ext:
  "(\<forall>(t, v) \<in> set fs. length v \<le> 255) \<Longrightarrow> skipFields (reader (ext_bytes fs))"
proof (induction fs)
  case Nil
  then show ?case
    by (simp add: skipFields.simps wire_simps)
next
  case (Cons f fs)
  then show ?case
    by (subst skipFields.simps) (cases f, simp add: skipField_append wire_simps)
qed

lemma skipFields_read:
  "skipFields r \<Longrightarrow> \<not> rd_failed r \<Longrightarrow>
   \<exists>fs. rd_bytes r = ext_bytes fs \<and> (\<forall>(t, v) \<in> set fs. length v \<le> 255)"
proof (induction r rule: skipFields.induct)
  case (1 r)
  show ?case
  proof (cases "reader_complete r")
    case True
    then show ?thesis
      by (intro exI [of _ "[]"]) (simp add: reader_complete_def)
  next
    case False
    then have ok: "\<not> rd_failed (skipField r)" "skipFields (skipField r)"
      using 1(2) by (subst (asm) skipFields.simps; simp add: Let_def split: if_splits)+
    then obtain fs where fs: "rd_bytes (skipField r) = ext_bytes fs" "\<forall>(t, v) \<in> set fs. length v \<le> 255"
      using 1(1) [OF False refl] by blast
    obtain t v where "length v \<le> 255" "r = reader (t # word_of_nat (length v) # v @ ext_bytes fs)"
      using skipField_read [OF ok(1)] fs(1) by auto
    then show ?thesis
      using fs(2) by (intro exI [of _ "(t, v) # fs"]) (simp add: reader_def)
  qed
qed

lemma skipExt_append [wire_simps]:
  "ext_ok fs \<Longrightarrow> skipExt (reader (ext_field fs @ rest)) = (True, reader rest)"
  by (simp add: skipExt_def ext_field_def ext_ok_def wire_simps unat_of_nat skipFields_ext)

lemma skipExt_read:
  assumes "skipExt r = (True, r')"
  shows "\<exists>fs. ext_ok fs \<and> r = reader (ext_field fs @ rd_bytes r') \<and> \<not> rd_failed r'"
proof -
  obtain n q where n: "reader_u16 r = (n, q)"
    by fastforce
  obtain field p where f: "reader_next (unat n) q = (field, p)"
    by fastforce
  have p: "p = r'" "\<not> rd_failed r'" "skipFields (reader field)"
    using assms by (auto simp: skipExt_def n f split: if_splits)
  obtain fs where fs: "field = ext_bytes fs" "\<forall>(t, v) \<in> set fs. length v \<le> 255"
    using skipFields_read [OF p(3)] by (auto simp: wire_simps)
  have q: "q = reader (field @ rd_bytes r')" "length field = unat n"
    using reader_next_read [OF f] p by auto
  have r: "r = reader (be16 n @ field @ rd_bytes r')"
    using reader_u16_read [OF n] q by (simp add: reader_def)
  have "ext_ok fs"
    using fs q(2) unat_u16_less [of n] by (simp add: ext_ok_def)
  then show ?thesis
    using r fs(1) q(2) p(2) by (intro exI [of _ fs]) (simp add: ext_field_def)
qed

lemma ext_ok_Nil [simp]: "ext_ok []"
  by (simp add: ext_ok_def)

lemma ext_field_Nil [simp]: "ext_field [] = be16 0"
  by (simp add: ext_field_def)


section \<open>The codecs\<close>

definition hello_bytes :: "Hello \<Rightarrow> bytes" where
  "hello_bytes h = be64 (fromInstance h) @ be64 (toInstance h) @ be64 (appIdHash h) @
     be16 (verMajor h) @ be16 (verMinor h) @ text_field (name h)"

lemma encodeHello_bytes: "encodeHello h = Some (hello_bytes h @ ext_field [])"
  by (simp add: encodeHello_def writeExt_def writer_simps hello_bytes_def)

lemma decodeHello_bytes:
  "ext_ok fs \<Longrightarrow> fromInstance h \<noteq> 0 \<Longrightarrow>
   decodeHello (hello_bytes h @ ext_field fs) = Some (h\<lparr>name := take 255 (name h)\<rparr>)"
  using skipExt_append [of fs "[]"]
  by (simp add: decodeHello_def hello_bytes_def wire_simps)

lemma decodeHello_read:
  assumes "decodeHello body = Some h"
  shows "fromInstance h \<noteq> 0 \<and> length (name h) \<le> 255 \<and>
    (\<exists>fs. ext_ok fs \<and> body = hello_bytes h @ ext_field fs)"
proof -
  obtain v1 r1 where 1: "reader_u64 (reader body) = (v1, r1)" by fastforce
  obtain v2 r2 where 2: "reader_u64 r1 = (v2, r2)" by fastforce
  obtain v3 r3 where 3: "reader_u64 r2 = (v3, r3)" by fastforce
  obtain v4 r4 where 4: "reader_u16 r3 = (v4, r4)" by fastforce
  obtain v5 r5 where 5: "reader_u16 r4 = (v5, r5)" by fastforce
  obtain v6 r6 where 6: "reader_text r5 = (v6, r6)" by fastforce
  obtain ok r7 where 7: "skipExt r6 = (ok, r7)" by fastforce
  have h: "ok" "reader_complete r7" "v1 \<noteq> 0"
    "h = \<lparr>fromInstance = v1, toInstance = v2, appIdHash = v3, verMajor = v4, verMinor = v5, name = v6\<rparr>"
    using assms by (auto simp: decodeHello_def 1 2 3 4 5 6 7 split: if_splits)
  obtain fs where fs: "ext_ok fs" and r6: "r6 = reader (ext_field fs)"
    using skipExt_read [of r6 r7] 7 h(1,2) by (auto simp: reader_complete_def)
  have r5: "r5 = reader (text_field v6 @ ext_field fs)" "length v6 \<le> 255"
    using reader_text_read [OF 6] r6 by (auto simp: wire_simps)
  have r4: "r4 = reader (be16 v5 @ text_field v6 @ ext_field fs)"
    using reader_u16_read [OF 5] r5 by (simp add: wire_simps)
  have r3: "r3 = reader (be16 v4 @ be16 v5 @ text_field v6 @ ext_field fs)"
    using reader_u16_read [OF 4] r4 by (simp add: wire_simps)
  have r2: "r2 = reader (be64 v3 @ be16 v4 @ be16 v5 @ text_field v6 @ ext_field fs)"
    using reader_u64_read [OF 3] r3 by (simp add: wire_simps)
  have r1: "r1 = reader (be64 v2 @ be64 v3 @ be16 v4 @ be16 v5 @ text_field v6 @ ext_field fs)"
    using reader_u64_read [OF 2] r2 by (simp add: wire_simps)
  have "reader body = reader (hello_bytes h @ ext_field fs)"
    using reader_u64_read [OF 1] r1 h(4) by (simp add: wire_simps hello_bytes_def)
  then show ?thesis
    using fs h(3,4) r5(2) by (auto simp: reader_def)
qed

lemma encodeAccept_bytes: "encodeAccept a = Some (text_field (accept_name a) @ ext_field [])"
  by (simp add: encodeAccept_def writeExt_def writer_simps)

lemma decodeAccept_bytes:
  "ext_ok fs \<Longrightarrow> decodeAccept (text_field n @ ext_field fs) = Some \<lparr>accept_name = take 255 n\<rparr>"
  using skipExt_append [of fs "[]"] by (simp add: decodeAccept_def wire_simps)

lemma decodeAccept_read:
  assumes "decodeAccept body = Some a"
  shows "length (accept_name a) \<le> 255 \<and>
    (\<exists>fs. ext_ok fs \<and> body = text_field (accept_name a) @ ext_field fs)"
proof -
  obtain v r1 where 1: "reader_text (reader body) = (v, r1)" by fastforce
  obtain ok r2 where 2: "skipExt r1 = (ok, r2)" by fastforce
  have a: "ok" "reader_complete r2" "a = \<lparr>accept_name = v\<rparr>"
    using assms by (auto simp: decodeAccept_def 1 2 split: if_splits)
  obtain fs where fs: "ext_ok fs" and r1: "r1 = reader (ext_field fs)"
    using skipExt_read [of r1 r2] 2 a(1,2) by (auto simp: reader_complete_def)
  have "reader body = reader (text_field v @ ext_field fs)" "length v \<le> 255"
    using reader_text_read [OF 1] r1 by (auto simp: wire_simps)
  then show ?thesis
    using fs a(3) by (auto simp: reader_def)
qed

lemma encodeDecline_bytes:
  "encodeDecline d = decline_value (reason d) # text_field (decline_text d)"
  by (simp add: encodeDecline_def writer_simps)

lemma decodeDecline_bytes:
  "decodeDecline (v # text_field t) =
   Some \<lparr>reason = (if v = 1 then Incompatible else Declined), decline_text = take 255 t\<rparr>"
  using reader_text_append [of t "[]"]
  by (simp add: decodeDecline_def wire_simps decline_value_def)


section \<open>Properties\<close>

text \<open>\<open>decodeHello\<close> accepts exactly the bodies that are the fields of a Hello with an instance id that
  is not 0 and a name of at most 255 bytes, followed by well-formed extension fields of any type, and
  it returns those fields. In particular it reads back every Hello that \<open>encode\<close> writes.
\<close>

theorem decodeHello_exact:
  "decodeHello body = Some h \<longleftrightarrow>
   fromInstance h \<noteq> 0 \<and> length (name h) \<le> 255 \<and> (\<exists>fs. ext_ok fs \<and> body = hello_bytes h @ ext_field fs)"
proof
  show "decodeHello body = Some h" if "fromInstance h \<noteq> 0 \<and> length (name h) \<le> 255 \<and>
      (\<exists>fs. ext_ok fs \<and> body = hello_bytes h @ ext_field fs)"
    using that by (auto simp: decodeHello_bytes)
qed (rule decodeHello_read)

text \<open>What one engine writes the other reads: each control message comes back with its fields, its
  text cut off at 255 bytes; a Decline comes back with its reason.
\<close>

theorem control_roundtrip:
  assumes "fromInstance h \<noteq> 0"
  shows "Option.bind (encodeHello h) decodeHello = Some (h\<lparr>name := take 255 (name h)\<rparr>) \<and>
    Option.bind (encodeAccept a) decodeAccept = Some (a\<lparr>accept_name := take 255 (accept_name a)\<rparr>) \<and>
    decodeDecline (encodeDecline d) = Some (d\<lparr>decline_text := take 255 (decline_text d)\<rparr>)"
proof (intro conjI)
  show "Option.bind (encodeHello h) decodeHello = Some (h\<lparr>name := take 255 (name h)\<rparr>)"
    using decodeHello_bytes [OF ext_ok_Nil assms] by (simp add: encodeHello_bytes)
  show "Option.bind (encodeAccept a) decodeAccept = Some (a\<lparr>accept_name := take 255 (accept_name a)\<rparr>)"
    using decodeAccept_bytes [OF ext_ok_Nil] by (simp add: encodeAccept_bytes)
  show "decodeDecline (encodeDecline d) = Some (d\<lparr>decline_text := take 255 (decline_text d)\<rparr>)"
    by (cases "reason d") (simp_all add: encodeDecline_bytes decodeDecline_bytes decline_value_def)
qed

theorem control_roundtrip_witness:
  "(let h = \<lparr>fromInstance = 7, toInstance = 9, appIdHash = 1, verMajor = 1, verMinor = 2, name = [65, 66]\<rparr>;
        a = \<lparr>accept_name = [67]\<rparr>;
        d = \<lparr>reason = Incompatible, decline_text = replicate 300 68\<rparr>
    in Option.bind (encodeHello h) decodeHello = Some h \<and>
       Option.bind (encodeAccept a) decodeAccept = Some a \<and>
       decodeDecline (encodeDecline d) = Some (d\<lparr>decline_text := replicate 255 68\<rparr>))"
  using control_roundtrip [of "\<lparr>fromInstance = 7, toInstance = 9, appIdHash = 1, verMajor = 1,
      verMinor = 2, name = [65, 66]\<rparr>" "\<lparr>accept_name = [67]\<rparr>"
      "\<lparr>reason = Incompatible, decline_text = replicate 300 68\<rparr>"]
  by simp

end
