(* ===== verification/IPv4Address.thy ===== *)
theory IPv4Address
  imports Wire
begin

text \<open>
  \<open>IPv4Address.h\<close> and the address types of \<open>SocketTypes.h\<close>. A \<open>std::string\<close> is the list of its bytes.
  The lemmas show that \<open>parse\<close> and \<open>toString\<close> are inverse to each other, so that an address has one
  spelling only, and what netmasks are: a prefix of ones, under which two addresses are on one subnet
  when they agree in that prefix.
\<close>

unbundle bit_operations_syntax

section \<open>Definitions\<close>

type_synonym IPv4Address = u32

definition isDigit :: "u8 \<Rightarrow> bool" where
  "isDigit c \<longleftrightarrow> \<not> c < 48 \<and> \<not> c > 57"

text \<open>The loop over the digits of one octet, from the text at the index on.\<close>

fun parseDigits :: "bytes \<Rightarrow> u32 \<Rightarrow> nat \<Rightarrow> (u32 \<times> nat \<times> bytes) option" where
  "parseDigits [] octet digits = Some (octet, digits, [])"
| "parseDigits (c # text) octet digits =
     (if isDigit c
      then let octet = octet * 10 + ucast (c - 48); digits = digits + 1
           in if octet > 255 \<or> digits > 3 then None else parseDigits text octet digits
      else Some (octet, digits, c # text))"

text \<open>The loop over the octets: \<open>n\<close> of them are left.\<close>

fun parseOctets :: "nat \<Rightarrow> bytes \<Rightarrow> u32 \<Rightarrow> (u32 \<times> bytes) option" where
  "parseOctets 0 text v = Some (v, text)"
| "parseOctets (Suc n) text v =
     (if text = [] \<or> \<not> isDigit (hd text) then None
      else let leadingZero = (hd text = 48)
           in do { (octet, digits, text) \<leftarrow> parseDigits text 0 0;
                   if leadingZero \<and> digits > 1 then None
                   else let v = push_bit 8 v OR octet
                        in if n = 0 then parseOctets 0 text v
                           else if text = [] \<or> hd text \<noteq> 46 then None
                           else parseOctets n (tl text) v })"

definition parse :: "bytes \<Rightarrow> IPv4Address option" where
  "parse text =
     do { (v, rest) \<leftarrow> parseOctets 4 text 0;
          if rest \<noteq> [] then None else Some v }"

text \<open>\<open>std::to_string\<close> of an unsigned number.\<close>

fun to_string :: "nat \<Rightarrow> bytes" where
  "to_string n = (if n < 10 then [of_nat (48 + n)] else to_string (n div 10) @ [of_nat (48 + n mod 10)])"

declare to_string.simps [simp del]

definition toString :: "IPv4Address \<Rightarrow> bytes" where
  "toString a =
     to_string (unat (drop_bit 24 a AND 0xFF)) @ [46] @ to_string (unat (drop_bit 16 a AND 0xFF)) @ [46] @
     to_string (unat (drop_bit 8 a AND 0xFF)) @ [46] @ to_string (unat (a AND 0xFF))"

definition isUnspecified :: "IPv4Address \<Rightarrow> bool" where
  "isUnspecified a \<longleftrightarrow> a = 0"

definition isBroadcast :: "IPv4Address \<Rightarrow> bool" where
  "isBroadcast a \<longleftrightarrow> a = 0xFFFFFFFF"

definition isNetmask :: "IPv4Address \<Rightarrow> bool" where
  "isNetmask a = (if a = 0 then False else let inverted = NOT a in inverted AND (inverted + 1) = 0)"

definition unspecified :: IPv4Address where "unspecified = 0"
definition broadcast :: IPv4Address where "broadcast = 0xFFFFFFFF"

definition subnetBroadcast :: "IPv4Address \<Rightarrow> IPv4Address \<Rightarrow> IPv4Address" where
  "subnetBroadcast address m = address OR NOT m"

definition sameSubnet :: "IPv4Address \<Rightarrow> IPv4Address \<Rightarrow> IPv4Address \<Rightarrow> bool" where
  "sameSubnet a b m \<longleftrightarrow> a AND m = b AND m"

record SocketAddress =
  sa_ip :: IPv4Address
  sa_port :: u16

definition anyAddress :: "u16 \<Rightarrow> SocketAddress" where
  "anyAddress port = \<lparr>sa_ip = unspecified, sa_port = port\<rparr>"

definition socketAddressText :: "SocketAddress \<Rightarrow> bytes" where
  "socketAddressText a = toString (sa_ip a) @ [58] @ to_string (unat (sa_port a))"


section \<open>Octets\<close>

text \<open>What the digits of a number look like: no leading zero, and digits only.\<close>

definition number_text :: "bytes \<Rightarrow> bool" where
  "number_text ds \<longleftrightarrow> ds \<noteq> [] \<and> (\<forall>d \<in> set ds. isDigit d) \<and> (hd ds = 48 \<longrightarrow> length ds = 1)"

definition number_of :: "bytes \<Rightarrow> nat" where
  "number_of ds = foldl (\<lambda>n d. n * 10 + (unat d - 48)) 0 ds"

lemma isDigit_iff: "isDigit c \<longleftrightarrow> 48 \<le> unat c \<and> unat c \<le> 57"
  by (simp add: isDigit_def word_less_nat_alt not_less)

lemma unat_digit: "n < 10 \<Longrightarrow> unat (of_nat (48 + n) :: u8) = 48 + n"
  by (simp add: unat_of_nat take_bit_eq_mod del: of_nat_add)

lemma isDigit_of_nat: "n < 10 \<Longrightarrow> isDigit (of_nat (48 + n))"
  by (simp add: isDigit_iff unat_digit del: of_nat_add)

lemma digit_of_nat: "isDigit d \<Longrightarrow> d = of_nat (48 + (unat d - 48))"
  by (simp add: isDigit_iff)

lemma to_string_text: "number_text (to_string n) \<and> number_of (to_string n) = n \<and> (0 < n \<longrightarrow> hd (to_string n) \<noteq> 48)"
proof (induction n rule: to_string.induct)
  case (1 n)
  show ?case
  proof (cases "n < 10")
    case True
    have "(of_nat (48 + n) :: u8) \<noteq> 48" if "0 < n"
      using unat_digit [OF True] that by auto
    then show ?thesis
      using True by (subst (1 2 3) to_string.simps)
        (simp add: number_text_def number_of_def unat_digit isDigit_of_nat del: of_nat_add)
  next
    case False
    let ?ds = "to_string (n div 10)"
    have IH: "number_text ?ds" "number_of ?ds = n div 10" "hd ?ds \<noteq> 48"
      using 1 [OF False] False by simp_all
    then have "hd (?ds @ [of_nat (48 + n mod 10)]) \<noteq> 48"
      by (simp add: number_text_def del: of_nat_add)
    then show ?thesis
      using False IH by (subst (1 2 3) to_string.simps)
        (auto simp: number_text_def number_of_def unat_digit isDigit_of_nat simp del: of_nat_add)
  qed
qed

lemma number_of_snoc: "number_of (ds @ [d]) = number_of ds * 10 + (unat d - 48)"
  by (simp add: number_of_def)

lemma to_string_number_of: "number_text ds \<Longrightarrow> to_string (number_of ds) = ds"
proof (induction ds rule: rev_induct)
  case (snoc d ds)
  have d: "isDigit d" "unat d - 48 < 10"
    using snoc.prems by (auto simp: number_text_def isDigit_iff)
  show ?case
  proof (cases ds)
    case Nil
    then show ?thesis
      using d digit_of_nat [OF d(1)] by (subst to_string.simps) (simp add: number_of_def)
  next
    case (Cons c cs)
    then have nt: "number_text ds" "hd ds \<noteq> 48"
      using snoc.prems by (auto simp: number_text_def)
    have "0 < number_of ds"
    proof (rule ccontr)
      assume "\<not> 0 < number_of ds"
      then have "ds = to_string 0"
        using snoc.IH [OF nt(1)] by simp
      then show False
        using nt(2) by (simp add: to_string.simps)
    qed
    then have "\<not> number_of (ds @ [d]) < 10" "number_of (ds @ [d]) div 10 = number_of ds"
      "number_of (ds @ [d]) mod 10 = unat d - 48"
      using d(2) by (simp_all add: number_of_snoc)
    then show ?thesis
      using snoc.IH [OF nt(1)] digit_of_nat [OF d(1)] by (subst to_string.simps) simp
  qed
qed (simp add: number_text_def)


section \<open>Parsing\<close>

abbreviation value_from :: "nat \<Rightarrow> bytes \<Rightarrow> nat" where
  "value_from m ds \<equiv> foldl (\<lambda>n d. n * 10 + (unat d - 48)) m ds"

lemma value_from_ge: "m \<le> value_from m ds"
proof (induction ds arbitrary: m)
  case (Cons d ds)
  have "m \<le> m * 10 + (unat d - 48)"
    by linarith
  then show ?case
    using Cons [of "m * 10 + (unat d - 48)"] by simp
qed simp

lemma parseDigits_eq:
  assumes "\<forall>d \<in> set ds. isDigit d" and "rest = [] \<or> \<not> isDigit (hd rest)"
  shows "m \<le> 255 \<Longrightarrow> k \<le> 3 \<Longrightarrow> parseDigits (ds @ rest) (of_nat m) k =
    (if value_from m ds \<le> 255 \<and> k + length ds \<le> 3 then Some (of_nat (value_from m ds), k + length ds, rest) else None)"
  using assms(1)
proof (induction ds arbitrary: m k)
  case Nil
  then show ?case
    using assms(2) by (cases rest) simp_all
next
  case (Cons d ds)
  let ?m = "m * 10 + (unat d - 48)"
  have d: "isDigit d" "48 \<le> unat d" "unat d \<le> 57"
    using Cons.prems by (simp_all add: isDigit_iff)
  have "unat (d - 48) = unat d - 48"
    using d(2) by (simp add: unat_sub word_le_nat_alt)
  then have "(ucast (d - 48) :: u32) = of_nat (unat d - 48)"
    by (metis of_nat_unat)
  then have step: "of_nat m * 10 + ucast (d - 48) = (of_nat ?m :: u32)"
    by simp
  have "unat (of_nat ?m :: u32) = ?m"
    using Cons.prems(1) d(3) by (simp add: unat_of_nat take_bit_eq_mod del: of_nat_add of_nat_mult)
  then have big: "(of_nat ?m :: u32) > 255 \<longleftrightarrow> ?m > 255"
    by (simp add: word_less_nat_alt)
  show ?case
  proof (cases "?m \<le> 255 \<and> k + 1 \<le> 3")
    case True
    then show ?thesis
      using Cons.IH [of ?m "k + 1"] Cons.prems(3) d(1) step big by (simp add: Let_def)
  next
    case False
    moreover have "\<not> (value_from ?m ds \<le> 255 \<and> k + length (d # ds) \<le> 3)"
      using False value_from_ge [of ?m ds] by auto
    ultimately show ?thesis
      using d(1) step big by (auto simp: Let_def)
  qed
qed

definition octet_text :: "bytes \<Rightarrow> bool" where
  "octet_text ds \<longleftrightarrow> number_text ds \<and> number_of ds \<le> 255"

lemma length_to_string: "n \<le> 255 \<Longrightarrow> length (to_string n) \<le> 3"
  by (subst to_string.simps, subst to_string.simps, subst to_string.simps) auto

lemma octet_length: "octet_text ds \<Longrightarrow> length ds \<le> 3"
  using length_to_string [of "number_of ds"] to_string_number_of [of ds] by (simp add: octet_text_def)

lemma parseOctets_eq:
  "parseOctets (Suc n) text v =
     (let ds = takeWhile isDigit text; rest = dropWhile isDigit text; v = push_bit 8 v OR of_nat (number_of ds) in
      if \<not> octet_text ds then None
      else if n = 0 then Some (v, rest)
      else if rest = [] \<or> hd rest \<noteq> 46 then None
      else parseOctets n (tl rest) v)"
proof (cases "text = [] \<or> \<not> isDigit (hd text)")
  case True
  then have "takeWhile isDigit text = []"
    by (cases "text") auto
  then show ?thesis
    using True by (simp add: octet_text_def number_text_def Let_def)
next
  case False
  define ds rest where "ds = takeWhile isDigit text" and "rest = dropWhile isDigit text"
  have split: "text = ds @ rest"
    by (simp add: ds_def rest_def)
  have digit: "\<forall>d \<in> set ds. isDigit d" "rest = [] \<or> \<not> isDigit (hd rest)"
    using hd_dropWhile [of isDigit "text"] by (auto simp: ds_def rest_def dest: set_takeWhileD)
  have "ds \<noteq> []"
    using False by (cases "text") (auto simp: ds_def)
  then have hd: "hd text = hd ds" "0 < length ds"
    by (simp_all add: split)
  have digits: "parseDigits text 0 0 =
      (if number_of ds \<le> 255 \<and> length ds \<le> 3 then Some (of_nat (number_of ds), length ds, rest) else None)"
    using parseDigits_eq [OF digit, of 0 0] by (simp add: number_of_def split)
  have "(length ds = 1) = (\<not> length ds > 1)"
    using hd(2) by linarith
  then have "number_text ds \<longleftrightarrow> \<not> (hd text = 48 \<and> length ds > 1)"
    using digit(1) hd(1) \<open>ds \<noteq> []\<close> by (simp add: number_text_def)
  then have ok: "octet_text ds \<longleftrightarrow> number_of ds \<le> 255 \<and> length ds \<le> 3 \<and> \<not> (hd text = 48 \<and> length ds > 1)"
    using octet_length [of ds] by (auto simp: octet_text_def)
  show ?thesis
    using False digits ok by (auto simp: Let_def simp flip: ds_def rest_def)
qed

declare parseOctets.simps(2) [simp del]

lemma parseOctets_last: "parseOctets (Suc 0) text v = Some (v', rest) \<longleftrightarrow>
    (let ds = takeWhile isDigit text in octet_text ds \<and> text = ds @ rest \<and>
     v' = push_bit 8 v OR of_nat (number_of ds))"
  by (auto simp: parseOctets_eq Let_def split: if_splits)
    (metis append_eq_append_conv2 append_same_eq takeWhile_dropWhile_id same_append_eq)+

lemma parseOctets_next: "parseOctets (Suc (Suc n)) text v = Some r \<longleftrightarrow>
    (\<exists>ds rest. octet_text ds \<and> text = ds @ 46 # rest \<and>
       parseOctets (Suc n) rest (push_bit 8 v OR of_nat (number_of ds)) = Some r)"
proof
  assume p: "parseOctets (Suc (Suc n)) text v = Some r"
  let ?ds = "takeWhile isDigit text" and ?rest = "dropWhile isDigit text"
  have "octet_text ?ds" "?rest \<noteq> []" "hd ?rest = 46"
    "parseOctets (Suc n) (tl ?rest) (push_bit 8 v OR of_nat (number_of ?ds)) = Some r"
    using p by (auto simp: parseOctets_eq [of "Suc n"] Let_def split: if_splits)
  moreover from this have "text = ?ds @ 46 # tl ?rest"
    by (metis list.collapse takeWhile_dropWhile_id)
  ultimately show "\<exists>ds rest. octet_text ds \<and> text = ds @ 46 # rest \<and>
       parseOctets (Suc n) rest (push_bit 8 v OR of_nat (number_of ds)) = Some r"
    by blast
next
  assume "\<exists>ds rest. octet_text ds \<and> text = ds @ 46 # rest \<and>
       parseOctets (Suc n) rest (push_bit 8 v OR of_nat (number_of ds)) = Some r"
  then obtain ds rest where ds: "octet_text ds" "text = ds @ 46 # rest"
    "parseOctets (Suc n) rest (push_bit 8 v OR of_nat (number_of ds)) = Some r"
    by blast
  have "takeWhile isDigit text = ds" "dropWhile isDigit text = 46 # rest"
    using ds(1) by (auto simp: ds(2) octet_text_def number_text_def isDigit_def takeWhile_append dropWhile_append)
  then show "parseOctets (Suc (Suc n)) text v = Some r"
    using ds(1,3) by (simp add: parseOctets_eq [of "Suc n"])
qed


text \<open>The address of four octets, and the octets of an address.\<close>

definition address_of :: "u8 \<Rightarrow> u8 \<Rightarrow> u8 \<Rightarrow> u8 \<Rightarrow> IPv4Address" where
  "address_of a b c d = push_bit 24 (ucast a) OR push_bit 16 (ucast b) OR push_bit 8 (ucast c) OR ucast d"

lemma address_octets: "address_of (ucast (drop_bit 24 a)) (ucast (drop_bit 16 a)) (ucast (drop_bit 8 a)) (ucast a) = a"
  by (simp add: address_of_def join32)

lemma octet_mask: "unat (w AND 0xFF) = unat (ucast w :: u8)" for w :: u32
proof -
  have "w AND 0xFF = take_bit 8 w"
    by (simp add: take_bit_eq_mask mask_numeral)
  then show ?thesis
    by (simp add: unsigned_take_bit_eq unsigned_ucast_eq)
qed

lemma toString_address:
  "toString (address_of a b c d) =
     to_string (unat a) @ 46 # to_string (unat b) @ 46 # to_string (unat c) @ 46 # to_string (unat d)"
  using split32 [of a b c d] by (simp add: toString_def octet_mask address_of_def)

lemma octet_text_iff: "octet_text ds \<longleftrightarrow> (\<exists>o8 :: u8. ds = to_string (unat o8))"
proof
  assume ds: "octet_text ds"
  then have "number_of ds < 2 ^ LENGTH(8)"
    by (simp add: octet_text_def)
  then have "unat (of_nat (number_of ds) :: u8) = number_of ds"
    by (simp add: unat_of_nat take_bit_eq_mod)
  then show "\<exists>o8 :: u8. ds = to_string (unat o8)"
    using ds to_string_number_of [of ds] by (metis octet_text_def)
next
  assume "\<exists>o8 :: u8. ds = to_string (unat o8)"
  then obtain o8 :: u8 where ds: "ds = to_string (unat o8)"
    by blast
  have "unat o8 < 2 ^ LENGTH(8)"
    by (rule unsigned_less)
  then show "octet_text ds"
    using to_string_text [of "unat o8"] by (simp add: ds octet_text_def)
qed

lemma octet_value: "of_nat (number_of (to_string (unat o8))) = (ucast o8 :: u32)" for o8 :: u8
  using to_string_text [of "unat o8"] by simp

lemma parse_last: "parseOctets (Suc 0) text v = Some (v', []) \<longleftrightarrow>
    octet_text text \<and> v' = push_bit 8 v OR of_nat (number_of text)"
proof (cases "takeWhile isDigit text = text")
  case True
  then show ?thesis
    by (simp only: parseOctets_last Let_def True append_Nil2 simp_thms)
next
  case False
  then have "\<not> octet_text text"
    by (auto simp: octet_text_def number_text_def takeWhile_eq_all_conv)
  then show ?thesis
    using False by (auto simp: parseOctets_last Let_def)
qed

lemma parse_octets: "parse text = Some a \<longleftrightarrow>
    (\<exists>d1. octet_text d1 \<and> (\<exists>d2. octet_text d2 \<and> (\<exists>d3. octet_text d3 \<and> (\<exists>d4. octet_text d4 \<and>
       text = d1 @ 46 # d2 @ 46 # d3 @ 46 # d4 \<and>
       a = push_bit 24 (of_nat (number_of d1)) OR push_bit 16 (of_nat (number_of d2)) OR
           push_bit 8 (of_nat (number_of d3)) OR of_nat (number_of d4)))))"
proof -
  have "parse text = Some a \<longleftrightarrow> parseOctets (Suc (Suc (Suc (Suc 0)))) text 0 = Some (a, [])"
    by (auto simp: parse_def numeral_eq_Suc split: bind_splits if_splits)
  also have "\<dots> \<longleftrightarrow> (\<exists>d1. octet_text d1 \<and> (\<exists>d2. octet_text d2 \<and> (\<exists>d3. octet_text d3 \<and> (\<exists>d4. octet_text d4 \<and>
       text = d1 @ 46 # d2 @ 46 # d3 @ 46 # d4 \<and>
       a = push_bit 24 (of_nat (number_of d1)) OR push_bit 16 (of_nat (number_of d2)) OR
           push_bit 8 (of_nat (number_of d3)) OR of_nat (number_of d4)))))"
    unfolding parseOctets_next parse_last by (simp add: push_bit_or or.assoc) blast
  finally show ?thesis .
qed

lemma parse_iff: "parse text = Some a \<longleftrightarrow> text = toString a"
proof
  assume "parse text = Some a"
  then obtain o1 o2 o3 o4 :: u8 where
    "text = to_string (unat o1) @ 46 # to_string (unat o2) @ 46 # to_string (unat o3) @ 46 # to_string (unat o4)"
    "a = address_of o1 o2 o3 o4"
    unfolding parse_octets octet_text_iff by (auto simp: octet_value address_of_def)
  then show "text = toString a"
    by (simp add: toString_address)
next
  assume t: "text = toString a"
  obtain o1 o2 o3 o4 :: u8 where a: "a = address_of o1 o2 o3 o4"
    using address_octets by metis
  show "parse text = Some a"
    unfolding parse_octets octet_text_iff t a toString_address
    by (rule exI [of _ "to_string (unat o1)"], rule conjI, blast, rule exI [of _ "to_string (unat o2)"], rule conjI, blast,
        rule exI [of _ "to_string (unat o3)"], rule conjI, blast, rule exI [of _ "to_string (unat o4)"])
      (auto simp: octet_value address_of_def)
qed


section \<open>Netmasks\<close>

text \<open>A netmask is a number of leading ones.\<close>

definition prefix_mask :: "nat \<Rightarrow> IPv4Address" where
  "prefix_mask n = NOT (mask (32 - n))"

lemma low_ones_bits:
  fixes w :: u32
  assumes "w AND (w + 1) = 0" and "bit w (Suc j)"
  shows "bit w j"
proof -
  have "w OR (w + 1) = 1 + 2 * w"
    using assms(1) word_plus_and_or [of w "w + 1"] by simp
  then have "bit (1 + 2 * w) (Suc j)"
    using assms(2) by (metis bit_or_iff)
  then show ?thesis
    by (simp add: even_bit_succ_iff bit_double_iff)
qed

lemma low_ones: "w AND (w + 1) = 0 \<longleftrightarrow> (\<exists>k \<le> 32. w = mask k)" for w :: u32
proof
  assume "\<exists>k \<le> 32. w = mask k"
  then obtain k where k: "w = mask k"
    by blast
  have "w + 1 = push_bit k 1"
    by (simp add: k mask_eq_exp_minus_1 push_bit_eq_mult)
  then have "w AND (w + 1) = take_bit k (push_bit k 1)"
    by (simp add: k take_bit_eq_mask and.commute)
  also have "\<dots> = 0"
    by (simp only: take_bit_push_bit diff_self_eq_0 take_bit_0 push_bit_of_0)
  finally show "w AND (w + 1) = 0" .
next
  assume z: "w AND (w + 1) = 0"
  define k where "k = (LEAST j. \<not> bit w j)"
  have none: "\<not> bit w 32"
    using bit_imp_le_length [of w 32] by auto
  then have k: "\<not> bit w k" "k \<le> 32"
    unfolding k_def by (rule LeastI, rule Least_le)
  have "\<not> bit w (k + d)" for d
    using k(1) low_ones_bits [OF z] by (induction d) auto
  then have above: "\<not> bit w j" if "k \<le> j" for j
    using that le_Suc_ex by blast
  have below: "bit w j" if "j < k" for j
    using not_less_Least that unfolding k_def by blast
  have "w = mask k"
    by (rule bit_word_eqI) (use above below in \<open>auto simp: bit_mask_iff not_less [symmetric]\<close>)
  then show "\<exists>k \<le> 32. w = mask k"
    using k(2) by blast
qed

lemma isNetmask_iff: "isNetmask m \<longleftrightarrow> (\<exists>n \<in> {1..32}. m = prefix_mask n)"
proof -
  have not: "NOT m = mask k \<longleftrightarrow> m = NOT (mask k)" for k
    by (metis bit.double_compl)
  have zero: "prefix_mask 0 = 0"
    by (rule bit_word_eqI) (simp add: prefix_mask_def bit_not_iff bit_mask_iff)
  have pos: "prefix_mask n \<noteq> 0" if "n \<in> {1..32}" for n
  proof
    assume "prefix_mask n = 0"
    then have "bit (prefix_mask n) 31 = False"
      by simp
    then have "31 < 32 - n"
      by (simp add: prefix_mask_def bit_not_iff bit_mask_iff)
    then show False
      using that by auto
  qed
  have "isNetmask m \<longleftrightarrow> m \<noteq> 0 \<and> (\<exists>k \<le> 32. m = NOT (mask k))"
    unfolding isNetmask_def Let_def low_ones not by simp
  also have "\<dots> \<longleftrightarrow> m \<noteq> 0 \<and> (\<exists>n \<le> 32. m = prefix_mask n)"
    unfolding prefix_mask_def by (metis diff_diff_cancel diff_le_self)
  also have "\<dots> \<longleftrightarrow> (\<exists>n \<in> {1..32}. m = prefix_mask n)"
    using zero pos by (metis One_nat_def atLeastAtMost_iff le_zero_eq not_less_eq_eq zero_le)
  finally show ?thesis .
qed

lemma word_bits: "v = w \<longleftrightarrow> (\<forall>j. bit v j = bit w j)" for v w :: u32
  by (auto intro: bit_word_eqI)

lemma sameSubnet_prefix:
  assumes "n \<le> 32"
  shows "sameSubnet a b (prefix_mask n) \<longleftrightarrow> drop_bit (32 - n) a = drop_bit (32 - n) b"
proof -
  have bits: "bit (w AND prefix_mask n) j \<longleftrightarrow> 32 - n \<le> j \<and> bit w j" for w j
    by (auto simp: prefix_mask_def bit_and_iff bit_not_iff bit_mask_iff dest: bit_imp_le_length)
  have "sameSubnet a b (prefix_mask n) \<longleftrightarrow> (\<forall>j \<ge> 32 - n. bit a j = bit b j)"
    unfolding sameSubnet_def word_bits bits by blast
  also have "\<dots> \<longleftrightarrow> (\<forall>j. bit a (32 - n + j) = bit b (32 - n + j))"
    using le_Suc_ex le_add1 by metis
  also have "\<dots> \<longleftrightarrow> drop_bit (32 - n) a = drop_bit (32 - n) b"
    by (simp add: word_bits [of "drop_bit (32 - n) a"] bit_drop_bit_eq)
  finally show ?thesis .
qed


section \<open>Properties\<close>

text \<open>An address has exactly one spelling: \<open>parse\<close> takes a text if and only if it is what \<open>toString\<close> writes for
  an address, and returns this address.\<close>

theorem address_spelling: "parse text = Some a \<longleftrightarrow> text = toString a"
  by (rule parse_iff)

text \<open>The netmasks are the prefixes of 1 to 32 ones; two addresses are on one subnet if and only if they agree in
  that prefix, and the broadcast address is on the subnet and ends in ones.\<close>

theorem subnet_prefix:
  assumes "isNetmask m"
  shows "\<exists>n \<in> {1..32}. \<forall>a b. (sameSubnet a b m \<longleftrightarrow> drop_bit (32 - n) a = drop_bit (32 - n) b) \<and>
    sameSubnet (subnetBroadcast a m) a m \<and> take_bit (32 - n) (subnetBroadcast a m) = mask (32 - n)"
proof -
  obtain n where n: "n \<in> {1..32}" "m = prefix_mask n"
    using assms isNetmask_iff by blast
  have "subnetBroadcast a m AND m = a AND m" for a
    unfolding subnetBroadcast_def by (simp add: bit_eq_iff bit_simps) blast
  moreover have "take_bit (32 - n) (subnetBroadcast a m) = mask (32 - n)" for a
    by (rule bit_word_eqI) (auto simp: subnetBroadcast_def n(2) prefix_mask_def bit_simps)
  ultimately show ?thesis
    using n sameSubnet_prefix [of n] unfolding sameSubnet_def by auto
qed

theorem subnet_prefix_witness:
  "isNetmask 0xFFFFFF00 \<and> sameSubnet (subnetBroadcast 0xC0A80107 0xFFFFFF00) 0xC0A80107 0xFFFFFF00"
proof -
  have "isNetmask 0xFFFFFF00"
    by (simp add: isNetmask_def)
  then show ?thesis
    using subnet_prefix by blast
qed

end
