(* ===== verification/BeaconCodec.thy ===== *)
theory BeaconCodec
  imports PacketHeader ControlMessage IPv4Address
begin

text \<open>
  \<open>Discovery/Beacon.h\<close>: the datagram an engine announces itself with, the hash of the application's
  id and the version both sides compare.

  The lemmas characterise the beacons \<open>decodeBeacon\<close> accepts, show that no datagram is both a beacon
  and a packet of a session, that a version is read back from its text, and that the hash tells two
  application ids apart when they differ in one byte.
\<close>

unbundle bit_operations_syntax

section \<open>hashAppId\<close>

text \<open>The loop over the bytes of the id, from a hash on.\<close>

definition fnvStep :: "u64 \<Rightarrow> u8 \<Rightarrow> u64" where
  "fnvStep hash c = (hash XOR ucast c) * 0x100000001B3"

definition hashAppId :: "bytes \<Rightarrow> u64" where
  "hashAppId appId = foldl fnvStep 0xCBF29CE484222325 appId"


section \<open>AppVersion\<close>

record AppVersion =
  av_major :: u16
  av_minor :: u16

definition versionText :: "AppVersion \<Rightarrow> bytes" where
  "versionText v = to_string (unat (av_major v)) @ [46] @ to_string (unat (av_minor v))"

text \<open>
  \<open>std::from_chars\<close> into a \<open>uint16_t\<close>, in the lambda \<open>number\<close>: the longest sequence of digits at the
  front of the text. No digit, and a number out of the range, is an error, which leaves the value 0.
\<close>

definition number :: "bytes \<Rightarrow> u16" where
  "number text =
     (let ds = takeWhile isDigit text
      in if ds = [] \<or> number_of ds > 65535 then 0 else of_nat (number_of ds))"

definition parseAppVersion :: "bytes \<Rightarrow> AppVersion" where
  "parseAppVersion ver =
     (let major = number (takeWhile (\<lambda>c. c \<noteq> 46) ver)
      in case dropWhile (\<lambda>c. c \<noteq> 46) ver of
           [] \<Rightarrow> \<lparr>av_major = major, av_minor = 0\<rparr>
         | _ # rest \<Rightarrow> \<lparr>av_major = major, av_minor = number (takeWhile (\<lambda>c. c \<noteq> 46) rest)\<rparr>)"


section \<open>Beacon\<close>

record Beacon =
  instanceId :: u64
  b_appIdHash :: u64
  b_version :: AppVersion
  reply :: bool
  b_name :: bytes

definition BeaconPrefixSize :: nat where [constants]: "BeaconPrefixSize = 4"
definition BeaconReplyFlag :: u8 where [constants]: "BeaconReplyFlag = 0x01"

definition isBeacon :: "bytes \<Rightarrow> bool option" where
  "isBeacon datagram =
     (if \<not> length datagram \<ge> BeaconPrefixSize then Some False
      else do { magic \<leftarrow> readUint16 datagram 0;
                if magic \<noteq> ProtocolMagic then Some False
                else do { ver \<leftarrow> fetch datagram 2;
                          if ver \<noteq> ProtocolVersion then Some False
                          else do { k \<leftarrow> fetch datagram 3; Some (k = kindValue PacketKind.Beacon) } } })"

definition encodeBeacon :: "Beacon \<Rightarrow> bytes option" where
  "encodeBeacon beacon =
     do { out \<leftarrow> writer_u16 [] ProtocolMagic;
          let out = writer_u8 out ProtocolVersion;
          let out = writer_u8 out (kindValue PacketKind.Beacon);
          out \<leftarrow> writer_u64 out (instanceId beacon);
          out \<leftarrow> writer_u64 out (b_appIdHash beacon);
          out \<leftarrow> writer_u16 out (av_major (b_version beacon));
          out \<leftarrow> writer_u16 out (av_minor (b_version beacon));
          let out = writer_u8 out (if reply beacon then BeaconReplyFlag else 0);
          writeExt (writer_text out (b_name beacon)) }"

text \<open>The fields behind the prefix, and \<open>decodeBeacon\<close>.\<close>

definition decodeBeaconFields :: "bytes \<Rightarrow> Beacon option" where
  "decodeBeaconFields body =
     (let (inst, r) = reader_u64 (reader body);
          (app, r) = reader_u64 r;
          (major, r) = reader_u16 r;
          (minor, r) = reader_u16 r;
          (fl, r) = reader_u8 r;
          (nm, r) = reader_text r;
          (ok, r') = skipExt r
      in if fl AND NOT BeaconReplyFlag \<noteq> 0 \<or> \<not> ok \<or> \<not> reader_complete r' \<or> inst = 0 then None
         else Some \<lparr>instanceId = inst, b_appIdHash = app,
                    b_version = \<lparr>av_major = major, av_minor = minor\<rparr>,
                    reply = (fl AND BeaconReplyFlag \<noteq> 0), b_name = nm\<rparr>)"

definition decodeBeacon :: "bytes \<Rightarrow> Beacon option option" where
  "decodeBeacon datagram =
     do { b \<leftarrow> isBeacon datagram;
          if \<not> b \<or> length datagram > MaxDatagramSize then Some None
          else Some (decodeBeaconFields (drop BeaconPrefixSize datagram)) }"


section \<open>The codec\<close>

definition beacon_prefix :: bytes where
  "beacon_prefix = be16 ProtocolMagic @ [ProtocolVersion, kindValue PacketKind.Beacon]"

definition reply_flag :: "bool \<Rightarrow> u8" where
  "reply_flag r = (if r then 1 else 0)"

definition beacon_fields :: "Beacon \<Rightarrow> bytes" where
  "beacon_fields b = be64 (instanceId b) @ be64 (b_appIdHash b) @ be16 (av_major (b_version b)) @
     be16 (av_minor (b_version b)) @ reply_flag (reply b) # text_field (b_name b)"

lemma length_beacon_prefix [simp]: "length beacon_prefix = 4"
  by (simp add: beacon_prefix_def)

lemma length_beacon_fields: "length (beacon_fields b) \<le> 277"
  by (simp add: beacon_fields_def text_field_def)

lemma isBeacon_prefix: "isBeacon d = Some (take 4 d = beacon_prefix)"
proof (cases "4 \<le> length d")
  case True
  obtain m where m: "readUint16 d 0 = Some m"
    using readUint16_defined [of 0 d] True by auto
  have "take 4 d = take 2 d @ take 1 (drop 2 d) @ take 1 (drop 3 d)"
    using True by (intro nth_equalityI) (auto simp: nth_append less_Suc_eq numeral_eq_Suc)
  then have "take 4 d = be16 m @ [d ! 2, d ! 3]"
    using True readUint16_bytes [OF m] by (simp add: take_Suc_conv_app_nth)
  moreover have "be16 m = be16 ProtocolMagic \<longleftrightarrow> m = ProtocolMagic"
    using readUint16_be16 [of "[]" m "[]"] readUint16_be16 [of "[]" ProtocolMagic "[]"] by auto
  ultimately have "take 4 d = beacon_prefix \<longleftrightarrow>
      m = ProtocolMagic \<and> d ! 2 = ProtocolVersion \<and> d ! 3 = kindValue PacketKind.Beacon"
    by (simp add: beacon_prefix_def)
  then show ?thesis
    using True m by (simp add: isBeacon_def BeaconPrefixSize_def fetch_def)
next
  case False
  then have "take 4 d \<noteq> beacon_prefix"
    by (metis length_beacon_prefix length_take min.absorb_iff2 min.commute)
  then show ?thesis
    using False by (simp add: isBeacon_def BeaconPrefixSize_def)
qed

lemma reply_flag_bits [simp]:
  "reply_flag r AND NOT BeaconReplyFlag = 0" "reply_flag r AND BeaconReplyFlag \<noteq> 0 \<longleftrightarrow> r"
  by (simp_all add: reply_flag_def BeaconReplyFlag_def)

lemma reply_flag_only:
  assumes "fl AND NOT BeaconReplyFlag = 0"
  shows "fl = reply_flag (fl AND BeaconReplyFlag \<noteq> 0)"
proof -
  have "fl = (fl AND BeaconReplyFlag) OR (fl AND NOT BeaconReplyFlag)"
    by (simp flip: bit.conj_disj_distrib)
  then have fl: "fl = fl AND 1"
    using assms by (simp add: BeaconReplyFlag_def)
  then have "fl = of_bool (odd fl)"
    by (metis and_one_eq mod_2_eq_odd)
  then have "fl = 0 \<or> fl = 1"
    by (cases "odd fl") simp_all
  then show ?thesis
    by (auto simp: reply_flag_def BeaconReplyFlag_def)
qed

lemma encodeBeacon_bytes: "encodeBeacon b = Some (beacon_prefix @ beacon_fields b @ ext_field [])"
  by (simp add: encodeBeacon_def writeExt_def writer_simps beacon_prefix_def beacon_fields_def
      reply_flag_def BeaconReplyFlag_def)

lemma decodeBeaconFields_bytes:
  "ext_ok fs \<Longrightarrow> instanceId b \<noteq> 0 \<Longrightarrow>
   decodeBeaconFields (beacon_fields b @ ext_field fs) = Some (b\<lparr>b_name := take 255 (b_name b)\<rparr>)"
  using skipExt_append [of fs "[]"]
  by (simp add: decodeBeaconFields_def beacon_fields_def wire_simps)

lemma decodeBeaconFields_read:
  assumes "decodeBeaconFields body = Some b"
  shows "instanceId b \<noteq> 0 \<and> length (b_name b) \<le> 255 \<and>
    (\<exists>fs. ext_ok fs \<and> body = beacon_fields b @ ext_field fs)"
proof -
  obtain v1 r1 where 1: "reader_u64 (reader body) = (v1, r1)" by fastforce
  obtain v2 r2 where 2: "reader_u64 r1 = (v2, r2)" by fastforce
  obtain v3 r3 where 3: "reader_u16 r2 = (v3, r3)" by fastforce
  obtain v4 r4 where 4: "reader_u16 r3 = (v4, r4)" by fastforce
  obtain fl r5 where 5: "reader_u8 r4 = (fl, r5)" by fastforce
  obtain v6 r6 where 6: "reader_text r5 = (v6, r6)" by fastforce
  obtain ok r7 where 7: "skipExt r6 = (ok, r7)" by fastforce
  have b: "ok" "reader_complete r7" "v1 \<noteq> 0" "fl AND NOT BeaconReplyFlag = 0"
    "b = \<lparr>instanceId = v1, b_appIdHash = v2, b_version = \<lparr>av_major = v3, av_minor = v4\<rparr>,
          reply = (fl AND BeaconReplyFlag \<noteq> 0), b_name = v6\<rparr>"
    using assms by (auto simp: decodeBeaconFields_def 1 2 3 4 5 6 7 split: if_splits)
  obtain fs where fs: "ext_ok fs" and r6: "r6 = reader (ext_field fs)"
    using skipExt_read [of r6 r7] 7 b(1,2) by (auto simp: reader_complete_def)
  have r5: "r5 = reader (text_field v6 @ ext_field fs)" "length v6 \<le> 255"
    using reader_text_read [OF 6] r6 by (auto simp: wire_simps)
  have r4: "r4 = reader (fl # text_field v6 @ ext_field fs)"
    using reader_u8_read [OF 5] r5 by (simp add: wire_simps)
  have r3: "r3 = reader (be16 v4 @ fl # text_field v6 @ ext_field fs)"
    using reader_u16_read [OF 4] r4 by (simp add: wire_simps)
  have r2: "r2 = reader (be16 v3 @ be16 v4 @ fl # text_field v6 @ ext_field fs)"
    using reader_u16_read [OF 3] r3 by (simp add: wire_simps)
  have r1: "r1 = reader (be64 v2 @ be16 v3 @ be16 v4 @ fl # text_field v6 @ ext_field fs)"
    using reader_u64_read [OF 2] r2 by (simp add: wire_simps)
  have "reader body = reader (beacon_fields b @ ext_field fs)"
    using reader_u64_read [OF 1] r1 b(5) reply_flag_only [OF b(4)]
    by (simp add: wire_simps beacon_fields_def)
  then show ?thesis
    using fs b(3,5) r5(2) by (auto simp: reader_def)
qed

lemma decodeBeacon_eq:
  "decodeBeacon d =
   Some (if take 4 d = beacon_prefix \<and> length d \<le> MaxDatagramSize then decodeBeaconFields (drop 4 d) else None)"
  by (simp add: decodeBeacon_def isBeacon_prefix BeaconPrefixSize_def)

lemma decodeBeacon_bytes:
  assumes "ext_ok fs" "instanceId b \<noteq> 0" "length (b_name b) \<le> 255"
    and "length (beacon_prefix @ beacon_fields b @ ext_field fs) \<le> MaxDatagramSize"
  shows "decodeBeacon (beacon_prefix @ beacon_fields b @ ext_field fs) = Some (Some b)"
  using assms by (simp add: decodeBeacon_eq decodeBeaconFields_bytes)

lemma decodeBeacon_encodeBeacon:
  assumes "instanceId b \<noteq> 0"
  shows "Option.bind (encodeBeacon b) decodeBeacon = Some (Some (b\<lparr>b_name := take 255 (b_name b)\<rparr>))"
  using assms length_beacon_fields [of b] decodeBeaconFields_bytes [OF ext_ok_Nil]
  by (simp add: encodeBeacon_bytes decodeBeacon_eq MaxDatagramSize_def)


section \<open>Versions\<close>

lemma takeWhile_number: "number_text ds \<Longrightarrow> c = [] \<or> \<not> isDigit (hd c) \<Longrightarrow> takeWhile isDigit (ds @ c) = ds"
  by (cases c) (auto simp: number_text_def takeWhile_append2 takeWhile_tail)

lemma number_to_string: "rest = [] \<or> \<not> isDigit (hd rest) \<Longrightarrow> number (to_string (unat n) @ rest) = n"
proof -
  assume "rest = [] \<or> \<not> isDigit (hd rest)"
  then have "takeWhile isDigit (to_string (unat n) @ rest) = to_string (unat n)"
    using takeWhile_number to_string_text by blast
  moreover have "to_string (unat n) \<noteq> []"
    using to_string_text [of "unat n"] by (simp add: number_text_def)
  ultimately show ?thesis
    using to_string_text [of "unat n"] unat_u16_less [of n] by (simp add: number_def)
qed

lemma to_string_no_dot: "c \<in> set (to_string n) \<Longrightarrow> c \<noteq> 46"
  using to_string_text [of n] by (auto simp: number_text_def isDigit_def)

lemma split_at_dot:
  assumes "46 \<notin> set p"
  shows "takeWhile (\<lambda>c. c \<noteq> 46) (p @ 46 # s) = p" "dropWhile (\<lambda>c. c \<noteq> 46) (p @ 46 # s) = 46 # s"
    "takeWhile (\<lambda>c. c \<noteq> 46) p = p"
  using assms by (induction p) auto

lemma parseAppVersion_text:
  assumes "rest = [] \<or> hd rest = 46"
  shows "parseAppVersion (versionText v @ rest) = v"
proof -
  have dot: "46 \<notin> set (to_string n)" for n
    using to_string_no_dot by blast
  have "takeWhile (\<lambda>c. c \<noteq> 46) (to_string n @ rest) = to_string n" for n
    using assms split_at_dot [OF dot] by (cases rest) auto
  then show ?thesis
    using number_to_string [of "[]"] split_at_dot [OF dot]
    by (simp add: parseAppVersion_def versionText_def)
qed


section \<open>The hash\<close>

text \<open>One step is a bijection on hashes, since the factor is odd: it has an inverse modulo \<open>2\<^sup>6\<^sup>4\<close>.\<close>

lemma fnvStep_inverse: "(x * 0x100000001B3) * 0xCE965057AFF6957B = x" for x :: u64
proof -
  have "(0x100000001B3 * 0xCE965057AFF6957B :: u64) = 1"
    by simp
  then show ?thesis
    by (simp only: mult.assoc mult_1_right)
qed

lemma fnvStep_inj: "fnvStep h c = fnvStep h' c' \<longleftrightarrow> h XOR ucast c = h' XOR ucast c'"
  unfolding fnvStep_def by (metis fnvStep_inverse)

lemma xor_cancel: "a XOR b = a XOR c \<longleftrightarrow> b = c" "b XOR a = c XOR a \<longleftrightarrow> b = c" for a b c :: u64
  by (auto simp: bit_eq_iff bit_xor_iff)

lemma foldl_fnv_inj: "foldl fnvStep h s = foldl fnvStep h' s \<longleftrightarrow> h = h'"
  by (induction s arbitrary: h h') (simp_all add: fnvStep_inj xor_cancel)


section \<open>Properties\<close>

text \<open>C24: \<open>decodeBeacon\<close> reads inside the datagram, and it accepts exactly the datagrams of at most
  \<open>MaxDatagramSize\<close> bytes that are the prefix of a beacon, the fields of a beacon with an instance id
  that is not 0, and well-formed extension fields of any type.
\<close>

theorem decodeBeacon_exact:
  "\<exists>r. decodeBeacon d = Some r \<and>
     (\<forall>b. r = Some b \<longleftrightarrow>
        instanceId b \<noteq> 0 \<and> length (b_name b) \<le> 255 \<and> length d \<le> MaxDatagramSize \<and>
        (\<exists>fs. ext_ok fs \<and> d = beacon_prefix @ beacon_fields b @ ext_field fs))"
proof -
  have "decodeBeacon d = Some (Some b) \<longleftrightarrow>
      instanceId b \<noteq> 0 \<and> length (b_name b) \<le> 255 \<and> length d \<le> MaxDatagramSize \<and>
      (\<exists>fs. ext_ok fs \<and> d = beacon_prefix @ beacon_fields b @ ext_field fs)" for b
  proof
    assume "decodeBeacon d = Some (Some b)"
    then have "take 4 d = beacon_prefix" "length d \<le> MaxDatagramSize"
      "decodeBeaconFields (drop 4 d) = Some b"
      by (auto simp: decodeBeacon_eq split: if_splits)
    then show "instanceId b \<noteq> 0 \<and> length (b_name b) \<le> 255 \<and> length d \<le> MaxDatagramSize \<and>
        (\<exists>fs. ext_ok fs \<and> d = beacon_prefix @ beacon_fields b @ ext_field fs)"
      using decodeBeaconFields_read [of "drop 4 d" b] by (metis append_take_drop_id)
  qed (use decodeBeacon_bytes in blast)
  then show ?thesis
    by (simp add: decodeBeacon_eq)
qed

text \<open>Every beacon an engine writes, with a name of at most 255 bytes, is read back as it was, and the
  decoder of session packets rejects it.
\<close>

theorem beacon_roundtrip:
  assumes "instanceId b \<noteq> 0" and "length (b_name b) \<le> 255"
  shows "\<exists>d. encodeBeacon b = Some d \<and> decodeBeacon d = Some (Some b) \<and> decodePacket d = Some None"
proof -
  let ?d = "beacon_prefix @ beacon_fields b @ ext_field []"
  have read: "readUint16 ?d 0 = Some ProtocolMagic" "fetch ?d 2 = Some ProtocolVersion" "fetch ?d 3 = Some 3"
    using readUint16_be16 [of "[]" ProtocolMagic]
    by (simp_all add: beacon_prefix_def fetch_def nth_append)
  have "kind 3 = PacketKind.Beacon"
    by (simp add: kind_def KindMask_def toKind_def)
  moreover obtain r where r: "decodeHeader ?d = Some r"
    using decodeHeader_safe [of ?d] by blast
  ultimately have "r = None"
    unfolding decodeHeader_def using read by (auto split: if_splits)
  then have "decodePacket ?d = Some None"
    using r by (simp add: decodePacket_def)
  then show ?thesis
    using decodeBeacon_encodeBeacon [OF assms(1)] assms(2) encodeBeacon_bytes [of b] by simp
qed

theorem beacon_roundtrip_witness:
  "\<exists>d. encodeBeacon \<lparr>instanceId = 5, b_appIdHash = hashAppId [97], b_version = parseAppVersion [49, 46, 50],
        reply = True, b_name = [66]\<rparr> = Some d \<and>
       decodeBeacon d = Some (Some \<lparr>instanceId = 5, b_appIdHash = hashAppId [97],
        b_version = parseAppVersion [49, 46, 50], reply = True, b_name = [66]\<rparr>) \<and>
       decodePacket d = Some None"
  by (rule beacon_roundtrip) simp_all

text \<open>The version an engine shows is read back as the same version, whatever comes after it from a
  second dot on: patch and build number are ignored.
\<close>

theorem version_roundtrip:
  "parseAppVersion (versionText v) = v \<and> parseAppVersion (versionText v @ 46 # patch) = v"
  using parseAppVersion_text [of "[]" v] parseAppVersion_text [of "46 # patch" v] by simp

text \<open>Two application ids of one length that differ in one byte only never have the same hash, and a
  common suffix does not make two ids collide that did not collide before it.
\<close>

theorem hash_separates:
  "(hashAppId (p @ [a] @ s) = hashAppId (p @ [b] @ s) \<longleftrightarrow> a = b) \<and>
   (hashAppId (p @ s) = hashAppId (q @ s) \<longleftrightarrow> hashAppId p = hashAppId q)"
proof -
  have "(ucast a :: u64) = ucast b \<longleftrightarrow> a = b"
    by (simp add: word_unat_eq_iff)
  then show ?thesis
    by (simp add: hashAppId_def foldl_fnv_inj fnvStep_inj xor_cancel)
qed

end
