(* ===== verification/OrderedMap.thy ===== *)
theory OrderedMap
  imports Prelude
begin

text \<open>
  \<open>std::map\<close>: a list of pairs, ascending in its keys, which is the order a loop over the map visits
  them in. The laws of such a store are a locale; the tables of discovered peers, of sessions and of
  mailbox queues are instances of it.
\<close>

section \<open>Operations\<close>

fun om_put :: "'k::linorder \<Rightarrow> 'v \<Rightarrow> ('k \<times> 'v) list \<Rightarrow> ('k \<times> 'v) list" where
  "om_put k v [] = [(k, v)]"
| "om_put k v ((k', v') # m) =
     (if k < k' then (k, v) # (k', v') # m else if k = k' then (k, v) # m else (k', v') # om_put k v m)"

definition om_erase :: "'k \<Rightarrow> ('k \<times> 'v) list \<Rightarrow> ('k \<times> 'v) list" where
  "om_erase k m = filter (\<lambda>e. fst e \<noteq> k) m"

text \<open>Writing through a reference to the value of a key, if there is one.\<close>

definition om_modify :: "'k \<Rightarrow> ('v \<Rightarrow> 'v) \<Rightarrow> ('k \<times> 'v) list \<Rightarrow> ('k \<times> 'v) list" where
  "om_modify k f m = map (\<lambda>(k', v). (k', if k' = k then f v else v)) m"

definition om_keys :: "('k \<times> 'v) list \<Rightarrow> 'k list" where
  "om_keys m = map fst m"

definition om_ok :: "('k::linorder \<times> 'v) list \<Rightarrow> bool" where
  "om_ok m \<longleftrightarrow> sorted_wrt (<) (om_keys m)"

lemma om_keys_simps [simp]: "om_keys [] = []" "om_keys ((k, v) # m) = k # om_keys m"
  by (simp_all add: om_keys_def)

lemma om_ok_simps [simp]: "om_ok []" "om_ok ((k, v) # m) \<longleftrightarrow> (\<forall>k' \<in> set (om_keys m). k < k') \<and> om_ok m"
  by (simp_all add: om_ok_def)

lemma set_keys_put [simp]: "set (om_keys (om_put k v m)) = insert k (set (om_keys m))"
  by (induction k v m rule: om_put.induct) auto

lemma om_ok_put: "om_ok m \<Longrightarrow> om_ok (om_put k v m)"
  by (induction k v m rule: om_put.induct) auto

lemma om_ok_distinct: "om_ok m \<Longrightarrow> distinct (om_keys m)"
  by (induction m) auto

lemma map_of_None_keys: "map_of m k = None \<longleftrightarrow> k \<notin> set (om_keys m)"
  by (simp add: om_keys_def map_of_eq_None_iff)

lemma map_of_put [simp]: "map_of (om_put k v m) k' = (if k' = k then Some v else map_of m k')"
  by (induction k v m rule: om_put.induct) auto

lemma om_ok_erase: "om_ok m \<Longrightarrow> om_ok (om_erase k m)"
  by (auto simp: om_ok_def om_keys_def om_erase_def sorted_wrt_map intro: sorted_wrt_filter)

lemma map_of_erase [simp]: "map_of (om_erase k m) k' = (if k' = k then None else map_of m k')"
  by (induction m) (auto simp: om_erase_def)

lemma om_keys_modify [simp]: "om_keys (om_modify k f m) = om_keys m"
  by (simp add: om_keys_def om_modify_def case_prod_beta comp_def)

lemma om_ok_modify [simp]: "om_ok (om_modify k f m) = om_ok m"
  by (simp add: om_ok_def)

lemma map_of_modify [simp]: "map_of (om_modify k f m) k' = (if k' = k then map_option f (map_of m k') else map_of m k')"
  by (induction m) (auto simp: om_modify_def)

lemma length_modify [simp]: "length (om_modify k f m) = length m"
  by (simp add: om_modify_def)

lemma om_size: "om_ok m \<Longrightarrow> length m = card (dom (map_of m))"
  using distinct_card [OF om_ok_distinct, of m] by (simp add: dom_map_of_conv_image_fst om_keys_def)


section \<open>The interface\<close>

locale keyed_store =
  fixes ok :: "'m \<Rightarrow> bool"
    and look :: "'m \<Rightarrow> 'k \<rightharpoonup> 'v"
    and put :: "'k \<Rightarrow> 'v \<Rightarrow> 'm \<Rightarrow> 'm"
    and del :: "'k \<Rightarrow> 'm \<Rightarrow> 'm"
    and modify :: "'k \<Rightarrow> ('v \<Rightarrow> 'v) \<Rightarrow> 'm \<Rightarrow> 'm"
    and entries :: "'m \<Rightarrow> nat"
  assumes ok_put: "ok m \<Longrightarrow> ok (put k v m)"
    and ok_del: "ok m \<Longrightarrow> ok (del k m)"
    and ok_modify: "ok m \<Longrightarrow> ok (modify k f m)"
    and look_put: "look (put k v m) k' = (if k' = k then Some v else look m k')"
    and look_del: "look (del k m) k' = (if k' = k then None else look m k')"
    and look_modify: "look (modify k f m) k' = (if k' = k then map_option f (look m k') else look m k')"
    and entries_card: "ok m \<Longrightarrow> entries m = card (dom (look m))"
    and finite_look: "finite (dom (look m))"
begin

lemma look_put_map: "look (put k v m) = (look m)(k \<mapsto> v)"
  by (auto simp: look_put)

lemma look_del_map: "look (del k m) = (look m)(k := None)"
  by (auto simp: look_del)

lemma dom_modify: "dom (look (modify k f m)) = dom (look m)"
  by (auto simp: dom_def look_modify)

text \<open>What every entry satisfies, and what keeps it.\<close>

lemma all_put:
  assumes "\<forall>k v. look m k = Some v \<longrightarrow> P k v" and "P k v"
  shows "\<forall>k' v'. look (put k v m) k' = Some v' \<longrightarrow> P k' v'"
  using assms by (auto simp: look_put)

lemma all_del: "\<forall>k v. look m k = Some v \<longrightarrow> P k v \<Longrightarrow> \<forall>k' v. look (del k m) k' = Some v \<longrightarrow> P k' v"
  by (auto simp: look_del)

lemma all_modify:
  assumes "\<forall>k v. look m k = Some v \<longrightarrow> P k v" and "\<And>v. look m k = Some v \<Longrightarrow> P k v \<Longrightarrow> P k (f v)"
  shows "\<forall>k' v. look (modify k f m) k' = Some v \<longrightarrow> P k' v"
  using assms by (auto simp: look_modify)

text \<open>A table grows by one entry, and only for a key it does not have.\<close>

lemma entries_put:
  assumes "ok m"
  shows "entries (put k v m) = (if look m k = None then entries m + 1 else entries m)"
proof -
  have "dom (look (put k v m)) = insert k (dom (look m))"
    by (simp add: look_put_map)
  then show ?thesis
    using entries_card [OF assms] entries_card [OF ok_put [OF assms]] finite_look [of m]
    by (auto simp: card_insert_if domIff)
qed

lemma entries_del_le: "ok m \<Longrightarrow> entries (del k m) \<le> entries m"
  using entries_card [of m] entries_card [OF ok_del, of m k] finite_look [of m]
  by (simp add: look_del_map card_Diff1_le)

end

interpretation om: keyed_store om_ok map_of om_put om_erase om_modify length
  by unfold_locales (simp_all add: om_ok_put om_ok_erase om_size finite_dom_map_of)

end
