(* ===== verification/PublicTypes.thy ===== *)
theory PublicTypes
  imports OrderedMap Complex_Main
begin

text \<open>
  The types of the public interface, \<open>NetLink.h\<close>, that the components behind it use. A peer is its
  64-bit id; the lanes of the public interface are three of the four lanes on the wire.
\<close>

definition MaxDisplayName :: nat where [constants]: "MaxDisplayName = 64"
definition MaxPeers :: nat where [constants]: "MaxPeers = 256"

type_synonym PeerId = u64

record PeerInfo =
  peer_id :: PeerId
  displayName :: bytes
  address :: bytes
  port :: u16
  appVersion :: bytes

datatype PublicLane = PubReliable | PubBulk | PubMedia

datatype SendResult = Queued | QueueFull | TooLarge | NotConnected | NotRunning

datatype DisconnectReason = Local | Remote | Declined | Incompatible | Lost | NetworkError | Shutdown

text \<open>Durations are in microseconds, the share of lost Media datagrams is a \<open>float\<close>.\<close>

record PeerStats =
  ps_rtt :: int
  ps_bytesQueued :: u64
  ps_bytesSent :: u64
  ps_bytesReceived :: u64
  ps_retransmissions :: u64
  ps_mediaSent :: u64
  ps_mediaDropped :: u64
  ps_mediaIncomplete :: u64
  ps_mediaLoss :: rat

definition noStats :: PeerStats where
  "noStats =
     \<lparr>ps_rtt = 0, ps_bytesQueued = 0, ps_bytesSent = 0, ps_bytesReceived = 0, ps_retransmissions = 0,
      ps_mediaSent = 0, ps_mediaDropped = 0, ps_mediaIncomplete = 0, ps_mediaLoss = 0\<rparr>"

record Message =
  message_type :: u32
  message_data :: bytes

end
