(* ===== verification/Discovery.thy ===== *)
theory Discovery
  imports BeaconCodec PublicTypes Constants
begin

text \<open>
  \<open>Discovery/DiscoveryLogic\<close>: which peers announced themselves. The table of peers is an ordered map;
  the time and the question whether a session with a peer exists are arguments, as they are in the
  code. \<open>onBeacon\<close> returns an option because decoding a datagram does (see \<open>Prelude\<close>).

  The lemmas give what every reachable state satisfies, which beacons create or change an entry, which
  peers are forgotten, and that two engines find each other with one beacon and one reply.
\<close>

section \<open>State\<close>

record LocalIdentity =
  my_instanceId :: u64
  my_appIdHash :: u64
  my_version :: AppVersion
  my_name :: bytes

record KnownPeer =
  info :: PeerInfo
  endpoint :: SocketAddress

datatype Sighting = Ignored | Known | New

record Seen =
  sighting :: Sighting
  seen_peer :: "KnownPeer option"
  seen_reply :: bool

definition noSighting :: Seen where
  "noSighting = \<lparr>sighting = Ignored, seen_peer = None, seen_reply = False\<rparr>"

record Entry =
  entry_peer :: KnownPeer
  lastSeen :: TimePoint

definition defaultEntry :: Entry where
  "defaultEntry =
     \<lparr>entry_peer = \<lparr>info = \<lparr>peer_id = 0, displayName = [], address = [], port = 0, appVersion = []\<rparr>,
                    endpoint = \<lparr>sa_ip = 0, sa_port = 0\<rparr>\<rparr>,
      lastSeen = 0\<rparr>"

record DiscoveryLogic =
  dl_identity :: LocalIdentity
  dl_localIp :: IPv4Address
  dl_mask :: IPv4Address
  dl_announcing :: bool
  dl_peers :: "(PeerId \<times> Entry) list"

definition newDiscovery :: "LocalIdentity \<Rightarrow> DiscoveryLogic" where
  "newDiscovery me =
     \<lparr>dl_identity = me, dl_localIp = 0, dl_mask = 0, dl_announcing = False, dl_peers = []\<rparr>"


section \<open>Operations\<close>

definition setInterface :: "IPv4Address \<Rightarrow> IPv4Address \<Rightarrow> DiscoveryLogic \<Rightarrow> DiscoveryLogic" where
  "setInterface ip m d = d\<lparr>dl_localIp := ip, dl_mask := m\<rparr>"

definition clear :: "DiscoveryLogic \<Rightarrow> PeerId list \<times> DiscoveryLogic" where
  "clear d = (om_keys (dl_peers d), d\<lparr>dl_peers := []\<rparr>)"

definition setAnnouncing :: "bool \<Rightarrow> DiscoveryLogic \<Rightarrow> DiscoveryLogic" where
  "setAnnouncing announcing d = d\<lparr>dl_announcing := announcing\<rparr>"

definition isInSubnet :: "DiscoveryLogic \<Rightarrow> IPv4Address \<Rightarrow> bool" where
  "isInSubnet d a \<longleftrightarrow> \<not> isNetmask (dl_mask d) \<or> sameSubnet (dl_localIp d) a (dl_mask d)"

definition broadcastAddress :: "DiscoveryLogic \<Rightarrow> IPv4Address" where
  "broadcastAddress d =
     (if isNetmask (dl_mask d) then subnetBroadcast (dl_localIp d) (dl_mask d) else IPv4Address.broadcast)"

definition own_beacon :: "bool \<Rightarrow> DiscoveryLogic \<Rightarrow> Beacon" where
  "own_beacon rep d =
     (let me = dl_identity d
      in \<lparr>instanceId = my_instanceId me, b_appIdHash = my_appIdHash me, b_version = my_version me,
          reply = rep, b_name = my_name me\<rparr>)"

definition beacon :: "bool \<Rightarrow> DiscoveryLogic \<Rightarrow> bytes option" where
  "beacon rep d = encodeBeacon (own_beacon rep d)"

definition onBeacon ::
  "SocketAddress \<Rightarrow> bytes \<Rightarrow> TimePoint \<Rightarrow> DiscoveryLogic \<Rightarrow> (Seen \<times> DiscoveryLogic) option" where
  "onBeacon from datagram now d =
     do { decoded \<leftarrow> decodeBeacon datagram;
          case decoded of
            None \<Rightarrow> Some (noSighting, d)
          | Some b \<Rightarrow>
              if instanceId b = my_instanceId (dl_identity d) \<or>
                 b_appIdHash b \<noteq> my_appIdHash (dl_identity d) \<or>
                 b_version b \<noteq> my_version (dl_identity d) \<or>
                 \<not> isInSubnet d (sa_ip from) \<or>
                 length (b_name b) > MaxDisplayName
              then Some (noSighting, d)
              else
                let pid = instanceId b;
                    it = map_of (dl_peers d) pid;
                    isNew = (it = None);
                    changed = (case it of None \<Rightarrow> False
                               | Some e \<Rightarrow> endpoint (entry_peer e) \<noteq> from \<or>
                                           displayName (info (entry_peer e)) \<noteq> b_name b)
                in if isNew \<and> length (dl_peers d) \<ge> MaxDiscoveredPeers then Some (noSighting, d)
                   else
                     let entry = (case it of None \<Rightarrow> defaultEntry | Some e \<Rightarrow> e)\<lparr>lastSeen := now\<rparr>;
                         entry = (if isNew \<or> changed
                                  then entry\<lparr>entry_peer :=
                                         \<lparr>info = \<lparr>peer_id = pid, displayName = b_name b,
                                                  address = toString (sa_ip from), port = sa_port from,
                                                  appVersion = versionText (b_version b)\<rparr>,
                                          endpoint = from\<rparr>\<rparr>
                                  else entry)
                     in Some (\<lparr>sighting = (if isNew \<or> changed then New else Known),
                               seen_peer = Some (entry_peer entry),
                               seen_reply = (isNew \<and> dl_announcing d \<and> \<not> reply b)\<rparr>,
                              d\<lparr>dl_peers := om_put pid entry (dl_peers d)\<rparr>) }"

text \<open>The loop of \<open>expire\<close> over the table: who is lost, and what is left.\<close>

fun expireLoop :: "TimePoint \<Rightarrow> (PeerId \<Rightarrow> bool) \<Rightarrow> (PeerId \<times> Entry) list \<Rightarrow> PeerId list \<times> (PeerId \<times> Entry) list" where
  "expireLoop now hasSession [] = ([], [])"
| "expireLoop now hasSession ((k, e) # m) =
     (let (lost, m') = expireLoop now hasSession m
      in if now - lastSeen e < PeerExpiry \<or> hasSession k then (lost, (k, e) # m') else (k # lost, m'))"

definition expire :: "TimePoint \<Rightarrow> (PeerId \<Rightarrow> bool) \<Rightarrow> DiscoveryLogic \<Rightarrow> PeerId list \<times> DiscoveryLogic" where
  "expire now hasSession d =
     (let (lost, m) = expireLoop now hasSession (dl_peers d) in (lost, d\<lparr>dl_peers := m\<rparr>))"

definition find_known :: "DiscoveryLogic \<Rightarrow> PeerId \<Rightarrow> KnownPeer option" where
  "find_known d pid = map_option entry_peer (map_of (dl_peers d) pid)"

definition peers :: "DiscoveryLogic \<Rightarrow> PeerInfo list" where
  "peers d = map (\<lambda>(k, e). info (entry_peer e)) (dl_peers d)"


section \<open>Beacons\<close>

text \<open>Whether the beacon is one of another engine of this application on this subnet.\<close>

definition acceptable :: "DiscoveryLogic \<Rightarrow> SocketAddress \<Rightarrow> Beacon \<Rightarrow> bool" where
  "acceptable d from b \<longleftrightarrow>
     instanceId b \<noteq> my_instanceId (dl_identity d) \<and> b_appIdHash b = my_appIdHash (dl_identity d) \<and>
     b_version b = my_version (dl_identity d) \<and> isInSubnet d (sa_ip from) \<and> length (b_name b) \<le> MaxDisplayName"

text \<open>What the table says of the sender of a beacon: the specification of an entry.\<close>

definition peer_of :: "SocketAddress \<Rightarrow> Beacon \<Rightarrow> KnownPeer" where
  "peer_of from b =
     \<lparr>info = \<lparr>peer_id = instanceId b, displayName = b_name b, address = toString (sa_ip from),
             port = sa_port from, appVersion = versionText (b_version b)\<rparr>, endpoint = from\<rparr>"

lemma peer_of_simps [simp]:
  "endpoint (peer_of from b) = from" "peer_id (info (peer_of from b)) = instanceId b"
  "displayName (info (peer_of from b)) = b_name b"
  "address (info (peer_of from b)) = toString (sa_ip from)" "port (info (peer_of from b)) = sa_port from"
  "appVersion (info (peer_of from b)) = versionText (b_version b)"
  by (simp_all add: peer_of_def)

text \<open>An entry of the table is consistent: it is what a beacon with its key as the id gave.\<close>

definition entry_ok :: "LocalIdentity \<Rightarrow> PeerId \<Rightarrow> Entry \<Rightarrow> bool" where
  "entry_ok me k e \<longleftrightarrow>
     k \<noteq> 0 \<and> k \<noteq> my_instanceId me \<and>
     (\<exists>from b. entry_peer e = peer_of from b \<and> instanceId b = k \<and> b_appIdHash b = my_appIdHash me \<and>
        b_version b = my_version me \<and> length (b_name b) \<le> MaxDisplayName)"

definition disc_ok :: "DiscoveryLogic \<Rightarrow> bool" where
  "disc_ok d \<longleftrightarrow> om_ok (dl_peers d) \<and> length (dl_peers d) \<le> MaxDiscoveredPeers \<and>
     (\<forall>k e. map_of (dl_peers d) k = Some e \<longrightarrow> entry_ok (dl_identity d) k e)"

lemma decodeBeacon_total: "\<exists>r. decodeBeacon d = Some r"
  by (simp add: decodeBeacon_eq)

lemma decodeBeacon_id: "decodeBeacon dg = Some (Some b) \<Longrightarrow> instanceId b \<noteq> 0"
  using decodeBeaconFields_read by (auto simp: decodeBeacon_eq split: if_splits)

lemma onBeacon_rejected:
  assumes "decodeBeacon dg = Some r" and "r = None \<or> \<not> acceptable d from (the r)"
  shows "onBeacon from dg now d = Some (noSighting, d)"
  using assms by (cases r) (auto simp: onBeacon_def acceptable_def)

text \<open>
  A beacon that is taken makes the entry of its sender what the beacon says, seen now. An entry that
  is consistent and not changed by the beacon says it already.
\<close>

lemma onBeacon_taken:
  assumes "decodeBeacon dg = Some (Some b)" and "acceptable d from b" and "disc_ok d"
    and room: "map_of (dl_peers d) (instanceId b) \<noteq> None \<or> length (dl_peers d) < MaxDiscoveredPeers"
  shows "onBeacon from dg now d =
    Some (\<lparr>sighting = (if find_known d (instanceId b) = Some (peer_of from b) then Known else New),
           seen_peer = Some (peer_of from b),
           seen_reply = (find_known d (instanceId b) = None \<and> dl_announcing d \<and> \<not> reply b)\<rparr>,
          d\<lparr>dl_peers := om_put (instanceId b) \<lparr>entry_peer = peer_of from b, lastSeen = now\<rparr> (dl_peers d)\<rparr>)"
proof (cases "map_of (dl_peers d) (instanceId b)")
  case None
  then show ?thesis
    using assms by (simp add: onBeacon_def acceptable_def find_known_def peer_of_def not_le defaultEntry_def Let_def)
next
  case (Some e)
  then have "entry_ok (dl_identity d) (instanceId b) e"
    using assms(3) by (simp add: disc_ok_def)
  then obtain from' b' where e: "entry_peer e = peer_of from' b'" "instanceId b' = instanceId b"
    "b_version b' = my_version (dl_identity d)"
    unfolding entry_ok_def by blast
  have same: "peer_of from' b' = peer_of from b \<longleftrightarrow> from' = from \<and> b_name b' = b_name b"
    using e assms(2) by (auto simp: peer_of_def acceptable_def)
  show ?thesis
  proof (cases "from' = from \<and> b_name b' = b_name b")
    case True
    then have "entry_peer e = peer_of from b"
      using same e(1) by simp
    then obtain t where "e = \<lparr>entry_peer = peer_of from b, lastSeen = t\<rparr>"
      by (cases e) simp
    then show ?thesis
      using Some assms(1,2) by (simp add: onBeacon_def acceptable_def find_known_def)
  next
    case False
    then have changed: "endpoint (entry_peer e) \<noteq> from \<or> displayName (info (entry_peer e)) \<noteq> b_name b"
      using e(1) by (auto simp: peer_of_def)
    have "entry_peer e \<noteq> peer_of from b"
      using False same e(1) by simp
    then show ?thesis
      using Some assms(1,2) changed
      by (cases e) (simp add: onBeacon_def acceptable_def find_known_def Let_def, simp add: peer_of_def)
  qed
qed

lemma onBeacon_full:
  assumes "decodeBeacon dg = Some (Some b)" and "acceptable d from b"
    and "map_of (dl_peers d) (instanceId b) = None" and "MaxDiscoveredPeers \<le> length (dl_peers d)"
  shows "onBeacon from dg now d = Some (noSighting, d)"
  using assms by (simp add: onBeacon_def acceptable_def)

lemma onBeacon_cases:
  assumes "disc_ok d"
  shows "onBeacon from dg now d = Some (noSighting, d) \<or>
    (\<exists>b s. decodeBeacon dg = Some (Some b) \<and> acceptable d from b \<and>
       (map_of (dl_peers d) (instanceId b) \<noteq> None \<or> length (dl_peers d) < MaxDiscoveredPeers) \<and>
       onBeacon from dg now d = Some (s, d\<lparr>dl_peers :=
         om_put (instanceId b) \<lparr>entry_peer = peer_of from b, lastSeen = now\<rparr> (dl_peers d)\<rparr>))"
proof -
  obtain r where r: "decodeBeacon dg = Some r"
    using decodeBeacon_total by blast
  consider "r = None \<or> \<not> acceptable d from (the r)"
    | b where "r = Some b" "acceptable d from b" "map_of (dl_peers d) (instanceId b) = None"
        "MaxDiscoveredPeers \<le> length (dl_peers d)"
    | b where "r = Some b" "acceptable d from b"
        "map_of (dl_peers d) (instanceId b) \<noteq> None \<or> length (dl_peers d) < MaxDiscoveredPeers"
    by (cases r) (auto, fastforce simp: not_le)
  then show ?thesis
  proof cases
    case 1
    then show ?thesis
      using onBeacon_rejected [OF r] by blast
  next
    case 2
    then show ?thesis
      using onBeacon_full [of dg b d] r by blast
  next
    case 3
    then show ?thesis
      using onBeacon_taken [of dg b d "from" now] r assms by blast
  qed
qed

lemma onBeacon_ok:
  assumes "disc_ok d" and "onBeacon from dg now d = Some (s, d')"
  shows "disc_ok d'"
proof -
  consider "d' = d"
    | b where "decodeBeacon dg = Some (Some b)" "acceptable d from b"
      "map_of (dl_peers d) (instanceId b) \<noteq> None \<or> length (dl_peers d) < MaxDiscoveredPeers"
      "d' = d\<lparr>dl_peers := om_put (instanceId b) \<lparr>entry_peer = peer_of from b, lastSeen = now\<rparr> (dl_peers d)\<rparr>"
    using onBeacon_cases [OF assms(1), of "from" dg now] assms(2) by fastforce
  then show ?thesis
  proof cases
    case 1
    then show ?thesis
      using assms(1) by simp
  next
    case 2
    have "entry_ok (dl_identity d) (instanceId b) \<lparr>entry_peer = peer_of from b, lastSeen = now\<rparr>"
      using 2(2) decodeBeacon_id [OF 2(1)] by (auto simp: entry_ok_def acceptable_def)
    moreover have "length (dl_peers d') \<le> MaxDiscoveredPeers"
      using 2(3,4) assms(1) by (auto simp: disc_ok_def om.entries_put)
    ultimately show ?thesis
      using assms(1) 2(4) by (simp add: disc_ok_def om_ok_put)
  qed
qed


section \<open>Expiry\<close>

definition expired :: "TimePoint \<Rightarrow> (PeerId \<Rightarrow> bool) \<Rightarrow> PeerId \<times> Entry \<Rightarrow> bool" where
  "expired now hasSession ke \<longleftrightarrow> PeerExpiry \<le> now - lastSeen (snd ke) \<and> \<not> hasSession (fst ke)"

lemma expireLoop_eq:
  "expireLoop now hasSession m =
   (om_keys (filter (expired now hasSession) m), filter (\<lambda>ke. \<not> expired now hasSession ke) m)"
  by (induction m) (auto simp: expired_def split: prod.splits)

lemma om_ok_filter: "om_ok m \<Longrightarrow> om_ok (filter P m)"
  by (auto simp: om_ok_def om_keys_def sorted_wrt_map intro: sorted_wrt_filter)

lemma map_of_filter:
  "om_ok m \<Longrightarrow> map_of (filter P m) k = Some v \<longleftrightarrow> map_of m k = Some v \<and> P (k, v)"
  by (auto simp: map_of_eq_Some_iff om_ok_distinct [unfolded om_keys_def] om_ok_filter)

lemma expire_ok: "disc_ok d \<Longrightarrow> disc_ok (snd (expire now hasSession d))"
  by (auto simp: disc_ok_def expire_def expireLoop_eq om_ok_filter map_of_filter
      intro: le_trans [OF length_filter_le])


section \<open>Properties\<close>

text \<open>The states an engine's discovery can be in: what it starts with, and any sequence of operations.\<close>

inductive discovery_reachable :: "LocalIdentity \<Rightarrow> DiscoveryLogic \<Rightarrow> bool" for me where
  init: "discovery_reachable me (newDiscovery me)"
| interface: "discovery_reachable me d \<Longrightarrow> discovery_reachable me (setInterface ip m d)"
| announcing: "discovery_reachable me d \<Longrightarrow> discovery_reachable me (setAnnouncing a d)"
| cleared: "discovery_reachable me d \<Longrightarrow> clear d = (known, d') \<Longrightarrow> discovery_reachable me d'"
| beacon: "discovery_reachable me d \<Longrightarrow> onBeacon from dg now d = Some (s, d') \<Longrightarrow> discovery_reachable me d'"
| expired: "discovery_reachable me d \<Longrightarrow> expire now hasSession d = (lost, d') \<Longrightarrow> discovery_reachable me d'"

lemma reachable_ok: "discovery_reachable me d \<Longrightarrow> disc_ok d \<and> dl_identity d = me"
proof (induction rule: discovery_reachable.induct)
  case init
  then show ?case
    by (simp add: disc_ok_def newDiscovery_def)
next
  case (cleared d known d')
  then show ?case
    by (auto simp: clear_def disc_ok_def)
next
  case (beacon d fr dg now s d')
  have "dl_identity d' = dl_identity d"
    using onBeacon_cases [of d fr dg now] beacon by auto
  then show ?case
    using beacon onBeacon_ok by metis
next
  case (expired d now hasSession lost d')
  have "dl_identity d' = dl_identity d"
    using expired(2) by (auto simp: expire_def split_beta)
  then show ?case
    using expired expire_ok [of d now hasSession] by simp
qed (auto simp: disc_ok_def setInterface_def setAnnouncing_def)


text \<open>An engine that has heard one beacon, for the witnesses.\<close>

definition demo_me :: LocalIdentity where
  "demo_me = \<lparr>my_instanceId = 1, my_appIdHash = 9, my_version = \<lparr>av_major = 1, av_minor = 0\<rparr>, my_name = [65]\<rparr>"

definition demo_other :: LocalIdentity where
  "demo_other = \<lparr>my_instanceId = 2, my_appIdHash = 9, my_version = \<lparr>av_major = 1, av_minor = 0\<rparr>, my_name = [66]\<rparr>"

lemma demo_new:
  "discovery_reachable demo_me (newDiscovery demo_me)"
  "discovery_reachable demo_other (setAnnouncing True (newDiscovery demo_other))"
  by (intro discovery_reachable.intros)+




text \<open>\<open>expire\<close> forgets exactly the peers that were not heard for \<open>PeerExpiry\<close> and have no session, and
  reports each of them once, in the order of their ids; every other entry stays as it is.
\<close>

theorem expire_exact:
  assumes "discovery_reachable me d" and "expire now hasSession d = (lost, d')"
  shows "sorted lost \<and> distinct lost \<and>
    (\<forall>k e. map_of (dl_peers d) k = Some e \<longrightarrow>
       (if now - lastSeen e < PeerExpiry \<or> hasSession k
        then map_of (dl_peers d') k = Some e \<and> k \<notin> set lost
        else map_of (dl_peers d') k = None \<and> k \<in> set lost)) \<and>
    set lost \<union> dom (map_of (dl_peers d')) = dom (map_of (dl_peers d))"
proof -
  let ?P = "expired now hasSession" and ?m = "dl_peers d"
  have ok: "om_ok ?m"
    using reachable_ok [OF assms(1)] by (simp add: disc_ok_def)
  have lost: "lost = om_keys (filter ?P ?m)" and d': "dl_peers d' = filter (\<lambda>ke. \<not> ?P ke) ?m"
    using assms(2) by (auto simp: expire_def expireLoop_eq)
  have strict: "sorted_wrt (<) lost"
    using om_ok_filter [OF ok, of ?P] by (simp add: lost om_ok_def)
  have in_lost: "k \<in> set lost \<longleftrightarrow> (\<exists>e. map_of ?m k = Some e \<and> ?P (k, e))" for k
    using map_of_filter [OF ok, of ?P k] map_of_None_keys [of "filter ?P ?m" k]
    unfolding lost by (metis not_None_eq)
  have kept: "map_of (dl_peers d') k = Some e \<longleftrightarrow> map_of ?m k = Some e \<and> \<not> ?P (k, e)" for k e
    using map_of_filter [OF ok] d' by simp
  have gone: "map_of (dl_peers d') k = None \<longleftrightarrow> map_of ?m k = None \<or> k \<in> set lost" for k
    using kept in_lost by (metis not_None_eq option.inject)
  have "set lost \<union> dom (map_of (dl_peers d')) = dom (map_of ?m)"
    using in_lost kept by (auto simp: dom_def)
  moreover have "if now - lastSeen e < PeerExpiry \<or> hasSession k
      then map_of (dl_peers d') k = Some e \<and> k \<notin> set lost
      else map_of (dl_peers d') k = None \<and> k \<in> set lost" if "map_of ?m k = Some e" for k e
    using that kept [of k e] gone [of k] in_lost [of k] by (auto simp: expired_def)
  ultimately show ?thesis
    using strict by (simp add: strict_sorted_iff)
qed

theorem expire_exact_witness:
  "expire 9 (\<lambda>_. False) (newDiscovery demo_me) = ([], newDiscovery demo_me) \<and> sorted ([] :: PeerId list)"
proof -
  have e: "expire 9 (\<lambda>_. False) (newDiscovery demo_me) = ([], newDiscovery demo_me)"
    by (simp add: expire_def newDiscovery_def)
  show ?thesis
    using expire_exact [OF demo_new(1) e] e by blast
qed

text \<open>C23: Two engines of one application on one subnet find each other with two datagrams: the beacon of
  the first makes it known to the second, which announces itself and does not know the first yet, so
  it answers; the answer makes the second known to the first, and is not answered again.
\<close>

theorem mutual_discovery:
  assumes "discovery_reachable meA a" and "discovery_reachable meB b"
    and "my_instanceId meA \<noteq> 0" and "my_instanceId meB \<noteq> 0" and "my_instanceId meA \<noteq> my_instanceId meB"
    and "my_appIdHash meA = my_appIdHash meB" and "my_version meA = my_version meB"
    and "length (my_name meA) \<le> MaxDisplayName" and "length (my_name meB) \<le> MaxDisplayName"
    and "isInSubnet b (sa_ip addrA)" and "isInSubnet a (sa_ip addrB)"
    and "find_known b (my_instanceId meA) = None" and "dl_announcing b"
    and "length (dl_peers a) < MaxDiscoveredPeers" and "length (dl_peers b) < MaxDiscoveredPeers"
  shows "\<exists>hello seenB b' answer seenA a'.
    beacon False a = Some hello \<and> onBeacon addrA hello now b = Some (seenB, b') \<and> seen_reply seenB \<and>
    beacon True b' = Some answer \<and> onBeacon addrB answer now' a = Some (seenA, a') \<and> \<not> seen_reply seenA \<and>
    find_known b' (my_instanceId meA) = Some (peer_of addrA (own_beacon False a)) \<and>
    find_known a' (my_instanceId meB) = Some (peer_of addrB (own_beacon True b))"
proof -
  have ok: "disc_ok a" "disc_ok b" "dl_identity a = meA" "dl_identity b = meB"
    using reachable_ok assms(1,2) by auto
  have sent: "\<exists>dg. beacon r x = Some dg \<and> decodeBeacon dg = Some (Some (own_beacon r x))"
    if "my_instanceId (dl_identity x) \<noteq> 0" "length (my_name (dl_identity x)) \<le> MaxDisplayName" for r x
    using that decodeBeacon_encodeBeacon [of "own_beacon r x"]
    by (auto simp: beacon_def encodeBeacon_bytes own_beacon_def MaxDisplayName_def Let_def)
  obtain hello where hello: "beacon False a = Some hello"
    "decodeBeacon hello = Some (Some (own_beacon False a))"
    using sent [of a False] assms(3,8) ok(3) by auto
  have "acceptable b addrA (own_beacon False a)"
    using assms ok by (simp add: acceptable_def own_beacon_def)
  from onBeacon_taken [OF hello(2) this ok(2)] obtain seenB b' where
    B: "onBeacon addrA hello now b = Some (seenB, b')" "seen_reply seenB" "dl_identity b' = dl_identity b"
      "find_known b' (my_instanceId meA) = Some (peer_of addrA (own_beacon False a))"
    using assms ok by (simp add: own_beacon_def find_known_def)
  have own: "own_beacon True b' = own_beacon True b"
    using B(3) by (simp add: own_beacon_def)
  obtain answer where answer: "beacon True b' = Some answer"
    "decodeBeacon answer = Some (Some (own_beacon True b))"
    using sent [of b' True] assms(4,9) ok(4) B(3) own by auto
  have "acceptable a addrB (own_beacon True b)"
    using assms ok by (simp add: acceptable_def own_beacon_def)
  from onBeacon_taken [OF answer(2) this ok(1)] obtain seenA a' where
    A: "onBeacon addrB answer now' a = Some (seenA, a')" "\<not> seen_reply seenA"
      "find_known a' (my_instanceId meB) = Some (peer_of addrB (own_beacon True b))"
    using assms ok by (simp add: own_beacon_def find_known_def)
  show ?thesis
    using hello(1) B answer(1) A by blast
qed

theorem mutual_discovery_witness:
  "\<exists>hello seenB b' answer seenA a'.
    beacon False (newDiscovery demo_me) = Some hello \<and>
    onBeacon \<lparr>sa_ip = 5, sa_port = 6\<rparr> hello 1 (setAnnouncing True (newDiscovery demo_other)) = Some (seenB, b') \<and>
    seen_reply seenB \<and> beacon True b' = Some answer \<and>
    onBeacon \<lparr>sa_ip = 7, sa_port = 8\<rparr> answer 2 (newDiscovery demo_me) = Some (seenA, a') \<and> \<not> seen_reply seenA \<and>
    find_known b' 1 \<noteq> None \<and> find_known a' 2 \<noteq> None"
  using mutual_discovery [OF demo_new, of "\<lparr>sa_ip = 5, sa_port = 6\<rparr>" "\<lparr>sa_ip = 7, sa_port = 8\<rparr>" 1 2]
  by (simp add: demo_me_def demo_other_def MaxDisplayName_def MaxDiscoveredPeers_def newDiscovery_def
      setAnnouncing_def isInSubnet_def isNetmask_def find_known_def) blast

end
