(* ===== verification/Scheduler.thy ===== *)
theory Scheduler
  imports Flags PublicTypes Double
begin

text \<open>
  \<open>Channel/SendScheduler.h\<close>: the token bucket and the rings of peers, one for each lane. The callback
  \<open>send\<close> of \<open>run\<close> is a function on a state of its own (the engine, without its scheduler); it returns
  an option because the link operations behind it do (see \<open>Prelude\<close>). The loop of \<open>run\<close> is a partial
  function: with an unlimited rate it ends only when the callback has nothing more to send, so not
  returning is \<open>None\<close>, and that it returns is a theorem.

  The tokens are a \<open>double\<close>, with the rounding of \<open>Double\<close>.

  The lemmas show that a run ends, that it never sends more than the bucket holds, that Media leaves a
  quarter of the budget to the acknowledged lanes, that no lane is asked before the more urgent ones
  have nothing left, and that the peers of a lane take turns.
\<close>

section \<open>State\<close>

definition Quantum :: nat where [constants]: "Quantum = 4"
definition Tick :: int where [constants]: "Tick = milliseconds 1"

definition Order :: "Lane list" where
  "Order = [Control, Media, Reliable, Bulk]"

datatype TurnResult = Sent | Lost | Empty | Blocked

record Ring =
  ring_peers :: "PeerId list"
  ring_cursor :: nat
  ring_used :: nat

definition emptyRing :: Ring where
  "emptyRing = \<lparr>ring_peers = [], ring_cursor = 0, ring_used = 0\<rparr>"

definition nextPeer :: "Ring \<Rightarrow> Ring" where
  "nextPeer r = r\<lparr>ring_cursor := ring_cursor r + 1, ring_used := 0\<rparr>"

record SendScheduler =
  sc_rate :: u32
  sc_burst :: nat
  sc_tokens :: rat
  sc_refilledAt :: "TimePoint option"
  sc_rings :: "Lane \<Rightarrow> Ring"


section \<open>The token bucket\<close>

definition burstOf :: "u32 \<Rightarrow> nat" where
  "burstOf ratePerSecond = max 16 (unat (ratePerSecond div 500))"

definition setRate :: "u32 \<Rightarrow> SendScheduler \<Rightarrow> SendScheduler" where
  "setRate ratePerSecond s =
     s\<lparr>sc_rate := ratePerSecond, sc_burst := burstOf ratePerSecond,
       sc_tokens := rnd (of_nat (burstOf ratePerSecond)), sc_refilledAt := None\<rparr>"

definition newScheduler :: "u32 \<Rightarrow> SendScheduler" where
  "newScheduler ratePerSecond =
     setRate ratePerSecond
       \<lparr>sc_rate = 0, sc_burst = 0, sc_tokens = 0, sc_refilledAt = None, sc_rings = (\<lambda>_. emptyRing)\<rparr>"

definition isUnlimited :: "SendScheduler \<Rightarrow> bool" where
  "isUnlimited s \<longleftrightarrow> sc_rate s = 0"

definition hasTokens :: "SendScheduler \<Rightarrow> bool" where
  "hasTokens s \<longleftrightarrow> isUnlimited s \<or> sc_tokens s \<ge> 1"

text \<open>\<open>std::chrono::duration<double>\<close> of a number of nanoseconds, in seconds.\<close>

definition inSeconds :: "int \<Rightarrow> rat" where
  "inSeconds d = rnd (rnd (of_int d) / 1000000000)"

definition refill :: "TimePoint \<Rightarrow> SendScheduler \<Rightarrow> SendScheduler" where
  "refill now s =
     (let s = (case sc_refilledAt s of
                 None \<Rightarrow> s
               | Some t \<Rightarrow>
                   if now > t
                   then s\<lparr>sc_tokens := min (rnd (of_nat (sc_burst s)))
                           (rnd (sc_tokens s + rnd (of_nat (unat (sc_rate s)) * inSeconds (now - t))))\<rparr>
                   else s)
      in s\<lparr>sc_refilledAt := Some now\<rparr>)"

definition spend :: "nat \<Rightarrow> SendScheduler \<Rightarrow> SendScheduler" where
  "spend datagrams s =
     (if \<not> isUnlimited s then s\<lparr>sc_tokens := rnd (sc_tokens s - rnd (of_nat datagrams))\<rparr> else s)"


section \<open>The rings\<close>

definition setRing :: "Lane \<Rightarrow> Ring \<Rightarrow> SendScheduler \<Rightarrow> SendScheduler" where
  "setRing l r s = s\<lparr>sc_rings := (sc_rings s)(l := r)\<rparr>"

definition add :: "Lane \<Rightarrow> PeerId \<Rightarrow> SendScheduler \<Rightarrow> SendScheduler" where
  "add l p s = setRing l ((sc_rings s l)\<lparr>ring_peers := ring_peers (sc_rings s l) @ [p]\<rparr>) s"

text \<open>The first \<open>n\<close> elements and those behind the next one: \<open>erase\<close> of an iterator.\<close>

definition eraseAt :: "nat \<Rightarrow> 'a list \<Rightarrow> 'a list" where
  "eraseAt n xs = take n xs @ drop (Suc n) xs"

definition ringRemove :: "PeerId \<Rightarrow> Ring \<Rightarrow> Ring" where
  "ringRemove p r =
     (let it = length (takeWhile (\<lambda>q. q \<noteq> p) (ring_peers r))
      in if it = length (ring_peers r) then r
         else let r = (if it < ring_cursor r then r\<lparr>ring_cursor := ring_cursor r - 1\<rparr> else r)
              in r\<lparr>ring_peers := eraseAt it (ring_peers r)\<rparr>)"

definition remove :: "PeerId \<Rightarrow> SendScheduler \<Rightarrow> SendScheduler" where
  "remove p s = s\<lparr>sc_rings := (\<lambda>l. ringRemove p (sc_rings s l))\<rparr>"

definition clearRings :: "SendScheduler \<Rightarrow> SendScheduler" where
  "clearRings s = s\<lparr>sc_rings := (\<lambda>_. emptyRing)\<rparr>"

definition hasBacklog :: "SendScheduler \<Rightarrow> bool" where
  "hasBacklog s \<longleftrightarrow> list_ex (\<lambda>l. ring_peers (sc_rings s l) \<noteq> []) [Control, Reliable, Bulk, Media]"


section \<open>run\<close>

type_synonym 'st send = "Lane \<Rightarrow> PeerId \<Rightarrow> 'st \<Rightarrow> (TurnResult \<times> 'st) option"

definition capped :: "Lane \<Rightarrow> SendScheduler \<Rightarrow> bool" where
  "capped l s \<longleftrightarrow> l = Media \<and> \<not> isUnlimited s"

text \<open>The condition of the loop, and how a turn starts: the cursor is brought back into the ring.\<close>

definition mayRun :: "Lane \<Rightarrow> SendScheduler \<Rightarrow> rat \<Rightarrow> bool" where
  "mayRun l s allowance \<longleftrightarrow>
     ring_peers (sc_rings s l) \<noteq> [] \<and> hasTokens s \<and> (\<not> capped l s \<or> allowance \<ge> 1)"

definition startTurn :: "Lane \<Rightarrow> SendScheduler \<Rightarrow> SendScheduler" where
  "startTurn l s =
     (let r = sc_rings s l
      in if ring_cursor r \<ge> length (ring_peers r) then setRing l (r\<lparr>ring_cursor := 0\<rparr>) s else s)"

definition turnPeer :: "Lane \<Rightarrow> SendScheduler \<Rightarrow> PeerId" where
  "turnPeer l s = ring_peers (sc_rings s l) ! ring_cursor (sc_rings s l)"

text \<open>What the result of a turn does to the ring, and what it costs.\<close>

definition turnRing :: "TurnResult \<Rightarrow> Ring \<Rightarrow> Ring" where
  "turnRing res r =
     (case res of
        Sent \<Rightarrow> let r = r\<lparr>ring_used := ring_used r + 1\<rparr>
                in if ring_used r \<ge> Quantum then nextPeer r else r
      | Lost \<Rightarrow> nextPeer r
      | Empty \<Rightarrow> r\<lparr>ring_peers := eraseAt (ring_cursor r) (ring_peers r), ring_used := 0\<rparr>
      | Blocked \<Rightarrow> r)"

definition endTurn :: "TurnResult \<Rightarrow> Lane \<Rightarrow> SendScheduler \<Rightarrow> rat \<Rightarrow> SendScheduler \<times> rat" where
  "endTurn res l s allowance =
     (let costs = (res = Sent \<or> res = Lost);
          allowance = (if costs then rnd (allowance - (if capped l s then 1 else 0)) else allowance);
          s = (if costs then spend 1 s else s)
      in (setRing l (turnRing res (sc_rings s l)) s, allowance))"

text \<open>
  The loop over one lane. The first component of the result says that \<open>run\<close> returns early, because
  the socket takes nothing anymore.
\<close>

partial_function (option) runLane ::
  "'st send \<Rightarrow> Lane \<Rightarrow> SendScheduler \<Rightarrow> rat \<Rightarrow> 'st \<Rightarrow> (bool \<times> SendScheduler \<times> rat \<times> 'st) option" where
  "runLane send l s allowance st =
     (if \<not> mayRun l s allowance then Some (False, s, allowance, st)
      else Option.bind (send l (turnPeer l (startTurn l s)) st)
             (\<lambda>(res, st). if res = Blocked then Some (True, startTurn l s, allowance, st)
                else runLane send l (fst (endTurn res l (startTurn l s) allowance))
                       (snd (endTurn res l (startTurn l s) allowance)) st))"

fun runLanes ::
  "'st send \<Rightarrow> Lane list \<Rightarrow> SendScheduler \<Rightarrow> rat \<Rightarrow> 'st \<Rightarrow> (SendScheduler \<times> 'st) option" where
  "runLanes send [] s allowance st = Some (s, st)"
| "runLanes send (l # ls) s allowance st =
     do { (blocked, s, allowance, st) \<leftarrow> runLane send l s allowance st;
          if blocked then Some (s, st) else runLanes send ls s allowance st }"

definition mediaAllowance :: "SendScheduler \<Rightarrow> rat" where
  "mediaAllowance s =
     (let acknowledgedWaits = (ring_peers (sc_rings s Reliable) \<noteq> [] \<or> ring_peers (sc_rings s Bulk) \<noteq> [])
      in if acknowledgedWaits then rnd (rnd (sc_tokens s * 3) / 4) else sc_tokens s)"

definition run :: "'st send \<Rightarrow> SendScheduler \<Rightarrow> 'st \<Rightarrow> (SendScheduler \<times> 'st) option" where
  "run send s st = runLanes send Order s (mediaAllowance s) st"


section \<open>Single operations\<close>

lemma setRing_simps [simp]:
  "sc_rings (setRing l r s) = (sc_rings s)(l := r)" "sc_rate (setRing l r s) = sc_rate s"
  "sc_burst (setRing l r s) = sc_burst s" "sc_tokens (setRing l r s) = sc_tokens s"
  "sc_refilledAt (setRing l r s) = sc_refilledAt s"
  by (simp_all add: setRing_def)

lemma spend_simps [simp]:
  "sc_rings (spend n s) = sc_rings s" "sc_rate (spend n s) = sc_rate s" "sc_burst (spend n s) = sc_burst s"
  by (simp_all add: spend_def)

lemma startTurn_simps [simp]:
  "sc_rate (startTurn l s) = sc_rate s" "sc_burst (startTurn l s) = sc_burst s"
  "sc_tokens (startTurn l s) = sc_tokens s" "ring_peers (sc_rings (startTurn l s) l') = ring_peers (sc_rings s l')"
  "ring_used (sc_rings (startTurn l s) l') = ring_used (sc_rings s l')"
  "l' \<noteq> l \<Longrightarrow> sc_rings (startTurn l s) l' = sc_rings s l'"
  by (simp_all add: startTurn_def Let_def)

lemma startTurn_cursor:
  "ring_peers (sc_rings s l) \<noteq> [] \<Longrightarrow> ring_cursor (sc_rings (startTurn l s) l) < length (ring_peers (sc_rings s l))"
  by (simp add: startTurn_def Let_def)

lemma isUnlimited_cong [simp]:
  "isUnlimited (setRing l r s) = isUnlimited s" "isUnlimited (spend n s) = isUnlimited s"
  "isUnlimited (startTurn l s) = isUnlimited s"
  by (simp_all add: isUnlimited_def)

lemma endTurn_simps [simp]:
  "sc_rate (fst (endTurn res l s al)) = sc_rate s" "sc_burst (fst (endTurn res l s al)) = sc_burst s"
  "isUnlimited (fst (endTurn res l s al)) = isUnlimited s"
  "l' \<noteq> l \<Longrightarrow> sc_rings (fst (endTurn res l s al)) l' = sc_rings s l'"
  "sc_rings (fst (endTurn res l s al)) l = turnRing res (sc_rings s l)"
  "sc_tokens (fst (endTurn res l s al)) =
     (if (res = Sent \<or> res = Lost) \<and> \<not> isUnlimited s then rnd (sc_tokens s - 1) else sc_tokens s)"
  "snd (endTurn res l s al) = (if res = Sent \<or> res = Lost then rnd (al - (if capped l s then 1 else 0)) else al)"
  using rnd_of_nat [of 1] by (simp_all add: endTurn_def Let_def spend_def isUnlimited_def)

lemma capped_cong [simp]: "capped l (startTurn l' s) = capped l s" "capped l (fst (endTurn res l' s al)) = capped l s"
  by (simp_all add: capped_def)

lemma eraseAt_shorter: "n < length xs \<Longrightarrow> length (eraseAt n xs) < length xs"
  by (simp add: eraseAt_def)

lemma set_eraseAt: "set (eraseAt n xs) \<subseteq> set xs"
  using set_take_subset [of n xs] set_drop_subset [of "Suc n" xs] by (auto simp: eraseAt_def)

lemma distinct_eraseAt: "distinct xs \<Longrightarrow> distinct (eraseAt n xs)"
  unfolding eraseAt_def distinct_append
  by (metis distinct_drop distinct_take set_take_disj_set_drop_if_distinct le_SucI order_refl)

lemma set_eraseAt_distinct:
  assumes "distinct xs" and "n < length xs"
  shows "set (eraseAt n xs) = set xs - {xs ! n}"
proof -
  have "xs = take n xs @ xs ! n # drop (Suc n) xs"
    using assms(2) by (rule id_take_nth_drop)
  then have "distinct (take n xs @ xs ! n # drop (Suc n) xs)"
    and "set xs = insert (xs ! n) (set (take n xs) \<union> set (drop (Suc n) xs))"
    using assms(1) by (metis, metis Un_insert_right list.set(2) set_append)
  then show ?thesis
    by (auto simp: eraseAt_def)
qed


section \<open>The loop\<close>

text \<open>What every turn keeps holds at the end of the loop; a loop that was not cut short has nothing to do.\<close>

lemma runLane_rule:
  assumes "runLane send l s al st = Some (b, s', al', st')" and "I s al st"
    and "\<And>s al st res st'. I s al st \<Longrightarrow> mayRun l s al \<Longrightarrow>
      send l (turnPeer l (startTurn l s)) st = Some (res, st') \<Longrightarrow>
      (if res = Blocked then I (startTurn l s) al st'
       else I (fst (endTurn res l (startTurn l s) al)) (snd (endTurn res l (startTurn l s) al)) st')"
  shows "I s' al' st' \<and> (\<not> b \<longrightarrow> \<not> mayRun l s' al')"
proof -
  let ?post = "\<lambda>(b, s', al', st'). I s' al' st' \<and> (\<not> b \<longrightarrow> \<not> mayRun l s' al')"
  let ?P = "\<lambda>send' l' s al st r. send' = send \<longrightarrow> l' = l \<longrightarrow> I s al st \<longrightarrow> ?post r"
  have "?P send l s al st (b, s', al', st')"
  proof (rule runLane.raw_induct [of ?P, OF _ assms(1)], intro impI)
    fix rec send' l' s al st r
    assume IH: "\<And>send' l' s al st r. rec send' l' s al st = Some r \<Longrightarrow> ?P send' l' s al st r"
      and eq: "(if \<not> mayRun l' s al then Some (False, s, al, st)
        else Option.bind (send' l' (turnPeer l' (startTurn l' s)) st)
          (\<lambda>(res, st). if res = Blocked then Some (True, startTurn l' s, al, st)
             else rec send' l' (fst (endTurn res l' (startTurn l' s) al))
               (snd (endTurn res l' (startTurn l' s) al)) st)) = Some r"
      and "send' = send" "l' = l" and I: "I s al st"
    show "?post r"
    proof (cases "mayRun l s al")
      case False
      then show ?thesis
        using eq I \<open>l' = l\<close> by auto
    next
      case True
      then obtain res st1 where turn: "send l (turnPeer l (startTurn l s)) st = Some (res, st1)"
        using eq \<open>l' = l\<close> \<open>send' = send\<close> by (auto split: bind_splits)
      show ?thesis
      proof (cases "res = Blocked")
        case True
        then show ?thesis
          using eq turn \<open>mayRun l s al\<close> \<open>l' = l\<close> \<open>send' = send\<close> assms(3) [OF I \<open>mayRun l s al\<close> turn] by auto
      next
        case False
        then have "rec send l (fst (endTurn res l (startTurn l s) al)) (snd (endTurn res l (startTurn l s) al)) st1 = Some r"
          using eq turn \<open>mayRun l s al\<close> \<open>l' = l\<close> \<open>send' = send\<close> by simp
        then show ?thesis
          using IH assms(3) [OF I \<open>mayRun l s al\<close> turn] False by fastforce
      qed
    qed
  qed
  then show ?thesis
    using assms by fastforce
qed


text \<open>The loop over the lanes, from what every loop over a lane keeps.\<close>

lemma runLanes_rule:
  assumes "runLanes send ls s al st = Some (s', st')" and "I s al st"
    and "\<And>l s al st b s' al' st'. l \<in> set ls \<Longrightarrow> I s al st \<Longrightarrow>
      runLane send l s al st = Some (b, s', al', st') \<Longrightarrow> I s' al' st'"
  shows "\<exists>al'. I s' al' st'"
  using assms
proof (induction ls arbitrary: s al st)
  case (Cons l ls)
  obtain b s1 al1 st1 where one: "runLane send l s al st = Some (b, s1, al1, st1)"
    using Cons.prems(1) by (auto split: bind_splits)
  have I: "I s1 al1 st1"
    using Cons.prems(3) [OF _ Cons.prems(2) one] by simp
  show ?case
  proof (cases b)
    case True
    then show ?thesis
      using Cons.prems(1) one I by auto
  next
    case False
    then have "runLanes send ls s1 al1 st1 = Some (s', st')"
      using Cons.prems(1) one by simp
    then show ?thesis
      using Cons.IH [OF _ I] Cons.prems(3) by (meson list.set_intros(2))
  qed
qed auto

text \<open>
  The loop returns when every turn but the last brings a measure down: with a limited rate the tokens
  are one, and the peers of the ring are another; they add up.
\<close>

lemma runLane_returns:
  fixes f :: "SendScheduler \<Rightarrow> 'st \<Rightarrow> nat"
  assumes "J s st"
    and "\<And>s al st. J s st \<Longrightarrow> mayRun l s al \<Longrightarrow>
      \<exists>res st'. send l (turnPeer l (startTurn l s)) st = Some (res, st') \<and>
        (res \<noteq> Blocked \<longrightarrow> J (fst (endTurn res l (startTurn l s) al)) st' \<and>
           f (fst (endTurn res l (startTurn l s) al)) st' < f s st)"
  shows "runLane send l s al st \<noteq> None"
  using assms(1)
proof (induction "f s st" arbitrary: s al st rule: less_induct)
  case less
  show ?case
  proof (cases "mayRun l s al")
    case True
    obtain res st' where turn: "send l (turnPeer l (startTurn l s)) st = Some (res, st')"
      "res \<noteq> Blocked \<longrightarrow> J (fst (endTurn res l (startTurn l s) al)) st' \<and>
         f (fst (endTurn res l (startTurn l s) al)) st' < f s st"
      using assms(2) [OF less(2) True] by blast
    show ?thesis
    proof (cases "res = Blocked")
      case True
      then show ?thesis
        using turn(1) \<open>mayRun l s al\<close> by (subst runLane.simps) simp
    next
      case False
      then have "runLane send l (fst (endTurn res l (startTurn l s) al))
          (snd (endTurn res l (startTurn l s) al)) st' \<noteq> None"
        using less(1) turn(2) by blast
      then show ?thesis
        using turn(1) True False by (subst runLane.simps) simp
    qed
  qed (subst runLane.simps, simp)
qed

lemma runLanes_returns:
  assumes "J s st"
    and "\<And>l s al st. l \<in> set ls \<Longrightarrow> J s st \<Longrightarrow> runLane send l s al st \<noteq> None"
    and "\<And>l s al st b s' al' st'. l \<in> set ls \<Longrightarrow> J s st \<Longrightarrow>
      runLane send l s al st = Some (b, s', al', st') \<Longrightarrow> J s' st'"
  shows "runLanes send ls s al st \<noteq> None"
  using assms
proof (induction ls arbitrary: s al st)
  case (Cons l ls)
  obtain b s1 al1 st1 where one: "runLane send l s al st = Some (b, s1, al1, st1)"
    using Cons.prems(1,2) by (metis list.set_intros(1) not_None_eq prod_cases4)
  have "J s1 st1"
    using Cons.prems(3) [OF _ Cons.prems(1) one] by simp
  then have "runLanes send ls s1 al1 st1 \<noteq> None"
    by (rule Cons.IH) (use Cons.prems(2,3) in \<open>meson list.set_intros(2)\<close>)+
  then show ?case
    using one by auto
qed simp


section \<open>Invariant\<close>

definition sched_ok :: "SendScheduler \<Rightarrow> bool" where
  "sched_ok s \<longleftrightarrow> sc_burst s = burstOf (sc_rate s) \<and> rnd (sc_tokens s) = sc_tokens s \<and>
     sc_tokens s \<le> of_nat (sc_burst s) \<and> (\<forall>l. distinct (ring_peers (sc_rings s l)))"

lemma burstOf_bounds: "16 \<le> burstOf r" "burstOf r < 2 ^ 53"
proof -
  have "unat (r div 500) \<le> unat r"
    by (simp add: unat_div div_le_dividend)
  also have "\<dots> < 2 ^ 32"
    using unsigned_less [of r, where ?'a = nat] by simp
  finally show "burstOf r < 2 ^ 53"
    by (simp add: burstOf_def)
qed (simp add: burstOf_def)

lemma sched_ok_tokens: "sched_ok s \<Longrightarrow> sc_tokens s < 2 ^ 53"
proof -
  assume ok: "sched_ok s"
  then have "sc_tokens s \<le> of_nat (sc_burst s)"
    by (simp add: sched_ok_def)
  also have "of_nat (sc_burst s) < (of_nat (2 ^ 53) :: rat)"
    using ok burstOf_bounds(2) unfolding sched_ok_def of_nat_less_iff by simp
  finally show ?thesis
    by simp
qed

lemma sched_ok_new: "sched_ok (newScheduler rate)"
  using burstOf_bounds(2) [of rate]
  by (simp add: sched_ok_def newScheduler_def setRate_def emptyRing_def)

lemma sched_ok_setRate: "sched_ok s \<Longrightarrow> sched_ok (setRate rate s)"
  using burstOf_bounds(2) [of rate] by (simp add: sched_ok_def setRate_def)

lemma min_double: "rnd a = a \<Longrightarrow> rnd b = b \<Longrightarrow> rnd (min a b) = min a b"
  by (simp add: min_def)

lemma sched_ok_refill: "sched_ok s \<Longrightarrow> sched_ok (refill now s)"
  using burstOf_bounds(2) [of "sc_rate s"]
  by (auto simp: sched_ok_def refill_def Let_def min_double split: option.splits)

lemma sched_ok_spend: "sched_ok s \<Longrightarrow> sched_ok (spend n s)"
proof -
  assume ok: "sched_ok s"
  have "0 \<le> rnd (of_nat n :: rat)"
    using rnd_ge_of_nat [of 0 "of_nat n"] by simp
  then have "sc_tokens s - rnd (of_nat n) \<le> of_nat (sc_burst s)"
    using ok by (simp add: sched_ok_def)
  then have "rnd (sc_tokens s - rnd (of_nat n)) \<le> of_nat (sc_burst s)"
    using ok burstOf_bounds(2) by (intro rnd_le_of_nat) (simp_all add: sched_ok_def)
  then show ?thesis
    using ok by (simp add: sched_ok_def spend_def)
qed

lemma sched_ok_add: "sched_ok s \<Longrightarrow> p \<notin> set (ring_peers (sc_rings s l)) \<Longrightarrow> sched_ok (add l p s)"
  by (simp add: sched_ok_def add_def)

lemma ringRemove_peers:
  "ring_peers (ringRemove p r) =
   (let it = length (takeWhile (\<lambda>q. q \<noteq> p) (ring_peers r))
    in if it = length (ring_peers r) then ring_peers r else eraseAt it (ring_peers r))"
  by (simp add: ringRemove_def Let_def)

lemma ringRemove_set:
  assumes "distinct (ring_peers r)"
  shows "distinct (ring_peers (ringRemove p r)) \<and> set (ring_peers (ringRemove p r)) = set (ring_peers r) - {p}"
proof (cases "p \<in> set (ring_peers r)")
  case True
  let ?n = "length (takeWhile (\<lambda>q. q \<noteq> p) (ring_peers r))"
  have n: "?n < length (ring_peers r)"
    using True by (metis (mono_tags, lifting) length_takeWhile_le nat_less_le takeWhile_eq_all_conv takeWhile_eq_take take_all_iff le_refl)
  then have "ring_peers r ! ?n = p"
    using nth_length_takeWhile [OF n] by simp
  then show ?thesis
    using n assms set_eraseAt_distinct [OF assms n]
    by (simp add: ringRemove_peers distinct_eraseAt)
next
  case False
  then have all: "takeWhile (\<lambda>q. q \<noteq> p) (ring_peers r) = ring_peers r"
    by (auto simp: takeWhile_eq_all_conv)
  show ?thesis
    unfolding ringRemove_peers Let_def all using False assms by simp
qed

lemma sched_ok_remove: "sched_ok s \<Longrightarrow> sched_ok (remove p s)"
  by (simp add: sched_ok_def remove_def ringRemove_set)

lemma sched_ok_clear: "sched_ok s \<Longrightarrow> sched_ok (clearRings s)"
  by (simp add: sched_ok_def clearRings_def emptyRing_def)

lemma turnRing_distinct: "distinct (ring_peers r) \<Longrightarrow> distinct (ring_peers (turnRing res r))"
  by (cases res) (simp_all add: turnRing_def Let_def nextPeer_def distinct_eraseAt)

lemma sched_ok_startTurn: "sched_ok s \<Longrightarrow> sched_ok (startTurn l s)"
  by (simp add: sched_ok_def)

lemma sched_ok_endTurn: "sched_ok s \<Longrightarrow> sched_ok (fst (endTurn res l s al))"
proof -
  assume ok: "sched_ok s"
  then have spent: "sched_ok (spend 1 s)"
    by (rule sched_ok_spend)
  have "distinct (ring_peers (sc_rings (fst (endTurn res l s al)) l'))" for l'
    using ok turnRing_distinct by (cases "l' = l") (simp_all add: sched_ok_def)
  then show ?thesis
    using ok spent rnd_of_nat [of 1] by (auto simp: sched_ok_def spend_def split: if_splits)
qed

lemma sched_ok_run:
  assumes "sched_ok s" and "run send s st = Some (s', st')"
  shows "sched_ok s'"
proof -
  have "\<exists>al' :: rat. sched_ok s'"
  proof (rule runLanes_rule [OF assms(2) [unfolded run_def], where I = "\<lambda>s al st. sched_ok s"])
    show "sched_ok s1" if "sched_ok s" "runLane send l s al st = Some (b, s1, al1, st1)" for l s al st b s1 al1 st1
      using runLane_rule [OF that(2), of "\<lambda>s al st. sched_ok s"] that(1) sched_ok_startTurn sched_ok_endTurn
      by auto
  qed (rule assms(1))
  then show ?thesis by simp
qed


section \<open>What a run sends\<close>

text \<open>The callback, with a list of the turns it was given.\<close>

type_synonym turn = "Lane \<times> PeerId \<times> TurnResult"

definition logged :: "'st send \<Rightarrow> (turn list \<times> 'st) send" where
  "logged send l p = (\<lambda>(ts, st). map_option (\<lambda>(res, st). (res, ts @ [(l, p, res)], st)) (send l p st))"

definition costs :: "turn \<Rightarrow> bool" where
  "costs t \<longleftrightarrow> snd (snd t) = Sent \<or> snd (snd t) = Lost"

definition datagrams :: "turn list \<Rightarrow> nat" where
  "datagrams ts = length (filter costs ts)"

definition datagramsOn :: "Lane \<Rightarrow> turn list \<Rightarrow> nat" where
  "datagramsOn l ts = length (filter (\<lambda>t. costs t \<and> fst t = l) ts)"

lemma logged_Some:
  "logged send l p (ts, st) = Some (res, x) \<longleftrightarrow> (\<exists>st'. send l p st = Some (res, st') \<and> x = (ts @ [(l, p, res)], st'))"
  by (auto simp: logged_def)

lemma datagrams_snoc [simp]:
  "datagrams [] = 0" "datagramsOn l [] = 0"
  "datagrams (ts @ [(l', p, res)]) = datagrams ts + (if res = Sent \<or> res = Lost then 1 else 0)"
  "datagramsOn l (ts @ [(l', p, res)]) = datagramsOn l ts + (if (res = Sent \<or> res = Lost) \<and> l' = l then 1 else 0)"
  by (simp_all add: datagrams_def datagramsOn_def costs_def)

text \<open>The tokens that are left and the datagrams that were sent add up, and no token is spent twice.\<close>

definition paid :: "rat \<Rightarrow> SendScheduler \<Rightarrow> turn list \<Rightarrow> bool" where
  "paid t s ts \<longleftrightarrow> sched_ok s \<and> \<not> isUnlimited s \<and> sc_tokens s = t - of_nat (datagrams ts) \<and>
     (datagrams ts = 0 \<or> 0 \<le> sc_tokens s)"

lemma paid_turn:
  assumes "paid t s ts" and "mayRun l s al"
  shows "paid t (fst (endTurn res l (startTurn l s) al)) (ts @ [(l, p, res)])"
    "paid t (startTurn l s) (ts @ [(l, p, Blocked)])"
proof -
  have "sched_ok s"
    using assms(1) by (simp add: paid_def)
  then have ok: "sched_ok (startTurn l s)" "rnd (sc_tokens s) = sc_tokens s" "sc_tokens s < 2 ^ 53"
    by (rule sched_ok_startTurn, simp add: sched_ok_def, rule sched_ok_tokens)
  have "1 \<le> sc_tokens s"
    using assms by (simp add: paid_def mayRun_def hasTokens_def)
  then have "rnd (sc_tokens s - 1) = sc_tokens s - 1"
    using rnd_minus_one ok by blast
  then show "paid t (fst (endTurn res l (startTurn l s) al)) (ts @ [(l, p, res)])"
    using assms(1) \<open>1 \<le> sc_tokens s\<close> sched_ok_endTurn [OF ok(1)] by (auto simp: paid_def)
  show "paid t (startTurn l s) (ts @ [(l, p, Blocked)])"
    using assms(1) ok(1) by (auto simp: paid_def)
qed

lemma runLane_paid:
  assumes "runLane (logged send) l s al (ts, st) = Some (b, s', al', ts', st')" and "paid t s ts"
  shows "paid t s' ts'"
proof -
  have "(case (ts', st') of (ts, st) \<Rightarrow> paid t s' ts) \<and> (\<not> b \<longrightarrow> \<not> mayRun l s' al')"
  proof (rule runLane_rule [OF assms(1), where I = "\<lambda>s al (ts, st). paid t s ts"], goal_cases)
    case (2 s al st res st')
    then show ?case
      using paid_turn [of t s "fst st" l al] by (cases st) (auto simp: logged_Some)
  qed (simp add: assms(2))
  then show ?thesis by simp
qed

lemma run_paid:
  assumes "sched_ok s" and "\<not> isUnlimited s" and "run (logged send) s ([], st) = Some (s', ts, st')"
  shows "paid (sc_tokens s) s' ts"
proof -
  let ?I = "\<lambda>s' (al :: rat) (ts, st). paid (sc_tokens s) s' ts"
  have "\<exists>al'. ?I s' al' (ts, st')"
  proof (rule runLanes_rule [OF assms(3) [unfolded run_def], where I = ?I])
    show "?I s1 al1 st1" if "?I s al st" "runLane (logged send) l s al st = Some (b, s1, al1, st1)" for l s al st b s1 al1 st1
      using that runLane_paid [of send l s al "fst st" "snd st" b s1 al1 "fst st1" "snd st1"] by (simp add: split_beta)
  qed (use assms in \<open>simp add: paid_def\<close>)
  then show ?thesis by simp
qed

text \<open>Media has an allowance of its own, which the other lanes leave alone.\<close>

definition allowed :: "rat \<Rightarrow> SendScheduler \<Rightarrow> rat \<Rightarrow> turn list \<Rightarrow> bool" where
  "allowed a s al ts \<longleftrightarrow> \<not> isUnlimited s \<and> al < 2 ^ 53 \<and> rnd al = al \<and>
     al = a - of_nat (datagramsOn Media ts) \<and> (datagramsOn Media ts = 0 \<or> 0 \<le> al)"

lemma allowed_turn:
  assumes "allowed a s al ts" and "mayRun l s al"
  shows "allowed a (fst (endTurn res l (startTurn l s) al)) (snd (endTurn res l (startTurn l s) al)) (ts @ [(l, p, res)])"
    "allowed a (startTurn l s) al (ts @ [(l, p, Blocked)])"
proof -
  have "rnd (al - 1) = al - 1 \<and> 1 \<le> al" if "l = Media"
    using that assms rnd_minus_one [of al] by (auto simp: allowed_def mayRun_def capped_def)
  then show "allowed a (fst (endTurn res l (startTurn l s) al)) (snd (endTurn res l (startTurn l s) al)) (ts @ [(l, p, res)])"
    using assms(1) by (auto simp: allowed_def capped_def)
qed (use assms(1) in \<open>auto simp: allowed_def\<close>)

lemma run_allowed:
  assumes "\<not> isUnlimited s" and "rnd (mediaAllowance s) = mediaAllowance s" and "mediaAllowance s < 2 ^ 53"
    and "run (logged send) s ([], st) = Some (s', ts, st')"
  shows "\<exists>al. allowed (mediaAllowance s) s' al ts"
proof -
  let ?I = "\<lambda>s' al (ts, st). allowed (mediaAllowance s) s' al ts"
  have "\<exists>al'. ?I s' al' (ts, st')"
  proof (rule runLanes_rule [OF assms(4) [unfolded run_def], where I = ?I])
    fix l s1 al1 st1 b s2 al2 st2
    assume I: "?I s1 al1 st1" and r: "runLane (logged send) l s1 al1 st1 = Some (b, s2, al2, st2)"
    have "?I s2 al2 st2 \<and> (\<not> b \<longrightarrow> \<not> mayRun l s2 al2)"
    proof (rule runLane_rule [OF r, where I = ?I], goal_cases)
      case (2 s al st res st')
      then show ?case
        using allowed_turn [of _ s al "fst st" l] by (cases st) (auto simp: logged_Some simp del: endTurn_simps)
    qed (rule I)
    then show "?I s2 al2 st2" by simp
  qed (use assms in \<open>simp add: allowed_def\<close>)
  then show ?thesis by simp
qed

lemma mediaAllowance_bounds:
  assumes "sched_ok s"
  shows "rnd (mediaAllowance s) = mediaAllowance s" "mediaAllowance s < 2 ^ 53"
    "ring_peers (sc_rings s Reliable) \<noteq> [] \<or> ring_peers (sc_rings s Bulk) \<noteq> [] \<Longrightarrow>
       mediaAllowance s \<le> of_nat (3 * sc_burst s) / 4"
proof -
  let ?n = "sc_burst s"
  have n: "?n < 2 ^ 24" "0 < ?n"
  proof -
    have "unat (sc_rate s div 500) < 2 ^ 24"
      using unsigned_less [of "sc_rate s", where ?'a = nat] by (simp add: unat_div)
    then show "?n < 2 ^ 24" "0 < ?n"
      using assms by (simp_all add: sched_ok_def burstOf_def)
  qed
  have "sc_tokens s * 3 \<le> of_nat (3 * ?n)"
    using assms by (simp add: sched_ok_def)
  then have "rnd (sc_tokens s * 3) \<le> of_nat (3 * ?n)"
    using n by (intro rnd_le_of_nat) simp_all
  then have "rnd (rnd (sc_tokens s * 3) / 4) \<le> rnd (of_nat (3 * ?n) / 4)"
    by (intro rnd_mono) simp
  also have "rnd (of_nat (3 * ?n) / 4) = of_nat (3 * ?n) / 4"
    using n by (intro rnd_grid [of _ "int (3 * ?n)" "- 2"]) (simp_all add: pow2_def)
  finally have quarter: "rnd (rnd (sc_tokens s * 3) / 4) \<le> of_nat (3 * ?n) / 4" .
  have "(of_nat (3 * ?n) / 4 :: rat) \<le> of_nat ?n"
    by simp
  also have "(of_nat ?n :: rat) < of_nat (2 ^ 53)"
    using n(1) by (simp only: of_nat_less_iff) simp
  finally have "of_nat (3 * ?n) / 4 < (2 ^ 53 :: rat)"
    by simp
  then show "mediaAllowance s < 2 ^ 53"
    using quarter sched_ok_tokens [OF assms] by (simp add: mediaAllowance_def Let_def)
  show "rnd (mediaAllowance s) = mediaAllowance s"
    using assms by (simp add: mediaAllowance_def Let_def sched_ok_def)
  show "mediaAllowance s \<le> of_nat (3 * ?n) / 4"
    if "ring_peers (sc_rings s Reliable) \<noteq> [] \<or> ring_peers (sc_rings s Bulk) \<noteq> []"
    using that quarter by (simp add: mediaAllowance_def)
qed


text \<open>The order of the lanes: without tokens no lane is asked, and a lane that ran has nothing left or no allowance.\<close>

lemma runLane_idle: "\<not> hasTokens s \<Longrightarrow> runLane send l s al st = Some (False, s, al, st)"
  by (subst runLane.simps) (simp add: mayRun_def)

lemma runLanes_idle: "\<not> hasTokens s \<Longrightarrow> runLanes send ls s al st = Some (s, st)"
  by (induction ls) (simp_all add: runLane_idle)

lemma runLane_asks:
  assumes "runLane (logged send) l s al (ts, st) = Some (b, s', al', ts', st')"
  shows "(\<exists>new. ts' = ts @ new \<and> (\<forall>t \<in> set new. fst t = l)) \<and> (\<forall>l'. l' \<noteq> l \<longrightarrow> sc_rings s' l' = sc_rings s l') \<and>
    isUnlimited s' = isUnlimited s \<and> (\<not> b \<longrightarrow> \<not> mayRun l s' al')"
proof -
  let ?I = "\<lambda>s1 (al :: rat) (ts1, st1 :: 'a). (\<exists>new. ts1 = ts @ new \<and> (\<forall>t \<in> set new. fst t = l)) \<and>
    (\<forall>l'. l' \<noteq> l \<longrightarrow> sc_rings s1 l' = sc_rings s l') \<and> isUnlimited s1 = isUnlimited s"
  have "?I s' al' (ts', st') \<and> (\<not> b \<longrightarrow> \<not> mayRun l s' al')"
  proof (rule runLane_rule [OF assms, where I = ?I], goal_cases)
    case (2 s1 al1 x res x')
    then obtain ts1 st1 new where x: "x = (ts1, st1)" "ts1 = ts @ new" "\<forall>t \<in> set new. fst t = l"
      by (cases x) auto
    obtain st2 where x': "x' = (ts @ (new @ [(l, turnPeer l (startTurn l s1), res)]), st2)"
      using 2(3) x by (auto simp: logged_Some)
    have "\<exists>new'. ts @ (new @ [(l, turnPeer l (startTurn l s1), res)]) = ts @ new' \<and> (\<forall>t \<in> set new'. fst t = l)"
      using x(3) by (intro exI [of _ "new @ [(l, turnPeer l (startTurn l s1), res)]"]) auto
    then show ?case
      using 2(1) x(1) unfolding x' by simp
  qed simp
  then show ?thesis by simp
qed

lemma sorted_wrt_all: "(\<And>x y. y \<in> set xs \<Longrightarrow> P x y) \<Longrightarrow> sorted_wrt P xs"
  by (induction xs) auto

lemma sorted_wrt_before:
  "sorted_wrt P xs \<Longrightarrow> y \<in> set xs \<Longrightarrow> x \<in> set (takeWhile (\<lambda>z. z \<noteq> y) xs) \<Longrightarrow> P x y"
  by (induction xs) (auto split: if_splits)

lemma runLanes_asks:
  assumes "runLanes (logged send) ls s al (ts, st) = Some (s', ts', st')" and "distinct ls"
  shows "\<exists>new. ts' = ts @ new \<and> fst ` set new \<subseteq> set ls \<and>
    (\<forall>l'. l' \<notin> set ls \<longrightarrow> sc_rings s' l' = sc_rings s l') \<and>
    sorted_wrt (\<lambda>l1 l2. l2 \<in> fst ` set new \<longrightarrow> ring_peers (sc_rings s' l1) = [] \<or> capped l1 s) ls"
  using assms
proof (induction ls arbitrary: s al ts st)
  case Nil
  then show ?case by simp
next
  case (Cons l ls)
  obtain b s1 al1 ts1 st1 where one: "runLane (logged send) l s al (ts, st) = Some (b, s1, al1, ts1, st1)"
    using Cons.prems(1) by (auto split: bind_splits)
  obtain new1 where new1: "ts1 = ts @ new1" "\<forall>t \<in> set new1. fst t = l"
    and rings1: "\<forall>l'. l' \<noteq> l \<longrightarrow> sc_rings s1 l' = sc_rings s l'"
    and lim: "isUnlimited s1 = isUnlimited s" and idle: "\<not> b \<longrightarrow> \<not> mayRun l s1 al1"
    using runLane_asks [OF one] by blast
  show ?case
  proof (cases "b \<or> \<not> hasTokens s1")
    case True
    then have "s' = s1" "ts' = ts1"
      using Cons.prems(1) one runLanes_idle [of s1 "logged send" ls al1 "(ts1, st1)"] by (auto split: if_splits)
    moreover have "sorted_wrt (\<lambda>l1 l2. l2 \<in> fst ` set new1 \<longrightarrow> ring_peers (sc_rings s1 l1) = [] \<or> capped l1 s) (l # ls)"
      using new1(2) Cons.prems(2) by (auto intro!: sorted_wrt_all)
    ultimately show ?thesis
      using new1 rings1 by (intro exI [of _ new1]) auto
  next
    case False
    then have "runLanes (logged send) ls s1 al1 (ts1, st1) = Some (s', ts', st')"
      using Cons.prems(1) one by simp
    then obtain new2 where new2: "ts' = ts1 @ new2" "fst ` set new2 \<subseteq> set ls"
      and rings2: "\<forall>l'. l' \<notin> set ls \<longrightarrow> sc_rings s' l' = sc_rings s1 l'"
      and sorted: "sorted_wrt (\<lambda>l1 l2. l2 \<in> fst ` set new2 \<longrightarrow> ring_peers (sc_rings s' l1) = [] \<or> capped l1 s1) ls"
      using Cons.IH Cons.prems(2) by fastforce
    have capped: "capped l' s1 = capped l' s" for l'
      by (simp add: capped_def lim)
    have "ring_peers (sc_rings s' l) = [] \<or> capped l s"
      using False idle rings2 Cons.prems(2) capped by (auto simp: mayRun_def)
    moreover have "sorted_wrt (\<lambda>l1 l2. l2 \<in> fst ` set (new1 @ new2) \<longrightarrow> ring_peers (sc_rings s' l1) = [] \<or> capped l1 s) ls"
    proof (rule sorted_wrt_mono_rel [OF _ sorted])
      show "l2 \<in> fst ` set (new1 @ new2) \<longrightarrow> ring_peers (sc_rings s' l1) = [] \<or> capped l1 s"
        if "l2 \<in> set ls" "l2 \<in> fst ` set new2 \<longrightarrow> ring_peers (sc_rings s' l1) = [] \<or> capped l1 s1" for l1 l2
        using that new1(2) Cons.prems(2) capped by auto
    qed
    ultimately show ?thesis
      using new1 new2 rings1 rings2 by (intro exI [of _ "new1 @ new2"]) auto
  qed
qed


text \<open>
  Taking turns. \<open>position\<close> counts the datagrams of a round: the peer at the cursor has sent \<open>used\<close> of
  the \<open>Quantum\<close> it may send.
\<close>

definition turn_of :: "PeerId list \<Rightarrow> nat \<Rightarrow> PeerId" where
  "turn_of ps i = ps ! ((i div Quantum) mod length ps)"

lemma runLane_robin:
  assumes "ring_peers (sc_rings s l) = ps" and "ps \<noteq> []" and "ring_cursor (sc_rings s l) \<le> length ps"
    and "ring_used (sc_rings s l) < Quantum" and "\<not> isUnlimited s" and "l \<noteq> Media"
    and "sc_tokens s = of_nat n" and "n < 2 ^ 53"
    and "ring_cursor (sc_rings s l) = length ps \<Longrightarrow> ring_used (sc_rings s l) = 0"
  shows "\<exists>s' al'. runLane (logged (\<lambda>l p st. Some (Sent, st))) l s al (ts, st) =
    Some (False, s', al', ts @ map (\<lambda>i. (l, turn_of ps (Quantum * ring_cursor (sc_rings s l) + ring_used (sc_rings s l) + i), Sent)) [0..<n], st)"
  using assms
proof (induction n arbitrary: s al ts)
  case 0
  then show ?case
    by (subst runLane.simps) (simp add: mayRun_def hasTokens_def)
next
  case (Suc n)
  let ?c = "ring_cursor (sc_rings s l)" and ?u = "ring_used (sc_rings s l)"
  let ?s1 = "startTurn l s"
  let ?c1 = "ring_cursor (sc_rings ?s1 l)"
  let ?s2 = "fst (endTurn Sent l ?s1 al)"
  let ?c2 = "ring_cursor (sc_rings ?s2 l)" and ?u2 = "ring_used (sc_rings ?s2 l)"
  have c1: "?c1 = (if ?c = length ps then 0 else ?c)" "?c1 < length ps"
    using Suc.prems startTurn_cursor [of s l] by (auto simp: startTurn_def Let_def)
  have may: "mayRun l s al"
    using Suc.prems by (simp add: mayRun_def hasTokens_def capped_def)
  have pos: "turn_of ps (Quantum * ?c + ?u + i) = turn_of ps (Quantum * ?c1 + ?u + i)" for i
  proof -
    have "(4 * length ps + ?u + i) div 4 = length ps + (?u + i) div 4"
      by (simp add: add.assoc)
    then show ?thesis
      using c1(1) by (simp add: turn_of_def Quantum_def)
  qed
  have peer: "turnPeer l ?s1 = turn_of ps (Quantum * ?c + ?u)"
    using pos [of 0] c1(2) Suc.prems(1,4) by (simp add: turnPeer_def turn_of_def Quantum_def)
  have nxt: "Quantum * ?c2 + ?u2 = Quantum * ?c1 + ?u + 1" "?c2 \<le> length ps" "?u2 < Quantum"
    "?c2 = length ps \<Longrightarrow> ?u2 = 0" "ring_peers (sc_rings ?s2 l) = ps"
    using c1(2) Suc.prems(1,4) by (auto simp: turnRing_def Let_def nextPeer_def Quantum_def split: if_splits)
  have tokens: "sc_tokens ?s2 = of_nat n"
    using Suc.prems(5,7,8) rnd_of_nat [of n] by (simp add: sched_ok_def)
  obtain s' al' where "runLane (logged (\<lambda>l p st. Some (Sent, st))) l ?s2 (snd (endTurn Sent l ?s1 al))
      (ts @ [(l, turnPeer l ?s1, Sent)], st) = Some (False, s', al', (ts @ [(l, turnPeer l ?s1, Sent)]) @
        map (\<lambda>i. (l, turn_of ps (Quantum * ?c2 + ?u2 + i), Sent)) [0..<n], st)"
    using Suc.IH [OF nxt(5) Suc.prems(2) nxt(2,3) _ Suc.prems(6) tokens _ nxt(4)] Suc.prems(5,8) by fastforce
  moreover have "[(l, turnPeer l ?s1, Sent)] @ map (\<lambda>i. (l, turn_of ps (Quantum * ?c2 + ?u2 + i), Sent)) [0..<n] =
      map (\<lambda>i. (l, turn_of ps (Quantum * ?c + ?u + i), Sent)) [0..<Suc n]"
    unfolding nxt(1) pos upt_conv_Cons [OF zero_less_Suc] map_Suc_upt [symmetric]
    by (simp add: peer [unfolded pos [of 0, simplified]] add.assoc pos)
  ultimately show ?case
    by (subst runLane.simps) (simp add: may logged_def)
qed


section \<open>A run ends\<close>

text \<open>A turn without a cost takes a peer out of its ring.\<close>

lemma endTurn_measure:
  assumes "mayRun l s al" and "res \<noteq> Blocked"
  shows "length (ring_peers (sc_rings (fst (endTurn res l (startTurn l s) al)) l)) + (if res = Empty then 1 else 0)
    \<le> length (ring_peers (sc_rings s l))"
proof -
  have "ring_peers (sc_rings s l) \<noteq> []"
    using assms(1) by (simp add: mayRun_def)
  then show ?thesis
    using startTurn_cursor [of s l] eraseAt_shorter [of "ring_cursor (sc_rings (startTurn l s) l)" "ring_peers (sc_rings s l)"] assms(2)
    by (cases res) (auto simp: turnRing_def Let_def nextPeer_def)
qed

lemma nat_ceiling_minus_one: "1 \<le> t \<Longrightarrow> nat \<lceil>t - 1 :: rat\<rceil> < nat \<lceil>t\<rceil>"
  by linarith

lemma runLane_ends:
  fixes J :: "'st \<Rightarrow> bool" and \<phi> :: "'st \<Rightarrow> nat"
  assumes "sched_ok s" and "J st"
    and turn: "\<And>p st. J st \<Longrightarrow> \<exists>res st'. send l p st = Some (res, st') \<and> J st' \<and>
      (isUnlimited s \<longrightarrow> (if res = Sent \<or> res = Lost then \<phi> st' < \<phi> st else \<phi> st' \<le> \<phi> st))"
  shows "runLane send l s al st \<noteq> None"
proof (rule runLane_returns [where J = "\<lambda>s' st. sched_ok s' \<and> J st \<and> isUnlimited s' = isUnlimited s" and
    f = "\<lambda>s' st. (if isUnlimited s then \<phi> st else nat \<lceil>sc_tokens s'\<rceil>) + length (ring_peers (sc_rings s' l))"], goal_cases)
  case (2 s1 al1 st1)
  obtain res st2 where t: "send l (turnPeer l (startTurn l s1)) st1 = Some (res, st2)" "J st2"
    "isUnlimited s \<longrightarrow> (if res = Sent \<or> res = Lost then \<phi> st2 < \<phi> st1 else \<phi> st2 \<le> \<phi> st1)"
    using turn 2 by blast
  have ok: "sched_ok (fst (endTurn res l (startTurn l s1) al1))"
    using 2 sched_ok_startTurn sched_ok_endTurn by blast
  have "nat \<lceil>rnd (sc_tokens s1 - 1)\<rceil> < nat \<lceil>sc_tokens s1\<rceil>" if "\<not> isUnlimited s"
  proof -
    have "1 \<le> sc_tokens s1"
      using that 2 by (auto simp: mayRun_def hasTokens_def)
    then show ?thesis
      using rnd_minus_one [of "sc_tokens s1"] 2 sched_ok_tokens [of s1] nat_ceiling_minus_one
      by (simp add: sched_ok_def)
  qed
  then have pays: "(if isUnlimited s then \<phi> st2 else nat \<lceil>sc_tokens (fst (endTurn res l (startTurn l s1) al1))\<rceil>) +
      (if res = Sent \<or> res = Lost then 1 else 0) \<le> (if isUnlimited s then \<phi> st1 else nat \<lceil>sc_tokens s1\<rceil>)"
    using t(3) 2 by (cases "isUnlimited s") (auto simp del: zless_nat_conj)
  have "(if isUnlimited s then \<phi> st2 else nat \<lceil>sc_tokens (fst (endTurn res l (startTurn l s1) al1))\<rceil>) +
      length (ring_peers (sc_rings (fst (endTurn res l (startTurn l s1) al1)) l)) <
      (if isUnlimited s then \<phi> st1 else nat \<lceil>sc_tokens s1\<rceil>) + length (ring_peers (sc_rings s1 l))"
    if "res \<noteq> Blocked"
  proof -
    have "1 \<le> (if res = Sent \<or> res = Lost then 1 else 0) + (if res = Empty then 1 else 0 :: nat)"
      using that by (cases res) simp_all
    then show ?thesis
      using pays endTurn_measure [OF 2(2) that] by linarith
  qed
  then show ?case
    using t(1,2) ok 2 by (intro exI [of _ res] exI [of _ st2] conjI impI) simp_all
qed (use assms in simp)

lemma run_ends:
  fixes J :: "'st \<Rightarrow> bool" and \<phi> :: "'st \<Rightarrow> nat"
  assumes "sched_ok s" and "J st"
    and turn: "\<And>l p st. J st \<Longrightarrow> \<exists>res st'. send l p st = Some (res, st') \<and> J st' \<and>
      (isUnlimited s \<longrightarrow> (if res = Sent \<or> res = Lost then \<phi> st' < \<phi> st else \<phi> st' \<le> \<phi> st))"
  shows "run send s st \<noteq> None"
  unfolding run_def
proof (rule runLanes_returns [where J = "\<lambda>s' st. sched_ok s' \<and> J st \<and> isUnlimited s' = isUnlimited s"], goal_cases)
  case (2 l s1 al1 st1)
  then show ?case
    using runLane_ends [of s1 J st1 send l \<phi> al1] turn by metis
next
  case (3 l s1 al1 st1 b s2 al2 st2)
  have "(sched_ok s2 \<and> J st2 \<and> isUnlimited s2 = isUnlimited s) \<and> (\<not> b \<longrightarrow> \<not> mayRun l s2 al2)"
  proof (rule runLane_rule [OF 3(3), where I = "\<lambda>s' al st. sched_ok s' \<and> J st \<and> isUnlimited s' = isUnlimited s"], goal_cases)
    case (2 s al st res st')
    then have "J st'"
      using turn by (metis option.inject prod.inject)
    then show ?case
      using 2 sched_ok_startTurn sched_ok_endTurn by auto
  qed (use 3 in simp)
  then show ?case by simp
qed (use assms in simp)


section \<open>Properties\<close>

text \<open>The states a scheduler can be in: any sequence of operations, each peer added to a ring it is not in.\<close>

inductive scheduler_reachable :: "SendScheduler \<Rightarrow> bool" where
  created: "scheduler_reachable (newScheduler rate)"
| rated: "scheduler_reachable s \<Longrightarrow> scheduler_reachable (setRate rate s)"
| refilled: "scheduler_reachable s \<Longrightarrow> scheduler_reachable (refill now s)"
| spent: "scheduler_reachable s \<Longrightarrow> scheduler_reachable (spend n s)"
| added: "scheduler_reachable s \<Longrightarrow> p \<notin> set (ring_peers (sc_rings s l)) \<Longrightarrow> scheduler_reachable (add l p s)"
| removed: "scheduler_reachable s \<Longrightarrow> scheduler_reachable (remove p s)"
| cleared: "scheduler_reachable s \<Longrightarrow> scheduler_reachable (clearRings s)"
| ran: "scheduler_reachable s \<Longrightarrow> run send s (st :: nat) = Some (s', st') \<Longrightarrow> scheduler_reachable s'"

lemma scheduler_reachable_ok: "scheduler_reachable s \<Longrightarrow> sched_ok s"
  by (induction rule: scheduler_reachable.induct)
    (auto intro: sched_ok_new sched_ok_setRate sched_ok_refill sched_ok_spend sched_ok_add sched_ok_remove
      sched_ok_clear sched_ok_run)

definition demo_scheduler :: SendScheduler where
  "demo_scheduler = add Reliable 7 (add Media 8 (newScheduler 500))"

abbreviation send_all :: "nat send" where
  "send_all \<equiv> \<lambda>l p st. Some (Sent, st + 1)"

lemma demo_reachable: "scheduler_reachable demo_scheduler"
  unfolding demo_scheduler_def
  by (intro scheduler_reachable.intros) (simp_all add: add_def newScheduler_def setRate_def emptyRing_def)

lemma demo_limited: "\<not> isUnlimited demo_scheduler"
  by (simp add: demo_scheduler_def isUnlimited_def add_def newScheduler_def setRate_def)

lemma demo_scheduler_run: "\<exists>s' ts n. run (logged send_all) demo_scheduler ([], 0) = Some (s', ts, n)"
  using run_ends [OF scheduler_reachable_ok [OF demo_reachable], of "\<lambda>_. True" "([], 0)" "logged send_all" "\<lambda>_. 0"] demo_limited
  by (auto simp: logged_def)

text \<open>Whatever is done with a scheduler, its tokens never exceed its burst, and no peer is in a ring twice.\<close>

theorem scheduler_invariant:
  assumes "scheduler_reachable s"
  shows "sc_burst s = burstOf (sc_rate s) \<and> sc_tokens s \<le> of_nat (sc_burst s) \<and>
    (\<forall>l. distinct (ring_peers (sc_rings s l)))"
  using scheduler_reachable_ok [OF assms] by (simp add: sched_ok_def)

theorem scheduler_invariant_witness:
  "sc_tokens demo_scheduler \<le> of_nat (sc_burst demo_scheduler) \<and> distinct (ring_peers (sc_rings demo_scheduler Media))"
  using scheduler_invariant [OF demo_reachable] by blast

text \<open>C25: \<open>run\<close> returns, when the callback does: with a limited rate always, and with an unlimited one when
  what the callback has to send runs out.
\<close>

theorem run_returns:
  fixes J :: "'st \<Rightarrow> bool" and \<phi> :: "'st \<Rightarrow> nat"
  assumes "scheduler_reachable s" and "J st"
    and "\<And>l p st. J st \<Longrightarrow> \<exists>res st'. send l p st = Some (res, st') \<and> J st' \<and>
      (isUnlimited s \<longrightarrow> (if res = Sent \<or> res = Lost then \<phi> st' < \<phi> st else \<phi> st' \<le> \<phi> st))"
  shows "\<exists>s' st'. run send s st = Some (s', st')"
  using run_ends [of s J st send \<phi>] scheduler_reachable_ok assms by auto

theorem run_returns_witness: "\<exists>s' n. run send_all demo_scheduler 0 = Some (s', n)"
  using run_returns [OF demo_reachable, of "\<lambda>_. True" 0 send_all "\<lambda>_. 0"] demo_limited by auto

text \<open>C26: With a limited rate a run sends at most as many datagrams as there are tokens, and it costs
  exactly one token for each of them.
\<close>

theorem run_budget:
  assumes "scheduler_reachable s" and "\<not> isUnlimited s" and "run (logged send) s ([], st) = Some (s', ts, st')"
  shows "of_nat (datagrams ts) \<le> max 0 (sc_tokens s) \<and> sc_tokens s' = sc_tokens s - of_nat (datagrams ts)"
  using run_paid [OF scheduler_reachable_ok assms(2,3)] assms(1) by (auto simp: paid_def)

theorem run_budget_witness:
  "\<exists>s' ts n. run (logged send_all) demo_scheduler ([], 0) = Some (s', ts, n) \<and>
     of_nat (datagrams ts) \<le> max 0 (sc_tokens demo_scheduler)"
proof -
  obtain s' ts n where r: "run (logged send_all) demo_scheduler ([], 0) = Some (s', ts, n)"
    using demo_scheduler_run by blast
  then show ?thesis
    using run_budget [OF demo_reachable demo_limited r] by blast
qed

text \<open>While a message waits on an acknowledged lane, Media gets at most three quarters of the burst, and
  never more than three quarters of the tokens there are, as the code computes them.
\<close>

theorem media_reserve:
  assumes "scheduler_reachable s" and "\<not> isUnlimited s" and "run (logged send) s ([], st) = Some (s', ts, st')"
    and "ring_peers (sc_rings s Reliable) \<noteq> [] \<or> ring_peers (sc_rings s Bulk) \<noteq> []"
  shows "4 * datagramsOn Media ts \<le> 3 * sc_burst s \<and> of_nat (datagramsOn Media ts) \<le> max 0 (rnd (rnd (sc_tokens s * 3) / 4))"
proof -
  note ok = scheduler_reachable_ok [OF assms(1)]
  have bound: "of_nat (datagramsOn Media ts) \<le> max 0 (mediaAllowance s)"
    using run_allowed [OF assms(2) mediaAllowance_bounds(1,2) [OF ok] assms(3)] by (auto simp: allowed_def)
  also have "\<dots> \<le> of_nat (3 * sc_burst s) / 4"
    using mediaAllowance_bounds(3) [OF ok assms(4)] by simp
  finally have "(of_nat (4 * datagramsOn Media ts) :: rat) \<le> of_nat (3 * sc_burst s)"
    by simp
  then have "4 * datagramsOn Media ts \<le> 3 * sc_burst s"
    by (simp only: of_nat_le_iff)
  then show ?thesis
    using bound assms(4) by (simp add: mediaAllowance_def)
qed

theorem media_reserve_witness:
  "\<exists>s' ts n. run (logged send_all) demo_scheduler ([], 0) = Some (s', ts, n) \<and>
     4 * datagramsOn Media ts \<le> 3 * sc_burst demo_scheduler"
proof -
  obtain s' ts n where r: "run (logged send_all) demo_scheduler ([], 0) = Some (s', ts, n)"
    using demo_scheduler_run by blast
  have "ring_peers (sc_rings demo_scheduler Reliable) \<noteq> []"
    by (simp add: demo_scheduler_def add_def)
  then show ?thesis
    using media_reserve [OF demo_reachable demo_limited r] r by blast
qed



text \<open>The peers of a lane take turns: as long as each of them has something to send, the one at the
  cursor sends what is left of its quantum, and then each of the others in the order of the ring, and
  so on, until the tokens are gone.
\<close>

theorem round_robin:
  assumes "ring_peers (sc_rings s l) = ps" and "ring_cursor (sc_rings s l) < length ps"
    and "ring_used (sc_rings s l) < Quantum" and "\<not> isUnlimited s" and "l \<noteq> Media"
    and "sc_tokens s = of_nat n" and "n < 2 ^ 53"
  shows "\<exists>s' al'. runLane (logged (\<lambda>l p st. Some (Sent, st))) l s al ([], st) =
    Some (False, s', al',
      map (\<lambda>i. (l, ps ! (((Quantum * ring_cursor (sc_rings s l) + ring_used (sc_rings s l) + i) div Quantum) mod length ps), Sent)) [0..<n], st)"
proof -
  have "ps \<noteq> []" "ring_cursor (sc_rings s l) \<le> length ps" "ring_cursor (sc_rings s l) \<noteq> length ps"
    using assms(2) by auto
  then show ?thesis
    using runLane_robin [OF assms(1) _ _ assms(3-7), of al "[]" st] by (auto simp: turn_of_def)
qed

theorem round_robin_witness:
  "\<exists>s' al'. runLane (logged (\<lambda>l p st. Some (Sent, st))) Reliable (add Reliable 9 (add Reliable 7 (newScheduler 500))) 0 ([], ()) =
    Some (False, s', al', map (\<lambda>i. (Reliable, [7, 9] ! ((i div 4) mod length [7, 9 :: PeerId]), Sent)) [0..<16], ())"
  using round_robin [of "add Reliable 9 (add Reliable 7 (newScheduler 500))" Reliable "[7, 9]" 16 0 "()"] rnd_of_nat [of 16]
  by (simp add: add_def newScheduler_def setRate_def emptyRing_def isUnlimited_def burstOf_def Quantum_def)

end
