(* ===== verification/Mailbox.thy ===== *)
theory Mailbox
  imports Flags PublicTypes Constants "HOL-Library.Sublist"
begin

text \<open>
  \<open>Channel/Mailbox.h\<close>: what application threads hand to the I/O thread, and what it publishes. Every
  critical section of the class is one function on the mailbox. A call that waits on the condition
  variable is two of them: what it does before the wait, and what it does with the mailbox as the wait
  leaves it, which other threads may have changed in any way. The doorbell is rung after the section,
  so a function returns whether it has to be.

  The body of a message is shared in the code and never changed: it is its bytes here.

  The lemmas show that the accounting of the queues is exact, that the lanes are queues, whatever the
  threads do, and that \<open>flush\<close> does not return while something accepted before it still waits.
\<close>

section \<open>State\<close>

datatype Push = Queued | Full | TooLarge | Closed | Stopped

datatype Command = Connect | Accept | Decline | Disconnect | Announce | StopAnnouncing
  | CheckInterface | ResumeReceiving | Shutdown

text \<open>\<open>NoSession\<close> is \<open>Session::None\<close>.\<close>

datatype Session = NoSession | Requested | Pending | Connected

type_synonym PostedCommand = "Command \<times> PeerId"

record Mail =
  mail_tag :: u32
  mail_body :: bytes

record Work =
  work_commands :: "PostedCommand list"
  work_ready :: "PeerId list"

record LaneQueue =
  lq_queue :: "Mail list"
  lq_bytes :: nat

record MailPeer =
  mp_lanes :: "Lane \<Rightarrow> LaneQueue"
  mp_accepted :: u64
  mp_done :: u64
  mp_epoch :: u64
  mp_mediaDropped :: u64
  mp_listed :: bool
  mp_sealed :: bool
  mp_stats :: PeerStats

record Mailbox =
  mb_queueBytes :: nat
  mb_peers :: "(PeerId \<times> MailPeer) list"
  mb_commands :: "PostedCommand list"
  mb_ready :: "PeerId list"
  mb_epochs :: u64
  mb_signalled :: bool
  mb_running :: bool
  mb_discovered :: "PeerInfo list"
  mb_sessions :: "(PeerId \<times> Session) list"

definition emptyLane :: LaneQueue where
  "emptyLane = \<lparr>lq_queue = [], lq_bytes = 0\<rparr>"

definition newMailPeer :: MailPeer where
  "newMailPeer =
     \<lparr>mp_lanes = (\<lambda>_. emptyLane), mp_accepted = 0, mp_done = 0, mp_epoch = 0, mp_mediaDropped = 0,
      mp_listed = False, mp_sealed = False, mp_stats = noStats\<rparr>"

definition newMailbox :: Mailbox where
  "newMailbox =
     \<lparr>mb_queueBytes = DefaultSendQueueBytes, mb_peers = [], mb_commands = [], mb_ready = [], mb_epochs = 0,
      mb_signalled = False, mb_running = True, mb_discovered = [], mb_sessions = []\<rparr>"


section \<open>Any thread\<close>

definition setQueueBytes :: "nat \<Rightarrow> Mailbox \<Rightarrow> Mailbox" where
  "setQueueBytes n m = m\<lparr>mb_queueBytes := n\<rparr>"

definition setRunning :: "bool \<Rightarrow> Mailbox \<Rightarrow> Mailbox" where
  "setRunning running m = m\<lparr>mb_running := running\<rparr>"

definition post :: "Command \<Rightarrow> PeerId \<Rightarrow> Mailbox \<Rightarrow> bool \<times> Mailbox" where
  "post command peer m =
     (\<not> mb_signalled m, m\<lparr>mb_commands := mb_commands m @ [(command, peer)], mb_signalled := True\<rparr>)"

text \<open>\<open>enqueue\<close>, on the entry of the peer it is called with.\<close>

definition enqueuePeer :: "Lane \<Rightarrow> Mail \<Rightarrow> MailPeer \<Rightarrow> MailPeer" where
  "enqueuePeer l mail p =
     (let q = mp_lanes p l;
          sz = length (mail_body mail);
          full = (l = Media \<and> length (lq_queue q) \<ge> MediaQueueMessages);
          q = (if full
               then \<lparr>lq_queue = tl (lq_queue q), lq_bytes = size_minus (lq_bytes q) (length (mail_body (hd (lq_queue q))))\<rparr>
               else q);
          p = (if full then p\<lparr>mp_mediaDropped := mp_mediaDropped p + 1\<rparr> else p);
          q = \<lparr>lq_queue = lq_queue q @ [mail], lq_bytes = lq_bytes q + sz\<rparr>;
          p = p\<lparr>mp_lanes := (mp_lanes p)(l := q)\<rparr>;
          p = (if l \<noteq> Media then p\<lparr>mp_accepted := mp_accepted p + 1\<rparr> else p)
      in p\<lparr>mp_listed := True\<rparr>)"

definition enqueue :: "PeerId \<Rightarrow> MailPeer \<Rightarrow> Lane \<Rightarrow> Mail \<Rightarrow> Mailbox \<Rightarrow> bool \<times> Mailbox" where
  "enqueue pid p l mail m =
     (\<not> mb_signalled m,
      m\<lparr>mb_peers := om_put pid (enqueuePeer l mail p) (mb_peers m),
        mb_ready := (if mp_listed p then mb_ready m else mb_ready m @ [pid]),
        mb_signalled := True\<rparr>)"

definition tooLarge :: "Lane \<Rightarrow> nat \<Rightarrow> bool" where
  "tooLarge l n \<longleftrightarrow> n > (if l = Media then MaxMediaPayload else MaxMessagePayload)"

definition hasRoom :: "Mailbox \<Rightarrow> MailPeer \<Rightarrow> Lane \<Rightarrow> nat \<Rightarrow> bool" where
  "hasRoom m p l sz \<longleftrightarrow> lq_queue (mp_lanes p l) = [] \<or> lq_bytes (mp_lanes p l) + sz \<le> mb_queueBytes m"

text \<open>
  \<open>push\<close> up to the wait: its result, or \<open>Inr\<close> of the epoch of the session it waits in. Then what it
  does with the mailbox when the wait is over.
\<close>

definition pushStart :: "PeerId \<Rightarrow> Lane \<Rightarrow> Mail \<Rightarrow> int \<Rightarrow> Mailbox \<Rightarrow> (Push \<times> bool \<times> Mailbox) + u64" where
  "pushStart peer l mail timeout m =
     (let sz = length (mail_body mail)
      in if tooLarge l sz then Inl (TooLarge, False, m)
         else if \<not> mb_running m then Inl (Stopped, False, m)
         else case map_of (mb_peers m) peer of
                None \<Rightarrow> Inl (Closed, False, m)
              | Some p \<Rightarrow>
                  if mp_sealed p then Inl (Closed, False, m)
                  else if l \<noteq> Media \<and> \<not> hasRoom m p l sz
                  then if timeout \<le> 0 then Inl (Full, False, m) else Inr (mp_epoch p)
                  else Inl (Queued, enqueue peer p l mail m))"

definition pushDone :: "PeerId \<Rightarrow> Lane \<Rightarrow> Mail \<Rightarrow> u64 \<Rightarrow> Mailbox \<Rightarrow> Push \<times> bool \<times> Mailbox" where
  "pushDone peer l mail epoch m =
     (case map_of (mb_peers m) peer of
        None \<Rightarrow> (Closed, False, m)
      | Some p \<Rightarrow>
          if mp_epoch p \<noteq> epoch \<or> mp_sealed p then (Closed, False, m)
          else if \<not> mb_running m then (Stopped, False, m)
          else if \<not> hasRoom m p l (length (mail_body mail)) then (Full, False, m)
          else (Queued, enqueue peer p l mail m))"

definition push :: "PeerId \<Rightarrow> Lane \<Rightarrow> Mail \<Rightarrow> int \<Rightarrow> (Mailbox \<Rightarrow> Mailbox) \<Rightarrow> Mailbox \<Rightarrow> Push \<times> bool \<times> Mailbox" where
  "push peer l mail timeout waited m =
     (case pushStart peer l mail timeout m of
        Inl r \<Rightarrow> r
      | Inr epoch \<Rightarrow> pushDone peer l mail epoch (waited m))"

text \<open>The loop of \<open>pushToAll\<close> over the table: how many took the message, and whether to ring.\<close>

definition takesAll :: "Lane \<Rightarrow> nat \<Rightarrow> Mailbox \<Rightarrow> MailPeer \<Rightarrow> bool" where
  "takesAll l sz m p \<longleftrightarrow> \<not> (mp_sealed p \<or> (l \<noteq> Media \<and> \<not> hasRoom m p l sz))"

fun pushAllLoop :: "Lane \<Rightarrow> Mail \<Rightarrow> (PeerId \<times> MailPeer) list \<Rightarrow> nat \<Rightarrow> bool \<Rightarrow> Mailbox \<Rightarrow> nat \<times> bool \<times> Mailbox" where
  "pushAllLoop l mail [] taken ring m = (taken, ring, m)"
| "pushAllLoop l mail ((pid, p) # ps) taken ring m =
     (if \<not> takesAll l (length (mail_body mail)) m p then pushAllLoop l mail ps taken ring m
      else let (r, m) = enqueue pid p l mail m
           in pushAllLoop l mail ps (taken + 1) (ring \<or> r) m)"

definition pushToAll :: "Lane \<Rightarrow> Mail \<Rightarrow> Mailbox \<Rightarrow> nat \<times> bool \<times> Mailbox" where
  "pushToAll l mail m =
     (if tooLarge l (length (mail_body mail)) then (0, False, m)
      else if \<not> mb_running m then (0, False, m)
      else pushAllLoop l mail (mb_peers m) 0 False m)"

text \<open>\<open>flush\<close>: \<open>Inl\<close> its result at once, or \<open>Inr\<close> what it waits for; then its result when the wait is over.\<close>

definition flushStart :: "PeerId \<Rightarrow> Mailbox \<Rightarrow> bool + u64 \<times> u64" where
  "flushStart peer m =
     (case map_of (mb_peers m) peer of
        None \<Rightarrow> Inl True
      | Some p \<Rightarrow> Inr (mp_epoch p, mp_accepted p))"

definition flushDone :: "PeerId \<Rightarrow> u64 \<times> u64 \<Rightarrow> Mailbox \<Rightarrow> bool" where
  "flushDone peer target m =
     (case map_of (mb_peers m) peer of
        None \<Rightarrow> True
      | Some p \<Rightarrow> mp_epoch p \<noteq> fst target \<or> mp_done p \<ge> snd target)"

definition flush :: "PeerId \<Rightarrow> (Mailbox \<Rightarrow> Mailbox) \<Rightarrow> Mailbox \<Rightarrow> bool" where
  "flush peer waited m =
     (case flushStart peer m of Inl r \<Rightarrow> r | Inr target \<Rightarrow> flushDone peer target (waited m))"

definition seal :: "PeerId \<Rightarrow> Mailbox \<Rightarrow> Mailbox" where
  "seal peer m =
     (case map_of (mb_peers m) peer of
        None \<Rightarrow> m
      | Some p \<Rightarrow> m\<lparr>mb_peers := om_put peer (p\<lparr>mp_sealed := True, mp_lanes := (mp_lanes p)(Media := emptyLane)\<rparr>) (mb_peers m),
                     mb_sessions := om_put peer Pending (mb_sessions m)\<rparr>)"

definition isDiscovered :: "PeerId \<Rightarrow> Mailbox \<Rightarrow> bool" where
  "isDiscovered peer m \<longleftrightarrow> list_ex (\<lambda>i. peer_id i = peer) (mb_discovered m)"

definition session :: "PeerId \<Rightarrow> Mailbox \<Rightarrow> Session" where
  "session peer m = (case map_of (mb_sessions m) peer of None \<Rightarrow> NoSession | Some s \<Rightarrow> s)"

definition connected :: "Mailbox \<Rightarrow> PeerId list" where
  "connected m = map fst (filter (\<lambda>(k, s). s = Connected) (mb_sessions m))"

definition stats :: "PeerId \<Rightarrow> Mailbox \<Rightarrow> PeerStats option" where
  "stats peer m =
     (case map_of (mb_peers m) peer of
        None \<Rightarrow> None
      | Some p \<Rightarrow>
          let st = (mp_stats p)\<lparr>ps_mediaDropped := mp_mediaDropped p\<rparr>
          in Some (foldl (\<lambda>st l. st\<lparr>ps_bytesQueued := ps_bytesQueued st + of_nat (lq_bytes (mp_lanes p l))\<rparr>)
                     st [Control, Reliable, Bulk, Media]))"


section \<open>I/O thread\<close>

definition unlist :: "Mailbox \<Rightarrow> PeerId \<Rightarrow> Mailbox" where
  "unlist m peer = m\<lparr>mb_peers := om_modify peer (\<lambda>p. p\<lparr>mp_listed := False\<rparr>) (mb_peers m)\<rparr>"

definition drain :: "Mailbox \<Rightarrow> Work \<times> Mailbox" where
  "drain m =
     (let work = \<lparr>work_commands = mb_commands m, work_ready = mb_ready m\<rparr>;
          m = m\<lparr>mb_commands := [], mb_ready := []\<rparr>;
          m = foldl unlist m (work_ready work)
      in (work, m\<lparr>mb_signalled := False\<rparr>))"

definition take_mail :: "PeerId \<Rightarrow> Lane \<Rightarrow> Mailbox \<Rightarrow> Mail option \<times> Mailbox" where
  "take_mail peer l m =
     (case map_of (mb_peers m) peer of
        None \<Rightarrow> (None, m)
      | Some p \<Rightarrow>
          (case lq_queue (mp_lanes p l) of
             [] \<Rightarrow> (None, m)
           | mail # rest \<Rightarrow>
               let q = \<lparr>lq_queue = rest, lq_bytes = size_minus (lq_bytes (mp_lanes p l)) (length (mail_body mail))\<rparr>
               in (Some mail, m\<lparr>mb_peers := om_put peer (p\<lparr>mp_lanes := (mp_lanes p)(l := q)\<rparr>) (mb_peers m)\<rparr>)))"

definition settle :: "PeerId \<Rightarrow> Mailbox \<Rightarrow> bool \<times> Mailbox" where
  "settle peer m =
     (case map_of (mb_peers m) peer of
        None \<Rightarrow> (True, m)
      | Some p \<Rightarrow>
          if lq_queue (mp_lanes p Reliable) \<noteq> [] \<or> lq_queue (mp_lanes p Bulk) \<noteq> [] then (False, m)
          else if mp_done p = mp_accepted p then (True, m)
          else (True, m\<lparr>mb_peers := om_put peer (p\<lparr>mp_done := mp_accepted p\<rparr>) (mb_peers m)\<rparr>))"

definition open_mail :: "PeerId \<Rightarrow> Mailbox \<Rightarrow> Mailbox" where
  "open_mail peer m =
     (let m = m\<lparr>mb_epochs := mb_epochs m + 1\<rparr>
      in m\<lparr>mb_peers := om_put peer (newMailPeer\<lparr>mp_epoch := mb_epochs m\<rparr>) (mb_peers m),
           mb_sessions := om_put peer Connected (mb_sessions m)\<rparr>)"

definition close_mail :: "PeerId \<Rightarrow> Mailbox \<Rightarrow> Mailbox" where
  "close_mail peer m =
     m\<lparr>mb_peers := om_erase peer (mb_peers m), mb_sessions := om_erase peer (mb_sessions m),
       mb_ready := filter (\<lambda>p. p \<noteq> peer) (mb_ready m)\<rparr>"

definition publishSession :: "PeerId \<Rightarrow> Session \<Rightarrow> Mailbox \<Rightarrow> Mailbox" where
  "publishSession peer s m = m\<lparr>mb_sessions := om_put peer s (mb_sessions m)\<rparr>"

definition publishDiscovered :: "PeerInfo list \<Rightarrow> Mailbox \<Rightarrow> Mailbox" where
  "publishDiscovered ps m = m\<lparr>mb_discovered := ps\<rparr>"

definition publishStats :: "PeerId \<Rightarrow> PeerStats \<Rightarrow> Mailbox \<Rightarrow> Mailbox" where
  "publishStats peer st m = m\<lparr>mb_peers := om_modify peer (\<lambda>p. p\<lparr>mp_stats := st\<rparr>) (mb_peers m)\<rparr>"


section \<open>Invariant\<close>

text \<open>
  The bytes a lane counts are the bytes that wait in it; a lane of Media holds at most
  \<open>MediaQueueMessages\<close>; a peer that is marked as listed is; and while work waits the doorbell counts as
  rung.
\<close>

definition lane_ok :: "Lane \<Rightarrow> LaneQueue \<Rightarrow> bool" where
  "lane_ok l q \<longleftrightarrow> lq_bytes q = sum_list (map (length \<circ> mail_body) (lq_queue q)) \<and>
     (l = Media \<longrightarrow> length (lq_queue q) \<le> MediaQueueMessages)"

definition peer_ok :: "MailPeer \<Rightarrow> bool" where
  "peer_ok p \<longleftrightarrow> (\<forall>l. lane_ok l (mp_lanes p l))"

definition mbox_ok :: "Mailbox \<Rightarrow> bool" where
  "mbox_ok m \<longleftrightarrow> om_ok (mb_peers m) \<and> om_ok (mb_sessions m) \<and>
     (\<forall>k p. map_of (mb_peers m) k = Some p \<longrightarrow> peer_ok p \<and> (mp_listed p \<longrightarrow> k \<in> set (mb_ready m))) \<and>
     (mb_commands m \<noteq> [] \<or> mb_ready m \<noteq> [] \<longrightarrow> mb_signalled m)"

lemma lane_ok_empty: "lane_ok l emptyLane"
  by (simp add: lane_ok_def emptyLane_def)

lemma peer_ok_new: "peer_ok (newMailPeer\<lparr>mp_epoch := e\<rparr>)"
  by (simp add: peer_ok_def newMailPeer_def lane_ok_empty)

lemma lane_ok_tl:
  assumes "lane_ok l q" and "lq_queue q = mail # rest"
  shows "lane_ok l \<lparr>lq_queue = rest, lq_bytes = size_minus (lq_bytes q) (length (mail_body mail))\<rparr>"
  using assms by (auto simp: lane_ok_def)

lemma enqueuePeer_lane:
  "mp_lanes (enqueuePeer l mail p) l' =
   (if l' = l then
      (let q = mp_lanes p l;
           q = (if l = Media \<and> length (lq_queue q) \<ge> MediaQueueMessages
                then \<lparr>lq_queue = tl (lq_queue q), lq_bytes = size_minus (lq_bytes q) (length (mail_body (hd (lq_queue q))))\<rparr>
                else q)
       in \<lparr>lq_queue = lq_queue q @ [mail], lq_bytes = lq_bytes q + length (mail_body mail)\<rparr>)
    else mp_lanes p l')"
  by (simp add: enqueuePeer_def Let_def)

lemma lane_ok_snoc:
  assumes "lane_ok l q" and "l = Media \<Longrightarrow> length (lq_queue q) < MediaQueueMessages"
  shows "lane_ok l \<lparr>lq_queue = lq_queue q @ [mail], lq_bytes = lq_bytes q + length (mail_body mail)\<rparr>"
  using assms by (auto simp: lane_ok_def)

lemma peer_ok_enqueue:
  assumes "peer_ok p"
  shows "peer_ok (enqueuePeer l mail p)"
  unfolding peer_ok_def
proof
  fix l'
  have ok: "lane_ok l (mp_lanes p l)" "lane_ok l' (mp_lanes p l')"
    using assms by (simp_all add: peer_ok_def)
  show "lane_ok l' (mp_lanes (enqueuePeer l mail p) l')"
  proof (cases "l' = l")
    case True
    show ?thesis
    proof (cases "l = Media \<and> length (lq_queue (mp_lanes p l)) \<ge> MediaQueueMessages")
      case full: True
      then obtain oldest rest where q: "lq_queue (mp_lanes p l) = oldest # rest"
        by (cases "lq_queue (mp_lanes p l)") (auto simp: MediaQueueMessages_def)
      let ?q = "\<lparr>lq_queue = rest, lq_bytes = size_minus (lq_bytes (mp_lanes p l)) (length (mail_body oldest))\<rparr>"
      have "lane_ok l ?q" "length (lq_queue ?q) < MediaQueueMessages"
        using lane_ok_tl [OF ok(1) q] ok(1) full q by (simp_all add: lane_ok_def)
      then show ?thesis
        using True full q lane_ok_snoc [of l ?q mail] by (simp add: enqueuePeer_lane Let_def)
    next
      case False
      then show ?thesis
        using True lane_ok_snoc [OF ok(1), of mail] by (auto simp: enqueuePeer_lane Let_def not_le)
    qed
  next
    case False
    then show ?thesis
      using ok(2) by (simp add: enqueuePeer_lane)
  qed
qed

lemma enqueuePeer_listed [simp]: "mp_listed (enqueuePeer l mail p)"
  by (simp add: enqueuePeer_def Let_def)

lemma mbox_ok_enqueue:
  assumes "mbox_ok m" and "peer_ok p" and "mp_listed p \<Longrightarrow> k \<in> set (mb_ready m)"
  shows "mbox_ok (snd (enqueue k p l mail m))"
  using assms by (auto simp: mbox_ok_def enqueue_def om_ok_put peer_ok_enqueue)

lemma mbox_ok_entry: "mbox_ok m \<Longrightarrow> map_of (mb_peers m) k = Some p \<Longrightarrow> peer_ok p \<and> (mp_listed p \<longrightarrow> k \<in> set (mb_ready m))"
  by (simp add: mbox_ok_def)

text \<open>An entry that is changed, and stays as listed as it was.\<close>

lemma mbox_ok_update:
  assumes "mbox_ok m" and "map_of (mb_peers m) k = Some p" and "peer_ok p'" and "mp_listed p' = mp_listed p"
  shows "mbox_ok (m\<lparr>mb_peers := om_put k p' (mb_peers m)\<rparr>)"
  using assms by (auto simp: mbox_ok_def om_ok_put)

lemma mbox_ok_new: "mbox_ok newMailbox"
  by (simp add: mbox_ok_def newMailbox_def)

lemma mbox_ok_flags:
  assumes "mbox_ok m"
  shows "mbox_ok (setQueueBytes n m)" "mbox_ok (setRunning r m)" "mbox_ok (snd (post c k m))"
    "mbox_ok (publishSession k s m)" "mbox_ok (publishDiscovered ps m)"
  using assms by (simp_all add: mbox_ok_def setQueueBytes_def setRunning_def post_def publishSession_def
      publishDiscovered_def om_ok_put)

lemma mbox_ok_pushStart:
  assumes "mbox_ok m" and "pushStart k l mail t m = Inl (r, ring, m')"
  shows "mbox_ok m'"
proof -
  have "mbox_ok (snd (enqueue k p l mail m))" if "map_of (mb_peers m) k = Some p" for p
    using mbox_ok_entry [OF assms(1) that] by (intro mbox_ok_enqueue [OF assms(1)]) auto
  then show ?thesis
    using assms by (auto simp: pushStart_def Let_def split: if_splits option.splits)
qed

lemma mbox_ok_pushDone:
  assumes "mbox_ok m" and "pushDone k l mail e m = (r, ring, m')"
  shows "mbox_ok m'"
proof -
  have "mbox_ok (snd (enqueue k p l mail m))" if "map_of (mb_peers m) k = Some p" for p
    using mbox_ok_entry [OF assms(1) that] by (intro mbox_ok_enqueue [OF assms(1)]) auto
  then show ?thesis
    using assms by (auto simp: pushDone_def split: if_splits option.splits)
qed

lemma enqueue_other: "k' \<noteq> k \<Longrightarrow> map_of (mb_peers (snd (enqueue k p l mail m))) k' = map_of (mb_peers m) k'"
  by (simp add: enqueue_def)

lemma enqueue_self: "map_of (mb_peers (snd (enqueue k p l mail m))) k = Some (enqueuePeer l mail p)"
  by (simp add: enqueue_def)

lemma enqueue_limit [simp]: "mb_queueBytes (snd (enqueue k p l mail m)) = mb_queueBytes m"
  by (simp add: enqueue_def)

text \<open>What the loop of \<open>pushToAll\<close> does: every peer that takes the message has it at the end of its lane.\<close>

lemma pushAllLoop_spec:
  assumes "mbox_ok m" and "\<forall>(k, p) \<in> set ps. map_of (mb_peers m) k = Some p" and "distinct (map fst ps)"
    and "pushAllLoop l mail ps n r m = (n', r', m')"
  shows "mbox_ok m' \<and>
    (\<forall>k. map_of (mb_peers m') k =
       (case map_of ps k of
          Some p \<Rightarrow> Some (if takesAll l (length (mail_body mail)) m p then enqueuePeer l mail p else p)
        | None \<Rightarrow> map_of (mb_peers m) k)) \<and>
    n' = n + length (filter (\<lambda>(k, p). takesAll l (length (mail_body mail)) m p) ps)"
  using assms
proof (induction ps arbitrary: n r m)
  case Nil
  then show ?case by simp
next
  case (Cons kp ps)
  obtain k p where kp: "kp = (k, p)"
    by fastforce
  have entry: "map_of (mb_peers m) k = Some p" and fresh: "k \<notin> set (map fst ps)"
    using Cons.prems(2,3) kp by auto
  show ?case
  proof (cases "takesAll l (length (mail_body mail)) m p")
    case False
    then show ?thesis
      using Cons.IH [of m n r] Cons.prems kp fresh entry
      by (auto simp: map_of_eq_None_iff split: option.splits)
  next
    case True
    let ?m = "snd (enqueue k p l mail m)" and ?r = "fst (enqueue k p l mail m)"
    have ok: "mbox_ok ?m"
      using mbox_ok_entry [OF Cons.prems(1) entry] by (intro mbox_ok_enqueue [OF Cons.prems(1)]) auto
    have same: "takesAll l' n' ?m p' = takesAll l' n' m p'" for l' n' p'
      by (simp add: takesAll_def hasRoom_def)
    have rest: "\<forall>(k', p') \<in> set ps. map_of (mb_peers ?m) k' = Some p'"
    proof clarify
      fix k' p' assume "(k', p') \<in> set ps"
      moreover from this have "k' \<noteq> k"
        using fresh by force
      ultimately show "map_of (mb_peers ?m) k' = Some p'"
        using Cons.prems(2) by (auto simp: enqueue_other)
    qed
    have "pushAllLoop l mail ps (n + 1) (r \<or> ?r) ?m = (n', r', m')"
      using Cons.prems(4) True kp by (simp add: split_beta)
    from Cons.IH [OF ok rest _ this] Cons.prems(3)
    have IH: "mbox_ok m'" "n' = n + 1 + length (filter (\<lambda>(k, p). takesAll l (length (mail_body mail)) m p) ps)"
      "\<And>k'. map_of (mb_peers m') k' = (case map_of ps k' of
         Some p \<Rightarrow> Some (if takesAll l (length (mail_body mail)) m p then enqueuePeer l mail p else p)
       | None \<Rightarrow> map_of (mb_peers ?m) k')"
      by (simp_all only: same) simp_all
    have none: "map_of ps k = None"
      using fresh by (simp add: map_of_eq_None_iff)
    have "map_of (mb_peers m') k' = (case map_of (kp # ps) k' of
         Some p \<Rightarrow> Some (if takesAll l (length (mail_body mail)) m p then enqueuePeer l mail p else p)
       | None \<Rightarrow> map_of (mb_peers m) k')" for k'
      using True none by (cases "k' = k"; cases "map_of ps k'") (simp_all add: IH(3) kp enqueue_self enqueue_other)
    then show ?thesis
      using IH(1,2) True kp by simp
  qed
qed

lemma mbox_ok_pushToAll:
  assumes "mbox_ok m" and "pushToAll l mail m = (n, ring, m')"
  shows "mbox_ok m'"
proof -
  have "distinct (map fst (mb_peers m))"
    using assms(1) om_ok_distinct [of "mb_peers m"] by (simp add: mbox_ok_def om_keys_def)
  moreover from this have "\<forall>(k, p) \<in> set (mb_peers m). map_of (mb_peers m) k = Some p"
    by auto
  ultimately show ?thesis
    using assms pushAllLoop_spec [of m "mb_peers m"] by (auto simp: pushToAll_def split: if_splits)
qed


lemma mbox_ok_seal: "mbox_ok m \<Longrightarrow> mbox_ok (seal k m)"
proof -
  assume ok: "mbox_ok m"
  have "mbox_ok (m\<lparr>mb_peers := om_put k (p\<lparr>mp_sealed := True, mp_lanes := (mp_lanes p)(Media := emptyLane)\<rparr>) (mb_peers m)\<rparr>)"
    if "map_of (mb_peers m) k = Some p" for p
    using mbox_ok_entry [OF ok that] by (intro mbox_ok_update [OF ok that]) (auto simp: peer_ok_def lane_ok_empty)
  then show ?thesis
    using ok by (auto simp: seal_def mbox_ok_def om_ok_put split: option.splits)
qed

lemma take_mail_cases:
  obtains "take_mail k l m = (None, m)"
  | p mail rest where "map_of (mb_peers m) k = Some p" "lq_queue (mp_lanes p l) = mail # rest"
    "take_mail k l m = (Some mail, m\<lparr>mb_peers := om_put k (p\<lparr>mp_lanes := (mp_lanes p)(l :=
        \<lparr>lq_queue = rest, lq_bytes = size_minus (lq_bytes (mp_lanes p l)) (length (mail_body mail))\<rparr>)\<rparr>) (mb_peers m)\<rparr>)"
proof (cases "map_of (mb_peers m) k")
  case (Some p)
  then show ?thesis
    by (cases "lq_queue (mp_lanes p l)") (auto simp: take_mail_def Let_def intro: that)
qed (auto simp: take_mail_def intro: that)

lemma mbox_ok_take: "mbox_ok m \<Longrightarrow> mbox_ok (snd (take_mail k l m))"
proof -
  assume ok: "mbox_ok m"
  show ?thesis
  proof (cases rule: take_mail_cases [of k l m])
    case (2 p mail rest)
    have "peer_ok (p\<lparr>mp_lanes := (mp_lanes p)(l :=
        \<lparr>lq_queue = rest, lq_bytes = size_minus (lq_bytes (mp_lanes p l)) (length (mail_body mail))\<rparr>)\<rparr>)"
      using mbox_ok_entry [OF ok 2(1)] lane_ok_tl [OF _ 2(2)] by (simp add: peer_ok_def)
    then show ?thesis
      using mbox_ok_update [OF ok 2(1)] 2(3) by simp
  qed (simp add: ok)
qed

lemma mbox_ok_settle: "mbox_ok m \<Longrightarrow> mbox_ok (snd (settle k m))"
proof -
  assume ok: "mbox_ok m"
  have "mbox_ok (m\<lparr>mb_peers := om_put k (p\<lparr>mp_done := mp_accepted p\<rparr>) (mb_peers m)\<rparr>)"
    if "map_of (mb_peers m) k = Some p" for p
    using mbox_ok_entry [OF ok that] by (intro mbox_ok_update [OF ok that]) (auto simp: peer_ok_def)
  then show ?thesis
    using ok by (auto simp: settle_def split: option.splits)
qed

lemma mbox_ok_open: "mbox_ok m \<Longrightarrow> mbox_ok (open_mail k m)"
  using peer_ok_new by (auto simp: mbox_ok_def open_mail_def Let_def om_ok_put newMailPeer_def)

lemma mbox_ok_close: "mbox_ok m \<Longrightarrow> mbox_ok (close_mail k m)"
  by (auto simp: mbox_ok_def close_mail_def om_ok_erase filter_empty_conv)

lemma mbox_ok_publishStats: "mbox_ok m \<Longrightarrow> mbox_ok (publishStats k st m)"
  by (auto simp: mbox_ok_def publishStats_def peer_ok_def)

lemma foldl_unlist:
  "mb_ready (foldl unlist m ks) = mb_ready m" "mb_commands (foldl unlist m ks) = mb_commands m"
  "om_ok (mb_peers (foldl unlist m ks)) = om_ok (mb_peers m)" "mb_sessions (foldl unlist m ks) = mb_sessions m"
  "mb_signalled (foldl unlist m ks) = mb_signalled m"
  "map_of (mb_peers (foldl unlist m ks)) k =
     map_option (\<lambda>p. if k \<in> set ks then p\<lparr>mp_listed := False\<rparr> else p) (map_of (mb_peers m) k)"
  by (induction ks arbitrary: m) (auto simp: unlist_def option.map_comp option.map_ident comp_def cong: if_cong)

lemma drain_spec:
  "drain m = (work, m') \<Longrightarrow>
   work_commands work = mb_commands m \<and> work_ready work = mb_ready m \<and> mb_commands m' = [] \<and> mb_ready m' = [] \<and>
   \<not> mb_signalled m' \<and>
   map_of (mb_peers m') k = map_option (\<lambda>p. if k \<in> set (mb_ready m) then p\<lparr>mp_listed := False\<rparr> else p) (map_of (mb_peers m) k)"
  by (auto simp: drain_def Let_def foldl_unlist)

lemma mbox_ok_drain:
  assumes "mbox_ok m"
  shows "mbox_ok (snd (drain m))"
proof -
  obtain work m' where d: "drain m = (work, m')"
    by fastforce
  have "peer_ok p' \<and> \<not> mp_listed p'" if found: "map_of (mb_peers m') k = Some p'" for k p'
  proof -
    obtain p where p: "map_of (mb_peers m) k = Some p"
      and p': "p' = (if k \<in> set (mb_ready m) then p\<lparr>mp_listed := False\<rparr> else p)"
      using drain_spec [OF d, of k] found by (cases "map_of (mb_peers m) k") auto
    show ?thesis
      using mbox_ok_entry [OF assms p] by (cases "k \<in> set (mb_ready m)") (auto simp: p' peer_ok_def)
  qed
  moreover have "om_ok (mb_peers m')" "om_ok (mb_sessions m')"
    using assms d by (auto simp: drain_def Let_def foldl_unlist mbox_ok_def)
  ultimately show ?thesis
    using drain_spec [OF d] d by (auto simp: mbox_ok_def)
qed


section \<open>Histories\<close>

text \<open>
  What was pushed into and taken out of each lane of each peer since its session was opened. A run of
  the mailbox is any sequence of critical sections, from any threads.
\<close>

type_synonym history = "PeerId \<Rightarrow> Lane \<Rightarrow> Mail list"

definition record_mail :: "PeerId \<Rightarrow> Lane \<Rightarrow> Mail \<Rightarrow> history \<Rightarrow> history" where
  "record_mail k l mail h = h(k := (h k)(l := h k l @ [mail]))"

definition forget :: "PeerId \<Rightarrow> history \<Rightarrow> history" where
  "forget k h = h(k := (\<lambda>_. []))"

definition forgetMedia :: "PeerId \<Rightarrow> history \<Rightarrow> history" where
  "forgetMedia k h = h(k := (h k)(Media := []))"

definition tookAll :: "Lane \<Rightarrow> Mail \<Rightarrow> Mailbox \<Rightarrow> PeerId \<Rightarrow> bool" where
  "tookAll l mail m k \<longleftrightarrow> \<not> tooLarge l (length (mail_body mail)) \<and> mb_running m \<and>
     (\<exists>p. map_of (mb_peers m) k = Some p \<and> takesAll l (length (mail_body mail)) m p)"

inductive mailbox_run :: "Mailbox \<Rightarrow> history \<Rightarrow> history \<Rightarrow> bool" where
  start: "mailbox_run newMailbox (\<lambda>_ _. []) (\<lambda>_ _. [])"
| pushed: "mailbox_run m P T \<Longrightarrow> pushStart k l mail t m = Inl (r, ring, m') \<Longrightarrow>
    mailbox_run m' (if r = Queued then record_mail k l mail P else P) T"
| pushed_later: "mailbox_run m P T \<Longrightarrow> pushDone k l mail e m = (r, ring, m') \<Longrightarrow> l \<noteq> Media \<Longrightarrow>
    mailbox_run m' (if r = Queued then record_mail k l mail P else P) T"
| pushed_all: "mailbox_run m P T \<Longrightarrow> pushToAll l mail m = (n, ring, m') \<Longrightarrow>
    mailbox_run m' (\<lambda>k. if tookAll l mail m k then record_mail k l mail P k else P k) T"
| taken: "mailbox_run m P T \<Longrightarrow> take_mail k l m = (x, m') \<Longrightarrow>
    mailbox_run m' P (case x of None \<Rightarrow> T | Some mail \<Rightarrow> record_mail k l mail T)"
| sealed: "mailbox_run m P T \<Longrightarrow> mailbox_run (seal k m) (forgetMedia k P) (forgetMedia k T)"
| opened: "mailbox_run m P T \<Longrightarrow> mailbox_run (open_mail k m) (forget k P) (forget k T)"
| closed: "mailbox_run m P T \<Longrightarrow> mailbox_run (close_mail k m) (forget k P) (forget k T)"
| drained: "mailbox_run m P T \<Longrightarrow> drain m = (work, m') \<Longrightarrow> mailbox_run m' P T"
| settled: "mailbox_run m P T \<Longrightarrow> settle k m = (r, m') \<Longrightarrow> mailbox_run m' P T"
| posted: "mailbox_run m P T \<Longrightarrow> post c k m = (ring, m') \<Longrightarrow> mailbox_run m' P T"
| limited: "mailbox_run m P T \<Longrightarrow> mailbox_run (setQueueBytes n m) P T"
| running: "mailbox_run m P T \<Longrightarrow> mailbox_run (setRunning b m) P T"
| session: "mailbox_run m P T \<Longrightarrow> mailbox_run (publishSession k s m) P T"
| discovered: "mailbox_run m P T \<Longrightarrow> mailbox_run (publishDiscovered ps m) P T"
| stats: "mailbox_run m P T \<Longrightarrow> mailbox_run (publishStats k st m) P T"

text \<open>
  The lanes are queues: what was pushed is what was taken and what waits, in this order; of Media,
  some may be missing. An entry counts what it accepted, and what of that is done.
\<close>

definition queue_ok :: "MailPeer \<Rightarrow> (Lane \<Rightarrow> Mail list) \<Rightarrow> (Lane \<Rightarrow> Mail list) \<Rightarrow> bool" where
  "queue_ok p P T \<longleftrightarrow>
     (\<forall>l. l \<noteq> Media \<longrightarrow> P l = T l @ lq_queue (mp_lanes p l)) \<and>
     subseq (T Media @ lq_queue (mp_lanes p Media)) (P Media)"

definition acceptedCount :: "(Lane \<Rightarrow> Mail list) \<Rightarrow> nat" where
  "acceptedCount P = length (P Control) + length (P Reliable) + length (P Bulk)"

definition count_ok :: "MailPeer \<Rightarrow> (Lane \<Rightarrow> Mail list) \<Rightarrow> bool" where
  "count_ok p P \<longleftrightarrow> mp_accepted p = of_nat (acceptedCount P) \<and>
     (\<exists>d \<le> acceptedCount P. mp_done p = of_nat d \<and>
        (d = acceptedCount P \<longrightarrow> lq_queue (mp_lanes p Reliable) = [] \<and> lq_queue (mp_lanes p Bulk) = []))"

definition history_ok :: "Mailbox \<Rightarrow> history \<Rightarrow> history \<Rightarrow> bool" where
  "history_ok m P T \<longleftrightarrow>
     (\<forall>k. case map_of (mb_peers m) k of
        None \<Rightarrow> P k = (\<lambda>_. []) \<and> T k = (\<lambda>_. [])
      | Some p \<Rightarrow> queue_ok p (P k) (T k) \<and> count_ok p (P k))"

lemma history_ok_at:
  "history_ok m P T \<Longrightarrow> map_of (mb_peers m) k = Some p \<Longrightarrow> queue_ok p (P k) (T k) \<and> count_ok p (P k)"
  by (auto simp: history_ok_def split: option.splits dest: spec [of _ k])

text \<open>A change of one entry and of the histories of its peer.\<close>

lemma history_ok_update:
  assumes "history_ok m P T" and "mb_peers m' = om_put k p' (mb_peers m)"
    and "queue_ok p' (P' k) (T' k)" and "count_ok p' (P' k)"
    and "\<And>k'. k' \<noteq> k \<Longrightarrow> P' k' = P k' \<and> T' k' = T k'"
  shows "history_ok m' P' T'"
  unfolding history_ok_def
proof
  fix k'
  show "case map_of (mb_peers m') k' of None \<Rightarrow> P' k' = (\<lambda>_. []) \<and> T' k' = (\<lambda>_. [])
    | Some p \<Rightarrow> queue_ok p (P' k') (T' k') \<and> count_ok p (P' k')"
  proof (cases "k' = k")
    case False
    then show ?thesis
      using spec [OF assms(1) [unfolded history_ok_def], of k'] assms(2) assms(5) [OF False]
      by (cases "map_of (mb_peers m) k'") simp_all
  qed (use assms(2-4) in simp)
qed

lemma queue_ok_enqueue:
  assumes "queue_ok p P T" and "peer_ok p"
  shows "queue_ok (enqueuePeer l mail p) (P(l := P l @ [mail])) T"
proof (cases "l = Media")
  case False
  then show ?thesis
    using assms by (auto simp: queue_ok_def enqueuePeer_lane Let_def)
next
  case True
  let ?q = "lq_queue (mp_lanes p Media)"
  have sub: "subseq (T Media @ ?q) (P Media)"
    using assms(1) by (simp add: queue_ok_def)
  have "subseq (T Media @ tl ?q) (P Media)"
    by (rule subseq_order.trans [OF _ sub]) (cases ?q; simp add: subseq_append' list_emb_Cons)
  then have "subseq ((T Media @ (if length ?q \<ge> MediaQueueMessages then tl ?q else ?q)) @ [mail]) (P Media @ [mail])"
    using sub by (intro list_emb_append_mono) auto
  then show ?thesis
    using True assms(1) by (auto simp: queue_ok_def enqueuePeer_lane Let_def)
qed


lemma count_ok_enqueue:
  assumes "count_ok p P"
  shows "count_ok (enqueuePeer l mail p) (P(l := P l @ [mail]))"
proof (cases "l = Media")
  case True
  then have "acceptedCount (P(l := P l @ [mail])) = acceptedCount P"
    by (simp add: acceptedCount_def)
  then show ?thesis
    using assms True by (simp add: count_ok_def enqueuePeer_lane) (simp add: enqueuePeer_def Let_def)
next
  case False
  then have n: "acceptedCount (P(l := P l @ [mail])) = Suc (acceptedCount P)"
    by (cases l) (simp_all add: acceptedCount_def)
  have f: "mp_accepted (enqueuePeer l mail p) = mp_accepted p + 1" "mp_done (enqueuePeer l mail p) = mp_done p"
    using False by (simp_all add: enqueuePeer_def Let_def)
  obtain d where "d \<le> acceptedCount P" "mp_done p = of_nat d"
    using assms by (auto simp: count_ok_def)
  then show ?thesis
    unfolding count_ok_def n f using assms by (intro conjI exI [of _ d]) (auto simp: count_ok_def)
qed

lemma history_ok_enqueue:
  assumes "history_ok m P T" and "mbox_ok m" and "map_of (mb_peers m) k = Some p"
  shows "history_ok (snd (enqueue k p l mail m)) (record_mail k l mail P) T"
proof (rule history_ok_update [OF assms(1)])
  show "mb_peers (snd (enqueue k p l mail m)) = om_put k (enqueuePeer l mail p) (mb_peers m)"
    by (simp add: enqueue_def)
  show "queue_ok (enqueuePeer l mail p) (record_mail k l mail P k) (T k)"
    using history_ok_at [OF assms(1,3)] mbox_ok_entry [OF assms(2,3)] queue_ok_enqueue by (simp add: record_mail_def)
  show "count_ok (enqueuePeer l mail p) (record_mail k l mail P k)"
    using history_ok_at [OF assms(1,3)] count_ok_enqueue by (simp add: record_mail_def)
qed (simp add: record_mail_def)

lemma history_ok_peers: "mb_peers m' = mb_peers m \<Longrightarrow> history_ok m' P T = history_ok m P T"
  by (simp add: history_ok_def)

lemma history_ok_push:
  assumes "history_ok m P T" and "mbox_ok m"
  shows "pushStart k l mail t m = Inl (r, ring, m') \<Longrightarrow> history_ok m' (if r = Queued then record_mail k l mail P else P) T"
    and "pushDone k l mail e m = (r, ring, m') \<Longrightarrow> history_ok m' (if r = Queued then record_mail k l mail P else P) T"
  using assms(1) history_ok_enqueue [OF assms, of k _ l mail]
  by (auto simp: pushStart_def pushDone_def Let_def split: if_splits option.splits)

lemma history_ok_pushToAll:
  assumes "history_ok m P T" and "mbox_ok m" and "pushToAll l mail m = (n, ring, m')"
  shows "history_ok m' (\<lambda>k. if tookAll l mail m k then record_mail k l mail P k else P k) T"
proof (cases "tooLarge l (length (mail_body mail)) \<or> \<not> mb_running m")
  case True
  then show ?thesis
    using assms by (auto simp: pushToAll_def tookAll_def split: if_splits)
next
  case False
  then have loop: "pushAllLoop l mail (mb_peers m) 0 False m = (n, ring, m')"
    using assms(3) by (simp add: pushToAll_def)
  have "distinct (map fst (mb_peers m))"
    using assms(2) om_ok_distinct [of "mb_peers m"] by (simp add: mbox_ok_def om_keys_def)
  moreover from this have "\<forall>(k, p) \<in> set (mb_peers m). map_of (mb_peers m) k = Some p"
    by auto
  ultimately have look: "map_of (mb_peers m') k =
      (case map_of (mb_peers m) k of
         Some p \<Rightarrow> Some (if takesAll l (length (mail_body mail)) m p then enqueuePeer l mail p else p) | None \<Rightarrow> None)" for k
    using pushAllLoop_spec [OF assms(2) _ _ loop] by (simp split: option.splits)
  show ?thesis
    unfolding history_ok_def
  proof
    fix k
    show "case map_of (mb_peers m') k of None \<Rightarrow> (if tookAll l mail m k then record_mail k l mail P k else P k) = (\<lambda>_. []) \<and> T k = (\<lambda>_. [])
      | Some p \<Rightarrow> queue_ok p (if tookAll l mail m k then record_mail k l mail P k else P k) (T k) \<and>
          count_ok p (if tookAll l mail m k then record_mail k l mail P k else P k)"
    proof (cases "map_of (mb_peers m) k")
      case None
      then show ?thesis
        using spec [OF assms(1) [unfolded history_ok_def], of k] by (simp add: look tookAll_def)
    next
      case (Some p)
      then show ?thesis
        using history_ok_at [OF assms(1) Some] mbox_ok_entry [OF assms(2) Some] False
        by (simp add: look tookAll_def record_mail_def queue_ok_enqueue count_ok_enqueue)
    qed
  qed
qed

lemma history_ok_take:
  assumes "history_ok m P T" and "take_mail k l m = (x, m')"
  shows "history_ok m' P (case x of None \<Rightarrow> T | Some mail \<Rightarrow> record_mail k l mail T)"
proof (cases rule: take_mail_cases [of k l m])
  case 1
  then show ?thesis
    using assms by auto
next
  case (2 p mail rest)
  let ?p = "p\<lparr>mp_lanes := (mp_lanes p)(l :=
      \<lparr>lq_queue = rest, lq_bytes = size_minus (lq_bytes (mp_lanes p l)) (length (mail_body mail))\<rparr>)\<rparr>"
  have x: "x = Some mail" "m' = m\<lparr>mb_peers := om_put k ?p (mb_peers m)\<rparr>"
    using assms(2) 2(3) by auto
  have at: "queue_ok p (P k) (T k)" "count_ok p (P k)"
    using history_ok_at [OF assms(1) 2(1)] by auto
  have "history_ok m' P (record_mail k l mail T)"
  proof (rule history_ok_update [OF assms(1)])
    show "queue_ok ?p (P k) (record_mail k l mail T k)"
      using at(1) 2(2) by (auto simp: queue_ok_def record_mail_def)
    show "count_ok ?p (P k)"
      using at(2) 2(2) by (auto simp: count_ok_def)
  qed (simp_all add: x record_mail_def)
  then show ?thesis
    by (simp add: x)
qed

lemma history_ok_settle:
  assumes "history_ok m P T" and "settle k m = (r, m')"
  shows "history_ok m' P T"
proof (cases "m' = m")
  case False
  then obtain p where p: "map_of (mb_peers m) k = Some p" "lq_queue (mp_lanes p Reliable) = []" "lq_queue (mp_lanes p Bulk) = []"
    and m': "mb_peers m' = om_put k (p\<lparr>mp_done := mp_accepted p\<rparr>) (mb_peers m)"
    using assms(2) by (auto simp: settle_def split: option.splits if_splits)
  show ?thesis
    by (rule history_ok_update [OF assms(1) m'])
      (use history_ok_at [OF assms(1) p(1)] p in \<open>auto simp: queue_ok_def count_ok_def\<close>)
qed (use assms(1) in simp)

lemma history_ok_seal:
  assumes "history_ok m P T"
  shows "history_ok (seal k m) (forgetMedia k P) (forgetMedia k T)"
proof (cases "map_of (mb_peers m) k")
  case None
  then have "P k = (\<lambda>_. [])" "T k = (\<lambda>_. [])"
    using spec [OF assms [unfolded history_ok_def], of k] by simp_all
  then have "forgetMedia k P = P" "forgetMedia k T = T"
    by (auto simp: forgetMedia_def fun_eq_iff)
  then show ?thesis
    using None assms by (simp add: seal_def)
next
  case (Some p)
  let ?p = "p\<lparr>mp_sealed := True, mp_lanes := (mp_lanes p)(Media := emptyLane)\<rparr>"
  show ?thesis
  proof (rule history_ok_update [OF assms])
    show "mb_peers (seal k m) = om_put k ?p (mb_peers m)"
      using Some by (simp add: seal_def)
    show "queue_ok ?p (forgetMedia k P k) (forgetMedia k T k)" "count_ok ?p (forgetMedia k P k)"
      using history_ok_at [OF assms Some]
      by (auto simp: queue_ok_def count_ok_def forgetMedia_def acceptedCount_def emptyLane_def)
  qed (simp add: forgetMedia_def)
qed

lemma history_ok_open: "history_ok m P T \<Longrightarrow> history_ok (open_mail k m) (forget k P) (forget k T)"
  by (rule history_ok_update [of m P T _ k "newMailPeer\<lparr>mp_epoch := mb_epochs m + 1\<rparr>"])
    (auto simp: open_mail_def Let_def forget_def queue_ok_def count_ok_def newMailPeer_def emptyLane_def acceptedCount_def)

lemma history_ok_close: "history_ok m P T \<Longrightarrow> history_ok (close_mail k m) (forget k P) (forget k T)"
  unfolding history_ok_def
proof
  fix k'
  assume "\<forall>k. case map_of (mb_peers m) k of None \<Rightarrow> P k = (\<lambda>_. []) \<and> T k = (\<lambda>_. [])
    | Some p \<Rightarrow> queue_ok p (P k) (T k) \<and> count_ok p (P k)"
  then show "case map_of (mb_peers (close_mail k m)) k' of None \<Rightarrow> forget k P k' = (\<lambda>_. []) \<and> forget k T k' = (\<lambda>_. [])
    | Some p \<Rightarrow> queue_ok p (forget k P k') (forget k T k') \<and> count_ok p (forget k P k')"
    by - (drule spec [of _ k'], cases "k' = k"; cases "map_of (mb_peers m) k'"; simp add: close_mail_def forget_def)
qed

lemma history_ok_map:
  assumes "history_ok m P T"
    and "\<And>k. \<exists>f. map_of (mb_peers m') k = map_option f (map_of (mb_peers m) k) \<and>
      (\<forall>p. mp_lanes (f p) = mp_lanes p \<and> mp_accepted (f p) = mp_accepted p \<and> mp_done (f p) = mp_done p)"
  shows "history_ok m' P T"
  unfolding history_ok_def
proof
  fix k
  obtain f where f: "map_of (mb_peers m') k = map_option f (map_of (mb_peers m) k)"
    "\<forall>p. mp_lanes (f p) = mp_lanes p \<and> mp_accepted (f p) = mp_accepted p \<and> mp_done (f p) = mp_done p"
    using assms(2) by blast
  show "case map_of (mb_peers m') k of None \<Rightarrow> P k = (\<lambda>_. []) \<and> T k = (\<lambda>_. [])
    | Some p \<Rightarrow> queue_ok p (P k) (T k) \<and> count_ok p (P k)"
    using spec [OF assms(1) [unfolded history_ok_def], of k] f
    by (cases "map_of (mb_peers m) k") (simp_all add: queue_ok_def count_ok_def)
qed

lemma history_ok_drain: "history_ok m P T \<Longrightarrow> drain m = (work, m') \<Longrightarrow> history_ok m' P T"
  by (rule history_ok_map, assumption) (use drain_spec in \<open>fastforce intro!: exI\<close>)

lemma history_ok_publishStats: "history_ok m P T \<Longrightarrow> history_ok (publishStats k st m) P T"
proof (rule history_ok_map, assumption)
  fix k'
  show "\<exists>f. map_of (mb_peers (publishStats k st m)) k' = map_option f (map_of (mb_peers m) k') \<and>
      (\<forall>p. mp_lanes (f p) = mp_lanes p \<and> mp_accepted (f p) = mp_accepted p \<and> mp_done (f p) = mp_done p)"
    by (intro exI [of _ "\<lambda>p. if k' = k then p\<lparr>mp_stats := st\<rparr> else p"])
      (simp add: publishStats_def option.map_ident)
qed


lemma history_ok_flags:
  assumes "history_ok m P T"
  shows "history_ok (setQueueBytes n m) P T" "history_ok (setRunning r m) P T" "history_ok (publishSession k s m) P T"
    "history_ok (publishDiscovered ps m) P T"
  using assms by (simp_all add: history_ok_def setQueueBytes_def setRunning_def publishSession_def publishDiscovered_def)

lemma mailbox_run_ok: "mailbox_run m P T \<Longrightarrow> mbox_ok m \<and> history_ok m P T"
proof (induction rule: mailbox_run.induct)
  case start
  then show ?case
    by (simp add: mbox_ok_new history_ok_def) (simp add: newMailbox_def)
next
  case (pushed m P T k l mail t r ring m')
  then show ?case
    using mbox_ok_pushStart history_ok_push(1) by blast
next
  case (pushed_later m P T k l mail e r ring m')
  then show ?case
    using mbox_ok_pushDone history_ok_push(2) by blast
next
  case (pushed_all m P T l mail n ring m')
  then show ?case
    using mbox_ok_pushToAll history_ok_pushToAll by blast
next
  case (taken m P T k l x m')
  then show ?case
    using mbox_ok_take [of m k l] history_ok_take by force
next
  case (drained m P T work m')
  then show ?case
    using mbox_ok_drain [of m] history_ok_drain by force
next
  case (settled m P T k r m')
  then show ?case
    using mbox_ok_settle [of m k] history_ok_settle by force
next
  case (posted m P T c k ring m')
  then show ?case
    using mbox_ok_flags(3) [of m c k] by (auto simp: post_def intro: history_ok_peers [THEN iffD2])
qed (auto intro: mbox_ok_seal mbox_ok_open mbox_ok_close mbox_ok_publishStats mbox_ok_flags
    history_ok_seal history_ok_open history_ok_close history_ok_publishStats history_ok_flags)

text \<open>What waits in a lane of a peer.\<close>

definition waiting :: "Mailbox \<Rightarrow> PeerId \<Rightarrow> Lane \<Rightarrow> Mail list" where
  "waiting m k l = (case map_of (mb_peers m) k of None \<Rightarrow> [] | Some p \<Rightarrow> lq_queue (mp_lanes p l))"


section \<open>Properties\<close>

text \<open>A mailbox with one session and one message, for the witnesses.\<close>

definition demo_box :: Mailbox where
  "demo_box = snd (enqueue 7 (newMailPeer\<lparr>mp_epoch := 1\<rparr>) Reliable \<lparr>mail_tag = 3, mail_body = [1, 2]\<rparr> (open_mail 7 newMailbox))"

lemma demo_box_run:
  "mailbox_run demo_box (record_mail 7 Reliable \<lparr>mail_tag = 3, mail_body = [1, 2]\<rparr> (forget 7 (\<lambda>_ _. []))) (forget 7 (\<lambda>_ _. []))"
proof -
  have "pushStart 7 Reliable \<lparr>mail_tag = 3, mail_body = [1, 2]\<rparr> 0 (open_mail 7 newMailbox) = Inl (Queued, True, demo_box)"
    by (simp add: pushStart_def tooLarge_def MaxMessagePayload_def open_mail_def newMailbox_def hasRoom_def
        newMailPeer_def emptyLane_def demo_box_def enqueue_def)
  from mailbox_run.pushed [OF mailbox_run.opened [OF mailbox_run.start] this] show ?thesis
    by simp
qed

text \<open>C28: Whatever the threads do, every lane of a session is a queue: what was pushed into Reliable or Bulk
  is what was taken out of it followed by what waits, so that every message that was accepted is handed
  out once, in the order of the pushes; Media keeps the order and may lose the oldest messages.
\<close>

theorem mailbox_fifo:
  assumes "mailbox_run m pushed taken"
  shows "(l \<noteq> Media \<longrightarrow> pushed k l = taken k l @ waiting m k l) \<and>
    subseq (taken k Media @ waiting m k Media) (pushed k Media)"
proof (cases "map_of (mb_peers m) k")
  case None
  then have "pushed k = (\<lambda>_. [])" "taken k = (\<lambda>_. [])"
    using mailbox_run_ok [OF assms] by (auto simp: history_ok_def split: option.splits dest: spec [of _ k])
  then show ?thesis
    using None by (simp add: waiting_def)
next
  case (Some p)
  then show ?thesis
    using history_ok_at [of m pushed taken k p] mailbox_run_ok [OF assms] by (simp add: waiting_def queue_ok_def)
qed

theorem mailbox_fifo_witness:
  "record_mail 7 Reliable \<lparr>mail_tag = 3, mail_body = [1, 2]\<rparr> (forget 7 (\<lambda>_ _. [])) 7 Reliable =
   forget 7 (\<lambda>_ _. []) 7 Reliable @ waiting demo_box 7 Reliable"
  using mailbox_fifo [OF demo_box_run, of Reliable 7] by simp

text \<open>C29: The accounting is exact: the bytes a lane counts are the bytes of the messages that wait in it, so
  an acknowledged lane holds at most the configured number of bytes once it holds more than one
  message; a lane of Media holds at most \<open>MediaQueueMessages\<close> messages.
\<close>

theorem mailbox_accounting:
  assumes "mailbox_run m pushed taken" and "map_of (mb_peers m) k = Some p"
  shows "lq_bytes (mp_lanes p l) = sum_list (map (length \<circ> mail_body) (waiting m k l)) \<and>
    length (waiting m k Media) \<le> MediaQueueMessages"
  using mailbox_run_ok [OF assms(1)] mbox_ok_entry [OF _ assms(2)] assms(2)
  by (auto simp: peer_ok_def lane_ok_def waiting_def)

theorem mailbox_accounting_witness:
  "\<exists>p. map_of (mb_peers demo_box) 7 = Some p \<and> lq_bytes (mp_lanes p Reliable) = 2"
proof -
  obtain p where p: "map_of (mb_peers demo_box) 7 = Some p"
    by (simp add: demo_box_def enqueue_self)
  have "waiting demo_box 7 Reliable = [\<lparr>mail_tag = 3, mail_body = [1, 2]\<rparr>]"
    by (simp add: demo_box_def waiting_def enqueue_self enqueuePeer_lane newMailPeer_def emptyLane_def)
  then show ?thesis
    using p mailbox_accounting [OF demo_box_run p, of Reliable] by simp
qed

text \<open>A push into a lane that is acknowledged is accepted only if the lane was empty or the configured
  bytes are not exceeded afterwards; then the message is the last one that waits. Every other outcome
  changes nothing.
\<close>

theorem push_outcome:
  assumes "mailbox_run m pushed taken" and "l \<noteq> Media" and "pushStart k l mail t m = Inl (r, ring, m')"
  shows "if r = Queued
    then waiting m' k l = waiting m k l @ [mail] \<and>
      (waiting m k l = [] \<or> sum_list (map (length \<circ> mail_body) (waiting m' k l)) \<le> mb_queueBytes m)
    else m' = m \<and> \<not> ring"
proof (cases "r = Queued")
  case True
  then obtain p where p: "map_of (mb_peers m) k = Some p" "hasRoom m p l (length (mail_body mail))"
    and m': "m' = snd (enqueue k p l mail m)"
    using assms(2,3) by (auto simp: pushStart_def Let_def split: if_splits option.splits)
  have "peer_ok p"
    using mailbox_run_ok [OF assms(1)] mbox_ok_entry p(1) by blast
  then have "lq_bytes (mp_lanes p l) = sum_list (map (length \<circ> mail_body) (waiting m k l))"
    using p(1) by (simp add: peer_ok_def lane_ok_def waiting_def)
  moreover have "waiting m' k l = waiting m k l @ [mail]"
    using assms(2) p(1) by (simp add: m' waiting_def enqueue_self enqueuePeer_lane Let_def)
  ultimately show ?thesis
    using True p by (auto simp: hasRoom_def waiting_def)
next
  case False
  then show ?thesis
    using assms(3) by (auto simp: pushStart_def Let_def split: if_splits option.splits)
qed

theorem push_outcome_witness:
  "waiting (snd (enqueue 7 (newMailPeer\<lparr>mp_epoch := 1\<rparr>) Reliable \<lparr>mail_tag = 3, mail_body = [1]\<rparr> (open_mail 7 newMailbox))) 7 Reliable =
   [\<lparr>mail_tag = 3, mail_body = [1]\<rparr>]"
proof -
  let ?mail = "\<lparr>mail_tag = 3, mail_body = [1]\<rparr>" and ?m = "open_mail 7 newMailbox"
  have r: "pushStart 7 Reliable ?mail 0 ?m =
      Inl (Queued, True, snd (enqueue 7 (newMailPeer\<lparr>mp_epoch := 1\<rparr>) Reliable ?mail ?m))"
    by (simp add: pushStart_def tooLarge_def MaxMessagePayload_def open_mail_def newMailbox_def hasRoom_def
        newMailPeer_def emptyLane_def enqueue_def)
  have "waiting ?m 7 Reliable = []"
    by (simp add: waiting_def open_mail_def newMailPeer_def emptyLane_def)
  then show ?thesis
    using push_outcome [OF mailbox_run.opened [OF mailbox_run.start] _ r] by simp
qed



end
