(* ===== verification/EngineState.thy ===== *)
theory EngineState
  imports ReliableLink Discovery Scheduler Mailbox
begin

text \<open>
  \<open>Engine/NetworkEngine.h\<close>: the state of the engine and the operations on one session.

  The engine is a record of the members the I/O thread owns. The code outside of it is an
  \<open>Environment\<close>, a record of functions on a state of its own, which is the field \<open>e_world\<close>: the sockets
  behind \<open>IDatagramSocket\<close> and their factory, the provider of the adapter's address, the random stream
  IDs, and the other threads, which may use the mailbox before every critical section the I/O thread
  enters. Where a function of the environment takes a \<open>bool\<close>, \<open>True\<close> names the socket of the discovery
  port and \<open>False\<close> the engine's own.

  A reference to a peer is its id; writing through it is an update of the table. The sockets are the
  local address the engine's socket is bound to, and whether the socket of the discovery port is open.
  The inboxes of Media messages, which a peer shares with the events it raised, are a store indexed by
  numbers. The assembly budget the links share is a field of the engine: an operation on a link starts
  with its current value and writes it back.

  Logging and the counters of the loop that nothing reads are left out.
\<close>

unbundle bit_operations_syntax

section \<open>Types\<close>

datatype SocketError = Timeout | WouldBlock | Cancelled | Closed | ConnectionRefused | ConnectionReset
  | ConnectionAborted | NotConnected | AddressInUse | AddressNotAvailable | PermissionDenied | InvalidArgument
  | NetworkUnreachable | NetworkDown | MessageTooLarge | NotInitialized | Unknown

record LocalInterface =
  if_ip :: IPv4Address
  if_mask :: IPv4Address

record EngineConfig =
  cfg_displayName :: bytes
  cfg_appId :: bytes
  cfg_appVersion :: bytes
  cfg_discoveryPort :: u16
  cfg_sendQueueBytes :: nat
  cfg_maxSendRate :: u32
  cfg_timings :: LinkTimings
  cfg_autoAccept :: bool
  cfg_instanceId :: u64

datatype EventKind = PeerDiscovered | PeerLost | ConnectionRequest | Connected | Disconnected | Message | AdapterChanged

record EngineEvent =
  ev_kind :: EventKind
  ev_peer :: PeerId
  ev_info :: PeerInfo
  ev_reason :: DisconnectReason
  ev_lane :: PublicLane
  ev_message :: Message
  ev_media :: "nat option"

definition noInfo :: PeerInfo where
  "noInfo = \<lparr>peer_id = 0, displayName = [], address = [], port = 0, appVersion = []\<rparr>"

text \<open>An event of a kind for a peer, with the defaults of the struct.\<close>

definition newEvent :: "EventKind \<Rightarrow> PeerId \<Rightarrow> EngineEvent" where
  "newEvent k pid =
     \<lparr>ev_kind = k, ev_peer = pid, ev_info = noInfo, ev_reason = DisconnectReason.Local, ev_lane = PubReliable,
      ev_message = \<lparr>message_type = 0, message_data = []\<rparr>, ev_media = None\<rparr>"

text \<open>\<open>batch_bytes\<close> is the size of the share of the backlog the batch holds, 0 for none.\<close>

record EventBatch =
  batch_events :: "EngineEvent list"
  batch_bytes :: nat

datatype PeerState = Connecting | AwaitingDecision | Connected | Closing

record Peer =
  p_info :: PeerInfo
  p_address :: SocketAddress
  p_state :: PeerState
  p_link :: Link
  p_control :: "OutboundMessage list"
  p_deadline :: "TimePoint option"
  p_stateDeadline :: "TimePoint option"
  p_initiator :: bool
  p_acceptSent :: bool
  p_closeSent :: bool
  p_announced :: bool
  p_reported :: bool
  p_ended :: bool
  p_unsettled :: bool
  p_scheduled :: u8
  p_media :: "nat option"
  p_mediaSentAtReport :: u64
  p_mediaReceivedAtReport :: u64
  p_mediaLoss :: rat

definition newPeer :: "PeerInfo \<Rightarrow> SocketAddress \<Rightarrow> LinkTimings \<Rightarrow> u32 \<Rightarrow> AssemblyBudget \<Rightarrow> Peer" where
  "newPeer who a t streamID budget =
     \<lparr>p_info = who, p_address = a, p_state = Connecting, p_link = reliableLink t streamID 0 (Some budget),
      p_control = [], p_deadline = None, p_stateDeadline = None, p_initiator = False, p_acceptSent = False,
      p_closeSent = False, p_announced = False, p_reported = False, p_ended = False, p_unsettled = False,
      p_scheduled = 0, p_media = None, p_mediaSentAtReport = 0, p_mediaReceivedAtReport = 0, p_mediaLoss = 0\<rparr>"

record BindOptions =
  enableBroadcast :: bool
  reuseAddress :: bool
  receiveBufferSize :: int
  sendBufferSize :: int

datatype Transmit = Sent | Lost | Refused

record 'w Environment =
  env_localInterface :: "'w \<Rightarrow> LocalInterface option \<times> 'w"
  env_makeStreamID :: "'w \<Rightarrow> u32 \<times> 'w"
  env_bind :: "SocketAddress \<Rightarrow> BindOptions \<Rightarrow> 'w \<Rightarrow> SocketAddress option \<times> 'w"
  env_shutdown :: "bool \<Rightarrow> 'w \<Rightarrow> 'w"
  env_receive :: "bool \<Rightarrow> 'w \<Rightarrow> (SocketError + SocketAddress \<times> bytes) \<times> 'w"
  env_sendTo :: "SocketAddress \<Rightarrow> bytes \<Rightarrow> 'w \<Rightarrow> SocketError option \<times> 'w"
  env_others :: "Mailbox \<Rightarrow> 'w \<Rightarrow> Mailbox \<times> 'w"

record 'w Engine =
  e_config :: EngineConfig
  e_id :: PeerId
  e_world :: 'w
  e_socket :: "SocketAddress option"
  e_beaconSocket :: bool
  e_interface :: "LocalInterface option"
  e_discovery :: DiscoveryLogic
  e_peers :: "(PeerId \<times> Peer) list"
  e_byStream :: "(u32 \<times> PeerId) list"
  e_mailbox :: Mailbox
  e_scheduler :: SendScheduler
  e_budget :: AssemblyBudget
  e_events :: "EngineEvent list"
  e_paused :: bool
  e_shutdown :: bool
  e_checkInterface :: bool
  e_beaconDue :: bool
  e_peersChanged :: bool
  e_nextTick :: "TimePoint option"
  e_nextWake :: "TimePoint option"
  e_touched :: "PeerId list"
  e_acksHeldBack :: "PeerId list"
  e_ended :: "PeerId list"
  e_socketBlocked :: bool
  e_socketFailed :: bool
  e_waitingForTick :: bool
  e_inboxes :: "nat \<Rightarrow> Message list"
  e_nextInbox :: nat
  e_backlogBytes :: nat
  e_backlogPaused :: bool
  e_datagramsSent :: u64


section \<open>The constructor\<close>

text \<open>\<open>libraryVersion\<close> is the version the build writes into a header; \<open>randomId\<close> is \<open>makeInstanceId()\<close>.\<close>

definition completed :: "bytes \<Rightarrow> EngineConfig \<Rightarrow> EngineConfig" where
  "completed libraryVersion config =
     (let config = (if length (cfg_displayName config) > MaxDisplayName
                    then config\<lparr>cfg_displayName := take MaxDisplayName (cfg_displayName config)\<rparr> else config)
      in if cfg_appVersion config = [] then config\<lparr>cfg_appVersion := libraryVersion\<rparr> else config)"

definition networkEngine :: "bytes \<Rightarrow> u64 \<Rightarrow> EngineConfig \<Rightarrow> 'w \<Rightarrow> 'w Engine" where
  "networkEngine libraryVersion randomId config w =
     (let config = completed libraryVersion config;
          myId = (if cfg_instanceId config \<noteq> 0 then cfg_instanceId config else randomId)
      in \<lparr>e_config = config, e_id = myId, e_world = w, e_socket = None, e_beaconSocket = False, e_interface = None,
          e_discovery = newDiscovery \<lparr>my_instanceId = myId, my_appIdHash = hashAppId (cfg_appId config),
            my_version = parseAppVersion (cfg_appVersion config), my_name = cfg_displayName config\<rparr>,
          e_peers = [], e_byStream = [], e_mailbox = setQueueBytes (cfg_sendQueueBytes config) newMailbox,
          e_scheduler = newScheduler (cfg_maxSendRate config), e_budget = \<lparr>bg_limit = AssemblyBudgetBytes, bg_used = 0\<rparr>,
          e_events = [], e_paused = False, e_shutdown = False, e_checkInterface = True, e_beaconDue = False,
          e_peersChanged = False, e_nextTick = None, e_nextWake = None, e_touched = [], e_acksHeldBack = [],
          e_ended = [], e_socketBlocked = False, e_socketFailed = False, e_waitingForTick = False,
          e_inboxes = (\<lambda>_. []), e_nextInbox = 0, e_backlogBytes = 0, e_backlogPaused = False,
          e_datagramsSent = 0\<rparr>)"


section \<open>Access to the parts\<close>

definition emit :: "EngineEvent \<Rightarrow> 'w Engine \<Rightarrow> 'w Engine" where
  "emit ev e = e\<lparr>e_events := e_events e @ [ev]\<rparr>"

definition touch :: "PeerId \<Rightarrow> 'w Engine \<Rightarrow> 'w Engine" where
  "touch pid e = e\<lparr>e_touched := e_touched e @ [pid]\<rparr>"

definition findPeer :: "PeerId \<Rightarrow> 'w Engine \<Rightarrow> Peer option" where
  "findPeer pid e = map_of (e_peers e) pid"

text \<open>Writing through a reference to a peer.\<close>

definition modifyPeer :: "PeerId \<Rightarrow> (Peer \<Rightarrow> Peer) \<Rightarrow> 'w Engine \<Rightarrow> 'w Engine" where
  "modifyPeer pid f e = e\<lparr>e_peers := om_modify pid f (e_peers e)\<rparr>"

text \<open>A critical section of the mailbox: the other threads may have been there before.\<close>

definition onMailbox :: "'w Environment \<Rightarrow> (Mailbox \<Rightarrow> 'a \<times> Mailbox) \<Rightarrow> 'w Engine \<Rightarrow> 'a \<times> 'w Engine" where
  "onMailbox env f e =
     (let (m, w) = env_others env (e_mailbox e) (e_world e);
          (r, m) = f m
      in (r, e\<lparr>e_mailbox := m, e_world := w\<rparr>))"

definition tellMailbox :: "'w Environment \<Rightarrow> (Mailbox \<Rightarrow> Mailbox) \<Rightarrow> 'w Engine \<Rightarrow> 'w Engine" where
  "tellMailbox env f e = snd (onMailbox env (\<lambda>m. ((), f m)) e)"

text \<open>An operation on the link of a peer, with the shared budget.\<close>

definition budgetOf :: "Link \<Rightarrow> AssemblyBudget \<Rightarrow> AssemblyBudget" where
  "budgetOf l b = (case mBudget l of Some b' \<Rightarrow> b' | None \<Rightarrow> b)"

definition linkOf :: "Peer \<Rightarrow> 'w Engine \<Rightarrow> Link" where
  "linkOf p e = (p_link p)\<lparr>mBudget := Some (e_budget e)\<rparr>"

definition putLink :: "PeerId \<Rightarrow> Link \<Rightarrow> 'w Engine \<Rightarrow> 'w Engine" where
  "putLink pid l e = modifyPeer pid (\<lambda>p. p\<lparr>p_link := l\<rparr>) (e\<lparr>e_budget := budgetOf l (e_budget e)\<rparr>)"

text \<open>Destroying a peer destroys the streams of its link, which give back what they have reserved.\<close>

definition destroyLink :: "Peer \<Rightarrow> 'w Engine \<Rightarrow> 'w Engine" where
  "destroyLink p e = e\<lparr>e_budget := budgetOf (foldl dropStream (linkOf p e) StreamLanes) (e_budget e)\<rparr>"


section \<open>Sessions\<close>

definition transfersData :: "Peer \<Rightarrow> bool" where
  "transfersData p \<longleftrightarrow> p_state p = Connected \<or> (p_state p = Closing \<and> \<not> p_closeSent p)"

definition report :: "PeerId \<Rightarrow> DisconnectReason \<Rightarrow> 'w Engine \<Rightarrow> 'w Engine" where
  "report pid r e =
     (case findPeer pid e of
        None \<Rightarrow> e
      | Some p \<Rightarrow>
          if \<not> p_announced p then e
          else if p_reported p then e
          else emit ((newEvent Disconnected (peer_id (p_info p)))\<lparr>ev_reason := r\<rparr>)
                 (modifyPeer pid (\<lambda>p. p\<lparr>p_reported := True\<rparr>) e))"

definition endPeer :: "'w Environment \<Rightarrow> PeerId \<Rightarrow> 'w Engine \<Rightarrow> 'w Engine" where
  "endPeer env pid e =
     (case findPeer pid e of
        None \<Rightarrow> e
      | Some p \<Rightarrow>
          if p_ended p then e
          else let e = modifyPeer pid (\<lambda>p. p\<lparr>p_ended := True\<rparr>) e;
                   e = tellMailbox env (close_mail (peer_id (p_info p))) e
               in e\<lparr>e_ended := e_ended e @ [peer_id (p_info p)]\<rparr>)"

definition erasePeer :: "'w Environment \<Rightarrow> PeerId \<Rightarrow> 'w Engine \<Rightarrow> 'w Engine" where
  "erasePeer env pid e =
     (case findPeer pid e of
        None \<Rightarrow> e
      | Some p \<Rightarrow>
          let e = e\<lparr>e_byStream := om_erase (mLocalStreamID (p_link p)) (e_byStream e)\<rparr>;
              e = e\<lparr>e_scheduler := remove pid (e_scheduler e)\<rparr>;
              e = tellMailbox env (close_mail pid) e;
              e = destroyLink p e
          in e\<lparr>e_peers := om_erase pid (e_peers e)\<rparr>)"

definition setConnected :: "'w Environment \<Rightarrow> PeerId \<Rightarrow> 'w Engine \<Rightarrow> 'w Engine" where
  "setConnected env pid e =
     (case findPeer pid e of
        None \<Rightarrow> e
      | Some p \<Rightarrow>
          let e = modifyPeer pid (\<lambda>p. p\<lparr>p_state := Connected, p_announced := True, p_stateDeadline := None\<rparr>) e;
              e = tellMailbox env (open_mail (peer_id (p_info p))) e
          in emit ((newEvent EventKind.Connected (peer_id (p_info p)))\<lparr>ev_info := p_info p\<rparr>) e)"

text \<open>A session message for the link, which takes it when it can send. The encoders do not fault.\<close>

definition pushControl :: "PeerId \<Rightarrow> ControlType \<Rightarrow> bytes \<Rightarrow> 'w Engine \<Rightarrow> 'w Engine" where
  "pushControl pid t body e =
     modifyPeer pid (\<lambda>p. p\<lparr>p_control := p_control p @ [\<lparr>om_tag = control_value t, om_body = body\<rparr>]\<rparr>) e"

definition sendAccept :: "'w Environment \<Rightarrow> PeerId \<Rightarrow> 'w Engine \<Rightarrow> 'w Engine" where
  "sendAccept env pid e =
     (case findPeer pid e of
        None \<Rightarrow> e
      | Some p \<Rightarrow>
          let accept = the (encodeAccept \<lparr>accept_name = my_name (dl_identity (e_discovery e))\<rparr>);
              e = pushControl pid CtAccept accept e;
              e = modifyPeer pid (\<lambda>p. p\<lparr>p_state := Connecting, p_acceptSent := True, p_stateDeadline := None\<rparr>) e;
              e = tellMailbox env (publishSession (peer_id (p_info p)) Pending) e
          in touch (peer_id (p_info p)) e)"

definition sendDecline :: "'w Environment \<Rightarrow> PeerId \<Rightarrow> TimePoint \<Rightarrow> 'w Engine \<Rightarrow> 'w Engine" where
  "sendDecline env pid now e =
     (case findPeer pid e of
        None \<Rightarrow> e
      | Some p \<Rightarrow>
          let e = pushControl pid CtDecline (encodeDecline \<lparr>reason = DeclineReason.Declined, decline_text = []\<rparr>) e;
              e = report pid DisconnectReason.Local e;
              e = modifyPeer pid (\<lambda>p. p\<lparr>p_state := Closing, p_closeSent := True, p_stateDeadline := Some (now + CloseLinger)\<rparr>) e;
              e = tellMailbox env (close_mail (peer_id (p_info p))) e
          in touch (peer_id (p_info p)) e)"

definition sendClose :: "'w Environment \<Rightarrow> PeerId \<Rightarrow> TimePoint \<Rightarrow> 'w Engine \<Rightarrow> 'w Engine" where
  "sendClose env pid now e =
     (case findPeer pid e of
        None \<Rightarrow> e
      | Some p \<Rightarrow>
          let e = tellMailbox env (close_mail (peer_id (p_info p))) e
          in if mRemoteStreamID (p_link p) = None then endPeer env pid e
             else let e = pushControl pid CtClose (encodeClose 0) e;
                      e = modifyPeer pid (\<lambda>p. p\<lparr>p_state := Closing, p_closeSent := True,
                                                p_stateDeadline := Some (now + CloseLinger)\<rparr>) e
                  in touch (peer_id (p_info p)) e)"

definition onControl :: "'w Environment \<Rightarrow> PeerId \<Rightarrow> DeliveredMessage \<Rightarrow> 'w Engine \<Rightarrow> 'w Engine" where
  "onControl env pid msg e =
     (case findPeer pid e of
        None \<Rightarrow> e
      | Some p \<Rightarrow>
          if p_ended p then e
          else if dm_tag msg = control_value CtHello then e
          else if dm_tag msg = control_value CtAccept
          then if p_state p = Connecting \<and> p_initiator p
               then let e = (case decodeAccept (dm_body msg) of
                               Some a \<Rightarrow> if accept_name a \<noteq> [] \<and> length (accept_name a) \<le> MaxDisplayName
                                         then modifyPeer pid (\<lambda>p. p\<lparr>p_info := (p_info p)\<lparr>displayName := accept_name a\<rparr>\<rparr>) e
                                         else e
                             | None \<Rightarrow> e)
                    in setConnected env pid e
               else e
          else if dm_tag msg = control_value CtDecline
          then if p_state p = Connecting \<and> p_initiator p
               then let incompatible = (case decodeDecline (dm_body msg) of
                          Some d \<Rightarrow> reason d = DeclineReason.Incompatible | None \<Rightarrow> False)
                    in endPeer env pid (report pid (if incompatible then DisconnectReason.Incompatible
                                                    else DisconnectReason.Declined) e)
               else e
          else if dm_tag msg = control_value CtClose
          then endPeer env pid (report pid DisconnectReason.Remote e)
          else e)"


text \<open>The inbox of a peer, created with its first Media message.\<close>

definition inboxOf :: "PeerId \<Rightarrow> Peer \<Rightarrow> 'w Engine \<Rightarrow> nat \<times> 'w Engine" where
  "inboxOf pid p e =
     (case p_media p of
        Some box \<Rightarrow> (box, e)
      | None \<Rightarrow> let box = e_nextInbox e;
                    e = e\<lparr>e_nextInbox := box + 1, e_inboxes := (e_inboxes e)(box := [])\<rparr>
                in (box, modifyPeer pid (\<lambda>p. p\<lparr>p_media := Some box\<rparr>) e))"

definition publicLane :: "Lane \<Rightarrow> PublicLane" where
  "publicLane la = (if la = Bulk then PubBulk else if la = Media then PubMedia else PubReliable)"

text \<open>The body of the loop of \<open>advance\<close> over what the link delivered.\<close>

definition deliverMessage :: "'w Environment \<Rightarrow> PeerId \<Rightarrow> 'w Engine \<Rightarrow> DeliveredMessage \<Rightarrow> 'w Engine" where
  "deliverMessage env pid e msg =
     (if dm_lane msg = Control then onControl env pid msg e
      else case findPeer pid e of
        None \<Rightarrow> e
      | Some p \<Rightarrow>
          if p_ended p \<or> p_reported p \<or> \<not> transfersData p then e
          else
            let ev = (newEvent EventKind.Message (peer_id (p_info p)))\<lparr>ev_lane := publicLane (dm_lane msg)\<rparr>;
                message = \<lparr>message_type = dm_tag msg, message_data = dm_body msg\<rparr>
            in if dm_lane msg = Media
               then let (box, e) = inboxOf pid p e;
                        waiting = e_inboxes e box;
                        waiting = (if length waiting \<ge> MediaQueueMessages then tl waiting else waiting) @ [message]
                    in emit (ev\<lparr>ev_media := Some box\<rparr>) (e\<lparr>e_inboxes := (e_inboxes e)(box := waiting)\<rparr>)
               else emit (ev\<lparr>ev_message := message\<rparr>) e)"

text \<open>The end of a session whose data was sent.\<close>

definition finishClosing :: "'w Environment \<Rightarrow> PeerId \<Rightarrow> TimePoint \<Rightarrow> 'w Engine \<Rightarrow> 'w Engine" where
  "finishClosing env pid now e = sendClose env pid now (report pid DisconnectReason.Local e)"

text \<open>The switch of \<open>advance\<close> over the state of the session.\<close>

definition advanceState :: "'w Environment \<Rightarrow> PeerId \<Rightarrow> TimePoint \<Rightarrow> 'w Engine \<Rightarrow> 'w Engine" where
  "advanceState env pid now e =
     (case findPeer pid e of
        None \<Rightarrow> e
      | Some p \<Rightarrow>
          if p_ended p then e
          else
            let controlSettled = (p_control p = [] \<and> \<not> hasPending Control (p_link p));
                expired = (case p_stateDeadline p of Some d \<Rightarrow> d \<le> now | None \<Rightarrow> False)
            in case p_state p of
                 Connecting \<Rightarrow> if \<not> p_initiator p \<and> p_acceptSent p \<and> controlSettled then setConnected env pid e else e
               | AwaitingDecision \<Rightarrow> if expired then sendDecline env pid now e else e
               | Connected \<Rightarrow> e
               | Closing \<Rightarrow>
                   if p_closeSent p then if controlSettled \<or> expired then endPeer env pid e else e
                   else if expired then finishClosing env pid now e
                   else if \<not> hasPending Reliable (p_link p) \<and> \<not> hasPending Bulk (p_link p)
                   then let (settled, e) = onMailbox env (settle (peer_id (p_info p))) e
                        in if settled then finishClosing env pid now e else e
                   else e)"

definition advance :: "'w Environment \<Rightarrow> PeerId \<Rightarrow> TimePoint \<Rightarrow> 'w Engine \<Rightarrow> 'w Engine" where
  "advance env pid now e =
     (case findPeer pid e of
        None \<Rightarrow> e
      | Some p \<Rightarrow>
          if p_ended p then e
          else if mFailed (p_link p) then endPeer env pid (report pid DisconnectReason.Lost e)
          else let (messages, l) = takeDelivered (linkOf p e);
                   e = putLink pid l e;
                   e = foldl (deliverMessage env pid) e messages
               in advanceState env pid now e)"

text \<open>
  \<open>addPeer\<close>. The loop draws stream IDs until one is free, so whether it ends depends on the IDs that are
  drawn; \<open>freshStreamID_returns\<close> says of which draws it does.
\<close>

partial_function (option) freshStreamID :: "'w Environment \<Rightarrow> (u32 \<times> PeerId) list \<Rightarrow> 'w \<Rightarrow> (u32 \<times> 'w) option" where
  "freshStreamID env taken w =
     (if map_of taken (fst (env_makeStreamID env w)) = None then Some (env_makeStreamID env w)
      else freshStreamID env taken (snd (env_makeStreamID env w)))"

definition addPeer :: "'w Environment \<Rightarrow> PeerInfo \<Rightarrow> SocketAddress \<Rightarrow> TimePoint \<Rightarrow> 'w Engine \<Rightarrow> 'w Engine option" where
  "addPeer env who a now e =
     do { (streamID, w) \<leftarrow> freshStreamID env (e_byStream e) (e_world e);
          let e = e\<lparr>e_world := w\<rparr>;
          let pid = peer_id who;
          let e = (if findPeer pid e = None
                   then e\<lparr>e_peers := om_put pid (newPeer who a (cfg_timings (e_config e)) streamID (e_budget e)) (e_peers e)\<rparr>
                   else e);
          let e = modifyPeer pid (\<lambda>p. p\<lparr>p_link := setPaused (e_paused e) (supervise now (p_link p))\<rparr>) e;
          let e = e\<lparr>e_byStream := om_put streamID pid (e_byStream e)\<rparr>;
          Some (touch pid e) }"

text \<open>\<open>PeerSource::next\<close>: where the link of a peer takes its messages from.\<close>

definition source_next :: "'w Environment \<Rightarrow> PeerId \<Rightarrow> 'w Engine \<Rightarrow> Lane \<Rightarrow> OutboundMessage option \<times> 'w Engine" where
  "source_next env pid e la =
     (case findPeer pid e of
        None \<Rightarrow> (None, e)
      | Some p \<Rightarrow>
          if la = Control
          then (case p_control p of
                  [] \<Rightarrow> (None, e)
                | m # rest \<Rightarrow> (Some m, modifyPeer pid (\<lambda>p. p\<lparr>p_control := rest\<rparr>) e))
          else if \<not> transfersData p then (None, e)
          else let (mail, e) = onMailbox env (take_mail (peer_id (p_info p)) la) e
               in (map_option (\<lambda>m. \<lparr>om_tag = mail_tag m, om_body = mail_body m\<rparr>) mail, e))"

end
