(* ===== verification/EngineIo.thy ===== *)
theory EngineIo
  imports EngineState Double
begin

text \<open>
  \<open>Engine/NetworkEngine.cpp\<close>: what the I/O thread does in one step: commands, the adapter and its
  sockets, receiving, timers, sending, and \<open>step\<close> itself. An operation returns an option if it reads or
  writes through a view (see \<open>Prelude\<close>), or draws stream IDs until one is free.

  \<open>step\<close> walks over \<open>mTouched\<close> while \<open>advance\<close> may append to it. The walk is over the elements there were
  when it began, which is what the code does as long as the vector does not have to grow.
\<close>

section \<open>Loops with faults\<close>

fun foldM :: "('a \<Rightarrow> 's \<Rightarrow> 's option) \<Rightarrow> 'a list \<Rightarrow> 's \<Rightarrow> 's option" where
  "foldM f [] s = Some s"
| "foldM f (x # xs) s = Option.bind (f x s) (foldM f xs)"


section \<open>Commands\<close>

definition helloOf :: "PeerId \<Rightarrow> 'w Engine \<Rightarrow> Hello" where
  "helloOf pid e =
     (let me = dl_identity (e_discovery e)
      in \<lparr>fromInstance = e_id e, toInstance = pid, appIdHash = my_appIdHash me,
          verMajor = av_major (my_version me), verMinor = av_minor (my_version me), name = my_name me\<rparr>)"

text \<open>The end of \<open>startSession\<close>, for a peer without a session.\<close>

definition openSession :: "'w Environment \<Rightarrow> PeerId \<Rightarrow> TimePoint \<Rightarrow> 'w Engine \<Rightarrow> 'w Engine option" where
  "openSession env pid now e =
     (case find_known (e_discovery e) pid of
        None \<Rightarrow> Some (emit ((newEvent Disconnected pid)\<lparr>ev_reason := DisconnectReason.Lost\<rparr>) e)
      | Some known \<Rightarrow>
          if e_socket e = None \<or> length (e_peers e) \<ge> MaxPeers
          then Some (emit ((newEvent Disconnected pid)\<lparr>ev_reason := DisconnectReason.Local\<rparr>) e)
          else do { e \<leftarrow> addPeer env (info known) (endpoint known) now e;
                    let peer = peer_id (info known);
                    let e = modifyPeer peer (\<lambda>p. p\<lparr>p_initiator := True, p_announced := True\<rparr>) e;
                    let e = pushControl peer CtHello (the (encodeHello (helloOf pid e))) e;
                    Some (tellMailbox env (publishSession pid Pending) e) })"

definition startSession :: "'w Environment \<Rightarrow> PeerId \<Rightarrow> TimePoint \<Rightarrow> 'w Engine \<Rightarrow> 'w Engine option" where
  "startSession env pid now e =
     (if e_shutdown e then Some e
      else case findPeer pid e of
        Some p \<Rightarrow>
          if p_state p = AwaitingDecision then Some (sendAccept env pid e)
          else if p_state p \<noteq> Closing \<or> \<not> p_closeSent p then Some e
          else openSession env pid now (erasePeer env pid e)
      | None \<Rightarrow> openSession env pid now e)"

definition endSession :: "'w Environment \<Rightarrow> PeerId \<Rightarrow> TimePoint \<Rightarrow> 'w Engine \<Rightarrow> 'w Engine" where
  "endSession env pid now e =
     (case findPeer pid e of
        None \<Rightarrow> e
      | Some p \<Rightarrow>
          (case p_state p of
             Connected \<Rightarrow>
               touch (peer_id (p_info p))
                 (modifyPeer pid (\<lambda>p. p\<lparr>p_state := Closing, p_stateDeadline := Some (now + DrainTimeout)\<rparr>) e)
           | AwaitingDecision \<Rightarrow> sendDecline env pid now e
           | Connecting \<Rightarrow> sendClose env pid now (report pid DisconnectReason.Local e)
           | Closing \<Rightarrow> e))"

text \<open>The body of the loop of \<open>beginShutdown\<close>.\<close>

definition shutdownPeer :: "'w Environment \<Rightarrow> TimePoint \<Rightarrow> 'w Engine \<Rightarrow> PeerId \<Rightarrow> 'w Engine" where
  "shutdownPeer env now e pid =
     (let e = report pid DisconnectReason.Shutdown e
      in case findPeer pid e of
           None \<Rightarrow> e
         | Some p \<Rightarrow>
             if p_state p = AwaitingDecision then sendDecline env pid now e
             else if \<not> p_closeSent p then sendClose env pid now e
             else e)"

definition beginShutdown :: "'w Environment \<Rightarrow> TimePoint \<Rightarrow> 'w Engine \<Rightarrow> 'w Engine" where
  "beginShutdown env now e =
     (if e_shutdown e then e
      else let e = e\<lparr>e_shutdown := True, e_discovery := setAnnouncing False (e_discovery e)\<rparr>;
               e = foldl (shutdownPeer env now) e (om_keys (e_peers e))
           in tellMailbox env (setRunning False) e)"

definition apply_command :: "'w Environment \<Rightarrow> TimePoint \<Rightarrow> PostedCommand \<Rightarrow> 'w Engine \<Rightarrow> 'w Engine option" where
  "apply_command env now c e =
     (let awaits = (case findPeer (snd c) e of Some p \<Rightarrow> p_state p = AwaitingDecision | None \<Rightarrow> False)
      in case fst c of
           Command.Connect \<Rightarrow> startSession env (snd c) now e
         | Command.Accept \<Rightarrow> Some (if awaits then sendAccept env (snd c) e else e)
         | Command.Decline \<Rightarrow> Some (if awaits then sendDecline env (snd c) now e else e)
         | Command.Disconnect \<Rightarrow> Some (endSession env (snd c) now e)
         | Command.Announce \<Rightarrow> Some (e\<lparr>e_discovery := setAnnouncing True (e_discovery e), e_beaconDue := True\<rparr>)
         | Command.StopAnnouncing \<Rightarrow> Some (e\<lparr>e_discovery := setAnnouncing False (e_discovery e)\<rparr>)
         | Command.CheckInterface \<Rightarrow> Some (e\<lparr>e_checkInterface := True\<rparr>)
         | Command.ResumeReceiving \<Rightarrow> Some e
         | Command.Shutdown \<Rightarrow> Some (beginShutdown env now e))"


section \<open>The adapter and its sockets\<close>

text \<open>The body of the loop of \<open>endAllSessions\<close>.\<close>

definition dropSession :: "'w Environment \<Rightarrow> DisconnectReason \<Rightarrow> 'w Engine \<Rightarrow> PeerId \<Rightarrow> 'w Engine" where
  "dropSession env r e pid = tellMailbox env (close_mail pid) (report pid r e)"

definition endAllSessions :: "'w Environment \<Rightarrow> DisconnectReason \<Rightarrow> 'w Engine \<Rightarrow> 'w Engine" where
  "endAllSessions env r e =
     (let e = foldl (dropSession env r) e (om_keys (e_peers e));
          e = foldl (\<lambda>e p. destroyLink p e) e (map snd (e_peers e))
      in e\<lparr>e_peers := [], e_byStream := [], e_scheduler := clearRings (e_scheduler e), e_acksHeldBack := [],
           e_ended := []\<rparr>)"

definition ChannelReceiveBufferSize :: int where [constants]: "ChannelReceiveBufferSize = 4 * 1024 * 1024"

text \<open>
  The buffer is \<open>perDatagram\<close> bytes for every datagram of a burst, a number that depends on the platform
  (0 or 2304). The product is that of two \<open>int\<close>.
\<close>

definition sendBuffer :: "int \<Rightarrow> u32 \<Rightarrow> int" where
  "sendBuffer perDatagram rate = int (burstOf (if rate > 0 then rate else DefaultMaxSendRate)) * perDatagram"

definition engine_bind :: "'w Environment \<Rightarrow> int \<Rightarrow> LocalInterface \<Rightarrow> 'w Engine \<Rightarrow> 'w Engine" where
  "engine_bind env perDatagram iface e =
     (let (socket, w) = env_bind env \<lparr>sa_ip = if_ip iface, sa_port = 0\<rparr>
            \<lparr>enableBroadcast = True, reuseAddress = False, receiveBufferSize = ChannelReceiveBufferSize,
             sendBufferSize = sendBuffer perDatagram (cfg_maxSendRate (e_config e))\<rparr> (e_world e);
          e = e\<lparr>e_world := w\<rparr>
      in case socket of
           None \<Rightarrow> e
         | Some a \<Rightarrow>
             let (beacons, w) = env_bind env (anyAddress (cfg_discoveryPort (e_config e)))
                   \<lparr>enableBroadcast = False, reuseAddress = True, receiveBufferSize = 0, sendBufferSize = 0\<rparr> (e_world e);
                 e = e\<lparr>e_world := w\<rparr>;
                 e = (if beacons \<noteq> None then e\<lparr>e_beaconSocket := True\<rparr> else e);
                 e = e\<lparr>e_socket := Some a, e_discovery := setInterface (if_ip iface) (if_mask iface) (e_discovery e),
                       e_beaconDue := True\<rparr>
             in emit ((newEvent AdapterChanged 0)\<lparr>ev_info := noInfo\<lparr>address := toString (if_ip iface), port := sa_port a\<rparr>\<rparr>) e)"

definition closeSockets :: "'w Environment \<Rightarrow> 'w Engine \<Rightarrow> 'w Engine" where
  "closeSockets env e =
     (let e = (if e_socket e \<noteq> None then e\<lparr>e_world := env_shutdown env False (e_world e)\<rparr> else e);
          e = e\<lparr>e_socket := None\<rparr>;
          e = (if e_beaconSocket e then e\<lparr>e_world := env_shutdown env True (e_world e)\<rparr> else e)
      in e\<lparr>e_beaconSocket := False\<rparr>)"

definition updateInterface :: "'w Environment \<Rightarrow> int \<Rightarrow> bool \<Rightarrow> 'w Engine \<Rightarrow> 'w Engine" where
  "updateInterface env perDatagram socketFailed e =
     (let (current, w) = env_localInterface env (e_world e);
          e = e\<lparr>e_checkInterface := False, e_world := w\<rparr>;
          changed = (current \<noteq> e_interface e)
      in if \<not> changed \<and> \<not> socketFailed
         then case current of
                Some iface \<Rightarrow> if e_socket e = None then engine_bind env perDatagram iface e else e
              | None \<Rightarrow> e
         else
           let e = (if e_socket e \<noteq> None
                    then endAllSessions env (if changed then DisconnectReason.Local else DisconnectReason.NetworkError) e
                    else e);
               (lost, d) = clear (e_discovery e);
               e = foldl (\<lambda>e pid. emit (newEvent PeerLost pid) e) (e\<lparr>e_discovery := d\<rparr>) lost;
               e = closeSockets env (e\<lparr>e_peersChanged := True, e_interface := current\<rparr>)
           in case current of
                Some iface \<Rightarrow> if changed then engine_bind env perDatagram iface e else e
              | None \<Rightarrow> e)"


section \<open>Receiving\<close>

definition MaxDatagramsPerPass :: nat where [constants]: "MaxDatagramsPerPass = 256"

definition sendBeacon :: "'w Environment \<Rightarrow> SocketAddress \<Rightarrow> bool \<Rightarrow> 'w Engine \<Rightarrow> 'w Engine" where
  "sendBeacon env to rep e =
     (if e_socket e = None then e
      else let (failed, w) = env_sendTo env to (the (beacon rep (e_discovery e))) (e_world e);
               e = e\<lparr>e_world := w\<rparr>
           in if failed = None
              then e\<lparr>e_datagramsSent := e_datagramsSent e + 1, e_scheduler := spend 1 (e_scheduler e)\<rparr>
              else e)"

definition engine_onBeacon :: "'w Environment \<Rightarrow> SocketAddress \<Rightarrow> bytes \<Rightarrow> TimePoint \<Rightarrow> 'w Engine \<Rightarrow> 'w Engine option" where
  "engine_onBeacon env from datagram now e =
     (if e_shutdown e then Some e
      else do { (seen, d) \<leftarrow> onBeacon from datagram now (e_discovery e);
                let e = e\<lparr>e_discovery := d\<rparr>;
                case seen_peer seen of
                  None \<Rightarrow> if sighting seen = New \<or> seen_reply seen then None else Some e
                | Some known \<Rightarrow>
                    let e = (if sighting seen = New
                             then (emit ((newEvent PeerDiscovered (peer_id (info known)))\<lparr>ev_info := info known\<rparr>) e)
                                    \<lparr>e_peersChanged := True\<rparr>
                             else e)
                    in Some (if seen_reply seen then sendBeacon env (endpoint known) True e else e) })"

definition hello_acceptable :: "SocketAddress \<Rightarrow> Hello \<Rightarrow> 'w Engine \<Rightarrow> bool" where
  "hello_acceptable from hello e \<longleftrightarrow>
     \<not> (e_shutdown e \<or> toInstance hello \<noteq> e_id e \<or> fromInstance hello = e_id e \<or>
        appIdHash hello \<noteq> my_appIdHash (dl_identity (e_discovery e)) \<or>
        \<lparr>av_major = verMajor hello, av_minor = verMinor hello\<rparr> \<noteq> my_version (dl_identity (e_discovery e)) \<or>
        length (name hello) > MaxDisplayName \<or> \<not> isInSubnet (e_discovery e) (sa_ip from))"

definition pendingCount :: "'w Engine \<Rightarrow> nat" where
  "pendingCount e = length (filter (\<lambda>(_, p). p_state p \<noteq> Connected) (e_peers e))"

text \<open>The end of \<open>onHello\<close>: the session of a sender that has none, if there is room for one.\<close>

definition admitHello ::
  "'w Environment \<Rightarrow> SocketAddress \<Rightarrow> Hello \<Rightarrow> bool \<Rightarrow> TimePoint \<Rightarrow> 'w Engine \<Rightarrow> (PeerId option \<times> 'w Engine) option" where
  "admitHello env from hello crossing now e =
     (let pid = fromInstance hello in
      if length (e_peers e) \<ge> MaxPeers \<or> pendingCount e \<ge> MaxPendingSessions then Some (None, e)
      else do { let who = \<lparr>peer_id = pid, displayName = name hello, address = toString (sa_ip from), port = sa_port from,
                           appVersion = versionText \<lparr>av_major = verMajor hello, av_minor = verMinor hello\<rparr>\<rparr>;
                e \<leftarrow> addPeer env who from now e;
                Some (Some pid,
                  if crossing \<or> cfg_autoAccept (e_config e)
                  then let e = modifyPeer pid (\<lambda>p. p\<lparr>p_announced := crossing\<rparr>) e;
                           e = tellMailbox env (publishSession pid Pending) e
                       in sendAccept env pid e
                  else let e = modifyPeer pid (\<lambda>p. p\<lparr>p_state := AwaitingDecision,
                                 p_stateDeadline := Some (now + DecisionTimeout), p_announced := True\<rparr>) e;
                           e = tellMailbox env (publishSession pid Requested) e
                       in emit ((newEvent ConnectionRequest pid)
                            \<lparr>ev_info := (case findPeer pid e of Some p \<Rightarrow> p_info p | None \<Rightarrow> noInfo)\<rparr>) e) })"

definition onHello ::
  "'w Environment \<Rightarrow> SocketAddress \<Rightarrow> DecodedPacket \<Rightarrow> TimePoint \<Rightarrow> 'w Engine \<Rightarrow> (PeerId option \<times> 'w Engine) option" where
  "onHello env from packet now e =
     (case find (\<lambda>(_, p). p_address p = from \<and> mRemoteStreamID (p_link p) = Some (srcStreamID (pkt_header packet))) (e_peers e) of
        Some (pid, _) \<Rightarrow> Some (Some pid, e)
      | None \<Rightarrow>
          (case decodeHello (pkt_body packet) of
             None \<Rightarrow> Some (None, e)
           | Some hello \<Rightarrow>
               if \<not> hello_acceptable from hello e then Some (None, e)
               else let pid = fromInstance hello
                    in case findPeer pid e of
                         None \<Rightarrow> admitHello env from hello False now e
                       | Some existing \<Rightarrow>
                           if p_state existing = Connecting \<and> p_initiator existing
                           then if e_id e > pid then Some (None, e)
                                else admitHello env from hello True now (erasePeer env pid e)
                           else admitHello env from hello False now
                                  (erasePeer env pid (report pid DisconnectReason.Lost e))))"

text \<open>The end of \<open>handleDatagram\<close>, with the peer the packet is for.\<close>

definition receivePacket ::
  "'w Environment \<Rightarrow> SocketAddress \<Rightarrow> DecodedPacket \<Rightarrow> TimePoint \<Rightarrow> PeerId option \<Rightarrow> 'w Engine \<Rightarrow> 'w Engine option" where
  "receivePacket env from packet now target e =
     (case Option.bind target (\<lambda>pid. findPeer pid e) of
        None \<Rightarrow> Some e
      | Some p \<Rightarrow>
          let pid = the target;
              early = (lane (flags (pkt_header packet)) \<noteq> Control \<and> \<not> transfersData p)
          in if p_ended p \<or> p_address p \<noteq> from then Some e
             else if early \<and> (p_state p \<noteq> Connecting \<or> p_initiator p \<or> \<not> p_acceptSent p) then Some e
             else do { let e = (if early then setConnected env pid e else e);
                       p \<leftarrow> findPeer pid e;
                       l \<leftarrow> onPacket packet now (linkOf p e);
                       Some (touch (peer_id (p_info p)) (putLink pid l e)) })"

text \<open>Whether a packet that names no link may be the first one of a link.\<close>

definition firstPacket :: "PacketHeader \<Rightarrow> bool" where
  "firstPacket h \<longleftrightarrow>
     \<not> (kind (flags h) \<noteq> Data \<or> lane (flags h) \<noteq> Control \<or> seq h \<noteq> 1 \<or> isFragmented (flags h) \<or>
        tag h \<noteq> control_value CtHello)"

definition handleDatagram :: "'w Environment \<Rightarrow> SocketAddress \<Rightarrow> bytes \<Rightarrow> TimePoint \<Rightarrow> 'w Engine \<Rightarrow> 'w Engine option" where
  "handleDatagram env from datagram now e =
     do { announces \<leftarrow> isBeacon datagram;
          if announces then engine_onBeacon env from datagram now e
          else do { decoded \<leftarrow> decodePacket datagram;
                    case decoded of
                      None \<Rightarrow> Some e
                    | Some packet \<Rightarrow>
                        if dstStreamID (pkt_header packet) = 0
                        then if \<not> firstPacket (pkt_header packet) then Some e
                             else do { (target, e) \<leftarrow> onHello env from packet now e;
                                       receivePacket env from packet now target e }
                        else receivePacket env from packet now
                               (map_of (e_byStream e) (dstStreamID (pkt_header packet))) e } }"

text \<open>The loops of \<open>receivePending\<close>: what arrived at one of the sockets, and what is done with it.\<close>

fun receiveLoop ::
  "'w Environment \<Rightarrow> bool \<Rightarrow> (SocketAddress \<Rightarrow> bytes \<Rightarrow> 'w Engine \<Rightarrow> 'w Engine option) \<Rightarrow> nat \<Rightarrow> 'w Engine \<Rightarrow> 'w Engine option" where
  "receiveLoop env which handle 0 e = Some e"
| "receiveLoop env which handle (Suc n) e =
     (let (datagram, w) = env_receive env which (e_world e); e = e\<lparr>e_world := w\<rparr>
      in case datagram of
           Inl MessageTooLarge \<Rightarrow> receiveLoop env which handle n e
         | Inl _ \<Rightarrow> Some e
         | Inr (from, bytes) \<Rightarrow> do { e \<leftarrow> handle from bytes e; receiveLoop env which handle n e })"

definition receivePending :: "'w Environment \<Rightarrow> TimePoint \<Rightarrow> 'w Engine \<Rightarrow> 'w Engine option" where
  "receivePending env now e =
     (if e_socket e = None then Some e
      else do { e \<leftarrow> receiveLoop env False (\<lambda>from bytes. handleDatagram env from bytes now) MaxDatagramsPerPass e;
                if e_beaconSocket e
                then receiveLoop env True (\<lambda>from bytes. engine_onBeacon env from bytes now) MaxDatagramsPerPass e
                else Some e })"


section \<open>Timers\<close>

definition isDue :: "TimePoint option \<Rightarrow> TimePoint \<Rightarrow> bool" where
  "isDue deadline now \<longleftrightarrow> (case deadline of Some d \<Rightarrow> d \<le> now | None \<Rightarrow> False)"

text \<open>The body of the loop of \<open>serviceTimers\<close>.\<close>

definition servicePeer :: "TimePoint \<Rightarrow> 'w Engine \<Rightarrow> PeerId \<Rightarrow> 'w Engine" where
  "servicePeer now e pid =
     (case findPeer pid e of
        None \<Rightarrow> e
      | Some p \<Rightarrow>
          let e = (if isDue (p_deadline p) now then touch pid (putLink pid (onTimer now (linkOf p e)) e) else e)
          in if isDue (p_stateDeadline p) now then touch pid e else e)"

definition serviceTimers :: "TimePoint \<Rightarrow> 'w Engine \<Rightarrow> 'w Engine" where
  "serviceTimers now e = foldl (servicePeer now) e (om_keys (e_peers e))"

definition tick :: "TimePoint \<Rightarrow> 'w Engine \<Rightarrow> 'w Engine" where
  "tick now e =
     (let e = e\<lparr>e_nextTick := Some (now + BeaconInterval), e_beaconDue := True\<rparr>;
          (lost, d) = expire now (\<lambda>pid. findPeer pid e \<noteq> None) (e_discovery e)
      in foldl (\<lambda>e pid. (emit (newEvent PeerLost pid) e)\<lparr>e_peersChanged := True\<rparr>) (e\<lparr>e_discovery := d\<rparr>) lost)"

definition pausePeer :: "bool \<Rightarrow> 'w Engine \<Rightarrow> PeerId \<Rightarrow> 'w Engine" where
  "pausePeer paused e pid = touch pid (modifyPeer pid (\<lambda>p. p\<lparr>p_link := setPaused paused (p_link p)\<rparr>) e)"

definition updatePause :: "'w Engine \<Rightarrow> 'w Engine" where
  "updatePause e =
     (let waiting = e_backlogBytes e
      in if (if e_paused e then waiting \<ge> BacklogResumeBytes else waiting \<le> BacklogPauseBytes) then e
         else let paused = (\<not> e_paused e);
                  e = e\<lparr>e_paused := paused, e_backlogPaused := paused\<rparr>
              in foldl (pausePeer paused) e (om_keys (e_peers e)))"


section \<open>Sending\<close>

definition engine_transmit ::
  "'w Environment \<Rightarrow> SocketAddress \<Rightarrow> OutgoingDatagram \<Rightarrow> 'w Engine \<Rightarrow> (Transmit \<times> 'w Engine) option" where
  "engine_transmit env a d e =
     (if e_socket e = None then Some (Transmit.Lost, e)
      else do { body \<leftarrow> datagramBody d;
                let (failed, w) = env_sendTo env a (datagramHeader d @ body) (e_world e);
                let e = e\<lparr>e_world := w\<rparr>;
                Some (case failed of
                        None \<Rightarrow> (Transmit.Sent, e\<lparr>e_datagramsSent := e_datagramsSent e + 1\<rparr>)
                      | Some err \<Rightarrow>
                          if err = WouldBlock then (Refused, e\<lparr>e_socketBlocked := True\<rparr>)
                          else if err \<in> {NetworkDown, AddressNotAvailable, SocketError.Closed, NotInitialized}
                          then (Refused, e\<lparr>e_socketBlocked := True, e_socketFailed := True\<rparr>)
                          else (Transmit.Lost, e)) })"

text \<open>The loop ends with the acknowledgements that are due, which \<open>sendAcks_returns\<close> shows.\<close>

partial_function (option) sendAcks :: "'w Environment \<Rightarrow> PeerId \<Rightarrow> 'w Engine \<Rightarrow> 'w Engine option" where
  "sendAcks env pid e =
     (case findPeer pid e of
        None \<Rightarrow> Some e
      | Some p \<Rightarrow>
          let (ack, l) = peekAck (linkOf p e); e = putLink pid l e
          in case ack of
               None \<Rightarrow> Some e
             | Some d \<Rightarrow>
                 if e_socketBlocked e then Some (e\<lparr>e_acksHeldBack := e_acksHeldBack e @ [peer_id (p_info p)]\<rparr>)
                 else Option.bind (engine_transmit env (p_address p) d e)
                   (\<lambda>(outcome, e).
                      if outcome = Refused then Some (e\<lparr>e_acksHeldBack := e_acksHeldBack e @ [peer_id (p_info p)]\<rparr>)
                      else sendAcks env pid
                             ((putLink pid (commitAck l) e)\<lparr>e_scheduler := spend 1 (e_scheduler e)\<rparr>)))"

text \<open>\<open>peek\<close> of the link of a peer, with the peer as the source of messages.\<close>

definition peekPeer :: "'w Environment \<Rightarrow> Lane \<Rightarrow> PeerId \<Rightarrow> Peer \<Rightarrow> 'w Engine \<Rightarrow> OutgoingDatagram option \<times> 'w Engine" where
  "peekPeer env la pid p e =
     (let (d, e', l) = peek (source_next env pid) la e (linkOf p e) in (d, putLink pid l e'))"

text \<open>The body of the loop of \<open>schedule\<close>.\<close>

definition scheduleLane :: "'w Environment \<Rightarrow> PeerId \<Rightarrow> 'w Engine \<Rightarrow> Lane \<Rightarrow> 'w Engine" where
  "scheduleLane env pid e la =
     (case findPeer pid e of
        None \<Rightarrow> e
      | Some p \<Rightarrow>
          if p_scheduled p AND bitOf la \<noteq> 0 then e
          else let (d, e) = peekPeer env la pid p e
               in if d = None then e
                  else modifyPeer pid (\<lambda>p. p\<lparr>p_scheduled := p_scheduled p OR bitOf la\<rparr>)
                         (e\<lparr>e_scheduler := add la (peer_id (p_info p)) (e_scheduler e)\<rparr>))"

definition schedule :: "'w Environment \<Rightarrow> PeerId \<Rightarrow> 'w Engine \<Rightarrow> 'w Engine" where
  "schedule env pid e = foldl (scheduleLane env pid) e Order"

text \<open>The function \<open>sendData\<close> passes to the scheduler.\<close>

definition sendTurn :: "'w Environment \<Rightarrow> TimePoint \<Rightarrow> 'w Engine send" where
  "sendTurn env now la pid e =
     (case findPeer pid e of
        None \<Rightarrow> Some (TurnResult.Empty, e)
      | Some p \<Rightarrow>
          let (d, e) = peekPeer env la pid p e
          in case d of
               None \<Rightarrow> Some (TurnResult.Empty, modifyPeer pid (\<lambda>p. p\<lparr>p_scheduled := p_scheduled p AND NOT (bitOf la)\<rparr>) e)
             | Some d \<Rightarrow>
                 do { (outcome, e) \<leftarrow> engine_transmit env (p_address p) d e;
                      if outcome = Refused then Some (TurnResult.Blocked, e)
                      else do { p \<leftarrow> findPeer pid e;
                                let l = commit la now (linkOf p e);
                                let e = modifyPeer pid (\<lambda>p. p\<lparr>p_deadline := nextDeadline l\<rparr>) (putLink pid l e);
                                Some (if outcome = Transmit.Sent then TurnResult.Sent else TurnResult.Lost, e) } })"

definition sendData :: "'w Environment \<Rightarrow> TimePoint \<Rightarrow> 'w Engine \<Rightarrow> 'w Engine option" where
  "sendData env now e =
     do { (s, e) \<leftarrow> run (sendTurn env now) (e_scheduler e) e; Some (e\<lparr>e_scheduler := s\<rparr>) }"

text \<open>The conversion to \<open>float\<close>, for a number that is not negative: 24 significant bits.\<close>

definition toFloat :: "rat \<Rightarrow> rat" where
  "toFloat x = (if x = 0 then 0 else of_int (round_even (x * pow2 (23 - exponent x))) * pow2 (exponent x - 23))"

definition statsOf :: "Peer \<Rightarrow> PeerStats \<times> Peer" where
  "statsOf p =
     (let st = mStats (p_link p);
          p = (if mediaReceivedByPeer st \<noteq> p_mediaReceivedAtReport p
               then let sent = rnd (of_nat (unat (mediaSent st - p_mediaSentAtReport p)));
                        received = rnd (of_nat (unat (mediaReceivedByPeer st - p_mediaReceivedAtReport p)));
                        p = (if sent > 0
                             then p\<lparr>p_mediaLoss := toFloat (min 1 (max 0 (rnd (1 - rnd (received / sent)))))\<rparr> else p)
                    in p\<lparr>p_mediaSentAtReport := mediaSent st, p_mediaReceivedAtReport := mediaReceivedByPeer st\<rparr>
               else p)
      in (\<lparr>ps_rtt = rtt_srtt (mRtt (p_link p)), ps_bytesQueued = 0, ps_bytesSent = bytesSent st,
           ps_bytesReceived = bytesReceived st, ps_retransmissions = retransmissions st, ps_mediaSent = mediaSent st,
           ps_mediaDropped = 0, ps_mediaIncomplete = mediaIncomplete (p_link p), ps_mediaLoss = p_mediaLoss p\<rparr>, p))"


section \<open>A step\<close>

text \<open>\<open>takeBatch\<close>: the share of the backlog is counted when the batch is made.\<close>

definition payload :: "EngineEvent \<Rightarrow> nat" where
  "payload ev = (if ev_kind ev = EventKind.Message then length (message_data (ev_message ev)) else 0)"

definition takeBatch :: "'w Engine \<Rightarrow> EventBatch \<times> 'w Engine" where
  "takeBatch e =
     (let bytes = sum_list (map payload (e_events e))
      in (\<lparr>batch_events = e_events e, batch_bytes = bytes\<rparr>,
          e\<lparr>e_events := [], e_backlogBytes := e_backlogBytes e + bytes\<rparr>))"

definition earlier :: "TimePoint option \<Rightarrow> TimePoint option \<Rightarrow> TimePoint option" where
  "earlier a b =
     (case (a, b) of (None, _) \<Rightarrow> b | (Some x, None) \<Rightarrow> a | (Some x, Some y) \<Rightarrow> Some (min x y))"

definition markReady :: "'w Engine \<Rightarrow> PeerId \<Rightarrow> 'w Engine" where
  "markReady e pid =
     (if findPeer pid e = None then e else touch pid (modifyPeer pid (\<lambda>p. p\<lparr>p_unsettled := True\<rparr>) e))"

text \<open>The parts of \<open>step\<close>: commands; adapter, receiving and timers; what every touched peer sends; the end.\<close>

definition stepCommands :: "'w Environment \<Rightarrow> TimePoint \<Rightarrow> 'w Engine \<Rightarrow> 'w Engine option" where
  "stepCommands env now e =
     (let e = e\<lparr>e_touched := e_acksHeldBack e, e_acksHeldBack := []\<rparr>;
          (work, e) = onMailbox env drain e
      in do { e \<leftarrow> foldM (apply_command env now) (work_commands work) e;
              Some (foldl markReady e (work_ready work)) })"

definition tickDue :: "TimePoint \<Rightarrow> 'w Engine \<Rightarrow> bool" where
  "tickDue now e \<longleftrightarrow> \<not> e_shutdown e \<and> (e_nextTick e = None \<or> now \<ge> the (e_nextTick e))"

definition stepReceive :: "'w Environment \<Rightarrow> int \<Rightarrow> TimePoint \<Rightarrow> 'w Engine \<Rightarrow> 'w Engine option" where
  "stepReceive env perDatagram now e =
     (let due = tickDue now e;
          e = (if \<not> e_shutdown e \<and> (due \<or> e_checkInterface e \<or> e_socketFailed e)
               then updateInterface env perDatagram (e_socketFailed e) (e\<lparr>e_socketFailed := False\<rparr>) else e);
          e = updatePause e
      in do { e \<leftarrow> receivePending env now e;
              let e = serviceTimers now e;
              let e = (if due then tick now e else e);
              let announce = (e_beaconDue e \<and> dl_announcing (e_discovery e) \<and> \<not> e_shutdown e);
              let e = e\<lparr>e_beaconDue := False\<rparr>;
              Some (if announce
                    then sendBeacon env \<lparr>sa_ip = broadcastAddress (e_discovery e), sa_port = cfg_discoveryPort (e_config e)\<rparr> False e
                    else e) })"

text \<open>The bodies of the loops over \<open>mTouched\<close>.\<close>

definition servePeer :: "'w Environment \<Rightarrow> TimePoint \<Rightarrow> PeerId \<Rightarrow> 'w Engine \<Rightarrow> 'w Engine option" where
  "servePeer env now pid e =
     (if findPeer pid e = None then Some e
      else do { e \<leftarrow> sendAcks env pid (advance env pid now e);
                Some (case findPeer pid e of
                        None \<Rightarrow> e
                      | Some p \<Rightarrow> if p_ended p then e else schedule env pid e) })"

definition settlePeer :: "'w Environment \<Rightarrow> 'w Engine \<Rightarrow> PeerId \<Rightarrow> 'w Engine" where
  "settlePeer env e pid =
     (case findPeer pid e of
        None \<Rightarrow> e
      | Some p \<Rightarrow>
          if p_ended p then e
          else
            let e = modifyPeer pid (\<lambda>p. p\<lparr>p_deadline := nextDeadline (p_link p)\<rparr>) e;
                e = (if p_unsettled p \<and> \<not> hasPendingReliable (p_link p)
                     then let (settled, e) = onMailbox env (settle pid) e
                          in modifyPeer pid (\<lambda>p. p\<lparr>p_unsettled := \<not> settled\<rparr>) e
                     else e)
            in if p_state p = Connected
               then tellMailbox env (publishStats pid (fst (statsOf p))) (modifyPeer pid (\<lambda>p. snd (statsOf p)) e)
               else e)"

definition stepSend :: "'w Environment \<Rightarrow> TimePoint \<Rightarrow> 'w Engine \<Rightarrow> 'w Engine option" where
  "stepSend env now e =
     (let e = e\<lparr>e_touched := remdups_adj (sort (e_touched e))\<rparr>;
          e = e\<lparr>e_scheduler := refill now (e_scheduler e), e_socketBlocked := False\<rparr>
      in do { e \<leftarrow> foldM (servePeer env now) (e_touched e) e;
              e \<leftarrow> (if e_socketBlocked e then Some e else sendData env now e);
              Some (foldl (settlePeer env) e (e_touched e)) })"

definition eraseEnded :: "'w Environment \<Rightarrow> 'w Engine \<Rightarrow> PeerId \<Rightarrow> 'w Engine" where
  "eraseEnded env e pid =
     (case findPeer pid e of None \<Rightarrow> e | Some p \<Rightarrow> if p_ended p then erasePeer env pid e else e)"

definition nextWakeOf :: "TimePoint \<Rightarrow> 'w Engine \<Rightarrow> TimePoint option" where
  "nextWakeOf now e =
     (let wake = foldl (\<lambda>wake (_, p). earlier (earlier wake (p_deadline p)) (p_stateDeadline p))
            (if e_shutdown e then None else e_nextTick e) (e_peers e)
      in if e_waitingForTick e \<or> e_socketFailed e then earlier wake (Some (now + Tick)) else wake)"

definition stepFinish :: "'w Environment \<Rightarrow> TimePoint \<Rightarrow> 'w Engine \<Rightarrow> 'w Engine" where
  "stepFinish env now e =
     (let ended = e_ended e;
          e = foldl (eraseEnded env) (e\<lparr>e_ended := []\<rparr>) ended;
          e = (if e_peersChanged e
               then tellMailbox env (publishDiscovered (peers (e_discovery e))) (e\<lparr>e_peersChanged := False\<rparr>) else e);
          e = e\<lparr>e_waitingForTick := (e_socketBlocked e \<or> hasBacklog (e_scheduler e) \<or> e_acksHeldBack e \<noteq> [])\<rparr>
      in e\<lparr>e_nextWake := nextWakeOf now e\<rparr>)"

definition step :: "'w Environment \<Rightarrow> int \<Rightarrow> TimePoint \<Rightarrow> 'w Engine \<Rightarrow> (EventBatch \<times> 'w Engine) option" where
  "step env perDatagram now e =
     do { e \<leftarrow> stepCommands env now e;
          e \<leftarrow> stepReceive env perDatagram now e;
          e \<leftarrow> stepSend env now e;
          Some (takeBatch (stepFinish env now e)) }"

text \<open>\<open>fail\<close>, which ends the loop after an exception, and \<open>finished\<close>.\<close>

definition fail :: "'w Environment \<Rightarrow> 'w Engine \<Rightarrow> EventBatch \<times> 'w Engine" where
  "fail env e = takeBatch (tellMailbox env (setRunning False) (endAllSessions env DisconnectReason.NetworkError (e\<lparr>e_events := []\<rparr>)))"

definition finished :: "'w Engine \<Rightarrow> bool" where
  "finished e \<longleftrightarrow> e_shutdown e \<and> e_peers e = []"

text \<open>The timeout of \<open>waitForWork\<close>, in microseconds, at the time \<open>now\<close>.\<close>

definition MaxWait :: int where [constants]: "MaxWait = seconds 3600"

definition waitTimeout :: "TimePoint option \<Rightarrow> TimePoint \<Rightarrow> int" where
  "waitTimeout wake now =
     (case wake of
        None \<Rightarrow> MaxWait div 1000
      | Some w \<Rightarrow> if w \<le> now then 1000
                  else if w - now < MaxWait then (w - now + 999) div 1000
                  else MaxWait div 1000)"

text \<open>What \<open>waitForWork\<close> notes of a wait: \<open>None\<close> for one a datagram ended.\<close>

definition noteWait :: "SocketError option \<Rightarrow> 'w Engine \<Rightarrow> 'w Engine" where
  "noteWait failed e =
     (case failed of
        None \<Rightarrow> e
      | Some err \<Rightarrow> if err \<noteq> Timeout \<and> err \<noteq> Cancelled then e\<lparr>e_socketFailed := True\<rparr> else e)"

end
