(* ===== verification/EngineSessions.thy ===== *)
theory EngineSessions
  imports EngineIo LinkFrames
begin

text \<open>
  The sessions of the engine: the events that name a peer follow the protocol \<open>NetLink.h\<close> promises to
  the application. The invariant ties what the application was told of a peer to the entry of the peer in
  the table of sessions; every operation of a step keeps it. Most operations change nothing the invariant
  looks at, which is the relation \<open>same_core\<close>.
\<close>

section \<open>Operations as relations\<close>

text \<open>A relation between the engines before and after, closed under the loops of the code.\<close>

locale engine_preorder =
  fixes rel :: "'w Engine \<Rightarrow> 'w Engine \<Rightarrow> bool"
  assumes rel_refl: "rel e e"
    and rel_trans: "rel a b \<Longrightarrow> rel b c \<Longrightarrow> rel a c"
begin

lemma rel_foldl: "(\<And>e x. rel e (f e x)) \<Longrightarrow> rel e (foldl f e xs)"
  by (rule foldl_invariant [of "rel e"]) (auto intro: rel_refl rel_trans)

lemma rel_foldM: "foldM f xs e = Some e' \<Longrightarrow> (\<And>x e e'. f x e = Some e' \<Longrightarrow> rel e e') \<Longrightarrow> rel e e'"
proof (induction xs arbitrary: e)
  case Nil
  have "e' = e"
    using Nil.prems(1) by simp
  then show ?case
    by (simp add: rel_refl)
next
  case (Cons x xs)
  then obtain e1 where "f x e = Some e1" "foldM f xs e1 = Some e'"
    by (auto simp: Option.bind_eq_Some_conv)
  then show ?case
    using Cons rel_trans by blast
qed

text \<open>What \<open>peek\<close> does to its source is what the source does.\<close>

lemma rel_peek:
  assumes source: "\<And>e la. rel e (snd (nxt e la))"
  shows "rel e (fst (snd (peek nxt la e l)))"
proof -
  have fragment: "rel e (fst (snd (peekFragment nxt la e l)))" for l
    by (cases rule: peekFragment_cases [of nxt la e l])
       (use source [of e la] in \<open>auto simp: rel_refl Let_def split_beta\<close>)
  have media: "rel e (fst (snd (peekMedia nxt e l)))"
    using source [of e Media] by (auto simp: peekMedia_def rel_refl Let_def split: option.splits prod.splits)
  show ?thesis
  proof (cases "la = Media")
    case True
    then show ?thesis
      using media by (simp add: peek_def rel_refl)
  next
    case False
    then show ?thesis
      by (cases rule: peek_cases [of la nxt e l]) (use fragment in \<open>auto simp: rel_refl Let_def split_beta\<close>)
  qed
qed

end

text \<open>What the invariant sees of a session.\<close>

definition pview :: "Peer \<Rightarrow> PeerId \<times> PeerState \<times> TimePoint option \<times> bool \<times> bool \<times> bool \<times> bool \<times> u32" where
  "pview p =
     (peer_id (p_info p), p_state p, p_stateDeadline p, p_closeSent p, p_announced p, p_reported p, p_ended p,
      mLocalStreamID (p_link p))"

definition same_core :: "'w Engine \<Rightarrow> 'w Engine \<Rightarrow> bool" where
  "same_core e e' \<longleftrightarrow>
     om_keys (e_peers e') = om_keys (e_peers e) \<and>
     (\<forall>pid. map_option pview (findPeer pid e') = map_option pview (findPeer pid e)) \<and>
     e_events e' = e_events e \<and> e_socket e' = e_socket e \<and> e_discovery e' = e_discovery e \<and>
     e_byStream e' = e_byStream e \<and> e_id e' = e_id e"

lemma same_core_refl [simp]: "same_core e e"
  by (simp add: same_core_def)

lemma same_core_trans [trans]: "same_core a b \<Longrightarrow> same_core b c \<Longrightarrow> same_core a c"
  by (simp add: same_core_def)

lemma tellMailbox_fields [simp]:
  "e_peers (tellMailbox env f e) = e_peers e" "e_events (tellMailbox env f e) = e_events e"
  "e_socket (tellMailbox env f e) = e_socket e" "e_discovery (tellMailbox env f e) = e_discovery e"
  "e_byStream (tellMailbox env f e) = e_byStream e" "e_id (tellMailbox env f e) = e_id e"
  "e_touched (tellMailbox env f e) = e_touched e" "e_scheduler (tellMailbox env f e) = e_scheduler e"
  "e_ended (tellMailbox env f e) = e_ended e" "e_config (tellMailbox env f e) = e_config e"
  "e_budget (tellMailbox env f e) = e_budget e" "e_shutdown (tellMailbox env f e) = e_shutdown e"
  by (simp_all add: tellMailbox_def onMailbox_def Let_def split_beta)

lemma onMailbox_fields [simp]:
  "e_peers (snd (onMailbox env f e)) = e_peers e" "e_events (snd (onMailbox env f e)) = e_events e"
  "e_socket (snd (onMailbox env f e)) = e_socket e" "e_discovery (snd (onMailbox env f e)) = e_discovery e"
  "e_byStream (snd (onMailbox env f e)) = e_byStream e" "e_id (snd (onMailbox env f e)) = e_id e"
  "e_touched (snd (onMailbox env f e)) = e_touched e" "e_scheduler (snd (onMailbox env f e)) = e_scheduler e"
  "e_ended (snd (onMailbox env f e)) = e_ended e" "e_config (snd (onMailbox env f e)) = e_config e"
  "e_budget (snd (onMailbox env f e)) = e_budget e" "e_shutdown (snd (onMailbox env f e)) = e_shutdown e"
  by (simp_all add: onMailbox_def Let_def split_beta)

lemma modifyPeer_fields [simp]:
  "e_peers (modifyPeer pid f e) = om_modify pid f (e_peers e)" "e_events (modifyPeer pid f e) = e_events e"
  "e_socket (modifyPeer pid f e) = e_socket e" "e_discovery (modifyPeer pid f e) = e_discovery e"
  "e_byStream (modifyPeer pid f e) = e_byStream e" "e_id (modifyPeer pid f e) = e_id e"
  "e_touched (modifyPeer pid f e) = e_touched e" "e_scheduler (modifyPeer pid f e) = e_scheduler e"
  "e_ended (modifyPeer pid f e) = e_ended e" "e_config (modifyPeer pid f e) = e_config e"
  "e_budget (modifyPeer pid f e) = e_budget e" "e_shutdown (modifyPeer pid f e) = e_shutdown e"
  by (simp_all add: modifyPeer_def)

lemma om_modify_empty [simp]: "om_modify pid f m = [] \<longleftrightarrow> m = []"
  by (simp add: om_modify_def)

lemma findPeer_modify [simp]:
  "findPeer k (modifyPeer pid f e) = (if k = pid then map_option f (findPeer k e) else findPeer k e)"
  by (simp add: findPeer_def)

lemma findPeer_same [simp]: "findPeer k (tellMailbox env f e) = findPeer k e"
  "findPeer k (snd (onMailbox env g e)) = findPeer k e" "findPeer k (touch pid e) = findPeer k e"
  "findPeer k (emit ev e) = findPeer k e"
  by (simp_all add: findPeer_def touch_def emit_def)

lemma touch_fields [simp]:
  "e_peers (touch pid e) = e_peers e" "e_events (touch pid e) = e_events e" "e_socket (touch pid e) = e_socket e"
  "e_discovery (touch pid e) = e_discovery e" "e_byStream (touch pid e) = e_byStream e" "e_id (touch pid e) = e_id e"
  "e_scheduler (touch pid e) = e_scheduler e" "e_shutdown (touch pid e) = e_shutdown e"
  by (simp_all add: touch_def)

lemma emit_fields [simp]:
  "e_peers (emit ev e) = e_peers e" "e_events (emit ev e) = e_events e @ [ev]" "e_socket (emit ev e) = e_socket e"
  "e_discovery (emit ev e) = e_discovery e" "e_byStream (emit ev e) = e_byStream e" "e_id (emit ev e) = e_id e"
  "e_scheduler (emit ev e) = e_scheduler e" "e_shutdown (emit ev e) = e_shutdown e" "e_touched (emit ev e) = e_touched e"
  by (simp_all add: emit_def)

lemma destroyLink_fields [simp]:
  "e_peers (destroyLink p e) = e_peers e" "e_events (destroyLink p e) = e_events e"
  "e_socket (destroyLink p e) = e_socket e" "e_discovery (destroyLink p e) = e_discovery e"
  "e_byStream (destroyLink p e) = e_byStream e" "e_id (destroyLink p e) = e_id e"
  "e_scheduler (destroyLink p e) = e_scheduler e" "e_shutdown (destroyLink p e) = e_shutdown e"
  by (simp_all add: destroyLink_def)

text \<open>Changes the invariant does not see.\<close>

lemma same_core_tell [simp]: "same_core e (tellMailbox env f e)" "same_core e (snd (onMailbox env g e))"
  "same_core e (touch pid e)" "same_core e (destroyLink p e)"
  by (simp_all add: same_core_def findPeer_def)

lemma same_core_fields [simp]:
  "same_core e (e\<lparr>e_world := a\<rparr>)" "same_core e (e\<lparr>e_scheduler := b\<rparr>)" "same_core e (e\<lparr>e_ended := c\<rparr>)"
  "same_core e (e\<lparr>e_touched := c\<rparr>)" "same_core e (e\<lparr>e_acksHeldBack := c\<rparr>)" "same_core e (e\<lparr>e_beaconDue := d\<rparr>)"
  "same_core e (e\<lparr>e_socketBlocked := d\<rparr>)" "same_core e (e\<lparr>e_socketFailed := d\<rparr>)" "same_core e (e\<lparr>e_checkInterface := d\<rparr>)"
  "same_core e (e\<lparr>e_peersChanged := d\<rparr>)" "same_core e (e\<lparr>e_waitingForTick := d\<rparr>)" "same_core e (e\<lparr>e_nextWake := t\<rparr>)"
  "same_core e (e\<lparr>e_nextTick := t\<rparr>)" "same_core e (e\<lparr>e_paused := d\<rparr>)" "same_core e (e\<lparr>e_backlogPaused := d\<rparr>)"
  "same_core e (e\<lparr>e_budget := g\<rparr>)" "same_core e (e\<lparr>e_datagramsSent := n\<rparr>)" "same_core e (e\<lparr>e_shutdown := d\<rparr>)"
  "same_core e (e\<lparr>e_inboxes := x\<rparr>)" "same_core e (e\<lparr>e_nextInbox := y\<rparr>)" "same_core e (e\<lparr>e_interface := i\<rparr>)"
  "same_core e (e\<lparr>e_beaconSocket := d\<rparr>)" "same_core e (e\<lparr>e_mailbox := mb\<rparr>)"
  by (simp_all add: same_core_def findPeer_def)

lemma same_core_after [simp]:
  "same_core e (tellMailbox env f e1) = same_core e e1" "same_core e (snd (onMailbox env g e1)) = same_core e e1"
  "same_core e (touch pid e1) = same_core e e1" "same_core e (e1\<lparr>e_scheduler := b\<rparr>) = same_core e e1"
  "same_core e (e1\<lparr>e_ended := c\<rparr>) = same_core e e1"
  by (simp_all add: same_core_def findPeer_def)

lemma same_core_modify:
  "(\<And>p. findPeer pid e = Some p \<Longrightarrow> pview (f p) = pview p) \<Longrightarrow> same_core e (modifyPeer pid f e)"
  by (cases "findPeer pid e") (auto simp: same_core_def)

lemma same_core_putLink:
  assumes "findPeer pid e = Some p" and "mLocalStreamID l = mLocalStreamID (p_link p)"
  shows "same_core e (putLink pid l e)"
proof -
  have "same_core (e\<lparr>e_budget := budgetOf l (e_budget e)\<rparr>) (putLink pid l e)"
    unfolding putLink_def using assms by (intro same_core_modify) (simp add: findPeer_def pview_def)
  then show ?thesis
    using same_core_trans [OF same_core_fields(16)] by blast
qed

interpretation core: engine_preorder same_core
  by unfold_locales (simp, blast intro: same_core_trans)

lemma linkOf_id [simp]: "mLocalStreamID (linkOf p e) = mLocalStreamID (p_link p)"
  by (simp add: linkOf_def)

lemma pushControl_core [simp]: "same_core e (pushControl pid t body e)"
  unfolding pushControl_def by (rule same_core_modify) (simp add: pview_def)

lemma source_next_core: "same_core e (snd (source_next env pid e la))"
proof (cases "findPeer pid e")
  case None
  then show ?thesis by (simp add: source_next_def)
next
  case (Some p)
  show ?thesis
  proof (cases "la = Control")
    case True
    then show ?thesis
      using Some by (cases "p_control p") (auto simp: source_next_def pview_def intro: same_core_modify)
  next
    case False
    then show ?thesis
      using Some by (simp add: source_next_def split_beta)
  qed
qed

lemma linkID_kept: "same_recv l l' \<Longrightarrow> mLocalStreamID l' = mLocalStreamID l"
  by (simp add: same_recv_def)

lemma peekPeer_core: "findPeer pid e = Some p \<Longrightarrow> same_core e (snd (peekPeer env la pid p e))"
proof -
  assume p: "findPeer pid e = Some p"
  obtain d e' l where peek: "peek (source_next env pid) la e (linkOf p e) = (d, e', l)"
    by (metis prod_cases3)
  have "same_core e (fst (snd (peek (source_next env pid) la e (linkOf p e))))"
    by (rule core.rel_peek) (rule source_next_core)
  then have source: "same_core e e'"
    using peek by simp
  have "mLocalStreamID l = mLocalStreamID (p_link p)"
    using linkID_kept [OF same_recv_peek [of "linkOf p e" "source_next env pid" la e]] peek by simp
  moreover obtain p' where "findPeer pid e' = Some p'" "pview p' = pview p"
    using source p unfolding same_core_def by (metis map_option_eq_Some)
  ultimately have "same_core e' (putLink pid l e')"
    by (intro same_core_putLink [of pid e' p']) (simp_all add: pview_def)
  then show ?thesis
    using same_core_trans [OF source] peek by (simp add: peekPeer_def)
qed


lemma same_core_find: "same_core e e' \<Longrightarrow> findPeer pid e = Some p \<Longrightarrow> \<exists>p'. findPeer pid e' = Some p' \<and> pview p' = pview p"
  unfolding same_core_def by (metis map_option_eq_Some)

lemma transmit_changes:
  assumes "engine_transmit env a d e = Some (r, e')"
  obtains w n blocked failed where
    "e' = e\<lparr>e_world := w, e_datagramsSent := n, e_socketBlocked := blocked, e_socketFailed := failed\<rparr>"
proof (cases "e_socket e")
  case None
  then have "e' = e\<lparr>e_world := e_world e, e_datagramsSent := e_datagramsSent e, e_socketBlocked := e_socketBlocked e,
      e_socketFailed := e_socketFailed e\<rparr>"
    using assms by (simp add: engine_transmit_def)
  then show ?thesis
    using that by blast
next
  case (Some s)
  obtain body where body: "datagramBody d = Some body"
    using assms Some by (cases "datagramBody d") (simp_all add: engine_transmit_def)
  obtain failed w where sent: "env_sendTo env a (datagramHeader d @ body) (e_world e) = (failed, w)"
    by (cases "env_sendTo env a (datagramHeader d @ body) (e_world e)")
  have "e' = e\<lparr>e_world := w, e_datagramsSent := e_datagramsSent e', e_socketBlocked := e_socketBlocked e',
      e_socketFailed := e_socketFailed e'\<rparr>"
    using assms Some body sent by (cases failed) (auto simp: engine_transmit_def Let_def split: if_splits)
  then show ?thesis
    by (rule that)
qed

lemma transmit_core: "engine_transmit env a d e = Some (r, e') \<Longrightarrow> same_core e e'"
  by (erule transmit_changes) (simp add: same_core_def findPeer_def)

lemma linkID_peekAck [simp]: "mLocalStreamID (snd (peekAck l)) = mLocalStreamID l"
  using same_send_peekAck [of l] by (simp add: same_send_def)

lemma linkID_commitAck [simp]: "mLocalStreamID (commitAck l) = mLocalStreamID l"
  using same_send_commitAck [of l] by (simp add: same_send_def)

lemma linkID_commit [simp]: "mLocalStreamID (commit la now l) = mLocalStreamID l"
  using same_recv_commit [of l la now] by (simp add: same_recv_def)

lemma linkID_setPaused [simp]: "mLocalStreamID (setPaused b l) = mLocalStreamID l"
  using same_send_setPaused [of l b] by (simp add: same_send_def)

lemma linkID_supervise [simp]: "mLocalStreamID (supervise now l) = mLocalStreamID l"
  by (simp add: supervise_def)

lemma linkID_takeDelivered [simp]: "mLocalStreamID (snd (takeDelivered l)) = mLocalStreamID l"
  by (simp add: takeDelivered_def)

lemma linkID_onTimer [simp]: "mLocalStreamID (onTimer now l) = mLocalStreamID l"
proof (cases "overdue now l")
  case True
  have "mLocalStreamID (foldl dropStream l las) = mLocalStreamID l" for las
    by (rule foldl_invariant) (simp_all add: dropStream_def split: option.splits)
  then show ?thesis
    using True by (simp add: onTimer_def linkFail_def resetStreams_def Let_def)
next
  case False
  then show ?thesis
    by (rule linkID_kept [OF same_recv_onTimer])
qed

lemma linkID_onPacket: "onPacket p now l = Some l' \<Longrightarrow> mLocalStreamID l' = mLocalStreamID l"
proof -
  assume packet: "onPacket p now l = Some l'"
  have media: "mLocalStreamID l2 = mLocalStreamID l1" if "handleMedia h b l1 = Some l2" for h b l1 l2
    using same_send_handleMedia [OF that] by (simp add: same_send_def)
  have data: "mLocalStreamID (handleData la h b l1) = mLocalStreamID l1" if "la \<noteq> Media" for la h b l1
    using same_send_handleData [OF that, of l1 h b] by (simp add: same_send_def)
  have ack: "mLocalStreamID (handleAck la h b now l1) = mLocalStreamID l1" for la h b l1
    using same_recv_handleAck [of l1 la h b now] by (simp add: same_recv_def)
  show ?thesis
    using packet media data ack by (auto simp: onPacket_def Let_def split: if_splits PacketKind.splits)
qed

text \<open>What the parts of a round of \<open>sendAcks\<close> keep, the loop keeps.\<close>

lemma sendAcks_rule:
  assumes "sendAcks env pid e = Some e'" and "I e"
    and put: "\<And>e p l. I e \<Longrightarrow> findPeer pid e = Some p \<Longrightarrow> mLocalStreamID l = mLocalStreamID (p_link p) \<Longrightarrow> I (putLink pid l e)"
    and hold: "\<And>e x. I e \<Longrightarrow> I (e\<lparr>e_acksHeldBack := x\<rparr>)"
    and sent: "\<And>e a d r e'. I e \<Longrightarrow> engine_transmit env a d e = Some (r, e') \<Longrightarrow> I e'"
    and spent: "\<And>e. I e \<Longrightarrow> I (e\<lparr>e_scheduler := spend 1 (e_scheduler e)\<rparr>)"
  shows "I e'"
proof -
  let ?P = "\<lambda>env' pid' e e'. env' = env \<longrightarrow> pid' = pid \<longrightarrow> I e \<longrightarrow> I e'"
  have "?P env pid e e'"
  proof (rule sendAcks.raw_induct [of ?P, OF _ assms(1)], intro impI)
    fix rec env' pid' e r
    assume IH: "\<And>env' pid' e r. rec env' pid' e = Some r \<Longrightarrow> ?P env' pid' e r"
      and eq: "(case findPeer pid' e of None \<Rightarrow> Some e
        | Some p \<Rightarrow>
            let (ack, l) = peekAck (linkOf p e); e = putLink pid' l e
            in case ack of None \<Rightarrow> Some e
               | Some d \<Rightarrow>
                   if e_socketBlocked e then Some (e\<lparr>e_acksHeldBack := e_acksHeldBack e @ [peer_id (p_info p)]\<rparr>)
                   else Option.bind (engine_transmit env' (p_address p) d e)
                     (\<lambda>(outcome, e).
                        if outcome = Refused then Some (e\<lparr>e_acksHeldBack := e_acksHeldBack e @ [peer_id (p_info p)]\<rparr>)
                        else rec env' pid' ((putLink pid' (commitAck l) e)\<lparr>e_scheduler := spend 1 (e_scheduler e)\<rparr>))) = Some r"
      and "env' = env" "pid' = pid" and I: "I e"
    note same = \<open>env' = env\<close> \<open>pid' = pid\<close>
    show "I r"
    proof (cases "findPeer pid e")
      case None
      then show ?thesis
        using eq I same by simp
    next
      case (Some p)
      obtain ack l where ack: "peekAck (linkOf p e) = (ack, l)"
        by (cases "peekAck (linkOf p e)")
      have l: "mLocalStreamID l = mLocalStreamID (p_link p)"
        using linkID_peekAck [of "linkOf p e"] ack by simp
      have putI: "I (putLink pid l e)"
        using I Some l by (rule put)
      have next_round: "I r" if s: "engine_transmit env (p_address p) d (putLink pid l e) = Some (outcome, e2)"
        and more: "rec env pid ((putLink pid (commitAck l) e2)\<lparr>e_scheduler := spend 1 (e_scheduler e2)\<rparr>) = Some r"
        for d outcome e2
      proof -
        have e2: "I e2"
          using sent [OF putI s] .
        have "e_peers e2 = e_peers (putLink pid l e)"
          by (rule transmit_changes [OF s]) simp
        then have "findPeer pid e2 = Some (p\<lparr>p_link := l\<rparr>)"
          using Some by (simp add: findPeer_def putLink_def)
        then have "I (putLink pid (commitAck l) e2)"
          using put [OF e2] by simp
        moreover have "e_scheduler (putLink pid (commitAck l) e2) = e_scheduler e2"
          by (simp add: putLink_def)
        ultimately show ?thesis
          using IH [OF more] spent by force
      qed
      show ?thesis
      proof (cases "ack = None \<or> e_socketBlocked (putLink pid l e)")
        case True
        then show ?thesis
          using eq Some same ack putI hold [OF putI] by (cases ack) (auto simp: Let_def)
      next
        case False
        then obtain d outcome e2 where d: "ack = Some d"
          and s: "engine_transmit env (p_address p) d (putLink pid l e) = Some (outcome, e2)"
          using eq Some same ack by (auto simp: Option.bind_eq_Some_conv Let_def)
        then show ?thesis
          using eq Some same ack False next_round [OF s] hold [OF sent [OF putI s]]
          by (cases "outcome = Refused") (auto simp: Let_def)
      qed
    qed
  qed
  then show ?thesis
    using assms(2) by simp
qed

lemma sendAcks_core: "sendAcks env pid e = Some e' \<Longrightarrow> same_core e e'"
proof (rule sendAcks_rule [of env pid e e' "same_core e"])
  fix e1 p and l :: Link
  assume "same_core e e1" "findPeer pid e1 = Some p" "mLocalStreamID l = mLocalStreamID (p_link p)"
  then show "same_core e (putLink pid l e1)"
    using same_core_putLink same_core_trans by blast
next
  fix e1 a d r e2
  assume "same_core e e1" "engine_transmit env a d e1 = Some (r, e2)"
  then show "same_core e e2"
    using transmit_core same_core_trans by blast
qed (simp_all add: same_core_def findPeer_def)


lemma scheduleLane_core: "same_core (e :: 'w Engine) (scheduleLane env pid e la)"
proof (cases "findPeer pid e")
  case (Some p)
  have "same_core e1 (modifyPeer pid (\<lambda>p. p\<lparr>p_scheduled := p_scheduled p OR bitOf la\<rparr>) e1)" for e1 :: "'w Engine"
    by (rule same_core_modify) (simp add: pview_def)
  then have "same_core e (modifyPeer pid (\<lambda>p. p\<lparr>p_scheduled := p_scheduled p OR bitOf la\<rparr>) (e1\<lparr>e_scheduler := s\<rparr>))"
    if "same_core e e1" for e1 :: "'w Engine" and s
    using that same_core_trans same_core_after(4) by blast
  then show ?thesis
    using Some peekPeer_core [OF Some, of env la] by (simp add: scheduleLane_def split_beta)
qed (simp add: scheduleLane_def)

lemma schedule_core: "same_core e (schedule env pid e)"
  unfolding schedule_def by (rule core.rel_foldl) (rule scheduleLane_core)

lemma sendTurn_core:
  assumes "sendTurn env now la pid e = Some (r, e')"
  shows "same_core e e'"
proof (cases "findPeer pid e")
  case None
  then show ?thesis
    using assms by (simp add: sendTurn_def)
next
  case (Some p)
  obtain d e1 where peek: "peekPeer env la pid p e = (d, e1)"
    by (cases "peekPeer env la pid p e")
  have e1: "same_core e e1"
    using peekPeer_core [OF Some, of env la] peek by simp
  show ?thesis
  proof (cases d)
    case None
    have "same_core e1 (modifyPeer pid (\<lambda>p. p\<lparr>p_scheduled := p_scheduled p AND NOT (bitOf la)\<rparr>) e1)"
      by (rule same_core_modify) (simp add: pview_def)
    then show ?thesis
      using assms Some peek None same_core_trans [OF e1] by (simp add: sendTurn_def)
  next
    case d: (Some dg)
    then obtain outcome e2 where sent: "engine_transmit env (p_address p) dg e1 = Some (outcome, e2)"
      using assms Some peek by (auto simp: sendTurn_def Option.bind_eq_Some_conv)
    have e2: "same_core e e2"
      using same_core_trans [OF e1 transmit_core [OF sent]] .
    then obtain p2 where p2: "findPeer pid e2 = Some p2"
      using same_core_find [OF e2 Some] by blast
    let ?l = "commit la now (linkOf p2 e2)"
    have "same_core e2 (putLink pid ?l e2)"
      using p2 by (rule same_core_putLink) simp
    moreover have "same_core (putLink pid ?l e2) (modifyPeer pid (\<lambda>p. p\<lparr>p_deadline := nextDeadline ?l\<rparr>) (putLink pid ?l e2))"
      by (rule same_core_modify) (simp add: pview_def)
    ultimately have "same_core e (modifyPeer pid (\<lambda>p. p\<lparr>p_deadline := nextDeadline ?l\<rparr>) (putLink pid ?l e2))"
      using e2 same_core_trans by blast
    then show ?thesis
      using assms Some peek d sent p2 e2 by (auto simp: sendTurn_def Let_def split: if_splits)
  qed
qed

text \<open>What a turn keeps, a run of the scheduler keeps.\<close>

lemma run_keeps:
  assumes "run send s st = Some (s', st')" and "I st"
    and turn: "\<And>la pid st r st'. I st \<Longrightarrow> send la pid st = Some (r, st') \<Longrightarrow> I st'"
  shows "I st'"
proof -
  have "\<exists>al' :: rat. I st'"
  proof (rule runLanes_rule [OF assms(1) [unfolded run_def], where I = "\<lambda>s al st. I st"])
    show "I st1" if "I st" "runLane send l s al st = Some (b, s1, al1, st1)" for l s al st b s1 al1 st1
      using runLane_rule [OF that(2), of "\<lambda>s al st. I st"] that(1) turn by auto
  qed (rule assms(2))
  then show ?thesis by simp
qed

lemma sendData_core: "sendData env now e = Some e' \<Longrightarrow> same_core e e'"
proof -
  assume "sendData env now e = Some e'"
  then obtain s e1 where run: "run (sendTurn env now) (e_scheduler e) e = Some (s, e1)" and e': "e' = e1\<lparr>e_scheduler := s\<rparr>"
    by (auto simp: sendData_def Option.bind_eq_Some_conv)
  have "same_core e e1"
    by (rule run_keeps [OF run]) (simp, blast intro: sendTurn_core same_core_trans)
  then show ?thesis
    using same_core_trans e' by simp
qed

lemma markReady_core: "same_core e (markReady e pid)"
proof -
  have "same_core e (modifyPeer pid (\<lambda>p. p\<lparr>p_unsettled := True\<rparr>) e)"
    by (rule same_core_modify) (simp add: pview_def)
  then show ?thesis
    by (simp add: markReady_def)
qed

lemma servicePeer_core: "same_core e (servicePeer now e pid)"
proof (cases "findPeer pid e")
  case (Some p)
  have "same_core e (touch pid (putLink pid (onTimer now (linkOf p e)) e))"
    using same_core_trans [OF same_core_putLink [OF Some] same_core_tell(3)] by simp
  then show ?thesis
    using Some by (simp add: servicePeer_def Let_def)
qed (simp add: servicePeer_def)

lemma serviceTimers_core: "same_core e (serviceTimers now e)"
  unfolding serviceTimers_def by (rule core.rel_foldl) (rule servicePeer_core)

lemma updatePause_core: "same_core (e :: 'w Engine) (updatePause e)"
proof -
  have "same_core e (pausePeer b e pid)" for b pid and e :: "'w Engine"
    unfolding pausePeer_def by (rule same_core_trans [OF same_core_modify same_core_tell(3)]) (simp add: pview_def)
  then have "same_core e (foldl (pausePeer b) e pids)" for b pids and e :: "'w Engine"
    by (rule core.rel_foldl)
  moreover have "same_core e (e\<lparr>e_paused := b, e_backlogPaused := b\<rparr>)" for b
    by (simp add: same_core_def findPeer_def)
  ultimately have "same_core e (foldl (pausePeer b) (e\<lparr>e_paused := b, e_backlogPaused := b\<rparr>) pids)" for b pids
    using same_core_trans by blast
  then show ?thesis
    by (simp add: updatePause_def Let_def)
qed

lemma settlePeer_core: "same_core e (settlePeer env e pid)"
proof (cases "findPeer pid e")
  case (Some p)
  let ?e1 = "modifyPeer pid (\<lambda>p. p\<lparr>p_deadline := nextDeadline (p_link p)\<rparr>) e"
  let ?e2 = "modifyPeer pid (\<lambda>p. p\<lparr>p_unsettled := \<not> fst (onMailbox env (settle pid) ?e1)\<rparr>) (snd (onMailbox env (settle pid) ?e1))"
  have e1: "same_core e ?e1"
    by (rule same_core_modify) (simp add: pview_def)
  have "same_core (snd (onMailbox env (settle pid) ?e1)) ?e2"
    by (rule same_core_modify) (simp add: pview_def)
  then have e2: "same_core e ?e2"
    using e1 same_core_tell(2) same_core_trans by blast
  have stats: "same_core e (tellMailbox env g (modifyPeer pid (\<lambda>p. snd (statsOf p)) e3))" if "same_core e e3" for e3 g
  proof -
    have "same_core e3 (modifyPeer pid (\<lambda>p. snd (statsOf p)) e3)"
      by (rule same_core_modify) (simp add: pview_def statsOf_def Let_def)
    then show ?thesis
      using that same_core_tell(1) same_core_trans by blast
  qed
  show ?thesis
    using Some e1 e2 stats [OF e1] stats [OF e2] by (simp add: settlePeer_def Let_def split_beta)
qed (simp add: settlePeer_def)

lemma sendBeacon_core: "same_core e (sendBeacon env a r e)"
  by (simp add: sendBeacon_def Let_def split_beta same_core_def findPeer_def)


section \<open>What the application is told of a peer\<close>

text \<open>
  The protocol of the events of one peer; the state is whether the application has an open session with
  it. A session opens once, messages belong to an open session, an open session is not asked for again
  and its peer is not lost without it ending first.
\<close>

fun after_event :: "bool \<Rightarrow> EventKind \<Rightarrow> bool option" where
  "after_event up PeerDiscovered = Some up"
| "after_event up AdapterChanged = Some up"
| "after_event up PeerLost = (if up then None else Some False)"
| "after_event up ConnectionRequest = (if up then None else Some False)"
| "after_event up EventKind.Connected = (if up then None else Some True)"
| "after_event up EventKind.Message = (if up then Some True else None)"
| "after_event up Disconnected = Some False"

fun session_run :: "bool \<Rightarrow> EventKind list \<Rightarrow> bool option" where
  "session_run up [] = Some up"
| "session_run up (k # ks) = Option.bind (after_event up k) (\<lambda>up. session_run up ks)"

text \<open>The peer a callback of the event names: through its info, or by its id.\<close>

definition about :: "EngineEvent \<Rightarrow> PeerId" where
  "about ev = (if ev_kind ev \<in> {PeerDiscovered, ConnectionRequest, EventKind.Connected} then peer_id (ev_info ev) else ev_peer ev)"

definition kinds_of :: "PeerId \<Rightarrow> EngineEvent list \<Rightarrow> EventKind list" where
  "kinds_of pid evs = map ev_kind (filter (\<lambda>ev. about ev = pid) evs)"

lemma session_run_append: "session_run up (a @ b) = Option.bind (session_run up a) (\<lambda>up. session_run up b)"
  by (induction a arbitrary: up) simp_all

lemma kinds_of_append [simp]: "kinds_of pid (a @ b) = kinds_of pid a @ kinds_of pid b"
  by (simp add: kinds_of_def)

lemma kinds_of_only:
  "\<forall>ev \<in> set evs. about ev = pid \<Longrightarrow> kinds_of k evs = (if k = pid then map ev_kind evs else [])"
  by (induction evs) (auto simp: kinds_of_def)

text \<open>A session is live when the application was told that it is open, and not that it ended.\<close>

definition live :: "Peer \<Rightarrow> bool" where
  "live p \<longleftrightarrow> p_announced p \<and> \<not> p_reported p \<and> (p_state p = Connected \<or> (p_state p = Closing \<and> \<not> p_closeSent p))"

definition live_in :: "PeerId \<Rightarrow> 'w Engine \<Rightarrow> bool" where
  "live_in pid e \<longleftrightarrow> (case findPeer pid e of Some p \<Rightarrow> live p | None \<Rightarrow> False)"

text \<open>Nothing is left to tell the application about the session.\<close>

definition silent :: "Peer \<Rightarrow> bool" where
  "silent p \<longleftrightarrow> p_reported p \<or> \<not> p_announced p"

text \<open>
  The flags of a session are consistent; \<open>settled\<close> is the part that does not hold between the report of
  a session's end and what ends it.
\<close>

definition flags_ok :: "Peer \<Rightarrow> bool" where
  "flags_ok p \<longleftrightarrow>
     (p_closeSent p \<longrightarrow> p_state p = Closing \<and> silent p) \<and>
     (p_state p = Connected \<or> (p_state p = Closing \<and> \<not> p_closeSent p) \<longrightarrow> p_announced p) \<and>
     (p_ended p \<longrightarrow> silent p)"

definition settled :: "Peer \<Rightarrow> bool" where
  "settled p \<longleftrightarrow> (p_reported p \<longrightarrow> p_ended p \<or> p_state p = Closing)"

text \<open>A stream ID names the session whose link has it on this side.\<close>

definition streams_ok :: "'w Engine \<Rightarrow> bool" where
  "streams_ok e \<longleftrightarrow> (\<forall>sid pid. map_of (e_byStream e) sid = Some pid \<longleftrightarrow>
     (\<exists>p. findPeer pid e = Some p \<and> mLocalStreamID (p_link p) = sid))"

definition eng_inv :: "PeerId set \<Rightarrow> EngineEvent list \<Rightarrow> 'w Engine \<Rightarrow> bool" where
  "eng_inv X h e \<longleftrightarrow>
     om_ok (e_peers e) \<and>
     (\<forall>pid p. findPeer pid e = Some p \<longrightarrow> peer_id (p_info p) = pid \<and> flags_ok p \<and> (pid \<notin> X \<longrightarrow> settled p)) \<and>
     (e_socket e = None \<longrightarrow> e_peers e = []) \<and> length (e_peers e) \<le> MaxPeers \<and> disc_ok (e_discovery e) \<and> streams_ok e \<and>
     (\<forall>pid. session_run False (kinds_of pid (h @ e_events e)) = Some (live_in pid e))"

lemma pview_same:
  assumes "pview p' = pview p"
  shows "live p' = live p" "flags_ok p' = flags_ok p" "settled p' = settled p" "peer_id (p_info p') = peer_id (p_info p)"
  using assms by (simp_all add: pview_def live_def flags_ok_def settled_def silent_def)

lemma eng_invI:
  assumes "om_ok (e_peers e)"
    and "\<And>pid p. findPeer pid e = Some p \<Longrightarrow> peer_id (p_info p) = pid \<and> flags_ok p \<and> (pid \<notin> X \<longrightarrow> settled p)"
    and "e_socket e = None \<Longrightarrow> e_peers e = []" and "length (e_peers e) \<le> MaxPeers" and "disc_ok (e_discovery e)" and "streams_ok e"
    and "\<And>pid. session_run False (kinds_of pid (h @ e_events e)) = Some (live_in pid e)"
  shows "eng_inv X h e"
  using assms unfolding eng_inv_def by blast

lemma inv_parts:
  assumes "eng_inv X h e"
  shows "om_ok (e_peers e)" "e_socket e = None \<Longrightarrow> e_peers e = []" "length (e_peers e) \<le> MaxPeers" "disc_ok (e_discovery e)" "streams_ok e"
    "session_run False (kinds_of pid (h @ e_events e)) = Some (live_in pid e)"
  using assms by (simp_all add: eng_inv_def)

lemma inv_peer:
  assumes "eng_inv X h e" and "findPeer pid e = Some p"
  shows "peer_id (p_info p) = pid" "flags_ok p" "pid \<notin> X \<Longrightarrow> settled p"
  using assms by (auto simp: eng_inv_def)

lemma streams_core: "same_core e e' \<Longrightarrow> streams_ok e \<Longrightarrow> streams_ok e'"
proof -
  assume same: "same_core e e'" and ok: "streams_ok e"
  have "(\<exists>p. findPeer pid e' = Some p \<and> mLocalStreamID (p_link p) = sid) \<longleftrightarrow>
      (\<exists>p. findPeer pid e = Some p \<and> mLocalStreamID (p_link p) = sid)" for pid sid
  proof -
    have "map_option pview (findPeer pid e') = map_option pview (findPeer pid e)"
      using same by (simp add: same_core_def)
    then show ?thesis
      by (cases "findPeer pid e"; cases "findPeer pid e'") (auto simp: pview_def)
  qed
  then show ?thesis
    using ok same by (simp add: streams_ok_def same_core_def)
qed

lemma inv_core:
  assumes "same_core e e'" and "eng_inv X h e"
  shows "eng_inv X h e'"
proof -
  have keys: "om_keys (e_peers e') = om_keys (e_peers e)"
    and view: "map_option pview (findPeer pid e') = map_option pview (findPeer pid e)" for pid
    using assms(1) by (simp_all add: same_core_def)
  have "length (e_peers e') = length (e_peers e)"
    using arg_cong [OF keys, of length] by (simp add: om_keys_def)
  moreover have "om_ok (e_peers e') = om_ok (e_peers e)"
    using keys by (simp add: om_ok_def)
  moreover have "live_in pid e' = live_in pid e" for pid
  proof (cases "findPeer pid e")
    case (Some p)
    then obtain p' where p': "findPeer pid e' = Some p'" "pview p' = pview p"
      using view [of pid] by auto
    show ?thesis
      using Some p'(1) pview_same(1) [OF p'(2)] by (simp add: live_in_def)
  qed (use view [of pid] in \<open>simp add: live_in_def\<close>)
  moreover have "peer_id (p_info p') = pid \<and> flags_ok p' \<and> (pid \<notin> X \<longrightarrow> settled p')" if found: "findPeer pid e' = Some p'" for pid p'
  proof -
    obtain p where p: "findPeer pid e = Some p" "pview p' = pview p"
      using view [of pid] found by (cases "findPeer pid e") auto
    then have "peer_id (p_info p) = pid \<and> flags_ok p \<and> (pid \<notin> X \<longrightarrow> settled p)"
      using assms(2) by (simp add: eng_inv_def)
    then show ?thesis
      using pview_same [OF p(2)] by simp
  qed
  moreover have "e_peers e' = [] \<longleftrightarrow> e_peers e = []"
    using calculation(1) by (metis length_0_conv)
  moreover have "e_events e' = e_events e" "e_socket e' = e_socket e" "e_discovery e' = e_discovery e"
    using assms(1) by (simp_all add: same_core_def)
  ultimately show ?thesis
    using inv_parts [OF assms(2)] streams_core [OF assms(1)] by (intro eng_invI) simp_all
qed

lemma inv_weaken: "eng_inv X h e \<Longrightarrow> X \<subseteq> Y \<Longrightarrow> eng_inv Y h e"
  by (auto simp: eng_inv_def)

lemma inv_absent: "eng_inv (insert pid X) h e \<Longrightarrow> findPeer pid e = None \<Longrightarrow> eng_inv X h e"
  unfolding eng_inv_def by (metis insertE option.distinct(1))

text \<open>One session changes, with what the application is told about it.\<close>

lemma inv_change:
  assumes inv: "eng_inv X h e" and p: "findPeer pid e = Some p"
    and core: "same_core (e\<lparr>e_peers := om_modify pid f (e_peers e), e_events := e_events e @ evs\<rparr>) e'"
    and new: "peer_id (p_info (f p)) = pid" "flags_ok (f p)" "pid \<notin> Y \<Longrightarrow> settled (f p)" "X - {pid} \<subseteq> Y"
      "mLocalStreamID (p_link (f p)) = mLocalStreamID (p_link p)"
    and told: "session_run (live p) (map ev_kind evs) = Some (live (f p))" "\<forall>ev \<in> set evs. about ev = pid"
  shows "eng_inv Y h e'"
proof -
  let ?e = "e\<lparr>e_peers := om_modify pid f (e_peers e), e_events := e_events e @ evs\<rparr>"
  have look: "findPeer k ?e = (if k = pid then Some (f p) else findPeer k e)" for k
    using p by (simp add: findPeer_def)
  have "session_run False (kinds_of k (h @ e_events ?e)) = Some (live_in k ?e)" for k
  proof -
    have "session_run False (kinds_of k (h @ e_events e)) = Some (live_in k e)"
      using inv by (simp add: eng_inv_def)
    moreover have "session_run (live_in k e) (kinds_of k evs) = Some (live_in k ?e)"
      using p look [of k] told(1) by (cases "k = pid") (simp_all add: live_in_def kinds_of_only [OF told(2)])
    moreover have "kinds_of k (h @ e_events ?e) = kinds_of k (h @ e_events e) @ kinds_of k evs"
      by simp
    ultimately show ?thesis
      by (simp only: session_run_append Option.bind.bind_lunit)
  qed
  moreover have "peer_id (p_info p') = k \<and> flags_ok p' \<and> (k \<notin> Y \<longrightarrow> settled p')" if "findPeer k ?e = Some p'" for k p'
  proof (cases "k = pid")
    case False
    then show ?thesis
      using that look [of k] inv_peer [OF inv, of k p'] new(4) by auto
  qed (use that look [of k] new in auto)
  moreover have "streams_ok ?e"
    using inv_parts(5) [OF inv] look p new(5) by (simp add: streams_ok_def)
  ultimately have "eng_inv Y h ?e"
    using inv_parts [OF inv] by (intro eng_invI) simp_all
  then show ?thesis
    by (rule inv_core [OF core])
qed

text \<open>The application is told something that leaves its session with the peer as it is.\<close>

lemma inv_tell:
  assumes "eng_inv X h e" and "after_event (live_in (about ev) e) (ev_kind ev) = Some (live_in (about ev) e)"
  shows "eng_inv X h (emit ev e)"
proof -
  have live: "live_in k (emit ev e) = live_in k e" for k
    by (simp add: live_in_def)
  have run: "session_run False (kinds_of k (h @ e_events e)) = Some (live_in k e)" for k
    using assms(1) by (simp add: eng_inv_def)
  have "session_run False (kinds_of k (h @ e_events e @ [ev])) = Some (live_in k e)" for k
  proof -
    have "kinds_of k (h @ e_events e @ [ev]) = kinds_of k (h @ e_events e) @ kinds_of k [ev]"
      by simp
    then have "session_run False (kinds_of k (h @ e_events e @ [ev])) = session_run (live_in k e) (kinds_of k [ev])"
      by (simp only: session_run_append run Option.bind.bind_lunit)
    then show ?thesis
      using assms(2) by (cases "about ev = k") (simp_all add: kinds_of_def)
  qed
  moreover have "streams_ok (emit ev e)"
    using inv_parts(5) [OF assms(1)] by (simp add: streams_ok_def)
  ultimately show ?thesis
    using assms(1) by (simp add: eng_inv_def live)
qed

lemma inv_remove:
  assumes inv: "eng_inv X h e" and "\<not> live_in pid e" and p: "findPeer pid e = Some p"
    and core: "same_core (e\<lparr>e_peers := om_erase pid (e_peers e),
      e_byStream := om_erase (mLocalStreamID (p_link p)) (e_byStream e)\<rparr>) e'"
    and "X - {pid} \<subseteq> Y"
  shows "eng_inv Y h e'"
proof -
  let ?e = "e\<lparr>e_peers := om_erase pid (e_peers e), e_byStream := om_erase (mLocalStreamID (p_link p)) (e_byStream e)\<rparr>"
  have look: "findPeer k ?e = (if k = pid then None else findPeer k e)" for k
    by (simp add: findPeer_def)
  then have live: "live_in k ?e = live_in k e" for k
    using assms(2) by (simp add: live_in_def)
  have "length (om_erase pid (e_peers e)) \<le> MaxPeers"
    using om.entries_del_le [of "e_peers e" pid] inv_parts(1,3) [OF inv] by simp
  moreover have "peer_id (p_info p') = k \<and> flags_ok p' \<and> (k \<notin> Y \<longrightarrow> settled p')" if "findPeer k ?e = Some p'" for k p'
    using that look [of k] inv_peer [OF inv, of k p'] assms(5) by (auto split: if_splits)
  moreover have "streams_ok ?e"
  proof -
    have "map_of (e_byStream e) sid = Some k \<longleftrightarrow> (\<exists>q. findPeer k e = Some q \<and> mLocalStreamID (p_link q) = sid)" for sid k
      using inv_parts(5) [OF inv] by (simp add: streams_ok_def)
    then show ?thesis
      using look p by (auto simp: streams_ok_def) (metis option.inject)+
  qed
  ultimately have "eng_inv Y h ?e"
    using inv_parts [OF inv] om_ok_erase [of "e_peers e" pid]
    by (intro eng_invI) (simp_all only: live Engine.simps, auto simp: om_erase_def)
  then show ?thesis
    by (rule inv_core [OF core])
qed

lemma inv_add:
  assumes inv: "eng_inv X h e" and "findPeer pid e = None" "length (e_peers e) < MaxPeers" "e_socket e \<noteq> None"
    and new: "peer_id (p_info p) = pid" "flags_ok p" "settled p" "\<not> live p"
      "mLocalStreamID (p_link p) = sid" "map_of (e_byStream e) sid = None"
    and core: "same_core (e\<lparr>e_peers := om_put pid p (e_peers e), e_byStream := om_put sid pid (e_byStream e)\<rparr>) e'"
  shows "eng_inv X h e'"
proof -
  let ?e = "e\<lparr>e_peers := om_put pid p (e_peers e), e_byStream := om_put sid pid (e_byStream e)\<rparr>"
  have look: "findPeer k ?e = (if k = pid then Some p else findPeer k e)" for k
    by (simp add: findPeer_def)
  then have live: "live_in k ?e = live_in k e" for k
    using assms(2) new(4) by (simp add: live_in_def)
  have "length (om_put pid p (e_peers e)) = length (e_peers e) + 1"
    using inv assms(2) by (simp add: eng_inv_def om.entries_put findPeer_def)
  moreover have "peer_id (p_info p') = k \<and> flags_ok p' \<and> (k \<notin> X \<longrightarrow> settled p')" if "findPeer k ?e = Some p'" for k p'
    using that look [of k] inv_peer [OF inv, of k p'] new by (auto split: if_splits)
  moreover have "streams_ok ?e"
  proof -
    have "map_of (e_byStream e) s = Some k \<longleftrightarrow> (\<exists>q. findPeer k e = Some q \<and> mLocalStreamID (p_link q) = s)" for s k
      using inv_parts(5) [OF inv] by (simp add: streams_ok_def)
    then show ?thesis
      using look assms(2) new(5,6) by (auto simp: streams_ok_def) (metis option.distinct(1))
  qed
  ultimately have "eng_inv X h ?e"
    using inv_parts [OF inv] assms(3,4) om_ok_put [of "e_peers e" pid p]
    by (intro eng_invI) (simp_all only: live Engine.simps, auto)
  then show ?thesis
    by (rule inv_core [OF core])
qed


section \<open>The operations on one session\<close>

definition silent_in :: "PeerId \<Rightarrow> 'w Engine \<Rightarrow> bool" where
  "silent_in pid e \<longleftrightarrow> (\<forall>p. findPeer pid e = Some p \<longrightarrow> silent p)"

lemma silent_not_live: "silent p \<Longrightarrow> \<not> live p"
  by (auto simp: silent_def live_def)

lemma silent_in_not_live: "silent_in pid e \<Longrightarrow> \<not> live_in pid e"
  by (auto simp: silent_in_def live_in_def silent_not_live split: option.splits)

lemma about_message [simp]: "ev_kind ev = EventKind.Message \<Longrightarrow> about ev = ev_peer ev"
  by (simp add: about_def)

lemma about_info [simp]:
  "about (newEvent PeerLost pid) = pid" "about ((newEvent Disconnected pid)\<lparr>ev_reason := r\<rparr>) = pid"
  "about ((newEvent PeerDiscovered pid)\<lparr>ev_info := i\<rparr>) = peer_id i"
  "about ((newEvent ConnectionRequest pid)\<lparr>ev_info := i\<rparr>) = peer_id i"
  "about ((newEvent EventKind.Connected pid)\<lparr>ev_info := i\<rparr>) = peer_id i"
  by (simp_all add: about_def newEvent_def)

lemma newEvent_fields [simp]: "ev_kind (newEvent k pid) = k" "ev_peer (newEvent k pid) = pid"
  by (simp_all add: newEvent_def)

lemma report_peer:
  "findPeer k (report pid r e) =
     (if k = pid then map_option (\<lambda>p. p\<lparr>p_reported := p_announced p \<or> p_reported p\<rparr>) (findPeer k e) else findPeer k e)"
  by (cases "findPeer pid e") (auto simp: report_def)

lemma silent_in_report: "silent_in pid (report pid r e)"
  by (auto simp: silent_in_def report_peer silent_def)

lemma report_inv:
  assumes inv: "eng_inv X h e"
  shows "eng_inv (insert pid X) h (report pid r e)"
proof (cases "findPeer pid e")
  case None
  then show ?thesis
    using inv_weaken [OF inv, of "insert pid X"] by (auto simp: report_def)
next
  case (Some p)
  show ?thesis
  proof (cases "silent p")
    case True
    then show ?thesis
      using Some inv_weaken [OF inv, of "insert pid X"] by (auto simp: report_def silent_def)
  next
    case False
    have p: "peer_id (p_info p) = pid" "flags_ok p"
      using inv_peer [OF inv Some] by simp_all
    let ?ev = "(newEvent Disconnected pid)\<lparr>ev_reason := r\<rparr>"
    show ?thesis
    proof (rule inv_change [OF inv Some, where f = "\<lambda>p. p\<lparr>p_reported := True\<rparr>" and evs = "[?ev]"])
      show "same_core (e\<lparr>e_peers := om_modify pid (\<lambda>p. p\<lparr>p_reported := True\<rparr>) (e_peers e), e_events := e_events e @ [?ev]\<rparr>)
          (report pid r e)"
        using Some False p(1) by (simp add: report_def silent_def emit_def modifyPeer_def)
      show "flags_ok (p\<lparr>p_reported := True\<rparr>)"
        using p(2) by (simp add: flags_ok_def silent_def)
    qed (use p(1) in \<open>auto simp: live_def\<close>)
  qed
qed

lemma endPeer_inv:
  assumes inv: "eng_inv (insert pid X) h e" and silent: "silent_in pid e"
  shows "eng_inv X h (endPeer env pid e)"
proof (cases "findPeer pid e")
  case None
  then have "eng_inv X h e"
    using inv_absent [OF inv] by simp
  then show ?thesis
    using None by (simp add: endPeer_def)
next
  case (Some p)
  have p: "peer_id (p_info p) = pid" "flags_ok p" "silent p"
    using inv_peer [OF inv Some] silent Some by (simp_all add: silent_in_def)
  let ?f = "\<lambda>p. if p_ended p then p else p\<lparr>p_ended := True\<rparr>"
  show ?thesis
  proof (rule inv_change [OF inv Some, where f = ?f and evs = "[]"])
    show "same_core (e\<lparr>e_peers := om_modify pid ?f (e_peers e), e_events := e_events e @ []\<rparr>) (endPeer env pid e)"
      using Some p(1) by (auto simp: endPeer_def same_core_def findPeer_def Let_def)
  qed (use p in \<open>auto simp: flags_ok_def settled_def silent_def live_def\<close>)
qed

text \<open>A change of one session the application is not told about.\<close>

lemma inv_quiet:
  assumes "eng_inv X h e" and "findPeer pid e = Some p" and "same_core (modifyPeer pid f e) e'"
    and "peer_id (p_info (f p)) = pid" "flags_ok (f p)" "pid \<notin> Y \<Longrightarrow> settled (f p)" "X - {pid} \<subseteq> Y" "live (f p) = live p"
      "mLocalStreamID (p_link (f p)) = mLocalStreamID (p_link p)"
  shows "eng_inv Y h e'"
  using assms by (intro inv_change [OF assms(1,2), where f = f and evs = "[]"]) (simp_all add: modifyPeer_def)

lemma sendClose_inv:
  assumes inv: "eng_inv (insert pid X) h e" and silent: "silent_in pid e"
  shows "eng_inv X h (sendClose env pid now e)"
proof (cases "findPeer pid e")
  case None
  then have "eng_inv X h e"
    using inv_absent [OF inv] by simp
  then show ?thesis
    using None by (simp add: sendClose_def)
next
  case (Some p)
  have p: "peer_id (p_info p) = pid" "flags_ok p" "silent p"
    using inv_peer [OF inv Some] silent Some by (simp_all add: silent_in_def)
  let ?e1 = "tellMailbox env (close_mail pid) e"
  let ?f = "\<lambda>p. p\<lparr>p_state := Closing, p_closeSent := True, p_stateDeadline := Some (now + CloseLinger)\<rparr>"
  have e1: "eng_inv (insert pid X) h ?e1" "silent_in pid ?e1"
    using inv_core [OF same_core_tell(1) inv] silent by (simp_all add: silent_in_def)
  let ?e2 = "pushControl pid CtClose (encodeClose 0) ?e1"
  have e2: "eng_inv (insert pid X) h ?e2"
    using inv_core [OF pushControl_core e1(1)] .
  let ?p = "p\<lparr>p_control := p_control p @ [\<lparr>om_tag = control_value CtClose, om_body = encodeClose 0\<rparr>]\<rparr>"
  have p2: "findPeer pid ?e2 = Some ?p"
    using Some by (simp add: pushControl_def)
  have "eng_inv X h (touch pid (modifyPeer pid ?f ?e2))"
    by (rule inv_quiet [OF e2 p2, where f = ?f])
       (use p in \<open>auto simp: flags_ok_def settled_def silent_def live_def\<close>)
  then show ?thesis
    using Some p(1) endPeer_inv [OF e1] by (simp add: sendClose_def Let_def)
qed

lemma sendDecline_exempt_inv:
  assumes inv: "eng_inv {pid} h e"
  shows "eng_inv {} h (sendDecline env pid now e)"
proof (cases "findPeer pid e")
  case None
  then show ?thesis
    using inv_absent [OF inv] by (simp add: sendDecline_def)
next
  case (Some p)
  let ?body = "encodeDecline \<lparr>reason = DeclineReason.Declined, decline_text = []\<rparr>"
  let ?e1 = "report pid DisconnectReason.Local (pushControl pid CtDecline ?body e)"
  let ?f = "\<lambda>p. p\<lparr>p_state := Closing, p_closeSent := True, p_stateDeadline := Some (now + CloseLinger)\<rparr>"
  have e1: "eng_inv {pid} h ?e1"
    using report_inv [OF inv_core [OF pushControl_core inv], of pid] by simp
  obtain p1 where p1: "findPeer pid ?e1 = Some p1"
    using Some by (simp add: report_peer pushControl_def)
  have p: "peer_id (p_info p1) = pid" "flags_ok p1" "silent p1"
    using inv_peer [OF e1 p1] silent_in_report [unfolded silent_in_def, rule_format, OF p1] by simp_all
  have "eng_inv {} h (touch pid (tellMailbox env (close_mail pid) (modifyPeer pid ?f ?e1)))"
    by (rule inv_quiet [OF e1 p1, where f = ?f])
       (use p in \<open>auto simp: flags_ok_def settled_def silent_def live_def\<close>)
  then show ?thesis
    using Some inv_peer(1) [OF inv Some] by (simp add: sendDecline_def Let_def)
qed

lemma sendDecline_inv: "eng_inv {} h e \<Longrightarrow> eng_inv {} h (sendDecline env pid now e)"
  by (rule sendDecline_exempt_inv, erule inv_weaken) (rule empty_subsetI)

lemma setConnected_inv:
  assumes inv: "eng_inv {} h e" and "findPeer pid e = Some p" "p_state p = Connecting" "\<not> p_ended p"
  shows "eng_inv {} h (setConnected env pid e)"
proof -
  have p: "peer_id (p_info p) = pid" "flags_ok p" "settled p"
    using inv_peer [OF inv assms(2)] by simp_all
  let ?f = "\<lambda>p. p\<lparr>p_state := Connected, p_announced := True, p_stateDeadline := None\<rparr>"
  let ?ev = "(newEvent EventKind.Connected pid)\<lparr>ev_info := p_info p\<rparr>"
  show ?thesis
  proof (rule inv_change [OF inv assms(2), where f = ?f and evs = "[?ev]"])
    show "same_core (e\<lparr>e_peers := om_modify pid ?f (e_peers e), e_events := e_events e @ [?ev]\<rparr>) (setConnected env pid e)"
      using assms(2) p(1) by (simp add: setConnected_def Let_def same_core_def findPeer_def)
  qed (use p assms(3,4) in \<open>auto simp: flags_ok_def settled_def silent_def live_def\<close>)
qed

lemma sendAccept_inv:
  assumes inv: "eng_inv {} h e" and state: "\<And>p. findPeer pid e = Some p \<Longrightarrow> p_state p = AwaitingDecision \<or> p_state p = Connecting"
  shows "eng_inv {} h (sendAccept env pid e)"
proof (cases "findPeer pid e")
  case None
  then show ?thesis
    using inv by (simp add: sendAccept_def)
next
  case (Some p)
  let ?body = "the (encodeAccept \<lparr>accept_name = my_name (dl_identity (e_discovery e))\<rparr>)"
  let ?e1 = "pushControl pid CtAccept ?body e"
  let ?f = "\<lambda>p. p\<lparr>p_state := Connecting, p_acceptSent := True, p_stateDeadline := None\<rparr>"
  have e1: "eng_inv {} h ?e1"
    using inv_core [OF pushControl_core inv] .
  obtain p1 where p1: "findPeer pid ?e1 = Some p1" "p_state p1 = p_state p"
    using Some by (simp add: pushControl_def)
  have p: "peer_id (p_info p1) = pid" "flags_ok p1" "settled p1"
    using inv_peer [OF e1 p1(1)] by simp_all
  have "eng_inv {} h (touch pid (tellMailbox env (publishSession pid Pending) (modifyPeer pid ?f ?e1)))"
    by (rule inv_quiet [OF e1 p1(1), where f = ?f])
       (use p p1(2) state [OF Some] in \<open>auto simp: flags_ok_def settled_def silent_def live_def\<close>)
  then show ?thesis
    using Some inv_peer(1) [OF inv Some] by (simp add: sendAccept_def Let_def)
qed

lemma erasePeer_inv:
  assumes inv: "eng_inv (insert pid X) h e" and "\<not> live_in pid e"
  shows "eng_inv X h (erasePeer env pid e)"
proof (cases "findPeer pid e")
  case None
  then have "eng_inv X h e"
    using inv_absent [OF inv] by simp
  then show ?thesis
    using None by (simp add: erasePeer_def)
next
  case (Some p)
  show ?thesis
  proof (rule inv_remove [OF inv assms(2) Some])
    show "same_core (e\<lparr>e_peers := om_erase pid (e_peers e),
        e_byStream := om_erase (mLocalStreamID (p_link p)) (e_byStream e)\<rparr>) (erasePeer env pid e)"
      using Some by (simp add: erasePeer_def Let_def same_core_def findPeer_def)
  qed auto
qed


lemma reported_end_inv: "eng_inv {} h e \<Longrightarrow> eng_inv {} h (endPeer env pid (report pid r e))"
  by (rule endPeer_inv [OF report_inv silent_in_report])

lemma reported_close_inv: "eng_inv {} h e \<Longrightarrow> eng_inv {} h (sendClose env pid now (report pid r e))"
  by (rule sendClose_inv [OF report_inv silent_in_report])

lemma onControl_inv:
  assumes inv: "eng_inv {} h e"
  shows "eng_inv {} h (onControl env pid msg e)"
proof (cases "findPeer pid e")
  case None
  then show ?thesis
    using inv by (simp add: onControl_def)
next
  case (Some p)
  have accepted: "eng_inv {} h (setConnected env pid e1)"
    if same: "same_core e e1" and state: "p_state p = Connecting" "\<not> p_ended p" for e1
  proof -
    obtain p1 where p1: "findPeer pid e1 = Some p1" "pview p1 = pview p"
      using same_core_find [OF same Some] by blast
    then show ?thesis
      using setConnected_inv [OF inv_core [OF same inv] p1(1)] state by (simp add: pview_def)
  qed
  have renamed: "same_core e (modifyPeer pid (\<lambda>p. p\<lparr>p_info := (p_info p)\<lparr>displayName := n\<rparr>\<rparr>) e)" for n
    by (rule same_core_modify) (simp add: pview_def)
  define e1 where "e1 = (case decodeAccept (dm_body msg) of
      Some a \<Rightarrow> if accept_name a \<noteq> [] \<and> length (accept_name a) \<le> MaxDisplayName
                then modifyPeer pid (\<lambda>p. p\<lparr>p_info := (p_info p)\<lparr>displayName := accept_name a\<rparr>\<rparr>) e else e
    | None \<Rightarrow> e)"
  have "same_core e e1"
    using renamed by (auto simp: e1_def split: option.splits)
  then have "p_state p = Connecting \<Longrightarrow> \<not> p_ended p \<Longrightarrow> eng_inv {} h (setConnected env pid e1)"
    by (rule accepted)
  then show ?thesis
    using Some inv reported_end_inv [OF inv]
    unfolding onControl_def Let_def e1_def [symmetric] by (auto split: if_splits)
qed

lemma inboxOf_core: "findPeer pid e = Some p \<Longrightarrow> same_core e (snd (inboxOf pid p e))"
proof -
  assume "findPeer pid e = Some p"
  have "same_core e (modifyPeer pid (\<lambda>p. p\<lparr>p_media := x\<rparr>) (e\<lparr>e_nextInbox := n, e_inboxes := b\<rparr>))" for x n b
    by (rule same_core_trans [of _ "e\<lparr>e_nextInbox := n, e_inboxes := b\<rparr>"])
       (simp add: same_core_def findPeer_def, rule same_core_modify, simp add: pview_def)
  then show ?thesis
    by (simp add: inboxOf_def Let_def split: option.splits)
qed

lemma deliverMessage_inv:
  assumes inv: "eng_inv {} h e"
  shows "eng_inv {} h (deliverMessage env pid e msg)"
proof (cases "findPeer pid e")
  case None
  then show ?thesis
    using inv onControl_inv [OF inv] by (simp add: deliverMessage_def)
next
  case (Some p)
  have p: "peer_id (p_info p) = pid" "flags_ok p"
    using inv_peer [OF inv Some] by simp_all
  show ?thesis
  proof (cases "dm_lane msg = Control \<or> p_ended p \<or> p_reported p \<or> \<not> transfersData p")
    case True
    then show ?thesis
      using Some inv onControl_inv [OF inv] by (auto simp: deliverMessage_def)
  next
    case False
    then have "live p"
      using p(2) by (auto simp: live_def flags_ok_def transfersData_def)
    then have told: "eng_inv {} h (emit ev e1)" if same: "same_core e e1" and ev: "ev_kind ev = EventKind.Message" "ev_peer ev = pid" for ev e1
    proof (intro inv_tell [OF inv_core [OF same inv]])
      obtain p1 where p1: "findPeer pid e1 = Some p1" "pview p1 = pview p"
        using same_core_find [OF same Some] by blast
      then have "live_in pid e1"
        using \<open>live p\<close> pview_same(1) [OF p1(2)] by (simp add: live_in_def)
      then show "after_event (live_in (about ev) e1) (ev_kind ev) = Some (live_in (about ev) e1)"
        using ev by simp
    qed
    obtain box e1 where box: "inboxOf pid p e = (box, e1)"
      by (cases "inboxOf pid p e")
    have "same_core e e1"
      using inboxOf_core [OF Some] box by simp
    then have "same_core e (e1\<lparr>e_inboxes := x\<rparr>)" for x
      using same_core_trans same_core_fields(19) by blast
    then show ?thesis
      using Some False box told p(1) by (auto simp: deliverMessage_def Let_def)
  qed
qed

lemma advanceState_inv:
  assumes inv: "eng_inv {} h e"
  shows "eng_inv {} h (advanceState env pid now e)"
proof (cases "findPeer pid e")
  case None
  then show ?thesis
    using inv by (simp add: advanceState_def)
next
  case (Some p)
  have closed: "eng_inv {} h (finishClosing env pid now e1)" if "eng_inv {} h e1" for e1 :: "'a Engine"
    unfolding finishClosing_def using that by (rule reported_close_inv)
  have "silent_in pid e" if "p_closeSent p"
    using that inv_peer(2) [OF inv Some] Some by (simp add: flags_ok_def silent_in_def)
  then have ended: "eng_inv {} h (endPeer env pid e)" if "p_closeSent p"
    using that endPeer_inv [of pid "{}" h e env] inv_weaken [OF inv, of "{pid}"] by blast
  have "eng_inv {} h (snd (onMailbox env g e))" for g :: "Mailbox \<Rightarrow> bool \<times> Mailbox"
    using inv_core [OF _ inv] by simp
  then show ?thesis
    using Some inv setConnected_inv [OF inv Some] sendDecline_inv [OF inv] closed ended
    by (cases "p_state p") (simp_all add: advanceState_def Let_def split_beta)
qed

lemma advance_inv:
  assumes inv: "eng_inv {} h e"
  shows "eng_inv {} h (advance env pid now e)"
proof (cases "findPeer pid e")
  case None
  then show ?thesis
    using inv by (simp add: advance_def)
next
  case (Some p)
  obtain msgs l where taken: "takeDelivered (linkOf p e) = (msgs, l)"
    by (cases "takeDelivered (linkOf p e)")
  have "same_core e (putLink pid l e)"
    using linkID_takeDelivered [of "linkOf p e"] taken by (intro same_core_putLink [OF Some]) simp
  then have "eng_inv {} h (putLink pid l e)"
    using inv_core inv by blast
  then have "eng_inv {} h (foldl (deliverMessage env pid) (putLink pid l e) msgs)"
    by (rule foldl_invariant) (rule deliverMessage_inv)
  then have "eng_inv {} h (advanceState env pid now (foldl (deliverMessage env pid) (putLink pid l e) msgs))"
    by (rule advanceState_inv)
  then show ?thesis
    using Some inv taken reported_end_inv [OF inv] by (simp add: advance_def)
qed

end
