(* ===== verification/EngineSteps.thy ===== *)
theory EngineSteps
  imports EngineSessions
begin

text \<open>
  The operations of a step keep the invariant of \<open>EngineSessions\<close>: commands, the adapter, receiving,
  timers, sending and the end of the step. The properties of the engine that follow from it are at the
  end.
\<close>

section \<open>New sessions\<close>

lemma inv_discovery: "eng_inv X h e \<Longrightarrow> disc_ok d \<Longrightarrow> eng_inv X h (e\<lparr>e_discovery := d\<rparr>)"
  by (simp add: eng_inv_def findPeer_def live_in_def streams_ok_def)

lemma newPeer_fields [simp]:
  "p_info (newPeer who a t sid b) = who" "p_state (newPeer who a t sid b) = Connecting"
  "\<not> p_announced (newPeer who a t sid b)" "\<not> p_reported (newPeer who a t sid b)" "\<not> p_ended (newPeer who a t sid b)"
  "\<not> p_closeSent (newPeer who a t sid b)"
  by (simp_all add: newPeer_def)

lemma freshStreamID_free:
  assumes "freshStreamID env taken w = Some (sid, w')"
  shows "map_of taken sid = None"
proof -
  let ?P = "\<lambda>env taken w (sid, w'). map_of taken sid = None"
  have "?P env taken w (sid, w')"
    by (rule freshStreamID.raw_induct [of ?P, OF _ assms]) (fastforce split: if_splits)
  then show ?thesis
    by simp
qed

lemma addPeer_inv:
  assumes inv: "eng_inv {} h e" and free: "findPeer (peer_id who) e = None" "length (e_peers e) < MaxPeers" "e_socket e \<noteq> None"
    and added: "addPeer env who a now e = Some e'"
  obtains p where "eng_inv {} h e'" "findPeer (peer_id who) e' = Some p" "p_state p = Connecting" "\<not> p_reported p" "\<not> p_ended p"
    "\<not> p_closeSent p" "p_info p = who" "e_events e' = e_events e"
proof -
  let ?pid = "peer_id who"
  obtain sid w where fresh: "freshStreamID env (e_byStream e) (e_world e) = Some (sid, w)"
    using added by (auto simp: addPeer_def Option.bind_eq_Some_conv)
  let ?new = "newPeer who a (cfg_timings (e_config e)) sid (e_budget e)"
  let ?f = "\<lambda>p. p\<lparr>p_link := setPaused (e_paused e) (supervise now (p_link p))\<rparr>"
  let ?e = "e\<lparr>e_peers := om_put ?pid ?new (e_peers e), e_byStream := om_put sid ?pid (e_byStream e)\<rparr>"
  have e': "e' = touch ?pid (e\<lparr>e_world := w, e_peers := om_modify ?pid ?f (om_put ?pid ?new (e_peers e)),
      e_byStream := om_put sid ?pid (e_byStream e)\<rparr>)"
    using added fresh free(1) by (simp add: addPeer_def Let_def findPeer_def modifyPeer_def)
  have "same_core ?e e'"
    by (simp add: e' same_core_def findPeer_def pview_def)
  then have "eng_inv {} h e'"
    by (rule inv_add [OF inv free, rotated -1])
       (simp_all add: flags_ok_def settled_def live_def freshStreamID_free [OF fresh] newPeer_def reliableLink_def)
  then show ?thesis
    by (rule that [of "?f ?new"]) (simp_all add: e' findPeer_def)
qed

lemma find_known_id:
  assumes "disc_ok d" and "find_known d pid = Some known"
  shows "peer_id (info known) = pid"
proof -
  obtain entry where "map_of (dl_peers d) pid = Some entry" and known: "known = entry_peer entry"
    using assms(2) by (auto simp: find_known_def)
  then have "entry_ok (dl_identity d) pid entry"
    using assms(1) by (simp add: disc_ok_def)
  then show ?thesis
    by (auto simp: known entry_ok_def peer_of_def)
qed


section \<open>Commands\<close>

lemma openSession_inv:
  assumes inv: "eng_inv {} h e" and free: "findPeer pid e = None" and opened: "openSession env pid now e = Some e'"
  shows "eng_inv {} h e'"
proof -
  have refused: "eng_inv {} h (emit ((newEvent Disconnected pid)\<lparr>ev_reason := r\<rparr>) e)" for r
    by (rule inv_tell [OF inv]) (simp add: live_in_def free)
  show ?thesis
  proof (cases "find_known (e_discovery e) pid")
    case None
    then show ?thesis
      using opened refused by (auto simp: openSession_def)
  next
    case (Some known)
    have pid: "peer_id (info known) = pid"
      using find_known_id [OF inv_parts(4) [OF inv] Some] .
    show ?thesis
    proof (cases "e_socket e = None \<or> length (e_peers e) \<ge> MaxPeers")
      case True
      then show ?thesis
        using opened refused Some by (auto simp: openSession_def)
    next
      case False
      then obtain e1 where e1: "addPeer env (info known) (endpoint known) now e = Some e1"
        using opened Some by (auto simp: openSession_def Option.bind_eq_Some_conv)
      have room: "findPeer (peer_id (info known)) e = None" "length (e_peers e) < MaxPeers" "e_socket e \<noteq> None"
        using False free pid by simp_all
      obtain p where p: "eng_inv {} h e1" "findPeer pid e1 = Some p" "p_state p = Connecting" "\<not> p_reported p" "\<not> p_ended p"
          "\<not> p_closeSent p"
        using addPeer_inv [OF inv room e1] pid by metis
      let ?f = "\<lambda>p. p\<lparr>p_initiator := True, p_announced := True\<rparr>"
      have "eng_inv {} h (modifyPeer pid ?f e1)"
        by (rule inv_quiet [OF p(1,2), where f = ?f])
           (use p(3-) inv_peer(1) [OF p(1,2)] in \<open>auto simp: flags_ok_def settled_def live_def silent_def\<close>)
      then have "eng_inv {} h (tellMailbox env g (pushControl pid t body (modifyPeer pid ?f e1)))" for g t body
        using inv_core [OF same_core_tell(1) inv_core [OF pushControl_core]] by blast
      then show ?thesis
        using opened Some False e1 pid by (auto simp: openSession_def Let_def)
    qed
  qed
qed

lemma startSession_inv:
  assumes inv: "eng_inv {} h e" and "startSession env pid now e = Some e'"
  shows "eng_inv {} h e'"
proof (cases "findPeer pid e")
  case None
  then show ?thesis
    using assms openSession_inv [OF inv None] by (auto simp: startSession_def split: if_splits)
next
  case (Some p)
  have erased: "eng_inv {} h (erasePeer env pid e)" "findPeer pid (erasePeer env pid e) = None" if "p_closeSent p"
  proof -
    have "\<not> live_in pid e"
      using Some inv_peer(2) [OF inv Some] that by (simp add: live_in_def flags_ok_def silent_not_live)
    then show "eng_inv {} h (erasePeer env pid e)"
      by (intro erasePeer_inv) (use inv_weaken [OF inv] in auto)
    show "findPeer pid (erasePeer env pid e) = None"
      using Some by (simp add: erasePeer_def findPeer_def Let_def)
  qed
  have "eng_inv {} h (sendAccept env pid e)" if "p_state p = AwaitingDecision"
    using that Some by (intro sendAccept_inv [OF inv]) simp
  then show ?thesis
    using assms Some openSession_inv [OF erased] by (auto simp: startSession_def split: if_splits)
qed

lemma endSession_inv:
  assumes inv: "eng_inv {} h e"
  shows "eng_inv {} h (endSession env pid now e)"
proof (cases "findPeer pid e")
  case None
  then show ?thesis
    using inv by (simp add: endSession_def)
next
  case (Some p)
  let ?f = "\<lambda>p. p\<lparr>p_state := Closing, p_stateDeadline := Some (now + DrainTimeout)\<rparr>"
  have "eng_inv {} h (touch k (modifyPeer pid ?f e))" if "p_state p = Connected" for k
    by (rule inv_quiet [OF inv Some, where f = ?f])
       (use that inv_peer [OF inv Some] in \<open>auto simp: flags_ok_def settled_def live_def silent_def\<close>)
  then show ?thesis
    using Some inv sendDecline_inv [OF inv] reported_close_inv [OF inv]
    by (cases "p_state p") (simp_all add: endSession_def)
qed

lemma shutdownPeer_inv:
  assumes inv: "eng_inv {} h e"
  shows "eng_inv {} h (shutdownPeer env now e pid)"
proof -
  let ?e = "report pid DisconnectReason.Shutdown e"
  have e1: "eng_inv {pid} h ?e"
    by (rule report_inv [OF inv])
  show ?thesis
  proof (cases "findPeer pid ?e")
    case None
    then show ?thesis
      using inv_absent [OF e1] by (simp add: shutdownPeer_def)
  next
    case (Some p)
    obtain p0 where p0: "findPeer pid e = Some p0" "p_state p = p_state p0" "p_closeSent p = p_closeSent p0"
      using Some by (auto simp: report_peer)
    have closed: "eng_inv {} h ?e" if "p_state p = Closing"
    proof (rule eng_invI)
      show "peer_id (p_info q) = k \<and> flags_ok q \<and> (k \<notin> {} \<longrightarrow> settled q)" if "findPeer k ?e = Some q" for k q
        using inv_peer [OF e1 that] Some \<open>p_state p = Closing\<close> that by (cases "k = pid") (auto simp: settled_def)
    qed (use inv_parts [OF e1] in blast)+
    consider "p_state p = AwaitingDecision" | "p_state p \<noteq> AwaitingDecision" "\<not> p_closeSent p" | "p_state p = Closing" "p_closeSent p"
      using inv_peer(2) [OF inv p0(1)] p0 by (auto simp: flags_ok_def)
    then show ?thesis
    proof cases
      case 1
      then show ?thesis
        using Some sendDecline_exempt_inv [OF e1] by (simp add: shutdownPeer_def Let_def)
    next
      case 2
      then show ?thesis
        using Some reported_close_inv [OF inv] by (simp add: shutdownPeer_def Let_def)
    next
      case 3
      then show ?thesis
        using Some closed by (simp add: shutdownPeer_def Let_def)
    qed
  qed
qed


lemma disc_ok_changes:
  assumes "disc_ok d"
  shows "disc_ok (setAnnouncing b d)" "disc_ok (setInterface ip m d)" "disc_ok (snd (clear d))"
  using assms by (simp_all add: disc_ok_def setAnnouncing_def setInterface_def clear_def)

lemma beginShutdown_inv:
  assumes inv: "eng_inv {} h e"
  shows "eng_inv {} h (beginShutdown env now e)"
proof -
  let ?e = "e\<lparr>e_shutdown := True, e_discovery := setAnnouncing False (e_discovery e)\<rparr>"
  have "eng_inv {} h (e\<lparr>e_shutdown := True\<rparr>)"
    by (rule inv_core [OF same_core_fields(18) inv])
  then have "eng_inv {} h ?e"
    by (rule inv_discovery [OF _ disc_ok_changes(1) [OF inv_parts(4) [OF inv]]])
  then have "eng_inv {} h (foldl (shutdownPeer env now) ?e ks)" for ks
    by (rule foldl_invariant) (rule shutdownPeer_inv)
  then have "eng_inv {} h (tellMailbox env g (foldl (shutdownPeer env now) ?e ks))" for g ks
    by (rule inv_core [OF same_core_tell(1)])
  then show ?thesis
    using inv by (simp add: beginShutdown_def Let_def)
qed

lemma apply_inv:
  assumes inv: "eng_inv {} h e" and applied: "apply_command env now c e = Some e'"
  shows "eng_inv {} h e'"
proof -
  have accepted: "eng_inv {} h (sendAccept env pid e)" if "\<exists>p. findPeer pid e = Some p \<and> p_state p = AwaitingDecision" for pid
    using that by (intro sendAccept_inv [OF inv]) auto
  have announced: "eng_inv {} h (e\<lparr>e_discovery := setAnnouncing b (e_discovery e)\<rparr>)" for b
    using inv_discovery [OF inv disc_ok_changes(1)] inv_parts(4) [OF inv] by simp
  have "eng_inv {} h (e\<lparr>e_discovery := setAnnouncing b (e_discovery e), e_beaconDue := True\<rparr>)" for b
    using inv_core [OF same_core_fields(6) announced] .
  moreover have "eng_inv {} h (e\<lparr>e_checkInterface := True\<rparr>)"
    using inv_core [OF same_core_fields(9) inv] .
  ultimately show ?thesis
    using applied inv announced accepted [of "snd c"] startSession_inv [OF inv] sendDecline_inv [OF inv] endSession_inv [OF inv]
      beginShutdown_inv [OF inv]
    by (cases "fst c") (auto simp: apply_command_def Let_def split: if_splits option.splits)
qed

lemma foldM_invariant:
  assumes "foldM f xs s = Some s'" and "P s" and "\<And>x s s'. P s \<Longrightarrow> f x s = Some s' \<Longrightarrow> P s'"
  shows "P s'"
  using assms(1,2)
proof (induction xs arbitrary: s)
  case (Cons x xs)
  then show ?case
    using assms(3) by (auto simp: Option.bind_eq_Some_conv)
qed simp

lemma stepCommands_inv:
  assumes inv: "eng_inv {} h e" and "stepCommands env now e = Some e'"
  shows "eng_inv {} h e'"
proof -
  let ?e = "e\<lparr>e_touched := e_acksHeldBack e, e_acksHeldBack := []\<rparr>"
  obtain work e1 where drained: "onMailbox env drain ?e = (work, e1)"
    by (cases "onMailbox env drain ?e")
  have "same_core e ?e" "same_core ?e e1"
    using same_core_tell(2) [of ?e env drain] drained by (simp_all add: same_core_def findPeer_def)
  then have e1: "eng_inv {} h e1"
    using inv_core inv by blast
  obtain e2 where e2: "foldM (apply_command env now) (work_commands work) e1 = Some e2" "e' = foldl markReady e2 (work_ready work)"
    using assms(2) drained by (auto simp: stepCommands_def Let_def Option.bind_eq_Some_conv)
  have "eng_inv {} h e2"
    by (rule foldM_invariant [where P = "eng_inv {} h", OF e2(1) e1]) (rule apply_inv)
  moreover have "same_core e2 e'"
    unfolding e2(2) by (rule core.rel_foldl) (rule markReady_core)
  ultimately show ?thesis
    using inv_core by blast
qed


section \<open>The adapter\<close>

lemma report_events_keys: "om_keys (e_peers (report pid r e)) = om_keys (e_peers e)"
  by (simp add: report_def split: option.splits)

lemma report_fields [simp]: "e_socket (report pid r e) = e_socket e" "e_discovery (report pid r e) = e_discovery e"
  "e_byStream (report pid r e) = e_byStream e" "e_scheduler (report pid r e) = e_scheduler e" "e_id (report pid r e) = e_id e"
  "e_shutdown (report pid r e) = e_shutdown e"
  by (simp_all add: report_def split: option.splits)

lemma silent_in_same: "findPeer k e' = findPeer k e \<Longrightarrow> silent_in k e' = silent_in k e"
  by (simp add: silent_in_def)

lemma dropSessions:
  assumes "eng_inv UNIV h e"
  shows "eng_inv UNIV h (foldl (dropSession env r) e ks) \<and> (\<forall>k \<in> set ks. silent_in k (foldl (dropSession env r) e ks)) \<and>
    om_keys (e_peers (foldl (dropSession env r) e ks)) = om_keys (e_peers e)"
proof (induction ks rule: rev_induct)
  case Nil
  then show ?case
    using assms by simp
next
  case (snoc k ks)
  let ?e = "foldl (dropSession env r) e ks"
  have "eng_inv UNIV h (report k r ?e)"
    using report_inv [of UNIV h ?e k r] snoc by simp
  then have "eng_inv UNIV h (dropSession env r ?e k)"
    unfolding dropSession_def by (rule inv_core [OF same_core_tell(1)])
  moreover have "silent_in k' (dropSession env r ?e k)" if "silent_in k' ?e \<or> k' = k" for k'
    using that silent_in_report [of k r ?e] by (cases "k' = k") (auto simp: dropSession_def silent_in_def report_peer)
  moreover have "om_keys (e_peers (dropSession env r ?e k)) = om_keys (e_peers ?e)"
    by (simp add: dropSession_def report_events_keys)
  ultimately show ?case
    using snoc by auto
qed

lemma endAllSessions_inv:
  assumes inv: "eng_inv {} h e"
  shows "eng_inv {} h (endAllSessions env r e)" and "e_peers (endAllSessions env r e) = []"
proof -
  define e1 where "e1 = foldl (dropSession env r) e (om_keys (e_peers e))"
  define e2 where "e2 = foldl (\<lambda>e p. destroyLink p e) e1 (map snd (e_peers e1))"
  have e1: "eng_inv UNIV h e1" "\<forall>k \<in> set (om_keys (e_peers e1)). silent_in k e1"
    using dropSessions [OF inv_weaken [OF inv subset_UNIV], of env r "om_keys (e_peers e)"] by (simp_all add: e1_def)
  have "\<not> live_in k e1" for k
    using e1(2) silent_in_not_live [of k e1] map_of_None_keys [of "e_peers e1" k]
    by (cases "k \<in> set (om_keys (e_peers e1))") (auto simp: live_in_def findPeer_def)
  then have run: "session_run False (kinds_of k (h @ e_events e1)) = Some False" for k
    using inv_parts(6) [OF e1(1)] by simp
  have "same_core e1 e2"
    unfolding e2_def by (rule core.rel_foldl) simp
  then have same: "e_events e2 = e_events e1" "e_discovery e2 = e_discovery e1"
    by (simp_all add: same_core_def)
  have eq: "endAllSessions env r e = e2\<lparr>e_peers := [], e_byStream := [], e_scheduler := clearRings (e_scheduler e2),
      e_acksHeldBack := [], e_ended := []\<rparr>"
    by (simp add: endAllSessions_def e1_def e2_def Let_def)
  show "eng_inv {} h (endAllSessions env r e)"
    unfolding eq using inv_parts(4) [OF e1(1)] run same by (intro eng_invI) (simp_all add: findPeer_def live_in_def streams_ok_def)
  show "e_peers (endAllSessions env r e) = []"
    by (simp add: eq)
qed

lemma closeSockets_inv:
  assumes "eng_inv {} h e" and "e_peers e = []"
  shows "eng_inv {} h (closeSockets env e)" and "e_peers (closeSockets env e) = []"
  using assms by (simp_all add: closeSockets_def Let_def eng_inv_def findPeer_def live_in_def streams_ok_def)

lemma engine_bind_inv:
  assumes inv: "eng_inv {} h e"
  shows "eng_inv {} h (engine_bind env n iface e)"
proof -
  have world: "eng_inv {} h (e\<lparr>e_world := w\<rparr>)" for w
    using inv_core [OF same_core_fields(1) inv] .
  have "eng_inv {} h (emit ((newEvent AdapterChanged 0)\<lparr>ev_info := who\<rparr>)
      (e1\<lparr>e_socket := Some a, e_discovery := setInterface ip m (e_discovery e1), e_beaconDue := True\<rparr>))"
    if "eng_inv {} h e1" for e1 :: "'a Engine" and a ip m who
    by (rule inv_tell)
       (use that disc_ok_changes(2) [OF inv_parts(4) [OF that]] in \<open>simp_all add: eng_inv_def findPeer_def live_in_def streams_ok_def\<close>)
  moreover have "eng_inv {} h (e\<lparr>e_world := w, e_beaconSocket := b\<rparr>)" for w b
    using inv_core [OF same_core_fields(22) world] .
  ultimately show ?thesis
    using world by (simp add: engine_bind_def Let_def split_beta split: option.splits)
qed

lemma peersLost_inv:
  assumes "eng_inv {} h e" and "\<forall>pid \<in> set lost. findPeer pid e = None"
    and f: "\<And>e pid. same_core (emit (newEvent PeerLost pid) e) (f e pid)"
  shows "eng_inv {} h (foldl f e lost) \<and> om_keys (e_peers (foldl f e lost)) = om_keys (e_peers e)"
  using assms(2)
proof (induction lost rule: rev_induct)
  case Nil
  then show ?case
    using assms(1) by simp
next
  case (snoc pid lost)
  let ?e = "foldl f e lost"
  have IH: "eng_inv {} h ?e" "om_keys (e_peers ?e) = om_keys (e_peers e)"
    using snoc by simp_all
  then have "findPeer pid ?e = None"
    using snoc.prems map_of_None_keys [of "e_peers e" pid] map_of_None_keys [of "e_peers ?e" pid] by (simp add: findPeer_def)
  then have "eng_inv {} h (emit (newEvent PeerLost pid) ?e)"
    by (intro inv_tell [OF IH(1)]) (simp add: live_in_def)
  then have "eng_inv {} h (f ?e pid)"
    by (rule inv_core [OF f])
  then show ?case
    using IH(2) f [of pid ?e] by (simp add: same_core_def)
qed

lemma updateInterface_inv:
  assumes inv: "eng_inv {} h e"
  shows "eng_inv {} h (updateInterface env n failed e)"
proof -
  obtain current w where asked: "env_localInterface env (e_world e) = (current, w)"
    by (cases "env_localInterface env (e_world e)")
  let ?e = "e\<lparr>e_checkInterface := False, e_world := w\<rparr>"
  let ?changed = "current \<noteq> e_interface ?e"
  have e1: "eng_inv {} h ?e"
    using inv by (rule inv_core [rotated]) (simp add: same_core_def findPeer_def)
  define e2 where "e2 = (if e_socket ?e \<noteq> None
    then endAllSessions env (if ?changed then DisconnectReason.Local else DisconnectReason.NetworkError) ?e else ?e)"
  have e2: "eng_inv {} h e2" "e_peers e2 = []"
    using endAllSessions_inv [OF e1] inv_parts(2) [OF e1] e1 by (simp_all add: e2_def)
  obtain lost d where cleared: "clear (e_discovery e2) = (lost, d)"
    by (cases "clear (e_discovery e2)")
  have "eng_inv {} h (e2\<lparr>e_discovery := d\<rparr>)"
    using inv_discovery [OF e2(1)] disc_ok_changes(3) [OF inv_parts(4) [OF e2(1)]] cleared by simp
  moreover define e3 where "e3 = foldl (\<lambda>e pid. emit (newEvent PeerLost pid) e) (e2\<lparr>e_discovery := d\<rparr>) lost"
  ultimately have e3: "eng_inv {} h e3" "e_peers e3 = []"
    using peersLost_inv [of h "e2\<lparr>e_discovery := d\<rparr>" lost "\<lambda>e pid. emit (newEvent PeerLost pid) e"] e2(2)
    by (simp_all add: findPeer_def om_keys_def)
  then have "eng_inv {} h (e3\<lparr>e_peersChanged := True, e_interface := current\<rparr>)"
    by (simp add: eng_inv_def findPeer_def live_in_def streams_ok_def)
  then have e4: "eng_inv {} h (closeSockets env (e3\<lparr>e_peersChanged := True, e_interface := current\<rparr>))"
    by (rule closeSockets_inv) (simp add: e3)
  have eq: "updateInterface env n failed e =
    (if \<not> ?changed \<and> \<not> failed
     then case current of Some iface \<Rightarrow> if e_socket ?e = None then engine_bind env n iface ?e else ?e | None \<Rightarrow> ?e
     else let e = closeSockets env (e3\<lparr>e_peersChanged := True, e_interface := current\<rparr>)
          in case current of Some iface \<Rightarrow> if ?changed then engine_bind env n iface e else e | None \<Rightarrow> e)"
    unfolding updateInterface_def asked prod.case Let_def e2_def [symmetric] cleared e3_def [symmetric] ..
  show ?thesis
    unfolding eq using e1 e4 engine_bind_inv [OF e1] engine_bind_inv [OF e4] by (auto simp: Let_def split: option.split)
qed


section \<open>Receiving\<close>

lemma socket_kept [simp]:
  "e_socket (erasePeer env pid e) = e_socket e" "e_socket (setConnected env pid e) = e_socket e"
  "e_socket (putLink pid l e) = e_socket e" "e_socket (sendAccept env pid e) = e_socket e"
  "e_socket (pushControl pid t body e) = e_socket e"
  by (simp_all add: erasePeer_def setConnected_def putLink_def sendAccept_def pushControl_def Let_def split: option.splits)

lemma addPeer_socket: "addPeer env who a now e = Some e' \<Longrightarrow> e_socket e' = e_socket e"
  by (auto simp: addPeer_def Let_def Option.bind_eq_Some_conv)

lemma engine_onBeacon_inv:
  assumes inv: "eng_inv {} h e" and "engine_onBeacon env from dg now e = Some e'"
  shows "eng_inv {} h e' \<and> e_socket e' = e_socket e"
proof (cases "e_shutdown e")
  case True
  then show ?thesis
    using assms by (simp add: engine_onBeacon_def)
next
  case False
  then obtain seen d where seen: "onBeacon from dg now (e_discovery e) = Some (seen, d)"
    using assms(2) by (auto simp: engine_onBeacon_def Option.bind_eq_Some_conv)
  let ?e = "e\<lparr>e_discovery := d\<rparr>"
  have e1: "eng_inv {} h ?e"
    using inv_discovery [OF inv onBeacon_ok [OF inv_parts(4) [OF inv] seen]] .
  have told: "eng_inv {} h ((emit ((newEvent PeerDiscovered pid)\<lparr>ev_info := i\<rparr>) ?e)\<lparr>e_peersChanged := True\<rparr>)" for pid i
    by (rule inv_core [OF same_core_fields(10)]) (rule inv_tell [OF e1], simp)
  have sent: "eng_inv {} h (sendBeacon env a b e2) \<and> e_socket (sendBeacon env a b e2) = e_socket e"
    if "eng_inv {} h e2" "e_socket e2 = e_socket e" for a b and e2 :: "'a Engine"
    using inv_core [OF sendBeacon_core that(1), of env a b] sendBeacon_core [of e2 env a b] that(2) by (simp add: same_core_def)
  show ?thesis
    using assms(2) False seen e1 told sent [OF e1] sent [OF told]
    by (auto simp: engine_onBeacon_def Let_def split: option.splits if_splits)
qed

lemma admitHello_inv:
  assumes inv: "eng_inv {} h e" and free: "findPeer (fromInstance hello) e = None" "e_socket e \<noteq> None"
    and "admitHello env from hello crossing now e = Some (target, e')"
  shows "eng_inv {} h e' \<and> e_socket e' = e_socket e"
proof (cases "length (e_peers e) \<ge> MaxPeers \<or> pendingCount e \<ge> MaxPendingSessions")
  case True
  then show ?thesis
    using assms by (auto simp: admitHello_def)
next
  case False
  let ?pid = "fromInstance hello"
  let ?who = "\<lparr>peer_id = ?pid, displayName = name hello, address = toString (sa_ip from), port = sa_port from,
    appVersion = versionText \<lparr>av_major = verMajor hello, av_minor = verMinor hello\<rparr>\<rparr>"
  obtain e1 where added: "addPeer env ?who from now e = Some e1"
    using assms(4) False by (auto simp: admitHello_def Let_def Option.bind_eq_Some_conv)
  have room: "findPeer (peer_id ?who) e = None" "length (e_peers e) < MaxPeers" "e_socket e \<noteq> None"
    using False free by simp_all
  obtain p where p: "eng_inv {} h e1" "findPeer ?pid e1 = Some p" "p_state p = Connecting" "\<not> p_reported p" "\<not> p_ended p"
      "\<not> p_closeSent p" "p_info p = ?who"
    using addPeer_inv [OF inv room added] by (metis PeerInfo.select_convs(1))
  have socket: "e_socket e1 = e_socket e"
    by (rule addPeer_socket [OF added])
  show ?thesis
  proof (cases "crossing \<or> cfg_autoAccept (e_config e1)")
    case True
    let ?f = "\<lambda>p. p\<lparr>p_announced := crossing\<rparr>"
    let ?e2 = "tellMailbox env (publishSession ?pid Pending) (modifyPeer ?pid ?f e1)"
    have "eng_inv {} h ?e2"
      by (rule inv_quiet [OF p(1,2), where f = ?f])
         (use p(3-) in \<open>auto simp: flags_ok_def settled_def live_def silent_def\<close>)
    then have "eng_inv {} h (sendAccept env ?pid ?e2)"
      by (rule sendAccept_inv) (use p(2,3) in auto)
    then show ?thesis
      using assms(4) False True added socket by (auto simp: admitHello_def Let_def)
  next
    case ask: False
    let ?f = "\<lambda>p. p\<lparr>p_state := AwaitingDecision, p_stateDeadline := Some (now + DecisionTimeout), p_announced := True\<rparr>"
    let ?e2 = "tellMailbox env (publishSession ?pid Requested) (modifyPeer ?pid ?f e1)"
    have e2: "eng_inv {} h ?e2"
      by (rule inv_quiet [OF p(1,2), where f = ?f])
         (use p(3-) in \<open>auto simp: flags_ok_def settled_def live_def silent_def\<close>)
    have "\<not> live_in ?pid ?e2"
      using p(2) by (simp add: live_in_def live_def)
    then have "eng_inv {} h (emit ((newEvent ConnectionRequest ?pid)\<lparr>ev_info := i\<rparr>) ?e2)" if "peer_id i = ?pid" for i
      using that by (intro inv_tell [OF e2]) simp
    then show ?thesis
      using assms(4) False ask added socket p(2,7) by (auto simp: admitHello_def Let_def)
  qed
qed

lemma erased_absent: "findPeer pid (erasePeer env pid e) = None"
  by (cases "findPeer pid e") (simp_all add: erasePeer_def findPeer_def Let_def)

lemma onHello_inv:
  assumes inv: "eng_inv {} h e" "e_socket e \<noteq> None" and hello: "onHello env from packet now e = Some (target, e')"
  shows "eng_inv {} h e' \<and> e_socket e' = e_socket e"
proof -
  have crossed: "eng_inv {} h (erasePeer env pid e)" if "findPeer pid e = Some p" "p_state p = Connecting" for pid p
  proof (rule erasePeer_inv)
    show "\<not> live_in pid e"
      using that by (simp add: live_in_def live_def)
  qed (use inv_weaken [OF inv(1)] in auto)
  have restarted: "eng_inv {} h (erasePeer env pid (report pid r e))" for pid r
    by (rule erasePeer_inv [OF report_inv [OF inv(1)] silent_in_not_live [OF silent_in_report]])
  have admitted: "eng_inv {} h e' \<and> e_socket e' = e_socket e"
    if "eng_inv {} h e1" "findPeer (fromInstance hl) e1 = None" "e_socket e1 = e_socket e"
      "admitHello env from hl c now e1 = Some (target, e')" for e1 hl c
    using admitHello_inv [OF that(1,2) _ that(4)] that(3) inv(2) by simp
  show ?thesis
    using hello inv(1) admitted [OF inv(1)] admitted [OF crossed erased_absent] admitted [OF restarted erased_absent]
    by (auto simp: onHello_def Let_def split: option.splits if_splits prod.splits)
qed

lemma receivePacket_inv:
  assumes inv: "eng_inv {} h e" and "receivePacket env from packet now target e = Some e'"
  shows "eng_inv {} h e' \<and> e_socket e' = e_socket e"
proof (cases "Option.bind target (\<lambda>pid. findPeer pid e)")
  case None
  then show ?thesis
    using assms by (simp add: receivePacket_def)
next
  case (Some p)
  then obtain pid where target: "target = Some pid" and found: "findPeer pid e = Some p"
    by (auto simp: Option.bind_eq_Some_conv)
  let ?early = "lane (flags (pkt_header packet)) \<noteq> Control \<and> \<not> transfersData p"
  show ?thesis
  proof (cases "p_ended p \<or> p_address p \<noteq> from \<or> ?early \<and> (p_state p \<noteq> Connecting \<or> p_initiator p \<or> \<not> p_acceptSent p)")
    case True
    then show ?thesis
      using assms target found by (auto simp: receivePacket_def Let_def split: if_splits)
  next
    case False
    define e1 where "e1 = (if ?early then setConnected env pid e else e)"
    have e1: "eng_inv {} h e1" "e_socket e1 = e_socket e"
      using False setConnected_inv [OF inv found] inv by (auto simp: e1_def)
    have eq: "receivePacket env from packet now target e =
      do { p \<leftarrow> findPeer pid e1; l \<leftarrow> onPacket packet now (linkOf p e1); Some (touch (peer_id (p_info p)) (putLink pid l e1)) }"
      unfolding receivePacket_def target Option.bind.bind_lunit found option.case option.sel Let_def e1_def [symmetric]
      using False by auto
    obtain p1 l where p1: "findPeer pid e1 = Some p1" and l: "onPacket packet now (linkOf p1 e1) = Some l"
      and e': "e' = touch (peer_id (p_info p1)) (putLink pid l e1)"
      using assms(2) [unfolded eq] by (auto simp: Option.bind_eq_Some_conv)
    have "same_core e1 (putLink pid l e1)"
      using linkID_onPacket [OF l] by (intro same_core_putLink [OF p1]) simp
    then have "same_core e1 e'"
      by (simp add: e')
    then show ?thesis
      using inv_core [OF _ e1(1)] e1(2) by (simp add: same_core_def)
  qed
qed

lemma handleDatagram_inv:
  assumes "eng_inv {} h e" "e_socket e \<noteq> None" and "handleDatagram env from dg now e = Some e'"
  shows "eng_inv {} h e' \<and> e_socket e' = e_socket e"
proof -
  have hello: "eng_inv {} h e' \<and> e_socket e' = e_socket e"
    if "onHello env from packet now e = Some (target, e1)" "receivePacket env from packet now target e1 = Some e'" for packet target e1
    using onHello_inv [OF assms(1,2) that(1)] receivePacket_inv [OF _ that(2)] by auto
  show ?thesis
    using assms engine_onBeacon_inv [OF assms(1)] receivePacket_inv [OF assms(1)] hello
    unfolding handleDatagram_def by (auto simp: Option.bind_eq_Some_conv split: if_splits option.splits)
qed

lemma receiveLoop_inv:
  assumes handle: "\<And>from dg e e'. eng_inv {} h e \<Longrightarrow> e_socket e \<noteq> None \<Longrightarrow> handle from dg e = Some e' \<Longrightarrow>
      eng_inv {} h e' \<and> e_socket e' = e_socket e"
    and "eng_inv {} h e" "e_socket e \<noteq> None" "receiveLoop env which handle n e = Some e'"
  shows "eng_inv {} h e' \<and> e_socket e' = e_socket e"
  using assms(2-)
proof (induction n arbitrary: e)
  case (Suc n)
  obtain dg w where arrived: "env_receive env which (e_world e) = (dg, w)"
    by (cases "env_receive env which (e_world e)")
  let ?e = "e\<lparr>e_world := w\<rparr>"
  have e1: "eng_inv {} h ?e" "e_socket ?e \<noteq> None"
    using inv_core [OF same_core_fields(1) Suc.prems(1)] Suc.prems(2) by simp_all
  show ?case
  proof (cases dg)
    case (Inl err)
    then show ?thesis
      using Suc.prems(3) arrived e1 Suc.IH [OF e1] by (cases err) auto
  next
    case (Inr a)
    obtain "from" bytes where a: "a = (from, bytes)"
      by (cases a)
    obtain e2 where e2: "handle from bytes ?e = Some e2" "receiveLoop env which handle n e2 = Some e'"
      using Suc.prems(3) arrived Inr a by (auto simp: Option.bind_eq_Some_conv)
    have "eng_inv {} h e2" "e_socket e2 = e_socket e"
      using handle [OF e1 e2(1)] by simp_all
    then show ?thesis
      using Suc.IH [of e2] e2(2) Suc.prems(2) by simp
  qed
qed simp

lemma receivePending_inv:
  assumes "eng_inv {} h e" and "receivePending env now e = Some e'"
  shows "eng_inv {} h e'"
proof (cases "e_socket e")
  case None
  then show ?thesis
    using assms by (simp add: receivePending_def)
next
  case (Some a)
  obtain e1 where e1: "receiveLoop env False (\<lambda>from bytes. handleDatagram env from bytes now) MaxDatagramsPerPass e = Some e1"
    using assms(2) Some by (auto simp: receivePending_def Option.bind_eq_Some_conv)
  have inv1: "eng_inv {} h e1" "e_socket e1 \<noteq> None"
    using receiveLoop_inv [OF handleDatagram_inv assms(1) _ e1] Some by simp_all
  then show ?thesis
    using assms(2) Some e1 receiveLoop_inv [OF engine_onBeacon_inv inv1]
    by (auto simp: receivePending_def split: if_splits)
qed


section \<open>Timers, sending and the end of a step\<close>

lemma expire_absent:
  assumes "expire now hasSession d = (lost, d')"
  shows "\<forall>pid \<in> set lost. \<not> hasSession pid"
  using assms by (auto simp: expire_def expireLoop_eq expired_def om_keys_def split_beta)

lemma tick_inv:
  assumes inv: "eng_inv {} h e"
  shows "eng_inv {} h (tick now e)"
proof -
  let ?e = "e\<lparr>e_nextTick := Some (now + BeaconInterval), e_beaconDue := True\<rparr>"
  have e1: "eng_inv {} h ?e"
    using inv by (rule inv_core [rotated]) (simp add: same_core_def findPeer_def)
  obtain lost d where expired: "expire now (\<lambda>pid. findPeer pid ?e \<noteq> None) (e_discovery ?e) = (lost, d)"
    by (cases "expire now (\<lambda>pid. findPeer pid ?e \<noteq> None) (e_discovery ?e)")
  have "disc_ok d"
    using expire_ok [OF inv_parts(4) [OF e1], of now "\<lambda>pid. findPeer pid ?e \<noteq> None"] expired by simp
  then have e2: "eng_inv {} h (?e\<lparr>e_discovery := d\<rparr>)"
    by (rule inv_discovery [OF e1])
  moreover have "\<forall>pid \<in> set lost. findPeer pid (?e\<lparr>e_discovery := d\<rparr>) = None"
    using expire_absent [OF expired] by (simp add: findPeer_def)
  ultimately have "eng_inv {} h (foldl (\<lambda>e pid. (emit (newEvent PeerLost pid) e)\<lparr>e_peersChanged := True\<rparr>)
      (?e\<lparr>e_discovery := d\<rparr>) lost)"
    by (rule conjunct1 [OF peersLost_inv]) (rule same_core_fields(10))
  then show ?thesis
    unfolding tick_def Let_def expired prod.case .
qed

lemma stepReceive_inv:
  assumes inv: "eng_inv {} h e" and "stepReceive env n now e = Some e'"
  shows "eng_inv {} h e'"
proof -
  define e1 where "e1 = (if \<not> e_shutdown e \<and> (tickDue now e \<or> e_checkInterface e \<or> e_socketFailed e)
    then updateInterface env n (e_socketFailed e) (e\<lparr>e_socketFailed := False\<rparr>) else e)"
  have "eng_inv {} h e1"
    using inv updateInterface_inv [OF inv_core [OF same_core_fields(8) inv]] by (simp add: e1_def)
  then have e2: "eng_inv {} h (updatePause e1)"
    by (rule inv_core [OF updatePause_core])
  obtain e3 where e3: "receivePending env now (updatePause e1) = Some e3"
    using assms(2) by (auto simp: stepReceive_def Let_def e1_def Option.bind_eq_Some_conv)
  have "eng_inv {} h (serviceTimers now e3)"
    by (rule inv_core [OF serviceTimers_core receivePending_inv [OF e2 e3]])
  then have "eng_inv {} h (if tickDue now e then tick now (serviceTimers now e3) else serviceTimers now e3)"
    by (simp add: tick_inv)
  moreover define e4 where "e4 = (if tickDue now e then tick now (serviceTimers now e3) else serviceTimers now e3)"
  ultimately have "eng_inv {} h (e4\<lparr>e_beaconDue := False\<rparr>)"
    using inv_core [OF same_core_fields(6)] by blast
  moreover from this have "eng_inv {} h (sendBeacon env a b (e4\<lparr>e_beaconDue := False\<rparr>))" for a b
    by (rule inv_core [OF sendBeacon_core])
  moreover have "e' = (if e_beaconDue e4 \<and> dl_announcing (e_discovery e4) \<and> \<not> e_shutdown e4
      then sendBeacon env \<lparr>sa_ip = broadcastAddress (e_discovery (e4\<lparr>e_beaconDue := False\<rparr>)),
             sa_port = cfg_discoveryPort (e_config (e4\<lparr>e_beaconDue := False\<rparr>))\<rparr> False (e4\<lparr>e_beaconDue := False\<rparr>)
      else e4\<lparr>e_beaconDue := False\<rparr>)"
    using assms(2) unfolding stepReceive_def Let_def e1_def [symmetric] e3 Option.bind.bind_lunit e4_def [symmetric] by simp
  ultimately show ?thesis
    by simp
qed

lemma servePeer_inv:
  assumes inv: "eng_inv {} h e" and "servePeer env now pid e = Some e'"
  shows "eng_inv {} h e'"
proof (cases "findPeer pid e")
  case None
  then show ?thesis
    using assms by (simp add: servePeer_def)
next
  case (Some p)
  then obtain e1 where e1: "sendAcks env pid (advance env pid now e) = Some e1"
    and e': "e' = (case findPeer pid e1 of None \<Rightarrow> e1 | Some p \<Rightarrow> if p_ended p then e1 else schedule env pid e1)"
    using assms(2) by (auto simp: servePeer_def Option.bind_eq_Some_conv)
  have "eng_inv {} h e1"
    by (rule inv_core [OF sendAcks_core [OF e1] advance_inv [OF inv]])
  moreover from this have "eng_inv {} h (schedule env pid e1)"
    by (rule inv_core [OF schedule_core])
  ultimately show ?thesis
    by (simp add: e' split: option.splits)
qed

lemma stepSend_inv:
  assumes inv: "eng_inv {} h e" and "stepSend env now e = Some e'"
  shows "eng_inv {} h e'"
proof -
  let ?e = "e\<lparr>e_touched := remdups_adj (sort (e_touched e)), e_scheduler := refill now (e_scheduler e), e_socketBlocked := False\<rparr>"
  obtain e1 e2 where e1: "foldM (servePeer env now) (e_touched ?e) ?e = Some e1"
    and e2: "(if e_socketBlocked e1 then Some e1 else sendData env now e1) = Some e2"
    and e': "e' = foldl (settlePeer env) e2 (e_touched e2)"
    using assms(2) by (auto simp: stepSend_def Let_def Option.bind_eq_Some_conv)
  have "eng_inv {} h ?e"
    using inv by (rule inv_core [rotated]) (simp add: same_core_def findPeer_def)
  then have "eng_inv {} h e1"
    by (rule foldM_invariant [where P = "eng_inv {} h", OF e1]) (rule servePeer_inv)
  moreover have "same_core e1 e2"
    using e2 sendData_core by (auto split: if_splits)
  moreover have "same_core e2 e'"
    unfolding e' by (rule core.rel_foldl) (rule settlePeer_core)
  ultimately show ?thesis
    using inv_core by blast
qed

lemma eraseEnded_inv:
  assumes inv: "eng_inv {} h e"
  shows "eng_inv {} h (eraseEnded env e pid)"
proof (cases "findPeer pid e")
  case (Some p)
  have "eng_inv {} h (erasePeer env pid e)" if "p_ended p"
  proof (rule erasePeer_inv)
    show "\<not> live_in pid e"
      using that Some inv_peer(2) [OF inv Some] by (simp add: live_in_def flags_ok_def silent_not_live)
  qed (use inv_weaken [OF inv] in auto)
  then show ?thesis
    using Some inv by (simp add: eraseEnded_def)
qed (use inv in \<open>simp add: eraseEnded_def\<close>)

lemma stepFinish_inv:
  assumes inv: "eng_inv {} h e"
  shows "eng_inv {} h (stepFinish env now e)"
proof -
  define e1 where "e1 = foldl (eraseEnded env) (e\<lparr>e_ended := []\<rparr>) (e_ended e)"
  have "eng_inv {} h e1"
    unfolding e1_def using inv_core [OF same_core_fields(3) inv] by (rule foldl_invariant) (rule eraseEnded_inv)
  moreover have "same_core e1 (stepFinish env now e)"
    by (simp add: stepFinish_def Let_def e1_def [symmetric] same_core_def findPeer_def)
  ultimately show ?thesis
    using inv_core by blast
qed

text \<open>A step, with the events of the batch it returns.\<close>

lemma takeBatch_inv: "eng_inv {} h e \<Longrightarrow> takeBatch e = (b, e') \<Longrightarrow> eng_inv {} (h @ batch_events b) e'"
  by (auto simp: takeBatch_def Let_def eng_inv_def findPeer_def live_in_def streams_ok_def kinds_of_def)

lemma step_inv:
  assumes "eng_inv {} h e" and "step env n now e = Some (b, e')"
  shows "eng_inv {} (h @ batch_events b) e'"
proof -
  obtain e1 e2 e3 where e: "stepCommands env now e = Some e1" "stepReceive env n now e1 = Some e2" "stepSend env now e2 = Some e3"
      "takeBatch (stepFinish env now e3) = (b, e')"
    using assms(2) by (auto simp: step_def Option.bind_eq_Some_conv)
  show ?thesis
    by (rule takeBatch_inv [OF stepFinish_inv [OF stepSend_inv [OF stepReceive_inv [OF stepCommands_inv [OF assms(1) e(1)] e(2)] e(3)]] e(4)])
qed

lemma init_inv: "eng_inv {} [] (networkEngine v r config w)"
  by (simp add: eng_inv_def networkEngine_def Let_def findPeer_def live_in_def streams_ok_def disc_ok_def newDiscovery_def kinds_of_def)

end
