(* ===== verification/LinkSafety.thy ===== *)
theory LinkSafety
  imports LinkSending LinkReceiving
begin

text \<open>
  No operation of a link reads outside its buffers, whatever packets arrive: \<open>link_safe\<close> is kept by every
  operation, the body of a datagram that is offered lies within its message, and \<open>onPacket\<close> returns for
  every packet the decoder lets through. The acknowledgements that are due run out.
\<close>

section \<open>The invariant\<close>

definition cursor_safe :: "FragmentCursor \<Rightarrow> bool" where
  "cursor_safe c \<longleftrightarrow>
     cur_count c = fragmentsOf (length (om_body (cur_message c))) \<and> cur_next c < cur_count c \<and>
     length (om_body (cur_message c)) \<le> MaxMessagePayload"

definition entry_safe :: "InFlight \<Rightarrow> bool" where
  "entry_safe e \<longleftrightarrow> unat (fl_offset e) + unat (fl_length e) \<le> length (fl_message e)"

definition stream_safe :: "Lane \<Rightarrow> Stream \<Rightarrow> bool" where
  "stream_safe la s \<longleftrightarrow>
     buf_ok (windowOf la) (s_inFlight s) \<and> (\<forall>c. s_cursor s = Some c \<longrightarrow> cursor_safe c) \<and>
     (\<forall>sq e. buf_find (s_inFlight s) sq = Some e \<longrightarrow> entry_safe e)"

definition send_safe :: "Link \<Rightarrow> bool" where
  "send_safe l \<longleftrightarrow>
     (\<forall>la s. mStreams l la = Some s \<longrightarrow> stream_safe la s) \<and> (\<forall>c. mMediaCursor l = Some c \<longrightarrow> cursor_safe c)"

definition rest_safe :: "Link \<Rightarrow> bool" where
  "rest_safe l \<longleftrightarrow>
     (\<forall>m. mMediaAssembler l = Some m \<longrightarrow> media_ok m) \<and> (\<forall>d \<in> set (mPendingAcks l). od_message d = None)"

definition link_safe :: "Link \<Rightarrow> bool" where
  "link_safe l \<longleftrightarrow> send_safe l \<and> rest_safe l"

lemma cursor_safe_new: "length (om_body m) \<le> MaxMessagePayload \<Longrightarrow> cursor_safe (cursorFor m)"
  using fragmentsOf_pos by (simp add: cursor_safe_def cursorFor_def)

lemma cursor_safe_advance: "cursor_safe c \<Longrightarrow> advanceCursor c = Some c' \<Longrightarrow> cursor_safe c'"
  by (auto simp: cursor_safe_def advanceCursor_def split: if_splits)

lemma entry_safe_fragment:
  assumes "cursor_safe c"
  shows "entry_safe (fragmentAt c)"
proof -
  let ?n = "length (om_body (cur_message c))" and ?o = "cur_next c * MaxFragmentBody"
  have o: "?o \<le> ?n"
  proof (cases "?n = 0")
    case True
    then show ?thesis
      using assms by (simp add: cursor_safe_def fragmentsOf_def)
  next
    case False
    have "?o \<le> (fragmentsOf ?n - 1) * MaxFragmentBody"
      using assms by (intro mult_le_mono1) (auto simp: cursor_safe_def)
    also have "\<dots> < ?n"
      using False fragmentsOf_bounds [of ?n] by simp
    finally show ?thesis by simp
  qed
  moreover have "?n < 2 ^ 32"
    using assms by (simp add: cursor_safe_def constants)
  ultimately show ?thesis
    by (auto simp: entry_safe_def fragmentAt_def Let_def min_def take_bit_nat_eq_self unat_of_nat simp del: of_nat_mult)
qed

lemma stream_safe_new:
  assumes "la \<noteq> Media"
  shows "stream_safe la (newStream (windowOf la))"
  using stream_sends_new [OF assms] buf_find_new by (auto simp: stream_safe_def stream_sends_def newStream_def)

lemma stream_safe_side: "stream_safe la s \<Longrightarrow> send_side s' = send_side s \<Longrightarrow> stream_safe la s'"
  by (simp add: stream_safe_def send_side_def)

lemma entry_safe_same: "entry_safe e \<Longrightarrow> same_fragment e e' \<Longrightarrow> entry_safe e'"
  by (simp add: entry_safe_def same_fragment_def)

lemma stream_safe_kept: "stream_safe la s \<Longrightarrow> window_kept (windowOf la) s s' \<Longrightarrow> stream_safe la s'"
  unfolding stream_safe_def window_kept_def by (metis entry_safe_same)

lemma send_safe_same:
  assumes "send_safe l" and "same_send l l'"
  shows "send_safe l'"
proof -
  have "stream_safe la s'" if s': "mStreams l' la = Some s'" for la s'
  proof -
    have "same_view send_side la (mStreams l la) (mStreams l' la)"
      using assms(2) by (simp add: same_send_def)
    then consider s where "mStreams l la = Some s" "send_side s' = send_side s"
      | "la \<noteq> Media" "send_side s' = send_side (newStream (windowOf la))"
      using s' by (cases "mStreams l la") (auto simp: same_view_def)
    then show ?thesis
      using assms(1) stream_safe_side stream_safe_new unfolding send_safe_def by cases blast+
  qed
  then show ?thesis
    using assms by (simp add: send_safe_def same_send_def)
qed

lemma send_safe_kept:
  assumes "send_safe l" and "send_kept l l'"
  shows "send_safe l'"
proof -
  have "stream_safe la s'" if s': "mStreams l' la = Some s'" for la s'
  proof -
    have "stream_kept la (mStreams l la) (mStreams l' la)"
      using assms(2) by (simp add: send_kept_def)
    then obtain s where "mStreams l la = Some s" "window_kept (windowOf la) s s'"
      using s' by (auto simp: stream_kept_def option_rel_Some2)
    then show ?thesis
      using assms(1) stream_safe_kept unfolding send_safe_def by blast
  qed
  then show ?thesis
    using assms by (simp add: send_safe_def send_kept_def)
qed

lemma send_safe_fields:
  "send_safe l \<Longrightarrow> mStreams l' = mStreams l \<Longrightarrow> mMediaCursor l' = mMediaCursor l \<Longrightarrow> send_safe l'"
  by (simp add: send_safe_def)

lemma send_safe_setStream: "send_safe l \<Longrightarrow> stream_safe la s \<Longrightarrow> send_safe (setStream la s l)"
  by (simp add: send_safe_def setStream_def)


section \<open>Receiving\<close>

text \<open>What most operations leave alone.\<close>

definition same_rest :: "Link \<Rightarrow> Link \<Rightarrow> bool" where
  "same_rest l l' \<longleftrightarrow> mMediaAssembler l' = mMediaAssembler l \<and> mPendingAcks l' = mPendingAcks l"

lemma same_rest_refl [simp]: "same_rest l l"
  by (simp add: same_rest_def)

lemma same_rest_trans: "same_rest a b \<Longrightarrow> same_rest b c \<Longrightarrow> same_rest a c"
  by (simp add: same_rest_def)

lemma same_rest_setStream [simp]: "same_rest l (setStream la s l)"
  by (simp add: same_rest_def setStream_def)

lemma same_rest_markLost: "same_rest l (markLost r e t l)"
  by (simp add: markLost_def same_rest_def setStream_def Let_def split: option.splits)

interpretation rest: loss_frame same_rest
  by unfold_locales (simp_all add: same_rest_markLost, rule same_rest_trans, assumption+, simp_all add: same_rest_def)

lemma rest_safe_same: "rest_safe l \<Longrightarrow> same_rest l l' \<Longrightarrow> rest_safe l'"
  by (simp add: rest_safe_def same_rest_def)

lemma same_rest_streamFor: "same_rest l (snd (streamFor la l))"
  by (simp add: streamFor_def Let_def split: option.splits)

lemma same_rest_accept: "same_rest l (snd (acceptInOrder la h body l))"
  by (auto simp: acceptInOrder_def same_rest_def setStream_def Let_def split: option.splits prod.splits)

lemma same_rest_drainLoop: "same_rest l (drainLoop n la l)"
proof (induction n arbitrary: l)
  case (Suc n)
  have step: "same_rest l (drainLoop n la l1)" "same_rest l (drainLoop n la (setStream la s l1))"
    if "same_rest l l1" for l1 s
    using that Suc.IH same_rest_setStream same_rest_trans by blast+
  show ?case
    using same_rest_accept by (auto simp: Let_def split_beta intro: step split: option.splits)
qed simp

lemma same_rest_drain: "same_rest l (drainReorderBuffer la l)"
  by (simp add: drainReorderBuffer_def same_rest_drainLoop split: option.splits)

lemma same_rest_retry: "same_rest l (retryRefused la l)"
proof (cases "mStreams l la")
  case (Some s)
  have "same_rest l (drainReorderBuffer la (setStream la (s\<lparr>s_budgetPaused := False\<rparr>) l))"
    using same_rest_trans [OF same_rest_setStream same_rest_drain] .
  then show ?thesis
    using Some by (auto simp: retryRefused_def Let_def same_rest_def)
qed (simp add: retryRefused_def)

lemma same_rest_handleData: "same_rest l (handleData la h body l)"
proof -
  define l1 where "l1 = retryRefused la (snd (streamFor la l))"
  have l1: "same_rest l l1"
    unfolding l1_def by (rule same_rest_trans [OF same_rest_streamFor same_rest_retry])
  define l2 where "l2 = l1\<lparr>mAckDue := mAckDue l1 OR bitOf la\<rparr>"
  have l2: "same_rest l l2" "same_rest l (bump f l1)" "same_rest l (bump f l2)" "same_rest l (setStream la s l2)" for f s
    using l1 by (simp_all add: l2_def same_rest_def setStream_def)
  have l3: "same_rest l (snd (acceptInOrder la h body l2))"
    by (rule same_rest_trans [OF l2(1) same_rest_accept])
  have l4: "same_rest l (drainReorderBuffer la (case mStreams l3 la of None \<Rightarrow> l3 | Some s \<Rightarrow> setStream la (f s) l3))"
    if "same_rest l l3" for l3 f
  proof -
    have "same_rest l3 (case mStreams l3 la of None \<Rightarrow> l3 | Some s \<Rightarrow> setStream la (f s) l3)"
      by (simp split: option.splits)
    then show ?thesis
      using that same_rest_drain same_rest_trans by blast
  qed
  show ?thesis
    using l1 l2 l3 l4 unfolding handleData_def Let_def l1_def [symmetric] l2_def [symmetric]
    by (auto simp: split_beta split: option.splits)
qed

lemma same_rest_clock: "same_rest l (updateProgressClock now b l)"
  by (simp add: updateProgressClock_def Let_def same_rest_def)

lemma same_rest_takeAckState: "same_rest l (takeAckState la h ack now l)"
proof -
  have "same_rest l (setPeerPaused la p now l)" for p l
    using same_rest_trans [OF same_rest_setStream same_rest_clock]
    by (auto simp: setPeerPaused_def Let_def split: option.splits)
  then have "same_rest l (setPeerPaused la p now ((setStream la s l)\<lparr>mStats := st\<rparr>))" for p s st
    using same_rest_trans [of l "(setStream la s l)\<lparr>mStats := st\<rparr>"] by (simp add: same_rest_def)
  then show ?thesis
    by (simp add: takeAckState_def Let_def split: option.splits)
qed

lemma same_rest_settleAck: "same_rest l (settleAck la t now l)"
proof -
  define l1 where "l1 = (if ta_acked t > 0 then (if ta_hasSample t
    then l\<lparr>mRtt := addSample (mRtt l) (duration_cast 1000 (now - ta_sampleSentAt t))\<rparr> else l)\<lparr>mTimeoutsInARow := 0\<rparr> else l)"
  have "same_rest l l1"
    by (simp add: l1_def same_rest_def)
  then have "same_rest l (updateProgressClock now (ta_acked t > 0) (snd (detectLosses l1)))"
    using rest.rel_detectLosses same_rest_clock same_rest_trans by blast
  then show ?thesis
    unfolding settleAck_def Let_def l1_def [symmetric] by (simp add: same_rest_def split_beta)
qed

lemma same_rest_handleAck: "same_rest l (handleAck la h body now l)"
proof (cases "the (decodeAck body)")
  case (Some ack)
  have "same_rest (takeAckState la h ack now l) (settleAck la t now ((setStream la s (takeAckState la h ack now l))\<lparr>mLargestAcked := x\<rparr>))" for t s x
    using same_rest_trans [OF _ same_rest_settleAck, of _ "(setStream la s (takeAckState la h ack now l))\<lparr>mLargestAcked := x\<rparr>"]
    by (simp add: same_rest_def)
  then show ?thesis
    using Some same_rest_takeAckState
    by (auto simp: handleAck_def Let_def intro: same_rest_trans [OF same_rest_takeAckState] split: option.splits)
qed (simp add: handleAck_def)


text \<open>\<open>onPacket\<close> returns for every packet the decoder lets through.\<close>

lemma onPacket_safe:
  assumes safe: "link_safe l" and h: "header_ok (pkt_header p)"
  shows "\<exists>l'. onPacket p now l = Some l' \<and> link_safe l'"
proof -
  let ?h = "pkt_header p" and ?la = "lane (flags (pkt_header p))"
  define l1 where "l1 = (let l = l\<lparr>mRemoteStreamID := Some (srcStreamID ?h)\<rparr>
    in if mLastReceived l \<noteq> None then l\<lparr>mLastReceived := Some now\<rparr> else l)"
  have fields: "link_safe (bump staleDropped_update l)" "link_safe l1" "link_safe (l1\<lparr>mAckDue := x\<rparr>)" for x
    using safe by (simp_all add: l1_def Let_def link_safe_def send_safe_def rest_safe_def)
  have media: "\<exists>l'. handleMedia ?h (pkt_body p) l1 = Some l' \<and> link_safe l'"
  proof -
    let ?m = "case mMediaAssembler l1 of Some m \<Rightarrow> m | None \<Rightarrow> emptyMediaAssembler"
    have "media_ok ?m"
      using fields(2) media_ok_empty by (simp add: link_safe_def rest_safe_def split: option.splits)
    then obtain r m' where "media_accept ?h (pkt_body p) ?m = Some (r, m')" "media_ok m'"
      using media_accept_safe [OF _ h] by blast
    then show ?thesis
      using fields(2) by (auto simp: handleMedia_def Let_def link_safe_def send_safe_def rest_safe_def split: option.splits)
  qed
  have data: "link_safe (handleData ?la ?h (pkt_body p) l1)" if "?la \<noteq> Media"
    using fields(2) send_safe_same [OF _ same_send_handleData [OF that]] rest_safe_same [OF _ same_rest_handleData]
    by (simp add: link_safe_def)
  have ack: "link_safe (handleAck ?la ?h (pkt_body p) now l1)"
    using fields(2) send_safe_kept [OF _ send_kept_handleAck] rest_safe_same [OF _ same_rest_handleAck]
    by (simp add: link_safe_def)
  show ?thesis
    using safe fields media data ack by (auto simp: onPacket_def Let_def l1_def split: PacketKind.splits)
qed


section \<open>Timers\<close>

lemma linkFail_safe: "link_safe l \<Longrightarrow> link_safe (linkFail l)"
proof -
  assume "link_safe l"
  moreover have "mStreams (foldl dropStream l StreamLanes) la = (if la = Media then mStreams l la else None)" for la
    by (cases la) (simp_all add: StreamLanes_def dropStream_def split: option.splits)
  ultimately show ?thesis
    by (simp add: linkFail_def resetStreams_def Let_def link_safe_def send_safe_def rest_safe_def)
qed


lemma same_rest_onTimer:
  assumes "\<not> mFailed l" "\<not> overdue now l"
  shows "same_rest l (onTimer now l)"
proof -
  have probe: "same_rest l (probePaused now l la)" for l la
    by (simp add: probePaused_def same_rest_def setStream_def Let_def split: option.splits)
  obtain expired l1 where
    t: "timeoutLoop (mSent l) now (timeoutFor (mRtt l) (mTimeoutsInARow l)) False (keepAliveDue now l) = (expired, l1)"
    and eq: "onTimer now l = foldl (probePaused now)
       (if expired \<and> mTimeoutsInARow l1 < MaxBackoffSteps then l1\<lparr>mTimeoutsInARow := mTimeoutsInARow l1 + 1\<rparr> else l1)
       StreamLanes"
    by (rule onTimer_running [OF assms])
  have "same_rest l (keepAliveDue now l)"
    by (simp add: keepAliveDue_def same_rest_def split: option.splits)
  then have "same_rest l l1"
    using rest.rel_timeoutLoop [of "keepAliveDue now l"] t same_rest_trans by (metis snd_conv)
  then have "same_rest l (if expired \<and> mTimeoutsInARow l1 < MaxBackoffSteps then l1\<lparr>mTimeoutsInARow := mTimeoutsInARow l1 + 1\<rparr> else l1)"
    by (simp add: same_rest_def)
  then show ?thesis
    unfolding eq by (rule same_rest_trans) (rule rest.rel_foldl [OF probe])
qed

lemma onTimer_safe:
  assumes "link_safe l"
  shows "link_safe (onTimer now l)"
proof (cases "mFailed l \<or> overdue now l")
  case True
  then show ?thesis
    using assms linkFail_safe by (auto simp: onTimer_def)
next
  case False
  then show ?thesis
    using assms send_safe_kept [OF _ send_kept_onTimer] rest_safe_same [OF _ same_rest_onTimer]
    by (simp add: link_safe_def)
qed


section \<open>Sending\<close>

lemma offer_safe:
  assumes "link_safe l" and "entry_safe e"
  shows "link_safe (snd (offer h e l)) \<and> datagramBody (fst (offer h e l)) \<noteq> None"
  using assms
  by (simp add: offer_def Let_def link_safe_def send_safe_def rest_safe_def datagramBody_def entry_safe_def)

lemma setStream_safe: "link_safe l \<Longrightarrow> stream_safe la s \<Longrightarrow> link_safe (setStream la s l)"
  using rest_safe_same [OF _ same_rest_setStream] send_safe_setStream by (simp add: link_safe_def)

lemma link_safe_stream: "link_safe l \<Longrightarrow> mStreams l la = Some s \<Longrightarrow> stream_safe la s"
  by (simp add: link_safe_def send_safe_def)

lemma nextLost_safe: "link_safe l \<Longrightarrow> mStreams l la = Some s \<Longrightarrow> link_safe (setStream la (snd (nextLost s)) l)"
  using send_safe_kept [OF _ send_kept_nextLost] rest_safe_same [OF _ same_rest_setStream] by (simp add: link_safe_def)

text \<open>A source that gives messages of a size the lanes take.\<close>

definition source_fits :: "('s \<Rightarrow> Lane \<Rightarrow> OutboundMessage option \<times> 's) \<Rightarrow> Lane \<Rightarrow> 's \<Rightarrow> bool" where
  "source_fits next la src \<longleftrightarrow> (\<forall>m. fst (next src la) = Some m \<longrightarrow> length (om_body m) \<le> MaxMessagePayload)"

lemma peekFragment_safe:
  assumes safe: "link_safe l" and la: "la \<noteq> Media" and src: "source_fits next la src"
    and p: "peekFragment next la src l = (r, src', l')"
  shows "link_safe l' \<and> (\<forall>d. r = Some d \<longrightarrow> datagramBody d \<noteq> None)"
proof (cases rule: peekFragment_cases [of "next" la src l])
  case (none st)
  then show ?thesis
    using p safe by simp
next
  case (same s c)
  have "cursor_safe c"
    using link_safe_stream [OF safe same(1)] same(2) by (simp add: stream_safe_def)
  then show ?thesis
    using same p offer_safe [OF safe entry_safe_fragment] by (auto simp: split_beta Let_def)
next
  case (taken m st s l1)
  let ?l = "setStream la (s\<lparr>s_cursor := Some (cursorFor m)\<rparr>) l1"
  have m: "cursor_safe (cursorFor m)"
    using taken(1) src by (intro cursor_safe_new) (simp add: source_fits_def)
  have "link_safe l1 \<and> stream_safe la s"
    using taken(2) safe link_safe_stream [OF safe] stream_safe_new [OF la] setStream_safe
    by (auto simp: streamFor_def Let_def split: option.splits)
  then have "link_safe ?l"
    using m by (intro setStream_safe) (simp_all add: stream_safe_def)
  then show ?thesis
    using taken(4) p offer_safe [OF _ entry_safe_fragment [OF m]] by (auto simp: split_beta Let_def)
qed

lemma peekMedia_safe:
  assumes safe: "link_safe l" and src: "source_fits next Media src" and p: "peekMedia next src l = (r, src', l')"
  shows "link_safe l' \<and> (\<forall>d. r = Some d \<longrightarrow> datagramBody d \<noteq> None)"
proof -
  have cursor: "link_safe (l\<lparr>mMediaCursor := Some c\<rparr>)" if "cursor_safe c" for c
    using safe that by (simp add: link_safe_def send_safe_def rest_safe_def)
  show ?thesis
  proof (cases "mMediaCursor l")
    case None
    then show ?thesis
      using p safe src cursor_safe_new offer_safe [OF cursor entry_safe_fragment]
      by (auto simp: peekMedia_def Let_def split_beta source_fits_def split: prod.splits option.splits)
  next
    case (Some c)
    then have "cursor_safe c"
      using safe by (simp add: link_safe_def send_safe_def)
    then show ?thesis
      using p Some offer_safe [OF cursor entry_safe_fragment] by (auto simp: peekMedia_def Let_def split_beta)
  qed
qed

lemma peek_safe:
  assumes safe: "link_safe l" and src: "source_fits next la src" and p: "peek next la src l = (r, src', l')"
  shows "link_safe l' \<and> (\<forall>d. r = Some d \<longrightarrow> datagramBody d \<noteq> None)"
proof (cases "la = Media")
  case True
  then show ?thesis
    using p safe peekMedia_safe [OF safe, of "next" src r src' l'] src by (cases "mFailed l") (simp_all add: peek_def)
next
  case False
  then show ?thesis
  proof (cases rule: peek_cases [of la "next" src l])
    case (held l1)
    then show ?thesis
      using p safe nextLost_safe by auto
  next
    case (lost s e)
    have "entry_safe e"
      using link_safe_stream [OF safe lost(1)] nextLost_Some(2) [OF lost(2)] by (auto simp: stream_safe_def)
    then show ?thesis
      using p lost(6) offer_safe [OF nextLost_safe [OF safe lost(1)]] by (auto simp: split_beta Let_def)
  next
    case fresh
    show ?thesis
      using peekFragment_safe [OF safe False src p [unfolded fresh(4)]] .
  next
    case (onward s)
    show ?thesis
      using peekFragment_safe [OF nextLost_safe [OF safe onward(1)] False src p [unfolded onward(7)]] .
  qed
qed


lemma transmit_safe:
  assumes "link_safe l" "mStreams l la = Some s" "buf_find (s_inFlight s) sq = Some e"
  shows "link_safe (transmit la sq now l)"
proof -
  have "same_rest l (transmit la sq now l)"
    by (simp add: transmit_def Let_def updateProgressClock_def same_rest_def setStream_def)
  then show ?thesis
    using assms send_safe_kept [OF _ send_kept_transmit] rest_safe_same by (auto simp: link_safe_def)
qed

lemma commit_safe:
  assumes safe: "link_safe l"
  shows "link_safe (commit la now l)"
proof (cases "la = Media")
  case True
  then show ?thesis
    using safe cursor_safe_advance
    by (auto simp: commit_def Let_def link_safe_def send_safe_def rest_safe_def split: option.splits)
next
  case False
  then show ?thesis
  proof (cases rule: commit_cases [of la l now])
    case absent
    then show ?thesis using safe by simp
  next
    case (idle s)
    then show ?thesis
      using nextLost_safe [OF safe] by simp
  next
    case (again s e)
    let ?s = "(snd (nextLost s))\<lparr>s_lost := tl (s_lost (snd (nextLost s)))\<rparr>"
    have "link_safe (setStream la ?s l)"
      using link_safe_stream [OF safe again(1)] by (intro setStream_safe [OF safe]) (simp add: stream_safe_def)
    then show ?thesis
      unfolding again(3) using nextLost_Some(2) [OF again(2)] by (intro transmit_safe [of _ _ ?s]) simp_all
  next
    case (first s c)
    let ?s = "(snd (nextLost s))\<lparr>s_nextSendSeq := s_nextSendSeq s + 1,
      s_inFlight := buf_insert (s_inFlight s) (s_nextSendSeq s) (fragmentAt c), s_cursor := advanceCursor c\<rparr>"
    have s: "stream_safe la s" and ok: "buf_ok (windowOf la) (s_inFlight s)"
      using link_safe_stream [OF safe first(1)] by (simp_all add: stream_safe_def)
    have c: "cursor_safe c"
      using s first(3) by (simp add: stream_safe_def)
    have "stream_safe la ?s"
      using s ok buf_find_insert [OF ok] buf_ok_insert [OF ok] entry_safe_fragment [OF c] cursor_safe_advance [OF c]
      by (auto simp: stream_safe_def split: if_splits)
    then have "link_safe (setStream la ?s l)"
      by (rule setStream_safe [OF safe])
    then show ?thesis
      unfolding first(4) using buf_find_insert [OF ok] by (intro transmit_safe [of _ _ ?s]) simp_all
  qed
qed

lemma reliableLink_safe: "link_safe (reliableLink t lid rid bg)"
  by (simp add: reliableLink_def link_safe_def send_safe_def rest_safe_def)

lemma small_ops_safe:
  assumes "link_safe l"
  shows "link_safe (supervise now l)" "link_safe (setPaused b l)" "link_safe (snd (takeDelivered l))"
    "link_safe (l\<lparr>mBudget := bg\<rparr>)" "link_safe (commitAck l)"
  using assms
  by (auto simp: supervise_def setPaused_def takeDelivered_def commitAck_def link_safe_def send_safe_def rest_safe_def
      dest: list.set_sel(2))


section \<open>Acknowledgements\<close>

lemma makeAck_rest:
  "od_message (fst (makeAck la l)) = None" "same_rest l (snd (makeAck la l))"
  using same_rest_retry [of l la]
  by (auto simp: makeAck_def Let_def makeDatagram_def emptyDatagram_def same_rest_def split_beta)

lemma queueAcks_rest:
  assumes "rest_safe l"
  shows "rest_safe (queueAcks l la)" "length (mPendingAcks (queueAcks l la)) \<le> length (mPendingAcks l) + 2"
  using assms makeAck_rest(1) [of la l] makeAck_rest(2) [of l la]
  by (auto simp: queueAcks_def Let_def rest_safe_def same_rest_def makeDatagram_def emptyDatagram_def split_beta)

text \<open>How many acknowledgements a link has left at most.\<close>

definition acksLeft :: "Link \<Rightarrow> nat" where
  "acksLeft l = length (mPendingAcks l) + (if mAckDue l = 0 \<and> mPingDue l = 0 then 0 else 7)"

lemma queueAcks_idle: "mAckDue l = 0 \<Longrightarrow> mPingDue l = 0 \<Longrightarrow> queueAcks l la = l"
  by (simp add: queueAcks_def)

lemma peekAck_safe:
  assumes safe: "link_safe l" and p: "peekAck l = (r, l')"
  shows "link_safe l'" "acksLeft l' \<le> acksLeft l" "\<And>d. r = Some d \<Longrightarrow> datagramBody d \<noteq> None \<and> mPendingAcks l' \<noteq> []"
proof -
  define q where "q = foldl queueAcks l StreamLanes"
  have rest: "rest_safe q"
    unfolding q_def StreamLanes_def using safe queueAcks_rest(1) by (simp add: link_safe_def)
  have len: "length (mPendingAcks (foldl queueAcks l las)) \<le> length (mPendingAcks l) + 2 * length las" if "rest_safe l" for l las
    using that
  proof (induction las arbitrary: l)
    case (Cons la las)
    then show ?case
      using Cons.IH [OF queueAcks_rest(1) [OF Cons.prems, of la]] queueAcks_rest(2) [OF Cons.prems, of la] by simp
  qed simp
  have q: "length (mPendingAcks q) \<le> length (mPendingAcks l) + 6" "same_send l q"
    using len [of l StreamLanes] safe unfolding q_def
    by (simp add: StreamLanes_def link_safe_def, intro send.rel_foldl same_send_queueAcks)
  have idle: "q = l" if "mAckDue l = 0" "mPingDue l = 0"
    using that by (simp add: q_def StreamLanes_def queueAcks_idle)
  have "send_safe q"
    using safe send_safe_same [OF _ q(2)] by (simp add: link_safe_def)
  then have queued: "link_safe (q\<lparr>mAckDue := 0, mPingDue := 0\<rparr>)"
    using rest by (simp add: link_safe_def send_safe_def rest_safe_def)
  have l': "l' = (if \<not> mFailed l \<and> mPendingAcks l = [] then q\<lparr>mAckDue := 0, mPingDue := 0\<rparr> else l)"
    and r: "r = Some d \<Longrightarrow> mPendingAcks l' \<noteq> [] \<and> d = hd (mPendingAcks l')" for d
    using p by (auto simp: peekAck_def Let_def q_def [symmetric] split: if_splits)
  show l'_safe: "link_safe l'"
    using l' safe queued by simp
  show "acksLeft l' \<le> acksLeft l"
    using l' q(1) idle by (auto simp: acksLeft_def)
  show "datagramBody d \<noteq> None \<and> mPendingAcks l' \<noteq> []" if "r = Some d" for d
    using r [OF that] l'_safe by (simp add: link_safe_def rest_safe_def datagramBody_def)
qed

lemma commitAck_left: "mPendingAcks l \<noteq> [] \<Longrightarrow> acksLeft (commitAck l) < acksLeft l"
  by (simp add: commitAck_def acksLeft_def)

end
