(* ===== verification/EngineSafety.thy ===== *)
theory EngineSafety
  imports EngineSteps LinkSafety
begin

text \<open>
  A step of the engine returns: no datagram, command or error of a socket makes it read outside a buffer
  or run forever. It rests on an invariant of the links (see \<open>LinkSafety\<close>), of the messages that wait in
  the mailbox, and of the rings of the scheduler: a peer is in the ring of a lane at most once, and only
  while its session exists and is marked for that lane.
\<close>

section \<open>The invariant\<close>

definition peer_safe :: "PeerId \<Rightarrow> Peer \<Rightarrow> bool" where
  "peer_safe pid p \<longleftrightarrow>
     peer_id (p_info p) = pid \<and> link_safe (p_link p) \<and> (\<forall>m \<in> set (p_control p). length (om_body m) \<le> MaxMessagePayload)"

definition mail_fits :: "Mailbox \<Rightarrow> bool" where
  "mail_fits m \<longleftrightarrow>
     (\<forall>pid p la mail. map_of (mb_peers m) pid = Some p \<longrightarrow> mail \<in> set (lq_queue (mp_lanes p la)) \<longrightarrow>
        length (mail_body mail) \<le> MaxMessagePayload)"

definition base_safe :: "'w Engine \<Rightarrow> bool" where
  "base_safe e \<longleftrightarrow> (\<forall>pid p. findPeer pid e = Some p \<longrightarrow> peer_safe pid p) \<and> mail_fits (e_mailbox e)"

definition marked :: "'w Engine \<Rightarrow> Lane \<Rightarrow> PeerId \<Rightarrow> bool" where
  "marked e la pid \<longleftrightarrow> (case findPeer pid e of None \<Rightarrow> False | Some p \<Rightarrow> p_scheduled p AND bitOf la \<noteq> 0)"

definition rings_hold :: "SendScheduler \<Rightarrow> 'w Engine \<Rightarrow> bool" where
  "rings_hold s e \<longleftrightarrow>
     sched_ok s \<and> \<not> isUnlimited s \<and> (\<forall>la. \<forall>pid \<in> set (ring_peers (sc_rings s la)). marked e la pid)"

definition eng_safe :: "'w Engine \<Rightarrow> bool" where
  "eng_safe e \<longleftrightarrow> base_safe e \<and> rings_hold (e_scheduler e) e"

text \<open>
  What the other code promises: messages the other threads push have a size the mailbox takes, and the
  stream IDs that are drawn do not stay within a set of as many as there can be sessions.
\<close>

definition draws :: "'w Environment \<Rightarrow> 'w \<Rightarrow> nat \<Rightarrow> 'w" where
  "draws env w n = ((\<lambda>w. snd (env_makeStreamID env w)) ^^ n) w"

definition env_safe :: "'w Environment \<Rightarrow> bool" where
  "env_safe env \<longleftrightarrow>
     (\<forall>m w. mail_fits m \<longrightarrow> mail_fits (fst (env_others env m w))) \<and>
     (\<forall>ids w. finite ids \<and> card ids \<le> MaxPeers \<longrightarrow> (\<exists>n. fst (env_makeStreamID env (draws env w n)) \<notin> ids))"


section \<open>The mailbox\<close>

lemma mail_fits_cong: "mb_peers m' = mb_peers m \<Longrightarrow> mail_fits m' = mail_fits m"
  by (simp add: mail_fits_def)

lemma mail_fits_put:
  assumes "mail_fits m" and "\<And>la mail. mail \<in> set (lq_queue (mp_lanes p la)) \<Longrightarrow> length (mail_body mail) \<le> MaxMessagePayload"
  shows "mail_fits (m\<lparr>mb_peers := om_put k p (mb_peers m)\<rparr>)"
  using assms by (simp add: mail_fits_def)

lemma mail_fits_modify:
  assumes "mail_fits m" and "\<And>p. mp_lanes (f p) = mp_lanes p"
  shows "mail_fits (m\<lparr>mb_peers := om_modify k f (mb_peers m)\<rparr>)"
  using assms by (auto simp: mail_fits_def)

lemma mail_fits_drain: "mail_fits m \<Longrightarrow> mail_fits (snd (drain m))"
proof -
  assume fits: "mail_fits m"
  have "mail_fits (foldl unlist m0 ps)" if "mail_fits m0" for m0 ps
    by (rule foldl_invariant [where P = mail_fits]) (simp_all add: that unlist_def mail_fits_modify)
  then have "mail_fits (foldl unlist (m\<lparr>mb_commands := [], mb_ready := []\<rparr>) (mb_ready m))"
    using fits mail_fits_cong [of "m\<lparr>mb_commands := [], mb_ready := []\<rparr>" m] by simp
  then show ?thesis
    by (simp add: drain_def Let_def mail_fits_def)
qed

lemma mail_fits_take:
  assumes "mail_fits m"
  shows "mail_fits (snd (take_mail k la m))" "fst (take_mail k la m) = Some mail \<Longrightarrow> length (mail_body mail) \<le> MaxMessagePayload"
proof -
  show "fst (take_mail k la m) = Some mail \<Longrightarrow> length (mail_body mail) \<le> MaxMessagePayload"
    using assms unfolding mail_fits_def
    by (auto simp: take_mail_def Let_def split: option.splits list.splits) (metis list.set_intros(1))
  show "mail_fits (snd (take_mail k la m))"
    using assms
    by (auto simp: take_mail_def Let_def mail_fits_def split: option.splits list.splits if_splits)
      (metis list.set_intros(2))
qed

lemma mail_fits_ops:
  assumes "mail_fits m"
  shows "mail_fits (snd (settle k m))" "mail_fits (open_mail k m)" "mail_fits (close_mail k m)"
    "mail_fits (publishSession k s m)" "mail_fits (publishDiscovered ps m)" "mail_fits (publishStats k st m)"
    "mail_fits (setRunning b m)" "mail_fits (snd (post c k m))" "mail_fits (seal k m)" "mail_fits (setQueueBytes n m)"
  using assms
  by (auto simp: mail_fits_def settle_def open_mail_def close_mail_def publishSession_def publishDiscovered_def
      publishStats_def setRunning_def post_def seal_def setQueueBytes_def newMailPeer_def emptyLane_def Let_def
      split: option.splits if_splits)

lemma mail_fits_new: "mail_fits newMailbox"
  by (simp add: mail_fits_def newMailbox_def)

text \<open>A message that is pushed is not too large for its lane.\<close>

lemma mail_fits_enqueue:
  assumes "mail_fits m" "map_of (mb_peers m) k = Some p" "\<not> tooLarge la (length (mail_body mail))"
  shows "mail_fits (snd (enqueue k p la mail m))"
proof -
  have tl: "x \<in> set (tl xs) \<Longrightarrow> x \<in> set xs" for x :: Mail and xs
    by (cases xs) simp_all
  have "length (mail_body x) \<le> MaxMessagePayload" if "x \<in> set (lq_queue (mp_lanes (enqueuePeer la mail p) la'))" for x la'
  proof (cases "x = mail")
    case True
    then show ?thesis
      using assms(3) by (simp add: tooLarge_def constants split: if_splits)
  next
    case False
    then have "x \<in> set (lq_queue (mp_lanes p la'))"
      using that by (auto simp: enqueuePeer_def Let_def dest: tl split: if_splits)
    then show ?thesis
      using assms(1,2) unfolding mail_fits_def by blast
  qed
  then show ?thesis
    using mail_fits_put [OF assms(1), of "enqueuePeer la mail p" k] by (simp add: enqueue_def mail_fits_def)
qed

lemma mail_fits_push:
  assumes "mail_fits m" and "\<And>m. mail_fits m \<Longrightarrow> mail_fits (waited m)"
  shows "mail_fits (snd (snd (push k la mail timeout waited m)))"
  using assms mail_fits_enqueue
  by (auto simp: push_def pushStart_def pushDone_def Let_def split: option.splits sum.splits if_splits)


lemma mail_fits_pushToAll:
  assumes "mail_fits m" "om_ok (mb_peers m)"
  shows "mail_fits (snd (snd (pushToAll la mail m)))"
proof -
  have "mail_fits (snd (snd (pushAllLoop la mail ps n b m)))"
    if "mail_fits m" "\<not> tooLarge la (length (mail_body mail))" "\<forall>(k, p) \<in> set ps. map_of (mb_peers m) k = Some p" "distinct (map fst ps)"
    for ps n b m
    using that
  proof (induction ps arbitrary: n b m)
    case (Cons kp ps)
    obtain k p where kp: "kp = (k, p)"
      by (cases kp)
    have rest: "\<forall>(k', p') \<in> set ps. map_of (mb_peers (snd (enqueue k p la mail m))) k' = Some p'"
      using Cons.prems(3,4) kp by (force simp: enqueue_def)
    show ?case
      using Cons kp rest mail_fits_enqueue [OF Cons.prems(1) _ Cons.prems(2), of k p] by (auto simp: Let_def split_beta)
  qed simp
  moreover have "\<forall>(k, p) \<in> set (mb_peers m). map_of (mb_peers m) k = Some p" "distinct (map fst (mb_peers m))"
    using om_ok_distinct [OF assms(2)] by (auto simp: om_keys_def)
  ultimately show ?thesis
    using assms(1) by (simp add: pushToAll_def)
qed


section \<open>Parts of the engine\<close>

lemma base_safe_cong:
  "e_peers e' = e_peers e \<Longrightarrow> e_mailbox e' = e_mailbox e \<Longrightarrow> base_safe e' = base_safe e"
  by (simp add: base_safe_def findPeer_def)

lemma rings_hold_cong: "e_peers e' = e_peers e \<Longrightarrow> rings_hold s e' = rings_hold s e"
  by (simp add: rings_hold_def marked_def findPeer_def)

lemma eng_safe_fields [simp]:
  "eng_safe (e\<lparr>e_world := a\<rparr>) = eng_safe e" "eng_safe (e\<lparr>e_events := v\<rparr>) = eng_safe e"
  "eng_safe (e\<lparr>e_ended := c\<rparr>) = eng_safe e" "eng_safe (e\<lparr>e_touched := c\<rparr>) = eng_safe e"
  "eng_safe (e\<lparr>e_acksHeldBack := c\<rparr>) = eng_safe e" "eng_safe (e\<lparr>e_beaconDue := d\<rparr>) = eng_safe e"
  "eng_safe (e\<lparr>e_socketBlocked := d\<rparr>) = eng_safe e" "eng_safe (e\<lparr>e_socketFailed := d\<rparr>) = eng_safe e"
  "eng_safe (e\<lparr>e_checkInterface := d\<rparr>) = eng_safe e" "eng_safe (e\<lparr>e_peersChanged := d\<rparr>) = eng_safe e"
  "eng_safe (e\<lparr>e_waitingForTick := d\<rparr>) = eng_safe e" "eng_safe (e\<lparr>e_nextWake := t\<rparr>) = eng_safe e"
  "eng_safe (e\<lparr>e_nextTick := t\<rparr>) = eng_safe e" "eng_safe (e\<lparr>e_paused := d\<rparr>) = eng_safe e"
  "eng_safe (e\<lparr>e_backlogPaused := d\<rparr>) = eng_safe e" "eng_safe (e\<lparr>e_backlogBytes := n\<rparr>) = eng_safe e"
  "eng_safe (e\<lparr>e_budget := g\<rparr>) = eng_safe e" "eng_safe (e\<lparr>e_datagramsSent := k\<rparr>) = eng_safe e"
  "eng_safe (e\<lparr>e_shutdown := d\<rparr>) = eng_safe e" "eng_safe (e\<lparr>e_inboxes := x\<rparr>) = eng_safe e"
  "eng_safe (e\<lparr>e_nextInbox := n\<rparr>) = eng_safe e" "eng_safe (e\<lparr>e_interface := i\<rparr>) = eng_safe e"
  "eng_safe (e\<lparr>e_beaconSocket := d\<rparr>) = eng_safe e" "eng_safe (e\<lparr>e_socket := s\<rparr>) = eng_safe e"
  "eng_safe (e\<lparr>e_discovery := y\<rparr>) = eng_safe e" "eng_safe (e\<lparr>e_byStream := z\<rparr>) = eng_safe e"
  "eng_safe (touch pid e) = eng_safe e" "eng_safe (emit ev e) = eng_safe e" "eng_safe (destroyLink p e) = eng_safe e"
  by (simp_all add: eng_safe_def base_safe_def rings_hold_def marked_def findPeer_def touch_def emit_def destroyLink_def)

lemma modifyPeer_safe:
  assumes "eng_safe e"
    and "\<And>p. findPeer pid e = Some p \<Longrightarrow> peer_safe pid p \<Longrightarrow> peer_safe pid (f p) \<and> p_scheduled (f p) = p_scheduled p"
  shows "eng_safe (modifyPeer pid f e)"
proof -
  have "base_safe (modifyPeer pid f e)"
    using assms by (auto simp: eng_safe_def base_safe_def modifyPeer_def findPeer_def)
  moreover have "marked (modifyPeer pid f e) la k = marked e la k" for la k
    using assms by (auto simp: marked_def eng_safe_def base_safe_def split: option.splits)
  ultimately show ?thesis
    using assms(1) by (simp add: eng_safe_def rings_hold_def)
qed

lemma modify_quiet_safe:
  assumes "eng_safe e" and "\<And>p. p_info (f p) = p_info p" "\<And>p. p_link (f p) = p_link p" "\<And>p. p_control (f p) = p_control p"
    "\<And>p. p_scheduled (f p) = p_scheduled p"
  shows "eng_safe (modifyPeer pid f e)"
  using assms by (intro modifyPeer_safe) (simp_all add: peer_safe_def)

lemma putLink_safe:
  assumes "eng_safe e" "link_safe l"
  shows "eng_safe (putLink pid l e)"
  unfolding putLink_def using assms by (intro modifyPeer_safe) (simp_all add: peer_safe_def)

lemma onMailbox_safe:
  assumes "eng_safe e" "env_safe env" and "\<And>m. mail_fits m \<Longrightarrow> mail_fits (snd (f m))"
  shows "eng_safe (snd (onMailbox env f e))"
  using assms
  by (auto simp: onMailbox_def Let_def split_beta eng_safe_def base_safe_def rings_hold_def marked_def findPeer_def env_safe_def)

lemma tellMailbox_safe:
  assumes "eng_safe e" "env_safe env" and "\<And>m. mail_fits m \<Longrightarrow> mail_fits (f m)"
  shows "eng_safe (tellMailbox env f e)"
  unfolding tellMailbox_def using assms by (intro onMailbox_safe) simp_all

lemma eng_safe_link: "eng_safe e \<Longrightarrow> findPeer pid e = Some p \<Longrightarrow> link_safe (linkOf p e)"
  by (simp add: eng_safe_def base_safe_def peer_safe_def linkOf_def small_ops_safe(4))

lemma eng_safe_id: "eng_safe e \<Longrightarrow> findPeer pid e = Some p \<Longrightarrow> peer_id (p_info p) = pid"
  by (simp add: eng_safe_def base_safe_def peer_safe_def)

lemma scheduler_safe:
  assumes "eng_safe e" "rings_hold s e"
  shows "eng_safe (e\<lparr>e_scheduler := s\<rparr>)"
  using assms by (simp add: eng_safe_def base_safe_def rings_hold_def marked_def findPeer_def)

lemma rings_hold_refill: "rings_hold s e \<Longrightarrow> rings_hold (refill now s) e"
  using sched_ok_refill [of s now] by (simp add: rings_hold_def refill_def Let_def isUnlimited_def split: option.splits)

lemma rings_hold_spend: "rings_hold s e \<Longrightarrow> rings_hold (spend n s) e"
  using sched_ok_spend [of s n] by (simp add: rings_hold_def)

lemma spend_safe: "eng_safe e \<Longrightarrow> e_scheduler e = s \<Longrightarrow> eng_safe (e\<lparr>e_scheduler := spend n s\<rparr>)"
  by (rule scheduler_safe) (auto simp: eng_safe_def rings_hold_spend)


section \<open>Sessions\<close>

lemma report_safe [simp]: "eng_safe e \<Longrightarrow> eng_safe (report pid r e)"
  by (auto simp: report_def intro: modify_quiet_safe split: option.splits)

lemma endPeer_safe: "env_safe env \<Longrightarrow> eng_safe e \<Longrightarrow> eng_safe (endPeer env pid e)"
  by (auto simp: endPeer_def Let_def mail_fits_ops intro!: tellMailbox_safe modify_quiet_safe split: option.splits)

lemma setConnected_safe: "env_safe env \<Longrightarrow> eng_safe e \<Longrightarrow> eng_safe (setConnected env pid e)"
  by (auto simp: setConnected_def Let_def mail_fits_ops intro!: tellMailbox_safe modify_quiet_safe split: option.splits)

lemma pushControl_safe: "length body \<le> MaxMessagePayload \<Longrightarrow> eng_safe e \<Longrightarrow> eng_safe (pushControl pid t body e)"
  by (auto simp: pushControl_def peer_safe_def intro!: modifyPeer_safe)

text \<open>Session messages are short: a text takes at most 255 bytes.\<close>

lemma control_short:
  "length (the (encodeAccept a)) \<le> MaxMessagePayload" "length (encodeDecline \<lparr>reason = r, decline_text = []\<rparr>) \<le> MaxMessagePayload"
  "length (encodeClose c) \<le> MaxMessagePayload" "length (the (encodeHello h)) \<le> MaxMessagePayload"
  by (simp_all add: encodeAccept_bytes encodeHello_bytes encodeDecline_def encodeClose_def writer_simps text_field_def
      ext_field_def hello_bytes_def constants)

lemma sendAccept_safe: "env_safe env \<Longrightarrow> eng_safe e \<Longrightarrow> eng_safe (sendAccept env pid e)"
  by (auto simp: sendAccept_def Let_def mail_fits_ops control_short intro!: tellMailbox_safe modify_quiet_safe pushControl_safe
      split: option.splits)

lemma sendDecline_safe: "env_safe env \<Longrightarrow> eng_safe e \<Longrightarrow> eng_safe (sendDecline env pid now e)"
  by (auto simp: sendDecline_def Let_def mail_fits_ops control_short intro!: tellMailbox_safe modify_quiet_safe report_safe pushControl_safe
      split: option.splits)

lemma sendClose_safe: "env_safe env \<Longrightarrow> eng_safe e \<Longrightarrow> eng_safe (sendClose env pid now e)"
  by (auto simp: sendClose_def Let_def mail_fits_ops control_short
      intro!: tellMailbox_safe modify_quiet_safe report_safe pushControl_safe endPeer_safe split: option.splits)

lemma onControl_safe: "env_safe env \<Longrightarrow> eng_safe e \<Longrightarrow> eng_safe (onControl env pid msg e)"
  by (auto simp: onControl_def Let_def peer_safe_def intro!: setConnected_safe endPeer_safe modifyPeer_safe split: option.splits)

lemma deliverMessage_safe: "env_safe env \<Longrightarrow> eng_safe e \<Longrightarrow> eng_safe (deliverMessage env pid e msg)"
  by (auto simp: deliverMessage_def inboxOf_def Let_def intro: onControl_safe modify_quiet_safe split: option.splits)

lemma advanceState_safe:
  assumes "env_safe env" "eng_safe e"
  shows "eng_safe (advanceState env pid now e)"
proof -
  have settled: "eng_safe (snd (onMailbox env (settle k) e))" for k
    using assms by (intro onMailbox_safe) (simp_all add: mail_fits_ops)
  show ?thesis
    using assms settled
    by (auto simp: advanceState_def finishClosing_def Let_def split_beta
        intro: setConnected_safe sendDecline_safe endPeer_safe sendClose_safe split: option.splits PeerState.splits)
qed

lemma advance_safe:
  assumes env: "env_safe env" and safe: "eng_safe e"
  shows "eng_safe (advance env pid now e)"
proof (cases "findPeer pid e")
  case (Some p)
  define e1 where "e1 = putLink pid (snd (takeDelivered (linkOf p e))) e"
  have "eng_safe e1"
    unfolding e1_def using safe Some by (intro putLink_safe small_ops_safe eng_safe_link)
  then have "eng_safe (foldl (deliverMessage env pid) e1 ms)" for ms
    by (rule foldl_invariant [where P = eng_safe]) (rule deliverMessage_safe [OF env])
  then have "eng_safe (advanceState env pid now (foldl (deliverMessage env pid) e1 ms))" for ms
    by (rule advanceState_safe [OF env])
  then show ?thesis
    using Some safe endPeer_safe [OF env] by (simp add: advance_def Let_def split_beta e1_def)
qed (simp add: advance_def safe)

lemma erasePeer_safe:
  assumes env: "env_safe env" and safe: "eng_safe e"
  shows "eng_safe (erasePeer env pid e)"
proof (cases "findPeer pid e")
  case (Some p)
  define e1 where "e1 = tellMailbox env (close_mail pid) (e\<lparr>e_byStream := om_erase (mLocalStreamID (p_link p)) (e_byStream e),
    e_scheduler := remove pid (e_scheduler e)\<rparr>)"
  have rings: "set (ring_peers (sc_rings (remove pid (e_scheduler e)) la)) = set (ring_peers (sc_rings (e_scheduler e) la)) - {pid}" for la
    using safe ringRemove_set by (simp add: remove_def eng_safe_def rings_hold_def sched_ok_def)
  have "rings_hold (remove pid (e_scheduler e)) e"
    using safe sched_ok_remove [of "e_scheduler e" pid] rings
    by (simp add: eng_safe_def rings_hold_def) (simp add: remove_def isUnlimited_def)
  then have "eng_safe e1"
    unfolding e1_def using safe env rings_hold_cong [of "e\<lparr>e_byStream := b\<rparr>" e for b]
    by (intro tellMailbox_safe scheduler_safe) (simp_all add: mail_fits_ops)
  moreover have "e_scheduler e1 = remove pid (e_scheduler e)" "e_peers e1 = e_peers e"
    by (simp_all add: e1_def)
  ultimately have "eng_safe (e1\<lparr>e_budget := b, e_peers := om_erase pid (e_peers e)\<rparr>)" for b
    using rings by (simp add: eng_safe_def base_safe_def rings_hold_def marked_def findPeer_def)
  then show ?thesis
    using Some by (simp add: erasePeer_def Let_def e1_def [symmetric] destroyLink_def)
qed (simp add: erasePeer_def safe)


section \<open>New sessions\<close>

text \<open>The loop that draws stream IDs ends as soon as one is free.\<close>

lemma freshStreamID_returns:
  assumes "map_of taken (fst (env_makeStreamID env (draws env w n))) = None"
  shows "\<exists>r. freshStreamID env taken w = Some r"
  using assms
proof (induction n arbitrary: w)
  case 0
  then show ?case
    by (simp add: draws_def freshStreamID.simps)
next
  case (Suc n)
  then have "\<exists>r. freshStreamID env taken (snd (env_makeStreamID env w)) = Some r"
    using Suc.IH [of "snd (env_makeStreamID env w)"] by (simp add: draws_def funpow_Suc_right del: funpow.simps)
  then show ?case
    by (subst freshStreamID.simps) simp
qed

text \<open>There are no more stream IDs than sessions.\<close>

lemma streams_few:
  assumes inv: "eng_inv X h e"
  shows "finite (dom (map_of (e_byStream e)))" "card (dom (map_of (e_byStream e))) \<le> MaxPeers"
proof -
  let ?S = "(\<lambda>pid. mLocalStreamID (p_link (the (findPeer pid e)))) ` set (om_keys (e_peers e))"
  have "dom (map_of (e_byStream e)) \<subseteq> ?S"
  proof
    fix sid
    assume "sid \<in> dom (map_of (e_byStream e))"
    then obtain pid p where "findPeer pid e = Some p" "mLocalStreamID (p_link p) = sid"
      using inv by (auto simp: eng_inv_def streams_ok_def)
    then show "sid \<in> ?S"
      using map_of_None_keys [of "e_peers e" pid] by (force simp: findPeer_def)
  qed
  moreover have "card ?S \<le> length (e_peers e)"
    using card_image_le [of "set (om_keys (e_peers e))"] card_length [of "om_keys (e_peers e)"]
    by (metis (no_types, lifting) List.finite_set le_trans length_map om_keys_def)
  ultimately show "card (dom (map_of (e_byStream e))) \<le> MaxPeers"
    using inv card_mono [of ?S "dom (map_of (e_byStream e))"] by (simp add: eng_inv_def)
qed (rule finite_dom_map_of)

lemma addPeer_safe:
  assumes env: "env_safe env" and safe: "eng_safe e" and inv: "eng_inv X h e" and free: "findPeer (peer_id who) e = None"
  shows "\<exists>e'. addPeer env who a now e = Some e' \<and> eng_safe e'"
proof -
  let ?pid = "peer_id who"
  obtain n where "fst (env_makeStreamID env (draws env (e_world e) n)) \<notin> dom (map_of (e_byStream e))"
    using env streams_few [OF inv] unfolding env_safe_def by blast
  then obtain sid w where sid: "freshStreamID env (e_byStream e) (e_world e) = Some (sid, w)"
    using freshStreamID_returns by fastforce
  define p where "p = newPeer who a (cfg_timings (e_config e)) sid (e_budget e)"
  have p: "peer_safe ?pid p" "p_scheduled p = 0"
    by (simp_all add: p_def newPeer_def peer_safe_def reliableLink_safe)
  define e1 where "e1 = e\<lparr>e_world := w, e_peers := om_put ?pid p (e_peers e)\<rparr>"
  have "marked e1 la k = marked e la k" if "k \<noteq> ?pid" for la k
    using that by (simp add: marked_def e1_def findPeer_def)
  moreover have "?pid \<notin> set (ring_peers (sc_rings (e_scheduler e) la))" for la
    using safe free by (fastforce simp: eng_safe_def rings_hold_def marked_def)
  ultimately have "rings_hold (e_scheduler e) e1"
    using safe unfolding eng_safe_def rings_hold_def by metis
  then have e1: "eng_safe e1"
    using safe p by (simp add: eng_safe_def base_safe_def findPeer_def) (simp add: e1_def)
  have "eng_safe (modifyPeer ?pid (\<lambda>p. p\<lparr>p_link := setPaused (e_paused e1) (supervise now (p_link p))\<rparr>) e1)"
    using e1 by (intro modifyPeer_safe) (simp_all add: peer_safe_def small_ops_safe)
  then show ?thesis
    using sid free by (simp add: addPeer_def Let_def p_def e1_def findPeer_def)
qed

lemma openSession_safe:
  assumes env: "env_safe env" and safe: "eng_safe e" and inv: "eng_inv {} h e" and free: "findPeer pid e = None"
  shows "\<exists>e'. openSession env pid now e = Some e' \<and> eng_safe e'"
proof (cases "find_known (e_discovery e) pid")
  case (Some known)
  have "peer_id (info known) = pid"
    using find_known_id [OF _ Some] inv by (simp add: eng_inv_def)
  then obtain e1 where e1: "addPeer env (info known) (endpoint known) now e = Some e1" "eng_safe e1"
    using addPeer_safe [OF env safe inv, of "info known" "endpoint known" now] free by auto
  have "eng_safe (tellMailbox env (publishSession pid Pending) (pushControl k CtHello (the (encodeHello h))
      (modifyPeer k (\<lambda>p. p\<lparr>p_initiator := True, p_announced := True\<rparr>) e1)))" for h k
    using e1(2) env
    by (intro tellMailbox_safe pushControl_safe modify_quiet_safe) (simp_all add: mail_fits_ops control_short)
  then show ?thesis
    using Some e1 safe by (auto simp: openSession_def Let_def)
qed (simp add: openSession_def safe)


lemma startSession_safe:
  assumes env: "env_safe env" and safe: "eng_safe e" and inv: "eng_inv {} h e"
  shows "\<exists>e'. startSession env pid now e = Some e' \<and> eng_safe e'"
proof (cases "\<exists>p. findPeer pid e = Some p \<and> p_state p = Closing \<and> p_closeSent p")
  case True
  then obtain p where p: "findPeer pid e = Some p" "p_state p = Closing" "p_closeSent p"
    by blast
  have "eng_inv {} h (erasePeer env pid e)"
    using p inv by (intro erasePeer_inv inv_weaken [OF inv]) (auto simp: live_in_def live_def eng_inv_def flags_ok_def)
  then show ?thesis
    using openSession_safe [OF env erasePeer_safe [OF env safe] _ erased_absent] p safe by (auto simp: startSession_def)
next
  case False
  then show ?thesis
    using openSession_safe [OF env safe inv] sendAccept_safe [OF env safe] safe
    by (auto simp: startSession_def split: option.splits)
qed

lemma endSession_safe: "env_safe env \<Longrightarrow> eng_safe e \<Longrightarrow> eng_safe (endSession env pid now e)"
  by (auto simp: endSession_def intro: modify_quiet_safe sendDecline_safe sendClose_safe split: option.splits PeerState.splits)

lemma shutdownPeer_safe: "env_safe env \<Longrightarrow> eng_safe e \<Longrightarrow> eng_safe (shutdownPeer env now e pid)"
  by (auto simp: shutdownPeer_def Let_def intro: sendDecline_safe sendClose_safe split: option.splits)

lemma beginShutdown_safe:
  assumes "env_safe env" "eng_safe e"
  shows "eng_safe (beginShutdown env now e)"
proof -
  have "eng_safe (foldl (shutdownPeer env now) (e\<lparr>e_shutdown := True, e_discovery := d\<rparr>) ks)" for d ks
    by (rule foldl_invariant [where P = eng_safe]) (simp_all add: assms shutdownPeer_safe)
  then show ?thesis
    using assms by (auto simp: beginShutdown_def Let_def mail_fits_ops intro: tellMailbox_safe)
qed

lemma apply_safe:
  assumes "env_safe env" "eng_safe e" "eng_inv {} h e"
  shows "\<exists>e'. apply_command env now c e = Some e' \<and> eng_safe e'"
  using assms startSession_safe [OF assms, of "snd c" now]
  by (auto simp: apply_command_def Let_def sendAccept_safe sendDecline_safe endSession_safe beginShutdown_safe
      split: Command.splits)

text \<open>A loop of calls that return, each keeping what the next one relies on.\<close>

lemma foldM_returns:
  assumes "P s" and "\<And>x s. P s \<Longrightarrow> \<exists>s'. f x s = Some s' \<and> P s'"
  shows "\<exists>s'. foldM f xs s = Some s' \<and> P s'"
  using assms(1)
proof (induction xs arbitrary: s)
  case (Cons x xs)
  obtain s1 where "f x s = Some s1" "P s1"
    using assms(2) Cons.prems by blast
  then show ?case
    using Cons.IH by simp
qed simp

lemma stepCommands_safe:
  assumes env: "env_safe env" and safe: "eng_safe e" and inv: "eng_inv {} h e"
  shows "\<exists>e'. stepCommands env now e = Some e' \<and> eng_safe e'"
proof -
  let ?e = "e\<lparr>e_touched := e_acksHeldBack e, e_acksHeldBack := []\<rparr>"
  obtain work e1 where drained: "onMailbox env drain ?e = (work, e1)"
    by fastforce
  have "eng_safe (snd (onMailbox env drain ?e))"
    using safe env by (intro onMailbox_safe) (simp_all add: mail_fits_drain)
  moreover have "same_core e (snd (onMailbox env drain ?e))"
    by (simp add: same_core_def findPeer_def)
  ultimately have "eng_safe e1 \<and> eng_inv {} h e1"
    using inv_core [of e e1 "{}" h] inv drained by simp
  then obtain e2 where e2: "foldM (apply_command env now) (work_commands work) e1 = Some e2" "eng_safe e2"
    using foldM_returns [where P = "\<lambda>e. eng_safe e \<and> eng_inv {} h e" and f = "apply_command env now"]
      apply_safe [OF env] apply_inv by meson
  have "eng_safe (foldl markReady e2 ids)" for ids
    by (rule foldl_invariant [where P = eng_safe])
      (auto simp: e2 markReady_def intro: modify_quiet_safe split: option.splits)
  then show ?thesis
    using drained e2 by (simp add: stepCommands_def Let_def)
qed


section \<open>The adapter\<close>

lemma endAllSessions_safe:
  assumes env: "env_safe env" and safe: "eng_safe e"
  shows "eng_safe (endAllSessions env r e)"
proof -
  have "eng_safe (foldl (dropSession env r) e ks)" for ks
    using safe by (rule foldl_invariant [where P = eng_safe])
      (auto simp: dropSession_def env mail_fits_ops intro: tellMailbox_safe)
  then have "eng_safe (foldl (\<lambda>e p. destroyLink p e) (foldl (dropSession env r) e ks) ps)" for ks ps
    by (rule foldl_invariant [where P = eng_safe]) simp
  moreover have "eng_safe (e'\<lparr>e_peers := [], e_byStream := [], e_scheduler := clearRings (e_scheduler e'), e_acksHeldBack := [],
      e_ended := []\<rparr>)" if "eng_safe e'" for e' :: "'a Engine"
    using that sched_ok_clear [of "e_scheduler e'"]
    by (simp add: eng_safe_def base_safe_def rings_hold_def findPeer_def)
      (simp add: clearRings_def emptyRing_def isUnlimited_def)
  ultimately show ?thesis
    by (simp add: endAllSessions_def Let_def)
qed

lemma closeSockets_safe: "eng_safe e \<Longrightarrow> eng_safe (closeSockets env e)"
  by (simp add: closeSockets_def Let_def)

lemma engine_bind_safe: "eng_safe e \<Longrightarrow> eng_safe (engine_bind env n iface e)"
  by (simp add: engine_bind_def Let_def split_beta split: option.splits)

lemma updateInterface_safe:
  assumes env: "env_safe env" and safe: "eng_safe e"
  shows "eng_safe (updateInterface env n failed e)"
proof -
  have lost: "eng_safe (foldl (\<lambda>e pid. emit (newEvent PeerLost pid) e) e1 ids)" if "eng_safe e1" for e1 :: "'a Engine" and ids
    using that by (rule foldl_invariant [where P = eng_safe]) simp
  show ?thesis
    using safe endAllSessions_safe [OF env] lost
    by (auto simp: updateInterface_def Let_def split_beta intro!: engine_bind_safe closeSockets_safe split: option.splits)
qed


section \<open>Receiving\<close>

lemma sendBeacon_safe: "eng_safe e \<Longrightarrow> eng_safe (sendBeacon env to rep e)"
  by (auto simp: sendBeacon_def Let_def split_beta intro: spend_safe)


lemma onBeacon_returns:
  "\<exists>seen d'. onBeacon from dg now d = Some (seen, d') \<and> (seen_peer seen = None \<longrightarrow> sighting seen \<noteq> New \<and> \<not> seen_reply seen)"
proof -
  obtain r where "decodeBeacon dg = Some r"
    using decodeBeacon_total by blast
  then show ?thesis
    by (auto simp: onBeacon_def noSighting_def Let_def split: option.splits)
qed

lemma engine_onBeacon_safe:
  assumes "eng_safe e"
  shows "\<exists>e'. engine_onBeacon env from dg now e = Some e' \<and> eng_safe e'"
proof -
  obtain seen d where "onBeacon from dg now (e_discovery e) = Some (seen, d)"
    "seen_peer seen = None \<longrightarrow> sighting seen \<noteq> New \<and> \<not> seen_reply seen"
    using onBeacon_returns [of "from" dg now "e_discovery e"] by auto
  then show ?thesis
    using assms by (cases "seen_peer seen") (auto simp: engine_onBeacon_def Let_def intro!: sendBeacon_safe)
qed

lemma admitHello_safe:
  assumes env: "env_safe env" and safe: "eng_safe e" and inv: "eng_inv {} h e" and free: "findPeer (fromInstance hello) e = None"
  shows "\<exists>t e'. admitHello env from hello crossing now e = Some (t, e') \<and> eng_safe e'"
proof (cases "length (e_peers e) \<ge> MaxPeers \<or> pendingCount e \<ge> MaxPendingSessions")
  case False
  let ?who = "\<lparr>peer_id = fromInstance hello, displayName = name hello, address = toString (sa_ip from), port = sa_port from,
    appVersion = versionText \<lparr>av_major = verMajor hello, av_minor = verMinor hello\<rparr>\<rparr>"
  obtain e1 where e1: "addPeer env ?who from now e = Some e1" "eng_safe e1"
    using addPeer_safe [OF env safe inv, of ?who "from" now] free by auto
  have "eng_safe (sendAccept env k (tellMailbox env (publishSession k s) (modifyPeer k (\<lambda>p. p\<lparr>p_announced := crossing\<rparr>) e1)))" for k s
    using e1(2) env by (intro sendAccept_safe tellMailbox_safe modify_quiet_safe) (simp_all add: mail_fits_ops)
  moreover have "eng_safe (tellMailbox env (publishSession k s) (modifyPeer k (\<lambda>p. p\<lparr>p_state := AwaitingDecision,
      p_stateDeadline := Some (now + DecisionTimeout), p_announced := True\<rparr>) e1))" for k s
    using e1(2) env by (intro tellMailbox_safe modify_quiet_safe) (simp_all add: mail_fits_ops)
  ultimately show ?thesis
    using False e1(1) by (auto simp: admitHello_def Let_def)
qed (auto simp: admitHello_def safe)

text \<open>Where a Hello is looked at for a new session: the state without the session of its sender.\<close>

lemma onHello_safe:
  assumes env: "env_safe env" and safe: "eng_safe e" and inv: "eng_inv {} h e"
  shows "\<exists>t e'. onHello env from packet now e = Some (t, e') \<and> eng_safe e'"
proof -
  have crossed: "eng_inv {} h (erasePeer env pid e)" if "findPeer pid e = Some p" "p_state p = Connecting" for pid p
    using that by (intro erasePeer_inv inv_weaken [OF inv]) (auto simp: live_in_def live_def)
  have restarted: "eng_inv {} h (erasePeer env pid (report pid r e))" for pid r
    by (rule erasePeer_inv [OF report_inv [OF inv] silent_in_not_live [OF silent_in_report]])
  have admit: "\<exists>t e'. admitHello env from hello c now e1 = Some (t, e') \<and> eng_safe e'"
    if "eng_inv {} h e1" "findPeer (fromInstance hello) e1 = None" "eng_safe e1" for hello c and e1 :: "'a Engine"
    using admitHello_safe [OF env that(3,1,2)] by blast
  show ?thesis
    using safe admit [OF inv] admit [OF crossed erased_absent erasePeer_safe [OF env]]
      admit [OF restarted erased_absent erasePeer_safe [OF env report_safe]]
    by (auto simp: onHello_def Let_def split: option.splits)
qed

lemma receivePacket_safe:
  assumes env: "env_safe env" and safe: "eng_safe e" and packet: "header_ok (pkt_header packet)"
  shows "\<exists>e'. receivePacket env from packet now target e = Some e' \<and> eng_safe e'"
proof (cases "Option.bind target (\<lambda>pid. findPeer pid e)")
  case (Some p)
  then obtain pid where pid: "target = Some pid" "findPeer pid e = Some p"
    by (auto simp: Option.bind_eq_Some_conv)
  have take: "\<exists>e'. (do { p \<leftarrow> findPeer pid e1; l \<leftarrow> onPacket packet now (linkOf p e1);
      Some (touch (peer_id (p_info p)) (putLink pid l e1)) }) = Some e' \<and> eng_safe e'"
    if "eng_safe e1" "findPeer pid e1 = Some q" for q and e1 :: "'a Engine"
    using onPacket_safe [OF eng_safe_link [OF that] packet, of now] that putLink_safe by auto
  have "\<exists>q. findPeer pid (setConnected env pid e) = Some q"
    using pid by (simp add: setConnected_def Let_def)
  then show ?thesis
    using Some pid safe take [OF safe pid(2)] take [OF setConnected_safe [OF env safe, of pid]]
    by (auto simp: receivePacket_def Let_def)
qed (simp add: receivePacket_def safe)

lemma decodePacket_returns: "\<exists>r. decodePacket d = Some r"
  using decodeHeader_safe [of d] by (auto simp: decodePacket_def split: bind_splits option.splits)

lemma handleDatagram_safe:
  assumes env: "env_safe env" and safe: "eng_safe e" and inv: "eng_inv {} h e"
  shows "\<exists>e'. handleDatagram env from dg now e = Some e' \<and> eng_safe e'"
proof -
  obtain r where r: "decodePacket dg = Some r"
    using decodePacket_returns by blast
  have hello: "\<exists>e'. (do { (target, e) \<leftarrow> onHello env from packet now e; receivePacket env from packet now target e }) = Some e' \<and> eng_safe e'"
    if "r = Some packet" for packet
    using onHello_safe [OF env safe inv, of "from" packet now] receivePacket_safe [OF env] decodePacket_sound [of dg packet] r that
    by fastforce
  have known: "\<exists>e'. receivePacket env from packet now target e = Some e' \<and> eng_safe e'" if "r = Some packet" for packet target
    using receivePacket_safe [OF env safe] decodePacket_sound [of dg packet] r that by blast
  show ?thesis
    using engine_onBeacon_safe [OF safe] hello known safe r
    by (cases r) (auto simp: handleDatagram_def isBeacon_prefix)
qed

lemma receiveLoop_safe:
  assumes "P e" and "\<And>e w. P e \<Longrightarrow> P (e\<lparr>e_world := w\<rparr>)" and "\<And>from dg e. P e \<Longrightarrow> \<exists>e'. handle from dg e = Some e' \<and> P e'"
  shows "\<exists>e'. receiveLoop env which handle n e = Some e' \<and> P e'"
  using assms(1)
proof (induction n arbitrary: e)
  case (Suc n)
  obtain dg w where dg: "env_receive env which (e_world e) = (dg, w)"
    by fastforce
  have P: "P (e\<lparr>e_world := w\<rparr>)"
    using Suc.prems assms(2) by simp
  show ?case
  proof (cases dg)
    case (Inl err)
    then show ?thesis
      using dg P Suc.IH by (cases err) simp_all
  next
    case (Inr b)
    obtain "from" bytes where b: "b = (from, bytes)"
      by fastforce
    obtain e1 where "handle from bytes (e\<lparr>e_world := w\<rparr>) = Some e1" "P e1"
      using assms(3) P by blast
    then show ?thesis
      using dg Inr b Suc.IH by simp
  qed
qed simp


lemma receivePending_safe:
  assumes env: "env_safe env" and safe: "eng_safe e" and inv: "eng_inv {} h e"
  shows "\<exists>e'. receivePending env now e = Some e' \<and> eng_safe e'"
proof (cases "e_socket e")
  case (Some a)
  let ?P = "\<lambda>e. eng_safe e \<and> eng_inv {} h e \<and> e_socket e \<noteq> None"
  have world: "?P (e\<lparr>e_world := w\<rparr>)" if "?P e" for w and e :: "'a Engine"
    using that inv_core [OF same_core_fields(1), of "{}" h e w] by simp
  have datagram: "\<exists>e'. handleDatagram env from dg now e = Some e' \<and> ?P e'" if "?P e" for "from" dg and e :: "'a Engine"
    using that handleDatagram_safe [OF env] handleDatagram_inv by metis
  have announced: "\<exists>e'. engine_onBeacon env from dg now e = Some e' \<and> ?P e'" if "?P e" for "from" dg and e :: "'a Engine"
    using that engine_onBeacon_safe engine_onBeacon_inv by metis
  obtain e1 where e1: "receiveLoop env False (\<lambda>from bytes. handleDatagram env from bytes now) MaxDatagramsPerPass e = Some e1" "?P e1"
    using receiveLoop_safe [where P = ?P and e = e and handle = "\<lambda>from bytes. handleDatagram env from bytes now", OF _ world datagram]
      safe inv Some by blast
  obtain e2 where e2: "receiveLoop env True (\<lambda>from bytes. engine_onBeacon env from bytes now) MaxDatagramsPerPass e1 = Some e2" "?P e2"
    using receiveLoop_safe [where P = ?P and e = e1 and handle = "\<lambda>from bytes. engine_onBeacon env from bytes now", OF _ world announced]
      e1(2) by blast
  show ?thesis
    using Some e1 e2 by (simp add: receivePending_def)
qed (simp add: receivePending_def safe)


section \<open>Timers\<close>

lemma serviceTimers_safe: "eng_safe e \<Longrightarrow> eng_safe (serviceTimers now e)"
  unfolding serviceTimers_def
  by (erule foldl_invariant [where P = eng_safe])
    (auto simp: servicePeer_def Let_def intro!: putLink_safe onTimer_safe eng_safe_link split: option.splits)

lemma tick_safe: "eng_safe e \<Longrightarrow> eng_safe (tick now e)"
  unfolding tick_def Let_def split_beta
  by (rule foldl_invariant [where P = eng_safe]) simp_all

lemma updatePause_safe:
  assumes "eng_safe e"
  shows "eng_safe (updatePause e)"
proof -
  have "eng_safe (foldl (pausePeer b) e1 ks)" if "eng_safe e1" for b ks and e1 :: "'a Engine"
    using that
    by (rule foldl_invariant [where P = eng_safe])
      (auto simp: pausePeer_def peer_safe_def small_ops_safe intro!: modifyPeer_safe)
  then show ?thesis
    using assms by (simp add: updatePause_def Let_def)
qed


lemma stepReceive_safe:
  assumes env: "env_safe env" and safe: "eng_safe e" and inv: "eng_inv {} h e"
  shows "\<exists>e'. stepReceive env n now e = Some e' \<and> eng_safe e'"
proof -
  define e1 where "e1 = (if \<not> e_shutdown e \<and> (tickDue now e \<or> e_checkInterface e \<or> e_socketFailed e)
    then updateInterface env n (e_socketFailed e) (e\<lparr>e_socketFailed := False\<rparr>) else e)"
  have "eng_inv {} h e1" "eng_safe e1"
    using inv updateInterface_inv [OF inv_core [OF same_core_fields(8) inv]] safe updateInterface_safe [OF env]
    by (simp_all add: e1_def)
  then obtain e2 where "receivePending env now (updatePause e1) = Some e2" "eng_safe e2"
    using receivePending_safe [OF env updatePause_safe inv_core [OF updatePause_core]] by blast
  then show ?thesis
    by (auto simp: stepReceive_def Let_def e1_def [symmetric] serviceTimers_safe tick_safe intro!: sendBeacon_safe)
qed


section \<open>Sending\<close>

text \<open>What sending does to the tables: the marks stay, and so does the scheduler.\<close>

definition kept_safe :: "'w Engine \<Rightarrow> 'w Engine \<Rightarrow> bool" where
  "kept_safe e e' \<longleftrightarrow> (base_safe e \<longrightarrow> base_safe e') \<and> (\<forall>la pid. marked e' la pid = marked e la pid) \<and> e_scheduler e' = e_scheduler e"

interpretation safety: engine_preorder kept_safe
  by unfold_locales (auto simp: kept_safe_def)

lemma kept_safeD: "kept_safe e e' \<Longrightarrow> eng_safe e \<Longrightarrow> eng_safe e'"
  by (simp add: kept_safe_def eng_safe_def rings_hold_def)

lemma kept_safe_modify:
  assumes "\<And>p. findPeer pid e = Some p \<Longrightarrow> p_scheduled (f p) = p_scheduled p \<and> (peer_safe pid p \<longrightarrow> peer_safe pid (f p))"
  shows "kept_safe e (modifyPeer pid f e)"
proof -
  have "marked (modifyPeer pid f e) la k = marked e la k" for la k
    using assms by (auto simp: marked_def split: option.splits)
  moreover have "base_safe e \<longrightarrow> base_safe (modifyPeer pid f e)"
    using assms by (auto simp: base_safe_def modifyPeer_def findPeer_def)
  ultimately show ?thesis
    by (simp add: kept_safe_def)
qed

lemma kept_safe_putLink: "link_safe l \<Longrightarrow> kept_safe e (putLink pid l e)"
proof -
  assume l: "link_safe l"
  have "kept_safe e (e\<lparr>e_budget := b\<rparr>)" for b
    by (simp add: kept_safe_def base_safe_def marked_def findPeer_def)
  moreover have "kept_safe (e\<lparr>e_budget := b\<rparr>) (modifyPeer pid (\<lambda>p. p\<lparr>p_link := l\<rparr>) (e\<lparr>e_budget := b\<rparr>))" for b
    using l by (intro kept_safe_modify) (simp add: peer_safe_def)
  ultimately show ?thesis
    unfolding putLink_def by (rule safety.rel_trans)
qed

lemma source_next_safe:
  assumes env: "env_safe env"
  shows "kept_safe e (snd (source_next env pid e la))" "base_safe e \<Longrightarrow> source_fits (source_next env pid) la e"
proof -
  have "kept_safe e (modifyPeer pid (\<lambda>p. p\<lparr>p_control := rest\<rparr>) e)" if "findPeer pid e = Some p" "p_control p = m # rest" for p m rest
    using that by (intro kept_safe_modify) (simp add: peer_safe_def)
  moreover have "kept_safe e (snd (onMailbox env (take_mail k la) e))" for k la
    using env mail_fits_take(1)
    by (simp add: kept_safe_def onMailbox_def Let_def split_beta base_safe_def marked_def findPeer_def env_safe_def)
  ultimately show "kept_safe e (snd (source_next env pid e la))"
    by (auto simp: source_next_def split_beta safety.rel_refl split: option.splits list.splits)
  assume safe: "base_safe e"
  have "length (om_body m) \<le> MaxMessagePayload" if "findPeer pid e = Some p" "m \<in> set (p_control p)" for p m
    using that safe by (simp add: base_safe_def peer_safe_def)
  moreover have "length (mail_body m) \<le> MaxMessagePayload" if "fst (onMailbox env (take_mail k la) e) = Some m" for k m
  proof (rule mail_fits_take(2))
    show "mail_fits (fst (env_others env (e_mailbox e) (e_world e)))"
      using safe env by (simp add: base_safe_def env_safe_def)
    show "fst (take_mail k la (fst (env_others env (e_mailbox e) (e_world e)))) = Some m"
      using that by (simp add: onMailbox_def Let_def split_beta)
  qed
  ultimately show "source_fits (source_next env pid) la e"
    by (auto simp: source_fits_def source_next_def split_beta split: option.splits list.splits if_splits)
qed

lemma peekPeer_safe:
  assumes env: "env_safe env" and safe: "base_safe e" and p: "findPeer pid e = Some p" and d: "peekPeer env la pid p e = (d, e')"
  shows "kept_safe e e'" "\<And>x. d = Some x \<Longrightarrow> datagramBody x \<noteq> None" "\<exists>q. findPeer pid e' = Some q"
proof -
  obtain e1 l where peek: "peek (source_next env pid) la e (linkOf p e) = (d, e1, l)" and e': "e' = putLink pid l e1"
    using d by (auto simp: peekPeer_def split: prod.splits)
  have "link_safe (linkOf p e)"
    using safe p by (simp add: base_safe_def peer_safe_def linkOf_def small_ops_safe(4))
  then have l: "link_safe l \<and> (\<forall>x. d = Some x \<longrightarrow> datagramBody x \<noteq> None)"
    using peek_safe [OF _ source_next_safe(2) [OF env safe] peek] by simp
  then show "datagramBody x \<noteq> None" if "d = Some x" for x
    using that by simp
  have "kept_safe e e1"
    using safety.rel_peek [of "source_next env pid" e la "linkOf p e"] source_next_safe(1) [OF env] peek by simp
  then show "kept_safe e e'"
    using l kept_safe_putLink safety.rel_trans unfolding e' by blast
  show "\<exists>q. findPeer pid e' = Some q"
    using same_core_find [OF peekPeer_core [OF p, of env la] p] d by auto
qed


lemma transmit_returns:
  assumes "datagramBody d \<noteq> None"
  shows "\<exists>r e'. engine_transmit env a d e = Some (r, e')"
  using assms by (auto simp: engine_transmit_def Let_def split_beta split: option.splits)

lemma transmit_kept: "engine_transmit env a d e = Some (r, e') \<Longrightarrow> kept_safe e e'"
  by (erule transmit_changes) (simp add: kept_safe_def base_safe_def marked_def findPeer_def)

text \<open>The loop of \<open>sendAcks\<close> ends with the acknowledgements that are left.\<close>

lemma sendAcks_returns:
  assumes "eng_safe e"
  shows "\<exists>e'. sendAcks env pid e = Some e' \<and> eng_safe e'"
  using assms
proof (induction "case findPeer pid e of None \<Rightarrow> 0 | Some p \<Rightarrow> acksLeft (p_link p)" arbitrary: e rule: less_induct)
  case less
  show ?case
  proof (cases "findPeer pid e")
    case None
    then show ?thesis
      using less.prems by (simp add: sendAcks.simps)
  next
    case (Some p)
    obtain ack l where ack: "peekAck (linkOf p e) = (ack, l)"
      by fastforce
    note peeked = peekAck_safe [OF eng_safe_link [OF less.prems Some] ack]
    define e1 where "e1 = putLink pid l e"
    have e1: "eng_safe e1"
      unfolding e1_def by (rule putLink_safe [OF less.prems peeked(1)])
    show ?thesis
    proof (cases ack)
      case None
      then show ?thesis
        using Some ack e1 by (simp add: sendAcks.simps [of env pid e] e1_def)
    next
      case d: (Some d)
      obtain r e2 where sent: "engine_transmit env (p_address p) d e1 = Some (r, e2)"
        using transmit_returns peeked(3) [OF d] by blast
      have e2: "eng_safe e2"
        using kept_safeD [OF transmit_kept [OF sent] e1] .
      have p2: "findPeer pid e2 = Some (p\<lparr>p_link := l\<rparr>)"
        by (rule transmit_changes [OF sent]) (use Some in \<open>simp add: e1_def putLink_def findPeer_def\<close>)
      define e3 where "e3 = (putLink pid (commitAck l) e2)\<lparr>e_scheduler := spend 1 (e_scheduler e2)\<rparr>"
      have "eng_safe (putLink pid (commitAck l) e2)"
        using e2 small_ops_safe(5) [OF peeked(1)] by (rule putLink_safe)
      then have e3: "eng_safe e3"
        unfolding e3_def by (rule spend_safe) (simp add: putLink_def)
      have "findPeer pid e3 = Some (p\<lparr>p_link := commitAck l\<rparr>)"
        using p2 by (simp add: e3_def putLink_def findPeer_def)
      moreover have "acksLeft (commitAck l) < acksLeft (p_link p)"
        using commitAck_left [of l] peeked(2) peeked(3) [OF d] by (simp add: linkOf_def acksLeft_def)
      ultimately have "\<exists>e'. sendAcks env pid e3 = Some e' \<and> eng_safe e'"
        using less.hyps [of e3] Some e3 by simp
      then show ?thesis
        using Some ack d e1 e2 sent
        by (auto simp: sendAcks.simps [of env pid e] e1_def [symmetric] e3_def [symmetric] Let_def simp del: One_nat_def)
    qed
  qed
qed

lemma mark_simps:
  "(x OR c) AND bitOf la = 0 \<longleftrightarrow> x AND bitOf la = 0 \<and> c AND bitOf la = 0" "bitOf la \<noteq> 0"
  "la' \<noteq> la \<Longrightarrow> (x AND NOT (bitOf la)) AND bitOf la' = x AND bitOf la'"
proof -
  show "(x OR c) AND bitOf la = 0 \<longleftrightarrow> x AND bitOf la = 0 \<and> c AND bitOf la = 0"
    by (simp add: bit.conj_disj_distrib2 or_eq_0_iff)
  show "bitOf la \<noteq> 0"
    by (cases la) (simp_all add: bitOf_def)
  have "NOT (bitOf la) AND bitOf la' = bitOf la'" if "la' \<noteq> la"
    using that by (cases la; cases la') (simp_all add: bitOf_def)
  then show "(x AND NOT (bitOf la)) AND bitOf la' = x AND bitOf la'" if "la' \<noteq> la"
    using that by (simp add: and.assoc)
qed

lemma scheduleLane_safe:
  assumes env: "env_safe env" and safe: "eng_safe e"
  shows "eng_safe (scheduleLane env pid e la)"
proof (cases "findPeer pid e")
  case (Some p)
  obtain d e1 where d: "peekPeer env la pid p e = (d, e1)"
    by fastforce
  have kept: "kept_safe e e1"
    using peekPeer_safe(1) [OF env _ Some d] safe by (simp add: eng_safe_def)
  then have e1: "eng_safe e1"
    using safe by (rule kept_safeD)
  have "eng_safe (modifyPeer pid (\<lambda>p. p\<lparr>p_scheduled := p_scheduled p OR bitOf la\<rparr>) (e1\<lparr>e_scheduler := add la pid (e_scheduler e1)\<rparr>))"
    (is "eng_safe ?e2") if unset: "p_scheduled p AND bitOf la = 0"
  proof -
    obtain q where q: "findPeer pid e1 = Some q"
      using peekPeer_safe(3) [OF env _ Some d] safe by (auto simp: eng_safe_def)
    have "\<not> marked e1 la pid"
      using kept Some unset by (simp add: kept_safe_def marked_def)
    then have "pid \<notin> set (ring_peers (sc_rings (e_scheduler e1) la))"
      using e1 by (auto simp: eng_safe_def rings_hold_def)
    then have "sched_ok (add la pid (e_scheduler e1))"
      using e1 sched_ok_add by (simp add: eng_safe_def rings_hold_def)
    moreover have "marked ?e2 la' k" if "marked e1 la' k \<or> (la' = la \<and> k = pid)" for la' k
      using that q by (auto simp: marked_def findPeer_def mark_simps split: option.splits)
    ultimately have "rings_hold (e_scheduler ?e2) ?e2"
      using e1 by (auto simp: eng_safe_def rings_hold_def add_def isUnlimited_def)
    moreover have "base_safe ?e2"
      using e1 by (auto simp: eng_safe_def base_safe_def peer_safe_def modifyPeer_def findPeer_def split: if_splits)
    ultimately show ?thesis
      by (simp add: eng_safe_def)
  qed
  then show ?thesis
    using Some d e1 safe eng_safe_id [OF safe Some] by (auto simp: scheduleLane_def Let_def)
qed (simp add: scheduleLane_def safe)


lemma schedule_safe: "env_safe env \<Longrightarrow> eng_safe e \<Longrightarrow> eng_safe (schedule env pid e)"
  unfolding schedule_def by (rule foldl_invariant [where P = eng_safe]) (auto intro: scheduleLane_safe)

text \<open>
  A turn of the scheduler, whose rings are \<open>s\<close>: it returns, and a peer that has nothing to send is no
  longer marked for the lane whose ring it leaves.
\<close>

lemma sendTurn_safe:
  assumes env: "env_safe env" and safe: "base_safe e"
  shows "\<exists>r e'. sendTurn env now la pid e = Some (r, e') \<and> base_safe e' \<and>
    (\<forall>la' k. marked e la' k \<longrightarrow> (r = TurnResult.Empty \<and> la' = la \<and> k = pid) \<or> marked e' la' k)"
proof (cases "findPeer pid e")
  case None
  then show ?thesis
    using safe by (simp add: sendTurn_def)
next
  case (Some p)
  obtain d e1 where d: "peekPeer env la pid p e = (d, e1)"
    by fastforce
  note peeked = peekPeer_safe [OF env safe Some d]
  have e1: "base_safe e1" "marked e1 la' k = marked e la' k" for la' k
    using peeked(1) safe by (simp_all add: kept_safe_def)
  show ?thesis
  proof (cases d)
    case None
    let ?e = "modifyPeer pid (\<lambda>p. p\<lparr>p_scheduled := p_scheduled p AND NOT (bitOf la)\<rparr>) e1"
    have "marked ?e la' k" if "marked e1 la' k" "la' \<noteq> la \<or> k \<noteq> pid" for la' k
      using that by (auto simp: marked_def mark_simps split: option.splits)
    moreover have "base_safe ?e"
      using e1(1) by (auto simp: base_safe_def peer_safe_def modifyPeer_def findPeer_def split: if_splits)
    ultimately show ?thesis
      using Some d None e1 by (auto simp: sendTurn_def)
  next
    case x: (Some x)
    obtain r e2 where sent: "engine_transmit env (p_address p) x e1 = Some (r, e2)"
      using transmit_returns peeked(2) [OF x] by blast
    have e2: "base_safe e2" "marked e2 la' k = marked e la' k" for la' k
      using transmit_kept [OF sent] e1 by (simp_all add: kept_safe_def)
    obtain q where q: "findPeer pid e2 = Some q"
      using same_core_find [OF transmit_core [OF sent]] peeked(3) by blast
    define l where "l = commit la now (linkOf q e2)"
    have "link_safe l"
      using e2(1) q unfolding l_def by (intro commit_safe) (simp add: base_safe_def peer_safe_def linkOf_def small_ops_safe(4))
    moreover have "kept_safe (putLink pid l e2) (modifyPeer pid (\<lambda>p. p\<lparr>p_deadline := t\<rparr>) (putLink pid l e2))" for t
      by (rule kept_safe_modify) (simp add: peer_safe_def)
    ultimately have "kept_safe e2 (modifyPeer pid (\<lambda>p. p\<lparr>p_deadline := t\<rparr>) (putLink pid l e2))" for t
      using kept_safe_putLink safety.rel_trans by blast
    then show ?thesis
      using Some d x sent q e2 by (auto simp: sendTurn_def Let_def l_def kept_safe_def)
  qed
qed

text \<open>What a turn does to the rings and the marks together.\<close>

lemma turn_rings:
  assumes rings: "rings_hold s e" and run: "mayRun la s al"
    and marks: "\<forall>la' k. marked e la' k \<longrightarrow> (r = TurnResult.Empty \<and> la' = la \<and> k = turnPeer la (startTurn la s)) \<or> marked e' la' k"
  shows "if r = Blocked then rings_hold (startTurn la s) e' else rings_hold (fst (endTurn r la (startTurn la s) al)) e'"
proof -
  let ?s = "startTurn la s"
  have ok: "sched_ok ?s" "\<not> isUnlimited ?s" and ring: "\<forall>la. \<forall>pid \<in> set (ring_peers (sc_rings ?s la)). marked e la pid"
    using rings sched_ok_startTurn by (simp_all add: rings_hold_def)
  have cursor: "ring_cursor (sc_rings ?s la) < length (ring_peers (sc_rings ?s la))"
    using run startTurn_cursor by (simp add: mayRun_def)
  have "set (ring_peers (turnRing r (sc_rings ?s la))) =
      (if r = TurnResult.Empty then set (ring_peers (sc_rings ?s la)) - {turnPeer la ?s} else set (ring_peers (sc_rings ?s la)))"
    using ok(1) set_eraseAt_distinct [OF _ cursor] by (cases r) (simp_all add: turnRing_def nextPeer_def Let_def turnPeer_def sched_ok_def)
  then have "\<forall>pid \<in> set (ring_peers (sc_rings (fst (endTurn r la ?s al)) la')). marked e' la' pid" for la'
    using ring marks by (cases "la' = la") (auto split: if_splits)
  moreover have "\<forall>pid \<in> set (ring_peers (sc_rings ?s la')). marked e' la' pid" if "r = Blocked" for la'
    using ring marks that by blast
  ultimately show ?thesis
    using ok sched_ok_endTurn [OF ok(1)] by (simp add: rings_hold_def)
qed

lemma sendData_safe:
  assumes env: "env_safe env" and safe: "eng_safe e"
  shows "\<exists>e'. sendData env now e = Some e' \<and> eng_safe e'"
proof -
  let ?send = "sendTurn env now" and ?J = "\<lambda>s (al :: rat) e. base_safe e \<and> rings_hold s e"
  have "\<exists>r e'. ?send la pid e = Some (r, e') \<and> base_safe e'" if "base_safe e" for la pid and e :: "'a Engine"
    using sendTurn_safe [OF env that] by blast
  then have "run ?send (e_scheduler e) e \<noteq> None"
    using safe by (intro run_ends [where J = base_safe and \<phi> = "\<lambda>_. 0"]) (auto simp: eng_safe_def rings_hold_def)
  then obtain s e1 where run: "run ?send (e_scheduler e) e = Some (s, e1)"
    by auto
  have turn: "if r = Blocked then ?J (startTurn la s) al e'
      else ?J (fst (endTurn r la (startTurn la s) al)) (snd (endTurn r la (startTurn la s) al)) e'"
    if J: "?J s al e" and may: "mayRun la s al" and send: "?send la (turnPeer la (startTurn la s)) e = Some (r, e')" for la s al r e e'
    using sendTurn_safe [OF env, of e now la "turnPeer la (startTurn la s)"] turn_rings [OF _ may, of e r e'] J send by auto
  have "\<exists>al'. ?J s al' e1"
  proof (rule runLanes_rule [OF run [unfolded run_def], where I = ?J])
    show "?J s1 al1 e2" if "?J s al e" "runLane ?send la s al e = Some (b, s1, al1, e2)" for la s al e b s1 al1 e2
      by (rule conjunct1 [OF runLane_rule [OF that(2), where I = ?J, OF that(1)]]) (rule turn)
  qed (use safe in \<open>simp add: eng_safe_def\<close>)
  then show ?thesis
    using run by (auto simp: sendData_def eng_safe_def base_safe_def rings_hold_def marked_def findPeer_def)
qed


lemma settlePeer_safe:
  assumes env: "env_safe env" and safe: "eng_safe e"
  shows "eng_safe (settlePeer env e pid)"
proof -
  have settled: "eng_safe (snd (onMailbox env (settle pid) e1))" if "eng_safe e1" for e1 :: "'a Engine"
    using that env by (intro onMailbox_safe) (simp_all add: mail_fits_ops)
  have "p_info (snd (statsOf p)) = p_info p" "p_link (snd (statsOf p)) = p_link p" "p_control (snd (statsOf p)) = p_control p"
    "p_scheduled (snd (statsOf p)) = p_scheduled p" for p
    by (simp_all add: statsOf_def Let_def)
  then show ?thesis
    using env safe
    by (auto simp: settlePeer_def Let_def split_beta mail_fits_ops intro!: tellMailbox_safe modify_quiet_safe settled split: option.splits)
qed

lemma servePeer_safe:
  assumes env: "env_safe env" and safe: "eng_safe e"
  shows "\<exists>e'. servePeer env now pid e = Some e' \<and> eng_safe e'"
proof -
  obtain e1 where "sendAcks env pid (advance env pid now e) = Some e1" "eng_safe e1"
    using sendAcks_returns advance_safe [OF env safe] by blast
  then show ?thesis
    using safe schedule_safe [OF env] by (auto simp: servePeer_def split: option.splits)
qed

lemma stepSend_safe:
  assumes env: "env_safe env" and safe: "eng_safe e"
  shows "\<exists>e'. stepSend env now e = Some e' \<and> eng_safe e'"
proof -
  define e1 where "e1 = e\<lparr>e_touched := remdups_adj (sort (e_touched e)), e_scheduler := refill now (e_scheduler e), e_socketBlocked := False\<rparr>"
  have "eng_safe e1"
    using safe rings_hold_refill [of "e_scheduler e" e now]
    by (simp add: e1_def eng_safe_def base_safe_def rings_hold_def marked_def findPeer_def)
  then obtain e2 where e2: "foldM (servePeer env now) (e_touched e1) e1 = Some e2" "eng_safe e2"
    using foldM_returns [where P = eng_safe and f = "servePeer env now"] servePeer_safe [OF env] by metis
  then obtain e3 where e3: "(if e_socketBlocked e2 then Some e2 else sendData env now e2) = Some e3" "eng_safe e3"
    using sendData_safe [OF env, of e2 now] by (cases "e_socketBlocked e2") auto
  have "eng_safe (foldl (settlePeer env) e3 ids)" for ids
    using e3(2) by (rule foldl_invariant [where P = eng_safe]) (rule settlePeer_safe [OF env])
  then show ?thesis
    using e2(1) e3(1) by (auto simp: stepSend_def Let_def e1_def)
qed

lemma stepFinish_safe:
  assumes env: "env_safe env" and safe: "eng_safe e"
  shows "eng_safe (stepFinish env now e)"
proof -
  have "eng_safe (foldl (eraseEnded env) (e\<lparr>e_ended := []\<rparr>) ids)" for ids
    by (rule foldl_invariant [where P = eng_safe])
      (auto simp: safe eraseEnded_def intro: erasePeer_safe [OF env] split: option.splits)
  then show ?thesis
    using env by (auto simp: stepFinish_def Let_def mail_fits_ops intro!: tellMailbox_safe)
qed

lemma step_safe:
  assumes env: "env_safe env" and safe: "eng_safe e" and inv: "eng_inv {} h e"
  shows "\<exists>b e'. step env n now e = Some (b, e') \<and> eng_safe e'"
proof -
  obtain e1 where e1: "stepCommands env now e = Some e1" "eng_safe e1"
    using stepCommands_safe [OF assms] by blast
  obtain e2 where e2: "stepReceive env n now e1 = Some e2" "eng_safe e2"
    using stepReceive_safe [OF env e1(2) stepCommands_inv [OF inv e1(1)]] by blast
  obtain e3 where e3: "stepSend env now e2 = Some e3" "eng_safe e3"
    using stepSend_safe [OF env e2(2)] by blast
  have "eng_safe (snd (takeBatch (stepFinish env now e3)))"
    using stepFinish_safe [OF env e3(2)] by (simp add: takeBatch_def Let_def)
  then show ?thesis
    using e1(1) e2(1) e3(1) by (cases "takeBatch (stepFinish env now e3)") (simp add: step_def)
qed

lemma init_safe:
  assumes "cfg_maxSendRate config \<noteq> 0"
  shows "eng_safe (networkEngine v r config w)"
proof -
  have "mail_fits (setQueueBytes q newMailbox)" for q
    by (simp add: mail_fits_ops mail_fits_new)
  moreover have "cfg_maxSendRate (completed v config) = cfg_maxSendRate config"
    by (simp add: completed_def Let_def)
  ultimately show ?thesis
    using assms sched_ok_new
    by (simp add: networkEngine_def Let_def eng_safe_def base_safe_def rings_hold_def findPeer_def isUnlimited_def)
      (simp add: newScheduler_def setRate_def emptyRing_def)
qed

end
