(* ===== verification/EngineApi.thy ===== *)
theory EngineApi
  imports EngineIo
begin

text \<open>
  \<open>Engine/NetworkEngine.cpp\<close>: what the threads of the application do. The operations of the engine are
  one or more critical sections of its mailbox; \<open>others n\<close> is what other threads, the I/O thread
  included, do with the mailbox before the section number \<open>n\<close> after the first. An event of the Media lane
  is taken from the inbox it shares with the engine, and a batch that is gone gives back its share of the
  backlog.
\<close>

section \<open>Operations of the application\<close>

definition announcing_command :: "bool \<Rightarrow> Mailbox \<Rightarrow> bool \<times> Mailbox" where
  "announcing_command announcing m = post (if announcing then Announce else StopAnnouncing) 0 m"

definition checkInterface :: "Mailbox \<Rightarrow> bool \<times> Mailbox" where
  "checkInterface m = post CheckInterface 0 m"

definition connect :: "(nat \<Rightarrow> Mailbox \<Rightarrow> Mailbox) \<Rightarrow> PeerId \<Rightarrow> Mailbox \<Rightarrow> bool \<times> Mailbox" where
  "connect others peer m =
     (if \<not> mb_running m then (False, m)
      else let m = others 0 m; s = session peer m
           in if s = Requested then (True, snd (post Command.Connect peer (others 1 m)))
              else if s \<noteq> NoSession then (False, m)
              else let m = others 1 m
                   in if \<not> isDiscovered peer m then (False, m)
                      else (True, snd (post Command.Connect peer (others 2 m))))"

definition accept :: "PeerId \<Rightarrow> Mailbox \<Rightarrow> bool \<times> Mailbox" where
  "accept peer m = post Command.Accept peer m"

definition decline :: "PeerId \<Rightarrow> Mailbox \<Rightarrow> bool \<times> Mailbox" where
  "decline peer m = post Command.Decline peer m"

definition disconnect :: "(Mailbox \<Rightarrow> Mailbox) \<Rightarrow> PeerId \<Rightarrow> Mailbox \<Rightarrow> bool \<times> Mailbox" where
  "disconnect others peer m = post Command.Disconnect peer (others (seal peer m))"

definition shutdown :: "Mailbox \<Rightarrow> bool \<times> Mailbox" where
  "shutdown m = post Command.Shutdown 0 m"

definition wireLane :: "PublicLane \<Rightarrow> Lane" where
  "wireLane la = (case la of PubReliable \<Rightarrow> Reliable | PubBulk \<Rightarrow> Bulk | PubMedia \<Rightarrow> Media)"

definition send_message ::
  "PeerId \<Rightarrow> u32 \<Rightarrow> bytes \<Rightarrow> PublicLane \<Rightarrow> int \<Rightarrow> (Mailbox \<Rightarrow> Mailbox) \<Rightarrow> Mailbox \<Rightarrow> SendResult \<times> bool \<times> Mailbox" where
  "send_message peer type data la timeout others m =
     (let (r, ring, m) = push peer (wireLane la) \<lparr>mail_tag = type, mail_body = data\<rparr> timeout others m
      in (case r of Push.Queued \<Rightarrow> SendResult.Queued | Push.Full \<Rightarrow> QueueFull | Push.TooLarge \<Rightarrow> SendResult.TooLarge
          | Push.Closed \<Rightarrow> SendResult.NotConnected | Push.Stopped \<Rightarrow> NotRunning, ring, m))"

definition broadcast_message :: "u32 \<Rightarrow> bytes \<Rightarrow> PublicLane \<Rightarrow> Mailbox \<Rightarrow> nat \<times> bool \<times> Mailbox" where
  "broadcast_message type data la m = pushToAll (wireLane la) \<lparr>mail_tag = type, mail_body = data\<rparr> m"

definition localEndpoint :: "'w Engine \<Rightarrow> SocketAddress" where
  "localEndpoint e = (case e_socket e of Some a \<Rightarrow> a | None \<Rightarrow> \<lparr>sa_ip = 0, sa_port = 0\<rparr>)"


section \<open>Events in the hands of the application\<close>

text \<open>\<open>takeMessage\<close>: the message of an event, which for the Media lane is the oldest one of the inbox.\<close>

definition takeMessage :: "EngineEvent \<Rightarrow> 'w Engine \<Rightarrow> Message option \<times> 'w Engine" where
  "takeMessage ev e =
     (case ev_media ev of
        None \<Rightarrow> (Some (ev_message ev), e)
      | Some box \<Rightarrow>
          (case e_inboxes e box of
             [] \<Rightarrow> (None, e)
           | m # rest \<Rightarrow> (Some m, e\<lparr>e_inboxes := (e_inboxes e)(box := rest)\<rparr>)))"

text \<open>The destructor of \<open>BacklogShare\<close>, for a batch that has a share.\<close>

definition dropBatch :: "EventBatch \<Rightarrow> 'w Engine \<Rightarrow> 'w Engine" where
  "dropBatch b e =
     (if batch_bytes b = 0 then e
      else let before = e_backlogBytes e;
               left = size_minus before (batch_bytes b);
               e = e\<lparr>e_backlogBytes := left\<rparr>
           in if e_backlogPaused e \<and> before \<ge> BacklogResumeBytes \<and> left < BacklogResumeBytes
              then e\<lparr>e_mailbox := snd (post ResumeReceiving 0 (e_mailbox e))\<rparr> else e)"

end
