(* ===== verification/EngineRun.thy ===== *)
theory EngineRun
  imports EngineSafety EngineApi
begin

text \<open>
  The life of an engine: steps, waits, what the application does with the events it was handed, and the
  end after an exception. The properties hold for every environment, that is for every sequence of
  datagrams, commands, socket errors and changes of the adapter.
\<close>

section \<open>Runs\<close>

text \<open>
  A run of the engine and the events that were handed over so far. \<open>fail\<close> starts from the state between two
  steps; what an exception in the midst of a step does is stated in \<open>fail_forgets\<close> below.
\<close>

inductive engine_runs :: "'w Environment \<Rightarrow> int \<Rightarrow> EngineConfig \<Rightarrow> EngineEvent list \<Rightarrow> 'w Engine \<Rightarrow> bool"
  for env perDatagram config where
  start: "engine_runs env perDatagram config [] (networkEngine version randomId config w)"
| step: "engine_runs env perDatagram config h e \<Longrightarrow> step env perDatagram now e = Some (b, e') \<Longrightarrow>
    engine_runs env perDatagram config (h @ batch_events b) e'"
| wait: "engine_runs env perDatagram config h e \<Longrightarrow> engine_runs env perDatagram config h (noteWait failed e)"
| taken: "engine_runs env perDatagram config h e \<Longrightarrow> takeMessage ev e = (m, e') \<Longrightarrow> engine_runs env perDatagram config h e'"
| dropped: "engine_runs env perDatagram config h e \<Longrightarrow> engine_runs env perDatagram config h (dropBatch b e)"
| failed: "engine_runs env perDatagram config h e \<Longrightarrow> fail env e = (b, e') \<Longrightarrow>
    engine_runs env perDatagram config (h @ batch_events b) e'"

inductive_cases engine_runs_elims: "engine_runs env perDatagram config h e"

lemma noteWait_core: "same_core e (noteWait failed e)"
  by (simp add: noteWait_def split: option.splits)

lemma takeMessage_core: "takeMessage ev e = (m, e') \<Longrightarrow> same_core e e'"
  by (auto simp: takeMessage_def split: option.splits list.splits)

lemma dropBatch_core: "same_core e (dropBatch b e)"
  by (simp add: dropBatch_def Let_def same_core_def findPeer_def)

lemma takeBatch_events: "takeBatch e = (b, e') \<Longrightarrow> e_events e' = []"
  by (auto simp: takeBatch_def Let_def)

lemma fail_inv:
  assumes "eng_inv {} h e" "e_events e = []" and "fail env e = (b, e')"
  shows "eng_inv {} (h @ batch_events b) e'"
proof -
  have "eng_inv {} h (e\<lparr>e_events := []\<rparr>)"
    using assms(1,2) by (simp add: eng_inv_def findPeer_def live_in_def streams_ok_def)
  then have "eng_inv {} h (endAllSessions env DisconnectReason.NetworkError (e\<lparr>e_events := []\<rparr>))"
    by (rule endAllSessions_inv(1))
  then have "eng_inv {} h (tellMailbox env (setRunning False) (endAllSessions env DisconnectReason.NetworkError (e\<lparr>e_events := []\<rparr>)))"
    by (rule inv_core [OF same_core_tell(1)])
  then show ?thesis
    using assms(3) takeBatch_inv by (simp add: fail_def)
qed

lemma quiet_core: "same_core e e' \<Longrightarrow> eng_inv {} h e \<and> e_events e = [] \<Longrightarrow> eng_inv {} h e' \<and> e_events e' = []"
  using inv_core [of e e' "{}" h] by (simp add: same_core_def)

lemma runs_inv: "engine_runs env n config h e \<Longrightarrow> eng_inv {} h e \<and> e_events e = []"
proof (induction rule: engine_runs.induct)
  case (start v r w)
  then show ?case
    using init_inv [of v r config w] by (simp add: networkEngine_def Let_def)
next
  case (step h e now b e')
  then show ?case
    using step_inv [of h e env n now b e'] takeBatch_events by (auto simp: step_def Option.bind_eq_Some_conv)
next
  case (wait h e failed)
  then show ?case
    using quiet_core [OF noteWait_core] by blast
next
  case (taken h e ev m e')
  then show ?case
    using quiet_core [OF takeMessage_core] by blast
next
  case (dropped h e b)
  then show ?case
    using quiet_core [OF dropBatch_core] by blast
next
  case (failed h e b e')
  then show ?case
    using fail_inv [of h e env b e'] takeBatch_events by (auto simp: fail_def)
qed


text \<open>
  \<open>fail\<close> clears the events of the step that threw before it ends the sessions, so they are never handed
  over. With them goes the end of a session that was reported in that step: the session counts as
  reported and is not reported again.
\<close>

lemma fail_forgets: "fail env (e\<lparr>e_events := evs\<rparr>) = fail env e"
  by (simp add: fail_def)


lemma runs_safe:
  assumes env: "env_safe env" and "cfg_maxSendRate config \<noteq> 0"
  shows "engine_runs env n config h e \<Longrightarrow> eng_safe e"
proof (induction rule: engine_runs.induct)
  case (start v r w)
  then show ?case
    using assms(2) by (rule init_safe)
next
  case (step h e now b e')
  then show ?case
    using step_safe [OF env, of e h n now] runs_inv [OF step.hyps(1)] by auto
next
  case (taken h e ev m e')
  then show ?case
    by (auto simp: takeMessage_def Let_def split: option.splits list.splits)
next
  case (dropped h e b)
  have "eng_safe (e\<lparr>e_backlogBytes := k, e_mailbox := snd (post ResumeReceiving 0 (e_mailbox e))\<rparr>)" for k
    using dropped.IH by (simp add: eng_safe_def base_safe_def rings_hold_def marked_def findPeer_def mail_fits_ops)
  then show ?case
    using dropped.IH by (simp add: dropBatch_def Let_def)
next
  case (failed h e b e')
  have "eng_safe (tellMailbox env (setRunning False) (endAllSessions env r (e\<lparr>e_events := []\<rparr>)))" for r
    using failed.IH env by (intro tellMailbox_safe endAllSessions_safe) (simp_all add: mail_fits_ops)
  then show ?case
    using failed.hyps(2) by (auto simp: fail_def takeBatch_def Let_def)
qed (simp add: noteWait_def split: option.splits)


section \<open>Events at the end of all sessions\<close>

text \<open>The sessions the application knows of and was not told the end of.\<close>

definition untold :: "'w Engine \<Rightarrow> PeerId \<Rightarrow> bool" where
  "untold e pid \<longleftrightarrow> (case findPeer pid e of Some p \<Rightarrow> \<not> silent p | None \<Rightarrow> False)"

lemma live_untold: "live_in pid e \<Longrightarrow> untold e pid"
  by (auto simp: live_in_def untold_def live_def silent_def split: option.splits)

lemma report_events:
  assumes "eng_inv X h e"
  shows "e_events (report pid r e) =
    e_events e @ (if untold e pid then [(newEvent Disconnected pid)\<lparr>ev_reason := r\<rparr>] else [])"
  using inv_peer(1) [OF assms, of pid]
  by (cases "findPeer pid e") (auto simp: report_def untold_def silent_def)

lemma dropSession_events: "e_events (dropSession env r e pid) = e_events (report pid r e)"
  by (simp add: dropSession_def)

lemma dropSession_peer: "k \<noteq> pid \<Longrightarrow> findPeer k (dropSession env r e pid) = findPeer k e"
  by (simp add: dropSession_def report_peer)

lemma dropSessions_peer: "k \<notin> set ks \<Longrightarrow> findPeer k (foldl (dropSession env r) e ks) = findPeer k e"
  by (induction ks arbitrary: e) (simp_all add: dropSession_peer)

lemma dropSessions_events:
  assumes "eng_inv UNIV h e" and "distinct ks"
  shows "e_events (foldl (dropSession env r) e ks) =
    e_events e @ map (\<lambda>pid. (newEvent Disconnected pid)\<lparr>ev_reason := r\<rparr>) (filter (untold e) ks)"
  using assms(2)
proof (induction ks rule: rev_induct)
  case (snoc k ks)
  let ?e = "foldl (dropSession env r) e ks"
  have "eng_inv UNIV h ?e"
    using dropSessions [OF assms(1)] by blast
  moreover have "untold ?e k = untold e k"
    using snoc.prems dropSessions_peer [of k ks env r e] by (simp add: untold_def)
  ultimately show ?case
    using snoc report_events [of UNIV h ?e k r] by (simp add: dropSession_events)
qed simp

lemma endAllSessions_events:
  assumes inv: "eng_inv {} h e"
  shows "e_events (endAllSessions env r e) =
    e_events e @ map (\<lambda>pid. (newEvent Disconnected pid)\<lparr>ev_reason := r\<rparr>) (filter (untold e) (om_keys (e_peers e)))"
proof -
  have "e_events (foldl (\<lambda>e p. destroyLink p e) e1 ps) = e_events e1" for e1 :: "'a Engine" and ps
    by (induction ps arbitrary: e1) simp_all
  then show ?thesis
    using dropSessions_events [OF inv_weaken [OF inv subset_UNIV] om_ok_distinct [OF inv_parts(1) [OF inv]]]
    by (simp add: endAllSessions_def Let_def)
qed

lemma lost_events:
  "e_events (foldl (\<lambda>e pid. emit (newEvent PeerLost pid) e) e lost) = e_events e @ map (newEvent PeerLost) lost"
  by (induction lost arbitrary: e) simp_all

lemma closeSockets_fields [simp]:
  "e_events (closeSockets env e) = e_events e" "e_peers (closeSockets env e) = e_peers e" "e_socket (closeSockets env e) = None"
  "e_beaconSocket (closeSockets env e) = False"
  by (simp_all add: closeSockets_def Let_def)


lemma endAllSessions_fields:
  "e_byStream (endAllSessions env r e) = []" "e_discovery (endAllSessions env r e) = e_discovery e"
proof -
  have "e_discovery (foldl (dropSession env r) e ks) = e_discovery e" for ks and e :: "'a Engine"
    by (induction ks arbitrary: e) (simp_all add: dropSession_def)
  moreover have "e_discovery (foldl (\<lambda>e p. destroyLink p e) e ps) = e_discovery e" for ps and e :: "'a Engine"
    by (induction ps arbitrary: e) simp_all
  ultimately show "e_byStream (endAllSessions env r e) = []" "e_discovery (endAllSessions env r e) = e_discovery e"
    by (simp_all add: endAllSessions_def Let_def)
qed

lemma lost_fields:
  "e_peers (foldl (\<lambda>e pid. emit (newEvent PeerLost pid) e) e lost) = e_peers e"
  "e_byStream (foldl (\<lambda>e pid. emit (newEvent PeerLost pid) e) e lost) = e_byStream e"
  "e_discovery (foldl (\<lambda>e pid. emit (newEvent PeerLost pid) e) e lost) = e_discovery e"
  by (induction lost arbitrary: e) simp_all

lemma closeSockets_rest [simp]:
  "e_byStream (closeSockets env e) = e_byStream e" "e_discovery (closeSockets env e) = e_discovery e"
  by (simp_all add: closeSockets_def Let_def)

lemma updateInterface_failed:
  assumes inv: "eng_inv {} h e" and "e_socket e \<noteq> None" and same: "fst (env_localInterface env (e_world e)) = e_interface e"
    and e': "e' = updateInterface env n True e"
  shows "e_peers e' = []" "e_byStream e' = []" "e_socket e' = None" "\<not> e_beaconSocket e'" "dl_peers (e_discovery e') = []"
    "e_events e' = e_events e @
       map (\<lambda>pid. (newEvent Disconnected pid)\<lparr>ev_reason := DisconnectReason.NetworkError\<rparr>) (filter (untold e) (om_keys (e_peers e))) @
       map (newEvent PeerLost) (om_keys (dl_peers (e_discovery e)))"
proof -
  obtain w where asked: "env_localInterface env (e_world e) = (e_interface e, w)"
    using same by (cases "env_localInterface env (e_world e)") simp
  let ?e1 = "e\<lparr>e_checkInterface := False, e_world := w\<rparr>"
  let ?e2 = "endAllSessions env DisconnectReason.NetworkError ?e1"
  let ?e3 = "foldl (\<lambda>e pid. emit (newEvent PeerLost pid) e) (?e2\<lparr>e_discovery := snd (clear (e_discovery e))\<rparr>)
    (om_keys (dl_peers (e_discovery e)))"
  have inv1: "eng_inv {} h ?e1"
    using inv by (rule inv_core [rotated]) (simp add: same_core_def findPeer_def)
  have same1: "untold ?e1 = untold e"
    by (simp add: untold_def findPeer_def fun_eq_iff)
  have eq: "e' = closeSockets env (?e3\<lparr>e_peersChanged := True, e_interface := e_interface e\<rparr>)"
    using assms(2) asked endAllSessions_fields(2) [of env DisconnectReason.NetworkError ?e1]
    by (simp add: e' updateInterface_def Let_def clear_def split: option.splits)
  show "e_peers e' = []" "e_byStream e' = []" "e_socket e' = None" "\<not> e_beaconSocket e'" "dl_peers (e_discovery e') = []"
    using endAllSessions_inv(2) [OF inv1] by (simp_all add: eq lost_fields endAllSessions_fields clear_def)
  show "e_events e' = e_events e @
       map (\<lambda>pid. (newEvent Disconnected pid)\<lparr>ev_reason := DisconnectReason.NetworkError\<rparr>) (filter (untold e) (om_keys (e_peers e))) @
       map (newEvent PeerLost) (om_keys (dl_peers (e_discovery e)))"
    using endAllSessions_events [OF inv1] same1 by (simp add: eq lost_events)
qed


section \<open>Connection requests\<close>

lemma om_modify_put: "k \<notin> set (om_keys m) \<Longrightarrow> om_modify k f (om_put k v m) = om_put k (f v) m"
proof (induction k v m rule: om_put.induct)
  case (2 k v k' v' m)
  have "om_modify k f m = m" if "k \<notin> set (om_keys m)" for m :: "('a \<times> 'b) list"
    using that by (induction m) (auto simp: om_modify_def)
  then show ?case
    using 2 by (auto simp: om_modify_def)
qed (simp add: om_modify_def)

lemma length_filter_put: "k \<notin> set (om_keys m) \<Longrightarrow> length (filter P (om_put k v m)) \<le> length (filter P m) + 1"
  by (induction k v m rule: om_put.induct) auto

lemma addPeer_table:
  assumes "findPeer (peer_id who) e = None" and "addPeer env who a now e = Some e'"
  obtains p where "e_peers e' = om_put (peer_id who) p (e_peers e)" "p_address p = a" "p_info p = who"
proof -
  obtain sid w where fresh: "freshStreamID env (e_byStream e) (e_world e) = Some (sid, w)"
    using assms(2) by (auto simp: addPeer_def Option.bind_eq_Some_conv)
  let ?new = "newPeer who a (cfg_timings (e_config e)) sid (e_budget e)"
  let ?f = "\<lambda>p. p\<lparr>p_link := setPaused (e_paused e) (supervise now (p_link p))\<rparr>"
  have "peer_id who \<notin> set (om_keys (e_peers e))"
    using assms(1) map_of_None_keys [of "e_peers e" "peer_id who"] by (simp add: findPeer_def)
  then have "e_peers e' = om_put (peer_id who) (?f ?new) (e_peers e)"
    using assms fresh om_modify_put [of "peer_id who" "e_peers e" ?f ?new]
    by (auto simp: addPeer_def Let_def findPeer_def)
  then show ?thesis
    by (rule that) (simp_all add: newPeer_def)
qed

lemma sendAccept_table:
  assumes "e_peers e = om_put pid p m" and "pid \<notin> set (om_keys m)"
  obtains q where "e_peers (sendAccept env pid e) = om_put pid q m" "p_address q = p_address p"
proof -
  have found: "findPeer pid e = Some p"
    using assms(1) by (simp add: findPeer_def)
  show ?thesis
    by (rule that [of "(p\<lparr>p_control := p_control p @ [\<lparr>om_tag = control_value CtAccept,
          om_body = the (encodeAccept \<lparr>accept_name = my_name (dl_identity (e_discovery e))\<rparr>)\<rparr>]\<rparr>)
        \<lparr>p_state := Connecting, p_acceptSent := True, p_stateDeadline := None\<rparr>"])
       (simp_all add: sendAccept_def found Let_def pushControl_def assms(1) om_modify_put [OF assms(2)])
qed

lemma admitHello_table:
  assumes "findPeer (fromInstance hello) e = None" and "admitHello env from hello crossing now e = Some (target, e')"
  shows "(target = None \<and> e' = e) \<or>
    (target = Some (fromInstance hello) \<and> length (e_peers e) < MaxPeers \<and> pendingCount e < MaxPendingSessions \<and>
     (\<exists>p. e_peers e' = om_put (fromInstance hello) p (e_peers e) \<and> p_address p = from))"
proof (cases "length (e_peers e) \<ge> MaxPeers \<or> pendingCount e \<ge> MaxPendingSessions")
  case True
  then show ?thesis
    using assms(2) by (auto simp: admitHello_def)
next
  case False
  let ?pid = "fromInstance hello"
  let ?who = "\<lparr>peer_id = ?pid, displayName = name hello, address = toString (sa_ip from), port = sa_port from,
    appVersion = versionText \<lparr>av_major = verMajor hello, av_minor = verMinor hello\<rparr>\<rparr>"
  obtain e1 where added: "addPeer env ?who from now e = Some e1"
    using assms(2) False by (auto simp: admitHello_def Let_def Option.bind_eq_Some_conv)
  have absent: "?pid \<notin> set (om_keys (e_peers e))"
    using assms(1) map_of_None_keys [of "e_peers e" ?pid] by (simp add: findPeer_def)
  obtain p where p: "e_peers e1 = om_put ?pid p (e_peers e)" "p_address p = from" "p_info p = ?who"
    using addPeer_table [OF _ added] assms(1) by auto
  have changed: "e_peers (tellMailbox env b (modifyPeer ?pid g e1)) = om_put ?pid (g p) (e_peers e)" for g b
    using om_modify_put [OF absent] p(1) by simp
  have "\<exists>q. e_peers e' = om_put ?pid q (e_peers e) \<and> p_address q = from"
  proof (cases "crossing \<or> cfg_autoAccept (e_config e1)")
    case True
    let ?e2 = "tellMailbox env (publishSession ?pid Pending) (modifyPeer ?pid (\<lambda>p. p\<lparr>p_announced := crossing\<rparr>) e1)"
    have e2: "e_peers ?e2 = om_put ?pid (p\<lparr>p_announced := crossing\<rparr>) (e_peers e)"
      by (rule changed)
    obtain q where "e_peers (sendAccept env ?pid ?e2) = om_put ?pid q (e_peers e)" "p_address q = from"
      by (rule sendAccept_table [OF e2 absent, of env]) (use p(2) in simp)
    then show ?thesis
      using assms(2) False True added by (auto simp: admitHello_def Let_def)
  next
    case ask: False
    then show ?thesis
      using assms(2) False added p(2) changed by (auto simp: admitHello_def Let_def)
  qed
  moreover have "target = Some ?pid"
    using assms(2) False added by (auto simp: admitHello_def Let_def)
  ultimately show ?thesis
    using False by auto
qed


lemma pendingCount_put:
  "pid \<notin> set (om_keys (e_peers e)) \<Longrightarrow> e_peers e' = om_put pid p (e_peers e) \<Longrightarrow> pendingCount e' \<le> pendingCount e + 1"
  using length_filter_put [of pid "e_peers e" "\<lambda>(_, p). p_state p \<noteq> Connected" p] by (simp add: pendingCount_def)

lemma erased_table: "e_peers (erasePeer env pid e) = om_erase pid (e_peers e)"
proof (cases "findPeer pid e")
  case None
  then have "pid \<notin> set (om_keys (e_peers e))"
    by (simp add: findPeer_def map_of_None_keys)
  then show ?thesis
    using None by (auto simp: erasePeer_def om_erase_def om_keys_def intro!: filter_True [symmetric])
qed (simp add: erasePeer_def Let_def)

lemma erased_keys: "set (om_keys (om_erase k m)) \<subseteq> set (om_keys m)"
  by (auto simp: om_erase_def om_keys_def)

lemma onHello_cases:
  assumes "onHello env from packet now e = Some (target, e')" and ok: "om_ok (e_peers e)"
  obtains (again) pid p where "target = Some pid" "e' = e" "findPeer pid e = Some p" "p_address p = from"
      "mRemoteStreamID (p_link p) = Some (srcStreamID (pkt_header packet))"
  | (refused) "target = None" "e' = e"
  | (fresh) hello e1 crossing where "decodeHello (pkt_body packet) = Some hello" "hello_acceptable from hello e"
      "findPeer (fromInstance hello) e1 = None" "set (om_keys (e_peers e1)) \<subseteq> set (om_keys (e_peers e))"
      "admitHello env from hello crossing now e1 = Some (target, e')"
proof (cases "find (\<lambda>(_, p). p_address p = from \<and> mRemoteStreamID (p_link p) = Some (srcStreamID (pkt_header packet))) (e_peers e)")
  case (Some kp)
  obtain pid p where kp: "kp = (pid, p)"
    by (cases kp)
  then have p: "(pid, p) \<in> set (e_peers e)" "p_address p = from" "mRemoteStreamID (p_link p) = Some (srcStreamID (pkt_header packet))"
    using Some nth_mem by (fastforce simp: find_Some_iff)+
  have "findPeer pid e = Some p"
    using map_of_is_SomeI [OF om_ok_distinct [OF ok, unfolded om_keys_def] p(1)] by (simp add: findPeer_def)
  moreover have "target = Some pid" "e' = e"
    using assms(1) Some kp by (simp_all add: onHello_def)
  ultimately show ?thesis
    using again p(2,3) by blast
next
  case None
  have keys: "set (om_keys (e_peers (erasePeer env k e))) \<subseteq> set (om_keys (e_peers e))"
    "set (om_keys (e_peers (erasePeer env k (report k r e)))) \<subseteq> set (om_keys (e_peers e))" for k r
    using erased_keys [of k "e_peers e"] erased_keys [of k "e_peers (report k r e)"] report_events_keys [of k r e]
    by (simp_all add: erased_table)
  show ?thesis
  proof (cases "decodeHello (pkt_body packet)")
    case hello: (Some hello)
    let ?pid = "fromInstance hello"
    note eq = assms(1) [unfolded onHello_def None option.case hello Let_def]
    show ?thesis
    proof (cases "hello_acceptable from hello e")
      case False
      then show ?thesis
        using eq refused by simp
    next
      case ok: True
      show ?thesis
      proof (cases "findPeer ?pid e")
        case None
        then show ?thesis
          using eq ok fresh [OF hello ok None] by simp
      next
        case (Some existing)
        show ?thesis
        proof (cases "p_state existing = Connecting \<and> p_initiator existing")
          case crossing: True
          show ?thesis
          proof (cases "?pid < e_id e")
            case True
            then show ?thesis
              using eq ok Some crossing by (intro refused) simp_all
          next
            case False
            then show ?thesis
              using eq ok Some crossing by (intro fresh [of hello "erasePeer env ?pid e" True, OF hello ok erased_absent keys(1)]) simp
          qed
        next
          case False
          then show ?thesis
            using eq ok Some
            by (intro fresh [of hello "erasePeer env ?pid (report ?pid DisconnectReason.Lost e)" False,
                  OF hello ok erased_absent keys(2)]) auto
        qed
      qed
    qed
  qed (use assms(1) None refused in \<open>auto simp: onHello_def\<close>)
qed


section \<open>Two corner cases\<close>

text \<open>
  A Hello that crosses the own one, at an engine that has \<open>MaxPendingSessions\<close> others that are not
  connected: the own session, which the application asked for, is erased, no other takes its place, and
  no event is emitted.
\<close>

lemma crossing_forgotten:
  assumes "find (\<lambda>(_, p). p_address p = from \<and> mRemoteStreamID (p_link p) = Some (srcStreamID (pkt_header packet))) (e_peers e) = None"
    and "decodeHello (pkt_body packet) = Some hello" "hello_acceptable from hello e" "e_id e < fromInstance hello"
    and "findPeer (fromInstance hello) e = Some p" "p_state p = Connecting" "p_initiator p"
    and "pendingCount (erasePeer env (fromInstance hello) e) \<ge> MaxPendingSessions"
  shows "onHello env from packet now e = Some (None, erasePeer env (fromInstance hello) e)"
    "e_events (erasePeer env (fromInstance hello) e) = e_events e"
    "findPeer (fromInstance hello) (erasePeer env (fromInstance hello) e) = None"
  using assms
  by (simp_all add: onHello_def admitHello_def erased_absent Let_def) (simp add: erasePeer_def Let_def)

text \<open>The size of the send buffer fits an \<open>int\<close> up to a rate of 466 million, and not above it.\<close>

lemma sendBuffer_fits:
  assumes "unat rate < 466034000"
  shows "sendBuffer 2304 rate < 2 ^ 31"
proof -
  have "unat rate div 500 < 932068"
    using assms by (simp add: div_less_iff_less_mult)
  then show ?thesis
    by (simp add: sendBuffer_def burstOf_def constants unat_div max_def)
qed

lemma sendBuffer_overflows:
  assumes "unat rate \<ge> 466034000"
  shows "sendBuffer 2304 rate \<ge> 2 ^ 31"
proof -
  have "932068 \<le> unat rate div 500" and "rate \<noteq> 0"
    using assms by (auto simp: less_eq_div_iff_mult_less_eq)
  then show ?thesis
    by (simp add: sendBuffer_def burstOf_def constants unat_div word_gt_0 max_def)
qed


section \<open>Properties\<close>





text \<open>C4: The table of sessions: at most \<open>MaxPeers\<close>, one for each peer and filed under its id, none without a
  socket, and a datagram that names a stream ID is given to the one session whose link has that ID on
  this side.
\<close>

theorem session_table:
  assumes "engine_runs env perDatagram config h e"
  shows "length (e_peers e) \<le> MaxPeers \<and> distinct (om_keys (e_peers e)) \<and>
    (e_socket e = None \<longrightarrow> e_peers e = []) \<and>
    (\<forall>pid p. findPeer pid e = Some p \<longrightarrow> peer_id (p_info p) = pid) \<and>
    (\<forall>sid pid. map_of (e_byStream e) sid = Some pid \<longleftrightarrow> (\<exists>p. findPeer pid e = Some p \<and> mLocalStreamID (p_link p) = sid))"
proof -
  have inv: "eng_inv {} h e"
    using runs_inv [OF assms] by simp
  show ?thesis
    using inv_parts [OF inv] inv_peer(1) [OF inv] om_ok_distinct [of "e_peers e"] unfolding streams_ok_def by blast
qed




section \<open>A run\<close>

text \<open>
  An adapter, sockets that never receive anything, and an application that asks for a session with a
  peer nobody has seen.
\<close>

definition engine_demo_env :: "nat Environment" where
  "engine_demo_env =
     \<lparr>env_localInterface = (\<lambda>w. (Some \<lparr>if_ip = 0x0A000001, if_mask = 0xFFFFFF00\<rparr>, w)),
      env_makeStreamID = (\<lambda>w. (word_of_nat w, w + 1)),
      env_bind = (\<lambda>a opts w. (Some (a\<lparr>sa_port := 40000\<rparr>), w)),
      env_shutdown = (\<lambda>which w. w),
      env_receive = (\<lambda>which w. (Inl WouldBlock, w)),
      env_sendTo = (\<lambda>a bytes w. (None, w)),
      env_others = (\<lambda>m w. if w = 0 then (snd (post Command.Connect 2 m), 1) else (m, w))\<rparr>"

definition engine_demo_config :: EngineConfig where
  "engine_demo_config =
     \<lparr>cfg_displayName = [], cfg_appId = [65], cfg_appVersion = [49], cfg_discoveryPort = 5555,
      cfg_sendQueueBytes = 1000, cfg_maxSendRate = 0, cfg_timings = defaultTimings, cfg_autoAccept = False,
      cfg_instanceId = 0\<rparr>"

definition engine_demo_events :: "EngineEvent list" where
  "engine_demo_events =
     [(newEvent Disconnected 2)\<lparr>ev_reason := DisconnectReason.Lost\<rparr>,
      (newEvent AdapterChanged 0)\<lparr>ev_info := noInfo\<lparr>address := toString 0x0A000001, port := 40000\<rparr>\<rparr>]"

definition engine_demo_bound :: "nat Engine" where
  "engine_demo_bound = snd (the (step engine_demo_env 0 0 (networkEngine [49] 1 engine_demo_config 0)))"

lemma receiveLoop_nothing:
  assumes "env_receive env which (e_world e) = (Inl WouldBlock, w)"
  shows "receiveLoop env which handle MaxDatagramsPerPass e = Some (e\<lparr>e_world := w\<rparr>)"
proof -
  have "MaxDatagramsPerPass \<noteq> 0"
    by (simp add: constants)
  then obtain n where n: "MaxDatagramsPerPass = Suc n"
    using not0_implies_Suc by blast
  show ?thesis
    unfolding n using assms by (simp add: Let_def)
qed

lemma demo_engine_step:
  "step engine_demo_env 0 0 (networkEngine [49] 1 engine_demo_config 0) =
     Some (\<lparr>batch_events = engine_demo_events, batch_bytes = 0\<rparr>, engine_demo_bound)"
  "e_socket engine_demo_bound = Some \<lparr>sa_ip = 0x0A000001, sa_port = 40000\<rparr>" "e_peers engine_demo_bound = []"
  "e_interface engine_demo_bound = Some \<lparr>if_ip = 0x0A000001, if_mask = 0xFFFFFF00\<rparr>"
  "e_byStream engine_demo_bound = []" "e_id engine_demo_bound = 1" "\<not> e_shutdown engine_demo_bound"
  "e_discovery engine_demo_bound = setInterface 0x0A000001 0xFFFFFF00
     (newDiscovery \<lparr>my_instanceId = 1, my_appIdHash = hashAppId [65], my_version = parseAppVersion [49], my_name = []\<rparr>)"
  "e_config engine_demo_bound = engine_demo_config"
proof -
  have run: "\<exists>e. step engine_demo_env 0 0 (networkEngine [49] 1 engine_demo_config 0) =
      Some (\<lparr>batch_events = engine_demo_events, batch_bytes = 0\<rparr>, e) \<and>
      e_socket e = Some \<lparr>sa_ip = 0x0A000001, sa_port = 40000\<rparr> \<and> e_peers e = [] \<and>
      e_interface e = Some \<lparr>if_ip = 0x0A000001, if_mask = 0xFFFFFF00\<rparr> \<and>
      e_byStream e = [] \<and> e_id e = 1 \<and> \<not> e_shutdown e \<and>
      e_discovery e = setInterface 0x0A000001 0xFFFFFF00
        (newDiscovery \<lparr>my_instanceId = 1, my_appIdHash = hashAppId [65], my_version = parseAppVersion [49], my_name = []\<rparr>) \<and>
      e_config e = engine_demo_config"
    apply (simp add: step_def stepCommands_def onMailbox_def drain_def post_def Let_def apply_command_def networkEngine_def completed_def
      engine_demo_config_def engine_demo_env_def newDiscovery_def newMailbox_def setQueueBytes_def
      startSession_def openSession_def findPeer_def find_known_def emit_def constants)
    apply (simp add: stepReceive_def tickDue_def updateInterface_def clear_def closeSockets_def engine_bind_def emit_def updatePause_def Let_def
      setInterface_def receivePending_def receiveLoop_nothing serviceTimers_def tick_def expire_def findPeer_def)
    apply (simp add: stepSend_def sendData_def run_def Order_def runLane.simps mayRun_def refill_def newScheduler_def setRate_def Let_def
      emptyRing_def isUnlimited_def)
    apply (simp add: takeBatch_def stepFinish_def Let_def payload_def newEvent_def engine_demo_events_def noInfo_def tellMailbox_def onMailbox_def)
    done
  show "step engine_demo_env 0 0 (networkEngine [49] 1 engine_demo_config 0) =
     Some (\<lparr>batch_events = engine_demo_events, batch_bytes = 0\<rparr>, engine_demo_bound)"
  "e_socket engine_demo_bound = Some \<lparr>sa_ip = 0x0A000001, sa_port = 40000\<rparr>" "e_peers engine_demo_bound = []"
  "e_interface engine_demo_bound = Some \<lparr>if_ip = 0x0A000001, if_mask = 0xFFFFFF00\<rparr>"
  "e_byStream engine_demo_bound = []" "e_id engine_demo_bound = 1" "\<not> e_shutdown engine_demo_bound"
  "e_discovery engine_demo_bound = setInterface 0x0A000001 0xFFFFFF00
     (newDiscovery \<lparr>my_instanceId = 1, my_appIdHash = hashAppId [65], my_version = parseAppVersion [49], my_name = []\<rparr>)"
  "e_config engine_demo_bound = engine_demo_config"
    using run by (auto simp: engine_demo_bound_def)
qed

definition engine_demo_hello :: Hello where
  "engine_demo_hello =
     \<lparr>fromInstance = 2, toInstance = 1, appIdHash = hashAppId [65], verMajor = av_major (parseAppVersion [49]),
      verMinor = av_minor (parseAppVersion [49]), name = [65]\<rparr>"

definition engine_demo_packet :: DecodedPacket where
  "engine_demo_packet =
     \<lparr>pkt_header = emptyHeader\<lparr>flags := dataFlags Control, srcStreamID := 9, seq := 1, tag := control_value CtHello\<rparr>,
      pkt_body = the (encodeHello engine_demo_hello)\<rparr>"

lemma demo_hello: "decodeHello (the (encodeHello engine_demo_hello)) = Some engine_demo_hello"
  using decodeHello_bytes [of "[]" engine_demo_hello] by (simp add: encodeHello_bytes engine_demo_hello_def ext_ok_def)

lemma demo_bound_runs: "engine_runs engine_demo_env 0 engine_demo_config engine_demo_events engine_demo_bound"
  using engine_runs.step [OF engine_runs.start demo_engine_step(1)] by simp

lemma demo_acceptable: "hello_acceptable \<lparr>sa_ip = 0x0A000002, sa_port = 40001\<rparr> engine_demo_hello engine_demo_bound"
  by (simp add: hello_acceptable_def demo_engine_step engine_demo_hello_def newDiscovery_def setInterface_def constants
      isInSubnet_def isNetmask_def sameSubnet_def)

lemma demo_onHello:
  "\<exists>e. onHello engine_demo_env \<lparr>sa_ip = 0x0A000002, sa_port = 40001\<rparr> engine_demo_packet 0 engine_demo_bound = Some (Some 2, e)"
proof -
  have "fromInstance engine_demo_hello = 2" "env_makeStreamID engine_demo_env w = (word_of_nat w, w + 1)" for w
    by (simp_all add: engine_demo_hello_def engine_demo_env_def)
  then show ?thesis
    by (simp add: onHello_def demo_engine_step engine_demo_packet_def demo_hello demo_acceptable Let_def findPeer_def
        admitHello_def constants addPeer_def freshStreamID.simps pendingCount_def)
qed


theorem session_table_witness: "length (e_peers engine_demo_bound) \<le> 256 \<and> e_socket engine_demo_bound \<noteq> None"
  using session_table [OF demo_bound_runs] by (simp add: demo_engine_step constants)




lemma demo_env_safe: "env_safe engine_demo_env"
proof -
  have "\<exists>n. (word_of_nat (w + n) :: u32) \<notin> ids" if ids: "finite ids" "card ids \<le> MaxPeers" for ids w
  proof (rule ccontr)
    let ?f = "\<lambda>n. word_of_nat (w + n) :: u32"
    assume "\<not> (\<exists>n. ?f n \<notin> ids)"
    then have "?f ` {0..256} \<subseteq> ids"
      by blast
    moreover have "inj_on ?f {0..256}"
    proof (rule inj_onI)
      fix x y
      assume "x \<in> {0..256}" "y \<in> {0..256}" "?f x = ?f y"
      then have "(word_of_nat x :: u32) = word_of_nat y" "x < 2 ^ 32" "y < 2 ^ 32"
        by auto
      then show "x = y"
        by (simp add: word_unat_eq_iff unat_of_nat take_bit_eq_mod)
    qed
    ultimately have "card {0..256 :: nat} \<le> card ids"
      using card_inj_on_le ids(1) by blast
    then show False
      using ids(2) by (simp add: constants)
  qed
  moreover have "draws engine_demo_env w n = w + n" for w n
    by (induction n) (simp_all add: draws_def engine_demo_env_def)
  ultimately show ?thesis
    by (auto simp: env_safe_def engine_demo_env_def mail_fits_ops)
qed



end
