(* ===== verification/EngineShutdown.thy ===== *)
theory EngineShutdown
  imports EngineRun
begin

text \<open>
  The end of an engine: how \<open>stop\<close> of \<open>NetLinkCore.cpp\<close>, which posts \<open>Command::Shutdown\<close> and waits until
  \<open>NetworkEngine::finished\<close>, comes to an end. A session that was told to close has a deadline, at most \<open>CloseLinger\<close> after
  the step that closed it; once the shutdown has begun every session is one of these, no new one is
  added, and no deadline is moved. The first step at or after the last deadline finishes the engine, and the
  engine asks to be woken up in time for it.
\<close>

section \<open>What the operations of a step leave alone\<close>

definition flags_kept :: "'w Engine \<Rightarrow> 'w Engine \<Rightarrow> bool" where
  "flags_kept e e' \<longleftrightarrow> e_ended e' = e_ended e \<and> e_shutdown e' = e_shutdown e"

interpretation flags: engine_preorder flags_kept
  by unfold_locales (simp_all add: flags_kept_def)

lemma ended_fields [simp]:
  "e_ended (touch pid e) = e_ended e" "e_ended (emit ev e) = e_ended e" "e_ended (destroyLink p e) = e_ended e"
  "e_ended (putLink pid l e) = e_ended e" "e_shutdown (putLink pid l e) = e_shutdown e"
  "e_ended (pushControl pid t body e) = e_ended e" "e_shutdown (pushControl pid t body e) = e_shutdown e"
  "e_ended (report pid r e) = e_ended e" "e_shutdown (report pid r e) = e_shutdown e"
  by (simp_all add: touch_def emit_def destroyLink_def putLink_def pushControl_def report_def split: option.splits)

lemma source_next_flags: "flags_kept e (snd (source_next env pid e la))"
proof (cases "findPeer pid e")
  case (Some p)
  then show ?thesis
    by (cases "p_control p") (auto simp: source_next_def flags_kept_def split_beta)
qed (simp add: source_next_def flags_kept_def)

lemma peekPeer_flags: "flags_kept e (snd (peekPeer env la pid p e))"
proof -
  obtain d e' l where peek: "peek (source_next env pid) la e (linkOf p e) = (d, e', l)"
    by (metis prod_cases3)
  have "flags_kept e (fst (snd (peek (source_next env pid) la e (linkOf p e))))"
    by (rule flags.rel_peek) (rule source_next_flags)
  then show ?thesis
    using peek by (simp add: peekPeer_def flags_kept_def)
qed

lemma transmit_flags: "engine_transmit env a d e = Some (r, e') \<Longrightarrow> flags_kept e e'"
  by (erule transmit_changes) (simp add: flags_kept_def)

lemma sendAcks_flags: "sendAcks env pid e = Some e' \<Longrightarrow> flags_kept e e'"
proof (rule sendAcks_rule [of env pid e e' "flags_kept e"])
  fix e1 a d r e2
  assume "flags_kept e e1" "engine_transmit env a d e1 = Some (r, e2)"
  then show "flags_kept e e2"
    using transmit_flags flags.rel_trans by blast
qed (simp_all add: flags_kept_def)

lemma scheduleLane_flags: "flags_kept e (scheduleLane env pid e la)"
proof (cases "findPeer pid e")
  case (Some p)
  then show ?thesis
    using peekPeer_flags [of e env la pid p] by (simp add: scheduleLane_def split_beta flags_kept_def)
qed (simp add: scheduleLane_def flags_kept_def)

lemma schedule_flags: "flags_kept e (schedule env pid e)"
  unfolding schedule_def by (rule flags.rel_foldl) (rule scheduleLane_flags)

lemma sendTurn_flags:
  assumes "sendTurn env now la pid e = Some (r, e')"
  shows "flags_kept e e'"
proof (cases "findPeer pid e")
  case (Some p)
  obtain d e1 where peek: "peekPeer env la pid p e = (d, e1)"
    by (cases "peekPeer env la pid p e")
  have e1: "flags_kept e e1"
    using peekPeer_flags [of e env la pid p] peek by simp
  show ?thesis
  proof (cases d)
    case None
    then show ?thesis
      using assms Some peek e1 by (auto simp: sendTurn_def flags_kept_def)
  next
    case d: (Some dg)
    then obtain outcome e2 where sent: "engine_transmit env (p_address p) dg e1 = Some (outcome, e2)"
      using assms Some peek by (auto simp: sendTurn_def Option.bind_eq_Some_conv)
    have "flags_kept e e2"
      using flags.rel_trans [OF e1 transmit_flags [OF sent]] .
    then show ?thesis
      using assms Some peek d sent by (auto simp: sendTurn_def Let_def flags_kept_def Option.bind_eq_Some_conv split: if_splits)
  qed
qed (use assms in \<open>simp add: sendTurn_def flags_kept_def\<close>)

lemma sendData_flags: "sendData env now e = Some e' \<Longrightarrow> flags_kept e e'"
proof -
  assume "sendData env now e = Some e'"
  then obtain s e1 where run: "run (sendTurn env now) (e_scheduler e) e = Some (s, e1)" and e': "e' = e1\<lparr>e_scheduler := s\<rparr>"
    by (auto simp: sendData_def Option.bind_eq_Some_conv)
  have "flags_kept e e1"
    by (rule run_keeps [OF run]) (simp add: flags_kept_def, blast intro: sendTurn_flags flags.rel_trans)
  then show ?thesis
    using e' by (simp add: flags_kept_def)
qed

lemma step_parts_flags:
  "flags_kept e (markReady e pid)" "flags_kept e (settlePeer env e pid)" "flags_kept e (sendBeacon env a rep e)"
  "flags_kept e (servicePeer now e pid)" "flags_kept e (pausePeer b e pid)"
  by (auto simp: flags_kept_def markReady_def settlePeer_def sendBeacon_def servicePeer_def pausePeer_def Let_def split_beta split: option.splits)

lemma loops_flags: "flags_kept e (serviceTimers now e)" "flags_kept e (updatePause e)"
proof -
  show "flags_kept e (serviceTimers now e)"
    unfolding serviceTimers_def by (rule flags.rel_foldl) (rule step_parts_flags)
  have "flags_kept e (foldl (pausePeer b) e pids)" for b pids and e :: "'a Engine"
    by (rule flags.rel_foldl) (rule step_parts_flags)
  then show "flags_kept e (updatePause e)"
    by (simp add: updatePause_def Let_def flags_kept_def)
qed


section \<open>The invariant\<close>

text \<open>
  \<open>down\<close>: the session has to be closed. A session that was told to close waits for a deadline, \<open>limit\<close> at the
  latest; one that ended is erased at the end of the step. The peers of \<open>X\<close> are those the shutdown has not come to yet.
\<close>

definition peer_closing :: "TimePoint \<Rightarrow> bool \<Rightarrow> Peer \<Rightarrow> bool" where
  "peer_closing limit down p \<longleftrightarrow>
     (p_closeSent p \<longrightarrow> p_state p = Closing \<and> (\<exists>d \<le> limit. p_stateDeadline p = Some d)) \<and> (down \<longrightarrow> p_closeSent p)"

definition closing :: "PeerId set \<Rightarrow> TimePoint \<Rightarrow> 'w Engine \<Rightarrow> bool" where
  "closing X limit e \<longleftrightarrow>
     (\<forall>pid p. findPeer pid e = Some p \<longrightarrow> peer_id (p_info p) = pid \<and>
        (if p_ended p then pid \<in> set (e_ended e) else peer_closing limit (e_shutdown e \<and> pid \<notin> X) p))"

lemma closingD:
  assumes "closing X limit e" and "findPeer pid e = Some p"
  shows "peer_id (p_info p) = pid" "p_ended p \<Longrightarrow> pid \<in> set (e_ended e)"
    "\<not> p_ended p \<Longrightarrow> peer_closing limit (e_shutdown e \<and> pid \<notin> X) p"
  using assms by (fastforce simp: closing_def)+

lemma closing_same:
  assumes "closing X limit e" and "same_core e e'" and "flags_kept e e'"
  shows "closing X limit e'"
  unfolding closing_def
proof (intro allI impI)
  fix pid p'
  assume p': "findPeer pid e' = Some p'"
  then obtain p where "findPeer pid e = Some p" "pview p' = pview p"
    using assms(2) unfolding same_core_def by (metis map_option_eq_Some)
  then show "peer_id (p_info p') = pid \<and>
      (if p_ended p' then pid \<in> set (e_ended e') else peer_closing limit (e_shutdown e' \<and> pid \<notin> X) p')"
    using closingD [OF assms(1), of pid p] assms(3) by (simp add: pview_def peer_closing_def flags_kept_def)
qed

text \<open>A change of one session that does not end it, and changes around it.\<close>

lemma closing_modify:
  assumes "closing X limit e"
    and "\<And>p. findPeer pid e = Some p \<Longrightarrow> peer_id (p_info (f p)) = peer_id (p_info p) \<and> p_ended (f p) = p_ended p \<and>
      (\<not> p_ended p \<longrightarrow> peer_closing limit (e_shutdown e \<and> pid \<notin> X) p \<longrightarrow> peer_closing limit (e_shutdown e \<and> pid \<notin> X) (f p))"
  shows "closing X limit (modifyPeer pid f e)"
  using assms by (auto simp: closing_def)

lemma closing_fields [simp]:
  "closing X limit (tellMailbox env g e) = closing X limit e" "closing X limit (touch pid e) = closing X limit e"
  "closing X limit (emit ev e) = closing X limit e" "closing X limit (snd (onMailbox env k e)) = closing X limit e"
  "closing X limit (destroyLink q e) = closing X limit e"
  "closing X limit (e\<lparr>e_world := w\<rparr>) = closing X limit e" "closing X limit (e\<lparr>e_byStream := s\<rparr>) = closing X limit e"
  "closing X limit (e\<lparr>e_scheduler := sc\<rparr>) = closing X limit e" "closing X limit (e\<lparr>e_discovery := di\<rparr>) = closing X limit e"
  "closing X limit (e\<lparr>e_beaconDue := b\<rparr>) = closing X limit e" "closing X limit (e\<lparr>e_checkInterface := b\<rparr>) = closing X limit e"
  "closing X limit (e\<lparr>e_inboxes := i\<rparr>) = closing X limit e" "closing X limit (e\<lparr>e_nextInbox := n\<rparr>) = closing X limit e"
  "closing X limit (e\<lparr>e_touched := ps\<rparr>) = closing X limit e" "closing X limit (e\<lparr>e_acksHeldBack := ps\<rparr>) = closing X limit e"
  "closing X limit (e\<lparr>e_socketFailed := b\<rparr>) = closing X limit e" "closing X limit (e\<lparr>e_peersChanged := b\<rparr>) = closing X limit e"
  "closing X limit (e\<lparr>e_budget := bu\<rparr>) = closing X limit e"
  by (simp_all add: closing_def findPeer_def)

lemma closing_mono: "closing X limit e \<Longrightarrow> limit \<le> limit' \<Longrightarrow> closing X limit' e"
  unfolding closing_def peer_closing_def by (meson order_trans)

lemma putLink_closing [simp]: "closing X limit e \<Longrightarrow> closing X limit (putLink pid l e)"
  unfolding putLink_def by (rule closing_modify) (auto simp: peer_closing_def)

lemma pushControl_closing [simp]: "closing X limit e \<Longrightarrow> closing X limit (pushControl pid t body e)"
  unfolding pushControl_def by (rule closing_modify) (auto simp: peer_closing_def)

lemma report_closing [simp]: "closing X limit e \<Longrightarrow> closing X limit (report pid r e)"
  by (auto simp: report_def peer_closing_def intro!: closing_modify split: option.splits)

lemma endPeer_find:
  "findPeer k (endPeer env pid e) = (if k = pid then map_option (\<lambda>p. p\<lparr>p_ended := True\<rparr>) (findPeer k e) else findPeer k e)"
  by (cases "findPeer pid e") (auto simp: endPeer_def Let_def findPeer_def)

lemma endPeer_closing: "closing X limit e \<Longrightarrow> closing X limit (endPeer env pid e)"
proof (cases "findPeer pid e")
  case (Some p)
  assume c: "closing X limit e"
  have "e_ended (endPeer env pid e) = e_ended e @ (if p_ended p then [] else [pid])" "e_shutdown (endPeer env pid e) = e_shutdown e"
    using Some closingD(1) [OF c Some] by (auto simp: endPeer_def Let_def)
  then show ?thesis
    using c Some closingD(2) [OF c Some] unfolding closing_def by (auto simp: endPeer_find)
qed (simp add: endPeer_def)

lemma erasePeer_find: "findPeer k (erasePeer env pid e) = (if k = pid then None else findPeer k e)"
  by (cases "findPeer pid e") (auto simp: erasePeer_def findPeer_def Let_def)

lemma erasePeer_fields [simp]: "e_ended (erasePeer env pid e) = e_ended e" "e_shutdown (erasePeer env pid e) = e_shutdown e"
  by (simp_all add: erasePeer_def Let_def split: option.splits)

lemma erasePeer_closing [simp]: "closing X limit e \<Longrightarrow> closing X limit (erasePeer env pid e)"
  by (simp add: closing_def erasePeer_find)

text \<open>The operations that change the state of a session.\<close>

lemma setConnected_closing:
  assumes "closing {} limit e" and "findPeer pid e = Some p" and "p_ended p \<or> p_state p = Connecting"
  shows "closing {} limit (setConnected env pid e)"
  using assms by (auto simp: setConnected_def Let_def peer_closing_def intro!: closing_modify)

lemma sendAccept_closing:
  assumes "closing {} limit e" and "findPeer pid e = Some p" and "p_ended p \<or> p_state p \<in> {AwaitingDecision, Connecting}"
  shows "closing {} limit (sendAccept env pid e)"
  using assms by (auto simp: sendAccept_def Let_def peer_closing_def pushControl_def intro!: closing_modify)

lemma closing_modify_insert:
  assumes "closing (insert pid X) limit e"
    and "\<And>p. findPeer pid e = Some p \<Longrightarrow> peer_id (p_info (f p)) = peer_id (p_info p) \<and> p_ended (f p) = p_ended p \<and>
      (\<not> p_ended p \<longrightarrow> peer_closing limit True (f p))"
  shows "closing X limit (modifyPeer pid f e)"
  unfolding closing_def
proof (intro allI impI)
  fix k q
  assume q: "findPeer k (modifyPeer pid f e) = Some q"
  have keep: "peer_closing limit down q" if "peer_closing limit True q" for down
    using that by (simp add: peer_closing_def)
  show "peer_id (p_info q) = k \<and> (if p_ended q then k \<in> set (e_ended (modifyPeer pid f e))
      else peer_closing limit (e_shutdown (modifyPeer pid f e) \<and> k \<notin> X) q)"
  proof (cases "k = pid")
    case True
    then obtain p where "findPeer pid e = Some p" "q = f p"
      using q by auto
    then show ?thesis
      using assms(2) [of p] closingD [OF assms(1), of pid p] True keep by auto
  next
    case False
    then show ?thesis
      using q closingD [OF assms(1), of k q] by auto
  qed
qed

lemma closing_drop:
  assumes "closing (insert pid X) limit e" and "\<And>p. findPeer pid e = Some p \<Longrightarrow> p_ended p \<or> p_closeSent p"
  shows "closing X limit e"
  unfolding closing_def
proof (intro allI impI)
  fix k p
  assume p: "findPeer k e = Some p"
  show "peer_id (p_info p) = k \<and> (if p_ended p then k \<in> set (e_ended e) else peer_closing limit (e_shutdown e \<and> k \<notin> X) p)"
    using closingD [OF assms(1) p] assms(2) [of p] p by (cases "k = pid") (auto simp: peer_closing_def)
qed

lemma sendDecline_closing:
  assumes "closing (insert pid X) limit e" and "\<And>p. findPeer pid e = Some p \<Longrightarrow> \<not> p_ended p \<Longrightarrow> now + CloseLinger \<le> limit"
  shows "closing X limit (sendDecline env pid now e)"
proof (cases "findPeer pid e")
  case None
  then show ?thesis
    using closing_drop [OF assms(1)] by (simp add: sendDecline_def)
next
  case (Some p)
  let ?e = "report pid DisconnectReason.Local (pushControl pid CtDecline (encodeDecline \<lparr>reason = DeclineReason.Declined, decline_text = []\<rparr>) e)"
  let ?f = "\<lambda>p. p\<lparr>p_state := Closing, p_closeSent := True, p_stateDeadline := Some (now + CloseLinger)\<rparr>"
  have "closing X limit (modifyPeer pid ?f ?e)"
  proof (rule closing_modify_insert)
    show "closing (insert pid X) limit ?e"
      using assms(1) by simp
    show "peer_id (p_info (?f q)) = peer_id (p_info q) \<and> p_ended (?f q) = p_ended q \<and> (\<not> p_ended q \<longrightarrow> peer_closing limit True (?f q))"
      if "findPeer pid ?e = Some q" for q
      using that assms(2) [OF Some] Some by (auto simp: peer_closing_def report_def pushControl_def split: if_splits)
  qed
  then show ?thesis
    using Some by (simp add: sendDecline_def Let_def)
qed

lemma sendClose_closing:
  assumes "closing (insert pid X) limit e" and "\<And>p. findPeer pid e = Some p \<Longrightarrow> \<not> p_ended p \<Longrightarrow> now + CloseLinger \<le> limit"
  shows "closing X limit (sendClose env pid now e)"
proof (cases "findPeer pid e")
  case None
  then show ?thesis
    using closing_drop [OF assms(1)] by (simp add: sendClose_def)
next
  case (Some p)
  let ?e = "tellMailbox env (close_mail (peer_id (p_info p))) e"
  let ?f = "\<lambda>p. p\<lparr>p_state := Closing, p_closeSent := True, p_stateDeadline := Some (now + CloseLinger)\<rparr>"
  have pushed: "closing (insert pid X) limit (pushControl pid CtClose (encodeClose 0) ?e)"
    using assms(1) by simp
  have "closing X limit (modifyPeer pid ?f (pushControl pid CtClose (encodeClose 0) ?e))"
    by (rule closing_modify_insert [OF pushed])
       (use assms(2) Some in \<open>auto simp: peer_closing_def pushControl_def\<close>)
  moreover have "closing X limit (endPeer env pid ?e)"
    by (rule closing_drop [OF endPeer_closing]) (use assms(1) Some in \<open>auto simp: endPeer_find\<close>)
  ultimately show ?thesis
    using Some by (simp add: sendClose_def Let_def)
qed

lemma closing_weaken: "closing {} limit e \<Longrightarrow> closing {pid} limit e"
  unfolding closing_def peer_closing_def by fastforce


section \<open>Commands\<close>

text \<open>
  Deadlines that are set from now on are within the limit, as long as any can be set: once the shutdown has begun
  none is.
\<close>

definition within_limit :: "TimePoint \<Rightarrow> TimePoint \<Rightarrow> 'w Engine \<Rightarrow> bool" where
  "within_limit limit now e \<longleftrightarrow> e_shutdown e \<or> now + CloseLinger \<le> limit"

lemma open_within_limit:
  assumes "closing {} limit e" "within_limit limit now e" and "findPeer pid e = Some p" "\<not> p_ended p" "\<not> p_closeSent p"
  shows "\<not> e_shutdown e" "now + CloseLinger \<le> limit"
  using closingD(3) [OF assms(1,3,4)] assms(2,5) by (auto simp: peer_closing_def within_limit_def)

lemma closeSent_state: "closing {} limit e \<Longrightarrow> findPeer pid e = Some p \<Longrightarrow> \<not> p_ended p \<Longrightarrow> p_closeSent p \<Longrightarrow> p_state p = Closing"
  using closingD(3) [of "{}" limit e pid p] by (simp add: peer_closing_def)

lemma endSession_closing:
  assumes c: "closing {} limit e" "within_limit limit now e"
  shows "closing {} limit (endSession env pid now e)"
proof (cases "findPeer pid e")
  case (Some p)
  have now: "now + CloseLinger \<le> limit" if "\<not> p_ended p" "p_state p \<noteq> Closing"
    using open_within_limit(2) [OF c Some that(1)] closeSent_state [OF c(1) Some that(1)] that(2) by blast
  show ?thesis
  proof (cases "p_state p")
    case Connected
    have "closing {} limit (modifyPeer pid (\<lambda>p. p\<lparr>p_state := Closing, p_stateDeadline := Some (now + DrainTimeout)\<rparr>) e)"
      by (rule closing_modify [OF c(1)]) (use Some Connected in \<open>auto simp: peer_closing_def\<close>)
    then show ?thesis
      using Some Connected by (simp add: endSession_def)
  next
    case AwaitingDecision
    then show ?thesis
      using Some now by (auto simp: endSession_def intro!: sendDecline_closing closing_weaken [OF c(1)])
  next
    case Connecting
    have "closing {pid} limit (report pid DisconnectReason.Local e)"
      by (simp add: closing_weaken [OF c(1)])
    then have "closing {} limit (sendClose env pid now (report pid DisconnectReason.Local e))"
      by (rule sendClose_closing) (use Some now Connecting in \<open>auto simp: report_def split: if_splits\<close>)
    then show ?thesis
      using Some Connecting by (simp add: endSession_def)
  qed (use Some c in \<open>simp add: endSession_def\<close>)
qed (use c in \<open>simp add: endSession_def\<close>)

lemma shutdownPeer_closing:
  assumes "closing (insert pid X) limit e" and "now + CloseLinger \<le> limit"
  shows "closing X limit (shutdownPeer env now e pid)"
proof -
  define e1 where "e1 = report pid DisconnectReason.Shutdown e"
  have c: "closing (insert pid X) limit e1"
    using assms(1) by (simp add: e1_def)
  show ?thesis
    using sendDecline_closing [OF c, of now env] sendClose_closing [OF c, of now env] closing_drop [OF c] assms(2)
    by (cases "findPeer pid e1") (auto simp: shutdownPeer_def e1_def [symmetric] Let_def)
qed

lemma shutdown_kept: "e_shutdown (sendDecline env pid now e) = e_shutdown e" "e_shutdown (sendClose env pid now e) = e_shutdown e"
  "e_shutdown (endPeer env pid e) = e_shutdown e" "e_shutdown (setConnected env pid e) = e_shutdown e" "e_shutdown (sendAccept env pid e) = e_shutdown e"
  "e_shutdown (shutdownPeer env now e pid) = e_shutdown e"
  by (simp_all add: sendDecline_def sendClose_def endPeer_def setConnected_def sendAccept_def shutdownPeer_def Let_def split: option.splits)

lemma shutdownPeers_closing:
  "closing (set pids \<union> X) limit e \<Longrightarrow> now + CloseLinger \<le> limit \<Longrightarrow> closing X limit (foldl (shutdownPeer env now) e pids)"
proof (induction pids arbitrary: e)
  case (Cons pid pids)
  then show ?case
    using shutdownPeer_closing [of pid "set pids \<union> X" limit e now env] by simp
qed simp

lemma beginShutdown_closing:
  assumes c: "closing {} limit e" "within_limit limit now e"
  shows "closing {} limit (beginShutdown env now e) \<and> e_shutdown (beginShutdown env now e)"
proof (cases "e_shutdown e")
  case False
  let ?e = "e\<lparr>e_shutdown := True, e_discovery := setAnnouncing False (e_discovery e)\<rparr>"
  have "closing (set (om_keys (e_peers e)) \<union> {}) limit ?e"
    using c(1) map_of_None_keys [of "e_peers e"] unfolding closing_def peer_closing_def
    by (auto simp: findPeer_def False) (metis option.distinct(1))
  then have "closing {} limit (foldl (shutdownPeer env now) ?e (om_keys (e_peers e)))"
    by (rule shutdownPeers_closing) (use c(2) False in \<open>simp add: within_limit_def\<close>)
  moreover have "e_shutdown (foldl (shutdownPeer env now) ?e pids)" for pids
    by (rule foldl_invariant) (simp_all add: shutdown_kept)
  ultimately show ?thesis
    using False by (simp add: beginShutdown_def Let_def)
qed (use c in \<open>simp add: beginShutdown_def\<close>)

lemma addPeer_closing:
  assumes c: "closing {} limit e" "\<not> e_shutdown e" and added: "addPeer env who a now e = Some e'"
  shows "closing {} limit e' \<and> \<not> e_shutdown e' \<and>
    (findPeer (peer_id who) e = None \<longrightarrow> (\<exists>p. findPeer (peer_id who) e' = Some p \<and> p_state p = Connecting \<and> \<not> p_closeSent p))"
proof -
  obtain sid w where fresh: "freshStreamID env (e_byStream e) (e_world e) = Some (sid, w)"
    using added by (auto simp: addPeer_def Option.bind_eq_Some_conv)
  define e1 where "e1 = (if findPeer (peer_id who) e = None
    then e\<lparr>e_world := w, e_peers := om_put (peer_id who) (newPeer who a (cfg_timings (e_config e)) sid (e_budget e)) (e_peers e)\<rparr>
    else e\<lparr>e_world := w\<rparr>)"
  let ?f = "\<lambda>p. p\<lparr>p_link := setPaused (e_paused e1) (supervise now (p_link p))\<rparr>"
  have e': "e' = touch (peer_id who) ((modifyPeer (peer_id who) ?f e1)\<lparr>e_byStream := om_put sid (peer_id who) (e_byStream e1)\<rparr>)"
    using added fresh by (auto simp: addPeer_def Let_def e1_def findPeer_def modifyPeer_def)
  have "peer_closing limit False (newPeer who a (cfg_timings (e_config e)) sid (e_budget e))"
    by (simp add: peer_closing_def)
  moreover have "findPeer k e1 = (if k = peer_id who \<and> findPeer k e = None
      then Some (newPeer who a (cfg_timings (e_config e)) sid (e_budget e)) else findPeer k e)" "e_ended e1 = e_ended e" for k
    by (auto simp: e1_def findPeer_def)
  moreover have down: "\<not> e_shutdown e1"
    using c(2) by (simp add: e1_def)
  ultimately have "closing {} limit e1"
    using closingD [OF c(1)] c(2) unfolding closing_def by (auto split: if_splits)
  then have "closing {} limit (modifyPeer (peer_id who) ?f e1)"
    by (rule closing_modify) (auto simp: peer_closing_def)
  then show ?thesis
    using down by (auto simp: e' e1_def findPeer_def)
qed

lemma openSession_closing:
  assumes c: "closing {} limit e" "\<not> e_shutdown e" and "openSession env pid now e = Some e'"
  shows "closing {} limit e' \<and> \<not> e_shutdown e'"
proof (cases "find_known (e_discovery e) pid = None \<or> e_socket e = None \<or> length (e_peers e) \<ge> MaxPeers")
  case True
  then show ?thesis
    using assms by (auto simp: openSession_def split: option.splits if_splits)
next
  case False
  then obtain known e1 where known: "find_known (e_discovery e) pid = Some known"
    and e1: "addPeer env (info known) (endpoint known) now e = Some e1"
    using assms(3) by (auto simp: openSession_def Option.bind_eq_Some_conv split: option.splits)
  have c1: "closing {} limit e1" "\<not> e_shutdown e1"
    using addPeer_closing [OF c e1] by auto
  have "closing {} limit (modifyPeer (peer_id (info known)) (\<lambda>p. p\<lparr>p_initiator := True, p_announced := True\<rparr>) e1)"
    by (rule closing_modify [OF c1(1)]) (auto simp: peer_closing_def)
  then show ?thesis
    using assms(3) False known e1 c1(2) by (auto simp: openSession_def Let_def)
qed

lemma startSession_closing:
  assumes c: "closing {} limit e" and "startSession env pid now e = Some e'"
  shows "closing {} limit e' \<and> e_shutdown e' = e_shutdown e"
proof (cases "e_shutdown e")
  case False
  have reopened: "closing {} limit e' \<and> \<not> e_shutdown e'" if "openSession env pid now (erasePeer env pid e) = Some e'"
    using openSession_closing [OF _ _ that, of limit] c False by simp
  show ?thesis
  proof (cases "findPeer pid e")
    case None
    then show ?thesis
      using assms(2) False openSession_closing [OF c False, of env pid now e'] by (simp add: startSession_def)
  next
    case (Some p)
    have "closing {} limit (sendAccept env pid e)" if "p_state p = AwaitingDecision"
      using that by (intro sendAccept_closing [OF c Some]) simp
    then show ?thesis
      using assms(2) False Some c reopened by (auto simp: startSession_def shutdown_kept split: if_splits)
  qed
qed (use assms in \<open>simp add: startSession_def\<close>)

definition closing_well :: "TimePoint \<Rightarrow> TimePoint \<Rightarrow> 'w Engine \<Rightarrow> bool" where
  "closing_well limit now e \<longleftrightarrow> closing {} limit e \<and> within_limit limit now e"

lemma closing_wellI: "closing {} limit e' \<Longrightarrow> e_shutdown e' = e_shutdown e \<Longrightarrow> closing_well limit now e \<Longrightarrow> closing_well limit now e'"
  by (simp add: closing_well_def within_limit_def)

lemma closing_well_same: "closing_well limit now e \<Longrightarrow> same_core e e' \<Longrightarrow> flags_kept e e' \<Longrightarrow> closing_well limit now e'"
  by (rule closing_wellI [OF closing_same [of "{}" limit e]]) (simp_all add: closing_well_def flags_kept_def)

lemma endSession_shutdown: "e_shutdown (endSession env pid now e) = e_shutdown e"
  by (simp add: endSession_def shutdown_kept split: option.splits PeerState.splits)

lemma apply_closing:
  assumes c: "closing_well limit now e" and applied: "apply_command env now cmd e = Some e'"
  shows "closing_well limit now e' \<and> (e_shutdown e \<longrightarrow> e_shutdown e')"
proof -
  have closing: "closing {} limit e" "within_limit limit now e"
    using c by (simp_all add: closing_well_def)
  have decided: "now + CloseLinger \<le> limit" if "findPeer pid e = Some p" "p_state p = AwaitingDecision" "\<not> p_ended p" for pid p
    using open_within_limit(2) [OF closing that(1,3)] closeSent_state [OF closing(1) that(1,3)] that(2) by auto
  have accepted: "closing {} limit (sendAccept env pid e)" if "findPeer pid e = Some p" "p_state p = AwaitingDecision" for pid p
    using that by (intro sendAccept_closing [OF closing(1)]) auto
  have declined: "closing {} limit (sendDecline env pid now e)" if "findPeer pid e = Some p" "p_state p = AwaitingDecision" for pid p
    using that decided by (intro sendDecline_closing closing_weaken [OF closing(1)]) auto
  have "closing {} limit e' \<and> (e_shutdown e \<longrightarrow> e_shutdown e') \<and> (e_shutdown e' \<noteq> e_shutdown e \<longrightarrow> e_shutdown e')"
    using applied closing accepted declined startSession_closing [OF closing(1)] endSession_closing [OF closing] beginShutdown_closing [OF closing]
    by (cases "fst cmd") (auto simp: apply_command_def Let_def shutdown_kept endSession_shutdown split: if_splits option.splits)
  then show ?thesis
    using c by (auto simp: closing_well_def within_limit_def)
qed

lemma stepCommands_closing:
  assumes c: "closing_well limit now e" and "stepCommands env now e = Some e'"
  shows "closing_well limit now e' \<and> (e_shutdown e \<longrightarrow> e_shutdown e')"
proof -
  let ?e = "e\<lparr>e_touched := e_acksHeldBack e, e_acksHeldBack := []\<rparr>"
  obtain work e1 where drained: "onMailbox env drain ?e = (work, e1)"
    by (cases "onMailbox env drain ?e")
  have "closing_well limit now (snd (onMailbox env drain ?e))"
    using c by (simp add: closing_well_def within_limit_def)
  then have e1: "closing_well limit now e1" "e_shutdown e1 = e_shutdown e"
    using drained onMailbox_fields(12) [of env drain ?e] by simp_all
  obtain e2 where e2: "foldM (apply_command env now) (work_commands work) e1 = Some e2" "e' = foldl markReady e2 (work_ready work)"
    using assms(2) drained by (auto simp: stepCommands_def Let_def Option.bind_eq_Some_conv)
  have "closing_well limit now e2 \<and> (e_shutdown e1 \<longrightarrow> e_shutdown e2)"
    by (rule foldM_invariant [where P = "\<lambda>e2. closing_well limit now e2 \<and> (e_shutdown e1 \<longrightarrow> e_shutdown e2)", OF e2(1)])
       (use e1 apply_closing in blast)+
  moreover have "same_core e2 e'" "flags_kept e2 e'"
    unfolding e2(2) by (rule core.rel_foldl, rule markReady_core) (rule flags.rel_foldl, rule step_parts_flags)
  ultimately show ?thesis
    using closing_well_same e1(2) by (auto simp: flags_kept_def)
qed

section \<open>Sessions\<close>

text \<open>A session that ended stays ended.\<close>

definition ended_in :: "PeerId \<Rightarrow> 'w Engine \<Rightarrow> bool" where
  "ended_in pid e \<longleftrightarrow> (\<forall>p. findPeer pid e = Some p \<longrightarrow> p_ended p)"

definition ends_kept :: "'w Engine \<Rightarrow> 'w Engine \<Rightarrow> bool" where
  "ends_kept e e' \<longleftrightarrow> (\<forall>pid. ended_in pid e \<longrightarrow> ended_in pid e') \<and> e_shutdown e' = e_shutdown e"

interpretation ends: engine_preorder ends_kept
  by unfold_locales (simp_all add: ends_kept_def)

lemma ends_kept_same:
  assumes "same_core e e'" and "flags_kept e e'"
  shows "ends_kept e e'"
proof -
  have "p_ended p'" if ended: "ended_in pid e" and found: "findPeer pid e' = Some p'" for pid p'
  proof -
    obtain p where "findPeer pid e = Some p" "pview p' = pview p"
      using assms(1) found unfolding same_core_def by (metis map_option_eq_Some)
    then show ?thesis
      using ended by (simp add: ended_in_def pview_def)
  qed
  then show ?thesis
    using assms(2) by (auto simp: ends_kept_def ended_in_def flags_kept_def)
qed

lemma ends_kept_modify: "(\<And>p. p_ended (f p) = p_ended p) \<Longrightarrow> ends_kept e (modifyPeer pid f e)"
  by (auto simp: ends_kept_def ended_in_def)

lemma ends_kept_fields [simp]:
  "ends_kept e (tellMailbox env g e1) = ends_kept e e1" "ends_kept e (touch pid e1) = ends_kept e e1"
  "ends_kept e (emit ev e1) = ends_kept e e1" "ends_kept e (snd (onMailbox env k e1)) = ends_kept e e1"
  "ends_kept e (e1\<lparr>e_ended := ps\<rparr>) = ends_kept e e1" "ends_kept e (e1\<lparr>e_budget := bu\<rparr>) = ends_kept e e1"
  "ends_kept e (e1\<lparr>e_inboxes := i\<rparr>) = ends_kept e e1" "ends_kept e (e1\<lparr>e_nextInbox := n\<rparr>) = ends_kept e e1"
  by (simp_all add: ends_kept_def ended_in_def findPeer_def)

lemma ends_kept_modify_after: "ends_kept e e1 \<Longrightarrow> (\<And>p. p_ended p \<Longrightarrow> p_ended (f p)) \<Longrightarrow> ends_kept e (modifyPeer pid f e1)"
  by (auto simp: ends_kept_def ended_in_def)

lemma putLink_ends_kept [simp]: "ends_kept e (putLink pid l e)"
  unfolding putLink_def by (rule ends_kept_modify_after) (simp_all add: ends.rel_refl)

lemma pushControl_ends_kept [simp]: "ends_kept e (pushControl pid t body e)"
  unfolding pushControl_def by (rule ends_kept_modify_after) (simp_all add: ends.rel_refl)

lemma report_ends_kept [simp]: "ends_kept e (report pid r e)"
  by (simp add: report_def ends.rel_refl ends_kept_modify_after split: option.split)

lemma setConnected_ends_kept [simp]: "ends_kept e (setConnected env pid e)"
  by (simp add: setConnected_def Let_def ends.rel_refl ends_kept_modify_after split: option.split)

lemma endPeer_ends_kept [simp]: "ends_kept e (endPeer env pid e)"
  by (simp add: endPeer_def Let_def ends.rel_refl ends_kept_modify_after split: option.split)

lemma sendDecline_ends_kept [simp]: "ends_kept e (sendDecline env pid now e)"
proof -
  have "ends_kept e (report pid r (pushControl pid t body e))" for r t body
    using ends.rel_trans [OF pushControl_ends_kept report_ends_kept] .
  then show ?thesis
    by (simp add: sendDecline_def Let_def ends.rel_refl ends_kept_modify_after split: option.split)
qed

lemma sendClose_ends_kept [simp]: "ends_kept e (sendClose env pid now e)"
proof -
  have told: "ends_kept e (tellMailbox env g e)" for g
    by (simp add: ends.rel_refl)
  have "ends_kept e (endPeer env pid (tellMailbox env g e))" "ends_kept e (pushControl pid t body (tellMailbox env g e))" for g t body
    using ends.rel_trans [OF told endPeer_ends_kept] ends.rel_trans [OF told pushControl_ends_kept] .
  then show ?thesis
    by (simp add: sendClose_def Let_def ends.rel_refl ends_kept_modify_after split: option.split)
qed

lemma onControl_closing:
  assumes c: "closing {} limit e"
  shows "closing {} limit (onControl env pid msg e) \<and> ends_kept e (onControl env pid msg e)"
proof (cases "findPeer pid e")
  case (Some p)
  let ?f = "\<lambda>n p. p\<lparr>p_info := (p_info p)\<lparr>displayName := n\<rparr>\<rparr>"
  have named: "closing {} limit (modifyPeer pid (?f n) e)" "ends_kept e (modifyPeer pid (?f n) e)" for n
    by (rule closing_modify [OF c], simp add: peer_closing_def) (rule ends_kept_modify, simp)
  have connected: "closing {} limit (setConnected env pid e1) \<and> ends_kept e (setConnected env pid e1)"
    if st: "p_state p = Connecting" and e1: "e1 = e \<or> (\<exists>n. e1 = modifyPeer pid (?f n) e)" for e1
  proof -
    obtain p1 where "findPeer pid e1 = Some p1" "p_state p1 = Connecting" "closing {} limit e1" "ends_kept e e1"
      using st e1 Some named c by (auto simp: ends.rel_refl)
    then show ?thesis
      using setConnected_closing [of limit e1 pid p1 env] ends.rel_trans [of e e1] setConnected_ends_kept by blast
  qed
  have ended: "closing {} limit (endPeer env pid (report pid r e)) \<and> ends_kept e (endPeer env pid (report pid r e))" for r
    using c ends.rel_trans [OF report_ends_kept endPeer_ends_kept] by (simp add: endPeer_closing)
  have same: "closing {} limit e \<and> ends_kept e e"
    using c by (simp add: ends.rel_refl)
  show ?thesis
  proof (cases "p_ended p \<or> dm_tag msg = control_value CtHello \<or> dm_tag msg \<notin> {control_value CtAccept, control_value CtDecline, control_value CtClose}")
    case True
    then show ?thesis
      using Some same by (auto simp: onControl_def)
  next
    case False
    define e1 where "e1 = (case decodeAccept (dm_body msg) of
        Some a \<Rightarrow> if accept_name a \<noteq> [] \<and> length (accept_name a) \<le> MaxDisplayName then modifyPeer pid (?f (accept_name a)) e else e
      | None \<Rightarrow> e)"
    have "e1 = e \<or> (\<exists>n. e1 = modifyPeer pid (?f n) e)"
      by (auto simp: e1_def split: option.split)
    then have "p_state p = Connecting \<Longrightarrow> closing {} limit (setConnected env pid e1) \<and> ends_kept e (setConnected env pid e1)"
      using connected by blast
    then show ?thesis
      using Some same ended False by (simp add: onControl_def e1_def [symmetric])
  qed
qed (use c in \<open>simp add: onControl_def ends.rel_refl\<close>)

lemma deliverMessage_closing:
  assumes c: "closing {} limit e"
  shows "closing {} limit (deliverMessage env pid e msg) \<and> ends_kept e (deliverMessage env pid e msg)"
proof (cases "dm_lane msg = Control")
  case False
  have "closing {} limit (snd (inboxOf pid p e)) \<and> ends_kept e (snd (inboxOf pid p e))" for p
  proof -
    let ?e = "e\<lparr>e_nextInbox := e_nextInbox e + 1, e_inboxes := (e_inboxes e)(e_nextInbox e := [])\<rparr>"
    have "closing {} limit (modifyPeer pid (\<lambda>p. p\<lparr>p_media := Some (e_nextInbox e)\<rparr>) ?e)"
      by (rule closing_modify) (use c in \<open>simp_all add: peer_closing_def\<close>)
    moreover have "ends_kept e (modifyPeer pid (\<lambda>p. p\<lparr>p_media := Some (e_nextInbox e)\<rparr>) ?e)"
      by (rule ends_kept_modify_after) (simp_all add: ends.rel_refl)
    ultimately show ?thesis
      using c by (auto simp: inboxOf_def Let_def ends.rel_refl split: option.splits)
  qed
  then show ?thesis
    using False c by (cases "findPeer pid e") (auto simp: deliverMessage_def Let_def split_beta ends.rel_refl)
qed (use onControl_closing [OF c] in \<open>simp add: deliverMessage_def\<close>)

lemma advanceState_closing:
  assumes c: "closing_well limit now e"
  shows "closing_well limit now (advanceState env pid now e) \<and> ends_kept e (advanceState env pid now e)"
proof (cases "findPeer pid e")
  case (Some p)
  have closing: "closing {} limit e" "within_limit limit now e"
    using c by (simp_all add: closing_well_def)
  have now: "now + CloseLinger \<le> limit" if "\<not> p_ended p" "\<not> p_closeSent p"
    using open_within_limit(2) [OF closing Some that] .
  have declined: "closing {} limit (sendDecline env pid now e)" if "p_state p = AwaitingDecision" "\<not> p_ended p"
    using that now closeSent_state [OF closing(1) Some] Some by (intro sendDecline_closing closing_weaken [OF closing(1)]) auto
  have finished: "closing {} limit (finishClosing env pid now e1) \<and> ends_kept e (finishClosing env pid now e1)"
    if "closing {} limit e1" "ends_kept e e1" "findPeer pid e1 = Some p" "\<not> p_ended p" "\<not> p_closeSent p" for e1
  proof -
    have "closing {} limit (sendClose env pid now (report pid DisconnectReason.Local e1))"
      using that now by (intro sendClose_closing) (auto simp: closing_weaken)
    moreover have "ends_kept e1 (finishClosing env pid now e1)"
      unfolding finishClosing_def using ends.rel_trans [OF report_ends_kept sendClose_ends_kept] .
    ultimately show ?thesis
      using that(2) ends.rel_trans by (auto simp: finishClosing_def)
  qed
  have "closing {} limit (advanceState env pid now e) \<and> ends_kept e (advanceState env pid now e)"
    using Some closing(1) declined finished [of e] finished [of "snd (onMailbox env (settle (peer_id (p_info p))) e)"]
      setConnected_closing [OF closing(1) Some, of env] endPeer_closing [OF closing(1)]
    by (auto simp: advanceState_def Let_def ends.rel_refl split_beta split: PeerState.splits if_splits)
  then show ?thesis
    using c closing_wellI [of limit "advanceState env pid now e" e now] by (simp add: ends_kept_def)
qed (use c in \<open>simp add: advanceState_def ends.rel_refl\<close>)

lemma deliverAll_closing:
  "closing {} limit e \<Longrightarrow> closing {} limit (foldl (deliverMessage env pid) e ms) \<and> ends_kept e (foldl (deliverMessage env pid) e ms)"
proof (induction ms arbitrary: e)
  case (Cons m ms)
  then show ?case
    using deliverMessage_closing [of limit e env pid m] ends.rel_trans by (metis foldl_Cons)
qed (simp add: ends.rel_refl)

text \<open>Once the time has come, \<open>advance\<close> ends a session of an engine that shuts down.\<close>

lemma advanceState_ends:
  assumes c: "closing {} limit e" "e_shutdown e" "limit \<le> now"
  shows "ended_in pid (advanceState env pid now e)"
proof (cases "findPeer pid e")
  case (Some p)
  show ?thesis
  proof (cases "p_ended p")
    case False
    have "peer_closing limit True p"
      using closingD(3) [OF c(1) Some False] c(2) by simp
    then obtain d where "p_closeSent p" "p_state p = Closing" "p_stateDeadline p = Some d" "d \<le> now"
      using c(3) by (auto simp: peer_closing_def)
    then show ?thesis
      using Some False by (simp add: advanceState_def ended_in_def endPeer_find)
  qed (use Some in \<open>simp add: advanceState_def ended_in_def\<close>)
qed (simp add: advanceState_def ended_in_def)

lemma advance_closing:
  assumes c: "closing_well limit now e"
  shows "closing_well limit now (advance env pid now e)" "ends_kept e (advance env pid now e)"
    "e_shutdown e \<Longrightarrow> limit \<le> now \<Longrightarrow> ended_in pid (advance env pid now e)"
proof -
  have closing: "closing {} limit e"
    using c by (simp add: closing_well_def)
  have lost: "closing_well limit now (endPeer env pid (report pid r e))" "ends_kept e (endPeer env pid (report pid r e))"
    "ended_in pid (endPeer env pid (report pid r e))" for r
  proof -
    show kept: "ends_kept e (endPeer env pid (report pid r e))"
      using ends.rel_trans [OF report_ends_kept endPeer_ends_kept] .
    show "closing_well limit now (endPeer env pid (report pid r e))"
      using kept closing by (intro closing_wellI [OF _ _ c] endPeer_closing) (simp_all add: ends_kept_def)
    show "ended_in pid (endPeer env pid (report pid r e))"
      by (auto simp: ended_in_def endPeer_find)
  qed
  have "closing_well limit now (advance env pid now e) \<and> ends_kept e (advance env pid now e) \<and>
    (e_shutdown e \<and> limit \<le> now \<longrightarrow> ended_in pid (advance env pid now e))"
  proof (cases "findPeer pid e")
    case (Some p)
    obtain messages l where taken: "takeDelivered (linkOf p e) = (messages, l)"
      by fastforce
    define e2 where "e2 = foldl (deliverMessage env pid) (putLink pid l e) messages"
    have e2: "closing {} limit e2" "ends_kept e e2"
      using deliverAll_closing [of limit "putLink pid l e" env pid messages] closing ends.rel_trans [OF putLink_ends_kept]
      by (auto simp: e2_def)
    then have "closing_well limit now e2" "e_shutdown e2 = e_shutdown e"
      using closing_wellI [of limit e2 e now] c by (auto simp: ends_kept_def)
    then show ?thesis
      using Some taken c lost advanceState_closing [of limit now e2 env pid] ends.rel_trans [OF e2(2)] advanceState_ends [OF e2(1), of now pid env]
      by (auto simp: advance_def e2_def [symmetric] ends.rel_refl ended_in_def)
  qed (use c in \<open>simp add: advance_def ends.rel_refl ended_in_def\<close>)
  then show "closing_well limit now (advance env pid now e)" "ends_kept e (advance env pid now e)"
    "e_shutdown e \<Longrightarrow> limit \<le> now \<Longrightarrow> ended_in pid (advance env pid now e)"
    by blast+
qed

lemma servePeer_closing:
  assumes c: "closing_well limit now e" and "servePeer env now pid e = Some e'"
  shows "closing_well limit now e'" "ends_kept e e'" "e_shutdown e \<Longrightarrow> limit \<le> now \<Longrightarrow> ended_in pid e'"
proof -
  have "closing_well limit now e' \<and> ends_kept e e' \<and> (e_shutdown e \<and> limit \<le> now \<longrightarrow> ended_in pid e')"
  proof (cases "findPeer pid e")
    case (Some p)
    then obtain e1 where e1: "sendAcks env pid (advance env pid now e) = Some e1"
      and e': "e' = (case findPeer pid e1 of None \<Rightarrow> e1 | Some p \<Rightarrow> if p_ended p then e1 else schedule env pid e1)"
      using assms(2) by (auto simp: servePeer_def Option.bind_eq_Some_conv)
    have same: "same_core (advance env pid now e) e1" "flags_kept (advance env pid now e) e1"
      using sendAcks_core [OF e1] sendAcks_flags [OF e1] .
    have "closing_well limit now e1" "ends_kept e e1"
      using closing_well_same [OF advance_closing(1) [OF c] same] ends.rel_trans [OF advance_closing(2) [OF c] ends_kept_same [OF same]] .
    moreover have "e_shutdown e \<and> limit \<le> now \<longrightarrow> ended_in pid e1"
      using advance_closing(3) [OF c] ends_kept_same [OF same] by (auto simp: ends_kept_def)
    moreover have "closing_well limit now (schedule env pid e1)" "ends_kept e1 (schedule env pid e1)"
      using closing_well_same [OF calculation(1) schedule_core schedule_flags] ends_kept_same [OF schedule_core schedule_flags] .
    ultimately show ?thesis
      using ends.rel_trans by (auto simp: e' ends_kept_def split: option.splits)
  qed (use assms in \<open>simp add: servePeer_def ends.rel_refl ended_in_def\<close>)
  then show "closing_well limit now e'" "ends_kept e e'" "e_shutdown e \<Longrightarrow> limit \<le> now \<Longrightarrow> ended_in pid e'"
    by blast+
qed


section \<open>The adapter and receiving\<close>

text \<open>What does not change the sessions at all.\<close>

definition sessions_kept :: "'w Engine \<Rightarrow> 'w Engine \<Rightarrow> bool" where
  "sessions_kept e e' \<longleftrightarrow> e_peers e' = e_peers e \<and> flags_kept e e'"

interpretation sessions: engine_preorder sessions_kept
  by unfold_locales (simp_all add: sessions_kept_def flags_kept_def)

lemma closing_kept: "closing X limit e \<Longrightarrow> sessions_kept e e' \<Longrightarrow> closing X limit e'"
  by (simp add: closing_def sessions_kept_def flags_kept_def findPeer_def)

lemma lost_kept:
  "sessions_kept e (foldl (\<lambda>e pid. emit (newEvent PeerLost pid) e) e lost)"
  "sessions_kept e (foldl (\<lambda>e pid. (emit (newEvent PeerLost pid) e)\<lparr>e_peersChanged := True\<rparr>) e lost)"
  by (rule sessions.rel_foldl, simp add: sessions_kept_def flags_kept_def emit_def)+

lemma sockets_kept: "sessions_kept e (engine_bind env n iface e)" "sessions_kept e (closeSockets env e)"
  by (simp_all add: sessions_kept_def flags_kept_def engine_bind_def closeSockets_def Let_def split_beta split: option.split)

lemma tick_kept: "sessions_kept e (tick now e)"
proof -
  obtain lost d where "expire now (\<lambda>pid. findPeer pid (e\<lparr>e_nextTick := Some (now + BeaconInterval), e_beaconDue := True\<rparr>) \<noteq> None)
      (e_discovery e) = (lost, d)"
    by fastforce
  then show ?thesis
    using lost_kept(2) [of "e\<lparr>e_nextTick := Some (now + BeaconInterval), e_beaconDue := True, e_discovery := d\<rparr>" lost]
    by (simp add: tick_def Let_def sessions_kept_def flags_kept_def)
qed

lemma endAllSessions_none:
  "e_peers (endAllSessions env r e) = []" "e_shutdown (endAllSessions env r e) = e_shutdown e"
proof -
  have "e_shutdown (foldl (dropSession env r) e pids) = e_shutdown e" for pids
    by (rule foldl_invariant) (simp_all add: dropSession_def)
  moreover have "e_shutdown (foldl (\<lambda>e p. destroyLink p e) e' ps) = e_shutdown e'" for ps and e' :: "'a Engine"
    by (rule foldl_invariant) (simp_all add: destroyLink_def)
  ultimately show "e_peers (endAllSessions env r e) = []" "e_shutdown (endAllSessions env r e) = e_shutdown e"
    by (simp_all add: endAllSessions_def Let_def)
qed

lemma updateInterface_closing:
  assumes c: "closing {} limit e"
  shows "closing {} limit (updateInterface env n failed e) \<and> e_shutdown (updateInterface env n failed e) = e_shutdown e"
proof -
  obtain current w where asked: "env_localInterface env (e_world e) = (current, w)"
    by fastforce
  obtain lost d where cleared: "clear (e_discovery e) = (lost, d)"
    by fastforce
  let ?r = "if current \<noteq> e_interface e then DisconnectReason.Local else DisconnectReason.NetworkError"
  define e1 where "e1 = e\<lparr>e_checkInterface := False, e_world := w\<rparr>"
  define e2 where "e2 = (if e_socket e \<noteq> None then endAllSessions env ?r e1 else e1)"
  let ?told = "(foldl (\<lambda>e pid. emit (newEvent PeerLost pid) e) (e2\<lparr>e_discovery := d\<rparr>) lost)\<lparr>e_peersChanged := True, e_interface := current\<rparr>"
  define e3 where "e3 = closeSockets env ?told"
  have e1: "closing {} limit e1" "e_shutdown e1 = e_shutdown e"
    using c by (simp_all add: e1_def)
  have "closing {} limit (endAllSessions env ?r e1)"
    by (simp add: closing_def findPeer_def endAllSessions_none)
  then have e2: "closing {} limit e2" "e_shutdown e2 = e_shutdown e"
    using e1 by (simp_all add: e2_def endAllSessions_none)
  have "sessions_kept e2 e3"
    using lost_kept(1) [of "e2\<lparr>e_discovery := d\<rparr>" lost] sockets_kept(2) [of ?told env]
    unfolding e3_def by (simp add: sessions_kept_def flags_kept_def)
  then have e3: "closing {} limit e3" "e_shutdown e3 = e_shutdown e"
    using closing_kept [OF e2(1)] e2(2) by (simp_all add: sessions_kept_def flags_kept_def)
  have bound: "closing {} limit (engine_bind env n iface e') \<and> e_shutdown (engine_bind env n iface e') = e_shutdown e"
    if "closing {} limit e'" "e_shutdown e' = e_shutdown e" for iface e'
    using closing_kept [OF that(1) sockets_kept(1)] that(2) sockets_kept(1) [of e' env n iface]
    by (simp add: sessions_kept_def flags_kept_def)
  have discovery: "e_discovery e2 = e_discovery e"
    by (simp add: e2_def e1_def endAllSessions_fields)
  have "updateInterface env n failed e =
    (if current = e_interface e \<and> \<not> failed
     then case current of Some iface \<Rightarrow> if e_socket e = None then engine_bind env n iface e1 else e1 | None \<Rightarrow> e1
     else case current of Some iface \<Rightarrow> if current \<noteq> e_interface e then engine_bind env n iface e3 else e3 | None \<Rightarrow> e3)"
    unfolding updateInterface_def asked Let_def prod.case
    using discovery cleared by (auto simp: e3_def e2_def e1_def endAllSessions_fields split: option.splits)
  then show ?thesis
    using e1 e3 bound by (auto split: option.splits)
qed

lemma sendBeacon_kept: "sessions_kept e (sendBeacon env a rep e)"
  by (simp add: sessions_kept_def flags_kept_def sendBeacon_def Let_def split_beta)

lemma engine_onBeacon_kept:
  assumes "engine_onBeacon env a dg now e = Some e'"
  shows "sessions_kept e e'"
proof (cases "e_shutdown e")
  case False
  then obtain seen d where seen: "onBeacon a dg now (e_discovery e) = Some (seen, d)"
    using assms by (auto simp: engine_onBeacon_def Option.bind_eq_Some_conv)
  have sent: "sessions_kept e (sendBeacon env b rep e1)" if "sessions_kept e e1" for b rep e1
    using sessions.rel_trans [OF that sendBeacon_kept] .
  have "sessions_kept e (e\<lparr>e_discovery := d\<rparr>)" "sessions_kept e ((emit ev (e\<lparr>e_discovery := d\<rparr>))\<lparr>e_peersChanged := True\<rparr>)" for ev
    by (simp_all add: sessions_kept_def flags_kept_def emit_def)
  then show ?thesis
    using assms False seen sent by (auto simp: engine_onBeacon_def Let_def split: option.splits if_splits)
qed (use assms in \<open>simp add: engine_onBeacon_def sessions.rel_refl\<close>)

lemma admitHello_closing:
  assumes c: "closing {} limit e" "\<not> e_shutdown e" and free: "findPeer (fromInstance hello) e = None"
    and "admitHello env a hello crossing now e = Some (target, e')"
  shows "closing {} limit e' \<and> \<not> e_shutdown e'"
proof (cases "length (e_peers e) \<ge> MaxPeers \<or> pendingCount e \<ge> MaxPendingSessions")
  case True
  then show ?thesis
    using assms by (auto simp: admitHello_def)
next
  case False
  let ?pid = "fromInstance hello"
  let ?who = "\<lparr>peer_id = ?pid, displayName = name hello, address = toString (sa_ip a), port = sa_port a,
    appVersion = versionText \<lparr>av_major = verMajor hello, av_minor = verMinor hello\<rparr>\<rparr>"
  obtain e1 where added: "addPeer env ?who a now e = Some e1"
    using assms(4) False by (auto simp: admitHello_def Let_def Option.bind_eq_Some_conv)
  obtain p where p: "closing {} limit e1" "\<not> e_shutdown e1" "findPeer ?pid e1 = Some p" "p_state p = Connecting" "\<not> p_closeSent p"
    using addPeer_closing [OF c added] free by auto
  show ?thesis
  proof (cases "crossing \<or> cfg_autoAccept (e_config e1)")
    case True
    let ?e2 = "tellMailbox env (publishSession ?pid Pending) (modifyPeer ?pid (\<lambda>p. p\<lparr>p_announced := crossing\<rparr>) e1)"
    have "closing {} limit (modifyPeer ?pid (\<lambda>p. p\<lparr>p_announced := crossing\<rparr>) e1)"
      by (rule closing_modify [OF p(1)]) (simp add: peer_closing_def)
    then have "closing {} limit (sendAccept env ?pid ?e2)"
      by (intro sendAccept_closing [of limit ?e2 ?pid "p\<lparr>p_announced := crossing\<rparr>"]) (use p(3,4) in auto)
    then show ?thesis
      using assms(4) False True added p(2) by (auto simp: admitHello_def Let_def shutdown_kept)
  next
    case ask: False
    let ?f = "\<lambda>p. p\<lparr>p_state := AwaitingDecision, p_stateDeadline := Some (now + DecisionTimeout), p_announced := True\<rparr>"
    have "closing {} limit (modifyPeer ?pid ?f e1)"
      by (rule closing_modify [OF p(1)]) (use p(2,3,5) in \<open>simp add: peer_closing_def\<close>)
    then show ?thesis
      using assms(4) False ask added p(2) by (auto simp: admitHello_def Let_def)
  qed
qed

lemma onHello_closing:
  assumes c: "closing {} limit e" and hello: "onHello env a packet now e = Some (target, e')"
  shows "closing {} limit e' \<and> e_shutdown e' = e_shutdown e"
proof -
  have admitted: "closing {} limit e' \<and> e_shutdown e' = e_shutdown e"
    if "closing {} limit e1" "findPeer (fromInstance hl) e1 = None" "e_shutdown e1 = e_shutdown e" "hello_acceptable a hl e"
      "admitHello env a hl cr now e1 = Some (target, e')" for e1 hl cr
    using admitHello_closing [OF that(1) _ that(2,5)] that(3,4) by (simp add: hello_acceptable_def)
  have crossed: "closing {} limit (erasePeer env pid e)" "closing {} limit (erasePeer env pid (report pid r e))" for pid r
    using c by simp_all
  show ?thesis
    using hello c admitted [OF c] admitted [OF crossed(1) erased_absent] admitted [OF crossed(2) erased_absent]
    by (auto simp: onHello_def Let_def split: option.splits if_splits prod.splits)
qed

lemma receivePacket_closing:
  assumes c: "closing {} limit e" and "receivePacket env a packet now target e = Some e'"
  shows "closing {} limit e' \<and> e_shutdown e' = e_shutdown e"
proof (cases "Option.bind target (\<lambda>pid. findPeer pid e)")
  case None
  then show ?thesis
    using assms by (simp add: receivePacket_def)
next
  case (Some p)
  then obtain pid where target: "target = Some pid" and found: "findPeer pid e = Some p"
    by (auto simp: Option.bind_eq_Some_conv)
  let ?early = "lane (flags (pkt_header packet)) \<noteq> Control \<and> \<not> transfersData p"
  show ?thesis
  proof (cases "p_ended p \<or> p_address p \<noteq> a \<or> ?early \<and> (p_state p \<noteq> Connecting \<or> p_initiator p \<or> \<not> p_acceptSent p)")
    case True
    then show ?thesis
      using assms target found by (auto simp: receivePacket_def Let_def split: if_splits)
  next
    case False
    define e1 where "e1 = (if ?early then setConnected env pid e else e)"
    have e1: "closing {} limit e1" "e_shutdown e1 = e_shutdown e"
      using False setConnected_closing [OF c found, of env] c by (auto simp: e1_def shutdown_kept)
    have eq: "receivePacket env a packet now target e =
      do { p \<leftarrow> findPeer pid e1; l \<leftarrow> onPacket packet now (linkOf p e1); Some (touch (peer_id (p_info p)) (putLink pid l e1)) }"
      unfolding receivePacket_def target Option.bind.bind_lunit found option.case option.sel Let_def e1_def [symmetric]
      using False by auto
    show ?thesis
      using assms(2) [unfolded eq] e1 by (auto simp: Option.bind_eq_Some_conv)
  qed
qed

lemma handleDatagram_closing:
  assumes c: "closing {} limit e" and "handleDatagram env a dg now e = Some e'"
  shows "closing {} limit e' \<and> e_shutdown e' = e_shutdown e"
proof -
  have hello: "closing {} limit e' \<and> e_shutdown e' = e_shutdown e"
    if "onHello env a packet now e = Some (target, e1)" "receivePacket env a packet now target e1 = Some e'" for packet target e1
    using onHello_closing [OF c that(1)] receivePacket_closing [OF _ that(2)] by auto
  have announced: "closing {} limit e' \<and> e_shutdown e' = e_shutdown e" if "engine_onBeacon env a dg now e = Some e'"
    using closing_kept [OF c] engine_onBeacon_kept [OF that] by (simp add: sessions_kept_def flags_kept_def)
  show ?thesis
    using assms announced receivePacket_closing [OF c] hello
    unfolding handleDatagram_def by (auto simp: Option.bind_eq_Some_conv split: if_splits option.splits)
qed

lemma receiveLoop_closing:
  assumes handle: "\<And>a dg e e'. closing {} limit e \<Longrightarrow> handle a dg e = Some e' \<Longrightarrow> closing {} limit e' \<and> e_shutdown e' = e_shutdown e"
    and "closing {} limit e" "receiveLoop env which handle n e = Some e'"
  shows "closing {} limit e' \<and> e_shutdown e' = e_shutdown e"
  using assms(2-)
proof (induction n arbitrary: e)
  case (Suc n)
  obtain dg w where arrived: "env_receive env which (e_world e) = (dg, w)"
    by (cases "env_receive env which (e_world e)")
  let ?e = "e\<lparr>e_world := w\<rparr>"
  have e1: "closing {} limit ?e"
    using Suc.prems(1) by simp
  show ?case
  proof (cases dg)
    case (Inl err)
    then show ?thesis
      using Suc.prems(2) arrived e1 Suc.IH [OF e1] by (cases err) auto
  next
    case (Inr x)
    obtain a bytes where x: "x = (a, bytes)"
      by (cases x)
    obtain e2 where e2: "handle a bytes ?e = Some e2" "receiveLoop env which handle n e2 = Some e'"
      using Suc.prems(2) arrived Inr x by (auto simp: Option.bind_eq_Some_conv)
    then show ?thesis
      using handle [OF e1 e2(1)] Suc.IH [of e2] by simp
  qed
qed simp

lemma receivePending_closing:
  assumes c: "closing {} limit e" and "receivePending env now e = Some e'"
  shows "closing {} limit e' \<and> e_shutdown e' = e_shutdown e"
proof (cases "e_socket e")
  case (Some a)
  obtain e1 where e1: "receiveLoop env False (\<lambda>from bytes. handleDatagram env from bytes now) MaxDatagramsPerPass e = Some e1"
    using assms(2) Some by (auto simp: receivePending_def Option.bind_eq_Some_conv)
  have c1: "closing {} limit e1" "e_shutdown e1 = e_shutdown e"
    using receiveLoop_closing [OF handleDatagram_closing c e1] by simp_all
  have announced: "closing {} limit e'' \<and> e_shutdown e'' = e_shutdown e'"
    if "closing {} limit e'" "engine_onBeacon env a dg now e' = Some e''" for a dg e' e''
    using closing_kept [OF that(1)] engine_onBeacon_kept [OF that(2)] by (simp add: sessions_kept_def flags_kept_def)
  show ?thesis
    using assms(2) Some e1 c1 receiveLoop_closing [OF announced c1(1)]
    by (auto simp: receivePending_def split: if_splits)
qed (use assms in \<open>simp add: receivePending_def\<close>)


section \<open>Timers, sending and the end of a step\<close>

lemma touched_grows [simp]: "e_touched (touch pid e) = e_touched e @ [pid]" "e_touched (putLink pid l e) = e_touched e"
  by (simp_all add: touch_def putLink_def modifyPeer_def)

lemma serviceLoop_touches:
  "set (e_touched e) \<subseteq> set (e_touched (foldl (servicePeer now) e pids)) \<and>
   (\<forall>pid p. pid \<in> set pids \<longrightarrow> findPeer pid e = Some p \<longrightarrow> isDue (p_stateDeadline p) now \<longrightarrow>
      pid \<in> set (e_touched (foldl (servicePeer now) e pids)))"
proof (induction pids arbitrary: e)
  case (Cons pid pids)
  have grows: "set (e_touched e) \<subseteq> set (e_touched (servicePeer now e pid))"
    by (auto simp: servicePeer_def Let_def split: option.split)
  have due: "pid \<in> set (e_touched (servicePeer now e pid))" if "findPeer pid e = Some p" "isDue (p_stateDeadline p) now" for p
    using that by (simp add: servicePeer_def Let_def)
  have later: "k \<in> set (e_touched (foldl (servicePeer now) e (pid # pids)))"
    if k: "k \<in> set pids" "findPeer k e = Some p" "isDue (p_stateDeadline p) now" for k p
  proof -
    obtain q where q: "findPeer k (servicePeer now e pid) = Some q" "pview q = pview p"
      using same_core_find [OF servicePeer_core k(2)] by blast
    then have "p_stateDeadline q = p_stateDeadline p"
      by (simp add: pview_def)
    then show ?thesis
      using Cons.IH [of "servicePeer now e pid"] k q(1) by simp
  qed
  show ?case
    using Cons.IH [of "servicePeer now e pid"] grows due later by auto
qed simp

lemma serviceTimers_touches:
  assumes "findPeer pid e = Some p" and "isDue (p_stateDeadline p) now"
  shows "pid \<in> set (e_touched (serviceTimers now e))"
proof -
  have "pid \<in> set (om_keys (e_peers e))"
    using assms(1) map_of_None_keys [of "e_peers e" pid] by (force simp: findPeer_def)
  then show ?thesis
    using serviceLoop_touches [of e now "om_keys (e_peers e)"] assms by (auto simp: serviceTimers_def)
qed

text \<open>All sessions of an engine that shuts down are due.\<close>

lemma all_due:
  assumes c: "closing {} limit e" "e_shutdown e" "limit \<le> now" and e': "same_core e e'" "flags_kept e e'"
    and touched: "\<And>pid p. findPeer pid e = Some p \<Longrightarrow> isDue (p_stateDeadline p) now \<Longrightarrow> pid \<in> set (e_touched e')"
  shows "ended_in pid e' \<or> pid \<in> set (e_touched e')"
proof (cases "ended_in pid e")
  case True
  then show ?thesis
    using ends_kept_same [OF e'] by (simp add: ends_kept_def)
next
  case False
  then obtain p where p: "findPeer pid e = Some p" "\<not> p_ended p"
    by (auto simp: ended_in_def)
  have "peer_closing limit True p"
    using closingD(3) [OF c(1) p] c(2) by simp
  then have "isDue (p_stateDeadline p) now"
    using c(3) by (auto simp: peer_closing_def isDue_def)
  then show ?thesis
    using touched [OF p(1)] by simp
qed

lemma stepReceive_closing:
  assumes c: "closing_well limit now e" and "stepReceive env n now e = Some e'"
  shows "closing_well limit now e'" "e_shutdown e' = e_shutdown e"
    "e_shutdown e \<Longrightarrow> limit \<le> now \<Longrightarrow> ended_in pid e' \<or> pid \<in> set (e_touched e')"
proof -
  have closing: "closing {} limit e"
    using c by (simp add: closing_well_def)
  define e1 where "e1 = (if \<not> e_shutdown e \<and> (tickDue now e \<or> e_checkInterface e \<or> e_socketFailed e)
    then updateInterface env n (e_socketFailed e) (e\<lparr>e_socketFailed := False\<rparr>) else e)"
  have e1: "closing {} limit e1" "e_shutdown e1 = e_shutdown e"
    using closing updateInterface_closing [of limit "e\<lparr>e_socketFailed := False\<rparr>" env n "e_socketFailed e"] by (auto simp: e1_def)
  have e2: "closing {} limit (updatePause e1)" "e_shutdown (updatePause e1) = e_shutdown e"
    using closing_same [OF e1(1) updatePause_core loops_flags(2)] loops_flags(2) [of e1] e1(2) by (simp_all add: flags_kept_def)
  obtain e3 where e3: "receivePending env now (updatePause e1) = Some e3"
    using assms(2) by (auto simp: stepReceive_def Let_def e1_def Option.bind_eq_Some_conv)
  have c3: "closing {} limit e3" "e_shutdown e3 = e_shutdown e"
    using receivePending_closing [OF e2(1) e3] e2(2) by simp_all
  define e4 where "e4 = serviceTimers now e3"
  have c4: "closing {} limit e4" "e_shutdown e4 = e_shutdown e"
    using closing_same [OF c3(1) serviceTimers_core loops_flags(1)] loops_flags(1) [of e3 now] c3(2) by (simp_all add: e4_def flags_kept_def)
  define e5 where "e5 = (if tickDue now e then tick now e4 else e4)"
  have e': "e' = (if e_beaconDue e5 \<and> dl_announcing (e_discovery e5) \<and> \<not> e_shutdown e5
      then sendBeacon env \<lparr>sa_ip = broadcastAddress (e_discovery (e5\<lparr>e_beaconDue := False\<rparr>)),
             sa_port = cfg_discoveryPort (e_config (e5\<lparr>e_beaconDue := False\<rparr>))\<rparr> False (e5\<lparr>e_beaconDue := False\<rparr>)
      else e5\<lparr>e_beaconDue := False\<rparr>)"
    using assms(2) unfolding stepReceive_def Let_def e1_def [symmetric] e3 Option.bind.bind_lunit e4_def [symmetric] e5_def [symmetric] by simp
  have "sessions_kept e4 (e5\<lparr>e_beaconDue := False\<rparr>)"
    using tick_kept [of e4 now] by (simp add: e5_def sessions_kept_def flags_kept_def)
  then have kept: "sessions_kept e4 e'"
    unfolding e' using sessions.rel_trans [OF _ sendBeacon_kept] by auto
  show down: "e_shutdown e' = e_shutdown e"
    using kept c4(2) by (simp add: sessions_kept_def flags_kept_def)
  show "closing_well limit now e'"
    by (rule closing_wellI [OF closing_kept [OF c4(1) kept] down c])
  show "ended_in pid e' \<or> pid \<in> set (e_touched e')" if "e_shutdown e" "limit \<le> now"
  proof -
    have "e' = e4\<lparr>e_beaconDue := False\<rparr>"
      using that(1) c4(2) by (simp add: e' e5_def tickDue_def)
    then have "e_touched e' = e_touched e4" "ended_in pid e' = ended_in pid e4"
      by (simp_all add: ended_in_def findPeer_def)
    then show ?thesis
      using all_due [OF c3(1) _ that(2) serviceTimers_core loops_flags(1), of now pid] serviceTimers_touches [of _ e3 _ now] that(1) c3(2)
      by (simp add: e4_def)
  qed
qed

lemma servePeers_closing:
  assumes "closing_well limit now e" and "foldM (servePeer env now) pids e = Some e'"
  shows "closing_well limit now e' \<and> ends_kept e e' \<and>
    (e_shutdown e \<and> limit \<le> now \<longrightarrow> (\<forall>pid \<in> set pids. ended_in pid e'))"
  using assms
proof (induction pids arbitrary: e)
  case (Cons pid pids)
  obtain e1 where e1: "servePeer env now pid e = Some e1" "foldM (servePeer env now) pids e1 = Some e'"
    using Cons.prems(2) by (auto simp: Option.bind_eq_Some_conv)
  note served = servePeer_closing [OF Cons.prems(1) e1(1)]
  have rest: "closing_well limit now e'" "ends_kept e1 e'" "e_shutdown e1 \<and> limit \<le> now \<longrightarrow> (\<forall>pid \<in> set pids. ended_in pid e')"
    using Cons.IH [OF served(1) e1(2)] by simp_all
  then show ?case
    using ends.rel_trans [OF served(2) rest(2)] served(2,3) by (auto simp: ends_kept_def)
qed (simp add: ends.rel_refl)

lemma stepSend_closing:
  assumes c: "closing_well limit now e" and "stepSend env now e = Some e'"
  shows "closing_well limit now e'" "e_shutdown e' = e_shutdown e"
    "e_shutdown e \<Longrightarrow> limit \<le> now \<Longrightarrow> ended_in pid e \<or> pid \<in> set (e_touched e) \<Longrightarrow> ended_in pid e'"
proof -
  let ?e = "e\<lparr>e_touched := remdups_adj (sort (e_touched e)), e_scheduler := refill now (e_scheduler e), e_socketBlocked := False\<rparr>"
  obtain e1 e2 where e1: "foldM (servePeer env now) (e_touched ?e) ?e = Some e1"
    and e2: "(if e_socketBlocked e1 then Some e1 else sendData env now e1) = Some e2"
    and e': "e' = foldl (settlePeer env) e2 (e_touched e2)"
    using assms(2) by (auto simp: stepSend_def Let_def Option.bind_eq_Some_conv)
  have start: "closing_well limit now ?e"
    using c by (intro closing_wellI [OF closing_kept [of "{}" limit e]]) (simp_all add: closing_well_def sessions_kept_def flags_kept_def)
  note served = servePeers_closing [OF start e1]
  have sent: "same_core e1 e2" "flags_kept e1 e2"
    using e2 sendData_core sendData_flags by (auto simp: flags.rel_refl split: if_splits)
  have settled: "same_core e2 e'" "flags_kept e2 e'"
    unfolding e' by (rule core.rel_foldl, rule settlePeer_core) (rule flags.rel_foldl, rule step_parts_flags)
  have same: "same_core e1 e'" "flags_kept e1 e'"
    using same_core_trans [OF sent(1) settled(1)] flags.rel_trans [OF sent(2) settled(2)] .
  show "closing_well limit now e'"
    using closing_well_same [OF _ same] served by blast
  show "e_shutdown e' = e_shutdown e"
    using served same(2) by (simp add: flags_kept_def ends_kept_def)
  show "ended_in pid e'" if "e_shutdown e" "limit \<le> now" "ended_in pid e \<or> pid \<in> set (e_touched e)"
  proof -
    have "ended_in pid ?e \<or> pid \<in> set (e_touched ?e)"
      using that(3) by (simp add: ended_in_def findPeer_def)
    then have "ended_in pid e1"
      using served that(1,2) by (auto simp: ends_kept_def)
    then show ?thesis
      using ends_kept_same [OF same] by (simp add: ends_kept_def)
  qed
qed

text \<open>The end of a step erases the sessions that ended, and no others.\<close>

lemma eraseLoop_find:
  "findPeer k (foldl (eraseEnded env) e pids) = (if k \<in> set pids \<and> ended_in k e then None else findPeer k e)"
proof (induction pids arbitrary: e)
  case (Cons pid pids)
  have "findPeer k (eraseEnded env e pid) = (if k = pid \<and> ended_in k e then None else findPeer k e)"
    by (auto simp: eraseEnded_def erasePeer_find ended_in_def split: option.splits)
  moreover from this have "ended_in k (eraseEnded env e pid) = ended_in k e"
    by (auto simp: ended_in_def)
  ultimately show ?case
    using Cons.IH [of "eraseEnded env e pid"] by auto
qed simp

lemma eraseLoop_shutdown: "e_shutdown (foldl (eraseEnded env) e pids) = e_shutdown e"
  by (rule foldl_invariant) (simp_all add: eraseEnded_def split: option.split)

lemma stepFinish_find:
  "findPeer k (stepFinish env now e) = (if k \<in> set (e_ended e) \<and> ended_in k e then None else findPeer k e)"
  "e_shutdown (stepFinish env now e) = e_shutdown e"
proof -
  have "ended_in k (e\<lparr>e_ended := []\<rparr>) = ended_in k e" "findPeer k (e\<lparr>e_ended := []\<rparr>) = findPeer k e"
    by (simp_all add: ended_in_def findPeer_def)
  then show "findPeer k (stepFinish env now e) = (if k \<in> set (e_ended e) \<and> ended_in k e then None else findPeer k e)"
    using eraseLoop_find [of k env "e\<lparr>e_ended := []\<rparr>" "e_ended e"]
    by (simp add: stepFinish_def Let_def findPeer_def)
  show "e_shutdown (stepFinish env now e) = e_shutdown e"
    using eraseLoop_shutdown [of env "e\<lparr>e_ended := []\<rparr>" "e_ended e"] by (simp add: stepFinish_def Let_def)
qed

lemma stepFinish_closing:
  assumes "closing {} limit e"
  shows "closing {} limit (stepFinish env now e)" "findPeer pid (stepFinish env now e) = Some p \<Longrightarrow> \<not> p_ended p"
    "(\<And>pid. ended_in pid e) \<Longrightarrow> e_peers (stepFinish env now e) = []"
proof -
  have left: "findPeer pid e = Some p \<and> \<not> p_ended p" if "findPeer pid (stepFinish env now e) = Some p" for pid p
    using that closingD(2) [OF assms, of pid p] by (auto simp: stepFinish_find ended_in_def split: if_splits)
  show "closing {} limit (stepFinish env now e)"
    unfolding closing_def using left closingD [OF assms] by (simp add: stepFinish_find(2)) blast
  show "\<not> p_ended p" if "findPeer pid (stepFinish env now e) = Some p"
    using left [OF that] by simp
  show "e_peers (stepFinish env now e) = []" if "\<And>pid. ended_in pid e"
  proof -
    have "findPeer pid (stepFinish env now e) = None" for pid
      using left [of pid] that [of pid] by (cases "findPeer pid (stepFinish env now e)") (auto simp: ended_in_def)
    then show ?thesis
      by (cases "e_peers (stepFinish env now e)") (auto simp: findPeer_def, metis option.distinct(1))
  qed
qed

definition wakes_by :: "TimePoint \<Rightarrow> TimePoint option \<Rightarrow> bool" where
  "wakes_by limit wake \<longleftrightarrow> (case wake of Some w \<Rightarrow> w \<le> limit | None \<Rightarrow> False)"

lemma wakes_by_earlier [simp]: "wakes_by limit a \<Longrightarrow> wakes_by limit (earlier a b)" "wakes_by limit b \<Longrightarrow> wakes_by limit (earlier a b)"
  by (auto simp: wakes_by_def earlier_def split: option.splits)

lemma nextWakeOf_by:
  assumes "(pid, p) \<in> set (e_peers e)" and "wakes_by limit (p_stateDeadline p)"
  shows "wakes_by limit (nextWakeOf now e)"
proof -
  let ?f = "\<lambda>wake (_ :: PeerId, p). earlier (earlier wake (p_deadline p)) (p_stateDeadline p)"
  have keeps: "wakes_by limit (foldl ?f wake ps)" if "wakes_by limit wake" for wake ps
    using that by (rule foldl_invariant [where P = "wakes_by limit"]) auto
  obtain before after where "e_peers e = before @ (pid, p) # after"
    using assms(1) by (meson split_list)
  then have "wakes_by limit (foldl ?f wake (e_peers e))" for wake
    using keeps [OF wakes_by_earlier(2) [OF assms(2)]] by simp
  then show ?thesis
    by (simp add: nextWakeOf_def Let_def)
qed

definition closed_by :: "TimePoint \<Rightarrow> 'w Engine \<Rightarrow> bool" where
  "closed_by limit e \<longleftrightarrow> list_all (\<lambda>(pid, p). p_closeSent p \<longrightarrow> wakes_by limit (p_stateDeadline p)) (e_peers e)"

lemma closed_by_closing:
  assumes c: "closing {} limit e" and closed: "closed_by limit' e"
  shows "closing {} limit' e"
proof -
  have "peer_closing limit' (e_shutdown e) p" if p: "findPeer pid e = Some p" "\<not> p_ended p" for pid p
  proof -
    have "p_closeSent p \<longrightarrow> wakes_by limit' (p_stateDeadline p)"
      using closed map_of_SomeD [OF p(1) [unfolded findPeer_def]] by (auto simp: closed_by_def list_all_iff)
    then show ?thesis
      using closingD(3) [OF c p] by (auto simp: peer_closing_def wakes_by_def split: option.splits)
  qed
  then show ?thesis
    using closingD [OF c] by (auto simp: closing_def)
qed

lemma closing_closed_by:
  assumes "closing {} limit e" and "om_ok (e_peers e)" and "\<And>pid p. findPeer pid e = Some p \<Longrightarrow> \<not> p_ended p"
  shows "closed_by limit e" "e_shutdown e \<Longrightarrow> (pid, p) \<in> set (e_peers e) \<Longrightarrow> wakes_by limit (p_stateDeadline p)"
proof -
  have found: "peer_closing limit (e_shutdown e) p" if "(pid, p) \<in> set (e_peers e)" for pid p
  proof -
    have "findPeer pid e = Some p"
      using that om_ok_distinct [OF assms(2)] by (simp add: findPeer_def om_keys_def)
    then show ?thesis
      using closingD(3) [OF assms(1)] assms(3) by auto
  qed
  then show "closed_by limit e" "e_shutdown e \<Longrightarrow> (pid, p) \<in> set (e_peers e) \<Longrightarrow> wakes_by limit (p_stateDeadline p)"
    by (fastforce simp: closed_by_def list_all_iff peer_closing_def wakes_by_def)+
qed

text \<open>One step.\<close>

lemma step_closing:
  assumes c: "closing_well limit now e" and "step env n now e = Some (b, e')"
  shows "closing {} limit e'" "findPeer pid e' = Some p \<Longrightarrow> \<not> p_ended p" "e_shutdown e \<Longrightarrow> e_shutdown e'"
    "e_shutdown e \<Longrightarrow> limit \<le> now \<Longrightarrow> finished e'"
    "(pid, p) \<in> set (e_peers e') \<Longrightarrow> wakes_by limit (p_stateDeadline p) \<Longrightarrow> wakes_by limit (e_nextWake e')"
proof -
  obtain e1 e2 e3 where e1: "stepCommands env now e = Some e1" and e2: "stepReceive env n now e1 = Some e2"
    and e3: "stepSend env now e2 = Some e3" and e': "takeBatch (stepFinish env now e3) = (b, e')"
    using assms(2) by (auto simp: step_def Option.bind_eq_Some_conv)
  have c1: "closing_well limit now e1" "e_shutdown e \<longrightarrow> e_shutdown e1"
    using stepCommands_closing [OF c e1] by simp_all
  note c2 = stepReceive_closing [OF c1(1) e2]
  note c3 = stepSend_closing [OF c2(1) e3]
  have closing: "closing {} limit e3"
    using c3(1) by (simp add: closing_well_def)
  have same: "e_peers e' = e_peers (stepFinish env now e3)" "e_shutdown e' = e_shutdown e3" "e_ended e' = e_ended (stepFinish env now e3)"
    "e_nextWake e' = e_nextWake (stepFinish env now e3)"
    using e' stepFinish_find(2) [of env now e3] by (auto simp: takeBatch_def Let_def)
  then have "sessions_kept (stepFinish env now e3) e'"
    by (simp add: sessions_kept_def flags_kept_def stepFinish_find)
  then show "closing {} limit e'"
    by (rule closing_kept [OF stepFinish_closing(1) [OF closing]])
  show "\<not> p_ended p" if "findPeer pid e' = Some p"
    using stepFinish_closing(2) [OF closing, of pid env now p] that same(1) by (simp add: findPeer_def)
  show "e_shutdown e'" if "e_shutdown e"
    using that c1(2) c2(2) c3(2) same(2) by simp
  show "finished e'" if "e_shutdown e" "limit \<le> now"
  proof -
    have "ended_in pid e3" for pid
      using c3(3) [of pid] c2(2) c2(3) [of pid] that c1(2) by simp
    then show ?thesis
      using stepFinish_closing(3) [OF closing] same that(1) c1(2) c2(2) c3(2) by (simp add: finished_def)
  qed
  show "wakes_by limit (e_nextWake e')" if "(pid, p) \<in> set (e_peers e')" "wakes_by limit (p_stateDeadline p)"
  proof -
    define e4 where "e4 = (let e = foldl (eraseEnded env) (e3\<lparr>e_ended := []\<rparr>) (e_ended e3);
        e = (if e_peersChanged e then tellMailbox env (publishDiscovered (peers (e_discovery e))) (e\<lparr>e_peersChanged := False\<rparr>) else e)
      in e\<lparr>e_waitingForTick := (e_socketBlocked e \<or> hasBacklog (e_scheduler e) \<or> e_acksHeldBack e \<noteq> [])\<rparr>)"
    have "stepFinish env now e3 = e4\<lparr>e_nextWake := nextWakeOf now e4\<rparr>"
      by (simp add: stepFinish_def Let_def e4_def)
    then show ?thesis
      using nextWakeOf_by [of pid p e4 limit now] that same by simp
  qed
qed

text \<open>Whatever an engine did, its sessions have a deadline if they were told to close.\<close>

lemma runs_closing: "engine_runs env n config h e \<Longrightarrow> \<exists>limit. closing {} limit e"
proof (induction rule: engine_runs.induct)
  case (start v r w)
  then show ?case
    by (auto simp: closing_def findPeer_def networkEngine_def Let_def)
next
  case (step h e now b e')
  then obtain limit where "closing {} limit e"
    by blast
  then have "closing_well (max limit (now + CloseLinger)) now e"
    using closing_mono [of "{}" limit e "max limit (now + CloseLinger)"] by (simp add: closing_well_def within_limit_def)
  then show ?case
    using step_closing(1) step.hyps(2) by blast
next
  case (wait h e failed)
  then show ?case
    using closing_kept [of "{}" _ e "noteWait failed e"]
    by (auto simp: noteWait_def sessions_kept_def flags_kept_def split: option.splits)
next
  case (taken h e ev m e')
  then have "sessions_kept e e'"
    by (auto simp: takeMessage_def sessions_kept_def flags_kept_def split: option.splits list.splits)
  then show ?case
    using taken.IH closing_kept by blast
next
  case (dropped h e b)
  have "sessions_kept e (dropBatch b e)"
    by (simp add: dropBatch_def Let_def sessions_kept_def flags_kept_def)
  then show ?case
    using dropped.IH closing_kept by blast
next
  case (failed h e b e')
  then have "e_peers e' = []"
    using endAllSessions_none(1) by (auto simp: fail_def takeBatch_def Let_def)
  then show ?case
    by (auto simp: closing_def findPeer_def)
qed


section \<open>The property\<close>


definition shutdown_demo_env :: "nat Environment" where
  "shutdown_demo_env = engine_demo_env\<lparr>env_others := (\<lambda>m w. if w = 0 then (snd (post Command.Shutdown 0 m), 1) else (m, w))\<rparr>"

definition shutdown_demo_config :: EngineConfig where
  "shutdown_demo_config = engine_demo_config\<lparr>cfg_maxSendRate := 80000\<rparr>"

lemma shutdown_demo_safe: "env_safe shutdown_demo_env"
proof -
  have "draws shutdown_demo_env = draws engine_demo_env"
    by (simp add: draws_def shutdown_demo_env_def fun_eq_iff)
  then show ?thesis
    using demo_env_safe by (auto simp: env_safe_def shutdown_demo_env_def engine_demo_env_def mail_fits_ops)
qed

lemma shutdown_demo_step:
  "\<exists>b e. step shutdown_demo_env 0 7 (networkEngine [49] 1 shutdown_demo_config 0) = Some (b, e) \<and> e_shutdown e \<and> e_peers e = []"
  apply (simp add: step_def stepCommands_def onMailbox_def tellMailbox_def drain_def post_def Let_def apply_command_def networkEngine_def completed_def
    shutdown_demo_config_def shutdown_demo_env_def engine_demo_config_def engine_demo_env_def newDiscovery_def newMailbox_def setQueueBytes_def
    beginShutdown_def setRunning_def findPeer_def constants)
  apply (simp add: stepReceive_def tickDue_def updatePause_def Let_def receivePending_def serviceTimers_def)
  apply (simp add: stepSend_def sendData_def run_def Order_def runLane.simps mayRun_def refill_def newScheduler_def setRate_def Let_def
    emptyRing_def isUnlimited_def)
  apply (simp add: takeBatch_def stepFinish_def Let_def)
  done


end
