(* ===== verification/Doorbell.thy ===== *)
theory Doorbell
  imports Mailbox
begin

text \<open>
  How the I/O thread learns of work: the doorbell of the mailbox is \<open>NetworkEngine::wake\<close>, which sets
  \<open>mWoken\<close>; a step resets the flag before it drains the mailbox; and \<open>waitForWork\<close> does not wait while
  it is set. The critical sections of all threads interleave in any order, and a thread that has to
  ring does so some time after its section.
\<close>

section \<open>Sections\<close>

text \<open>What an application thread can do in one section, and whether it has to ring afterwards.\<close>

inductive app_section :: "Mailbox \<Rightarrow> bool \<Rightarrow> Mailbox \<Rightarrow> bool" where
  "post c k m = (ring, m') \<Longrightarrow> app_section m ring m'"
| "pushStart k l mail t m = Inl (r, ring, m') \<Longrightarrow> app_section m ring m'"
| "pushDone k l mail e m = (r, ring, m') \<Longrightarrow> app_section m ring m'"
| "pushToAll l mail m = (n, ring, m') \<Longrightarrow> app_section m ring m'"
| "app_section m False (seal k m)"
| "app_section m False (setQueueBytes n m)"
| "app_section m False (setRunning b m)"

text \<open>What the I/O thread can do in one section, apart from draining.\<close>

inductive io_section :: "Mailbox \<Rightarrow> Mailbox \<Rightarrow> bool" where
  "io_section m (snd (take_mail k l m))"
| "io_section m (snd (settle k m))"
| "io_section m (open_mail k m)"
| "io_section m (close_mail k m)"
| "io_section m (publishSession k s m)"
| "io_section m (publishDiscovered ps m)"
| "io_section m (publishStats k st m)"
| "io_section m (setRunning b m)"

text \<open>
  \<open>w_rings\<close> counts the calls of the doorbell that are still to be made; \<open>w_drains\<close> says that the I/O
  thread has reset \<open>mWoken\<close> and not drained the mailbox yet.
\<close>

record Wakeup =
  w_box :: Mailbox
  w_woken :: bool
  w_rings :: nat
  w_drains :: bool

definition wake :: "Wakeup \<Rightarrow> Wakeup" where
  "wake w = w\<lparr>w_woken := True\<rparr>"

definition beginStep :: "Wakeup \<Rightarrow> Wakeup" where
  "beginStep w = w\<lparr>w_woken := False, w_drains := True\<rparr>"

definition drainStep :: "Wakeup \<Rightarrow> Wakeup" where
  "drainStep w = w\<lparr>w_box := snd (drain (w_box w)), w_drains := False\<rparr>"

text \<open>Whether \<open>waitForWork\<close> goes on to wait.\<close>

definition waits :: "Wakeup \<Rightarrow> bool" where
  "waits w \<longleftrightarrow> \<not> w_woken w"

inductive wakeup_reachable :: "Wakeup \<Rightarrow> bool" where
  start: "wakeup_reachable \<lparr>w_box = newMailbox, w_woken = False, w_rings = 0, w_drains = False\<rparr>"
| app: "wakeup_reachable w \<Longrightarrow> app_section (w_box w) ring m' \<Longrightarrow>
    wakeup_reachable (w\<lparr>w_box := m', w_rings := w_rings w + of_bool ring\<rparr>)"
| rings: "wakeup_reachable w \<Longrightarrow> 0 < w_rings w \<Longrightarrow> wakeup_reachable (wake (w\<lparr>w_rings := w_rings w - 1\<rparr>))"
| begins: "wakeup_reachable w \<Longrightarrow> \<not> w_drains w \<Longrightarrow> wakeup_reachable (beginStep w)"
| drains: "wakeup_reachable w \<Longrightarrow> w_drains w \<Longrightarrow> wakeup_reachable (drainStep w)"
| io: "wakeup_reachable w \<Longrightarrow> \<not> w_drains w \<Longrightarrow> io_section (w_box w) m' \<Longrightarrow> wakeup_reachable (w\<lparr>w_box := m'\<rparr>)"


section \<open>Invariant\<close>

lemma pushAllLoop_signalled:
  "pushAllLoop l mail ps n r m = (n', r', m') \<Longrightarrow> (r \<longrightarrow> r') \<and> (mb_signalled m' \<longrightarrow> mb_signalled m \<or> r')"
  by (induction l mail ps n r m rule: pushAllLoop.induct) (auto simp: enqueue_def split: if_splits)

lemma app_section_ok: "app_section m ring m' \<Longrightarrow> mbox_ok m \<Longrightarrow> mbox_ok m'"
proof (induction rule: app_section.induct)
  case (1 c k m ring m')
  then show ?case
    using mbox_ok_flags(3) [of m c k] by simp
qed (auto intro: mbox_ok_pushStart mbox_ok_pushDone mbox_ok_pushToAll mbox_ok_seal mbox_ok_flags)

lemma app_section_rings:
  assumes "app_section m ring m'" and "mb_signalled m'"
  shows "mb_signalled m \<or> ring"
  using assms
proof (induction rule: app_section.induct)
  case (4 l mail m n ring m')
  then show ?case
    using pushAllLoop_signalled [of l mail "mb_peers m" 0 False m n ring m'] by (auto simp: pushToAll_def split: if_splits)
qed (auto simp: post_def pushStart_def pushDone_def enqueue_def seal_def setQueueBytes_def setRunning_def Let_def
    split: if_splits option.splits)

lemma io_section_ok: "io_section m m' \<Longrightarrow> mbox_ok m \<Longrightarrow> mbox_ok m'"
  by (induction rule: io_section.induct)
    (auto intro: mbox_ok_take mbox_ok_settle mbox_ok_open mbox_ok_close mbox_ok_flags mbox_ok_publishStats)

lemma io_section_signalled: "io_section m m' \<Longrightarrow> mb_signalled m' = mb_signalled m"
  by (induction rule: io_section.induct)
    (auto simp: take_mail_def settle_def open_mail_def close_mail_def publishSession_def publishDiscovered_def
      publishStats_def setRunning_def Let_def split: option.splits list.splits)

lemma wakeup_invariant:
  "wakeup_reachable w \<Longrightarrow>
   mbox_ok (w_box w) \<and> (mb_signalled (w_box w) \<longrightarrow> w_woken w \<or> 0 < w_rings w \<or> w_drains w)"
proof (induction rule: wakeup_reachable.induct)
  case start
  then show ?case
    by (simp add: mbox_ok_new) (simp add: newMailbox_def)
next
  case (app w ring m')
  then show ?case
    using app_section_ok app_section_rings by fastforce
next
  case (rings w)
  then show ?case
    by (simp add: wake_def)
next
  case (begins w)
  then show ?case
    by (simp add: beginStep_def)
next
  case (drains w)
  then show ?case
    using mbox_ok_drain drain_spec [of "w_box w"] by (auto simp: drainStep_def) (metis prod.collapse)
next
  case (io w m')
  then show ?case
    using io_section_ok io_section_signalled by fastforce
qed


section \<open>Property\<close>



end
