(* ===== verification/NetworkInformation.thy ===== *)
theory NetworkInformation
  imports IPv4Address BeaconCodec
begin

text \<open>
  \<open>Network/NetworkInformation.h\<close>, \<open>NetworkInformationCommon.cpp\<close> and the backend of Linux: how the
  adapters of the machine are found, named, told apart and ranked. What the operating system answers is
  a record of its own; the text of \<open>/proc/net/route\<close> is read byte by byte, as the streams and \<open>strtoul\<close> of
  the C++ library do. The lemmas show that the routing table is read as the kernel writes it, and, with what every
  backend promises in the locale \<open>adapter_backend\<close>, what the list of adapters holds.
\<close>

unbundle bit_operations_syntax

section \<open>Adapters\<close>

definition ascii :: "string \<Rightarrow> bytes" where
  "ascii s = map of_char s"

datatype AdapterTypes = Ethernet | WiFi | Loopback | Virtual | Other

text \<open>\<open>ZeroPriority\<close> is the value 0 of a default-constructed adapter, which has no name.\<close>

datatype AdapterPriorityInternal = ZeroPriority | Suppressed | Available | Preferred

record NetworkAdapterInternal =
  na_AdapterName :: bytes
  na_NetworkName :: bytes
  na_IPv4 :: bytes
  na_Subnet :: bytes
  na_ID :: u64
  na_IsDefaultRoute :: bool
  na_Eligible :: bool
  na_Type :: AdapterTypes
  na_Priority :: AdapterPriorityInternal

definition noAdapter :: NetworkAdapterInternal where
  "noAdapter =
     \<lparr>na_AdapterName = [], na_NetworkName = [], na_IPv4 = [], na_Subnet = [], na_ID = 0, na_IsDefaultRoute = False,
      na_Eligible = False, na_Type = Other, na_Priority = ZeroPriority\<rparr>"

definition filterSubnetMask :: "bytes \<Rightarrow> bool" where
  "filterSubnetMask subnet = (case parse subnet of None \<Rightarrow> False | Some m \<Rightarrow> isNetmask m)"

definition networkAdapterInternal ::
  "bytes \<Rightarrow> bytes \<Rightarrow> bytes \<Rightarrow> bytes \<Rightarrow> u64 \<Rightarrow> bool \<Rightarrow> AdapterTypes \<Rightarrow> AdapterPriorityInternal \<Rightarrow> NetworkAdapterInternal" where
  "networkAdapterInternal adapterName networkName ipv4 subnet ident isDefaultRoute type priority =
     \<lparr>na_AdapterName = adapterName, na_NetworkName = networkName, na_IPv4 = ipv4, na_Subnet = subnet, na_ID = ident,
      na_IsDefaultRoute = isDefaultRoute, na_Eligible = filterSubnetMask subnet, na_Type = type, na_Priority = priority\<rparr>"

text \<open>\<open>operator==\<close>\<close>

definition sameAdapter :: "NetworkAdapterInternal \<Rightarrow> NetworkAdapterInternal \<Rightarrow> bool" where
  "sameAdapter a b \<longleftrightarrow> (na_AdapterName a, na_Subnet a) = (na_AdapterName b, na_Subnet b)"

definition isValidAdapter :: "NetworkAdapterInternal \<Rightarrow> bool" where
  "isValidAdapter a \<longleftrightarrow> na_AdapterName a \<noteq> [] \<and> na_IPv4 a \<noteq> [] \<and> na_ID a \<noteq> 0"

text \<open>The loop over the shifts 0, 8 to 56 mixes the bytes of the key from the lowest on.\<close>

definition makeAdapterId :: "u64 \<Rightarrow> bytes \<Rightarrow> u64" where
  "makeAdapterId interfaceKey ipv4 =
     (let hash = foldl (\<lambda>hash shift. fnvStep hash (ucast (drop_bit shift interfaceKey))) 0xCBF29CE484222325 [0, 8, 16, 24, 32, 40, 48, 56];
          hash = foldl fnvStep hash ipv4
      in if hash \<noteq> 0 then hash else 1)"

definition networkNameOf :: "AdapterTypes \<Rightarrow> bytes \<Rightarrow> bytes" where
  "networkNameOf type ipv4 =
     (case type of WiFi \<Rightarrow> ascii ''WiFi ('' @ ipv4 @ ascii '')'' | Ethernet \<Rightarrow> ascii ''Ethernet ('' @ ipv4 @ ascii '')'' | _ \<Rightarrow> [])"

definition isAdapterCurrentlyAvailable :: "NetworkAdapterInternal \<Rightarrow> NetworkAdapterInternal list \<Rightarrow> NetworkAdapterInternal" where
  "isAdapterCurrentlyAvailable adapter adapters =
     (case find (\<lambda>it. sameAdapter it adapter) adapters of Some it \<Rightarrow> it | None \<Rightarrow> noAdapter)"


section \<open>Linux\<close>

text \<open>
  A socket address as the system calls return it: of IPv4 with its address as a number, of IPv6 with its
  bytes, or of another family. \<open>ifaddrs\<close> is an entry of \<open>getifaddrs\<close>, with a null pointer as \<open>None\<close>.
\<close>

datatype SockAddr = AF_INET IPv4Address | AF_INET6 bytes | AF_OTHER

record ifaddrs =
  ifa_name :: "bytes option"
  ifa_flags :: u32
  ifa_addr :: "SockAddr option"
  ifa_netmask :: "SockAddr option"

text \<open>The answers of the system at one time. \<open>sys_route\<close> is the content of \<open>/proc/net/route\<close>.\<close>

record LinuxSystem =
  sys_fileExists :: "bytes \<Rightarrow> bool"
  sys_if_nametoindex :: "bytes \<Rightarrow> u32"
  sys_inet_ntop :: "IPv4Address \<Rightarrow> bytes"
  sys_inet_ntop6 :: "bytes \<Rightarrow> bytes"
  sys_getifaddrs :: "ifaddrs list option"
  sys_route :: "bytes option"

record NetworkInformation =
  ni_addrList :: "ifaddrs list"
  ni_adapters :: "NetworkAdapterInternal list"

definition IFF_UP :: u32 where "IFF_UP = 0x1"
definition IFF_LOOPBACK :: u32 where "IFF_LOOPBACK = 0x8"
definition IFF_RUNNING :: u32 where "IFF_RUNNING = 0x40"

definition networkInformation :: NetworkInformation where
  "networkInformation = \<lparr>ni_addrList = [], ni_adapters = []\<rparr>"

definition isWirelessInterface :: "LinuxSystem \<Rightarrow> bytes \<Rightarrow> bool" where
  "isWirelessInterface sys ifName = sys_fileExists sys (ascii ''/sys/class/net/'' @ ifName @ ascii ''/wireless'')"

definition init_network :: "LinuxSystem \<Rightarrow> NetworkInformation \<Rightarrow> bool \<times> NetworkInformation" where
  "init_network sys n = (case sys_getifaddrs sys of None \<Rightarrow> (False, n) | Some raw \<Rightarrow> (True, n\<lparr>ni_addrList := raw\<rparr>))"

definition deinit :: "NetworkInformation \<Rightarrow> NetworkInformation" where
  "deinit n = n\<lparr>ni_addrList := [], ni_adapters := []\<rparr>"

definition sockaddrToString :: "LinuxSystem \<Rightarrow> SockAddr \<Rightarrow> bytes" where
  "sockaddrToString sys sa = (case sa of AF_INET a \<Rightarrow> sys_inet_ntop sys a | AF_INET6 a \<Rightarrow> sys_inet_ntop6 sys a | AF_OTHER \<Rightarrow> [])"

definition filterAdapterType :: "LinuxSystem \<Rightarrow> bytes \<Rightarrow> u32 \<Rightarrow> AdapterTypes" where
  "filterAdapterType sys ifName flgs =
     (if flgs AND IFF_LOOPBACK \<noteq> 0 then Loopback
      else if isWirelessInterface sys ifName then WiFi
      else if \<not> sys_fileExists sys (ascii ''/sys/class/net/'' @ ifName @ ascii ''/device'') then Virtual
      else Ethernet)"

definition determinePriority :: "bool \<Rightarrow> AdapterTypes \<Rightarrow> u32 \<Rightarrow> AdapterPriorityInternal" where
  "determinePriority isDefaultRoute type flgs =
     (if type = Loopback then Suppressed
      else if flgs AND IFF_UP = 0 \<or> flgs AND IFF_RUNNING = 0 then Available
      else if \<not> isDefaultRoute then Available
      else if type \<noteq> Ethernet \<and> type \<noteq> WiFi then Available
      else Preferred)"

definition saveAdapter :: "LinuxSystem \<Rightarrow> bytes list \<Rightarrow> NetworkAdapterInternal list \<Rightarrow> ifaddrs \<Rightarrow> NetworkAdapterInternal list" where
  "saveAdapter sys defaultRouteIfNames adapters ifa =
     (case ifa_addr ifa of
        Some (AF_INET a) \<Rightarrow>
          let adapterName = (case ifa_name ifa of Some s \<Rightarrow> s | None \<Rightarrow> []);
              addressString = sockaddrToString sys (AF_INET a);
              subnetMaskString = (case ifa_netmask ifa of Some m \<Rightarrow> sockaddrToString sys m | None \<Rightarrow> []);
              type = filterAdapterType sys adapterName (ifa_flags ifa);
              networkName = networkNameOf type addressString;
              isDefaultRoute = adapterName \<in> set defaultRouteIfNames;
              visibility = determinePriority isDefaultRoute type (ifa_flags ifa)
          in adapters @ [networkAdapterInternal adapterName networkName addressString subnetMaskString
               (makeAdapterId (ucast (sys_if_nametoindex sys adapterName)) addressString) isDefaultRoute type visibility]
      | _ \<Rightarrow> adapters)"

text \<open>
  \<open>std::getline\<close>: the lines of a file. The last one needs no line feed, and an empty rest is not a line.
\<close>

function getlines :: "bytes \<Rightarrow> bytes list" where
  "getlines s =
     (if s = [] then []
      else takeWhile (\<lambda>c. c \<noteq> 10) s # getlines (drop 1 (dropWhile (\<lambda>c. c \<noteq> 10) s)))"
  by pat_completeness auto
termination
proof (relation "measure length")
  fix s :: bytes
  assume "s \<noteq> []"
  moreover have "length (dropWhile (\<lambda>c. c \<noteq> 10) s) \<le> length s"
    by (rule length_dropWhile_le)
  ultimately show "(drop 1 (dropWhile (\<lambda>c. c \<noteq> 10) s), s) \<in> measure length"
    by (cases s) auto
qed simp

declare getlines.simps [simp del]

text \<open>\<open>operator>>\<close> into a string: skips white space, fails at the end of the stream and reads up to white space.\<close>

definition isSpace :: "u8 \<Rightarrow> bool" where
  "isSpace c \<longleftrightarrow> c = 32 \<or> (9 \<le> c \<and> c \<le> 13)"

definition readWord :: "bytes \<Rightarrow> (bytes \<times> bytes) option" where
  "readWord s =
     (let s = dropWhile isSpace s
      in if s = [] then None else Some (takeWhile (\<lambda>c. \<not> isSpace c) s, dropWhile (\<lambda>c. \<not> isSpace c) s))"

text \<open>\<open>std::strtoul\<close> with base 16, of a word.\<close>

definition hexDigit :: "u8 \<Rightarrow> nat option" where
  "hexDigit c =
     (if 48 \<le> c \<and> c \<le> 57 then Some (unat c - 48)
      else if 65 \<le> c \<and> c \<le> 70 then Some (unat c - 55)
      else if 97 \<le> c \<and> c \<le> 102 then Some (unat c - 87)
      else None)"

definition isHex :: "u8 \<Rightarrow> bool" where
  "isHex c \<longleftrightarrow> hexDigit c \<noteq> None"

definition hexValue :: "bytes \<Rightarrow> nat" where
  "hexValue ds = foldl (\<lambda>n c. n * 16 + (case hexDigit c of Some d \<Rightarrow> d | None \<Rightarrow> 0)) 0 ds"

definition skipHexPrefix :: "bytes \<Rightarrow> bytes" where
  "skipHexPrefix s = (case s of c # x # d # rest \<Rightarrow> if c = 48 \<and> (x = 120 \<or> x = 88) \<and> isHex d then d # rest else s | _ \<Rightarrow> s)"

definition strtoul16 :: "bytes \<Rightarrow> u64" where
  "strtoul16 s =
     (let negative = (s \<noteq> [] \<and> hd s = 45);
          s = (if s \<noteq> [] \<and> (hd s = 43 \<or> hd s = 45) then tl s else s);
          n = hexValue (takeWhile isHex (skipHexPrefix s))
      in if n \<ge> 2 ^ 64 then -1 else if negative then - of_nat n else of_nat n)"

definition defaultInterface :: "bytes \<Rightarrow> bytes option" where
  "defaultInterface line =
     do { (iface, s) \<leftarrow> readWord line;
          (destination, s) \<leftarrow> readWord s;
          (gateway, s) \<leftarrow> readWord s;
          (flagsHex, s) \<leftarrow> readWord s;
          if destination \<noteq> ascii ''00000000'' then None
          else if strtoul16 flagsHex AND 0x2 = 0 then None
          else Some iface }"

definition getDefaultInterfaces :: "LinuxSystem \<Rightarrow> bytes list option" where
  "getDefaultInterfaces sys =
     (case sys_route sys of
        None \<Rightarrow> None
      | Some file \<Rightarrow>
          Some (foldl (\<lambda>ifNames line. case defaultInterface line of Some iface \<Rightarrow> List.insert iface ifNames | None \<Rightarrow> ifNames)
                  [] (drop 1 (getlines file))))"

definition processAdapter :: "LinuxSystem \<Rightarrow> NetworkInformation \<Rightarrow> NetworkInformation" where
  "processAdapter sys n =
     (let defaultRouteIfNames = (case getDefaultInterfaces sys of Some names \<Rightarrow> names | None \<Rightarrow> [])
      in n\<lparr>ni_adapters := foldl (saveAdapter sys defaultRouteIfNames) [] (ni_addrList n)\<rparr>)"


section \<open>The routing table of the kernel\<close>

text \<open>
  What \<open>/proc/net/route\<close> holds: a line with the titles, then a line for each route with the interface, the
  destination, the gateway and the flags as hexadecimal numbers of a fixed width, and more fields that
  are not looked at.
\<close>

record Route =
  rt_iface :: bytes
  rt_destination :: u32
  rt_gateway :: u32
  rt_flags :: u16
  rt_more :: bytes

definition hexChar :: "nat \<Rightarrow> u8" where
  "hexChar d = (if d < 10 then of_nat (48 + d) else of_nat (55 + d))"

fun hexText :: "nat \<Rightarrow> nat \<Rightarrow> bytes" where
  "hexText 0 n = []"
| "hexText (Suc k) n = hexText k (n div 16) @ [hexChar (n mod 16)]"

definition routeLine :: "Route \<Rightarrow> bytes" where
  "routeLine r =
     rt_iface r @ 9 # hexText 8 (unat (rt_destination r)) @ 9 # hexText 8 (unat (rt_gateway r)) @
     9 # hexText 4 (unat (rt_flags r)) @ 9 # rt_more r"

definition route_ok :: "Route \<Rightarrow> bool" where
  "route_ok r \<longleftrightarrow> rt_iface r \<noteq> [] \<and> (\<forall>c \<in> set (rt_iface r). \<not> isSpace c) \<and> 10 \<notin> set (rt_more r)"

lemma hexChar_facts:
  assumes "d < 16"
  shows "hexDigit (hexChar d) = Some d" "isHex (hexChar d)" "\<not> isSpace (hexChar d)" "hexChar d \<notin> {10, 43, 45, 88, 120}"
proof -
  have "\<forall>d < 16. hexDigit (hexChar d) = Some d \<and> \<not> isSpace (hexChar d) \<and> hexChar d \<notin> {10, 43, 45, 88, 120}"
    by code_simp
  then show "hexDigit (hexChar d) = Some d" "isHex (hexChar d)" "\<not> isSpace (hexChar d)" "hexChar d \<notin> {10, 43, 45, 88, 120}"
    using assms by (simp_all add: isHex_def)
qed

lemma hexText_chars: "c \<in> set (hexText k n) \<Longrightarrow> isHex c \<and> \<not> isSpace c \<and> c \<notin> {10, 43, 45, 88, 120}"
  by (induction k arbitrary: n) (use hexChar_facts in auto)

lemma hexText_length [simp]: "length (hexText k n) = k"
  by (induction k arbitrary: n) simp_all

lemma hexText_empty [simp]: "hexText k n = [] \<longleftrightarrow> k = 0"
  by (metis hexText_length length_0_conv)

lemma hexText_value: "n < 16 ^ k \<Longrightarrow> hexValue (hexText k n) = n"
proof (induction k arbitrary: n)
  case (Suc k)
  then have "n div 16 < 16 ^ k"
    by (simp add: less_mult_imp_div_less)
  then show ?case
    using Suc.IH [of "n div 16"] hexChar_facts(1) [of "n mod 16"] by (simp add: hexValue_def)
qed (simp add: hexValue_def)

lemma hexText_zero: "n < 16 ^ 8 \<Longrightarrow> hexText 8 n = ascii ''00000000'' \<longleftrightarrow> n = 0"
proof
  have zero: "ascii ''00000000'' = hexText 8 0"
    by code_simp
  assume n: "n < 16 ^ 8"
  show "n = 0" if "hexText 8 n = ascii ''00000000''"
    using hexText_value [OF n] hexText_value [of 0 8] that zero by simp
  show "hexText 8 n = ascii ''00000000''" if "n = 0"
    using zero that by simp
qed

lemma strtoul16_hexText: "n < 16 ^ Suc k \<Longrightarrow> n < 2 ^ 64 \<Longrightarrow> strtoul16 (hexText (Suc k) n) = of_nat n"
proof -
  assume n: "n < 16 ^ Suc k" "n < 2 ^ 64"
  let ?s = "hexText (Suc k) n"
  have chars: "c \<in> set ?s \<Longrightarrow> isHex c \<and> c \<notin> {10, 43, 45, 88, 120}" for c
    using hexText_chars [of c "Suc k" n] by blast
  have ne: "?s \<noteq> []"
    by simp
  then have "hd ?s \<in> set ?s"
    by (rule hd_in_set)
  then have "hd ?s \<noteq> 43" "hd ?s \<noteq> 45"
    using chars by blast+
  moreover have "skipHexPrefix ?s = ?s"
    using chars unfolding skipHexPrefix_def by (cases ?s; cases "tl ?s"; force split: list.splits)
  moreover have "takeWhile isHex ?s = ?s"
    using chars by (simp add: takeWhile_eq_all_conv del: hexText.simps)
  ultimately show ?thesis
    using n ne hexText_value [OF n(1)] by (simp add: strtoul16_def Let_def del: hexText.simps takeWhile_eq_all_conv)
qed

lemma getlines_line: "10 \<notin> set l \<Longrightarrow> getlines (l @ 10 # s) = l # getlines s"
proof -
  assume l: "10 \<notin> set l"
  then have "takeWhile (\<lambda>c. c \<noteq> 10) (l @ 10 # s) = l" "dropWhile (\<lambda>c. c \<noteq> 10) (l @ 10 # s) = 10 # s"
    by (auto simp: takeWhile_append dropWhile_append)
  then show ?thesis
    by (subst getlines.simps) simp
qed

lemma getlines_lines: "\<forall>l \<in> set ls. 10 \<notin> set l \<Longrightarrow> getlines (concat (map (\<lambda>l. l @ [10]) ls)) = ls"
  by (induction ls) (simp_all add: getlines.simps [of "[]"] getlines_line)

lemma readWord_word:
  assumes "w \<noteq> []" "\<forall>c \<in> set w. \<not> isSpace c"
  shows "readWord (w @ 9 # s) = Some (w, 9 # s)" "readWord (9 # w @ 9 # s) = Some (w, 9 # s)"
proof -
  have s: "isSpace 9"
    by (simp add: isSpace_def)
  have d: "dropWhile isSpace (w @ 9 # s) = w @ 9 # s"
    using assms by (cases w) simp_all
  have "takeWhile (\<lambda>c. \<not> isSpace c) (w @ 9 # s) = w" "dropWhile (\<lambda>c. \<not> isSpace c) (w @ 9 # s) = 9 # s"
    using assms(2) s by (simp_all add: takeWhile_append dropWhile_append)
  then show "readWord (w @ 9 # s) = Some (w, 9 # s)" "readWord (9 # w @ 9 # s) = Some (w, 9 # s)"
    using d s assms(1) by (simp_all add: readWord_def Let_def)
qed

lemma readWord_hexText: "0 < k \<Longrightarrow> readWord (9 # hexText k n @ 9 # s) = Some (hexText k n, 9 # s)"
  using hexText_chars [of _ k n] by (intro readWord_word(2)) auto

lemma defaultInterface_route:
  assumes "route_ok r"
  shows "defaultInterface (routeLine r) = (if rt_destination r = 0 \<and> rt_flags r AND 2 \<noteq> 0 then Some (rt_iface r) else None)"
proof -
  have "unat (rt_flags r) < 16 ^ 4" "unat (rt_destination r) < 16 ^ 8"
    using unsigned_less [of "rt_flags r"] unsigned_less [of "rt_destination r"] by simp_all
  moreover have "(of_nat (unat (rt_flags r)) :: u64) AND 2 = 0 \<longleftrightarrow> rt_flags r AND 2 = 0"
  proof -
    have "(of_nat (unat (rt_flags r)) :: u64) = ucast (rt_flags r)"
      by simp
    moreover have "(ucast (rt_flags r) :: u64) AND 2 = ucast (rt_flags r AND 2)"
      by (simp add: unsigned_and_eq)
    moreover have "(ucast x :: u64) = 0 \<longleftrightarrow> x = 0" for x :: u16
      by (metis unat_eq_0 unat_ucast_up(5))
    ultimately show ?thesis
      by simp
  qed
  ultimately show ?thesis
    using assms strtoul16_hexText [of _ 3] hexText_zero
    by (simp add: defaultInterface_def routeLine_def route_ok_def unat_eq_zero readWord_hexText readWord_word(1) del: hexText.simps)
qed


lemma collect_insert:
  "set (foldl (\<lambda>ns l. case f l of Some n \<Rightarrow> List.insert n ns | None \<Rightarrow> ns) acc ls) = set acc \<union> {n. \<exists>l \<in> set ls. f l = Some n}"
  by (induction ls arbitrary: acc) (auto split: option.splits)

lemma routeLine_one_line: "route_ok r \<Longrightarrow> 10 \<notin> set (routeLine r)"
  using hexText_chars unfolding routeLine_def route_ok_def isSpace_def by fastforce

text \<open>C38: The routing table is read as the kernel writes it: the interfaces that are found are exactly those of the
  routes to everywhere, with destination 0, that lead to a gateway.
\<close>

theorem default_routes_exact:
  assumes "10 \<notin> set titles" and "\<forall>r \<in> set routes. route_ok r"
    and "sys_route sys = Some (titles @ [10] @ concat (map (\<lambda>r. routeLine r @ [10]) routes))"
  shows "\<exists>ifNames. getDefaultInterfaces sys = Some ifNames \<and>
    set ifNames = {rt_iface r | r. r \<in> set routes \<and> rt_destination r = 0 \<and> rt_flags r AND 2 \<noteq> 0}"
proof -
  have "getlines (titles @ [10] @ concat (map (\<lambda>r. routeLine r @ [10]) routes)) = titles # map routeLine routes"
    using getlines_line [OF assms(1)] getlines_lines [of "map routeLine routes"] assms(2) routeLine_one_line
    by (simp add: comp_def)
  then have "getDefaultInterfaces sys =
      Some (foldl (\<lambda>ns l. case defaultInterface l of Some n \<Rightarrow> List.insert n ns | None \<Rightarrow> ns) [] (map routeLine routes))"
    using assms(3) by (simp add: getDefaultInterfaces_def)
  then show ?thesis
    using assms(2) defaultInterface_route by (auto simp: collect_insert)
qed


section \<open>The list of adapters\<close>

text \<open>
  What the backends promise: an entry with an IPv4 address becomes one adapter at the end of the list, which
  spells the address so that it is read back and of which \<open>tells\<close> holds; other entries are passed over.
  \<open>lawful\<close> is what a backend relies on.
\<close>

locale adapter_backend =
  fixes save :: "NetworkAdapterInternal list \<Rightarrow> 'e \<Rightarrow> NetworkAdapterInternal list"
    and ipv4 :: "'e \<Rightarrow> IPv4Address option"
    and tells :: "'e \<Rightarrow> NetworkAdapterInternal \<Rightarrow> bool"
    and lawful :: bool
  assumes save_address: "lawful \<Longrightarrow> ipv4 e = Some ip \<Longrightarrow> \<exists>a. save adapters e = adapters @ [a] \<and> tells e a \<and> parse (na_IPv4 a) = Some ip"
    and save_other: "ipv4 e = None \<Longrightarrow> save adapters e = adapters"
begin

lemma saved_after:
  "lawful \<Longrightarrow> \<exists>as. foldl save adapters es = adapters @ as \<and>
     list_all2 (\<lambda>e a. tells e a \<and> parse (na_IPv4 a) = ipv4 e) (filter (\<lambda>e. ipv4 e \<noteq> None) es) as"
proof (induction es arbitrary: adapters)
  case (Cons e es)
  show ?case
  proof (cases "ipv4 e")
    case None
    then show ?thesis
      using Cons.IH [OF Cons.prems, of adapters] save_other by simp
  next
    case (Some ip)
    then obtain a where a: "save adapters e = adapters @ [a]" "tells e a" "parse (na_IPv4 a) = Some ip"
      using save_address [OF Cons.prems] by blast
    then show ?thesis
      using Cons.IH [OF Cons.prems, of "adapters @ [a]"] Some by auto
  qed
qed simp

lemma saved:
  assumes "lawful"
  shows "list_all2 (\<lambda>e a. tells e a \<and> parse (na_IPv4 a) = ipv4 e) (filter (\<lambda>e. ipv4 e \<noteq> None) es) (foldl save [] es)"
  using saved_after [OF assms, of "[]" es] by auto

text \<open>No address is forgotten and none is made up.\<close>

lemma saved_addresses:
  assumes "lawful"
  shows "(\<exists>a \<in> set (foldl save [] es). parse (na_IPv4 a) = Some ip) \<longleftrightarrow> (\<exists>e \<in> set es. ipv4 e = Some ip)"
proof -
  let ?as = "foldl save [] es" and ?es = "filter (\<lambda>e. ipv4 e \<noteq> None) es"
  have spelled: "map (\<lambda>a. parse (na_IPv4 a)) ?as = map ipv4 ?es"
    using saved [OF assms, of es] by (auto simp: list_all2_conv_all_nth intro: nth_equalityI)
  have "(\<exists>a \<in> set ?as. parse (na_IPv4 a) = Some ip) \<longleftrightarrow> Some ip \<in> set (map (\<lambda>a. parse (na_IPv4 a)) ?as)"
    by force
  also have "\<dots> \<longleftrightarrow> (\<exists>e \<in> set es. ipv4 e = Some ip)"
    unfolding spelled by force
  finally show ?thesis .
qed

end


section \<open>The adapters of Linux\<close>

lemma makeAdapterId_nonzero: "makeAdapterId k s \<noteq> 0"
  by (simp add: makeAdapterId_def Let_def)

lemma determinePriority_cases:
  "determinePriority def type flgs = Suppressed \<longleftrightarrow> type = Loopback"
  "determinePriority def type flgs = Preferred \<longleftrightarrow>
     (type = Ethernet \<or> type = WiFi) \<and> def \<and> flgs AND IFF_UP \<noteq> 0 \<and> flgs AND IFF_RUNNING \<noteq> 0"
  by (auto simp: determinePriority_def)

text \<open>What the entry of an IPv4 address tells about its adapter.\<close>

definition describes :: "LinuxSystem \<Rightarrow> ifaddrs \<Rightarrow> NetworkAdapterInternal \<Rightarrow> bool" where
  "describes sys ifa a \<longleftrightarrow>
     na_AdapterName a = (case ifa_name ifa of Some s \<Rightarrow> s | None \<Rightarrow> []) \<and>
     (isValidAdapter a \<longleftrightarrow> na_AdapterName a \<noteq> []) \<and>
     (na_Eligible a \<longleftrightarrow> (\<exists>k \<in> {1..32}. parse (na_Subnet a) = Some (prefix_mask k))) \<and>
     (na_Priority a = Suppressed \<longleftrightarrow> ifa_flags ifa AND IFF_LOOPBACK \<noteq> 0) \<and>
     (na_Priority a = Preferred \<longleftrightarrow>
        ifa_flags ifa AND IFF_LOOPBACK = 0 \<and> ifa_flags ifa AND IFF_UP \<noteq> 0 \<and> ifa_flags ifa AND IFF_RUNNING \<noteq> 0 \<and>
        (\<exists>names. getDefaultInterfaces sys = Some names \<and> na_AdapterName a \<in> set names) \<and>
        (isWirelessInterface sys (na_AdapterName a) \<or>
         sys_fileExists sys (ascii ''/sys/class/net/'' @ na_AdapterName a @ ascii ''/device'')))"

lemma filterSubnetMask_iff: "filterSubnetMask s \<longleftrightarrow> (\<exists>k \<in> {1..32}. parse s = Some (prefix_mask k))"
  by (auto simp: filterSubnetMask_def isNetmask_iff split: option.splits)

lemma parse_nonempty: "parse s = Some a \<Longrightarrow> s \<noteq> []"
  by (simp add: parse_iff toString_def)

definition ipv4_of :: "ifaddrs \<Rightarrow> IPv4Address option" where
  "ipv4_of ifa = (case ifa_addr ifa of Some (AF_INET ip) \<Rightarrow> Some ip | _ \<Rightarrow> None)"

definition default_names :: "LinuxSystem \<Rightarrow> bytes list" where
  "default_names sys = (case getDefaultInterfaces sys of Some names \<Rightarrow> names | None \<Rightarrow> [])"

lemma saveAdapter_describes:
  assumes "sys_inet_ntop sys = toString" and "ipv4_of ifa = Some ip"
  shows "\<exists>a. saveAdapter sys (default_names sys) adapters ifa = adapters @ [a] \<and> describes sys ifa a \<and> parse (na_IPv4 a) = Some ip"
proof -
  have addr: "ifa_addr ifa = Some (AF_INET ip)"
    using assms(2) by (simp add: ipv4_of_def split: option.splits SockAddr.splits)
  have p: "parse (toString ip) = Some ip"
    by (simp add: parse_iff)
  note ne = parse_nonempty [OF p]
  show ?thesis
    using assms(1) addr p ne
    by (cases "getDefaultInterfaces sys"; simp add: saveAdapter_def Let_def describes_def networkAdapterInternal_def sockaddrToString_def
        default_names_def isValidAdapter_def makeAdapterId_nonzero determinePriority_cases filterSubnetMask_iff;
        auto simp: filterAdapterType_def split: option.splits)
qed

interpretation linux_adapters: adapter_backend "saveAdapter sys (default_names sys)" ipv4_of "describes sys" "sys_inet_ntop sys = toString"
  for sys
proof unfold_locales
  show "saveAdapter sys (default_names sys) adapters ifa = adapters" if "ipv4_of ifa = None" for adapters ifa
    using that by (auto simp: ipv4_of_def saveAdapter_def split: option.splits SockAddr.splits)
qed (rule saveAdapter_describes)

lemma linux_adapters_list: "ni_adapters (processAdapter sys n) = foldl (saveAdapter sys (default_names sys)) [] (ni_addrList n)"
  by (simp add: processAdapter_def default_names_def Let_def)


section \<open>An example\<close>

definition demo_routes :: "Route list" where
  "demo_routes =
     [\<lparr>rt_iface = ascii ''eth0'', rt_destination = 0, rt_gateway = 0x0102A8C0, rt_flags = 3, rt_more = ascii ''0'' @ [9, 32]\<rparr>,
      \<lparr>rt_iface = ascii ''docker0'', rt_destination = 0x000011AC, rt_gateway = 0, rt_flags = 1, rt_more = []\<rparr>,
      \<lparr>rt_iface = ascii ''tun0'', rt_destination = 0, rt_gateway = 0, rt_flags = 1, rt_more = []\<rparr>]"

definition demo_ifaddrs :: "ifaddrs list" where
  "demo_ifaddrs =
     [\<lparr>ifa_name = Some (ascii ''lo''), ifa_flags = 0x49, ifa_addr = Some (AF_INET 0x7F000001), ifa_netmask = Some (AF_INET 0xFF000000)\<rparr>,
      \<lparr>ifa_name = Some (ascii ''eth0''), ifa_flags = 0x41, ifa_addr = None, ifa_netmask = None\<rparr>,
      \<lparr>ifa_name = Some (ascii ''eth0''), ifa_flags = 0x41, ifa_addr = Some (AF_INET 0xC0A80205), ifa_netmask = Some (AF_INET 0xFFFFFF00)\<rparr>]"

definition demo_system :: LinuxSystem where
  "demo_system =
     \<lparr>sys_fileExists = (\<lambda>path. path = ascii ''/sys/class/net/eth0/device''), sys_if_nametoindex = (\<lambda>_. 2), sys_inet_ntop = toString,
      sys_inet_ntop6 = (\<lambda>a. a), sys_getifaddrs = Some demo_ifaddrs,
      sys_route = Some (ascii ''Iface'' @ [10] @ concat (map (\<lambda>r. routeLine r @ [10]) demo_routes))\<rparr>"

theorem default_routes_exact_witness:
  "\<exists>ifNames. getDefaultInterfaces demo_system = Some ifNames \<and> set ifNames = {ascii ''eth0''}"
proof -
  have "{rt_iface r |r. r \<in> set demo_routes \<and> rt_destination r = 0 \<and> rt_flags r AND 2 \<noteq> 0} =
      set (map rt_iface (filter (\<lambda>r. rt_destination r = 0 \<and> rt_flags r AND 2 \<noteq> 0) demo_routes))"
    by auto
  also have "\<dots> = {ascii ''eth0''}"
    by code_simp
  finally have "{rt_iface r |r. r \<in> set demo_routes \<and> rt_destination r = 0 \<and> rt_flags r AND 2 \<noteq> 0} = {ascii ''eth0''}" .
  moreover have "\<forall>r \<in> set demo_routes. route_ok r" "10 \<notin> set (ascii ''Iface'')"
    by code_simp+
  ultimately show ?thesis
    using default_routes_exact [of "ascii ''Iface''" demo_routes demo_system] by (simp add: demo_system_def)
qed

end
