(* ===== verification/CoreAdapters.thy ===== *)
theory CoreAdapters
  imports NetworkInformation EngineState
begin

text \<open>
  The choice of the network adapter in \<open>Core/NetLinkCore.cpp\<close>: the members under \<open>mNetworkMutex\<close> and every
  operation on them. What the system answers is an argument, and so is whether a socket can be bound to
  an address. The lemmas show which adapter is taken, that the engine is given the address of the
  selected one, and that the application is told of that one.
\<close>

section \<open>Definitions\<close>

datatype AdapterPriority = Suppressed | Available | Preferred

record NetworkAdapter =
  pub_adapterName :: bytes
  pub_networkName :: bytes
  pub_ipv4 :: bytes
  pub_id :: u64
  pub_priority :: AdapterPriority

definition pub_isValid :: "NetworkAdapter \<Rightarrow> bool" where
  "pub_isValid a \<longleftrightarrow> pub_adapterName a \<noteq> [] \<and> pub_networkName a \<noteq> [] \<and> pub_ipv4 a \<noteq> [] \<and> pub_id a \<noteq> 0"

definition mapPriority :: "AdapterPriorityInternal \<Rightarrow> AdapterPriority" where
  "mapPriority p =
     (case p of AdapterPriorityInternal.Preferred \<Rightarrow> Preferred | AdapterPriorityInternal.Available \<Rightarrow> Available | _ \<Rightarrow> Suppressed)"

definition toPublicAdapter :: "NetworkAdapterInternal \<Rightarrow> NetworkAdapter" where
  "toPublicAdapter a =
     \<lparr>pub_adapterName = na_AdapterName a, pub_networkName = na_NetworkName a, pub_ipv4 = na_IPv4 a, pub_id = na_ID a,
      pub_priority = mapPriority (na_Priority a)\<rparr>"

text \<open>\<open>mNetwork\<close> and \<open>mAdapter\<close>, the selected adapter as it was last seen.\<close>

record CoreNetwork =
  cn_network :: NetworkInformation
  cn_adapter :: NetworkAdapterInternal

definition coreNetwork :: CoreNetwork where
  "coreNetwork = \<lparr>cn_network = networkInformation, cn_adapter = noAdapter\<rparr>"

definition enumerateAdapters :: "LinuxSystem \<Rightarrow> CoreNetwork \<Rightarrow> CoreNetwork" where
  "enumerateAdapters sys c =
     (let (ok, n) = init_network sys (cn_network c) in c\<lparr>cn_network := if ok then processAdapter sys n else n\<rparr>)"

definition selectAdapter :: "CoreNetwork \<Rightarrow> CoreNetwork" where
  "selectAdapter c =
     (let adapters = ni_adapters (cn_network c);
          current = isAdapterCurrentlyAvailable (cn_adapter c) adapters
      in if isValidAdapter (cn_adapter c) \<and> isValidAdapter current then c\<lparr>cn_adapter := current\<rparr>
         else case find (\<lambda>a. isValidAdapter a \<and> na_Priority a = AdapterPriorityInternal.Preferred) adapters of
                Some a \<Rightarrow> c\<lparr>cn_adapter := a\<rparr>
              | None \<Rightarrow>
                  (case find (\<lambda>a. isValidAdapter a \<and> na_Priority a = AdapterPriorityInternal.Available) adapters of
                     Some a \<Rightarrow> c\<lparr>cn_adapter := a\<rparr>
                   | None \<Rightarrow> c))"

definition interfaceOf :: "NetworkAdapterInternal \<Rightarrow> LocalInterface option" where
  "interfaceOf a =
     (case parse (na_IPv4 a) of
        None \<Rightarrow> None
      | Some ip \<Rightarrow> Some \<lparr>if_ip = ip, if_mask = (case parse (na_Subnet a) of Some m \<Rightarrow> m | None \<Rightarrow> unspecified)\<rparr>)"

definition selectedInterface :: "(IPv4Address \<Rightarrow> bool) \<Rightarrow> LinuxSystem \<Rightarrow> CoreNetwork \<Rightarrow> LocalInterface option \<times> CoreNetwork" where
  "selectedInterface canBind sys c =
     (let current = interfaceOf (cn_adapter c)
      in if (case current of Some i \<Rightarrow> canBind (if_ip i) | None \<Rightarrow> False) then (current, c)
         else if \<not> isValidAdapter (cn_adapter c) then (None, c)
         else let c = enumerateAdapters sys c;
                  found = isAdapterCurrentlyAvailable (cn_adapter c) (ni_adapters (cn_network c))
              in if \<not> isValidAdapter found then (None, c)
                 else (interfaceOf found, c\<lparr>cn_adapter := found\<rparr>))"

definition adapterAt :: "bytes \<Rightarrow> CoreNetwork \<Rightarrow> NetworkAdapter" where
  "adapterAt ipv4 c =
     (if isValidAdapter (cn_adapter c) \<and> na_IPv4 (cn_adapter c) = ipv4 then toPublicAdapter (cn_adapter c)
      else \<lparr>pub_adapterName = [], pub_networkName = [], pub_ipv4 = ipv4, pub_id = 0, pub_priority = Suppressed\<rparr>)"

definition getAvailableAdapters :: "LinuxSystem \<Rightarrow> CoreNetwork \<Rightarrow> NetworkAdapter list \<times> CoreNetwork" where
  "getAvailableAdapters sys c =
     (let c = enumerateAdapters sys c in (map toPublicAdapter (ni_adapters (cn_network c)), c))"

text \<open>The section of \<open>setActiveAdapter\<close>; when it succeeds the engine is told to look at the interface.\<close>

definition setActiveAdapter :: "LinuxSystem \<Rightarrow> u64 \<Rightarrow> CoreNetwork \<Rightarrow> bool \<times> CoreNetwork" where
  "setActiveAdapter sys adapterID c =
     (let c = enumerateAdapters sys c
      in case find (\<lambda>a. na_ID a = adapterID) (ni_adapters (cn_network c)) of
           None \<Rightarrow> (False, c)
         | Some chosen \<Rightarrow> (True, c\<lparr>cn_adapter := chosen\<rparr>))"

definition getActiveAdapterID :: "CoreNetwork \<Rightarrow> u64" where
  "getActiveAdapterID c = na_ID (cn_adapter c)"


section \<open>Selection\<close>

lemma enumerateAdapters_adapter [simp]: "cn_adapter (enumerateAdapters sys c) = cn_adapter c"
  by (simp add: enumerateAdapters_def split: prod.splits)

lemma find_SomeD: "find P xs = Some x \<Longrightarrow> x \<in> set xs \<and> P x"
  by (auto simp: find_Some_iff)

lemma found_adapter:
  assumes "isValidAdapter (isAdapterCurrentlyAvailable a adapters)"
  shows "isAdapterCurrentlyAvailable a adapters \<in> set adapters" "sameAdapter (isAdapterCurrentlyAvailable a adapters) a"
  using assms find_SomeD [of "\<lambda>it. sameAdapter it a" adapters]
  by (auto simp: isAdapterCurrentlyAvailable_def isValidAdapter_def noAdapter_def split: option.splits)

lemma available_adapter:
  assumes "a' \<in> set adapters" "sameAdapter a' a" and "\<forall>it \<in> set adapters. sameAdapter it a \<longrightarrow> isValidAdapter it"
  shows "isValidAdapter (isAdapterCurrentlyAvailable a adapters)"
proof (cases "find (\<lambda>it. sameAdapter it a) adapters")
  case None
  then show ?thesis
    using assms(1,2) by (auto simp: find_None_iff)
next
  case (Some it)
  then show ?thesis
    using assms(3) find_SomeD [OF Some] by (simp add: isAdapterCurrentlyAvailable_def)
qed

text \<open>Starting takes the adapter that was chosen before, by its name and netmask, when the system still has it; otherwise
  the best one there is: a preferred one if there is any, else an available one. The loopback and
  adapters without a name are never taken by themselves, and without a candidate nothing changes.
\<close>

theorem selection_best:
  "let adapters = ni_adapters (cn_network c);
       best = cn_adapter (selectAdapter c);
       some = (\<lambda>p. \<exists>a \<in> set adapters. isValidAdapter a \<and> na_Priority a = p)
   in if isValidAdapter (cn_adapter c) \<and> isValidAdapter (isAdapterCurrentlyAvailable (cn_adapter c) adapters)
      then best \<in> set adapters \<and> isValidAdapter best \<and> sameAdapter best (cn_adapter c)
      else if some AdapterPriorityInternal.Preferred
      then best \<in> set adapters \<and> isValidAdapter best \<and> na_Priority best = AdapterPriorityInternal.Preferred
      else if some AdapterPriorityInternal.Available
      then best \<in> set adapters \<and> isValidAdapter best \<and> na_Priority best = AdapterPriorityInternal.Available
      else best = cn_adapter c"
proof -
  let ?adapters = "ni_adapters (cn_network c)"
  have found: "find P ?adapters = Some a \<Longrightarrow> a \<in> set ?adapters \<and> P a" for P a
    by (rule find_SomeD)
  show ?thesis
    using found_adapter [of "cn_adapter c" ?adapters]
    by (auto simp: selectAdapter_def Let_def find_None_iff dest!: found split: option.splits)
qed

text \<open>
  A chosen adapter is found again when its name and netmask are those of one adapter only. An interface
  with two addresses under one netmask is two adapters that are not told apart: then the first one is
  taken, whichever was chosen.
\<close>

lemma choice_kept:
  assumes "setActiveAdapter sys adapterID c = (True, c')" and "isValidAdapter (cn_adapter c')"
    and "\<forall>a \<in> set (ni_adapters (cn_network c')). sameAdapter a (cn_adapter c') \<longrightarrow> a = cn_adapter c'"
  shows "getActiveAdapterID (selectAdapter c') = adapterID"
proof -
  have "cn_adapter c' \<in> set (ni_adapters (cn_network c')) \<and> na_ID (cn_adapter c') = adapterID"
    using assms(1) by (auto simp: setActiveAdapter_def Let_def dest: find_SomeD split: option.splits)
  moreover have "isValidAdapter (isAdapterCurrentlyAvailable (cn_adapter c') (ni_adapters (cn_network c')))"
    using calculation assms(2,3) by (intro available_adapter) (auto simp: sameAdapter_def)
  moreover have "isAdapterCurrentlyAvailable (cn_adapter c') (ni_adapters (cn_network c')) = cn_adapter c'"
    using calculation found_adapter assms(3) by blast
  ultimately show ?thesis
    using assms(2) by (simp add: selectAdapter_def getActiveAdapterID_def Let_def)
qed

definition two_addresses :: "NetworkAdapterInternal list" where
  "two_addresses = map (\<lambda>(ip, ident). networkAdapterInternal (ascii ''eth0'') [] (toString ip) (toString 0xFFFFFF00) ident
     False Ethernet AdapterPriorityInternal.Available) [(0xC0A80105, 7), (0x0A000005, 8)]"

lemma choice_lost:
  assumes "c = \<lparr>cn_network = \<lparr>ni_addrList = [], ni_adapters = two_addresses\<rparr>, cn_adapter = two_addresses ! 1\<rparr>"
  shows "getActiveAdapterID c = 8 \<and> getActiveAdapterID (selectAdapter c) = 7"
  unfolding assms by code_simp


section \<open>The address of the engine\<close>

lemma interfaceOf_ip: "interfaceOf a = Some i \<Longrightarrow> na_IPv4 a = toString (if_ip i)"
  by (auto simp: interfaceOf_def parse_iff split: option.splits)

text \<open>The address the engine is given is that of the selected adapter, which \<open>onNetworkAdapterChanged\<close> then names; it is
  one a socket could be bound to, or the adapter was found anew. An adapter that lost its address for
  another one is followed to the new address, and only to an adapter of the same name and netmask.
\<close>

theorem selected_reported:
  assumes "selectedInterface canBind sys c = (Some i, c')" and "isValidAdapter (cn_adapter c)"
  shows "adapterAt (toString (if_ip i)) c' = toPublicAdapter (cn_adapter c') \<and>
    sameAdapter (cn_adapter c') (cn_adapter c) \<and>
    (canBind (if_ip i) \<and> c' = c \<or> cn_adapter c' \<in> set (ni_adapters (cn_network c')) \<and> isValidAdapter (cn_adapter c'))"
proof (cases "case interfaceOf (cn_adapter c) of Some i \<Rightarrow> canBind (if_ip i) | None \<Rightarrow> False")
  case True
  then have "interfaceOf (cn_adapter c) = Some i" "c' = c" "canBind (if_ip i)"
    using assms(1) by (auto simp: selectedInterface_def Let_def)
  then show ?thesis
    using assms(2) interfaceOf_ip [of "cn_adapter c" i] by (simp add: adapterAt_def sameAdapter_def)
next
  case False
  let ?c = "enumerateAdapters sys c"
  let ?found = "isAdapterCurrentlyAvailable (cn_adapter c) (ni_adapters (cn_network ?c))"
  have "isValidAdapter ?found" "interfaceOf ?found = Some i" "c' = ?c\<lparr>cn_adapter := ?found\<rparr>"
    using assms False by (auto simp: selectedInterface_def Let_def split: if_splits)
  then show ?thesis
    using found_adapter [of "cn_adapter c" "ni_adapters (cn_network ?c)"] interfaceOf_ip [of ?found i] by (simp add: adapterAt_def)
qed

text \<open>With the adapter of the example, which lost its address.\<close>

definition demo_network :: CoreNetwork where
  "demo_network =
     coreNetwork\<lparr>cn_adapter := networkAdapterInternal (ascii ''eth0'') [] (toString 0xC0A80209) (toString 0xFFFFFF00)
       9 True Ethernet AdapterPriorityInternal.Preferred\<rparr>"

lemma demo_selected:
  "fst (selectedInterface (\<lambda>ip. ip = 0xC0A80205) demo_system demo_network) = Some \<lparr>if_ip = 0xC0A80205, if_mask = 0xFFFFFF00\<rparr>"
proof -
  have p: "parse (toString ip) = Some ip" for ip
    by (simp add: parse_iff)
  have ne: "toString ip \<noteq> []" for ip
    by (rule parse_nonempty) (rule p)
  have lo: "toString 0xFF000000 \<noteq> toString 0xFFFFFF00"
    by code_simp
  have "\<exists>a1 a2. ni_adapters (cn_network (enumerateAdapters demo_system demo_network)) = [a1, a2] \<and>
      na_Subnet a1 = toString 0xFF000000 \<and> na_AdapterName a2 = ascii ''eth0'' \<and> na_Subnet a2 = toString 0xFFFFFF00 \<and>
      na_IPv4 a2 = toString 0xC0A80205 \<and> na_ID a2 \<noteq> 0"
    by (simp add: enumerateAdapters_def init_network_def processAdapter_def saveAdapter_def demo_system_def demo_ifaddrs_def
        sockaddrToString_def Let_def networkAdapterInternal_def makeAdapterId_nonzero)
  then obtain a1 a2 where l: "ni_adapters (cn_network (enumerateAdapters demo_system demo_network)) = [a1, a2]" and
    a: "na_Subnet a1 = toString 0xFF000000" "na_AdapterName a2 = ascii ''eth0''" "na_Subnet a2 = toString 0xFFFFFF00"
      "na_IPv4 a2 = toString 0xC0A80205" "na_ID a2 \<noteq> 0"
    by blast
  have valid: "isValidAdapter a2" "isValidAdapter (cn_adapter demo_network)"
    using a ne by (simp_all add: isValidAdapter_def ascii_def demo_network_def networkAdapterInternal_def)
  have "isAdapterCurrentlyAvailable (cn_adapter demo_network) [a1, a2] = a2"
    using a lo by (simp add: isAdapterCurrentlyAvailable_def sameAdapter_def demo_network_def networkAdapterInternal_def)
  moreover have "interfaceOf a2 = Some \<lparr>if_ip = 0xC0A80205, if_mask = 0xFFFFFF00\<rparr>"
    "interfaceOf (cn_adapter demo_network) = Some \<lparr>if_ip = 0xC0A80209, if_mask = 0xFFFFFF00\<rparr>"
    using a p by (simp_all add: interfaceOf_def demo_network_def networkAdapterInternal_def)
  ultimately show ?thesis
    using valid l by (simp add: selectedInterface_def Let_def)
qed

theorem selected_reported_witness:
  "\<exists>c'. selectedInterface (\<lambda>ip. ip = 0xC0A80205) demo_system demo_network = (Some \<lparr>if_ip = 0xC0A80205, if_mask = 0xFFFFFF00\<rparr>, c') \<and>
     adapterAt (toString 0xC0A80205) c' = toPublicAdapter (cn_adapter c')"
proof -
  have "isValidAdapter (cn_adapter demo_network)"
    by code_simp
  then show ?thesis
    using demo_selected
      selected_reported [of "\<lambda>ip. ip = 0xC0A80205" demo_system demo_network "\<lparr>if_ip = 0xC0A80205, if_mask = 0xFFFFFF00\<rparr>"]
    by (cases "selectedInterface (\<lambda>ip. ip = 0xC0A80205) demo_system demo_network") auto
qed

end
