(* ===== verification/TaskQueue.thy ===== *)
theory TaskQueue
  imports Prelude "HOL-Library.Sublist"
begin

text \<open>
  \<open>Util/TaskQueue.h\<close>, the queue of the event thread. Each operation is the sections of it that other
  threads can see, the worker is a state of its own, and \<open>tq_runs\<close> lets the sections of all threads
  interleave in any order. \<open>stop\<close> and \<open>stopAfterDrain\<close> are those of another thread than the worker, which
  the owner of the queue takes care of. The lemmas show that tasks run once and in order, that a task
  that was posted before the queue is drained has run at the end, and that no wake-up is lost.
\<close>

section \<open>Definitions\<close>

text \<open>
  Where the worker is: there is no thread, it waits for the condition variable, it is about to look at the
  queue, it runs a task, or it returned and was not joined yet.
\<close>

datatype 'a Worker = NoWorker | Sleeping | Looking | Working 'a | Ended

record 'a TaskQueue =
  tq_running :: bool
  tq_draining :: bool
  tq_queue :: "'a list"
  tq_worker :: "'a Worker"

definition taskQueue :: "'a TaskQueue" where
  "taskQueue = \<lparr>tq_running = False, tq_draining = False, tq_queue = [], tq_worker = NoWorker\<rparr>"

text \<open>Assigning a thread to one that was not joined ends the process.\<close>

definition tq_start :: "'a TaskQueue \<Rightarrow> 'a TaskQueue option" where
  "tq_start q =
     (if tq_running q then Some q
      else if tq_worker q \<noteq> NoWorker then None
      else Some (q\<lparr>tq_running := True, tq_draining := False, tq_worker := Looking\<rparr>))"

text \<open>\<open>notify_one\<close> and \<open>notify_all\<close> are the same with one worker.\<close>

definition tq_notify :: "'a TaskQueue \<Rightarrow> 'a TaskQueue" where
  "tq_notify q = (if tq_worker q = Sleeping then q\<lparr>tq_worker := Looking\<rparr> else q)"

text \<open>\<open>joinOrDetach\<close> from another thread returns once the worker has ended.\<close>

definition tq_join :: "'a TaskQueue \<Rightarrow> 'a TaskQueue option" where
  "tq_join q = (if tq_worker q = NoWorker then Some q else if tq_worker q = Ended then Some (q\<lparr>tq_worker := NoWorker\<rparr>) else None)"

text \<open>\<open>stop\<close>: the exchange of the flag, the section that empties the queue, then it notifies and joins.\<close>

definition tq_stopFlag :: "'a TaskQueue \<Rightarrow> bool \<times> 'a TaskQueue" where
  "tq_stopFlag q = (tq_running q, q\<lparr>tq_running := False\<rparr>)"

definition tq_discard :: "'a TaskQueue \<Rightarrow> 'a TaskQueue" where
  "tq_discard q = q\<lparr>tq_queue := []\<rparr>"

text \<open>The section of \<open>stopAfterDrain\<close>, and whether it goes on to notify and join.\<close>

definition tq_stopAfterDrain :: "'a TaskQueue \<Rightarrow> bool \<times> 'a TaskQueue" where
  "tq_stopAfterDrain q = (if \<not> tq_running q then (False, q) else (True, q\<lparr>tq_draining := True\<rparr>))"

text \<open>The section of \<open>post\<close>, which notifies afterwards.\<close>

definition tq_post :: "'a \<Rightarrow> 'a TaskQueue \<Rightarrow> 'a TaskQueue" where
  "tq_post task q = q\<lparr>tq_queue := tq_queue q @ [task]\<rparr>"

definition tq_pending :: "'a TaskQueue \<Rightarrow> nat" where
  "tq_pending q = length (tq_queue q)"

text \<open>The section of \<open>run\<close>, with the condition it waits for, and the end of a task.\<close>

definition tq_ready :: "'a TaskQueue \<Rightarrow> bool" where
  "tq_ready q \<longleftrightarrow> tq_queue q \<noteq> [] \<or> \<not> tq_running q \<or> tq_draining q"

definition tq_look :: "'a TaskQueue \<Rightarrow> 'a TaskQueue" where
  "tq_look q =
     (if \<not> tq_ready q then q\<lparr>tq_worker := Sleeping\<rparr>
      else if \<not> tq_running q then q\<lparr>tq_worker := Ended\<rparr>
      else case tq_queue q of
             [] \<Rightarrow> q\<lparr>tq_running := False, tq_worker := Ended\<rparr>
           | task # rest \<Rightarrow> q\<lparr>tq_queue := rest, tq_worker := Working task\<rparr>)"

definition tq_finishTask :: "'a TaskQueue \<Rightarrow> 'a TaskQueue" where
  "tq_finishTask q = q\<lparr>tq_worker := Looking\<rparr>"

text \<open>
  The loop of \<open>run\<close> while no other thread touches the queue: the tasks it runs in the given number of
  rounds.
\<close>

fun tq_run :: "nat \<Rightarrow> 'a TaskQueue \<Rightarrow> 'a list \<times> 'a TaskQueue" where
  "tq_run 0 q = ([], q)"
| "tq_run (Suc n) q =
     (let q = tq_look q
      in case tq_worker q of
           Working task \<Rightarrow> let (tasks, q) = tq_run n (tq_finishTask q) in (task # tasks, q)
         | _ \<Rightarrow> ([], q))"


section \<open>All threads\<close>

text \<open>
  Runs of a queue: the tasks posted so far, the tasks run so far, how many of the posted ones a
  \<open>stopAfterDrain\<close> of the running worker promised to run, how many calls still have to notify, and
  whether a \<open>stop\<close> was called.
\<close>

inductive tq_runs :: "'a list \<Rightarrow> 'a list \<Rightarrow> nat \<Rightarrow> nat \<Rightarrow> bool \<Rightarrow> 'a TaskQueue \<Rightarrow> bool" where
  new: "tq_runs [] [] 0 0 False taskQueue"
| start: "tq_runs posted did due calls stopped q \<Longrightarrow> tq_start q = Some q' \<Longrightarrow> tq_runs posted did due calls stopped q'"
| post: "tq_runs posted did due calls stopped q \<Longrightarrow> tq_runs (posted @ [task]) did due (Suc calls) stopped (tq_post task q)"
| notify: "tq_runs posted did due (Suc calls) stopped q \<Longrightarrow> tq_runs posted did due calls stopped (tq_notify q)"
| drain: "tq_runs posted did due calls stopped q \<Longrightarrow> tq_stopAfterDrain q = (True, q') \<Longrightarrow>
    tq_runs posted did (length posted) (Suc calls) stopped q'"
| stopFlag: "tq_runs posted did due calls stopped q \<Longrightarrow> tq_stopFlag q = (True, q') \<Longrightarrow> tq_runs posted did due (Suc calls) True q'"
| discard: "tq_runs posted did due calls True q \<Longrightarrow> tq_runs posted did due calls True (tq_discard q)"
| join: "tq_runs posted did due calls stopped q \<Longrightarrow> tq_join q = Some q' \<Longrightarrow> tq_runs posted did due calls stopped q'"
| look: "tq_runs posted did due calls stopped q \<Longrightarrow> tq_worker q = Looking \<Longrightarrow> tq_runs posted did due calls stopped (tq_look q)"
| task: "tq_runs posted did due calls stopped q \<Longrightarrow> tq_worker q = Working task \<Longrightarrow>
    tq_runs posted (did @ [task]) due calls stopped (tq_finishTask q)"

definition current :: "'a TaskQueue \<Rightarrow> 'a list" where
  "current q = (case tq_worker q of Working task \<Rightarrow> [task] | _ \<Rightarrow> [])"

definition tq_inv :: "'a list \<Rightarrow> 'a list \<Rightarrow> nat \<Rightarrow> nat \<Rightarrow> bool \<Rightarrow> 'a TaskQueue \<Rightarrow> bool" where
  "tq_inv posted did due calls stopped q \<longleftrightarrow>
     subseq (did @ current q @ tq_queue q) posted \<and> due \<le> length posted \<and>
     (\<not> stopped \<longrightarrow> did @ current q @ tq_queue q = posted \<and> (tq_running q \<longleftrightarrow> tq_worker q \<notin> {NoWorker, Ended}) \<and>
        (\<not> tq_running q \<longrightarrow> due \<le> length did)) \<and>
     (tq_worker q = Sleeping \<and> tq_ready q \<longrightarrow> 0 < calls)"

lemmas tq_defs = tq_start_def tq_notify_def tq_join_def tq_stopFlag_def tq_discard_def tq_stopAfterDrain_def tq_post_def
  tq_ready_def tq_look_def tq_finishTask_def current_def

lemma tq_runs_inv: "tq_runs posted did due calls stopped q \<Longrightarrow> tq_inv posted did due calls stopped q"
proof (induction rule: tq_runs.induct)
  case (post posted did due calls stopped q task)
  have "subseq ((did @ current q @ tq_queue q) @ [task]) (posted @ [task])"
    using post.IH by (simp add: tq_inv_def del: append_assoc)
  then show ?case
    using post.IH by (auto simp: tq_inv_def tq_defs split: Worker.splits)
next
  case (discard posted did due calls q)
  have "subseq ((did @ current q) @ []) ((did @ current q) @ tq_queue q)"
    by (rule list_emb_append_mono) simp_all
  then have "subseq (did @ current q) posted"
    using discard.IH subseq_order.trans unfolding tq_inv_def by fastforce
  then show ?case
    using discard.IH by (auto simp: tq_inv_def tq_defs split: Worker.splits)
next
  case (look posted did due calls stopped q)
  then show ?case
    by (auto simp: tq_inv_def tq_defs split: list.splits)
qed (auto simp: tq_inv_def tq_defs taskQueue_def split: if_splits Worker.splits)


section \<open>Draining\<close>

lemma tq_run_draining:
  assumes "tq_running q" "tq_draining q"
  shows "tq_run (Suc (length (tq_queue q))) q =
    (tq_queue q, q\<lparr>tq_running := False, tq_queue := [], tq_worker := Ended\<rparr>)"
  using assms
proof (induction "tq_queue q" arbitrary: q)
  case Nil
  then show ?case
    by (simp add: tq_look_def tq_ready_def)
next
  case (Cons task rest)
  let ?q = "tq_finishTask (tq_look q)"
  have look: "tq_look q = q\<lparr>tq_queue := rest, tq_worker := Working task\<rparr>"
    using Cons.prems Cons.hyps(2) by (simp add: tq_look_def tq_ready_def flip: Cons.hyps(2))
  then have "tq_run (Suc (length rest)) ?q = (rest, ?q\<lparr>tq_running := False, tq_queue := [], tq_worker := Ended\<rparr>)"
    using Cons.hyps(1) [of ?q] Cons.prems by (simp add: tq_finishTask_def)
  then show ?case
    using look by (simp add: tq_finishTask_def flip: Cons.hyps(2))
qed


section \<open>Properties\<close>

text \<open>C32: The event thread runs tasks in the order they were posted, each at most once, whatever the threads do. Without
  \<open>stop\<close>, which discards tasks, every posted task has run, runs or waits; and once the worker has ended,
  all tasks that were posted before \<open>stopAfterDrain\<close> have run.
\<close>

theorem tasks_in_order:
  assumes "tq_runs posted did due calls stopped q"
  shows "subseq (did @ current q @ tq_queue q) posted \<and>
    (stopped \<or> did @ current q @ tq_queue q = posted) \<and>
    (stopped \<or> tq_worker q \<noteq> Ended \<or> take due posted = take due did)"
proof -
  have "take due posted = take due did" if "did @ rest = posted" "due \<le> length did" for rest
    using that by auto
  then show ?thesis
    using tq_runs_inv [OF assms] unfolding tq_inv_def by blast
qed

text \<open>The event thread never sleeps on work: while it waits for the condition variable and there is a task, or it is
  to end, a call is under way that will wake it. And when the queue is drained with nothing more
  posted, the worker ends after running exactly the tasks that wait.
\<close>

theorem worker_progress:
  "(tq_runs posted did due calls stopped q \<and> tq_worker q = Sleeping \<and> tq_ready q \<longrightarrow> 0 < calls) \<and>
   (tq_running q \<and> tq_draining q \<longrightarrow>
      tq_run (Suc (length (tq_queue q))) q = (tq_queue q, q\<lparr>tq_running := False, tq_queue := [], tq_worker := Ended\<rparr>))"
  using tq_runs_inv [of posted did due calls stopped q] tq_run_draining [of q] by (auto simp: tq_inv_def)


section \<open>An example\<close>

text \<open>Two tasks are posted, the first one runs, and the queue is to be drained.\<close>

definition tq_demo :: "string TaskQueue" where
  "tq_demo = \<lparr>tq_running = True, tq_draining = True, tq_queue = [''b''], tq_worker = Looking\<rparr>"

lemma tq_demo_runs: "tq_runs [''a'', ''b''] [''a''] 2 (Suc (Suc (Suc 0))) False tq_demo"
proof -
  have "tq_runs [] [] 0 0 False (\<lparr>tq_running = True, tq_draining = False, tq_queue = [], tq_worker = Looking\<rparr> :: string TaskQueue)"
    by (rule tq_runs.start [OF tq_runs.new]) (simp add: taskQueue_def tq_start_def)
  from tq_runs.post [OF tq_runs.post [OF this, of "''a''"], of "''b''"]
  have "tq_runs [''a'', ''b''] [] 0 (Suc (Suc 0)) False \<lparr>tq_running = True, tq_draining = False, tq_queue = [''a'', ''b''], tq_worker = Looking\<rparr>"
    by (simp add: tq_post_def)
  from tq_runs.look [OF this]
  have "tq_runs [''a'', ''b''] [] 0 (Suc (Suc 0)) False \<lparr>tq_running = True, tq_draining = False, tq_queue = [''b''], tq_worker = Working ''a''\<rparr>"
    by (simp add: tq_look_def tq_ready_def)
  from tq_runs.task [OF this]
  have "tq_runs [''a'', ''b''] [''a''] 0 (Suc (Suc 0)) False \<lparr>tq_running = True, tq_draining = False, tq_queue = [''b''], tq_worker = Looking\<rparr>"
    by (simp add: tq_finishTask_def)
  from tq_runs.drain [OF this, of tq_demo] show ?thesis
    by (simp add: tq_stopAfterDrain_def tq_demo_def numeral_2_eq_2)
qed

theorem tasks_in_order_witness: "[''a''] @ current tq_demo @ tq_queue tq_demo = [''a'', ''b'']"
  using tasks_in_order [OF tq_demo_runs] by (simp add: tq_demo_def current_def)

theorem worker_progress_witness: "fst (tq_run 2 tq_demo) = [''b''] \<and> tq_worker (snd (tq_run 2 tq_demo)) = Ended"
  using worker_progress [of "[''a'', ''b'']" "[''a'']" 2 "Suc (Suc (Suc 0))" False tq_demo] by (simp add: tq_demo_def eval_nat_numeral)

end
