(* ===== verification/Core.thy ===== *)
theory Core
  imports EngineRun CoreAdapters TaskQueue
begin

text \<open>
  \<open>Core/NetLinkCore.cpp\<close>: the lifecycle of an engine, its thread and the event thread, how the events of
  the engine become callbacks of the application, and the operations that are passed on to the engine.
  A call that waits for a thread is the part before the wait and the part after it; \<open>core_runs\<close> lets the
  threads interleave in any order, over any number of starts and stops. The facade \<open>NetLink.cpp\<close> calls
  these operations and nothing else.
\<close>

section \<open>Configuration and callbacks\<close>

record NetLinkConfig =
  nc_displayName :: bytes
  nc_appId :: bytes
  nc_appVersion :: bytes
  nc_discoveryPort :: u16
  nc_sendQueueBytes :: nat
  nc_maxSendRate :: u32
  nc_peerTimeout :: int

definition netLinkConfig :: NetLinkConfig where
  "netLinkConfig =
     \<lparr>nc_displayName = [], nc_appId = [], nc_appVersion = [], nc_discoveryPort = 5555, nc_sendQueueBytes = 64 * 2 ^ 20,
      nc_maxSendRate = 80000, nc_peerTimeout = 5000\<rparr>"

datatype LogLevel = Debug | Info | Warning | Error

text \<open>Which callbacks the application has set, and a call of one.\<close>

record NetLinkCallbacks =
  cb_onPeerDiscovered :: bool
  cb_onPeerLost :: bool
  cb_onConnectionRequest :: bool
  cb_onConnected :: bool
  cb_onDisconnected :: bool
  cb_onMessage :: bool
  cb_onNetworkAdapterChanged :: bool
  cb_onLog :: bool

datatype Call = OnPeerDiscovered PeerInfo | OnPeerLost PeerId | OnConnectionRequest PeerInfo | OnConnected PeerInfo
  | OnDisconnected PeerId DisconnectReason | OnMessage PeerId PublicLane Message | OnNetworkAdapterChanged NetworkAdapter
  | OnLog LogLevel bytes

text \<open>\<open>NetLinkCoreDependencies\<close>: the timings, and whether the address comes from the dependencies.\<close>

record Dependencies =
  dep_localInterface :: bool
  dep_timings :: LinkTimings

definition engineConfig :: "LinkTimings \<Rightarrow> NetLinkConfig \<Rightarrow> NetLinkCallbacks \<Rightarrow> EngineConfig" where
  "engineConfig timings config callbacks =
     \<lparr>cfg_displayName = nc_displayName config, cfg_appId = nc_appId config, cfg_appVersion = nc_appVersion config,
      cfg_discoveryPort = nc_discoveryPort config, cfg_sendQueueBytes = nc_sendQueueBytes config,
      cfg_maxSendRate = nc_maxSendRate config, cfg_timings = timings\<lparr>peerTimeout := nc_peerTimeout config\<rparr>,
      cfg_autoAccept = (\<not> cb_onConnectionRequest callbacks), cfg_instanceId = 0\<rparr>"


section \<open>The core\<close>

text \<open>
  A task of the event thread: a batch to dispatch, a log line to pass on, or setting the log sink of the
  event thread. The thread of the engine runs its loop, has left it and is not joined, or there is none.
  \<open>co_left\<close> are the events of the batch the event thread is at that it did not dispatch yet.
\<close>

datatype Task = DeliverTask EventBatch NetLinkCallbacks | LogTask NetLinkCallbacks LogLevel bytes | SinkTask NetLinkCallbacks

datatype EngineThread = NoThread | InLoop | LoopEnded

record 'w NetLinkCore =
  co_engine :: "'w Engine option"
  co_thread :: EngineThread
  co_callbacks :: NetLinkCallbacks
  co_events :: "Task TaskQueue"
  co_left :: "EngineEvent list"
  co_network :: CoreNetwork

definition noCallbacks :: NetLinkCallbacks where
  "noCallbacks =
     \<lparr>cb_onPeerDiscovered = False, cb_onPeerLost = False, cb_onConnectionRequest = False, cb_onConnected = False,
      cb_onDisconnected = False, cb_onMessage = False, cb_onNetworkAdapterChanged = False, cb_onLog = False\<rparr>"

definition netLinkCore :: "'w NetLinkCore" where
  "netLinkCore =
     \<lparr>co_engine = None, co_thread = NoThread, co_callbacks = noCallbacks, co_events = taskQueue, co_left = [],
      co_network = coreNetwork\<rparr>"

text \<open>\<open>start\<close>: what it refuses, and what it does once \<open>finish\<close> has returned.\<close>

definition core_isRunning :: "'w NetLinkCore \<Rightarrow> bool" where
  "core_isRunning co = (case co_engine co of Some e \<Rightarrow> mb_running (e_mailbox e) | None \<Rightarrow> False)"

definition startRefused :: "NetLinkConfig \<Rightarrow> bool \<Rightarrow> 'w NetLinkCore \<Rightarrow> bool" where
  "startRefused config onWorkerThread co \<longleftrightarrow> nc_appId config = [] \<or> onWorkerThread \<or> core_isRunning co"

definition startEngine ::
  "bytes \<Rightarrow> u64 \<Rightarrow> Dependencies \<Rightarrow> LinuxSystem \<Rightarrow> NetLinkConfig \<Rightarrow> NetLinkCallbacks \<Rightarrow> 'w \<Rightarrow> 'w NetLinkCore \<Rightarrow> 'w NetLinkCore option" where
  "startEngine libraryVersion randomId deps sys config callbacks w co =
     do { q \<leftarrow> tq_start (co_events co);
          let q = (if cb_onLog callbacks then tq_post (SinkTask callbacks) q else q);
              network = (if dep_localInterface deps then co_network co else selectAdapter (enumerateAdapters sys (co_network co)));
              engine = networkEngine libraryVersion randomId (engineConfig (dep_timings deps) config callbacks) w
          in Some (co\<lparr>co_engine := Some engine, co_thread := InLoop, co_callbacks := callbacks, co_events := q, co_network := network\<rparr>) }"

text \<open>
  \<open>finish\<close>: once the thread of the engine has been joined it lets the event thread drain, and once that
  has been joined the engine is gone.
\<close>

definition finishThread :: "'w NetLinkCore \<Rightarrow> 'w NetLinkCore" where
  "finishThread co = co\<lparr>co_thread := NoThread, co_events := snd (tq_stopAfterDrain (co_events co))\<rparr>"

definition finishEvents :: "'w NetLinkCore \<Rightarrow> 'w NetLinkCore option" where
  "finishEvents co = do { q \<leftarrow> tq_join (co_events co); Some (co\<lparr>co_engine := None, co_events := q\<rparr>) }"

text \<open>\<open>deliver\<close> and \<open>dispatch\<close>.\<close>

definition deliver :: "EventBatch \<Rightarrow> 'w NetLinkCore \<Rightarrow> 'w NetLinkCore" where
  "deliver batch co = co\<lparr>co_events := tq_post (DeliverTask batch (co_callbacks co)) (co_events co)\<rparr>"

definition dispatch :: "CoreNetwork \<Rightarrow> NetLinkCallbacks \<Rightarrow> EngineEvent \<Rightarrow> 'w Engine \<Rightarrow> Call list \<times> 'w Engine" where
  "dispatch network callbacks ev e =
     (case ev_kind ev of
        PeerDiscovered \<Rightarrow> (if cb_onPeerDiscovered callbacks then [OnPeerDiscovered (ev_info ev)] else [], e)
      | PeerLost \<Rightarrow> (if cb_onPeerLost callbacks then [OnPeerLost (ev_peer ev)] else [], e)
      | ConnectionRequest \<Rightarrow> (if cb_onConnectionRequest callbacks then [OnConnectionRequest (ev_info ev)] else [], e)
      | EventKind.Connected \<Rightarrow> (if cb_onConnected callbacks then [OnConnected (ev_info ev)] else [], e)
      | Disconnected \<Rightarrow> (if cb_onDisconnected callbacks then [OnDisconnected (ev_peer ev) (ev_reason ev)] else [], e)
      | EventKind.Message \<Rightarrow>
          (let (m, e) = takeMessage ev e
           in (case m of
                 Some message \<Rightarrow> if cb_onMessage callbacks then [OnMessage (ev_peer ev) (ev_lane ev) message] else []
               | None \<Rightarrow> [], e))
      | AdapterChanged \<Rightarrow>
          (if cb_onNetworkAdapterChanged callbacks then [OnNetworkAdapterChanged (adapterAt (address (ev_info ev)) network)] else [], e))"

text \<open>
  A round of the loop of \<open>NetworkEngine::run\<close> after its step, with the end of the loop, and its way out
  after an exception.
\<close>

definition endLoop :: "'w Environment \<Rightarrow> 'w NetLinkCore \<Rightarrow> 'w NetLinkCore" where
  "endLoop env co = co\<lparr>co_engine := map_option (tellMailbox env (setRunning False)) (co_engine co), co_thread := LoopEnded\<rparr>"

definition afterStep :: "'w Environment \<Rightarrow> EventBatch \<Rightarrow> 'w Engine \<Rightarrow> 'w NetLinkCore \<Rightarrow> 'w NetLinkCore" where
  "afterStep env batch e co =
     (let co = co\<lparr>co_engine := Some e\<rparr>;
          co = (if batch_events batch \<noteq> [] then deliver batch co else co)
      in if finished e then endLoop env co else co)"

definition loopFailed :: "'w Environment \<Rightarrow> 'w Engine \<Rightarrow> 'w NetLinkCore \<Rightarrow> 'w NetLinkCore" where
  "loopFailed env e co =
     (let (batch, e) = fail env e;
          co = co\<lparr>co_engine := Some e\<rparr>;
          co = (if batch_events batch \<noteq> [] then deliver batch co else co)
      in endLoop env co)"

text \<open>Passed on to the engine; \<open>d\<close> is the answer without one.\<close>

definition forward :: "'a \<Rightarrow> (Mailbox \<Rightarrow> 'a \<times> Mailbox) \<Rightarrow> 'w NetLinkCore \<Rightarrow> 'a \<times> 'w NetLinkCore" where
  "forward d f co =
     (case co_engine co of
        None \<Rightarrow> (d, co)
      | Some e \<Rightarrow> let (r, m) = f (e_mailbox e) in (r, co\<lparr>co_engine := Some (e\<lparr>e_mailbox := m\<rparr>)\<rparr>))"

definition core_startDiscovery :: "'w NetLinkCore \<Rightarrow> bool \<times> 'w NetLinkCore" where
  "core_startDiscovery co =
     (if \<not> core_isRunning co then (False, co) else forward False (\<lambda>m. (True, snd (announcing_command True m))) co)"

definition core_stopDiscovery :: "'w NetLinkCore \<Rightarrow> 'w NetLinkCore" where
  "core_stopDiscovery co = snd (forward False (announcing_command False) co)"

definition core_peers :: "'w NetLinkCore \<Rightarrow> PeerInfo list" where
  "core_peers co = fst (forward [] (\<lambda>m. (mb_discovered m, m)) co)"

definition core_connectedPeers :: "'w NetLinkCore \<Rightarrow> PeerId list" where
  "core_connectedPeers co = fst (forward [] (\<lambda>m. (connected m, m)) co)"

definition core_connect :: "(nat \<Rightarrow> Mailbox \<Rightarrow> Mailbox) \<Rightarrow> PeerId \<Rightarrow> 'w NetLinkCore \<Rightarrow> bool \<times> 'w NetLinkCore" where
  "core_connect others peer co = forward False (connect others peer) co"

definition core_accept :: "PeerId \<Rightarrow> 'w NetLinkCore \<Rightarrow> 'w NetLinkCore" where
  "core_accept peer co = snd (forward False (accept peer) co)"

definition core_decline :: "PeerId \<Rightarrow> 'w NetLinkCore \<Rightarrow> 'w NetLinkCore" where
  "core_decline peer co = snd (forward False (decline peer) co)"

definition core_disconnect :: "(Mailbox \<Rightarrow> Mailbox) \<Rightarrow> PeerId \<Rightarrow> 'w NetLinkCore \<Rightarrow> 'w NetLinkCore" where
  "core_disconnect others peer co = snd (forward False (disconnect others peer) co)"

definition core_send ::
  "PeerId \<Rightarrow> u32 \<Rightarrow> bytes \<Rightarrow> PublicLane \<Rightarrow> int \<Rightarrow> (Mailbox \<Rightarrow> Mailbox) \<Rightarrow> 'w NetLinkCore \<Rightarrow> SendResult \<times> 'w NetLinkCore" where
  "core_send peer type data la timeout others co =
     forward NotRunning (\<lambda>m. let (r, ring, m) = send_message peer type data la timeout others m in (r, m)) co"

definition core_broadcast :: "u32 \<Rightarrow> bytes \<Rightarrow> PublicLane \<Rightarrow> 'w NetLinkCore \<Rightarrow> nat \<times> 'w NetLinkCore" where
  "core_broadcast type data la co = forward 0 (\<lambda>m. let (n, ring, m) = broadcast_message type data la m in (n, m)) co"

definition core_stats :: "PeerId \<Rightarrow> 'w NetLinkCore \<Rightarrow> PeerStats option" where
  "core_stats peer co = fst (forward None (\<lambda>m. (stats peer m, m)) co)"

text \<open>\<open>stop\<close> up to the wait of \<open>finish\<close>, and \<open>setActiveAdapter\<close>.\<close>

definition core_stop :: "'w NetLinkCore \<Rightarrow> 'w NetLinkCore" where
  "core_stop co = snd (forward False shutdown co)"

definition core_setActiveAdapter :: "LinuxSystem \<Rightarrow> u64 \<Rightarrow> 'w NetLinkCore \<Rightarrow> bool \<times> 'w NetLinkCore" where
  "core_setActiveAdapter sys adapterID co =
     (let (chosen, network) = setActiveAdapter sys adapterID (co_network co);
          co = co\<lparr>co_network := network\<rparr>
      in if chosen then (True, snd (forward False checkInterface co)) else (False, co))"


section \<open>All threads\<close>

text \<open>
  Runs of the core: the calls of the application so far, and the events the current engine handed over.
  \<open>permitted\<close> says which callbacks the application passes to \<open>start\<close>. Changes of the mailbox, of the
  adapters, and log lines can come from any thread at any time; wake-ups of the event thread too.
\<close>

inductive core_runs ::
  "'w Environment \<Rightarrow> int \<Rightarrow> (NetLinkCallbacks \<Rightarrow> bool) \<Rightarrow> Call list \<Rightarrow> EngineEvent list \<Rightarrow> 'w NetLinkCore \<Rightarrow> bool"
  for env perDatagram permitted where
  create: "core_runs env perDatagram permitted [] [] netLinkCore"
| start: "core_runs env perDatagram permitted calls h co \<Longrightarrow> co_engine co = None \<Longrightarrow> permitted callbacks \<Longrightarrow>
    startEngine libraryVersion randomId deps sys config callbacks w co = Some co' \<Longrightarrow> core_runs env perDatagram permitted calls [] co'"
| step: "core_runs env perDatagram permitted calls h co \<Longrightarrow> co_thread co = InLoop \<Longrightarrow> co_engine co = Some e \<Longrightarrow>
    step env perDatagram now e = Some (batch, e') \<Longrightarrow>
    core_runs env perDatagram permitted calls (h @ batch_events batch) (afterStep env batch e' co)"
| wait: "core_runs env perDatagram permitted calls h co \<Longrightarrow> co_thread co = InLoop \<Longrightarrow> co_engine co = Some e \<Longrightarrow>
    core_runs env perDatagram permitted calls h (co\<lparr>co_engine := Some (noteWait failed e)\<rparr>)"
| failed: "core_runs env perDatagram permitted calls h co \<Longrightarrow> co_thread co = InLoop \<Longrightarrow> co_engine co = Some e \<Longrightarrow>
    core_runs env perDatagram permitted calls (h @ batch_events (fst (fail env e))) (loopFailed env e co)"
| finishThread: "core_runs env perDatagram permitted calls h co \<Longrightarrow> co_thread co = LoopEnded \<Longrightarrow>
    core_runs env perDatagram permitted calls h (finishThread co)"
| finishEvents: "core_runs env perDatagram permitted calls h co \<Longrightarrow> co_engine co \<noteq> None \<Longrightarrow> co_thread co = NoThread \<Longrightarrow>
    finishEvents co = Some co' \<Longrightarrow> core_runs env perDatagram permitted calls h co'"
| look: "core_runs env perDatagram permitted calls h co \<Longrightarrow> tq_worker (co_events co) = Looking \<Longrightarrow> q = tq_look (co_events co) \<Longrightarrow>
    core_runs env perDatagram permitted calls h
      (co\<lparr>co_events := q, co_left := (case tq_worker q of Working (DeliverTask batch _) \<Rightarrow> batch_events batch | _ \<Rightarrow> [])\<rparr>)"
| dispatch: "core_runs env perDatagram permitted calls h co \<Longrightarrow> tq_worker (co_events co) = Working (DeliverTask batch callbacks) \<Longrightarrow>
    co_left co = ev # evs \<Longrightarrow> co_engine co = Some e \<Longrightarrow> dispatch (co_network co) callbacks ev e = (new, e') \<Longrightarrow>
    core_runs env perDatagram permitted (calls @ new) h (co\<lparr>co_engine := Some e', co_left := evs\<rparr>)"
| dispatched: "core_runs env perDatagram permitted calls h co \<Longrightarrow> tq_worker (co_events co) = Working (DeliverTask batch callbacks) \<Longrightarrow>
    co_left co = [] \<Longrightarrow> co_engine co = Some e \<Longrightarrow>
    core_runs env perDatagram permitted calls h (co\<lparr>co_engine := Some (dropBatch batch e), co_events := tq_finishTask (co_events co)\<rparr>)"
| logged: "core_runs env perDatagram permitted calls h co \<Longrightarrow> tq_worker (co_events co) = Working (LogTask callbacks level line) \<Longrightarrow>
    core_runs env perDatagram permitted (calls @ [OnLog level line]) h (co\<lparr>co_events := tq_finishTask (co_events co)\<rparr>)"
| sink: "core_runs env perDatagram permitted calls h co \<Longrightarrow> tq_worker (co_events co) = Working (SinkTask callbacks) \<Longrightarrow>
    core_runs env perDatagram permitted calls h (co\<lparr>co_events := tq_finishTask (co_events co)\<rparr>)"
| log: "core_runs env perDatagram permitted calls h co \<Longrightarrow>
    core_runs env perDatagram permitted calls h (co\<lparr>co_events := tq_post (LogTask callbacks level line) (co_events co)\<rparr>)"
| notify: "core_runs env perDatagram permitted calls h co \<Longrightarrow>
    core_runs env perDatagram permitted calls h (co\<lparr>co_events := tq_notify (co_events co)\<rparr>)"
| mailbox: "core_runs env perDatagram permitted calls h co \<Longrightarrow>
    core_runs env perDatagram permitted calls h (snd (forward () f co))"
| network: "core_runs env perDatagram permitted calls h co \<Longrightarrow>
    core_runs env perDatagram permitted calls h (co\<lparr>co_network := n\<rparr>)"

text \<open>What a call says of a peer.\<close>

fun call_kind :: "Call \<Rightarrow> (PeerId \<times> EventKind) option" where
  "call_kind (OnPeerDiscovered i) = Some (peer_id i, PeerDiscovered)"
| "call_kind (OnPeerLost p) = Some (p, PeerLost)"
| "call_kind (OnConnectionRequest i) = Some (peer_id i, ConnectionRequest)"
| "call_kind (OnConnected i) = Some (peer_id i, EventKind.Connected)"
| "call_kind (OnDisconnected p r) = Some (p, Disconnected)"
| "call_kind (OnMessage p la m) = Some (p, EventKind.Message)"
| "call_kind (OnNetworkAdapterChanged a) = None"
| "call_kind (OnLog l s) = None"

definition call_kinds :: "PeerId \<Rightarrow> Call list \<Rightarrow> EventKind list" where
  "call_kinds pid calls = map snd (filter (\<lambda>(p, k). p = pid) (List.map_filter call_kind calls))"

lemma call_kinds_append [simp]: "call_kinds pid (a @ b) = call_kinds pid a @ call_kinds pid b"
  by (simp add: call_kinds_def List.map_filter_def)

lemma dispatch_calls:
  assumes "dispatch network callbacks ev e = (new, e')"
  shows "call_kinds pid new = [] \<or> call_kinds pid new = kinds_of pid [ev]"
    and "ev_kind ev = EventKind.Connected \<and> cb_onConnected callbacks \<or> ev_kind ev = Disconnected \<and> cb_onDisconnected callbacks \<Longrightarrow>
      call_kinds pid new = kinds_of pid [ev]"
  using assms
  by (cases "ev_kind ev"; simp add: dispatch_def kinds_of_def call_kinds_def List.map_filter_def about_def split_beta
      split: if_splits option.splits; auto)+

lemma dispatch_kinds:
  assumes "cb_onConnected callbacks" "cb_onDisconnected callbacks" and "dispatch network callbacks ev e = (new, e')"
    and "session_run up (kinds_of pid [ev]) = Some up'"
  shows "session_run up (call_kinds pid new) = Some up'"
proof (cases "call_kinds pid new = kinds_of pid [ev]")
  case False
  then have "call_kinds pid new = []" "ev_kind ev \<noteq> EventKind.Connected" "ev_kind ev \<noteq> Disconnected"
    using dispatch_calls [OF assms(3), of pid] assms(1,2) by auto
  moreover have "up' = up"
    using calculation(2,3) assms(4) by (cases "ev_kind ev") (auto simp: kinds_of_def split: if_splits)
  ultimately show ?thesis
    by simp
qed (simp add: assms(4))

lemma dispatch_core: "dispatch network callbacks ev e = (new, e') \<Longrightarrow> same_core e e'"
  using takeMessage_core [of ev e] by (auto simp: dispatch_def split: EventKind.splits prod.splits)

text \<open>The events that wait for the event thread.\<close>

fun task_events :: "Task \<Rightarrow> EngineEvent list" where
  "task_events (DeliverTask batch callbacks) = batch_events batch"
| "task_events _ = []"

definition delivering :: "Task TaskQueue \<Rightarrow> bool" where
  "delivering q = (case tq_worker q of Working (DeliverTask _ _) \<Rightarrow> True | _ \<Rightarrow> False)"

definition pending_events :: "'w NetLinkCore \<Rightarrow> EngineEvent list" where
  "pending_events co =
     (if delivering (co_events co) then co_left co else []) @
     concat (map task_events (tq_queue (co_events co)))"

fun task_ok :: "(NetLinkCallbacks \<Rightarrow> bool) \<Rightarrow> Task \<Rightarrow> bool" where
  "task_ok permitted (DeliverTask batch callbacks) = permitted callbacks"
| "task_ok permitted _ = True"

definition is_deliver :: "Task \<Rightarrow> bool" where
  "is_deliver t \<longleftrightarrow> (\<exists>batch callbacks. t = DeliverTask batch callbacks)"

text \<open>The invariant: of the event thread, and of the engine.\<close>

definition events_inv :: "(NetLinkCallbacks \<Rightarrow> bool) \<Rightarrow> 'w NetLinkCore \<Rightarrow> bool" where
  "events_inv permitted co \<longleftrightarrow>
     (let q = co_events co; tasks = current q @ tq_queue q
      in (\<forall>t \<in> set tasks. task_ok permitted t) \<and> (tq_running q \<longleftrightarrow> tq_worker q \<notin> {NoWorker, Ended}) \<and>
         (co_thread co \<noteq> NoThread \<longrightarrow> co_engine co \<noteq> None \<and> tq_running q \<and> \<not> tq_draining q \<and> permitted (co_callbacks co)) \<and>
         (co_engine co = None \<longrightarrow> tq_worker q = NoWorker) \<and>
         (tq_worker q \<in> {NoWorker, Ended} \<longrightarrow> (\<forall>t \<in> set tasks. \<not> is_deliver t)))"

definition told_inv :: "Call list \<Rightarrow> EngineEvent list \<Rightarrow> 'w NetLinkCore \<Rightarrow> bool" where
  "told_inv calls h co \<longleftrightarrow>
     (case co_engine co of
        None \<Rightarrow> \<forall>pid. session_run False (call_kinds pid calls) = Some False
      | Some e \<Rightarrow>
          eng_inv {} h e \<and> e_events e = [] \<and>
          (\<exists>before. h = before @ pending_events co \<and>
             (\<forall>pid. session_run False (call_kinds pid calls) = session_run False (kinds_of pid before))) \<and>
          (co_thread co \<noteq> InLoop \<longrightarrow> (\<forall>pid. session_run False (kinds_of pid h) = Some False)))"


text \<open>All operations that are passed on are steps of that kind, whatever they return.\<close>

lemma forward_state: "snd (forward d f co) = snd (forward () (\<lambda>m. ((), snd (f m))) co)"
  by (simp add: forward_def split: option.splits prod.splits)

lemma forward_fields:
  "co_thread (snd (forward d f co)) = co_thread co" "co_events (snd (forward d f co)) = co_events co"
  "co_left (snd (forward d f co)) = co_left co" "co_callbacks (snd (forward d f co)) = co_callbacks co"
  "(co_engine (snd (forward d f co)) = None) = (co_engine co = None)"
  by (simp_all add: forward_def split: option.splits prod.splits)

lemma afterStep_fields:
  "co_events (afterStep env batch e co) =
     (if batch_events batch \<noteq> [] then tq_post (DeliverTask batch (co_callbacks co)) (co_events co) else co_events co)"
  "co_thread (afterStep env batch e co) = (if finished e then LoopEnded else co_thread co)"
  "co_engine (afterStep env batch e co) = Some (if finished e then tellMailbox env (setRunning False) e else e)"
  "co_callbacks (afterStep env batch e co) = co_callbacks co" "co_left (afterStep env batch e co) = co_left co"
  by (simp_all add: afterStep_def Let_def deliver_def endLoop_def)

lemma loopFailed_fields:
  "co_events (loopFailed env e co) =
     (let batch = fst (fail env e)
      in if batch_events batch \<noteq> [] then tq_post (DeliverTask batch (co_callbacks co)) (co_events co) else co_events co)"
  "co_thread (loopFailed env e co) = LoopEnded"
  "co_engine (loopFailed env e co) = Some (tellMailbox env (setRunning False) (snd (fail env e)))"
  "co_callbacks (loopFailed env e co) = co_callbacks co" "co_left (loopFailed env e co) = co_left co"
  by (simp_all add: loopFailed_def Let_def deliver_def endLoop_def split_beta)

lemmas core_fields = forward_fields afterStep_fields loopFailed_fields

lemma runs_events: "core_runs env n permitted calls h co \<Longrightarrow> events_inv permitted co"
proof (induction rule: core_runs.induct)
  case create
  then show ?case
    by (simp add: events_inv_def netLinkCore_def taskQueue_def current_def)
next
  case (start calls h co callbacks v r deps sys config w co')
  then show ?case
    by (auto simp: events_inv_def startEngine_def tq_defs Let_def Option.bind_eq_Some_conv is_deliver_def split: if_splits)
next
  case (look calls h co q)
  then show ?case
    by (auto simp: events_inv_def tq_defs Let_def split: list.splits)
next
  case (finishEvents calls h co co')
  then show ?case
    by (auto simp: events_inv_def finishEvents_def tq_join_def current_def Let_def Option.bind_eq_Some_conv split: if_splits)
qed (auto simp: events_inv_def core_fields tq_defs Let_def finishThread_def finishEvents_def Option.bind_eq_Some_conv is_deliver_def
    split: if_splits Worker.splits)


lemma told_core:
  assumes "told_inv calls h co" and "co_engine co = Some e" "co_engine co' = Some e'" "same_core e e'"
    and "pending_events co' = pending_events co" "co_thread co' = co_thread co"
  shows "told_inv calls h co'"
  using assms quiet_core [OF assms(4), of h] by (simp add: told_inv_def)

lemma pending_post: "pending_events (co\<lparr>co_events := tq_post t (co_events co)\<rparr>) = pending_events co @ task_events t"
  by (simp add: pending_events_def tq_post_def delivering_def)

text \<open>More events of the engine, whose loop goes on or ends.\<close>

lemma told_more:
  assumes "told_inv calls h co" and e: "co_engine co = Some e" and inv: "eng_inv {} (h @ evs) e'" "e_events e' = []"
    and co': "co_engine co' = Some e''" "same_core e' e''" "pending_events co' = pending_events co @ evs"
    and ended: "co_thread co' \<noteq> InLoop \<Longrightarrow> \<forall>pid. \<not> live_in pid e'"
  shows "told_inv calls (h @ evs) co'"
proof -
  have "session_run False (kinds_of pid (h @ evs)) = Some (live_in pid e')" for pid
    using inv_parts(6) [OF inv(1), of pid] inv(2) by simp
  then show ?thesis
    using assms(1) e co' quiet_core [OF co'(2), of "h @ evs"] inv ended by (auto simp: told_inv_def)
qed

lemma finished_quiet: "finished e \<Longrightarrow> \<not> live_in pid e"
  by (simp add: finished_def live_in_def findPeer_def)

lemma fail_quiet: "\<not> live_in pid (snd (fail env e))"
  by (simp add: fail_def takeBatch_def Let_def live_in_def findPeer_def endAllSessions_def)

lemma pending_same:
  "co_events co' = co_events co \<Longrightarrow> co_left co' = co_left co \<Longrightarrow> pending_events co' = pending_events co"
  by (simp add: pending_events_def)

lemma pending_deliver:
  assumes "co_events co' = (if batch_events batch \<noteq> [] then tq_post (DeliverTask batch (co_callbacks co)) (co_events co) else co_events co)"
    and "co_left co' = co_left co"
  shows "pending_events co' = pending_events co @ batch_events batch"
  using assms by (simp add: pending_events_def tq_post_def delivering_def)

lemma dispatch_told:
  assumes "told_inv calls h co" "cb_onConnected callbacks" "cb_onDisconnected callbacks"
    and w: "tq_worker (co_events co) = Working (DeliverTask batch callbacks)" and left: "co_left co = ev # evs"
    and e: "co_engine co = Some e" and d: "dispatch (co_network co) callbacks ev e = (new, e')"
  shows "told_inv (calls @ new) h (co\<lparr>co_engine := Some e', co_left := evs\<rparr>)"
proof -
  let ?co = "co\<lparr>co_engine := Some e', co_left := evs\<rparr>"
  obtain before where b: "h = before @ pending_events co"
      "\<And>pid. session_run False (call_kinds pid calls) = session_run False (kinds_of pid before)"
    using assms(1) e by (auto simp: told_inv_def)
  have pend: "pending_events co = ev # pending_events ?co"
    using w left by (simp add: pending_events_def delivering_def)
  have inv: "eng_inv {} h e" "e_events e = []"
    using assms(1) e by (simp_all add: told_inv_def)
  have "session_run False (call_kinds pid (calls @ new)) = session_run False (kinds_of pid (before @ [ev]))" for pid
  proof -
    have "session_run False (kinds_of pid h) \<noteq> None"
      using inv_parts(6) [OF inv(1), of pid] inv(2) by simp
    moreover have "kinds_of pid h = kinds_of pid before @ kinds_of pid [ev] @ kinds_of pid (pending_events ?co)"
      unfolding b(1) pend using kinds_of_append [of pid "[ev]" "pending_events ?co"] by simp
    ultimately obtain up up' where "session_run False (kinds_of pid before) = Some up" "session_run up (kinds_of pid [ev]) = Some up'"
      by (auto simp: session_run_append Option.bind_eq_Some_conv)
    then show ?thesis
      using b(2) [of pid] dispatch_kinds [OF assms(2,3) d] by (simp add: session_run_append)
  qed
  then show ?thesis
    using assms(1) e b(1) pend quiet_core [OF dispatch_core [OF d], of h] inv by (auto simp: told_inv_def intro!: exI [of _ "before @ [ev]"])
qed


lemma pending_look:
  assumes "tq_worker (co_events co) = Looking" and "q = tq_look (co_events co)"
  shows "pending_events (co\<lparr>co_events := q, co_left := (case tq_worker q of Working (DeliverTask batch _) \<Rightarrow> batch_events batch | _ \<Rightarrow> [])\<rparr>) =
    pending_events co"
  using assms by (auto simp: pending_events_def delivering_def tq_look_def tq_ready_def split: list.splits Task.splits)

lemma pending_finish:
  assumes "tq_worker (co_events co) = Working t" and "is_deliver t \<Longrightarrow> co_left co = []"
  shows "pending_events (co\<lparr>co_engine := x, co_events := tq_finishTask (co_events co)\<rparr>) = pending_events co"
    and "pending_events (co\<lparr>co_events := tq_finishTask (co_events co)\<rparr>) = pending_events co"
  using assms by (auto simp: pending_events_def delivering_def tq_finishTask_def is_deliver_def split: Task.splits)

lemma pending_idle:
  assumes "tq_worker (co_events co) \<in> {NoWorker, Ended}" and "\<forall>t \<in> set (tq_queue (co_events co)). \<not> is_deliver t"
  shows "pending_events co = []"
proof -
  have "task_events t = []" if "\<not> is_deliver t" for t
    using that by (cases t) (simp_all add: is_deliver_def)
  then show ?thesis
    using assms by (auto simp: pending_events_def delivering_def)
qed

lemma told_same:
  assumes "told_inv calls h co" and "co_engine co' = co_engine co" "pending_events co' = pending_events co"
    and "co_thread co = InLoop \<Longrightarrow> co_thread co' = InLoop"
  shows "told_inv calls h co'"
  using assms by (auto simp: told_inv_def split: option.splits)

lemma start_told:
  assumes "told_inv calls h co" "events_inv permitted co" "co_engine co = None"
    and "startEngine v r deps sys config callbacks w co = Some co'"
  shows "told_inv calls [] co'"
proof -
  have "tq_worker (co_events co) = NoWorker" "\<forall>t \<in> set (tq_queue (co_events co)). \<not> is_deliver t"
    using assms(2,3) by (simp_all add: events_inv_def Let_def)
  then have "pending_events co = []"
    by (intro pending_idle) simp_all
  then have "pending_events co' = []" "co_thread co' = InLoop"
      "co_engine co' = Some (networkEngine v r (engineConfig (dep_timings deps) config callbacks) w)"
    using assms(4) by (auto simp: startEngine_def Let_def Option.bind_eq_Some_conv pending_events_def delivering_def tq_start_def
        tq_post_def split: if_splits)
  moreover have "e_events (networkEngine v r c w) = []" for c
    by (simp add: networkEngine_def Let_def)
  ultimately show ?thesis
    using assms(1,3) init_inv by (simp add: told_inv_def kinds_of_def)
qed

lemma step_told:
  assumes told: "told_inv calls h co" and "co_thread co = InLoop" and e: "co_engine co = Some e"
    and s: "step env n now e = Some (batch, e')"
  shows "told_inv calls (h @ batch_events batch) (afterStep env batch e' co)"
proof -
  have "eng_inv {} h e" "e_events e = []"
    using told e by (simp_all add: told_inv_def)
  then have "eng_inv {} (h @ batch_events batch) e'" "e_events e' = []"
    using step_inv [of h e env n now batch e'] s takeBatch_events by (auto simp: step_def Option.bind_eq_Some_conv)
  then show ?thesis
    by (rule told_more [OF told e])
       (use assms(2) finished_quiet in \<open>auto simp: core_fields intro!: pending_deliver same_core_tell(1) split: if_splits\<close>)
qed

lemma failed_told:
  assumes told: "told_inv calls h co" and e: "co_engine co = Some e"
  shows "told_inv calls (h @ batch_events (fst (fail env e))) (loopFailed env e co)"
proof -
  obtain batch e' where f: "fail env e = (batch, e')"
    by fastforce
  have "eng_inv {} h e" "e_events e = []"
    using told e by (simp_all add: told_inv_def)
  then have "eng_inv {} (h @ batch_events batch) e'" "e_events e' = []"
    using fail_inv [OF _ _ f] f takeBatch_events by (auto simp: fail_def)
  then have "told_inv calls (h @ batch_events batch) (loopFailed env e co)"
    by (rule told_more [OF told e])
       (use fail_quiet [of _ env e] f in \<open>auto simp: core_fields intro!: pending_deliver same_core_tell(1)\<close>)
  then show ?thesis
    by (simp add: f)
qed

lemma finishEvents_told:
  assumes "told_inv calls h co" "events_inv permitted co" "co_engine co \<noteq> None" "co_thread co = NoThread" and "finishEvents co = Some co'"
  shows "told_inv calls h co'"
proof -
  have "tq_worker (co_events co) \<in> {NoWorker, Ended}" and co': "co_engine co' = None"
    using assms(5) by (auto simp: finishEvents_def tq_join_def Option.bind_eq_Some_conv split: if_splits)
  then have "pending_events co = []"
    using assms(2) by (intro pending_idle) (auto simp: events_inv_def Let_def)
  then show ?thesis
    using assms(1,3,4) co' by (auto simp: told_inv_def)
qed

lemma forward_told: "told_inv calls h co \<Longrightarrow> told_inv calls h (snd (forward d f co))"
proof (cases "co_engine co")
  case (Some e)
  assume "told_inv calls h co"
  then show ?thesis
    by (rule told_core [OF _ Some, of _ _ _ "e\<lparr>e_mailbox := snd (f (e_mailbox e))\<rparr>"])
       (simp_all add: forward_fields forward_def Some split_beta pending_events_def)
qed (simp add: forward_def)

lemma runs_told:
  assumes set_cb: "\<And>c. permitted c \<Longrightarrow> cb_onConnected c \<and> cb_onDisconnected c"
  shows "core_runs env n permitted calls h co \<Longrightarrow> told_inv calls h co"
proof (induction rule: core_runs.induct)
  case create
  then show ?case
    by (simp add: told_inv_def netLinkCore_def call_kinds_def List.map_filter_def)
next
  case (start calls h co callbacks v r deps sys config w co')
  show ?case
    by (rule start_told [OF start.IH runs_events [OF start.hyps(1)] start.hyps(2,4)])
next
  case (wait calls h co e failed)
  then show ?case
    by (intro told_core [OF wait.IH wait.hyps(3), of _ "noteWait failed e"] noteWait_core) (simp_all add: pending_events_def)
next
  case (finishThread calls h co)
  then show ?case
    by (intro told_same [OF finishThread.IH]) (simp_all add: finishThread_def pending_events_def delivering_def tq_stopAfterDrain_def)
next
  case (finishEvents calls h co co')
  show ?case
    by (rule finishEvents_told [OF finishEvents.IH runs_events [OF finishEvents.hyps(1)] finishEvents.hyps(2-)])
next
  case (look calls h co q)
  show ?case
    by (rule told_same [OF look.IH]) (simp_all add: pending_look [OF look.hyps(2,3)])
next
  case (dispatch calls h co batch callbacks ev evs e new e')
  have "permitted callbacks"
    using runs_events [OF dispatch.hyps(1)] dispatch.hyps(2) by (simp add: events_inv_def current_def Let_def)
  then show ?case
    using set_cb dispatch_told [OF dispatch.IH _ _ dispatch.hyps(2-5)] by blast
next
  case (dispatched calls h co batch callbacks e)
  then show ?case
    by (intro told_core [OF dispatched.IH dispatched.hyps(4), of _ "dropBatch batch e"] dropBatch_core pending_finish(1)) simp_all
next
  case (logged calls h co callbacks level line)
  have "told_inv calls h (co\<lparr>co_events := tq_finishTask (co_events co)\<rparr>)"
    by (intro told_same [OF logged.IH] pending_finish(2) [OF logged.hyps(2)]) (simp_all add: is_deliver_def)
  then show ?case
    by (simp add: told_inv_def call_kinds_def List.map_filter_def split: option.splits)
next
  case (sink calls h co callbacks)
  show ?case
    by (intro told_same [OF sink.IH] pending_finish(2) [OF sink.hyps(2)]) (simp_all add: is_deliver_def)
next
  case (log calls h co callbacks level line)
  show ?case
    by (rule told_same [OF log.IH]) (simp_all add: pending_post)
qed (auto intro: step_told failed_told forward_told elim: told_same simp: pending_events_def delivering_def tq_notify_def)


lemma calls_follow_protocol:
  assumes "\<forall>c. permitted c \<longrightarrow> cb_onConnected c \<and> cb_onDisconnected c" and "core_runs env perDatagram permitted calls h co"
  shows "\<exists>up. session_run False (call_kinds pid calls) = Some up \<and> (co_engine co = None \<longrightarrow> \<not> up)"
proof (cases "co_engine co")
  case None
  then show ?thesis
    using runs_told [of permitted, OF _ assms(2)] assms(1) by (auto simp: told_inv_def)
next
  case (Some e)
  then obtain before where "h = before @ pending_events co" "eng_inv {} h e" "e_events e = []"
      "session_run False (call_kinds pid calls) = session_run False (kinds_of pid before)"
    using runs_told [of permitted, OF _ assms(2)] assms(1) by (auto simp: told_inv_def)
  then show ?thesis
    using inv_parts(6) [of "{}" h e pid] Some by (auto simp: session_run_append Option.bind_eq_Some_conv)
qed


section \<open>Properties\<close>


text \<open>The life of the core is sound: with an engine whose loop runs the event thread takes tasks and is not asked to end, so every
  batch has somebody to run it; and without an engine there is no event thread, nothing of an engine is
  left to dispatch, and \<open>start\<close> does not replace a thread that was not joined.
\<close>

theorem core_lifecycle:
  assumes "core_runs env perDatagram permitted calls h co"
  shows "(co_thread co \<noteq> NoThread \<longrightarrow> co_engine co \<noteq> None \<and> tq_running (co_events co) \<and> \<not> tq_draining (co_events co)) \<and>
    (co_engine co = None \<longrightarrow> tq_worker (co_events co) = NoWorker \<and> pending_events co = [] \<and>
       startEngine libraryVersion randomId deps sys config callbacks w co \<noteq> None)"
proof -
  have inv: "events_inv permitted co"
    by (rule runs_events [OF assms])
  moreover have "pending_events co = []" if "co_engine co = None"
    using inv that by (intro pending_idle) (auto simp: events_inv_def Let_def)
  ultimately show ?thesis
    by (auto simp: events_inv_def Let_def startEngine_def tq_start_def)
qed


section \<open>A run\<close>

text \<open>The engine of the example before, started by an application that sets all callbacks.\<close>

definition demo_callbacks :: NetLinkCallbacks where
  "demo_callbacks =
     \<lparr>cb_onPeerDiscovered = True, cb_onPeerLost = True, cb_onConnectionRequest = True, cb_onConnected = True,
      cb_onDisconnected = True, cb_onMessage = True, cb_onNetworkAdapterChanged = True, cb_onLog = False\<rparr>"

definition demo_start :: "nat NetLinkCore option" where
  "demo_start = startEngine [49] 1 \<lparr>dep_localInterface = True, dep_timings = defaultTimings\<rparr> demo_system
     \<lparr>nc_displayName = [], nc_appId = [65], nc_appVersion = [49], nc_discoveryPort = 5555, nc_sendQueueBytes = 1000,
      nc_maxSendRate = 0, nc_peerTimeout = 5000\<rparr> demo_callbacks 0 netLinkCore"

lemma demo_core_runs:
  "\<exists>co. core_runs engine_demo_env 0 (\<lambda>c. c = demo_callbacks) [OnDisconnected 2 DisconnectReason.Lost] engine_demo_events co"
proof -
  let ?runs = "core_runs engine_demo_env 0 (\<lambda>c. c = demo_callbacks)"
  let ?batch = "\<lparr>batch_events = engine_demo_events, batch_bytes = 0\<rparr>"
  obtain co where co: "demo_start = Some co" "co_thread co = InLoop" "co_callbacks co = demo_callbacks"
      "co_engine co = Some (networkEngine [49] 1 engine_demo_config 0)"
      "tq_worker (co_events co) = Looking" "tq_queue (co_events co) = []" "tq_running (co_events co)"
    by (simp add: demo_start_def startEngine_def netLinkCore_def taskQueue_def tq_start_def engineConfig_def engine_demo_config_def
        defaultTimings_def demo_callbacks_def)
  have "?runs [] [] co"
    using core_runs.start [OF core_runs.create _ _ co(1) [unfolded demo_start_def]] by (simp add: netLinkCore_def)
  define co1 where "co1 = afterStep engine_demo_env ?batch engine_demo_bound co"
  from core_runs.step [OF \<open>?runs [] [] co\<close> co(2,4) demo_engine_step(1)]
  have stepped: "?runs [] engine_demo_events co1"
    by (simp add: co1_def)
  have "\<not> finished engine_demo_bound" "engine_demo_events \<noteq> []"
    using demo_engine_step by (simp_all add: finished_def engine_demo_events_def)
  then have co1: "tq_worker (co_events co1) = Looking" "co_engine co1 = Some engine_demo_bound"
      "tq_worker (tq_look (co_events co1)) = Working (DeliverTask ?batch demo_callbacks)"
    using co by (simp_all add: co1_def core_fields tq_post_def tq_look_def tq_ready_def)
  define co2 where "co2 = co1\<lparr>co_events := tq_look (co_events co1), co_left := engine_demo_events\<rparr>"
  have looked: "?runs [] engine_demo_events co2"
    using core_runs.look [OF stepped co1(1) refl] by (simp add: co1(3) co2_def)
  have co2: "tq_worker (co_events co2) = Working (DeliverTask ?batch demo_callbacks)" "co_engine co2 = Some engine_demo_bound"
      "co_left co2 = (newEvent Disconnected 2)\<lparr>ev_reason := DisconnectReason.Lost\<rparr> # tl engine_demo_events"
    by (simp_all add: co2_def co1 engine_demo_events_def)
  have "dispatch (co_network co2) demo_callbacks ((newEvent Disconnected 2)\<lparr>ev_reason := DisconnectReason.Lost\<rparr>) engine_demo_bound =
      ([OnDisconnected 2 DisconnectReason.Lost], engine_demo_bound)"
    by (simp add: dispatch_def demo_callbacks_def newEvent_def)
  from core_runs.dispatch [OF looked co2(1,3,2) this] show ?thesis
    by auto
qed


theorem core_lifecycle_witness: "demo_start \<noteq> None"
  using core_lifecycle [OF core_runs.create [of engine_demo_env 0 "\<lambda>c. True"]] by (simp add: demo_start_def netLinkCore_def)

end
