(* ===== verification/CApi.thy ===== *)
theory CApi
  imports Core
begin

text \<open>
  \<open>capi/NetLinkC.cpp\<close>: the conversion of texts, records and lists to the structures of C, the checks of
  the arguments and the calls of the core. A handle that is null is \<open>None\<close>, and so is a null pointer;
  a read or write outside a buffer is a fault, the outer \<open>None\<close> of a result. The lemmas show that the
  text fields of the structures are terminated and still UTF-8 when a text was cut off.
\<close>

unbundle bit_operations_syntax

section \<open>Texts\<close>

definition NL_MAX_STRING :: nat where "NL_MAX_STRING = 256"

text \<open>The loop that goes back to the first byte of a character.\<close>

fun cutBack :: "bytes \<Rightarrow> nat \<Rightarrow> nat option" where
  "cutBack source 0 = Some 0"
| "cutBack source (Suc n) =
     do { c \<leftarrow> fetch source (Suc n);
          if c AND 0xC0 = 0x80 then cutBack source n else Some (Suc n) }"

definition copyString :: "bytes \<Rightarrow> bytes \<Rightarrow> bytes option" where
  "copyString target source =
     do { len \<leftarrow> (let len = min (length source) (NL_MAX_STRING - 1)
                  in if len < length source then cutBack source len else Some len);
          target \<leftarrow> store target 0 (take len source);
          store target len [0] }"

definition noText :: bytes where
  "noText = replicate NL_MAX_STRING 0"


section \<open>Structures\<close>

record NLPeerInfo =
  nlp_id :: u64
  nlp_port :: u16
  nlp_displayName :: bytes
  nlp_address :: bytes
  nlp_appVersion :: bytes

record NLNetworkAdapter =
  nla_id :: u64
  nla_priority :: int
  nla_adapterName :: bytes
  nla_networkName :: bytes
  nla_ipv4 :: bytes

record NLPeerStats =
  nls_rttMicroseconds :: u64
  nls_bytesQueued :: u64
  nls_bytesSent :: u64
  nls_bytesReceived :: u64
  nls_retransmissions :: u64
  nls_mediaSent :: u64
  nls_mediaDropped :: u64
  nls_mediaIncomplete :: u64
  nls_mediaLoss :: rat

record NLConfig =
  nlc_displayName :: "bytes option"
  nlc_appId :: "bytes option"
  nlc_appVersion :: "bytes option"
  nlc_discoveryPort :: u16
  nlc_sendQueueBytes :: u64
  nlc_maxSendRate :: u32
  nlc_peerTimeoutMs :: u32

definition priority_value :: "AdapterPriority \<Rightarrow> int" where
  "priority_value p = (case p of Suppressed \<Rightarrow> 1 | Available \<Rightarrow> 2 | Preferred \<Rightarrow> 3)"

definition toC_peer :: "PeerInfo \<Rightarrow> NLPeerInfo option" where
  "toC_peer peer =
     do { displayName \<leftarrow> copyString noText (displayName peer);
          address \<leftarrow> copyString noText (address peer);
          appVersion \<leftarrow> copyString noText (appVersion peer);
          Some \<lparr>nlp_id = peer_id peer, nlp_port = port peer, nlp_displayName = displayName, nlp_address = address,
                nlp_appVersion = appVersion\<rparr> }"

definition toC_adapter :: "NetworkAdapter \<Rightarrow> NLNetworkAdapter option" where
  "toC_adapter adapter =
     do { adapterName \<leftarrow> copyString noText (pub_adapterName adapter);
          networkName \<leftarrow> copyString noText (pub_networkName adapter);
          ipv4 \<leftarrow> copyString noText (pub_ipv4 adapter);
          Some \<lparr>nla_id = pub_id adapter, nla_priority = priority_value (pub_priority adapter), nla_adapterName = adapterName,
                nla_networkName = networkName, nla_ipv4 = ipv4\<rparr> }"

definition isLane :: "int \<Rightarrow> bool" where
  "isLane la \<longleftrightarrow> la \<ge> 0 \<and> la \<le> 2"

definition lane_of :: "int \<Rightarrow> PublicLane" where
  "lane_of la = (if la = 0 then PubReliable else if la = 1 then PubBulk else PubMedia)"

text \<open>\<open>copyOut\<close>: the array of the caller is a list, and the number it returns an \<open>int32_t\<close>.\<close>

fun copyEntries :: "('a \<Rightarrow> 'b option) \<Rightarrow> 'a list \<Rightarrow> nat \<Rightarrow> nat \<Rightarrow> 'b list \<Rightarrow> 'b list option" where
  "copyEntries convert source i 0 target = Some target"
| "copyEntries convert source i (Suc n) target =
     (if i < length source \<and> i < length target
      then do { x \<leftarrow> convert (source ! i); copyEntries convert source (Suc i) n (target[i := x]) }
      else None)"

definition copyOut :: "'a list \<Rightarrow> 'b list option \<Rightarrow> int \<Rightarrow> ('a \<Rightarrow> 'b option) \<Rightarrow> (int \<times> 'b list option) option" where
  "copyOut source target maxCount convert =
     do { target \<leftarrow> (case target of
                       Some t \<Rightarrow>
                         if maxCount > 0
                         then do { t \<leftarrow> copyEntries convert source 0 (min (length source) (nat maxCount)) t; Some (Some t) }
                         else Some target
                     | None \<Rightarrow> Some target);
          Some (sint (word_of_nat (length source) :: 32 word), target) }"


section \<open>Functions\<close>

definition cppConfig :: "NLConfig \<Rightarrow> bytes \<Rightarrow> NetLinkConfig" where
  "cppConfig config appId =
     (let c = netLinkConfig\<lparr>nc_displayName := (case nlc_displayName config of Some s \<Rightarrow> s | None \<Rightarrow> []), nc_appId := appId,
                nc_appVersion := (case nlc_appVersion config of Some s \<Rightarrow> s | None \<Rightarrow> [])\<rparr>;
          c = (if nlc_discoveryPort config \<noteq> 0 then c\<lparr>nc_discoveryPort := nlc_discoveryPort config\<rparr> else c);
          c = (if nlc_sendQueueBytes config \<noteq> 0 then c\<lparr>nc_sendQueueBytes := unat (nlc_sendQueueBytes config)\<rparr> else c);
          c = (if nlc_maxSendRate config \<noteq> 0 then c\<lparr>nc_maxSendRate := nlc_maxSendRate config\<rparr> else c)
      in if nlc_peerTimeoutMs config \<noteq> 0 then c\<lparr>nc_peerTimeout := uint (nlc_peerTimeoutMs config)\<rparr> else c)"

text \<open>\<open>nl_start\<close> up to the call of \<open>start\<close>: its configuration, and \<open>None\<close> when the arguments are refused.\<close>

definition nl_start_config :: "'w NetLinkCore option \<Rightarrow> NLConfig option \<Rightarrow> NetLinkConfig option" where
  "nl_start_config netlink config =
     (case (netlink, config) of
        (Some co, Some c) \<Rightarrow> (case nlc_appId c of Some appId \<Rightarrow> Some (cppConfig c appId) | None \<Rightarrow> None)
      | _ \<Rightarrow> None)"

definition on_handle :: "'a \<Rightarrow> ('w NetLinkCore \<Rightarrow> 'a \<times> 'w NetLinkCore) \<Rightarrow> 'w NetLinkCore option \<Rightarrow> 'a \<times> 'w NetLinkCore option" where
  "on_handle d f netlink = (case netlink of None \<Rightarrow> (d, None) | Some co \<Rightarrow> let (r, co) = f co in (r, Some co))"

definition nl_stop :: "'w NetLinkCore option \<Rightarrow> 'w NetLinkCore option" where
  "nl_stop netlink = map_option core_stop netlink"

definition nl_start_discovery :: "'w NetLinkCore option \<Rightarrow> bool \<times> 'w NetLinkCore option" where
  "nl_start_discovery netlink = on_handle False core_startDiscovery netlink"

definition nl_stop_discovery :: "'w NetLinkCore option \<Rightarrow> 'w NetLinkCore option" where
  "nl_stop_discovery netlink = map_option core_stopDiscovery netlink"

definition nl_get_peers :: "'w NetLinkCore option \<Rightarrow> NLPeerInfo list option \<Rightarrow> int \<Rightarrow> (int \<times> NLPeerInfo list option) option" where
  "nl_get_peers netlink out maxPeers =
     (case netlink of None \<Rightarrow> Some (0, out) | Some co \<Rightarrow> copyOut (core_peers co) out maxPeers toC_peer)"

definition nl_connect :: "(nat \<Rightarrow> Mailbox \<Rightarrow> Mailbox) \<Rightarrow> 'w NetLinkCore option \<Rightarrow> u64 \<Rightarrow> bool \<times> 'w NetLinkCore option" where
  "nl_connect others netlink peer = on_handle False (core_connect others peer) netlink"

definition nl_accept :: "'w NetLinkCore option \<Rightarrow> u64 \<Rightarrow> 'w NetLinkCore option" where
  "nl_accept netlink peer = map_option (core_accept peer) netlink"

definition nl_decline :: "'w NetLinkCore option \<Rightarrow> u64 \<Rightarrow> 'w NetLinkCore option" where
  "nl_decline netlink peer = map_option (core_decline peer) netlink"

definition nl_disconnect :: "(Mailbox \<Rightarrow> Mailbox) \<Rightarrow> 'w NetLinkCore option \<Rightarrow> u64 \<Rightarrow> 'w NetLinkCore option" where
  "nl_disconnect others netlink peer = map_option (core_disconnect others peer) netlink"

definition nl_get_connected_peers :: "'w NetLinkCore option \<Rightarrow> u64 list option \<Rightarrow> int \<Rightarrow> (int \<times> u64 list option) option" where
  "nl_get_connected_peers netlink out maxPeers =
     (case netlink of None \<Rightarrow> Some (0, out) | Some co \<Rightarrow> copyOut (core_connectedPeers co) out maxPeers Some)"

definition send_value :: "SendResult \<Rightarrow> int" where
  "send_value r =
     (case r of SendResult.Queued \<Rightarrow> 0 | QueueFull \<Rightarrow> 1 | SendResult.TooLarge \<Rightarrow> 2 | SendResult.NotConnected \<Rightarrow> 3 | NotRunning \<Rightarrow> 4)"

definition NL_SEND_INVALID :: int where "NL_SEND_INVALID = 5"

text \<open>The bytes a pointer and a size name.\<close>

definition span_of :: "bytes option \<Rightarrow> nat \<Rightarrow> bytes option" where
  "span_of data n = (case data of None \<Rightarrow> if n = 0 then Some [] else None | Some d \<Rightarrow> if n \<le> length d then Some (take n d) else None)"

definition nl_send ::
  "(Mailbox \<Rightarrow> Mailbox) \<Rightarrow> 'w NetLinkCore option \<Rightarrow> u64 \<Rightarrow> u32 \<Rightarrow> bytes option \<Rightarrow> nat \<Rightarrow> int \<Rightarrow> u32 \<Rightarrow> (int \<times> 'w NetLinkCore option) option" where
  "nl_send others netlink peer type data n la timeoutMs =
     (case netlink of
        None \<Rightarrow> Some (NL_SEND_INVALID, None)
      | Some co \<Rightarrow>
          if data = None \<and> n > 0 \<or> \<not> isLane la then Some (NL_SEND_INVALID, Some co)
          else do { body \<leftarrow> span_of data n;
                    let (r, co) = core_send peer type body (lane_of la) (uint timeoutMs) others co
                    in Some (send_value r, Some co) })"

definition nl_broadcast ::
  "'w NetLinkCore option \<Rightarrow> u32 \<Rightarrow> bytes option \<Rightarrow> nat \<Rightarrow> int \<Rightarrow> (nat \<times> 'w NetLinkCore option) option" where
  "nl_broadcast netlink type data n la =
     (case netlink of
        None \<Rightarrow> Some (0, None)
      | Some co \<Rightarrow>
          if data = None \<and> n > 0 \<or> \<not> isLane la then Some (0, Some co)
          else do { body \<leftarrow> span_of data n;
                    let (r, co) = core_broadcast type body (lane_of la) co in Some (r, Some co) })"

definition nl_get_stats :: "'w NetLinkCore option \<Rightarrow> u64 \<Rightarrow> NLPeerStats option \<Rightarrow> bool \<times> NLPeerStats option" where
  "nl_get_stats netlink peer st =
     (case (netlink, st) of
        (Some co, Some s) \<Rightarrow>
          (case core_stats peer co of
             None \<Rightarrow> (False, st)
           | Some f \<Rightarrow>
               (True, Some \<lparr>nls_rttMicroseconds = word_of_int (ps_rtt f), nls_bytesQueued = ps_bytesQueued f, nls_bytesSent = ps_bytesSent f,
                  nls_bytesReceived = ps_bytesReceived f, nls_retransmissions = ps_retransmissions f, nls_mediaSent = ps_mediaSent f,
                  nls_mediaDropped = ps_mediaDropped f, nls_mediaIncomplete = ps_mediaIncomplete f, nls_mediaLoss = ps_mediaLoss f\<rparr>))
      | _ \<Rightarrow> (False, st))"

definition nl_get_adapters ::
  "LinuxSystem \<Rightarrow> 'w NetLinkCore option \<Rightarrow> NLNetworkAdapter list option \<Rightarrow> int \<Rightarrow> (int \<times> NLNetworkAdapter list option) option" where
  "nl_get_adapters sys netlink adapters maxAdapters =
     (case netlink of None \<Rightarrow> Some (0, adapters)
      | Some co \<Rightarrow> copyOut (fst (getAvailableAdapters sys (co_network co))) adapters maxAdapters toC_adapter)"

definition nl_set_active_adapter :: "LinuxSystem \<Rightarrow> 'w NetLinkCore option \<Rightarrow> u64 \<Rightarrow> bool \<times> 'w NetLinkCore option" where
  "nl_set_active_adapter sys netlink adapterId = on_handle False (core_setActiveAdapter sys adapterId) netlink"

definition nl_get_active_adapter_id :: "'w NetLinkCore option \<Rightarrow> u64" where
  "nl_get_active_adapter_id netlink = (case netlink of None \<Rightarrow> 0 | Some co \<Rightarrow> getActiveAdapterID (co_network co))"


section \<open>UTF-8\<close>

definition isContinuation :: "u8 \<Rightarrow> bool" where
  "isContinuation c \<longleftrightarrow> c AND 0xC0 = 0x80"

text \<open>The characters of UTF-8 (RFC 3629), and a text of them.\<close>

definition utf8_char :: "bytes \<Rightarrow> bool" where
  "utf8_char s =
     (case s of
        [a] \<Rightarrow> a < 0x80
      | [a, b] \<Rightarrow> 0xC2 \<le> a \<and> a \<le> 0xDF \<and> isContinuation b
      | [a, b, c] \<Rightarrow> 0xE0 \<le> a \<and> a \<le> 0xEF \<and> (a = 0xE0 \<longrightarrow> 0xA0 \<le> b) \<and> (a = 0xED \<longrightarrow> b \<le> 0x9F) \<and> isContinuation b \<and> isContinuation c
      | [a, b, c, d] \<Rightarrow> 0xF0 \<le> a \<and> a \<le> 0xF4 \<and> (a = 0xF0 \<longrightarrow> 0x90 \<le> b) \<and> (a = 0xF4 \<longrightarrow> b \<le> 0x8F) \<and>
          isContinuation b \<and> isContinuation c \<and> isContinuation d
      | _ \<Rightarrow> False)"

definition utf8 :: "bytes \<Rightarrow> bool" where
  "utf8 s \<longleftrightarrow> (\<exists>cs. s = concat cs \<and> list_all utf8_char cs)"

lemma isContinuation_range: "isContinuation c \<Longrightarrow> 128 \<le> unat c \<and> unat c < 192"
proof -
  assume "isContinuation c"
  then have "drop_bit 6 (c AND 0xC0) = drop_bit 6 0x80"
    by (simp only: isContinuation_def)
  then have "drop_bit 6 c AND drop_bit 6 0xC0 = drop_bit 6 0x80"
    by (simp only: drop_bit_and)
  then have "drop_bit 6 c AND mask 2 = 2"
    by (simp add: mask_eq_exp_minus_1 drop_bit_eq_div)
  then have "take_bit 2 (drop_bit 6 c) = 2"
    by (simp only: take_bit_eq_mask)
  then have "unat (take_bit 2 (drop_bit 6 c)) = 2"
    by simp
  then have "unat c div 64 mod 4 = 2"
    by (simp add: take_bit_eq_mod drop_bit_eq_div unat_div unat_mod)
  moreover have "unat c div 64 < 4"
    using unsigned_less [of c, where ?'a = nat] by (simp add: less_mult_imp_div_less)
  ultimately have "unat c div 64 = 2"
    by simp
  then show ?thesis
    using div_mult_mod_eq [of "unat c" 64] mod_less_divisor [of 64 "unat c"] by linarith
qed

lemma utf8_char_shape:
  assumes "utf8_char s"
  shows "s \<noteq> []" "length s \<le> 4" "\<not> isContinuation (hd s)" "0 < i \<Longrightarrow> i < length s \<Longrightarrow> isContinuation (s ! i)"
proof -
  show "s \<noteq> []" "length s \<le> 4" "0 < i \<Longrightarrow> i < length s \<Longrightarrow> isContinuation (s ! i)"
    using assms by (auto simp: utf8_char_def less_Suc_eq split: list.splits)
  have "unat (hd s) < 128 \<or> 192 \<le> unat (hd s)"
    using assms by (auto simp: utf8_char_def word_le_nat_alt word_less_nat_alt split: list.splits)
  then show "\<not> isContinuation (hd s)"
    using isContinuation_range [of "hd s"] by linarith
qed

text \<open>A byte that does not continue a character begins one: before it the text can be cut.\<close>

lemma utf8_cut:
  assumes "utf8 s" and "n < length s" and "\<not> isContinuation (s ! n)"
  shows "utf8 (take n s)"
proof -
  have "utf8 (take n (concat cs))" if "list_all utf8_char cs" "n < length (concat cs)" "\<not> isContinuation (concat cs ! n)" for cs
    using that
  proof (induction cs arbitrary: n)
    case (Cons c cs)
    show ?case
    proof (cases "n < length c")
      case True
      then have "n = 0"
        using Cons.prems utf8_char_shape(4) [of c n] by (auto simp: nth_append)
      then show ?thesis
        by (auto simp: utf8_def intro: exI [of _ "[]"])
    next
      case False
      then have "utf8 (take (n - length c) (concat cs))"
        using Cons.prems by (intro Cons.IH) (auto simp: nth_append)
      then obtain cs' where "take (n - length c) (concat cs) = concat cs'" "list_all utf8_char cs'"
        by (auto simp: utf8_def)
      then show ?thesis
        using Cons.prems False by (auto simp: utf8_def intro!: exI [of _ "c # cs'"])
    qed
  qed simp
  then show ?thesis
    using assms by (auto simp: utf8_def)
qed

text \<open>Among four bytes in a row one begins a character.\<close>

lemma utf8_begins:
  assumes "utf8 s" and "n < length s"
  shows "\<exists>k \<le> n. n < k + 4 \<and> \<not> isContinuation (s ! k)"
proof -
  have "\<exists>k \<le> n. n < k + 4 \<and> \<not> isContinuation (concat cs ! k)" if "list_all utf8_char cs" "n < length (concat cs)" for cs
    using that
  proof (induction cs arbitrary: n)
    case (Cons c cs)
    show ?case
    proof (cases "n < length c")
      case True
      then have "\<not> isContinuation ((c @ concat cs) ! 0)" "n < 4"
        using Cons.prems utf8_char_shape(1-3) [of c] by (auto simp: nth_append hd_conv_nth)
      then show ?thesis
        by (intro exI [of _ 0]) simp
    next
      case False
      then obtain k where "k \<le> n - length c" "n - length c < k + 4" "\<not> isContinuation (concat cs ! k)"
        using Cons.prems Cons.IH [of "n - length c"] by (simp add: less_diff_conv2) blast
      then show ?thesis
        using False by (intro exI [of _ "length c + k"]) (auto simp: nth_append)
    qed
  qed simp
  then show ?thesis
    using assms by (auto simp: utf8_def)
qed


section \<open>Texts that were copied\<close>

text \<open>The loop stops at the first byte of the character it is in.\<close>

lemma cutBack_stops:
  assumes "n < length s"
  shows "\<exists>k \<le> n. cutBack s n = Some k \<and> (k = 0 \<or> \<not> isContinuation (s ! k)) \<and> (\<forall>j. k < j \<and> j \<le> n \<longrightarrow> isContinuation (s ! j))"
  using assms
proof (induction n)
  case (Suc n)
  then show ?case
    by (cases "isContinuation (s ! Suc n)") (auto simp: fetch_def isContinuation_def le_Suc_eq)
qed simp

text \<open>
  What a text field of C holds: the bytes of the array up to the zero are UTF-8 and a prefix of the text,
  all of it when it fits and all but a part of one character more when not.
\<close>

definition c_text :: "bytes \<Rightarrow> bytes \<Rightarrow> bool" where
  "c_text field source \<longleftrightarrow>
     length field = NL_MAX_STRING \<and>
     (\<exists>k < NL_MAX_STRING. field ! k = 0 \<and> take k field = take k source \<and> utf8 (take k field) \<and>
        (if length source < NL_MAX_STRING then k = length source else NL_MAX_STRING - 4 \<le> k))"

lemma copyString_stores:
  assumes "length target = NL_MAX_STRING" and "len < NL_MAX_STRING" "len \<le> length source"
  shows "\<exists>t. store target 0 (take len source) \<bind> (\<lambda>t. store t len [0]) = Some t \<and> length t = NL_MAX_STRING \<and> t ! len = 0 \<and>
    take len t = take len source"
  using assms by (auto simp: store_def nth_append min_absorb2)

lemma copyString_text:
  assumes "length target = NL_MAX_STRING" and "utf8 source"
  shows "\<exists>field. copyString target source = Some field \<and> c_text field source"
proof (cases "length source < NL_MAX_STRING")
  case True
  then obtain t where "store target 0 source \<bind> (\<lambda>t. store t (length source) [0]) = Some t" "length t = NL_MAX_STRING"
      "t ! length source = 0" "take (length source) t = source"
    using copyString_stores [OF assms(1), of "length source" source] by auto
  then show ?thesis
    using True assms(2) by (auto simp: copyString_def c_text_def)
next
  case False
  let ?n = "NL_MAX_STRING - 1"
  obtain k where k: "k \<le> ?n" "cutBack source ?n = Some k" "k = 0 \<or> \<not> isContinuation (source ! k)"
      "\<forall>j. k < j \<and> j \<le> ?n \<longrightarrow> isContinuation (source ! j)"
    using cutBack_stops [of ?n source] False by (auto simp: NL_MAX_STRING_def)
  obtain b where b: "b \<le> ?n" "?n < b + 4" "\<not> isContinuation (source ! b)"
    using utf8_begins [OF assms(2), of ?n] False by (auto simp: NL_MAX_STRING_def)
  then have "b \<le> k"
    using k(4) not_le_imp_less by blast
  moreover have "utf8 (take k source)"
    using k b calculation utf8_cut [OF assms(2), of k] False by (auto simp: NL_MAX_STRING_def)
  moreover obtain t where "store target 0 (take k source) \<bind> (\<lambda>t. store t k [0]) = Some t" "length t = NL_MAX_STRING"
      "t ! k = 0" "take k t = take k source"
    using copyString_stores [OF assms(1), of k source] k(1) False by (auto simp: NL_MAX_STRING_def)
  ultimately show ?thesis
    using False k(1,2) b(2) by (auto simp: copyString_def c_text_def Let_def NL_MAX_STRING_def intro!: exI [of _ k])
qed

text \<open>C34: The structures of C are well formed: every text of a peer that is UTF-8 arrives as a terminated UTF-8 text in an
  array of \<open>NL_MAX_STRING\<close> bytes, whole when it fits and else cut off between two characters, and the
  other fields are those of the peer. No write leaves the arrays.
\<close>

theorem peer_well_formed:
  assumes "utf8 (displayName peer)" and "utf8 (address peer)" and "utf8 (appVersion peer)"
  shows "\<exists>c. toC_peer peer = Some c \<and> nlp_id c = peer_id peer \<and> nlp_port c = port peer \<and>
    c_text (nlp_displayName c) (displayName peer) \<and> c_text (nlp_address c) (address peer) \<and>
    c_text (nlp_appVersion c) (appVersion peer)"
proof -
  have empty: "length noText = NL_MAX_STRING"
    by (simp add: noText_def)
  obtain n a v where "copyString noText (displayName peer) = Some n" "c_text n (displayName peer)"
      "copyString noText (address peer) = Some a" "c_text a (address peer)"
      "copyString noText (appVersion peer) = Some v" "c_text v (appVersion peer)"
    using copyString_text [OF empty] assms by meson
  then show ?thesis
    by (simp add: toC_peer_def)
qed

text \<open>
  The engine, on the other hand, cuts a name that is too long after \<open>MaxDisplayName\<close> bytes, wherever that
  is: a name that is UTF-8 reaches the peers as one that is not.
\<close>

lemma utf8_last: "utf8 s \<Longrightarrow> s \<noteq> [] \<Longrightarrow> last s < 0x80 \<or> isContinuation (last s)"
proof -
  assume "utf8 s" "s \<noteq> []"
  then obtain cs where "s = concat cs" "list_all utf8_char cs"
    by (auto simp: utf8_def)
  then show ?thesis
    using \<open>s \<noteq> []\<close>
  proof (induction cs arbitrary: s rule: rev_induct)
    case (snoc c cs)
    then have "utf8_char c"
      by simp
    then have "last c < 0x80 \<or> isContinuation (last c)" "c \<noteq> []"
      by (auto simp: utf8_char_def split: list.splits)
    then show ?case
      using snoc.prems by simp
  qed simp
qed

lemma name_cut_badly:
  assumes "long = replicate 63 97 @ [0xC3, 0xA9]"
  shows "utf8 long \<and> \<not> utf8 (cfg_displayName (completed v (config\<lparr>cfg_displayName := long\<rparr>)))"
proof
  have "long = concat (replicate 63 [97] @ [[0xC3, 0xA9]])"
    by (simp add: assms concat_replicate_trivial)
  moreover have "list_all utf8_char (replicate 63 [97] @ [[0xC3, 0xA9]])"
    by (simp add: utf8_char_def isContinuation_def list_all_iff)
  ultimately show "utf8 long"
    unfolding utf8_def by blast
  have "cfg_displayName (completed v (config\<lparr>cfg_displayName := long\<rparr>)) = replicate 63 97 @ [0xC3]"
    by (simp add: completed_def assms Let_def constants)
  then show "\<not> utf8 (cfg_displayName (completed v (config\<lparr>cfg_displayName := long\<rparr>)))"
    using utf8_last [of "replicate 63 97 @ [0xC3]"] by (auto simp: isContinuation_def)
qed



section \<open>Lists that were copied\<close>

lemma copyEntries_exact:
  assumes "\<forall>x \<in> set source. convert x \<noteq> None" and "i + n \<le> length source" "i + n \<le> length target"
  shows "\<exists>t. copyEntries convert source i n target = Some t \<and> length t = length target \<and>
    (\<forall>j < length t. if i \<le> j \<and> j < i + n then convert (source ! j) = Some (t ! j) else t ! j = target ! j)"
  using assms(2,3)
proof (induction n arbitrary: i target)
  case (Suc n)
  then obtain x where x: "convert (source ! i) = Some x"
    using assms(1) nth_mem [of i source] by fastforce
  obtain t where "copyEntries convert source (Suc i) n (target[i := x]) = Some t" "length t = length target"
      "\<forall>j < length t. if Suc i \<le> j \<and> j < Suc i + n then convert (source ! j) = Some (t ! j) else t ! j = target[i := x] ! j"
    using Suc.IH [of "Suc i" "target[i := x]"] Suc.prems by auto
  then show ?case
    using x Suc.prems by (auto simp: nth_list_update le_Suc_eq Suc_le_eq)
qed auto

text \<open>The functions that list something return how many there are and write exactly the first entries of the caller's
  array, as many as there are and as fit, and nothing else of it.
\<close>

theorem list_copied:
  assumes "\<forall>x \<in> set source. convert x \<noteq> None" and "length source < 2 ^ 31" and "0 < maxCount" "nat maxCount \<le> length target"
  shows "\<exists>t. copyOut source (Some target) maxCount convert = Some (int (length source), Some t) \<and> length t = length target \<and>
    (\<forall>j < length t. if j < length source \<and> int j < maxCount then convert (source ! j) = Some (t ! j) else t ! j = target ! j)"
proof -
  have "sint (word_of_nat (length source) :: 32 word) = int (length source)"
    using assms(2) by (simp add: signed_of_nat signed_take_bit_int_eq_self)
  moreover obtain t where "copyEntries convert source 0 (min (length source) (nat maxCount)) target = Some t" "length t = length target"
      "\<forall>j < length t. if j < length source \<and> int j < maxCount then convert (source ! j) = Some (t ! j) else t ! j = target ! j"
    using copyEntries_exact [OF assms(1), of 0 "min (length source) (nat maxCount)" target] assms(4)
    by (fastforce simp: zless_nat_eq_int_zless)
  ultimately show ?thesis
    using assms(3) by (simp add: copyOut_def)
qed


section \<open>An example\<close>

definition demo_peer :: PeerInfo where
  "demo_peer = \<lparr>peer_id = 7, displayName = [0xC3, 0xA9], address = [49], port = 5, appVersion = []\<rparr>"

lemma demo_texts: "utf8 [0xC3, 0xA9]" "utf8 [49]" "utf8 []"
proof -
  have "utf8_char [0xC3, 0xA9]" "utf8_char [49]"
    by (simp_all add: utf8_char_def isContinuation_def)
  then show "utf8 [0xC3, 0xA9]" "utf8 [49]" "utf8 []"
    unfolding utf8_def by (intro exI [of _ "[[0xC3, 0xA9]]"] exI [of _ "[[49]]"] exI [of _ "[]"]; simp)+
qed

theorem peer_well_formed_witness: "\<exists>c. toC_peer demo_peer = Some c \<and> c_text (nlp_displayName c) [0xC3, 0xA9]"
  using peer_well_formed [of demo_peer] by (auto simp: demo_peer_def demo_texts)


theorem list_copied_witness:
  "\<exists>t. copyOut [3, 4 :: u64] (Some [0, 0 :: u64]) 1 Some = Some (2, Some t) \<and> t ! 0 = 3 \<and> t ! 1 = 0"
  using list_copied [of "[3, 4 :: u64]" Some 1 "[0, 0 :: u64]"] by (auto simp: less_Suc_eq)

end
