(* ===== verification/CCallbacks.thy ===== *)
theory CCallbacks
  imports CApi
begin

text \<open>
  \<open>toCpp\<close> of \<open>capi/NetLinkC.cpp\<close>: how the function pointers of C become callbacks, with what each of them is called
  with. A function pointer is whether it is set, and a call of it a value. The property carries the
  contract of the callbacks over to C.
\<close>

section \<open>Callbacks of C\<close>

record NLCallbacks =
  nlk_context :: u64
  nlk_onPeerDiscovered :: bool
  nlk_onPeerLost :: bool
  nlk_onConnectionRequest :: bool
  nlk_onConnected :: bool
  nlk_onDisconnected :: bool
  nlk_onMessage :: bool
  nlk_onNetworkAdapterChanged :: bool
  nlk_onLog :: bool

text \<open>The values of \<open>NLDisconnectReason\<close>, \<open>NLLane\<close> and \<open>NLLogLevel\<close>, which are those of the enumerations of C++.\<close>

definition reason_value :: "DisconnectReason \<Rightarrow> int" where
  "reason_value r =
     (case r of DisconnectReason.Local \<Rightarrow> 0 | Remote \<Rightarrow> 1 | DisconnectReason.Declined \<Rightarrow> 2 | DisconnectReason.Incompatible \<Rightarrow> 3
      | DisconnectReason.Lost \<Rightarrow> 4 | NetworkError \<Rightarrow> 5 | DisconnectReason.Shutdown \<Rightarrow> 6)"

definition lane_value :: "PublicLane \<Rightarrow> int" where
  "lane_value la = (case la of PubReliable \<Rightarrow> 0 | PubBulk \<Rightarrow> 1 | PubMedia \<Rightarrow> 2)"

definition level_value :: "LogLevel \<Rightarrow> int" where
  "level_value l = (case l of Debug \<Rightarrow> 0 | Info \<Rightarrow> 1 | Warning \<Rightarrow> 2 | LogLevel.Error \<Rightarrow> 3)"

text \<open>A call of a function of C, with its context first. A text is the bytes with the zero that ends them.\<close>

datatype CCall =
    COnPeerDiscovered u64 NLPeerInfo
  | COnPeerLost u64 u64
  | COnConnectionRequest u64 NLPeerInfo
  | COnConnected u64 NLPeerInfo
  | COnDisconnected u64 u64 int
  | COnMessage u64 u64 int u32 bytes
  | COnNetworkAdapterChanged u64 NLNetworkAdapter
  | COnLog u64 int bytes

text \<open>\<open>toCpp\<close>: which callbacks are set, and what the one that is called does.\<close>

definition toCpp :: "NLCallbacks \<Rightarrow> NetLinkCallbacks" where
  "toCpp c =
     \<lparr>cb_onPeerDiscovered = nlk_onPeerDiscovered c, cb_onPeerLost = nlk_onPeerLost c,
      cb_onConnectionRequest = nlk_onConnectionRequest c, cb_onConnected = nlk_onConnected c,
      cb_onDisconnected = nlk_onDisconnected c, cb_onMessage = nlk_onMessage c,
      cb_onNetworkAdapterChanged = nlk_onNetworkAdapterChanged c, cb_onLog = nlk_onLog c\<rparr>"

primrec passOn :: "u64 \<Rightarrow> Call \<Rightarrow> CCall option" where
  "passOn ctx (OnPeerDiscovered peer) = do { info \<leftarrow> toC_peer peer; Some (COnPeerDiscovered ctx info) }"
| "passOn ctx (OnPeerLost peer) = Some (COnPeerLost ctx peer)"
| "passOn ctx (OnConnectionRequest peer) = do { info \<leftarrow> toC_peer peer; Some (COnConnectionRequest ctx info) }"
| "passOn ctx (OnConnected peer) = do { info \<leftarrow> toC_peer peer; Some (COnConnected ctx info) }"
| "passOn ctx (OnDisconnected peer r) = Some (COnDisconnected ctx peer (reason_value r))"
| "passOn ctx (OnMessage from la m) = Some (COnMessage ctx from (lane_value la) (message_type m) (message_data m))"
| "passOn ctx (OnNetworkAdapterChanged adapter) = do { info \<leftarrow> toC_adapter adapter; Some (COnNetworkAdapterChanged ctx info) }"
| "passOn ctx (OnLog level message) = Some (COnLog ctx (level_value level) (message @ [0]))"

definition passAll :: "u64 \<Rightarrow> Call list \<Rightarrow> CCall list option" where
  "passAll ctx calls = those (map (passOn ctx) calls)"

text \<open>The callbacks \<open>nl_start\<close> passes on; without any, those of a default-constructed \<open>NetLinkCallbacks\<close>.\<close>

definition nl_start_callbacks :: "NLCallbacks option \<Rightarrow> NetLinkCallbacks" where
  "nl_start_callbacks callbacks =
     (case callbacks of
        Some c \<Rightarrow> toCpp c
      | None \<Rightarrow>
          \<lparr>cb_onPeerDiscovered = False, cb_onPeerLost = False, cb_onConnectionRequest = False, cb_onConnected = False,
           cb_onDisconnected = False, cb_onMessage = False, cb_onNetworkAdapterChanged = False, cb_onLog = False\<rparr>)"


section \<open>What arrives in C\<close>

definition terminated :: "bytes \<Rightarrow> bool" where
  "terminated field \<longleftrightarrow> length field = NL_MAX_STRING \<and> 0 \<in> set field"

definition peer_terminated :: "NLPeerInfo \<Rightarrow> bool" where
  "peer_terminated c \<longleftrightarrow> terminated (nlp_displayName c) \<and> terminated (nlp_address c) \<and> terminated (nlp_appVersion c)"

text \<open>What a call says of a peer, and whether it passes its context and texts with an end.\<close>

primrec c_call_kind :: "CCall \<Rightarrow> (PeerId \<times> EventKind) option" where
  "c_call_kind (COnPeerDiscovered x i) = Some (nlp_id i, PeerDiscovered)"
| "c_call_kind (COnPeerLost x p) = Some (p, PeerLost)"
| "c_call_kind (COnConnectionRequest x i) = Some (nlp_id i, ConnectionRequest)"
| "c_call_kind (COnConnected x i) = Some (nlp_id i, EventKind.Connected)"
| "c_call_kind (COnDisconnected x p r) = Some (p, Disconnected)"
| "c_call_kind (COnMessage x p la t body) = Some (p, EventKind.Message)"
| "c_call_kind (COnNetworkAdapterChanged x a) = None"
| "c_call_kind (COnLog x l s) = None"

primrec c_call_ok :: "u64 \<Rightarrow> CCall \<Rightarrow> bool" where
  "c_call_ok ctx (COnPeerDiscovered x i) \<longleftrightarrow> x = ctx \<and> peer_terminated i"
| "c_call_ok ctx (COnPeerLost x p) \<longleftrightarrow> x = ctx"
| "c_call_ok ctx (COnConnectionRequest x i) \<longleftrightarrow> x = ctx \<and> peer_terminated i"
| "c_call_ok ctx (COnConnected x i) \<longleftrightarrow> x = ctx \<and> peer_terminated i"
| "c_call_ok ctx (COnDisconnected x p r) \<longleftrightarrow> x = ctx \<and> 0 \<le> r \<and> r \<le> 6"
| "c_call_ok ctx (COnMessage x p la t body) \<longleftrightarrow> x = ctx \<and> isLane la"
| "c_call_ok ctx (COnNetworkAdapterChanged x a) \<longleftrightarrow>
     x = ctx \<and> terminated (nla_adapterName a) \<and> terminated (nla_networkName a) \<and> terminated (nla_ipv4 a)"
| "c_call_ok ctx (COnLog x l s) \<longleftrightarrow> x = ctx \<and> s \<noteq> [] \<and> last s = 0"

definition c_call_kinds :: "PeerId \<Rightarrow> CCall list \<Rightarrow> EventKind list" where
  "c_call_kinds pid calls = map snd (filter (\<lambda>(p, k). p = pid) (List.map_filter c_call_kind calls))"

text \<open>Any text can be copied, UTF-8 or not.\<close>

lemma cutBack_some: "n < length source \<Longrightarrow> \<exists>k \<le> n. cutBack source n = Some k"
proof (induction n)
  case (Suc n)
  then show ?case
    by (auto simp: fetch_def)
qed simp

lemma copyString_terminated:
  assumes "length target = NL_MAX_STRING"
  shows "\<exists>field. copyString target source = Some field \<and> terminated field"
proof -
  define len where "len = min (length source) (NL_MAX_STRING - 1)"
  have "\<exists>k \<le> len. (if len < length source then cutBack source len else Some len) = Some k"
    using cutBack_some [of len source] by simp
  then obtain k where k: "k \<le> len" "(if len < length source then cutBack source len else Some len) = Some k"
    by blast
  then have bound: "k < NL_MAX_STRING" "k \<le> length source"
    by (auto simp: len_def NL_MAX_STRING_def)
  obtain t where t: "store target 0 (take k source) \<bind> (\<lambda>t. store t k [0]) = Some t" "length t = NL_MAX_STRING" "t ! k = 0"
    using copyString_stores [OF assms bound] by blast
  then have "0 \<in> set t"
    using bound(1) nth_mem [of k t] by simp
  then show ?thesis
    using t k(2) unfolding copyString_def Let_def len_def [symmetric] by (simp add: terminated_def)
qed

lemma toC_terminated:
  "\<exists>c. toC_peer peer = Some c \<and> nlp_id c = peer_id peer \<and> peer_terminated c"
  "\<exists>c. toC_adapter adapter = Some c \<and> terminated (nla_adapterName c) \<and> terminated (nla_networkName c) \<and> terminated (nla_ipv4 c)"
proof -
  have copied: "\<exists>field. copyString noText source = Some field \<and> terminated field" for source
    by (rule copyString_terminated) (simp add: noText_def)
  show "\<exists>c. toC_peer peer = Some c \<and> nlp_id c = peer_id peer \<and> peer_terminated c"
    using copied [of "displayName peer"] copied [of "address peer"] copied [of "appVersion peer"]
    by (auto simp: toC_peer_def peer_terminated_def)
  show "\<exists>c. toC_adapter adapter = Some c \<and> terminated (nla_adapterName c) \<and> terminated (nla_networkName c) \<and> terminated (nla_ipv4 c)"
    using copied [of "pub_adapterName adapter"] copied [of "pub_networkName adapter"] copied [of "pub_ipv4 adapter"]
    by (auto simp: toC_adapter_def)
qed

lemma passOn_ok: "\<exists>x. passOn ctx call = Some x \<and> c_call_kind x = call_kind call \<and> c_call_ok ctx x"
proof (cases call)
  case (OnDisconnected p r)
  then show ?thesis
    by (cases r) (simp_all add: reason_value_def)
next
  case (OnMessage p la m)
  then show ?thesis
    by (cases la) (simp_all add: lane_value_def isLane_def)
next
  case (OnNetworkAdapterChanged adapter)
  then show ?thesis
    using toC_terminated(2) [of adapter] by auto
next
  case (OnLog l s)
  then show ?thesis
    by simp
next
  case (OnPeerLost p)
  then show ?thesis
    by simp
next
  case (OnPeerDiscovered peer)
  then show ?thesis
    using toC_terminated(1) [of peer] by auto
next
  case (OnConnectionRequest peer)
  then show ?thesis
    using toC_terminated(1) [of peer] by auto
next
  case (OnConnected peer)
  then show ?thesis
    using toC_terminated(1) [of peer] by auto
qed

lemma map_filter_through: "List.map_filter f xs = map the (filter (\<lambda>x. x \<noteq> None) (map f xs))"
  by (induction xs) (auto simp: List.map_filter_def)

lemma passAll_ok:
  "\<exists>cs. passAll ctx calls = Some cs \<and> map c_call_kind cs = map call_kind calls \<and> list_all (c_call_ok ctx) cs"
proof (induction calls)
  case (Cons call calls)
  then show ?case
    using passOn_ok [of ctx call] by (auto simp: passAll_def)
qed (simp add: passAll_def)


definition c_demo_callbacks :: NLCallbacks where
  "c_demo_callbacks =
     \<lparr>nlk_context = 7, nlk_onPeerDiscovered = True, nlk_onPeerLost = True, nlk_onConnectionRequest = True, nlk_onConnected = True,
      nlk_onDisconnected = True, nlk_onMessage = True, nlk_onNetworkAdapterChanged = True, nlk_onLog = False\<rparr>"


end
