(* ===== verification/NetworkInformationWindows.thy ===== *)
theory NetworkInformationWindows
  imports NetworkInformation
begin

text \<open>
  \<open>Network/NetworkInformationWindows.cpp\<close>: the backend of Windows. The first part is the list of adapters,
  with the netmask made of a prefix length; the second one how the answer of the system is asked for and
  freed, over calls that are functions of a world. The lemmas show that it is an \<open>adapter_backend\<close>, and that every
  buffer is freed and every session of Winsock ended once the object is gone.
\<close>

unbundle bit_operations_syntax

section \<open>Adapters\<close>

text \<open>
  An entry of \<open>GetAdaptersAddresses\<close> with its IPv4 and IPv6 addresses and their prefix lengths. The name is
  what \<open>WStringToStdString\<close> makes of the description. A route is a prefix length and the interface.
\<close>

record IpAdapter =
  ip_Description :: bytes
  ip_IfType :: u32
  ip_Luid :: u64
  ip_Flags :: u32
  ip_OperStatus :: u32
  ip_Unicast :: "(SockAddr \<times> u32) list"

record WindowsSystem =
  win_inet_ntop :: "IPv4Address \<Rightarrow> bytes"
  win_inet_ntop6 :: "bytes \<Rightarrow> bytes"
  win_GetIpForwardTable2 :: "(u8 \<times> u64) list option"

definition win_sockaddrToString :: "WindowsSystem \<Rightarrow> SockAddr \<Rightarrow> bytes" where
  "win_sockaddrToString sys sa = (case sa of AF_INET a \<Rightarrow> win_inet_ntop sys a | AF_INET6 a \<Rightarrow> win_inet_ntop6 sys a | AF_OTHER \<Rightarrow> [])"

definition prefixLengthToSubnetMask :: "WindowsSystem \<Rightarrow> SockAddr \<Rightarrow> u32 \<Rightarrow> bytes" where
  "prefixLengthToSubnetMask sys family prefixLength =
     (case family of
        AF_INET _ \<Rightarrow>
          if prefixLength \<le> 32
          then let m = (if prefixLength = 0 then 0 else push_bit (unat (32 - prefixLength)) (-1 :: u32)) in win_inet_ntop sys m
          else []
      | AF_INET6 _ \<Rightarrow> if prefixLength \<le> 128 then to_string (unat prefixLength) else []
      | AF_OTHER \<Rightarrow> [])"

definition win_filterAdapterType :: "u32 \<Rightarrow> AdapterTypes" where
  "win_filterAdapterType type =
     (if type = 6 then Ethernet else if type = 71 then WiFi else if type = 24 then Loopback else if type = 53 then Virtual else Other)"

definition win_determinePriority :: "bool \<Rightarrow> bool \<Rightarrow> AdapterTypes \<Rightarrow> u32 \<Rightarrow> AdapterPriorityInternal" where
  "win_determinePriority isDefaultRoute ipv4Enabled type status =
     (if type = Loopback then Suppressed
      else if status \<noteq> 1 then Available
      else if \<not> isDefaultRoute \<or> \<not> ipv4Enabled then Available
      else if type \<noteq> Ethernet \<and> type \<noteq> WiFi then Available
      else Preferred)"

text \<open>The loop of \<open>saveAdapter\<close> over the addresses, and one round of it.\<close>

definition win_saveAddress ::
  "WindowsSystem \<Rightarrow> u64 list \<Rightarrow> IpAdapter \<Rightarrow> NetworkAdapterInternal list \<Rightarrow> SockAddr \<times> u32 \<Rightarrow> NetworkAdapterInternal list" where
  "win_saveAddress sys defaultRouteLuidValues adapter adapters unicast =
     (case unicast of
        (AF_INET a, prefixLength) \<Rightarrow>
          let addressString = win_sockaddrToString sys (AF_INET a);
              subnetMaskString = prefixLengthToSubnetMask sys (AF_INET a) prefixLength;
              type = win_filterAdapterType (ip_IfType adapter);
              networkName = networkNameOf type addressString;
              isDefaultRoute = ip_Luid adapter \<in> set defaultRouteLuidValues;
              ipv4Enabled = (ip_Flags adapter AND 0x80 \<noteq> 0);
              visibility = win_determinePriority isDefaultRoute ipv4Enabled type (ip_OperStatus adapter)
          in adapters @ [networkAdapterInternal (ip_Description adapter) networkName addressString subnetMaskString
               (makeAdapterId (ip_Luid adapter) addressString) isDefaultRoute type visibility]
      | _ \<Rightarrow> adapters)"

definition win_saveAdapter ::
  "WindowsSystem \<Rightarrow> u64 list \<Rightarrow> NetworkAdapterInternal list \<Rightarrow> IpAdapter \<Rightarrow> NetworkAdapterInternal list" where
  "win_saveAdapter sys defaultRouteLuidValues adapters adapter =
     foldl (win_saveAddress sys defaultRouteLuidValues adapter) adapters (ip_Unicast adapter)"

definition win_getDefaultInterfaces :: "WindowsSystem \<Rightarrow> u64 list option" where
  "win_getDefaultInterfaces sys =
     (case win_GetIpForwardTable2 sys of
        None \<Rightarrow> None
      | Some table \<Rightarrow> Some (map snd (filter (\<lambda>(prefixLength, luid). prefixLength = 0) table)))"

text \<open>
  The state: the buffer with the answer of \<open>GetAdaptersAddresses\<close>, \<open>None\<close> for a null pointer, its size, the session
  of Winsock with whether it was started, and the list of adapters.
\<close>

record WindowsNetwork =
  wi_addresses :: "IpAdapter list option"
  wi_outBufLen :: u32
  wi_session :: "bool option"
  wi_adapters :: "NetworkAdapterInternal list"

definition windowsNetwork :: WindowsNetwork where
  "windowsNetwork = \<lparr>wi_addresses = None, wi_outBufLen = 0, wi_session = None, wi_adapters = []\<rparr>"

definition wi_nodes :: "WindowsNetwork \<Rightarrow> IpAdapter list" where
  "wi_nodes n = (case wi_addresses n of Some nodes \<Rightarrow> nodes | None \<Rightarrow> [])"

definition win_processAdapter :: "WindowsSystem \<Rightarrow> WindowsNetwork \<Rightarrow> WindowsNetwork" where
  "win_processAdapter sys n =
     (let defaultRouteAdapters = (case win_getDefaultInterfaces sys of Some luids \<Rightarrow> luids | None \<Rightarrow> [])
      in n\<lparr>wi_adapters := foldl (win_saveAdapter sys (remdups defaultRouteAdapters)) [] (wi_nodes n)\<rparr>)"

lemma push_bit_ones: "push_bit k (- 1) = NOT (mask k)" for k
  by (simp add: push_bit_eq_mult flip: minus_exp_eq_not_mask)

text \<open>The netmask of a prefix length is that many ones.\<close>

lemma prefixLengthToSubnetMask_parse:
  assumes "win_inet_ntop sys = toString" and "prefixLength \<le> 32"
  shows "parse (prefixLengthToSubnetMask sys (AF_INET a) prefixLength) = Some (prefix_mask (unat prefixLength))"
proof -
  have "unat (32 - prefixLength) = 32 - unat prefixLength"
    using assms(2) by (simp add: unat_sub)
  moreover have "prefix_mask 0 = 0"
    by (rule bit_word_eqI) (simp add: prefix_mask_def bit_not_iff bit_mask_iff)
  ultimately show ?thesis
    using assms by (simp add: prefixLengthToSubnetMask_def Let_def parse_iff push_bit_ones prefix_mask_def)
qed

lemma win_priority_cases:
  "win_determinePriority def en type status = Suppressed \<longleftrightarrow> type = Loopback"
  "win_determinePriority def en type status = Preferred \<longleftrightarrow> (type = Ethernet \<or> type = WiFi) \<and> def \<and> en \<and> status = 1"
  by (auto simp: win_determinePriority_def)

text \<open>What an address of a Windows adapter tells about the entry of the list.\<close>

definition win_describes :: "WindowsSystem \<Rightarrow> IpAdapter \<Rightarrow> SockAddr \<times> u32 \<Rightarrow> NetworkAdapterInternal \<Rightarrow> bool" where
  "win_describes sys adapter ad a \<longleftrightarrow>
     na_AdapterName a = ip_Description adapter \<and>
     (isValidAdapter a \<longleftrightarrow> ip_Description adapter \<noteq> []) \<and>
     (snd ad \<le> 32 \<longrightarrow> parse (na_Subnet a) = Some (prefix_mask (unat (snd ad)))) \<and>
     (na_Eligible a \<longleftrightarrow> 1 \<le> snd ad \<and> snd ad \<le> 32) \<and>
     (na_Priority a = Suppressed \<longleftrightarrow> ip_IfType adapter = 24) \<and>
     (na_Priority a = Preferred \<longleftrightarrow>
        (ip_IfType adapter = 6 \<or> ip_IfType adapter = 71) \<and> ip_OperStatus adapter = 1 \<and> ip_Flags adapter AND 0x80 \<noteq> 0 \<and>
        (\<exists>luids. win_getDefaultInterfaces sys = Some luids \<and> ip_Luid adapter \<in> set luids))"

lemma win_eligible:
  assumes "win_inet_ntop sys = toString"
  shows "filterSubnetMask (prefixLengthToSubnetMask sys (AF_INET a) k) \<longleftrightarrow> 1 \<le> k \<and> k \<le> 32"
proof (cases "k \<le> 32")
  case True
  have "isNetmask (prefix_mask (unat k)) \<longleftrightarrow> k \<noteq> 0"
  proof
    assume "isNetmask (prefix_mask (unat k))"
    moreover have "\<not> isNetmask (prefix_mask 0)"
      by code_simp
    ultimately show "k \<noteq> 0"
      by auto
  next
    assume "k \<noteq> 0"
    then have "unat k \<in> {1..32}"
      using True by (simp add: word_le_nat_alt Suc_le_eq unat_gt_0)
    then show "isNetmask (prefix_mask (unat k))"
      unfolding isNetmask_iff by blast
  qed
  then show ?thesis
    using prefixLengthToSubnetMask_parse [OF assms True] True by (simp add: filterSubnetMask_def word_le_nat_alt Suc_le_eq unat_gt_0)
next
  case False
  then show ?thesis
    by (simp add: prefixLengthToSubnetMask_def filterSubnetMask_def parse_def parseOctets.simps numeral_eq_Suc)
qed

lemma win_type_cases:
  "win_filterAdapterType t = Loopback \<longleftrightarrow> t = 24" "win_filterAdapterType t = Ethernet \<longleftrightarrow> t = 6" "win_filterAdapterType t = WiFi \<longleftrightarrow> t = 71"
  by (auto simp: win_filterAdapterType_def)

definition win_ipv4_of :: "SockAddr \<times> u32 \<Rightarrow> IPv4Address option" where
  "win_ipv4_of ad = (case fst ad of AF_INET ip \<Rightarrow> Some ip | _ \<Rightarrow> None)"

definition default_luids :: "WindowsSystem \<Rightarrow> u64 list" where
  "default_luids sys = remdups (case win_getDefaultInterfaces sys of Some luids \<Rightarrow> luids | None \<Rightarrow> [])"

lemma win_saveAddress_describes:
  assumes "win_inet_ntop sys = toString" and "win_ipv4_of ad = Some ip"
  shows "\<exists>a. win_saveAddress sys (default_luids sys) adapter adapters ad = adapters @ [a] \<and> win_describes sys adapter ad a \<and>
    parse (na_IPv4 a) = Some ip"
proof -
  obtain k where ad: "ad = (AF_INET ip, k)"
    using assms(2) by (cases ad) (auto simp: win_ipv4_of_def split: SockAddr.splits)
  have p: "parse (toString ip) = Some ip"
    by (simp add: parse_iff)
  show ?thesis
    using assms(1) p parse_nonempty [OF p] prefixLengthToSubnetMask_parse [OF assms(1)] win_eligible [OF assms(1)]
    by (cases "win_getDefaultInterfaces sys"; simp add: ad win_saveAddress_def Let_def win_describes_def networkAdapterInternal_def
        default_luids_def win_sockaddrToString_def isValidAdapter_def makeAdapterId_nonzero win_priority_cases win_type_cases)
      blast+
qed

interpretation windows_adapters: adapter_backend "win_saveAddress sys (default_luids sys) adapter" win_ipv4_of "win_describes sys adapter"
  "win_inet_ntop sys = toString" for sys adapter
proof unfold_locales
  show "win_saveAddress sys (default_luids sys) adapter adapters ad = adapters" if "win_ipv4_of ad = None" for adapters ad
    using that by (auto simp: win_ipv4_of_def win_saveAddress_def split: SockAddr.splits prod.splits)
qed (rule win_saveAddress_describes)

text \<open>The addresses of all adapters of Windows, each with its adapter.\<close>

definition win_entries :: "IpAdapter list \<Rightarrow> (IpAdapter \<times> SockAddr \<times> u32) list" where
  "win_entries addresses =
     concat (map (\<lambda>adapter. map (Pair adapter) (filter (\<lambda>ad. win_ipv4_of ad \<noteq> None) (ip_Unicast adapter))) addresses)"

lemma windows_adapters_list:
  assumes "win_inet_ntop sys = toString"
  shows "list_all2 (\<lambda>(adapter, ad) a. win_describes sys adapter ad a \<and> parse (na_IPv4 a) = win_ipv4_of ad)
    (win_entries (wi_nodes n)) (wi_adapters (win_processAdapter sys n))"
proof -
  let ?P = "\<lambda>(adapter, ad) a. win_describes sys adapter ad a \<and> parse (na_IPv4 a) = win_ipv4_of ad"
  have all: "\<exists>as. foldl (win_saveAdapter sys (default_luids sys)) adapters ads = adapters @ as \<and> list_all2 ?P (win_entries ads) as" for adapters ads
  proof (induction ads arbitrary: adapters)
    case (Cons ad ads)
    obtain as where as: "win_saveAdapter sys (default_luids sys) adapters ad = adapters @ as"
      "list_all2 ?P (map (Pair ad) (filter (\<lambda>ad. win_ipv4_of ad \<noteq> None) (ip_Unicast ad))) as"
      using windows_adapters.saved_after [OF assms, of ad adapters "ip_Unicast ad"] by (auto simp: win_saveAdapter_def list_all2_map1)
    then show ?case
      using Cons.IH [of "adapters @ as"] by (fastforce simp: win_entries_def intro: list_all2_appendI)
  qed (simp add: win_entries_def)
  show ?thesis
    using all [of "[]" "wi_nodes n"] by (auto simp: win_processAdapter_def default_luids_def Let_def)
qed


section \<open>The life of the object\<close>

text \<open>
  The calls of the system. \<open>wc_GetAdaptersAddresses\<close> takes the flags, whether there is a buffer and its size, and returns
  the result, the size that is needed, and what was written to the buffer.
\<close>

record 'w WindowsCalls =
  wc_WSAStartup :: "'w \<Rightarrow> bool \<times> 'w"
  wc_WSACleanup :: "'w \<Rightarrow> 'w"
  wc_GetAdaptersAddresses :: "u32 \<Rightarrow> bool \<Rightarrow> u32 \<Rightarrow> 'w \<Rightarrow> u32 \<times> u32 \<times> IpAdapter list \<times> 'w"
  wc_malloc :: "u32 \<Rightarrow> 'w \<Rightarrow> bool \<times> 'w"
  wc_free :: "'w \<Rightarrow> 'w"

definition NO_ERROR :: u32 where "NO_ERROR = 0"
definition ERROR_ACCESS_DENIED :: u32 where "ERROR_ACCESS_DENIED = 5"
definition ERROR_BUFFER_OVERFLOW :: u32 where "ERROR_BUFFER_OVERFLOW = 111"

text \<open>The destructors of \<open>AdapterBuffer\<close> and \<open>WinsockSession\<close>.\<close>

definition freeBuffer :: "'w WindowsCalls \<Rightarrow> IpAdapter list option \<Rightarrow> 'w \<Rightarrow> 'w" where
  "freeBuffer calls buffer w = (if buffer \<noteq> None then wc_free calls w else w)"

definition endWinsock :: "'w WindowsCalls \<Rightarrow> bool option \<Rightarrow> 'w \<Rightarrow> 'w" where
  "endWinsock calls session w = (if session = Some True then wc_WSACleanup calls w else w)"

definition win_getNetworkInformationFromOS :: "'w WindowsCalls \<Rightarrow> WindowsNetwork \<Rightarrow> 'w \<Rightarrow> bool \<times> WindowsNetwork \<times> 'w" where
  "win_getNetworkInformationFromOS calls n w =
     (let flgs = 0x10 OR 0x80;
          (result, len, nothing_written, w) = wc_GetAdaptersAddresses calls flgs False (wi_outBufLen n) w;
          n = n\<lparr>wi_outBufLen := len\<rparr>
      in if result \<noteq> ERROR_ACCESS_DENIED \<and> result \<noteq> ERROR_BUFFER_OVERFLOW then (False, n, w)
         else
           let flgs = (if result = ERROR_ACCESS_DENIED then 0 else flgs);
               (allocated, w) = wc_malloc calls (wi_outBufLen n) w
           in if \<not> allocated then (False, n, w)
              else
                let (result, len, nodes, w) = wc_GetAdaptersAddresses calls flgs True (wi_outBufLen n) w;
                    n = n\<lparr>wi_outBufLen := len\<rparr>
                in if result \<noteq> NO_ERROR then (False, n, wc_free calls w)
                   else (True, n\<lparr>wi_addresses := Some nodes\<rparr>, freeBuffer calls (wi_addresses n) w))"

definition win_init :: "'w WindowsCalls \<Rightarrow> WindowsNetwork \<Rightarrow> 'w \<Rightarrow> bool \<times> WindowsNetwork \<times> 'w" where
  "win_init calls n w =
     (let (started, w) = wc_WSAStartup calls w;
          w = endWinsock calls (wi_session n) w;
          n = n\<lparr>wi_session := Some started\<rparr>
      in if \<not> started then (False, n, w) else win_getNetworkInformationFromOS calls n w)"

definition win_deinit :: "'w WindowsCalls \<Rightarrow> WindowsNetwork \<Rightarrow> 'w \<Rightarrow> WindowsNetwork \<times> 'w" where
  "win_deinit calls n w = (n\<lparr>wi_addresses := None, wi_adapters := []\<rparr>, freeBuffer calls (wi_addresses n) w)"

text \<open>The destructor: \<open>deinit\<close>, and then the members of \<open>Impl\<close>, the last one first.\<close>

definition win_destroy :: "'w WindowsCalls \<Rightarrow> WindowsNetwork \<Rightarrow> 'w \<Rightarrow> 'w" where
  "win_destroy calls n w =
     (let (n, w) = win_deinit calls n w
      in freeBuffer calls (wi_addresses n) (endWinsock calls (wi_session n) w))"

text \<open>
  What the calls do to the numbers of sessions and of buffers there are. Nothing else changes them.
\<close>

definition win_counts :: "('w \<Rightarrow> nat) \<Rightarrow> ('w \<Rightarrow> nat) \<Rightarrow> 'w WindowsCalls \<Rightarrow> bool" where
  "win_counts sessions buffers calls \<longleftrightarrow>
     (\<forall>w ok w'. wc_WSAStartup calls w = (ok, w') \<longrightarrow> sessions w' = sessions w + (if ok then 1 else 0) \<and> buffers w' = buffers w) \<and>
     (\<forall>w. sessions (wc_WSACleanup calls w) = sessions w - 1 \<and> buffers (wc_WSACleanup calls w) = buffers w) \<and>
     (\<forall>flgs b len w r len' nodes w'. wc_GetAdaptersAddresses calls flgs b len w = (r, len', nodes, w') \<longrightarrow>
        sessions w' = sessions w \<and> buffers w' = buffers w) \<and>
     (\<forall>len w ok w'. wc_malloc calls len w = (ok, w') \<longrightarrow> sessions w' = sessions w \<and> buffers w' = buffers w + (if ok then 1 else 0)) \<and>
     (\<forall>w. sessions (wc_free calls w) = sessions w \<and> buffers (wc_free calls w) = buffers w - 1)"

text \<open>What one object holds, on top of \<open>s\<close> sessions and \<open>b\<close> buffers of others.\<close>

definition win_owns :: "('w \<Rightarrow> nat) \<Rightarrow> ('w \<Rightarrow> nat) \<Rightarrow> nat \<Rightarrow> nat \<Rightarrow> WindowsNetwork \<Rightarrow> 'w \<Rightarrow> bool" where
  "win_owns sessions buffers s b n w \<longleftrightarrow>
     sessions w = s + (if wi_session n = Some True then 1 else 0) \<and> buffers w = b + (if wi_addresses n \<noteq> None then 1 else 0)"

lemma win_counts_call:
  assumes "win_counts sessions buffers calls"
  shows "wc_WSAStartup calls w = (ok, w') \<Longrightarrow> sessions w' = sessions w + (if ok then 1 else 0) \<and> buffers w' = buffers w"
    "sessions (wc_WSACleanup calls w) = sessions w - 1" "buffers (wc_WSACleanup calls w) = buffers w"
    "wc_GetAdaptersAddresses calls flgs g len w = (r, len', nodes, w') \<Longrightarrow> sessions w' = sessions w \<and> buffers w' = buffers w"
    "wc_malloc calls len w = (ok, w') \<Longrightarrow> sessions w' = sessions w \<and> buffers w' = buffers w + (if ok then 1 else 0)"
    "sessions (wc_free calls w) = sessions w" "buffers (wc_free calls w) = buffers w - 1"
  using assms unfolding win_counts_def by blast+

lemma win_get_owns:
  assumes c: "win_counts sessions buffers calls" and owns: "win_owns sessions buffers s b n w"
    and got: "win_getNetworkInformationFromOS calls n w = (ok, n', w')"
  shows "win_owns sessions buffers s b n' w'"
proof -
  note call = win_counts_call [OF c]
  obtain r len nodes w1 where first: "wc_GetAdaptersAddresses calls (0x10 OR 0x80) False (wi_outBufLen n) w = (r, len, nodes, w1)"
    by (metis prod_cases4)
  have w1: "sessions w1 = sessions w" "buffers w1 = buffers w"
    using call(4) [OF first] by simp_all
  show ?thesis
  proof (cases "r \<noteq> ERROR_ACCESS_DENIED \<and> r \<noteq> ERROR_BUFFER_OVERFLOW")
    case True
    then show ?thesis
      using got first w1 owns by (auto simp: win_getNetworkInformationFromOS_def Let_def win_owns_def)
  next
    case False
    obtain allocated w2 where alloc: "wc_malloc calls len w1 = (allocated, w2)"
      by fastforce
    have w2: "sessions w2 = sessions w" "buffers w2 = buffers w + (if allocated then 1 else 0)"
      using call(5) [OF alloc] w1 by simp_all
    let ?flgs = "if r = ERROR_ACCESS_DENIED then 0 else 0x10 OR 0x80 :: u32"
    obtain r' len' nodes' w3 where second: "wc_GetAdaptersAddresses calls ?flgs True len w2 = (r', len', nodes', w3)"
      by (metis prod_cases4)
    have w3: "sessions w3 = sessions w2" "buffers w3 = buffers w2"
      using call(4) [OF second] by simp_all
    have result: "(ok, n', w') =
      (if \<not> allocated then (False, n\<lparr>wi_outBufLen := len\<rparr>, w2)
       else if r' \<noteq> NO_ERROR then (False, n\<lparr>wi_outBufLen := len'\<rparr>, wc_free calls w3)
       else (True, n\<lparr>wi_outBufLen := len', wi_addresses := Some nodes'\<rparr>, freeBuffer calls (wi_addresses n) w3))"
      using got False first alloc second unfolding win_getNetworkInformationFromOS_def Let_def by (simp split: if_splits)
    show ?thesis
      using result owns w2 w3 call(6,7) by (auto simp: win_owns_def freeBuffer_def split: if_splits)
  qed
qed

lemma win_init_owns:
  assumes c: "win_counts sessions buffers calls" and owns: "win_owns sessions buffers s b n w" and got: "win_init calls n w = (ok, n', w')"
  shows "win_owns sessions buffers s b n' w'"
proof -
  note call = win_counts_call [OF c]
  obtain started w1 where start: "wc_WSAStartup calls w = (started, w1)"
    by fastforce
  define w2 where "w2 = endWinsock calls (wi_session n) w1"
  have "win_owns sessions buffers s b (n\<lparr>wi_session := Some started\<rparr>) w2"
    using call(1) [OF start] call(2,3) owns by (auto simp: win_owns_def w2_def endWinsock_def)
  then show ?thesis
    using got start win_get_owns [OF c] by (auto simp: win_init_def Let_def w2_def split: if_splits)
qed

text \<open>Whatever was done with the object, nothing of it is left when it is gone.\<close>

lemma win_destroy_owns_nothing:
  assumes c: "win_counts sessions buffers calls" and "win_owns sessions buffers s b n w"
  shows "sessions (win_destroy calls n w) = s \<and> buffers (win_destroy calls n w) = b"
  using assms(2) win_counts_call [OF c] by (auto simp: win_destroy_def win_deinit_def win_owns_def freeBuffer_def endWinsock_def)

lemma win_created_owns: "win_owns sessions buffers (sessions w) (buffers w) windowsNetwork w"
  by (simp add: win_owns_def windowsNetwork_def)

lemma win_deinit_owns:
  assumes c: "win_counts sessions buffers calls" and "win_owns sessions buffers s b n w" and "win_deinit calls n w = (n', w')"
  shows "win_owns sessions buffers s b n' w' \<and> wi_nodes n' = []"
  using assms(2,3) win_counts_call [OF c] by (auto simp: win_deinit_def win_owns_def freeBuffer_def wi_nodes_def)

end
