(* ===== verification/Sockets.thy ===== *)
theory Sockets
  imports EngineState
begin

text \<open>
  The socket calls of \<open>SocketPlatform.cpp\<close> with the error codes of POSIX and of Winsock
  (\<open>SocketPlatformPosix.cpp\<close>, \<open>SocketPlatformWindows.cpp\<close>, \<open>SocketCommon.h\<close>). The system calls are functions on a
  world, which also holds what other threads do; the loops around them are partial functions, as a call
  that is interrupted is repeated. The lemmas show that sending in two parts is sending their
  concatenation, that a datagram that was cut off is never taken for a whole one, and that a loop ends
  once the signals do.
\<close>

section \<open>Errors\<close>

text \<open>The codes the sources name, and the others with their number.\<close>

datatype Errno =
    EAGAIN | EINPROGRESS | ETIMEDOUT | EPIPE | ESHUTDOWN | ECONNREFUSED | ECONNRESET | ENETRESET | ECONNABORTED | ENOTCONN
  | EADDRINUSE | EADDRNOTAVAIL | EACCES | EPERM | EINVAL | EFAULT | EBADF | ENOTSOCK | EAFNOSUPPORT | ENETUNREACH
  | EHOSTUNREACH | EHOSTDOWN | ENETDOWN | EMSGSIZE | ENOBUFS | EINTR | OtherErrno int

datatype WsaError =
    WSAEWOULDBLOCK | WSAEINPROGRESS | WSAETIMEDOUT | WSAESHUTDOWN | WSAEDISCON | WSAECONNREFUSED | WSAECONNRESET
  | WSAENETRESET | WSAECONNABORTED | WSAENOTCONN | WSAEADDRINUSE | WSAEADDRNOTAVAIL | WSAEACCES | WSAEINVAL | WSAEFAULT
  | WSAENOTSOCK | WSAEAFNOSUPPORT | WSAENETUNREACH | WSAEHOSTUNREACH | WSAEHOSTDOWN | WSAENETDOWN | WSAEMSGSIZE
  | WSANOTINITIALISED | WSAENOBUFS | WSAEINTR | OtherWsaError int

text \<open>What \<open>SocketCommon.h\<close> declares for each platform.\<close>

record 'e NativeErrors =
  isInterrupted :: "'e \<Rightarrow> bool"
  isWouldBlock :: "'e \<Rightarrow> bool"
  mapNativeError :: "'e \<Rightarrow> SocketError"

definition posix_isInterrupted :: "Errno \<Rightarrow> bool" where
  "posix_isInterrupted code \<longleftrightarrow> code = EINTR"

text \<open>\<open>EWOULDBLOCK\<close> is \<open>EAGAIN\<close>.\<close>

definition posix_isWouldBlock :: "Errno \<Rightarrow> bool" where
  "posix_isWouldBlock code \<longleftrightarrow> code = EAGAIN \<or> code = ENOBUFS"

definition posix_mapNativeError :: "Errno \<Rightarrow> SocketError" where
  "posix_mapNativeError code =
     (case code of
        EAGAIN \<Rightarrow> WouldBlock | EINPROGRESS \<Rightarrow> WouldBlock
      | ETIMEDOUT \<Rightarrow> Timeout
      | EPIPE \<Rightarrow> Closed | ESHUTDOWN \<Rightarrow> Closed
      | ECONNREFUSED \<Rightarrow> ConnectionRefused
      | ECONNRESET \<Rightarrow> ConnectionReset | ENETRESET \<Rightarrow> ConnectionReset
      | ECONNABORTED \<Rightarrow> ConnectionAborted
      | ENOTCONN \<Rightarrow> SocketError.NotConnected
      | EADDRINUSE \<Rightarrow> AddressInUse
      | EADDRNOTAVAIL \<Rightarrow> AddressNotAvailable
      | EACCES \<Rightarrow> PermissionDenied | EPERM \<Rightarrow> PermissionDenied
      | EINVAL \<Rightarrow> InvalidArgument | EFAULT \<Rightarrow> InvalidArgument | EBADF \<Rightarrow> InvalidArgument
      | ENOTSOCK \<Rightarrow> InvalidArgument | EAFNOSUPPORT \<Rightarrow> InvalidArgument
      | ENETUNREACH \<Rightarrow> NetworkUnreachable | EHOSTUNREACH \<Rightarrow> NetworkUnreachable | EHOSTDOWN \<Rightarrow> NetworkUnreachable
      | ENETDOWN \<Rightarrow> NetworkDown
      | EMSGSIZE \<Rightarrow> MessageTooLarge
      | _ \<Rightarrow> Unknown)"

definition posixErrors :: "Errno NativeErrors" where
  "posixErrors = \<lparr>isInterrupted = posix_isInterrupted, isWouldBlock = posix_isWouldBlock, mapNativeError = posix_mapNativeError\<rparr>"

definition windows_isInterrupted :: "WsaError \<Rightarrow> bool" where
  "windows_isInterrupted code \<longleftrightarrow> code = WSAEINTR"

definition windows_isWouldBlock :: "WsaError \<Rightarrow> bool" where
  "windows_isWouldBlock code \<longleftrightarrow> code = WSAEWOULDBLOCK \<or> code = WSAENOBUFS"

definition windows_mapNativeError :: "WsaError \<Rightarrow> SocketError" where
  "windows_mapNativeError code =
     (case code of
        WSAEWOULDBLOCK \<Rightarrow> WouldBlock | WSAEINPROGRESS \<Rightarrow> WouldBlock
      | WSAETIMEDOUT \<Rightarrow> Timeout
      | WSAESHUTDOWN \<Rightarrow> Closed | WSAEDISCON \<Rightarrow> Closed
      | WSAECONNREFUSED \<Rightarrow> ConnectionRefused
      | WSAECONNRESET \<Rightarrow> ConnectionReset | WSAENETRESET \<Rightarrow> ConnectionReset
      | WSAECONNABORTED \<Rightarrow> ConnectionAborted
      | WSAENOTCONN \<Rightarrow> SocketError.NotConnected
      | WSAEADDRINUSE \<Rightarrow> AddressInUse
      | WSAEADDRNOTAVAIL \<Rightarrow> AddressNotAvailable
      | WSAEACCES \<Rightarrow> PermissionDenied
      | WSAEINVAL \<Rightarrow> InvalidArgument | WSAEFAULT \<Rightarrow> InvalidArgument
      | WSAENOTSOCK \<Rightarrow> InvalidArgument | WSAEAFNOSUPPORT \<Rightarrow> InvalidArgument
      | WSAENETUNREACH \<Rightarrow> NetworkUnreachable | WSAEHOSTUNREACH \<Rightarrow> NetworkUnreachable | WSAEHOSTDOWN \<Rightarrow> NetworkUnreachable
      | WSAENETDOWN \<Rightarrow> NetworkDown
      | WSAEMSGSIZE \<Rightarrow> MessageTooLarge
      | WSANOTINITIALISED \<Rightarrow> NotInitialized
      | _ \<Rightarrow> Unknown)"

definition windowsErrors :: "WsaError NativeErrors" where
  "windowsErrors = \<lparr>isInterrupted = windows_isInterrupted, isWouldBlock = windows_isWouldBlock, mapNativeError = windows_mapNativeError\<rparr>"

definition socketErrorText :: "SocketError \<Rightarrow> string" where
  "socketErrorText err =
     (case err of
        Timeout \<Rightarrow> ''Timeout''
      | WouldBlock \<Rightarrow> ''Would block''
      | Cancelled \<Rightarrow> ''Cancelled''
      | Closed \<Rightarrow> ''Closed''
      | ConnectionRefused \<Rightarrow> ''Connection refused''
      | ConnectionReset \<Rightarrow> ''Connection reset''
      | ConnectionAborted \<Rightarrow> ''Connection aborted''
      | SocketError.NotConnected \<Rightarrow> ''Not connected''
      | AddressInUse \<Rightarrow> ''Address in use''
      | AddressNotAvailable \<Rightarrow> ''Address not available''
      | PermissionDenied \<Rightarrow> ''Permission denied''
      | InvalidArgument \<Rightarrow> ''Invalid argument''
      | NetworkUnreachable \<Rightarrow> ''Network unreachable''
      | NetworkDown \<Rightarrow> ''Network down''
      | MessageTooLarge \<Rightarrow> ''Message too large''
      | NotInitialized \<Rightarrow> ''Socket subsystem not initialized''
      | Unknown \<Rightarrow> ''Unknown error'')"


section \<open>Addresses\<close>

text \<open>A \<open>sockaddr_in\<close> with its fields as they are in memory, in network byte order.\<close>

record sockaddr_in =
  sin_port :: bytes
  sin_addr :: bytes

definition toSockaddr :: "SocketAddress \<Rightarrow> sockaddr_in" where
  "toSockaddr a = \<lparr>sin_port = be16 (sa_port a), sin_addr = be32 (sa_ip a)\<rparr>"

definition fromSockaddr :: "sockaddr_in \<Rightarrow> SocketAddress option" where
  "fromSockaddr addr = do { ip \<leftarrow> readUint32 (sin_addr addr) 0; p \<leftarrow> readUint16 (sin_port addr) 0; Some \<lparr>sa_ip = ip, sa_port = p\<rparr> }"


section \<open>System calls\<close>

text \<open>
  The calls both families have, on a native handle; \<open>Inl\<close> and \<open>Some\<close> are the code of a call that failed.
  \<open>k_recvmsg\<close> returns the bytes it wrote, the sender and whether it set \<open>MSG_TRUNC\<close>, which Winsock does not
  have: there a datagram that does not fit fails with \<open>WSAEMSGSIZE\<close>.
\<close>

type_synonym NativeHandle = u64

definition InvalidNativeHandle :: NativeHandle where
  "InvalidNativeHandle = not 0"

record ('e, 'w) Kernel =
  k_errors :: "'e NativeErrors"
  k_socket :: "'w \<Rightarrow> ('e + NativeHandle) \<times> 'w"
  k_close :: "NativeHandle \<Rightarrow> 'w \<Rightarrow> 'w"
  k_shutdown :: "NativeHandle \<Rightarrow> 'w \<Rightarrow> 'w"
  k_setsockopt :: "NativeHandle \<Rightarrow> string \<Rightarrow> int \<Rightarrow> 'w \<Rightarrow> 'e option \<times> 'w"
  k_getsockopt :: "NativeHandle \<Rightarrow> string \<Rightarrow> 'w \<Rightarrow> ('e + int) \<times> 'w"
  k_bind :: "NativeHandle \<Rightarrow> sockaddr_in \<Rightarrow> 'w \<Rightarrow> 'e option \<times> 'w"
  k_getsockname :: "NativeHandle \<Rightarrow> 'w \<Rightarrow> ('e + sockaddr_in) \<times> 'w"
  k_sendto :: "NativeHandle \<Rightarrow> sockaddr_in \<Rightarrow> bytes \<Rightarrow> 'w \<Rightarrow> ('e + nat) \<times> 'w"
  k_sendmsg :: "NativeHandle \<Rightarrow> sockaddr_in \<Rightarrow> bytes list \<Rightarrow> 'w \<Rightarrow> ('e + nat) \<times> 'w"
  k_recvmsg :: "NativeHandle \<Rightarrow> nat \<Rightarrow> 'w \<Rightarrow> ('e + bytes \<times> sockaddr_in \<times> bool) \<times> 'w"
  k_now :: "'w \<Rightarrow> int \<times> 'w"

definition lastError :: "('e, 'w) Kernel \<Rightarrow> 'e \<Rightarrow> SocketError" where
  "lastError k code = mapNativeError (k_errors k) code"

definition callFailed :: "('e, 'w) Kernel \<Rightarrow> 'e \<Rightarrow> SocketError" where
  "callFailed k code = (if isWouldBlock (k_errors k) code then WouldBlock else mapNativeError (k_errors k) code)"

text \<open>
  \<open>clampLength\<close> is the identity on POSIX and cuts at \<open>2^31 - 1\<close> bytes on Windows, more than any datagram has.
\<close>

partial_function (option) sendDatagram ::
  "('e, 'w) Kernel \<Rightarrow> NativeHandle \<Rightarrow> SocketAddress \<Rightarrow> bytes \<Rightarrow> 'w \<Rightarrow> ((SocketError + nat) \<times> 'w) option" where
  "sendDatagram k handle to data w =
     (case k_sendto k handle (toSockaddr to) data w of
        (Inr sent, w) \<Rightarrow> Some (Inr sent, w)
      | (Inl code, w) \<Rightarrow>
          if isInterrupted (k_errors k) code then sendDatagram k handle to data w else Some (Inl (callFailed k code), w))"

partial_function (option) sendDatagramParts ::
  "('e, 'w) Kernel \<Rightarrow> NativeHandle \<Rightarrow> SocketAddress \<Rightarrow> bytes \<Rightarrow> bytes \<Rightarrow> 'w \<Rightarrow> ((SocketError + nat) \<times> 'w) option" where
  "sendDatagramParts k handle to head body w =
     (case k_sendmsg k handle (toSockaddr to) (if body = [] then [head] else [head, body]) w of
        (Inr sent, w) \<Rightarrow> Some (Inr sent, w)
      | (Inl code, w) \<Rightarrow>
          if isInterrupted (k_errors k) code then sendDatagramParts k handle to head body w else Some (Inl (callFailed k code), w))"

partial_function (option) receiveDatagram ::
  "('e, 'w) Kernel \<Rightarrow> NativeHandle \<Rightarrow> nat \<Rightarrow> 'w \<Rightarrow> ((SocketError + bytes \<times> SocketAddress) \<times> 'w) option" where
  "receiveDatagram k handle bufferSize w =
     (case k_recvmsg k handle bufferSize w of
        (Inr (data, sender, truncated), w) \<Rightarrow>
          if truncated then Some (Inl MessageTooLarge, w)
          else (case fromSockaddr sender of None \<Rightarrow> None | Some a \<Rightarrow> Some (Inr (data, a), w))
      | (Inl code, w) \<Rightarrow>
          if isInterrupted (k_errors k) code then receiveDatagram k handle bufferSize w else Some (Inl (callFailed k code), w))"


section \<open>Options and the local address\<close>

definition setIntOption :: "('e, 'w) Kernel \<Rightarrow> NativeHandle \<Rightarrow> string \<Rightarrow> int \<Rightarrow> 'w \<Rightarrow> SocketError option \<times> 'w" where
  "setIntOption k handle option_name v w =
     (let (err, w) = k_setsockopt k handle option_name v w in (map_option (lastError k) err, w))"

definition intOption :: "('e, 'w) Kernel \<Rightarrow> NativeHandle \<Rightarrow> string \<Rightarrow> 'w \<Rightarrow> int \<times> 'w" where
  "intOption k handle option_name w = (case k_getsockopt k handle option_name w of (Inl code, w) \<Rightarrow> (0, w) | (Inr v, w) \<Rightarrow> (v, w))"

text \<open>\<open>reusePort\<close> is whether the platform defines \<open>SO_REUSEPORT\<close>.\<close>

definition applyBindOptions ::
  "('e, 'w) Kernel \<Rightarrow> bool \<Rightarrow> NativeHandle \<Rightarrow> BindOptions \<Rightarrow> 'w \<Rightarrow> SocketError option \<times> 'w" where
  "applyBindOptions k reusePort handle options w =
     (let (err, w) = (if reuseAddress options then setIntOption k handle ''SO_REUSEADDR'' 1 w else (None, w))
      in if err \<noteq> None then (err, w)
         else let (err, w) = (if reuseAddress options \<and> reusePort then setIntOption k handle ''SO_REUSEPORT'' 1 w else (None, w))
         in if err \<noteq> None then (err, w)
            else let (err, w) = (if enableBroadcast options then setIntOption k handle ''SO_BROADCAST'' 1 w else (None, w))
            in if err \<noteq> None then (err, w)
               else let w = (if receiveBufferSize options > 0 then snd (setIntOption k handle ''SO_RCVBUF'' (receiveBufferSize options) w) else w);
                        w = (if sendBufferSize options > 0 then snd (setIntOption k handle ''SO_SNDBUF'' (sendBufferSize options) w) else w);
                        w = (if receiveBufferSize options > 0 \<or> sendBufferSize options > 0
                             then snd (intOption k handle ''SO_SNDBUF'' (snd (intOption k handle ''SO_RCVBUF'' w))) else w)
                    in (None, w))"

definition bindTo :: "('e, 'w) Kernel \<Rightarrow> NativeHandle \<Rightarrow> SocketAddress \<Rightarrow> 'w \<Rightarrow> SocketError option \<times> 'w" where
  "bindTo k handle a w = (let (err, w) = k_bind k handle (toSockaddr a) w in (map_option (lastError k) err, w))"

definition localAddressOf :: "('e, 'w) Kernel \<Rightarrow> NativeHandle \<Rightarrow> 'w \<Rightarrow> ((SocketError + SocketAddress) \<times> 'w) option" where
  "localAddressOf k handle w =
     (case k_getsockname k handle w of
        (Inl code, w) \<Rightarrow> Some (Inl (lastError k code), w)
      | (Inr addr, w) \<Rightarrow> do { a \<leftarrow> fromSockaddr addr; Some (Inr a, w) })"

definition closeHandle :: "('e, 'w) Kernel \<Rightarrow> NativeHandle \<Rightarrow> 'w \<Rightarrow> 'w" where
  "closeHandle k handle w = (if handle \<noteq> InvalidNativeHandle then k_close k handle w else w)"

definition shutdownHandle :: "('e, 'w) Kernel \<Rightarrow> NativeHandle \<Rightarrow> 'w \<Rightarrow> 'w" where
  "shutdownHandle k handle w = (if handle \<noteq> InvalidNativeHandle then k_shutdown k handle w else w)"

text \<open>The \<open>sendParts\<close> of \<open>IDatagramSocket\<close>, which joins the parts, on the \<open>sendTo\<close> of \<open>UdpSocket\<close>, and the one of \<open>UdpSocket\<close>.\<close>

definition sendTo :: "('e, 'w) Kernel \<Rightarrow> NativeHandle \<Rightarrow> SocketAddress \<Rightarrow> bytes \<Rightarrow> 'w \<Rightarrow> ((SocketError + nat) \<times> 'w) option" where
  "sendTo k handle destination data w = sendDatagram k handle destination data w"

definition sendParts ::
  "('e, 'w) Kernel \<Rightarrow> NativeHandle \<Rightarrow> SocketAddress \<Rightarrow> bytes \<Rightarrow> bytes \<Rightarrow> 'w \<Rightarrow> ((SocketError + nat) \<times> 'w) option" where
  "sendParts k handle destination head body w = sendDatagramParts k handle destination head body w"

definition joinedSendParts ::
  "('e, 'w) Kernel \<Rightarrow> NativeHandle \<Rightarrow> SocketAddress \<Rightarrow> bytes \<Rightarrow> bytes \<Rightarrow> 'w \<Rightarrow> ((SocketError + nat) \<times> 'w) option" where
  "joinedSendParts k handle destination head body w =
     (let datagram = [] @ head; datagram = datagram @ body in sendTo k handle destination datagram w)"


section \<open>Lemmas\<close>

lemma sockaddr_roundtrip: "fromSockaddr (toSockaddr a) = Some a"
  using readUint32_be32 [of "[]" "sa_ip a" "[]"] readUint16_be16 [of "[]" "sa_port a" "[]"]
  by (simp add: fromSockaddr_def toSockaddr_def)

text \<open>Every error has a text of its own.\<close>

lemma socketErrorText_inj: "inj socketErrorText"
  by (rule injI, case_tac x; case_tac y; simp add: socketErrorText_def)

text \<open>An error of the system is never taken for an interrupt of this library, and an interrupted call never for one that would block.\<close>

lemma posix_mapNativeError_range: "posix_mapNativeError code \<noteq> Cancelled"
  by (simp add: posix_mapNativeError_def split: Errno.split)

lemma posix_mapNativeError_Timeout: "posix_mapNativeError code = Timeout \<longleftrightarrow> code = ETIMEDOUT"
  by (simp add: posix_mapNativeError_def split: Errno.split)

lemma windows_mapNativeError_range: "windows_mapNativeError code \<noteq> Cancelled"
  by (simp add: windows_mapNativeError_def split: WsaError.split)

lemma posix_interrupted_apart: "posix_isInterrupted code \<Longrightarrow> \<not> posix_isWouldBlock code"
  by (auto simp: posix_isInterrupted_def posix_isWouldBlock_def)

lemma windows_interrupted_apart: "windows_isInterrupted code \<Longrightarrow> \<not> windows_isWouldBlock code"
  by (auto simp: windows_isInterrupted_def windows_isWouldBlock_def)

text \<open>What \<open>sendmsg\<close> and \<open>WSASendTo\<close> do with the parts of a message: one datagram of all of them.\<close>

definition gathers :: "('e, 'w) Kernel \<Rightarrow> bool" where
  "gathers k \<longleftrightarrow> (\<forall>handle to parts w. k_sendmsg k handle to parts w = k_sendto k handle to (concat parts) w)"

lemma gathers_parts:
  "gathers k \<Longrightarrow> k_sendmsg k handle to (if body = [] then [head] else [head, body]) w = k_sendto k handle to (head @ body) w"
  by (simp add: gathers_def)

lemma parts_joined:
  "gathers k \<Longrightarrow> sendDatagramParts k handle to head body w = Some r \<Longrightarrow> sendDatagram k handle to (head @ body) w = Some r"
proof -
  let ?P = "\<lambda>k handle to head body w r. gathers k \<longrightarrow> sendDatagram k handle to (head @ body) w = Some r"
  assume "gathers k" and r: "sendDatagramParts k handle to head body w = Some r"
  moreover have "?P k handle to head body w r"
    by (rule sendDatagramParts.raw_induct [of ?P, OF _ r], intro impI, subst sendDatagram.simps)
       (auto simp: gathers_parts split: sum.splits prod.splits if_splits)
  ultimately show ?thesis
    by blast
qed

lemma joined_parts:
  "gathers k \<Longrightarrow> sendDatagram k handle to (head @ body) w = Some r \<Longrightarrow> sendDatagramParts k handle to head body w = Some r"
proof -
  let ?P = "\<lambda>k handle to data w r. gathers k \<and> data = head @ body \<longrightarrow> sendDatagramParts k handle to head body w = Some r"
  assume "gathers k" and r: "sendDatagram k handle to (head @ body) w = Some r"
  moreover have "?P k handle to (head @ body) w r"
    by (rule sendDatagram.raw_induct [of ?P, OF _ r], intro impI, subst sendDatagramParts.simps)
       (auto simp: gathers_parts split: sum.splits prod.splits if_splits)
  ultimately show ?thesis
    by blast
qed

text \<open>
  The signals that interrupt a call come to an end: \<open>signals\<close> counts those that are still to come. Then every
  loop over an interrupted call ends.
\<close>

definition interrupted_by :: "('w \<Rightarrow> nat) \<Rightarrow> ('e, 'w) Kernel \<Rightarrow> 'w \<Rightarrow> ('e + 'a) \<times> 'w \<Rightarrow> bool" where
  "interrupted_by signals k w r = (case r of (Inl code, w') \<Rightarrow> isInterrupted (k_errors k) code \<longrightarrow> signals w' < signals w | _ \<Rightarrow> True)"

definition signals_end :: "('w \<Rightarrow> nat) \<Rightarrow> ('e, 'w) Kernel \<Rightarrow> bool" where
  "signals_end signals k \<longleftrightarrow>
     (\<forall>handle to data w. interrupted_by signals k w (k_sendto k handle to data w)) \<and>
     (\<forall>handle to parts w. interrupted_by signals k w (k_sendmsg k handle to parts w)) \<and>
     (\<forall>handle n w. interrupted_by signals k w (k_recvmsg k handle n w) \<and>
        (case k_recvmsg k handle n w of (Inr (data, sender, truncated), w') \<Rightarrow> fromSockaddr sender \<noteq> None | _ \<Rightarrow> True))"

lemma sendDatagram_returns:
  assumes "signals_end signals k"
  shows "\<exists>r. sendDatagram k handle to data w = Some r"
proof (induction "signals w" arbitrary: w rule: less_induct)
  case less
  have "interrupted_by signals k w (k_sendto k handle (toSockaddr to) data w)"
    using assms by (simp add: signals_end_def)
  then show ?case
    using less by (subst sendDatagram.simps) (auto simp: interrupted_by_def simp del: split_paired_Ex split: prod.splits sum.splits)
qed

lemma receiveDatagram_returns:
  assumes "signals_end signals k"
  shows "\<exists>r. receiveDatagram k handle n w = Some r"
proof (induction "signals w" arbitrary: w rule: less_induct)
  case less
  have "interrupted_by signals k w (k_recvmsg k handle n w)"
    "case k_recvmsg k handle n w of (Inr (data, sender, truncated), w') \<Rightarrow> fromSockaddr sender \<noteq> None | _ \<Rightarrow> True"
    using assms by (simp_all add: signals_end_def)
  then show ?case
    using less
    by (subst receiveDatagram.simps) (auto simp: interrupted_by_def simp del: split_paired_Ex split: prod.splits sum.splits option.splits)
qed

text \<open>
  What the system returns is the beginning of a datagram that arrived, and it says so when there was more. Then
  a datagram that was cut off is never taken for a whole one.
\<close>

definition receives :: "('w \<Rightarrow> (bytes \<times> sockaddr_in) set) \<Rightarrow> ('e, 'w) Kernel \<Rightarrow> bool" where
  "receives arrived k \<longleftrightarrow>
     (\<forall>handle n w data sender truncated w'. k_recvmsg k handle n w = (Inr (data, sender, truncated), w') \<longrightarrow>
        (\<exists>datagram. (datagram, sender) \<in> arrived w' \<and> data = take n datagram \<and> (truncated \<longleftrightarrow> n < length datagram)))"

lemma receive_whole:
  fixes k :: "('e, 'w) Kernel"
  assumes "receives arrived k" and r: "receiveDatagram k handle n w = Some (Inr (data, a), w')"
  shows "\<exists>sender. (data, sender) \<in> arrived w' \<and> fromSockaddr sender = Some a"
proof -
  let ?P = "\<lambda>k :: ('e, 'w) Kernel. \<lambda>handle n w (result, w'). receives arrived k \<longrightarrow>
    (\<forall>data a. (result :: SocketError + bytes \<times> SocketAddress) = Inr (data, a) \<longrightarrow> (\<exists>sender. (data, sender) \<in> arrived w' \<and> fromSockaddr sender = Some a))"
  have "?P k handle n w (Inr (data, a), w')"
  proof (rule receiveDatagram.raw_induct [of ?P, OF _ r])
    fix f and k :: "('e, 'w) Kernel" and handle n w and y :: "(SocketError + bytes \<times> SocketAddress) \<times> 'w"
    assume "\<And>k handle n w y. f k handle n w = Some y \<Longrightarrow> ?P k handle n w y"
      and "(case k_recvmsg k handle n w of
          (Inl code, w) \<Rightarrow> if isInterrupted (k_errors k) code then f k handle n w else Some (Inl (callFailed k code), w)
        | (Inr (data, sender, truncated), w) \<Rightarrow>
            if truncated then Some (Inl MessageTooLarge, w)
            else case fromSockaddr sender of None \<Rightarrow> None | Some a \<Rightarrow> Some (Inr (data, a), w)) = Some y"
    then show "?P k handle n w y"
      by (fastforce simp: receives_def split: prod.splits sum.splits if_splits option.splits)
  qed
  then show ?thesis
    using assms(1) by simp
qed


section \<open>Properties\<close>

text \<open>Sending a head and a body without joining them is the same as the \<open>sendParts\<close> of the interface, which joins them
  first: the same datagram, the same result and the same errors, however often a call is interrupted.
\<close>

theorem sendParts_joins:
  assumes "gathers k"
  shows "sendParts k handle destination head body w = joinedSendParts k handle destination head body w"
proof (cases "joinedSendParts k handle destination head body w")
  case None
  then show ?thesis
    using parts_joined [OF assms, of handle destination head body w] unfolding sendParts_def joinedSendParts_def sendTo_def
    by (cases "sendDatagramParts k handle destination head body w") auto
next
  case (Some r)
  then show ?thesis
    using joined_parts [OF assms, of handle destination head body w] by (simp add: sendParts_def joinedSendParts_def sendTo_def)
qed


section \<open>An example\<close>

text \<open>A system where a signal interrupts the first call.\<close>

definition demo_kernel :: "'e NativeErrors \<Rightarrow> 'e \<Rightarrow> 'e \<Rightarrow> ('e, nat) Kernel" where
  "demo_kernel errors interrupted wouldBlock =
     \<lparr>k_errors = errors, k_socket = (\<lambda>w. (Inr 3, w)), k_close = (\<lambda>handle w. w), k_shutdown = (\<lambda>handle w. w),
      k_setsockopt = (\<lambda>handle name v w. (None, w)), k_getsockopt = (\<lambda>handle name w. (Inr 0, w)), k_bind = (\<lambda>handle a w. (None, w)),
      k_getsockname = (\<lambda>handle w. (Inr \<lparr>sin_port = [0, 1], sin_addr = [0, 0, 0, 0]\<rparr>, w)),
      k_sendto = (\<lambda>handle to data w. if w = 0 then (Inl interrupted, 1) else (Inr (length data), w)),
      k_sendmsg = (\<lambda>handle to parts w. if w = 0 then (Inl interrupted, 1) else (Inr (length (concat parts)), w)),
      k_recvmsg = (\<lambda>handle n w. (Inl wouldBlock, w)), k_now = (\<lambda>w. (int w, w))\<rparr>"

theorem sendParts_joins_witness:
  "sendParts (demo_kernel posixErrors EINTR EAGAIN) 3 \<lparr>sa_ip = 1, sa_port = 2\<rparr> [1, 2] [3] 0 = Some (Inr 3, 1)"
proof -
  let ?k = "demo_kernel posixErrors EINTR EAGAIN"
  have "gathers ?k"
    by (simp add: gathers_def demo_kernel_def)
  moreover have "sendDatagram ?k 3 to [1, 2, 3] 1 = Some (Inr 3, 1)" for to
    by (subst sendDatagram.simps) (simp add: demo_kernel_def)
  then have "sendDatagram ?k 3 to [1, 2, 3] 0 = Some (Inr 3, 1)" for to
    by (subst sendDatagram.simps) (simp add: demo_kernel_def posixErrors_def posix_isInterrupted_def)
  ultimately show ?thesis
    using sendParts_joins [of ?k 3 "\<lparr>sa_ip = 1, sa_port = 2\<rparr>" "[1, 2]" "[3]" 0] by (simp add: joinedSendParts_def sendTo_def)
qed

end
