(* ===== verification/ReadWaiters.thy ===== *)
theory ReadWaiters
  imports Sockets
begin

text \<open>
  The three implementations of \<open>ReadWaiter\<close>: eventfd and \<open>ppoll\<close> on Linux, kqueue on macOS
  (\<open>SocketPlatformPosix.cpp\<close>), events and a waitable timer on Windows (\<open>SocketPlatformWindows.cpp\<close>,
  \<open>WaitableTimerWindows.h\<close>). The locale \<open>read_waiter\<close> is what the socket handle relies on: a wait returns, it does
  not time out before its deadline, and an interrupt is never lost and ends one wait. Each platform is an
  interpretation of it, under what its system calls are documented to do.
\<close>

section \<open>The interface\<close>

text \<open>\<open>None\<close> in the result of a wait is that there is something to read.\<close>

record ('r, 'w) ReadWaiter =
  rw_wait :: "TimePoint \<Rightarrow> 'r \<Rightarrow> 'w \<Rightarrow> (SocketError option \<times> 'r \<times> 'w) option"
  rw_onReceiveAttempt :: "'r \<Rightarrow> 'r"
  rw_interrupt :: "'r \<Rightarrow> 'r"

text \<open>
  \<open>pending\<close>: an interrupt that no wait has reported yet. \<open>unread\<close>: the socket was reported as readable, and nobody
  tried to read since. \<open>clock\<close> is the steady clock of the world; \<open>lawful\<close> is that the system calls do what they
  are documented to do.
\<close>

locale read_waiter =
  fixes rw :: "('r, 'w) ReadWaiter" and pending unread :: "'r \<Rightarrow> bool" and clock :: "'w \<Rightarrow> int" and lawful :: bool
  assumes returns: "lawful \<Longrightarrow> \<exists>x. rw_wait rw deadline r w = Some x"
    and interrupted: "pending (rw_interrupt rw r)" "unread (rw_interrupt rw r) = unread r"
    and attempted: "pending (rw_onReceiveAttempt rw r) = pending r" "\<not> unread (rw_onReceiveAttempt rw r)"
    and ends: "lawful \<Longrightarrow> rw_wait rw deadline r w = Some (result, r', w') \<Longrightarrow> pending r \<Longrightarrow> \<not> unread r \<Longrightarrow>
      result \<noteq> None \<and> result \<noteq> Some Timeout"
    and consumed: "lawful \<Longrightarrow> rw_wait rw deadline r w = Some (Some Cancelled, r', w') \<Longrightarrow> \<not> pending r'"
    and kept: "lawful \<Longrightarrow> rw_wait rw deadline r w = Some (result, r', w') \<Longrightarrow> result \<noteq> Some Cancelled \<Longrightarrow> pending r \<Longrightarrow> pending r'"
    and in_time: "lawful \<Longrightarrow> rw_wait rw deadline r w = Some (Some Timeout, r', w') \<Longrightarrow> deadline \<le> clock w'"


section \<open>Linux\<close>

text \<open>
  The calls of the POSIX systems. \<open>px_ppoll\<close> is given the socket, the eventfd, the time that is left and the count of the
  eventfd, and returns what it found with the count at that time, which other threads may have raised: whether
  the socket, and whether the eventfd is ready. \<open>px_kevent\<close> likewise has whether the user event is triggered, and
  returns the filters of the events it reports.
\<close>

datatype Poll = PollFailed Errno | PollTimeout | PollReady bool bool

datatype Filter = EVFILT_READ | EVFILT_USER

record 'w Posix =
  px_kernel :: "(Errno, 'w) Kernel"
  px_O_NONBLOCK :: u32
  px_getfl :: "NativeHandle \<Rightarrow> 'w \<Rightarrow> (Errno + u32) \<times> 'w"
  px_setfl :: "NativeHandle \<Rightarrow> u32 \<Rightarrow> 'w \<Rightarrow> Errno option \<times> 'w"
  px_setfd :: "NativeHandle \<Rightarrow> 'w \<Rightarrow> 'w"
  px_eventfd :: "'w \<Rightarrow> (Errno + NativeHandle) \<times> 'w"
  px_ppoll :: "NativeHandle \<Rightarrow> NativeHandle \<Rightarrow> int \<times> int \<Rightarrow> nat \<Rightarrow> 'w \<Rightarrow> Poll \<times> nat \<times> 'w"
  px_kqueue :: "'w \<Rightarrow> (Errno + NativeHandle) \<times> 'w"
  px_register :: "NativeHandle \<Rightarrow> NativeHandle \<Rightarrow> 'w \<Rightarrow> Errno option \<times> 'w"
  px_kevent :: "NativeHandle \<Rightarrow> int \<times> int \<Rightarrow> bool \<Rightarrow> 'w \<Rightarrow> (Errno + Filter list) \<times> bool \<times> 'w"

text \<open>The seconds and nanoseconds that are left.\<close>

definition remainingUntil :: "TimePoint \<Rightarrow> TimePoint \<Rightarrow> int \<times> int" where
  "remainingUntil deadline now = (let remaining = max (deadline - now) 0 in (remaining div 1000000000, remaining mod 1000000000))"

text \<open>\<open>ReadWaiterLinux\<close> with the count of its eventfd.\<close>

record LinuxWaiter =
  lw_socket :: NativeHandle
  lw_interrupt :: NativeHandle
  lw_count :: nat

partial_function (option) linux_wait :: "'w Posix \<Rightarrow> TimePoint \<Rightarrow> LinuxWaiter \<Rightarrow> 'w \<Rightarrow> (SocketError option \<times> LinuxWaiter \<times> 'w) option" where
  "linux_wait px deadline r w =
     (let (now, w) = k_now (px_kernel px) w;
          (found, count, w) = px_ppoll px (lw_socket r) (lw_interrupt r) (remainingUntil deadline now) (lw_count r) w;
          r = r\<lparr>lw_count := count\<rparr>
      in case found of
           PollTimeout \<Rightarrow> Some (Some Timeout, r, w)
         | PollFailed code \<Rightarrow> if code = EINTR then linux_wait px deadline r w else Some (Some (posix_mapNativeError code), r, w)
         | PollReady readable cancelled \<Rightarrow>
             if cancelled then Some (Some Cancelled, r\<lparr>lw_count := 0\<rparr>, w) else Some (None, r, w))"

text \<open>The eventfd does not block: a write that would overflow the count fails.\<close>

definition linux_interrupt :: "LinuxWaiter \<Rightarrow> LinuxWaiter" where
  "linux_interrupt r = (if lw_count r + 1 < 2 ^ 64 - 1 then r\<lparr>lw_count := lw_count r + 1\<rparr> else r)"

definition linux_readWaiter :: "'w Posix \<Rightarrow> (LinuxWaiter, 'w) ReadWaiter" where
  "linux_readWaiter px = \<lparr>rw_wait = linux_wait px, rw_onReceiveAttempt = (\<lambda>r. r), rw_interrupt = linux_interrupt\<rparr>"

text \<open>
  \<open>ppoll\<close> as documented: the eventfd is ready when its count is not 0, and only other threads change the count, by
  raising it; a poll that times out found the count 0, after the time it was given; a signal interrupts it,
  and the signals come to an end.
\<close>

definition polls :: "('w \<Rightarrow> int) \<Rightarrow> ('w \<Rightarrow> nat) \<Rightarrow> 'w Posix \<Rightarrow> bool" where
  "polls clock signals px \<longleftrightarrow>
     (\<forall>w now w'. k_now (px_kernel px) w = (now, w') \<longrightarrow> now \<le> clock w' \<and> signals w' \<le> signals w) \<and>
     (\<forall>socket event left count w found count' w'. px_ppoll px socket event left count w = (found, count', w') \<longrightarrow>
        count \<le> count' \<and>
        (case found of
           PollFailed code \<Rightarrow> code \<noteq> ETIMEDOUT \<and> (code = EINTR \<longrightarrow> signals w' < signals w)
         | PollTimeout \<Rightarrow> count' = 0 \<and> clock w + (fst left * 1000000000 + snd left) \<le> clock w'
         | PollReady readable cancelled \<Rightarrow> (cancelled \<longleftrightarrow> 0 < count')))"

lemma remainingUntil_left:
  "fst (remainingUntil deadline now) * 1000000000 + snd (remainingUntil deadline now) = max (deadline - now) 0"
  by (simp add: remainingUntil_def Let_def)

lemma pollsD:
  assumes "polls clock signals px" and "k_now (px_kernel px) w = (now, w1)"
    and "px_ppoll px s e (remainingUntil deadline now) count w1 = (found, count', w')"
  shows "count \<le> count'" and "found = PollFailed code \<Longrightarrow> code \<noteq> ETIMEDOUT" and "found = PollFailed EINTR \<Longrightarrow> signals w' < signals w"
    and "found = PollTimeout \<Longrightarrow> count' = 0 \<and> deadline \<le> clock w'" and "found = PollReady readable cancelled \<Longrightarrow> cancelled \<longleftrightarrow> 0 < count'"
proof -
  have now: "now \<le> clock w1" "signals w1 \<le> signals w"
    using assms(1,2) by (auto simp: polls_def)
  have poll: "count \<le> count' \<and>
        (case found of
           PollFailed code \<Rightarrow> code \<noteq> ETIMEDOUT \<and> (code = EINTR \<longrightarrow> signals w' < signals w1)
         | PollTimeout \<Rightarrow> count' = 0 \<and> clock w1 + max (deadline - now) 0 \<le> clock w'
         | PollReady readable cancelled \<Rightarrow> (cancelled \<longleftrightarrow> 0 < count'))"
    using assms(1) [unfolded polls_def, THEN conjunct2, rule_format, OF assms(3)] by (simp only: remainingUntil_left)
  then show "count \<le> count'" "found = PollFailed code \<Longrightarrow> code \<noteq> ETIMEDOUT" "found = PollReady readable cancelled \<Longrightarrow> cancelled \<longleftrightarrow> 0 < count'"
    by auto
  show "found = PollFailed EINTR \<Longrightarrow> signals w' < signals w" "found = PollTimeout \<Longrightarrow> count' = 0 \<and> deadline \<le> clock w'"
    using poll now by auto
qed

text \<open>The result of a wait, and what is left of the interrupts.\<close>

definition wait_outcome :: "bool \<Rightarrow> bool \<Rightarrow> bool \<Rightarrow> SocketError option \<Rightarrow> bool" where
  "wait_outcome before after passed result \<longleftrightarrow>
     (before \<longrightarrow> result \<noteq> None \<and> result \<noteq> Some Timeout) \<and>
     (result = Some Cancelled \<longrightarrow> \<not> after) \<and>
     (result \<noteq> Some Cancelled \<longrightarrow> before \<longrightarrow> after) \<and>
     (result = Some Timeout \<longrightarrow> passed)"

lemma linux_wait_outcome:
  assumes "polls clock signals px"
  shows "\<exists>result r' w'. linux_wait px deadline r w = Some (result, r', w') \<and>
    wait_outcome (0 < lw_count r) (0 < lw_count r') (deadline \<le> clock w') result"
proof (induction "signals w" arbitrary: r w rule: less_induct)
  case less
  obtain now w1 found count w2 where w1: "k_now (px_kernel px) w = (now, w1)"
    and poll: "px_ppoll px (lw_socket r) (lw_interrupt r) (remainingUntil deadline now) (lw_count r) w1 = (found, count, w2)"
    by (metis prod_cases3 surj_pair)
  note laws = pollsD [OF assms w1 poll]
  let ?r = "r\<lparr>lw_count := count\<rparr>"
  have step: "linux_wait px deadline r w =
      (case found of
         PollTimeout \<Rightarrow> Some (Some Timeout, ?r, w2)
       | PollFailed code \<Rightarrow> if code = EINTR then linux_wait px deadline ?r w2 else Some (Some (posix_mapNativeError code), ?r, w2)
       | PollReady readable cancelled \<Rightarrow> if cancelled then Some (Some Cancelled, ?r\<lparr>lw_count := 0\<rparr>, w2) else Some (None, ?r, w2))"
    by (subst linux_wait.simps) (simp add: w1 poll Let_def)
  show ?case
  proof (cases "found = PollFailed EINTR")
    case True
    then obtain result r' w' where "linux_wait px deadline ?r w2 = Some (result, r', w')"
        "wait_outcome (0 < count) (0 < lw_count r') (deadline \<le> clock w') result"
      using less [OF laws(3), of ?r] by auto
    then show ?thesis
      using True laws(1) by (auto simp: step wait_outcome_def)
  next
    case False
    then show ?thesis
      using laws(1,2,4,5) posix_mapNativeError_range posix_mapNativeError_Timeout
      by (cases found) (auto simp: step wait_outcome_def)
  qed
qed

interpretation linux: read_waiter "linux_readWaiter px" "\<lambda>r. 0 < lw_count r" "\<lambda>r. False" clock "polls clock signals px"
  for px clock signals
proof
  fix deadline r w result r' w'
  show "polls clock signals px \<Longrightarrow> \<exists>x. rw_wait (linux_readWaiter px) deadline r w = Some x"
    using linux_wait_outcome [of clock signals px deadline r w] by (auto simp: linux_readWaiter_def)
  assume "polls clock signals px"
  note out = linux_wait_outcome [OF this, of deadline r w]
  show "rw_wait (linux_readWaiter px) deadline r w = Some (result, r', w') \<Longrightarrow> 0 < lw_count r \<Longrightarrow> result \<noteq> None \<and> result \<noteq> Some Timeout"
    "rw_wait (linux_readWaiter px) deadline r w = Some (Some Cancelled, r', w') \<Longrightarrow> \<not> 0 < lw_count r'"
    "rw_wait (linux_readWaiter px) deadline r w = Some (result, r', w') \<Longrightarrow> result \<noteq> Some Cancelled \<Longrightarrow> 0 < lw_count r \<Longrightarrow> 0 < lw_count r'"
    "rw_wait (linux_readWaiter px) deadline r w = Some (Some Timeout, r', w') \<Longrightarrow> deadline \<le> clock w'"
    using out by (auto simp: linux_readWaiter_def wait_outcome_def)
qed (auto simp: linux_readWaiter_def linux_interrupt_def)


section \<open>macOS\<close>

text \<open>\<open>ReadWaiterKqueue\<close> with whether its user event is triggered.\<close>

record KqueueWaiter =
  kw_queue :: NativeHandle
  kw_triggered :: bool

partial_function (option) kqueue_wait :: "'w Posix \<Rightarrow> TimePoint \<Rightarrow> KqueueWaiter \<Rightarrow> 'w \<Rightarrow> (SocketError option \<times> KqueueWaiter \<times> 'w) option" where
  "kqueue_wait px deadline r w =
     (let (now, w) = k_now (px_kernel px) w;
          (found, triggered, w) = px_kevent px (kw_queue r) (remainingUntil deadline now) (kw_triggered r) w;
          r = r\<lparr>kw_triggered := triggered\<rparr>
      in case found of
           Inl code \<Rightarrow> if code = EINTR then kqueue_wait px deadline r w else Some (Some (posix_mapNativeError code), r, w)
         | Inr events \<Rightarrow>
             if events = [] then Some (Some Timeout, r, w)
             else if \<exists>event \<in> set events. event = EVFILT_USER then Some (Some Cancelled, r, w)
             else Some (None, r, w))"

definition kqueue_interrupt :: "KqueueWaiter \<Rightarrow> KqueueWaiter" where
  "kqueue_interrupt r = r\<lparr>kw_triggered := True\<rparr>"

definition kqueue_readWaiter :: "'w Posix \<Rightarrow> (KqueueWaiter, 'w) ReadWaiter" where
  "kqueue_readWaiter px = \<lparr>rw_wait = kqueue_wait px, rw_onReceiveAttempt = (\<lambda>r. r), rw_interrupt = kqueue_interrupt\<rparr>"

text \<open>
  \<open>kevent\<close> as documented: it reports every filter that is ready, as there is room for both; \<open>EV_CLEAR\<close> resets the
  user event once it is reported; no event is reported when the time it was given has passed.
\<close>

definition kevents :: "('w \<Rightarrow> int) \<Rightarrow> ('w \<Rightarrow> nat) \<Rightarrow> 'w Posix \<Rightarrow> bool" where
  "kevents clock signals px \<longleftrightarrow>
     (\<forall>w now w'. k_now (px_kernel px) w = (now, w') \<longrightarrow> now \<le> clock w' \<and> signals w' \<le> signals w) \<and>
     (\<forall>queue left triggered w found triggered' w'. px_kevent px queue left triggered w = (found, triggered', w') \<longrightarrow>
        (case found of
           Inl code \<Rightarrow> code \<noteq> ETIMEDOUT \<and> (code = EINTR \<longrightarrow> signals w' < signals w) \<and> (triggered \<longrightarrow> triggered')
         | Inr events \<Rightarrow> \<not> triggered' \<and> (triggered \<longrightarrow> EVFILT_USER \<in> set events) \<and>
             (events = [] \<longrightarrow> clock w + (fst left * 1000000000 + snd left) \<le> clock w')))"

lemma keventsD:
  assumes "kevents clock signals px" and "k_now (px_kernel px) w = (now, w1)"
    and "px_kevent px q (remainingUntil deadline now) triggered w1 = (found, triggered', w')"
  shows "found = Inl code \<Longrightarrow> code \<noteq> ETIMEDOUT \<and> (triggered \<longrightarrow> triggered')" and "found = Inl EINTR \<Longrightarrow> signals w' < signals w"
    and "found = Inr events \<Longrightarrow> \<not> triggered' \<and> (triggered \<longrightarrow> EVFILT_USER \<in> set events)" and "found = Inr [] \<Longrightarrow> deadline \<le> clock w'"
proof -
  have now: "now \<le> clock w1" "signals w1 \<le> signals w"
    using assms(1,2) by (auto simp: kevents_def)
  have event: "case found of
           Inl code \<Rightarrow> code \<noteq> ETIMEDOUT \<and> (code = EINTR \<longrightarrow> signals w' < signals w1) \<and> (triggered \<longrightarrow> triggered')
         | Inr events \<Rightarrow> \<not> triggered' \<and> (triggered \<longrightarrow> EVFILT_USER \<in> set events) \<and>
             (events = [] \<longrightarrow> clock w1 + max (deadline - now) 0 \<le> clock w')"
    using assms(1) [unfolded kevents_def, THEN conjunct2, rule_format, OF assms(3)] by (simp only: remainingUntil_left)
  then show "found = Inl code \<Longrightarrow> code \<noteq> ETIMEDOUT \<and> (triggered \<longrightarrow> triggered')"
    "found = Inr events \<Longrightarrow> \<not> triggered' \<and> (triggered \<longrightarrow> EVFILT_USER \<in> set events)"
    by auto
  show "found = Inl EINTR \<Longrightarrow> signals w' < signals w" "found = Inr [] \<Longrightarrow> deadline \<le> clock w'"
    using event now by auto
qed

lemma kqueue_wait_outcome:
  assumes "kevents clock signals px"
  shows "\<exists>result r' w'. kqueue_wait px deadline r w = Some (result, r', w') \<and>
    wait_outcome (kw_triggered r) (kw_triggered r') (deadline \<le> clock w') result"
proof (induction "signals w" arbitrary: r w rule: less_induct)
  case less
  obtain now w1 found triggered w2 where w1: "k_now (px_kernel px) w = (now, w1)"
    and event: "px_kevent px (kw_queue r) (remainingUntil deadline now) (kw_triggered r) w1 = (found, triggered, w2)"
    by (metis prod_cases3 surj_pair)
  note laws = keventsD [OF assms w1 event]
  let ?r = "r\<lparr>kw_triggered := triggered\<rparr>"
  have step: "kqueue_wait px deadline r w =
      (case found of
         Inl code \<Rightarrow> if code = EINTR then kqueue_wait px deadline ?r w2 else Some (Some (posix_mapNativeError code), ?r, w2)
       | Inr events \<Rightarrow> if events = [] then Some (Some Timeout, ?r, w2)
           else if \<exists>event \<in> set events. event = EVFILT_USER then Some (Some Cancelled, ?r, w2) else Some (None, ?r, w2))"
    by (subst kqueue_wait.simps) (simp add: w1 event Let_def)
  show ?case
  proof (cases "found = Inl EINTR")
    case True
    then obtain result r' w' where "kqueue_wait px deadline ?r w2 = Some (result, r', w')"
        "wait_outcome triggered (kw_triggered r') (deadline \<le> clock w') result"
      using less [OF laws(2), of ?r] by auto
    then show ?thesis
      using True laws(1) by (auto simp: step wait_outcome_def)
  next
    case False
    then show ?thesis
      using laws(1,3,4) posix_mapNativeError_range posix_mapNativeError_Timeout
      by (cases found) (auto simp: step wait_outcome_def)
  qed
qed

interpretation kqueue: read_waiter "kqueue_readWaiter px" kw_triggered "\<lambda>r. False" clock "kevents clock signals px"
  for px clock signals
proof
  fix deadline r w result r' w'
  show "kevents clock signals px \<Longrightarrow> \<exists>x. rw_wait (kqueue_readWaiter px) deadline r w = Some x"
    using kqueue_wait_outcome [of clock signals px deadline r w] by (auto simp: kqueue_readWaiter_def)
  assume "kevents clock signals px"
  note out = kqueue_wait_outcome [OF this, of deadline r w]
  show "rw_wait (kqueue_readWaiter px) deadline r w = Some (result, r', w') \<Longrightarrow> kw_triggered r \<Longrightarrow> result \<noteq> None \<and> result \<noteq> Some Timeout"
    "rw_wait (kqueue_readWaiter px) deadline r w = Some (Some Cancelled, r', w') \<Longrightarrow> \<not> kw_triggered r'"
    "rw_wait (kqueue_readWaiter px) deadline r w = Some (result, r', w') \<Longrightarrow> result \<noteq> Some Cancelled \<Longrightarrow> kw_triggered r \<Longrightarrow> kw_triggered r'"
    "rw_wait (kqueue_readWaiter px) deadline r w = Some (Some Timeout, r', w') \<Longrightarrow> deadline \<le> clock w'"
    using out by (auto simp: kqueue_readWaiter_def wait_outcome_def)
qed (auto simp: kqueue_readWaiter_def kqueue_interrupt_def)


section \<open>Windows\<close>

text \<open>
  The calls of Windows. \<open>wn_wait\<close> is \<open>WaitForMultipleObjects\<close> on the interrupt event, the event of the socket and, when
  the deadline has not passed, the timer: with two handles it does not block, with three it has no timeout.
  It is given whether the interrupt event is signalled, and returns what ended it with whether that event is
  signalled now; \<open>wn_setTimer\<close> sets the timer in units of 100 ns from now.
\<close>

datatype WaitResult = WaitInterrupt | WaitReadable | WaitTimer | WaitTimeout | WaitFailed

record 'w Windows =
  wn_kernel :: "(WsaError, 'w) Kernel"
  wn_startup :: "'w \<Rightarrow> int \<times> 'w"
  wn_ioctl :: "NativeHandle \<Rightarrow> 'w \<Rightarrow> WsaError option \<times> 'w"
  wn_connReset :: "NativeHandle \<Rightarrow> 'w \<Rightarrow> 'w"
  wn_createEvent :: "'w \<Rightarrow> NativeHandle option \<times> 'w"
  wn_eventSelect :: "NativeHandle \<Rightarrow> NativeHandle option \<Rightarrow> 'w \<Rightarrow> bool \<times> 'w"
  wn_closeHandle :: "NativeHandle \<Rightarrow> 'w \<Rightarrow> 'w"
  wn_createTimer :: "bool \<Rightarrow> 'w \<Rightarrow> NativeHandle option \<times> 'w"
  wn_beginPeriod :: "'w \<Rightarrow> bool \<times> 'w"
  wn_endPeriod :: "'w \<Rightarrow> 'w"
  wn_setTimer :: "NativeHandle option \<Rightarrow> int \<Rightarrow> 'w \<Rightarrow> 'w"
  wn_wait :: "bool \<Rightarrow> bool \<Rightarrow> 'w \<Rightarrow> WaitResult \<times> bool \<times> 'w"

record WaitableTimer =
  wt_handle :: "NativeHandle option"
  wt_raisedTickRate :: bool
  wt_armedFor :: "TimePoint option"

definition timer_create :: "'w Windows \<Rightarrow> 'w \<Rightarrow> WaitableTimer \<times> 'w" where
  "timer_create wn w =
     (let (handle, w) = wn_createTimer wn True w
      in case handle of
           Some h \<Rightarrow> (\<lparr>wt_handle = Some h, wt_raisedTickRate = False, wt_armedFor = None\<rparr>, w)
         | None \<Rightarrow>
             let (handle, w) = wn_createTimer wn False w; (raised, w) = wn_beginPeriod wn w
             in (\<lparr>wt_handle = handle, wt_raisedTickRate = raised, wt_armedFor = None\<rparr>, w))"

definition timer_destroy :: "'w Windows \<Rightarrow> WaitableTimer \<Rightarrow> 'w \<Rightarrow> 'w" where
  "timer_destroy wn t w =
     (let w = (case wt_handle t of Some h \<Rightarrow> wn_closeHandle wn h w | None \<Rightarrow> w)
      in if wt_raisedTickRate t then wn_endPeriod wn w else w)"

definition armFor :: "'w Windows \<Rightarrow> TimePoint \<Rightarrow> TimePoint \<Rightarrow> WaitableTimer \<Rightarrow> 'w \<Rightarrow> WaitableTimer \<times> 'w" where
  "armFor wn deadline now t w =
     (if (case wt_armedFor t of Some armed \<Rightarrow> armed \<le> deadline \<and> armed > now | None \<Rightarrow> False) then (t, w)
      else let w = wn_setTimer wn (wt_handle t) (max ((deadline - now) div 100) 1) w in (t\<lparr>wt_armedFor := Some deadline\<rparr>, w))"

definition onSignalled :: "WaitableTimer \<Rightarrow> WaitableTimer" where
  "onSignalled t = t\<lparr>wt_armedFor := None\<rparr>"

text \<open>\<open>ReadWaiterWindows\<close>, with whether its interrupt event is signalled.\<close>

record WindowsWaiter =
  ww_socket :: NativeHandle
  ww_readable :: "NativeHandle option"
  ww_interrupt :: "NativeHandle option"
  ww_timer :: WaitableTimer
  ww_readableUnread :: bool
  ww_signalled :: bool

partial_function (option) windows_waitLoop ::
  "'w Windows \<Rightarrow> TimePoint \<Rightarrow> WindowsWaiter \<Rightarrow> 'w \<Rightarrow> (SocketError option \<times> WindowsWaiter \<times> 'w) option" where
  "windows_waitLoop wn deadline r w =
     (let (now, w) = k_now (wn_kernel wn) w;
          expired = (now \<ge> deadline);
          (timer, w) = (if \<not> expired then armFor wn deadline now (ww_timer r) w else (ww_timer r, w));
          (found, signalled, w) = wn_wait wn expired (ww_signalled r) w;
          r = r\<lparr>ww_timer := timer, ww_signalled := signalled\<rparr>
      in case found of
           WaitInterrupt \<Rightarrow> Some (Some Cancelled, r, w)
         | WaitReadable \<Rightarrow> Some (None, r\<lparr>ww_readableUnread := True\<rparr>, w)
         | WaitTimer \<Rightarrow> windows_waitLoop wn deadline (r\<lparr>ww_timer := onSignalled timer\<rparr>) w
         | WaitTimeout \<Rightarrow> Some (Some Timeout, r, w)
         | WaitFailed \<Rightarrow> Some (Some Unknown, r, w))"

definition windows_wait :: "'w Windows \<Rightarrow> TimePoint \<Rightarrow> WindowsWaiter \<Rightarrow> 'w \<Rightarrow> (SocketError option \<times> WindowsWaiter \<times> 'w) option" where
  "windows_wait wn deadline r w = (if ww_readableUnread r then Some (None, r, w) else windows_waitLoop wn deadline r w)"

definition windows_onReceiveAttempt :: "WindowsWaiter \<Rightarrow> WindowsWaiter" where
  "windows_onReceiveAttempt r = r\<lparr>ww_readableUnread := False\<rparr>"

definition windows_interrupt :: "WindowsWaiter \<Rightarrow> WindowsWaiter" where
  "windows_interrupt r = r\<lparr>ww_signalled := True\<rparr>"

definition windows_readWaiter :: "'w Windows \<Rightarrow> (WindowsWaiter, 'w) ReadWaiter" where
  "windows_readWaiter wn =
     \<lparr>rw_wait = windows_wait wn, rw_onReceiveAttempt = windows_onReceiveAttempt, rw_interrupt = windows_interrupt\<rparr>"

text \<open>
  The calls as documented. The clock is steady. The first handle that is signalled ends a wait, and an event
  that ends one is reset; the interrupt event is the first. Two handles are not waited for; three are, without
  a timeout. The timer is signalled at its due time, \<open>due\<close>, which is as long after the call that sets it as was asked
  for, and not before.
\<close>

definition waits_for :: "('w \<Rightarrow> int) \<Rightarrow> ('w \<Rightarrow> int) \<Rightarrow> 'w Windows \<Rightarrow> bool" where
  "waits_for clock due wn \<longleftrightarrow>
     (\<forall>w now w'. k_now (wn_kernel wn) w = (now, w') \<longrightarrow> clock w \<le> now \<and> now \<le> clock w' \<and> due w' = due w) \<and>
     (\<forall>handle units w. clock w \<le> clock (wn_setTimer wn handle units w) \<and> clock w + 100 * units \<le> due (wn_setTimer wn handle units w)) \<and>
     (\<forall>expired signalled w found signalled' w'. wn_wait wn expired signalled w = (found, signalled', w') \<longrightarrow>
        clock w \<le> clock w' \<and> due w' = due w \<and>
        (case found of
           WaitInterrupt \<Rightarrow> \<not> signalled'
         | WaitReadable \<Rightarrow> \<not> signalled \<and> \<not> signalled'
         | WaitTimer \<Rightarrow> \<not> signalled \<and> \<not> signalled' \<and> \<not> expired \<and> due w \<le> clock w'
         | WaitTimeout \<Rightarrow> \<not> signalled \<and> \<not> signalled' \<and> expired
         | WaitFailed \<Rightarrow> signalled \<longrightarrow> signalled'))"

text \<open>What a wait of Windows promises, to be shown of one round after the other.\<close>

definition windows_waited :: "('w \<Rightarrow> int) \<Rightarrow> 'w Windows \<Rightarrow> TimePoint \<Rightarrow> WindowsWaiter \<Rightarrow> 'w \<Rightarrow> bool" where
  "windows_waited clock wn deadline r w \<longleftrightarrow>
     (\<exists>result r' w'. windows_waitLoop wn deadline r w = Some (result, r', w') \<and>
        wait_outcome (ww_signalled r) (ww_signalled r') (deadline \<le> clock w') result)"

text \<open>
  One round: either it ends the wait, or the deadline has not passed and the timer was signalled, for the
  deadline when it had to be set.
\<close>

lemma windows_round:
  assumes laws: "waits_for clock due wn"
    and again: "\<And>r' w'. \<not> ww_signalled r \<Longrightarrow> \<not> ww_signalled r' \<Longrightarrow> wt_armedFor (ww_timer r') = None \<Longrightarrow> clock w < deadline \<Longrightarrow>
      (wt_armedFor (ww_timer r) = None \<Longrightarrow> deadline - 99 \<le> clock w' \<and> (deadline - 99 \<le> clock w \<longrightarrow> deadline \<le> clock w')) \<Longrightarrow>
      windows_waited clock wn deadline r' w'"
  shows "windows_waited clock wn deadline r w"
proof -
  obtain now w1 where w1: "k_now (wn_kernel wn) w = (now, w1)"
    by fastforce
  obtain timer w2 where w2: "(if \<not> now \<ge> deadline then armFor wn deadline now (ww_timer r) w1 else (ww_timer r, w1)) = (timer, w2)"
    by fastforce
  obtain found signalled w3 where w3: "wn_wait wn (now \<ge> deadline) (ww_signalled r) w2 = (found, signalled, w3)"
    using prod_cases3 by blast
  have now: "clock w \<le> now" "now \<le> clock w1"
    using laws w1 unfolding waits_for_def by blast+
  have set: "clock w1 \<le> clock w2" "wt_armedFor (ww_timer r) = None \<Longrightarrow> now < deadline \<Longrightarrow> clock w1 + 100 * max ((deadline - now) div 100) 1 \<le> due w2"
    using laws w2 unfolding waits_for_def by (auto simp: armFor_def Let_def split: if_splits option.splits)
  have found: "clock w2 \<le> clock w3" "case found of
           WaitInterrupt \<Rightarrow> \<not> signalled
         | WaitReadable \<Rightarrow> \<not> ww_signalled r \<and> \<not> signalled
         | WaitTimer \<Rightarrow> \<not> ww_signalled r \<and> \<not> signalled \<and> \<not> now \<ge> deadline \<and> due w2 \<le> clock w3
         | WaitTimeout \<Rightarrow> \<not> ww_signalled r \<and> \<not> signalled \<and> now \<ge> deadline
         | WaitFailed \<Rightarrow> ww_signalled r \<longrightarrow> signalled"
    using laws w3 unfolding waits_for_def by blast+
  let ?r = "r\<lparr>ww_timer := timer, ww_signalled := signalled\<rparr>"
  show ?thesis
  proof (cases "found = WaitTimer")
    case True
    let ?r' = "?r\<lparr>ww_timer := onSignalled timer\<rparr>"
    have "windows_waited clock wn deadline ?r' w3"
    proof (rule again)
      assume "wt_armedFor (ww_timer r) = None"
      then have "now + 100 * max ((deadline - now) div 100) 1 \<le> clock w3"
        using True found(2) set(2) now by auto
      moreover have "100 * ((deadline - now) div 100) > deadline - now - 100"
        using pos_mod_bound [of 100 "deadline - now"] div_mult_mod_eq [of "deadline - now" 100] by linarith
      ultimately show "deadline - 99 \<le> clock w3 \<and> (deadline - 99 \<le> clock w \<longrightarrow> deadline \<le> clock w3)"
        using now by linarith
    qed (use True found(2) now in \<open>auto simp: onSignalled_def\<close>)
    moreover have "windows_waitLoop wn deadline r w = windows_waitLoop wn deadline ?r' w3"
      by (subst windows_waitLoop.simps) (simp add: w1 w2 w3 True Let_def)
    ultimately show ?thesis
      using True found(2) by (simp add: windows_waited_def)
  next
    case False
    then show ?thesis
      using found now set(1) unfolding windows_waited_def
      by (subst windows_waitLoop.simps) (auto simp: w1 w2 w3 wait_outcome_def Let_def split: WaitResult.splits)
  qed
qed

text \<open>
  A round after the deadline is the last one. The timer may be set for an earlier deadline at first; it is then set
  for this one, rounded down to 100 ns, and at last for 100 ns: a wait takes at most four rounds.
\<close>

lemma windows_expired: "waits_for clock due wn \<Longrightarrow> deadline \<le> clock w \<Longrightarrow> windows_waited clock wn deadline r w"
  by (rule windows_round [of clock due]) auto

lemma windows_near:
  "waits_for clock due wn \<Longrightarrow> wt_armedFor (ww_timer r) = None \<Longrightarrow> deadline - 99 \<le> clock w \<Longrightarrow> windows_waited clock wn deadline r w"
  by (rule windows_round [of clock due]) (auto intro: windows_expired)

lemma windows_unarmed: "waits_for clock due wn \<Longrightarrow> wt_armedFor (ww_timer r) = None \<Longrightarrow> windows_waited clock wn deadline r w"
  by (rule windows_round [of clock due]) (auto intro: windows_near)

lemma windows_wait_outcome: "waits_for clock due wn \<Longrightarrow> windows_waited clock wn deadline r w"
  by (rule windows_round [of clock due]) (auto intro: windows_unarmed)

interpretation windows: read_waiter "windows_readWaiter wn" ww_signalled ww_readableUnread clock "waits_for clock due wn"
  for wn clock due
proof
  fix deadline r w result r' w'
  show "waits_for clock due wn \<Longrightarrow> \<exists>x. rw_wait (windows_readWaiter wn) deadline r w = Some x"
    using windows_wait_outcome [of clock due wn deadline r w] by (auto simp: windows_readWaiter_def windows_wait_def windows_waited_def)
  assume "waits_for clock due wn"
  note out = windows_wait_outcome [OF this, of deadline r w]
  show "rw_wait (windows_readWaiter wn) deadline r w = Some (result, r', w') \<Longrightarrow> ww_signalled r \<Longrightarrow> \<not> ww_readableUnread r \<Longrightarrow>
      result \<noteq> None \<and> result \<noteq> Some Timeout"
    "rw_wait (windows_readWaiter wn) deadline r w = Some (Some Cancelled, r', w') \<Longrightarrow> \<not> ww_signalled r'"
    "rw_wait (windows_readWaiter wn) deadline r w = Some (result, r', w') \<Longrightarrow> result \<noteq> Some Cancelled \<Longrightarrow> ww_signalled r \<Longrightarrow> ww_signalled r'"
    "rw_wait (windows_readWaiter wn) deadline r w = Some (Some Timeout, r', w') \<Longrightarrow> deadline \<le> clock w'"
    using out by (auto simp: windows_readWaiter_def windows_wait_def windows_waited_def wait_outcome_def split: if_splits)
qed (auto simp: windows_readWaiter_def windows_interrupt_def windows_onReceiveAttempt_def)

end
