(* ===== verification/UdpSocket.thy ===== *)
theory UdpSocket
  imports ReadWaiters
begin

text \<open>
  \<open>SocketHandle.cpp\<close> and \<open>UdpSocket.cpp\<close> over the three platforms, with what each of them does to create a socket and a
  waiter (\<open>SocketPlatformPosix.cpp\<close>, \<open>SocketPlatformWindows.cpp\<close>). Other threads call \<open>shutdown\<close> and \<open>interrupt\<close> on the
  handle between the steps of a receive. The lemmas of the locale \<open>read_waiter\<close> on the handle hold on all three
  platforms: a receive after an interrupt returns in one pass, one after a shutdown reports \<open>Closed\<close>, and none times
  out early. The locale \<open>socket_resources\<close> is who owns which descriptor: binding leaks none, on no error path.
\<close>

unbundle bit_operations_syntax

section \<open>Platforms\<close>

text \<open>What other threads call on a handle.\<close>

datatype HandleCall = CallInterrupt | CallShutdown

text \<open>\<open>pf_others\<close>: the calls of the other threads since the last time.\<close>

record ('e, 'r, 'w) Platform =
  pf_kernel :: "('e, 'w) Kernel"
  pf_reusePort :: bool
  pf_createSocket :: "'w \<Rightarrow> (SocketError + NativeHandle) \<times> 'w"
  pf_createReadWaiter :: "NativeHandle \<Rightarrow> 'w \<Rightarrow> 'r option \<times> 'w"
  pf_destroyReadWaiter :: "'r \<Rightarrow> 'w \<Rightarrow> 'w"
  pf_waiter :: "('r, 'w) ReadWaiter"
  pf_others :: "'w \<Rightarrow> HandleCall list \<times> 'w"

subsection \<open>POSIX\<close>

definition posix_setNonBlocking :: "'w Posix \<Rightarrow> NativeHandle \<Rightarrow> 'w \<Rightarrow> SocketError option \<times> 'w" where
  "posix_setNonBlocking px handle w =
     (case px_getfl px handle w of
        (Inl code, w) \<Rightarrow> (Some (posix_mapNativeError code), w)
      | (Inr fl, w) \<Rightarrow> let (err, w) = px_setfl px handle (fl OR px_O_NONBLOCK px) w in (map_option posix_mapNativeError err, w))"

text \<open>
  \<open>createSocket\<close>, on macOS without \<open>SOCK_CLOEXEC\<close> and \<open>MSG_NOSIGNAL\<close>, on Linux with both.
\<close>

definition posix_createSocket :: "bool \<Rightarrow> 'w Posix \<Rightarrow> 'w \<Rightarrow> (SocketError + NativeHandle) \<times> 'w" where
  "posix_createSocket mac px w =
     (case k_socket (px_kernel px) w of
        (Inl code, w) \<Rightarrow> (Inl (posix_mapNativeError code), w)
      | (Inr sock, w) \<Rightarrow>
          let w = (if mac then px_setfd px sock w else w);
              (err, w) = posix_setNonBlocking px sock w
          in case err of
               Some err \<Rightarrow> (Inl err, k_close (px_kernel px) sock w)
             | None \<Rightarrow> (Inr sock, if mac then snd (k_setsockopt (px_kernel px) sock ''SO_NOSIGPIPE'' 1 w) else w))"

definition linux_createReadWaiter :: "'w Posix \<Rightarrow> NativeHandle \<Rightarrow> 'w \<Rightarrow> LinuxWaiter option \<times> 'w" where
  "linux_createReadWaiter px handle w =
     (case px_eventfd px w of
        (Inl code, w) \<Rightarrow> (None, w)
      | (Inr event, w) \<Rightarrow> (Some \<lparr>lw_socket = handle, lw_interrupt = event, lw_count = 0\<rparr>, w))"

definition linux_destroyReadWaiter :: "'w Posix \<Rightarrow> LinuxWaiter \<Rightarrow> 'w \<Rightarrow> 'w" where
  "linux_destroyReadWaiter px r w = k_close (px_kernel px) (lw_interrupt r) w"

definition linux_platform :: "'w Posix \<Rightarrow> ('w \<Rightarrow> HandleCall list \<times> 'w) \<Rightarrow> (Errno, LinuxWaiter, 'w) Platform" where
  "linux_platform px others =
     \<lparr>pf_kernel = px_kernel px, pf_reusePort = True, pf_createSocket = posix_createSocket False px,
      pf_createReadWaiter = linux_createReadWaiter px, pf_destroyReadWaiter = linux_destroyReadWaiter px,
      pf_waiter = linux_readWaiter px, pf_others = others\<rparr>"

definition kqueue_createReadWaiter :: "'w Posix \<Rightarrow> NativeHandle \<Rightarrow> 'w \<Rightarrow> KqueueWaiter option \<times> 'w" where
  "kqueue_createReadWaiter px handle w =
     (case px_kqueue px w of
        (Inl code, w) \<Rightarrow> (None, w)
      | (Inr queue, w) \<Rightarrow>
          let (err, w) = px_register px queue handle w
          in case err of
               Some code \<Rightarrow> (None, k_close (px_kernel px) queue w)
             | None \<Rightarrow> (Some \<lparr>kw_queue = queue, kw_triggered = False\<rparr>, w))"

definition kqueue_destroyReadWaiter :: "'w Posix \<Rightarrow> KqueueWaiter \<Rightarrow> 'w \<Rightarrow> 'w" where
  "kqueue_destroyReadWaiter px r w = k_close (px_kernel px) (kw_queue r) w"

definition macos_platform :: "'w Posix \<Rightarrow> ('w \<Rightarrow> HandleCall list \<times> 'w) \<Rightarrow> (Errno, KqueueWaiter, 'w) Platform" where
  "macos_platform px others =
     \<lparr>pf_kernel = px_kernel px, pf_reusePort = True, pf_createSocket = posix_createSocket True px,
      pf_createReadWaiter = kqueue_createReadWaiter px, pf_destroyReadWaiter = kqueue_destroyReadWaiter px,
      pf_waiter = kqueue_readWaiter px, pf_others = others\<rparr>"

subsection \<open>Windows\<close>

text \<open>\<open>wn_startup\<close> is the result of the one \<open>WSAStartup\<close> of the process.\<close>

definition ensureInitialized :: "'w Windows \<Rightarrow> 'w \<Rightarrow> SocketError option \<times> 'w" where
  "ensureInitialized wn w = (let (startup, w) = wn_startup wn w in (if startup \<noteq> 0 then Some NotInitialized else None, w))"

definition windows_setNonBlocking :: "'w Windows \<Rightarrow> NativeHandle \<Rightarrow> 'w \<Rightarrow> SocketError option \<times> 'w" where
  "windows_setNonBlocking wn handle w = (let (err, w) = wn_ioctl wn handle w in (map_option windows_mapNativeError err, w))"

definition windows_createSocket :: "'w Windows \<Rightarrow> 'w \<Rightarrow> (SocketError + NativeHandle) \<times> 'w" where
  "windows_createSocket wn w =
     (let (init, w) = ensureInitialized wn w
      in case init of
           Some err \<Rightarrow> (Inl err, w)
         | None \<Rightarrow>
             (case k_socket (wn_kernel wn) w of
                (Inl code, w) \<Rightarrow> (Inl (windows_mapNativeError code), w)
              | (Inr sock, w) \<Rightarrow>
                  let (err, w) = windows_setNonBlocking wn sock w
                  in case err of
                       Some err \<Rightarrow> (Inl err, k_close (wn_kernel wn) sock w)
                     | None \<Rightarrow> (Inr sock, wn_connReset wn sock w)))"

definition windows_destroyReadWaiter :: "'w Windows \<Rightarrow> WindowsWaiter \<Rightarrow> 'w \<Rightarrow> 'w" where
  "windows_destroyReadWaiter wn r w =
     (let w = (case ww_readable r of Some h \<Rightarrow> wn_closeHandle wn h (snd (wn_eventSelect wn (ww_socket r) None w)) | None \<Rightarrow> w);
          w = (case ww_interrupt r of Some h \<Rightarrow> wn_closeHandle wn h w | None \<Rightarrow> w)
      in timer_destroy wn (ww_timer r) w)"

text \<open>The constructor of \<open>ReadWaiterWindows\<close>; a waiter that is not valid is destroyed.\<close>

definition windows_newWaiter :: "'w Windows \<Rightarrow> NativeHandle \<Rightarrow> 'w \<Rightarrow> WindowsWaiter \<times> 'w" where
  "windows_newWaiter wn handle w =
     (let (readable, w) = wn_createEvent wn w;
          (event, w) = wn_createEvent wn w;
          (timer, w) = timer_create wn w;
          (readable, w) = (case readable of
              None \<Rightarrow> (None, w)
            | Some h \<Rightarrow> let (failed, w) = wn_eventSelect wn handle (Some h) w
                in if failed then (None, wn_closeHandle wn h w) else (Some h, w))
      in (\<lparr>ww_socket = handle, ww_readable = readable, ww_interrupt = event, ww_timer = timer, ww_readableUnread = False, ww_signalled = False\<rparr>, w))"

definition windows_createReadWaiter :: "'w Windows \<Rightarrow> NativeHandle \<Rightarrow> 'w \<Rightarrow> WindowsWaiter option \<times> 'w" where
  "windows_createReadWaiter wn handle w =
     (let (r, w) = windows_newWaiter wn handle w
      in if ww_readable r \<noteq> None \<and> ww_interrupt r \<noteq> None \<and> wt_handle (ww_timer r) \<noteq> None then (Some r, w)
         else (None, windows_destroyReadWaiter wn r w))"

definition windows_platform :: "'w Windows \<Rightarrow> ('w \<Rightarrow> HandleCall list \<times> 'w) \<Rightarrow> (WsaError, WindowsWaiter, 'w) Platform" where
  "windows_platform wn others =
     \<lparr>pf_kernel = wn_kernel wn, pf_reusePort = False, pf_createSocket = windows_createSocket wn,
      pf_createReadWaiter = windows_createReadWaiter wn, pf_destroyReadWaiter = windows_destroyReadWaiter wn,
      pf_waiter = windows_readWaiter wn, pf_others = others\<rparr>"


section \<open>The handle\<close>

record 'r HandleState =
  hs_shutdown :: bool
  hs_waiter :: "'r option"

record 'r SocketHandle =
  sh_handle :: NativeHandle
  sh_state :: "'r HandleState option"

definition sh_empty :: "'r SocketHandle" where
  "sh_empty = \<lparr>sh_handle = InvalidNativeHandle, sh_state = None\<rparr>"

definition sh_create :: "('e, 'r, 'w) Platform \<Rightarrow> NativeHandle \<Rightarrow> 'w \<Rightarrow> 'r SocketHandle \<times> 'w" where
  "sh_create pf handle w =
     (let (waiter, w) = pf_createReadWaiter pf handle w
      in (\<lparr>sh_handle = handle, sh_state = Some \<lparr>hs_shutdown = False, hs_waiter = waiter\<rparr>\<rparr>, w))"

definition sh_isValid :: "'r SocketHandle \<Rightarrow> bool" where
  "sh_isValid h \<longleftrightarrow> sh_handle h \<noteq> InvalidNativeHandle"

definition sh_reset :: "('e, 'r, 'w) Platform \<Rightarrow> 'r SocketHandle \<Rightarrow> 'w \<Rightarrow> 'r SocketHandle \<times> 'w" where
  "sh_reset pf h w =
     (let w = (case Option.bind (sh_state h) hs_waiter of Some r \<Rightarrow> pf_destroyReadWaiter pf r w | None \<Rightarrow> w);
          w = (if sh_isValid h then closeHandle (pf_kernel pf) (sh_handle h) w else w)
      in (sh_empty, w))"

text \<open>The assignment from another handle: what becomes of the two.\<close>

definition sh_assign :: "('e, 'r, 'w) Platform \<Rightarrow> 'r SocketHandle \<Rightarrow> 'r SocketHandle \<Rightarrow> 'w \<Rightarrow> 'r SocketHandle \<times> 'r SocketHandle \<times> 'w" where
  "sh_assign pf h other w =
     (let (h, w) = sh_reset pf h w in (h\<lparr>sh_handle := sh_handle other, sh_state := sh_state other\<rparr>, sh_empty, w))"

definition sh_onWaiter :: "('r \<Rightarrow> 'r) \<Rightarrow> 'r SocketHandle \<Rightarrow> 'r SocketHandle" where
  "sh_onWaiter f h = h\<lparr>sh_state := map_option (\<lambda>st. st\<lparr>hs_waiter := map_option f (hs_waiter st)\<rparr>) (sh_state h)\<rparr>"

definition sh_interrupt :: "('e, 'r, 'w) Platform \<Rightarrow> 'r SocketHandle \<Rightarrow> 'r SocketHandle" where
  "sh_interrupt pf h = sh_onWaiter (rw_interrupt (pf_waiter pf)) h"

definition sh_noteReceiveAttempt :: "('e, 'r, 'w) Platform \<Rightarrow> 'r SocketHandle \<Rightarrow> 'r SocketHandle" where
  "sh_noteReceiveAttempt pf h = sh_onWaiter (rw_onReceiveAttempt (pf_waiter pf)) h"

definition sh_shutdown :: "('e, 'r, 'w) Platform \<Rightarrow> 'r SocketHandle \<times> 'w \<Rightarrow> 'r SocketHandle \<times> 'w" where
  "sh_shutdown pf = (\<lambda>(h, w).
     if \<not> sh_isValid h \<or> sh_state h = None then (h, w)
     else let h = h\<lparr>sh_state := map_option (\<lambda>st. st\<lparr>hs_shutdown := True\<rparr>) (sh_state h)\<rparr>;
              w = shutdownHandle (pf_kernel pf) (sh_handle h) w
          in (sh_interrupt pf h, w))"

definition sh_call :: "('e, 'r, 'w) Platform \<Rightarrow> HandleCall \<Rightarrow> 'r SocketHandle \<times> 'w \<Rightarrow> 'r SocketHandle \<times> 'w" where
  "sh_call pf c = (\<lambda>(h, w). case c of CallInterrupt \<Rightarrow> (sh_interrupt pf h, w) | CallShutdown \<Rightarrow> sh_shutdown pf (h, w))"

text \<open>\<open>isShutdown\<close>, after what the other threads did.\<close>

definition sh_isShutdown :: "('e, 'r, 'w) Platform \<Rightarrow> 'r SocketHandle \<Rightarrow> 'w \<Rightarrow> bool \<times> 'r SocketHandle \<times> 'w" where
  "sh_isShutdown pf h w =
     (let (calls, w) = pf_others pf w;
          (h, w) = fold (sh_call pf) calls (h, w)
      in (case sh_state h of Some st \<Rightarrow> hs_shutdown st | None \<Rightarrow> False, h, w))"

definition sh_waitReadable ::
  "('e, 'r, 'w) Platform \<Rightarrow> TimePoint \<Rightarrow> 'r SocketHandle \<Rightarrow> 'w \<Rightarrow> (SocketError option \<times> 'r SocketHandle \<times> 'w) option" where
  "sh_waitReadable pf deadline h w =
     (if \<not> sh_isValid h \<or> Option.bind (sh_state h) hs_waiter = None then Some (Some InvalidArgument, h, w)
      else let (down, h, w) = sh_isShutdown pf h w
        in if down then Some (Some Closed, h, w)
           else case Option.bind (sh_state h) hs_waiter of
               None \<Rightarrow> None
             | Some r \<Rightarrow> do { (ready, r, w) \<leftarrow> rw_wait (pf_waiter pf) deadline r w;
                              let (down, h, w) = sh_isShutdown pf (sh_onWaiter (\<lambda>_. r) h) w
                              in Some (if down then Some Closed else ready, h, w) })"


section \<open>The socket\<close>

record 'r UdpSocket =
  us_handle :: "'r SocketHandle"
  us_localAddress :: SocketAddress

text \<open>\<open>UdpSocket::bind\<close>: on every error path after the first the handle is destroyed.\<close>

definition udp_bind ::
  "('e, 'r, 'w) Platform \<Rightarrow> SocketAddress \<Rightarrow> BindOptions \<Rightarrow> 'w \<Rightarrow> ((SocketError + 'r UdpSocket) \<times> 'w) option" where
  "udp_bind pf a options w =
     (case pf_createSocket pf w of
        (Inl err, w) \<Rightarrow> Some (Inl err, w)
      | (Inr native, w) \<Rightarrow>
          let (h, w) = sh_create pf native w;
              (err, w) = applyBindOptions (pf_kernel pf) (pf_reusePort pf) (sh_handle h) options w
          in case err of
               Some err \<Rightarrow> Some (Inl err, snd (sh_reset pf h w))
             | None \<Rightarrow>
                 let (err, w) = bindTo (pf_kernel pf) (sh_handle h) a w
                 in case err of
                      Some err \<Rightarrow> Some (Inl err, snd (sh_reset pf h w))
                    | None \<Rightarrow>
                        do { (bound, w) \<leftarrow> localAddressOf (pf_kernel pf) (sh_handle h) w;
                             case bound of
                               Inl err \<Rightarrow> Some (Inl err, snd (sh_reset pf h w))
                             | Inr local \<Rightarrow> Some (Inr \<lparr>us_handle = h, us_localAddress = local\<rparr>, w) })"

partial_function (option) udp_receiveLoop ::
  "('e, 'r, 'w) Platform \<Rightarrow> nat \<Rightarrow> int \<Rightarrow> TimePoint \<Rightarrow> 'r SocketHandle \<Rightarrow> 'w \<Rightarrow>
   ((SocketError + bytes \<times> SocketAddress) \<times> 'r SocketHandle \<times> 'w) option" where
  "udp_receiveLoop pf bufferSize timeout deadline h w =
     (let (down, h, w) = sh_isShutdown pf h w
      in if down then Some (Inl Closed, h, w)
         else do { let h = sh_noteReceiveAttempt pf h;
                   (datagram, w) \<leftarrow> receiveDatagram (pf_kernel pf) (sh_handle h) bufferSize w;
                   if datagram \<noteq> Inl WouldBlock then Some (datagram, h, w)
                   else if timeout \<le> 0 then Some (Inl Timeout, h, w)
                   else do { (ready, h, w) \<leftarrow> sh_waitReadable pf deadline h w;
                             case ready of
                               Some err \<Rightarrow> Some (Inl err, h, w)
                             | None \<Rightarrow> udp_receiveLoop pf bufferSize timeout deadline h w } })"

text \<open>\<open>receiveFrom\<close> and \<open>waitReadable\<close>, with the timeout in microseconds.\<close>

definition receiveFrom ::
  "('e, 'r, 'w) Platform \<Rightarrow> nat \<Rightarrow> int \<Rightarrow> 'r SocketHandle \<Rightarrow> 'w \<Rightarrow> ((SocketError + bytes \<times> SocketAddress) \<times> 'r SocketHandle \<times> 'w) option" where
  "receiveFrom pf bufferSize timeout h w =
     (let (now, w) = k_now (pf_kernel pf) w in udp_receiveLoop pf bufferSize timeout (now + timeout * 1000) h w)"

definition udp_waitReadable ::
  "('e, 'r, 'w) Platform \<Rightarrow> int \<Rightarrow> 'r SocketHandle \<Rightarrow> 'w \<Rightarrow> (SocketError option \<times> 'r SocketHandle \<times> 'w) option" where
  "udp_waitReadable pf timeout h w = (let (now, w) = k_now (pf_kernel pf) w in sh_waitReadable pf (now + timeout * 1000) h w)"


section \<open>Interrupts, shutdown and timeouts\<close>

definition sh_waiter :: "'r SocketHandle \<Rightarrow> 'r option" where
  "sh_waiter h = Option.bind (sh_state h) hs_waiter"

definition sh_down :: "'r SocketHandle \<Rightarrow> bool" where
  "sh_down h \<longleftrightarrow> (case sh_state h of Some st \<Rightarrow> hs_shutdown st | None \<Rightarrow> False)"

lemma sh_onWaiter_simps [simp]:
  "sh_handle (sh_onWaiter f h) = sh_handle h" "sh_waiter (sh_onWaiter f h) = map_option f (sh_waiter h)"
  "sh_down (sh_onWaiter f h) = sh_down h"
  by (auto simp: sh_onWaiter_def sh_waiter_def sh_down_def split: option.splits Option.bind_splits)

lemma sh_shutdown_simps [simp]:
  "sh_handle (fst (sh_shutdown pf (h, w))) = sh_handle h"
  "sh_waiter (fst (sh_shutdown pf (h, w))) =
     (if sh_isValid h then map_option (rw_interrupt (pf_waiter pf)) (sh_waiter h) else sh_waiter h)"
  "sh_down (fst (sh_shutdown pf (h, w))) \<longleftrightarrow> sh_down h \<or> sh_isValid h \<and> sh_state h \<noteq> None"
  by (auto simp: sh_shutdown_def sh_interrupt_def sh_waiter_def sh_down_def sh_onWaiter_def Let_def split: option.splits Option.bind_splits)

text \<open>What the calls of other threads leave as it is.\<close>

lemma sh_calls_keep:
  "fold (sh_call pf) calls (h, w) = (h', w') \<Longrightarrow>
   sh_handle h' = sh_handle h \<and> (sh_waiter h' = None \<longleftrightarrow> sh_waiter h = None) \<and> (sh_down h \<longrightarrow> sh_down h')"
proof (induction calls arbitrary: h w)
  case (Cons c calls)
  obtain h1 w1 where c: "sh_call pf c (h, w) = (h1, w1)"
    by fastforce
  then have "h1 = fst (sh_call pf c (h, w))"
    by simp
  then have "sh_handle h1 = sh_handle h \<and> (sh_waiter h1 = None \<longleftrightarrow> sh_waiter h = None) \<and> (sh_down h \<longrightarrow> sh_down h1)"
    by (cases c) (simp_all add: sh_call_def sh_interrupt_def)
  then show ?case
    using Cons.IH [of h1 w1] Cons.prems c by simp
qed simp

lemma sh_isShutdown_keep:
  assumes "sh_isShutdown pf h w = (down, h', w')"
  shows "sh_handle h' = sh_handle h" "sh_waiter h' = None \<longleftrightarrow> sh_waiter h = None" "sh_down h \<Longrightarrow> sh_down h'" "down = sh_down h'"
proof -
  obtain calls w1 h2 w2 where "pf_others pf w = (calls, w1)" "fold (sh_call pf) calls (h, w1) = (h2, w2)"
    by (metis surj_pair)
  then show "sh_handle h' = sh_handle h" "sh_waiter h' = None \<longleftrightarrow> sh_waiter h = None" "sh_down h \<Longrightarrow> sh_down h'" "down = sh_down h'"
    using assms sh_calls_keep [of pf calls h w1 h2 w2] by (auto simp: sh_isShutdown_def sh_down_def)
qed

text \<open>Once a handle is shut down every receive on it reports \<open>Closed\<close> and reads nothing.\<close>

lemma receive_after_shutdown:
  assumes "sh_down h"
  shows "\<exists>h' w'. receiveFrom pf n timeout h w = Some (Inl Closed, h', w') \<and> sh_down h'"
proof -
  obtain now w1 where w1: "k_now (pf_kernel pf) w = (now, w1)"
    by fastforce
  obtain down h2 w2 where s: "sh_isShutdown pf h w1 = (down, h2, w2)"
    using prod_cases3 by blast
  have "sh_down h2" "down"
    using sh_isShutdown_keep(3,4) [OF s] assms by auto
  then show ?thesis
    by (simp add: receiveFrom_def w1 udp_receiveLoop.simps [of pf n timeout _ h] s)
qed

text \<open>
  The sockets have no receive timeout of the system, and the calls of other threads do not turn back the clock.
\<close>

definition untimed :: "('e, 'w) Kernel \<Rightarrow> bool" where
  "untimed k \<longleftrightarrow> (\<forall>handle n w code w'. k_recvmsg k handle n w = (Inl code, w') \<longrightarrow> mapNativeError (k_errors k) code \<noteq> Timeout)"

definition steady :: "('w \<Rightarrow> int) \<Rightarrow> ('e, 'r, 'w) Platform \<Rightarrow> bool" where
  "steady clock pf \<longleftrightarrow>
     (\<forall>w. clock w \<le> clock (snd (pf_others pf w))) \<and> (\<forall>handle w. clock w \<le> clock (k_shutdown (pf_kernel pf) handle w))"

lemma untimedD: "untimed k \<Longrightarrow> k_recvmsg k handle n w = (Inl code, w') \<Longrightarrow> mapNativeError (k_errors k) code \<noteq> Timeout"
  by (simp add: untimed_def) blast

lemma receiveDatagram_untimed:
  fixes k :: "('e, 'w) Kernel"
  assumes "untimed k" and r: "receiveDatagram k handle n w = Some (result, w')"
  shows "result \<noteq> Inl Timeout"
proof -
  let ?P = "\<lambda>k :: ('e, 'w) Kernel. \<lambda>handle :: NativeHandle. \<lambda>n :: nat. \<lambda>w :: 'w. \<lambda>(result :: SocketError + bytes \<times> SocketAddress, w' :: 'w).
    untimed k \<longrightarrow> result \<noteq> Inl Timeout"
  have "?P k handle n w (result, w')"
    by (rule receiveDatagram.raw_induct [of ?P, OF _ r])
       (fastforce simp: callFailed_def dest: untimedD split: prod.splits sum.splits if_splits option.splits)
  then show ?thesis
    using assms(1) by simp
qed

lemma sh_call_steady: "steady clock pf \<Longrightarrow> clock w \<le> clock (snd (sh_call pf c (h, w)))"
  by (cases c) (auto simp: sh_call_def sh_shutdown_def shutdownHandle_def steady_def Let_def)

lemma sh_isShutdown_steady:
  assumes "steady clock pf" and "sh_isShutdown pf h w = (down, h', w')"
  shows "clock w \<le> clock w'"
proof -
  have fold: "clock w \<le> clock (snd (fold (sh_call pf) calls (h, w)))" for calls h w
  proof (induction calls arbitrary: h w)
    case (Cons c calls)
    show ?case
      using sh_call_steady [OF assms(1), of w c h] Cons.IH [of "snd (sh_call pf c (h, w))" "fst (sh_call pf c (h, w))"] by simp
  qed simp
  obtain calls w1 h2 w2 where calls: "pf_others pf w = (calls, w1)" "fold (sh_call pf) calls (h, w1) = (h2, w2)"
    by (metis surj_pair)
  then have "w' = w2"
    using assms(2) by (auto simp: sh_isShutdown_def)
  moreover have "clock w \<le> clock w1"
    using assms(1) calls(1) unfolding steady_def by (metis snd_conv)
  moreover have "clock w1 \<le> clock w2"
    using fold [of w1 calls h] calls(2) by simp
  ultimately show ?thesis
    by simp
qed

text \<open>What holds of the waiter and survives an interrupt survives the calls of other threads.\<close>

lemma sh_isShutdown_waiter:
  assumes "\<And>r. Q r \<Longrightarrow> Q (rw_interrupt (pf_waiter pf) r)" and "sh_waiter h = Some r" "Q r" and "sh_isShutdown pf h w = (down, h', w')"
  shows "\<exists>r'. sh_waiter h' = Some r' \<and> Q r'"
proof -
  have fold: "\<exists>r'. sh_waiter (fst (fold (sh_call pf) calls (h, w))) = Some r' \<and> Q r'" if "sh_waiter h = Some r" "Q r" for calls h w r
    using that
  proof (induction calls arbitrary: h w r)
    case (Cons c calls)
    obtain h1 w1 where c: "sh_call pf c (h, w) = (h1, w1)"
      by fastforce
    then have "h1 = fst (sh_call pf c (h, w))"
      by simp
    then have "\<exists>r. sh_waiter h1 = Some r \<and> Q r"
      using Cons.prems assms(1) by (cases c) (auto simp: sh_call_def sh_interrupt_def)
    then show ?case
      using Cons.IH [of h1 _ w1] c by auto
  qed simp
  obtain calls w1 h2 w2 where "pf_others pf w = (calls, w1)" "fold (sh_call pf) calls (h, w1) = (h2, w2)"
    by (metis surj_pair)
  then show ?thesis
    using assms(4) fold [OF assms(2,3), of calls w1] by (auto simp: sh_isShutdown_def)
qed

lemma sh_waitReadable_unfold:
  assumes "sh_isValid h" "sh_waiter h \<noteq> None" "sh_isShutdown pf h w = (down, h1, w1)" "sh_waiter h1 = Some r"
  shows "sh_waitReadable pf deadline h w =
    (if down then Some (Some Closed, h1, w1)
     else do { (ready, r, w) \<leftarrow> rw_wait (pf_waiter pf) deadline r w1;
               let (down, h, w) = sh_isShutdown pf (sh_onWaiter (\<lambda>_. r) h1) w
               in Some (if down then Some Closed else ready, h, w) })"
  using assms by (auto simp: sh_waitReadable_def sh_waiter_def)

lemma sh_interrupt_pending:
  "sh_waiter h = Some r \<Longrightarrow> sh_waiter (sh_interrupt pf h) = Some (rw_interrupt (pf_waiter pf) r)"
  "sh_isValid (sh_interrupt pf h) = sh_isValid h"
  by (simp_all add: sh_interrupt_def sh_isValid_def)

context read_waiter
begin

text \<open>A wait with an interrupt pending returns, and does not wait out its time.\<close>

lemma waitReadable_interrupted:
  assumes "lawful" and rw: "pf_waiter pf = rw" and h: "sh_isValid h" "sh_waiter h = Some r" and r: "pending r" "\<not> unread r"
  shows "\<exists>err h' w'. sh_waitReadable pf deadline h w = Some (Some err, h', w') \<and> err \<noteq> Timeout"
proof -
  obtain down h1 w1 where s: "sh_isShutdown pf h w = (down, h1, w1)"
    using prod_cases3 by blast
  have "pending (rw_interrupt rw r) \<and> \<not> unread (rw_interrupt rw r)" if "pending r \<and> \<not> unread r" for r
    using that interrupted by simp
  then obtain r1 where r1: "sh_waiter h1 = Some r1" "pending r1" "\<not> unread r1"
    using sh_isShutdown_waiter [of "\<lambda>r. pending r \<and> \<not> unread r" pf h r w down h1 w1] h r s rw by auto
  obtain ready r2 w2 where wait: "rw_wait rw deadline r1 w1 = Some (ready, r2, w2)"
    using returns [OF \<open>lawful\<close>, of deadline r1 w1] by (metis prod_cases3)
  obtain down' h2 w3 where s': "sh_isShutdown pf (sh_onWaiter (\<lambda>_. r2) h1) w2 = (down', h2, w3)"
    using prod_cases3 by blast
  obtain err where "ready = Some err" "err \<noteq> Timeout"
    using ends [OF \<open>lawful\<close> wait r1(2,3)] by (cases ready) auto
  then show ?thesis
    using sh_waitReadable_unfold [of h pf w down h1 w1 r1 deadline] h s r1(1) rw wait s' by auto
qed

text \<open>A receive with an interrupt pending is over in one pass.\<close>

lemma receive_interrupted:
  assumes "lawful" and rw: "pf_waiter pf = rw" and kernel: "signals_end signals (pf_kernel pf)" "untimed (pf_kernel pf)"
    and h: "sh_isValid h" "sh_waiter h = Some r" "pending r" and "0 < timeout"
  shows "\<exists>result h' w'. receiveFrom pf n timeout h w = Some (result, h', w') \<and> result \<noteq> Inl Timeout"
proof -
  obtain now w1 where w1: "k_now (pf_kernel pf) w = (now, w1)"
    by fastforce
  obtain down h2 w2 where s: "sh_isShutdown pf h w1 = (down, h2, w2)"
    using prod_cases3 by blast
  obtain r2 where r2: "sh_waiter h2 = Some r2" "pending r2"
    using sh_isShutdown_waiter [of pending pf h r w1 down h2 w2] h s interrupted(1) rw by auto
  let ?h = "sh_noteReceiveAttempt pf h2"
  have valid: "sh_isValid ?h" and waiter: "sh_waiter ?h = Some (rw_onReceiveAttempt rw r2)"
    using h(1) sh_isShutdown_keep(1) [OF s] r2 rw by (auto simp: sh_noteReceiveAttempt_def sh_isValid_def)
  obtain datagram w3 where d: "receiveDatagram (pf_kernel pf) (sh_handle ?h) n w2 = Some (datagram, w3)"
    using receiveDatagram_returns [OF kernel(1)] by fastforce
  obtain err h4 w4 where wait: "sh_waitReadable pf (now + timeout * 1000) ?h w3 = Some (Some err, h4, w4)" "err \<noteq> Timeout"
    using waitReadable_interrupted [OF \<open>lawful\<close> rw valid waiter, of "now + timeout * 1000" w3] attempted r2(2) by auto
  have "datagram \<noteq> Inl Timeout"
    using receiveDatagram_untimed [OF kernel(2) d] .
  then show ?thesis
    using wait \<open>0 < timeout\<close> by (simp add: receiveFrom_def w1 udp_receiveLoop.simps [of pf n timeout _ h] s d Let_def)
qed

lemma receive_after_interrupt:
  assumes "lawful" and rw: "pf_waiter pf = rw" and kernel: "signals_end signals (pf_kernel pf)" "untimed (pf_kernel pf)"
    and h: "sh_isValid h" "sh_waiter h \<noteq> None" and "0 < timeout"
  shows "\<exists>result h' w'. receiveFrom pf n timeout (sh_interrupt pf h) w = Some (result, h', w') \<and> result \<noteq> Inl Timeout"
proof -
  obtain r where "sh_waiter (sh_interrupt pf h) = Some (rw_interrupt rw r)"
    using h(2) sh_interrupt_pending(1) rw by fastforce
  then show ?thesis
    using receive_interrupted [OF \<open>lawful\<close> rw kernel] h(1) interrupted(1) \<open>0 < timeout\<close> by (simp add: sh_interrupt_pending(2))
qed

text \<open>No wait and no receive times out early.\<close>

lemma waitReadable_in_time:
  assumes "lawful" and rw: "pf_waiter pf = rw" and steady: "steady clock pf"
    and wait: "sh_waitReadable pf deadline h w = Some (Some Timeout, h', w')"
  shows "deadline \<le> clock w'"
proof -
  obtain down h1 w1 where s: "sh_isShutdown pf h w = (down, h1, w1)"
    using prod_cases3 by blast
  have h: "sh_isValid h" "sh_waiter h \<noteq> None"
    using wait by (auto simp: sh_waitReadable_def sh_waiter_def split: if_splits)
  then obtain r where r: "sh_waiter h1 = Some r"
    using sh_isShutdown_keep(2) [OF s] by auto
  obtain ready r2 w2 where wait': "rw_wait rw deadline r w1 = Some (ready, r2, w2)"
    using returns [OF \<open>lawful\<close>, of deadline r w1] by (metis prod_cases3)
  obtain down' h2 w3 where s': "sh_isShutdown pf (sh_onWaiter (\<lambda>_. r2) h1) w2 = (down', h2, w3)"
    using prod_cases3 by blast
  have "ready = Some Timeout" "w' = w3"
    using wait sh_waitReadable_unfold [OF h s r, of deadline] rw wait' s' by (auto split: if_splits)
  then show ?thesis
    using in_time [OF \<open>lawful\<close>, of deadline r w1 r2 w2] wait' sh_isShutdown_steady [OF steady s'] by simp
qed

lemma receive_in_time:
  fixes pf :: "('e, 'r, 'w) Platform"
  assumes "lawful" and rw: "pf_waiter pf = rw" and kernel: "steady clock pf" "untimed (pf_kernel pf)" and "0 < timeout"
    and r: "udp_receiveLoop pf n timeout deadline h w = Some (Inl Timeout, h', w')"
  shows "deadline \<le> clock w'"
proof -
  let ?P = "\<lambda>pf :: ('e, 'r, 'w) Platform. \<lambda>n :: nat. \<lambda>timeout deadline. \<lambda>h :: 'r SocketHandle. \<lambda>w :: 'w.
    \<lambda>(result :: SocketError + bytes \<times> SocketAddress, h' :: 'r SocketHandle, w' :: 'w).
    pf_waiter pf = rw \<and> steady clock pf \<and> untimed (pf_kernel pf) \<and> 0 < timeout \<and> result = Inl Timeout \<longrightarrow> deadline \<le> clock w'"
  have "?P pf n timeout deadline h w (Inl Timeout, h', w')"
    by (rule udp_receiveLoop.raw_induct [of ?P, OF _ r])
       (auto simp: Let_def Option.bind_eq_Some_conv dest: receiveDatagram_untimed intro: waitReadable_in_time [OF \<open>lawful\<close>]
        split: prod.splits if_splits option.splits)
  then show ?thesis
    using assms by simp
qed

end

text \<open>
  What the systems are documented to do: their waits, the signals that interrupt a receive, and that there is no
  receive timeout.
\<close>

definition linux_laws :: "('w \<Rightarrow> int) \<Rightarrow> ('w \<Rightarrow> nat) \<Rightarrow> 'w Posix \<Rightarrow> bool" where
  "linux_laws clock signals px \<longleftrightarrow> polls clock signals px \<and> signals_end signals (px_kernel px) \<and> untimed (px_kernel px)"

definition macos_laws :: "('w \<Rightarrow> int) \<Rightarrow> ('w \<Rightarrow> nat) \<Rightarrow> 'w Posix \<Rightarrow> bool" where
  "macos_laws clock signals px \<longleftrightarrow> kevents clock signals px \<and> signals_end signals (px_kernel px) \<and> untimed (px_kernel px)"

definition windows_laws :: "('w \<Rightarrow> int) \<Rightarrow> ('w \<Rightarrow> nat) \<Rightarrow> ('w \<Rightarrow> int) \<Rightarrow> 'w Windows \<Rightarrow> bool" where
  "windows_laws clock signals due wn \<longleftrightarrow> waits_for clock due wn \<and> signals_end signals (wn_kernel wn) \<and> untimed (wn_kernel wn)"

lemma platform_simps [simp]:
  "pf_kernel (linux_platform px others) = px_kernel px" "pf_waiter (linux_platform px others) = linux_readWaiter px"
  "pf_kernel (macos_platform px others) = px_kernel px" "pf_waiter (macos_platform px others) = kqueue_readWaiter px"
  "pf_kernel (windows_platform wn others) = wn_kernel wn" "pf_waiter (windows_platform wn others) = windows_readWaiter wn"
  by (simp_all add: linux_platform_def macos_platform_def windows_platform_def)

text \<open>C35: On every platform a receive that begins after an interrupt returns, whatever the other threads do and
  however often a signal comes in between, and it does not wait out its time: with a datagram, or with an error
  that is not \<open>Timeout\<close>.
\<close>

theorem interrupt_ends_receive:
  assumes "0 < timeout"
  shows "(linux_laws clock signals px \<and> sh_isValid hl \<and> sh_waiter hl \<noteq> None \<longrightarrow>
      (\<exists>result h' w'. receiveFrom (linux_platform px others) n timeout (sh_interrupt (linux_platform px others) hl) w =
        Some (result, h', w') \<and> result \<noteq> Inl Timeout)) \<and>
    (macos_laws clock signals px \<and> sh_isValid hm \<and> sh_waiter hm \<noteq> None \<longrightarrow>
      (\<exists>result h' w'. receiveFrom (macos_platform px others) n timeout (sh_interrupt (macos_platform px others) hm) w =
        Some (result, h', w') \<and> result \<noteq> Inl Timeout)) \<and>
    (windows_laws clock signals due wn \<and> sh_isValid hw \<and> sh_waiter hw \<noteq> None \<longrightarrow>
      (\<exists>result h' w'. receiveFrom (windows_platform wn others) n timeout (sh_interrupt (windows_platform wn others) hw) w =
        Some (result, h', w') \<and> result \<noteq> Inl Timeout))"
  using linux.receive_after_interrupt [of clock signals px "linux_platform px others" signals hl timeout n w]
    kqueue.receive_after_interrupt [of clock signals px "macos_platform px others" signals hm timeout n w]
    windows.receive_after_interrupt [of clock due wn "windows_platform wn others" signals hw timeout n w] assms
  by (simp only: linux_laws_def macos_laws_def windows_laws_def platform_simps) blast


text \<open>C36: On every platform a receive with a timeout that reports \<open>Timeout\<close> does so no earlier than its timeout after the
  time it began, however often it was woken up in between.
\<close>

theorem timeout_not_early:
  assumes "0 < timeout"
  shows "(linux_laws clock signals px \<and> steady clock (linux_platform px others) \<and>
      receiveFrom (linux_platform px others) n timeout hl w = Some (Inl Timeout, hl', w') \<longrightarrow>
      fst (k_now (px_kernel px) w) + timeout * 1000 \<le> clock w') \<and>
    (macos_laws clock signals px \<and> steady clock (macos_platform px others) \<and>
      receiveFrom (macos_platform px others) n timeout hm w = Some (Inl Timeout, hm', w') \<longrightarrow>
      fst (k_now (px_kernel px) w) + timeout * 1000 \<le> clock w') \<and>
    (windows_laws clock signals due wn \<and> steady clock (windows_platform wn others) \<and>
      receiveFrom (windows_platform wn others) n timeout hw w = Some (Inl Timeout, hw', w') \<longrightarrow>
      fst (k_now (wn_kernel wn) w) + timeout * 1000 \<le> clock w')"
proof -
  obtain t1 w1 t2 w2 where now: "k_now (px_kernel px) w = (t1, w1)" "k_now (wn_kernel wn) w = (t2, w2)"
    by (metis surj_pair)
  show ?thesis
    using linux.receive_in_time [of clock signals px "linux_platform px others" timeout n "t1 + timeout * 1000" hl w1 hl' w']
      kqueue.receive_in_time [of clock signals px "macos_platform px others" timeout n "t1 + timeout * 1000" hm w1 hm' w']
      windows.receive_in_time [of clock due wn "windows_platform wn others" timeout n "t2 + timeout * 1000" hw w2 hw' w'] assms
    by (simp add: linux_laws_def macos_laws_def windows_laws_def receiveFrom_def now)
qed


section \<open>Resources\<close>

text \<open>The descriptors a process has open, and on Windows its handles.\<close>

datatype Resource = Descriptor NativeHandle | KernelObject NativeHandle

definition opens_one :: "('w \<Rightarrow> Resource set) \<Rightarrow> 'w \<Rightarrow> ('e + NativeHandle) \<times> 'w \<Rightarrow> bool" where
  "opens_one opened w r =
     (case r of
        (Inl code, w') \<Rightarrow> opened w' = opened w
      | (Inr s, w') \<Rightarrow> s \<noteq> InvalidNativeHandle \<and> Descriptor s \<notin> opened w \<and> opened w' = insert (Descriptor s) (opened w))"

definition kernel_resources :: "('w \<Rightarrow> Resource set) \<Rightarrow> ('e, 'w) Kernel \<Rightarrow> bool" where
  "kernel_resources opened k \<longleftrightarrow>
     (\<forall>w. opens_one opened w (k_socket k w)) \<and>
     (\<forall>s w. opened (k_close k s w) = opened w - {Descriptor s}) \<and>
     (\<forall>s opt v w. opened (snd (k_setsockopt k s opt v w)) = opened w) \<and>
     (\<forall>s opt w. opened (snd (k_getsockopt k s opt w)) = opened w) \<and>
     (\<forall>s a w. opened (snd (k_bind k s a w)) = opened w) \<and>
     (\<forall>s w. opened (snd (k_getsockname k s w)) = opened w)"

definition posix_resources :: "('w \<Rightarrow> Resource set) \<Rightarrow> 'w Posix \<Rightarrow> bool" where
  "posix_resources opened px \<longleftrightarrow>
     kernel_resources opened (px_kernel px) \<and>
     (\<forall>s w. opened (snd (px_getfl px s w)) = opened w) \<and>
     (\<forall>s fl w. opened (snd (px_setfl px s fl w)) = opened w) \<and>
     (\<forall>s w. opened (px_setfd px s w) = opened w) \<and>
     (\<forall>w. opens_one opened w (px_eventfd px w)) \<and>
     (\<forall>w. opens_one opened w (px_kqueue px w)) \<and>
     (\<forall>q s w. opened (snd (px_register px q s w)) = opened w)"

definition opens_object :: "('w \<Rightarrow> Resource set) \<Rightarrow> 'w \<Rightarrow> NativeHandle option \<times> 'w \<Rightarrow> bool" where
  "opens_object opened w r =
     (case r of
        (None, w') \<Rightarrow> opened w' = opened w
      | (Some h, w') \<Rightarrow> KernelObject h \<notin> opened w \<and> opened w' = insert (KernelObject h) (opened w))"

definition windows_resources :: "('w \<Rightarrow> Resource set) \<Rightarrow> 'w Windows \<Rightarrow> bool" where
  "windows_resources opened wn \<longleftrightarrow>
     kernel_resources opened (wn_kernel wn) \<and>
     (\<forall>w. opened (snd (wn_startup wn w)) = opened w) \<and>
     (\<forall>s w. opened (snd (wn_ioctl wn s w)) = opened w) \<and>
     (\<forall>s w. opened (wn_connReset wn s w) = opened w) \<and>
     (\<forall>s e w. opened (snd (wn_eventSelect wn s e w)) = opened w) \<and>
     (\<forall>w. opened (snd (wn_beginPeriod wn w)) = opened w) \<and>
     (\<forall>w. opened (wn_endPeriod wn w) = opened w) \<and>
     (\<forall>w. opens_object opened w (wn_createEvent wn w)) \<and>
     (\<forall>precise w. opens_object opened w (wn_createTimer wn precise w)) \<and>
     (\<forall>h w. opened (wn_closeHandle wn h w) = opened w - {KernelObject h})"

text \<open>What a handle owns, given what a waiter owns.\<close>

definition sh_owned :: "('r \<Rightarrow> Resource set) \<Rightarrow> 'r SocketHandle \<Rightarrow> Resource set" where
  "sh_owned owned h =
     (if sh_isValid h then {Descriptor (sh_handle h)} else {}) \<union> (case sh_waiter h of Some r \<Rightarrow> owned r | None \<Rightarrow> {})"

text \<open>
  The contract between the platforms and the socket: a socket and a waiter own what they opened, and destroying
  a waiter closes what it owns.
\<close>

locale socket_resources =
  fixes pf :: "('e, 'r, 'w) Platform" and owned :: "'r \<Rightarrow> Resource set" and opened :: "'w \<Rightarrow> Resource set" and lawful :: bool
  assumes kernel: "lawful \<Longrightarrow> kernel_resources opened (pf_kernel pf)"
    and create_socket: "lawful \<Longrightarrow> opens_one opened w (pf_createSocket pf w)"
    and create_waiter: "lawful \<Longrightarrow> pf_createReadWaiter pf s w = (waiter, w') \<Longrightarrow>
      (case waiter of None \<Rightarrow> opened w' = opened w | Some r \<Rightarrow> owned r \<inter> opened w = {} \<and> opened w' = opened w \<union> owned r)"
    and destroy: "lawful \<Longrightarrow> opened (pf_destroyReadWaiter pf r w) = opened w - owned r"
begin

lemma reset_closes: "lawful \<Longrightarrow> opened (snd (sh_reset pf h w)) = opened w - sh_owned owned h"
  using kernel destroy
  by (auto simp: sh_reset_def sh_owned_def sh_waiter_def closeHandle_def sh_isValid_def kernel_resources_def Let_def split: option.splits)

lemma option_keep:
  assumes "lawful"
  shows "opened (snd (setIntOption (pf_kernel pf) s opt v w)) = opened w" "opened (snd (intOption (pf_kernel pf) s opt w)) = opened w"
proof -
  have "opened (snd (k_setsockopt (pf_kernel pf) s opt v w)) = opened w" "opened (snd (k_getsockopt (pf_kernel pf) s opt w)) = opened w"
    using kernel [OF assms] by (simp_all add: kernel_resources_def)
  then show "opened (snd (setIntOption (pf_kernel pf) s opt v w)) = opened w" "opened (snd (intOption (pf_kernel pf) s opt w)) = opened w"
    by (auto simp: setIntOption_def intOption_def split: prod.splits sum.splits)
qed

lemma options_keep: "lawful \<Longrightarrow> opened (snd (applyBindOptions (pf_kernel pf) reusePort s options w)) = opened w"
  by (simp add: applyBindOptions_def Let_def case_prod_beta option_keep)

lemma bind_keep:
  assumes "lawful"
  shows "opened (snd (bindTo (pf_kernel pf) s a w)) = opened w"
    and "localAddressOf (pf_kernel pf) s w = Some (bound, w') \<Longrightarrow> opened w' = opened w"
proof -
  have k: "opened (snd (k_bind (pf_kernel pf) s a' w)) = opened w" "opened (snd (k_getsockname (pf_kernel pf) s w)) = opened w" for a'
    using kernel [OF assms] by (simp_all add: kernel_resources_def)
  show "opened (snd (bindTo (pf_kernel pf) s a w)) = opened w"
    using k(1) by (simp add: bindTo_def case_prod_beta)
  show "localAddressOf (pf_kernel pf) s w = Some (bound, w') \<Longrightarrow> opened w' = opened w"
    using k(2) by (auto simp: localAddressOf_def Option.bind_eq_Some_conv split: prod.splits sum.splits)
qed

text \<open>The handle of a new socket owns it and the waiter, which were not open before.\<close>

lemma create_owns:
  assumes "lawful" and "pf_createSocket pf w = (Inr s, w1)" and "sh_create pf s w1 = (h, w2)"
  shows "sh_isValid h" "sh_owned owned h \<inter> opened w = {}" "opened w2 = opened w \<union> sh_owned owned h"
proof -
  obtain waiter where waiter: "pf_createReadWaiter pf s w1 = (waiter, w2)"
    and h: "h = \<lparr>sh_handle = s, sh_state = Some \<lparr>hs_shutdown = False, hs_waiter = waiter\<rparr>\<rparr>"
    using assms(3) by (auto simp: sh_create_def split: prod.splits)
  have one: "s \<noteq> InvalidNativeHandle" "Descriptor s \<notin> opened w" "opened w1 = insert (Descriptor s) (opened w)"
    using create_socket [OF \<open>lawful\<close>, of w] assms(2) by (auto simp: opens_one_def)
  show "sh_isValid h" "sh_owned owned h \<inter> opened w = {}" "opened w2 = opened w \<union> sh_owned owned h"
    using create_waiter [OF \<open>lawful\<close> waiter] one
    by (auto simp: h sh_owned_def sh_isValid_def sh_waiter_def split: option.splits)
qed

lemma bind_owns:
  assumes "lawful" and r: "udp_bind pf a options w = Some (result, w')"
  shows "case result of
      Inl err \<Rightarrow> opened w' = opened w
    | Inr socket \<Rightarrow> sh_isValid (us_handle socket) \<and> sh_owned owned (us_handle socket) \<inter> opened w = {} \<and>
        opened w' = opened w \<union> sh_owned owned (us_handle socket)"
proof (cases "pf_createSocket pf w")
  case (Pair native w1)
  show ?thesis
  proof (cases native)
    case (Inl err)
    then show ?thesis
      using r Pair create_socket [OF \<open>lawful\<close>, of w] by (auto simp: udp_bind_def opens_one_def)
  next
    case (Inr s)
    obtain h w2 where h: "sh_create pf s w1 = (h, w2)"
      by fastforce
    note own = create_owns [OF \<open>lawful\<close> Pair [unfolded Inr] h]
    obtain err w3 where opt: "applyBindOptions (pf_kernel pf) (pf_reusePort pf) (sh_handle h) options w2 = (err, w3)"
      by fastforce
    then have w3: "opened w3 = opened w2"
      using options_keep [OF \<open>lawful\<close>] by (metis snd_conv)
    obtain err' w4 where bnd: "bindTo (pf_kernel pf) (sh_handle h) a w3 = (err', w4)"
      by fastforce
    then have w4: "opened w4 = opened w2"
      using bind_keep(1) [OF \<open>lawful\<close>] w3 by (metis snd_conv)
    have undone: "opened (snd (sh_reset pf h w0)) = opened w" if "opened w0 = opened w2" for w0
      using that own(2,3) reset_closes [OF \<open>lawful\<close>, of h w0] by blast
    have r': "(case err of Some err \<Rightarrow> Some (Inl err, snd (sh_reset pf h w3))
        | None \<Rightarrow> (case err' of Some err \<Rightarrow> Some (Inl err, snd (sh_reset pf h w4))
            | None \<Rightarrow> do { (bound, w) \<leftarrow> localAddressOf (pf_kernel pf) (sh_handle h) w4;
                 case bound of Inl err \<Rightarrow> Some (Inl err, snd (sh_reset pf h w))
                 | Inr local \<Rightarrow> Some (Inr \<lparr>us_handle = h, us_localAddress = local\<rparr>, w) })) = Some (result, w')"
      using r by (cases err) (simp_all add: udp_bind_def Pair Inr h opt bnd)
    show ?thesis
    proof (cases "err = None \<and> err' = None")
      case True
      then obtain bound w5 where b: "localAddressOf (pf_kernel pf) (sh_handle h) w4 = Some (bound, w5)"
        using r' by (auto simp: Option.bind_eq_Some_conv)
      then have "opened w5 = opened w2"
        using bind_keep(2) [OF \<open>lawful\<close>] w4 by simp
      then show ?thesis
        using r' True b own undone [of w5] by (cases bound) auto
    next
      case False
      then show ?thesis
        using r' undone [OF w3] undone [OF w4] by (cases err; cases err') auto
    qed
  qed
qed

lemma bind_closed:
  assumes "lawful" and "udp_bind pf a options w = Some (result, w')"
  shows "case result of
      Inl err \<Rightarrow> opened w' = opened w
    | Inr socket \<Rightarrow> opened w \<subset> opened w' \<and> opened (snd (sh_reset pf (us_handle socket) w')) = opened w"
proof (cases result)
  case (Inr socket)
  then have "sh_isValid (us_handle socket)"
    using bind_owns [OF assms] by simp
  then have "sh_owned owned (us_handle socket) \<noteq> {}"
    by (simp add: sh_owned_def)
  then show ?thesis
    using bind_owns [OF assms] reset_closes [OF \<open>lawful\<close>, of "us_handle socket" w'] Inr by auto
qed (use bind_owns [OF assms] in simp)

end

lemma opens_oneD:
  "opens_one opened w (Inl code, w') \<Longrightarrow> opened w' = opened w"
  "opens_one opened w (Inr s, w') \<Longrightarrow> s \<noteq> InvalidNativeHandle \<and> Descriptor s \<notin> opened w \<and> opened w' = insert (Descriptor s) (opened w)"
  by (simp_all add: opens_one_def)

lemma posix_setNonBlocking_keep:
  assumes "posix_resources opened px"
  shows "opened (snd (posix_setNonBlocking px s w)) = opened w"
proof -
  have "opened (snd (px_getfl px s w)) = opened w" "opened (snd (px_setfl px s fl w0)) = opened w0" for fl w0
    using assms by (simp_all add: posix_resources_def)
  then show ?thesis
    by (auto simp: posix_setNonBlocking_def case_prod_beta split: sum.splits)
qed

lemma posix_createSocket_opens:
  assumes "posix_resources opened px"
  shows "opens_one opened w (posix_createSocket mac px w)"
proof (cases "k_socket (px_kernel px) w")
  case (Pair native w1)
  have k: "opens_one opened w (native, w1)" "opened (k_close (px_kernel px) s w0) = opened w0 - {Descriptor s}"
    "opened (snd (k_setsockopt (px_kernel px) s opt v w0)) = opened w0" "opened (px_setfd px s w0) = opened w0" for s w0 opt v
    using assms Pair [symmetric] by (simp_all add: posix_resources_def kernel_resources_def)
  show ?thesis
  proof (cases native)
    case (Inr s)
    let ?w = "if mac then px_setfd px s w1 else w1"
    obtain err w2 where n: "posix_setNonBlocking px s ?w = (err, w2)"
      by fastforce
    then have "opened w2 = opened w1"
      using posix_setNonBlocking_keep [OF assms, of s ?w] k(4) by (simp split: if_splits)
    then show ?thesis
      using k(1) [unfolded Inr, THEN opens_oneD(2)] k(2,3) n
      by (auto simp: posix_createSocket_def Pair Inr Let_def opens_one_def split: option.splits)
  qed (use k(1) in \<open>auto simp: posix_createSocket_def Pair opens_one_def\<close>)
qed

lemma linux_createReadWaiter_owns:
  assumes "posix_resources opened px" and "linux_createReadWaiter px s w = (waiter, w')"
  shows "case waiter of None \<Rightarrow> opened w' = opened w
    | Some r \<Rightarrow> {Descriptor (lw_interrupt r)} \<inter> opened w = {} \<and> opened w' = opened w \<union> {Descriptor (lw_interrupt r)}"
proof -
  have "opens_one opened w (px_eventfd px w)"
    using assms(1) by (simp add: posix_resources_def)
  then show ?thesis
    using assms(2) by (auto simp: linux_createReadWaiter_def opens_one_def split: prod.splits sum.splits)
qed

lemma kqueue_createReadWaiter_owns:
  assumes "posix_resources opened px" and "kqueue_createReadWaiter px s w = (waiter, w')"
  shows "case waiter of None \<Rightarrow> opened w' = opened w
    | Some r \<Rightarrow> {Descriptor (kw_queue r)} \<inter> opened w = {} \<and> opened w' = opened w \<union> {Descriptor (kw_queue r)}"
proof -
  have "opens_one opened w (px_kqueue px w)" "opened (snd (px_register px q s w0)) = opened w0"
    "opened (k_close (px_kernel px) q w0) = opened w0 - {Descriptor q}" for q w0
    using assms(1) by (simp_all add: posix_resources_def kernel_resources_def)
  then show ?thesis
    using assms(2)
    by (auto simp: kqueue_createReadWaiter_def opens_one_def case_prod_beta split: prod.splits sum.splits option.splits)
qed

interpretation linux_sockets: socket_resources "linux_platform px others" "\<lambda>r. {Descriptor (lw_interrupt r)}" opened "posix_resources opened px"
  for px others opened
  using posix_createSocket_opens [of opened px _ False] linux_createReadWaiter_owns [of opened px]
  by unfold_locales
     (auto simp: linux_platform_def linux_destroyReadWaiter_def posix_resources_def [of opened px] kernel_resources_def [of opened "px_kernel px"])

interpretation macos_sockets: socket_resources "macos_platform px others" "\<lambda>r. {Descriptor (kw_queue r)}" opened "posix_resources opened px"
  for px others opened
  using posix_createSocket_opens [of opened px _ True] kqueue_createReadWaiter_owns [of opened px]
  by unfold_locales
     (auto simp: macos_platform_def kqueue_destroyReadWaiter_def posix_resources_def [of opened px] kernel_resources_def [of opened "px_kernel px"])

text \<open>What a waiter of Windows owns: its two events and its timer, as far as they could be created.\<close>

definition ww_owned :: "WindowsWaiter \<Rightarrow> Resource set" where
  "ww_owned r = KernelObject ` (set_option (ww_readable r) \<union> set_option (ww_interrupt r) \<union> set_option (wt_handle (ww_timer r)))"

lemma opens_objectD:
  "opens_object opened w (h, w') \<Longrightarrow> KernelObject ` set_option h \<inter> opened w = {} \<and> opened w' = opened w \<union> KernelObject ` set_option h"
  by (cases h) (simp_all add: opens_object_def)

lemma windows_resourcesD:
  assumes "windows_resources opened wn"
  shows "kernel_resources opened (wn_kernel wn)" "opened (snd (wn_startup wn w)) = opened w" "opened (snd (wn_ioctl wn s w)) = opened w"
    "opened (wn_connReset wn s w) = opened w" "opened (snd (wn_eventSelect wn s e w)) = opened w"
    "opened (snd (wn_beginPeriod wn w)) = opened w" "opened (wn_endPeriod wn w) = opened w"
    "wn_createEvent wn w = (h, w') \<Longrightarrow> KernelObject ` set_option h \<inter> opened w = {} \<and> opened w' = opened w \<union> KernelObject ` set_option h"
    "wn_createTimer wn precise w = (h, w') \<Longrightarrow> KernelObject ` set_option h \<inter> opened w = {} \<and> opened w' = opened w \<union> KernelObject ` set_option h"
    "opened (wn_closeHandle wn obj w) = opened w - {KernelObject obj}"
proof -
  have "opens_object opened w (wn_createEvent wn w)" "opens_object opened w (wn_createTimer wn precise w)"
    using assms by (simp_all add: windows_resources_def)
  then show "wn_createEvent wn w = (h, w') \<Longrightarrow> KernelObject ` set_option h \<inter> opened w = {} \<and> opened w' = opened w \<union> KernelObject ` set_option h"
    "wn_createTimer wn precise w = (h, w') \<Longrightarrow> KernelObject ` set_option h \<inter> opened w = {} \<and> opened w' = opened w \<union> KernelObject ` set_option h"
    using opens_objectD [of opened w h w'] by simp_all
qed (use assms in \<open>simp_all add: windows_resources_def\<close>)

lemma timer_create_owns:
  assumes "windows_resources opened wn" and "timer_create wn w = (t, w')"
  shows "KernelObject ` set_option (wt_handle t) \<inter> opened w = {} \<and> opened w' = opened w \<union> KernelObject ` set_option (wt_handle t)"
proof (cases "wn_createTimer wn True w")
  case (Pair h w1)
  obtain h2 w2 where c2: "wn_createTimer wn False w1 = (h2, w2)"
    by fastforce
  obtain raised w3 where c3: "wn_beginPeriod wn w2 = (raised, w3)"
    by fastforce
  have "opened w3 = opened w2"
    using windows_resourcesD(6) [OF assms(1), of w2] c3 by simp
  then show ?thesis
    using windows_resourcesD(9) [OF assms(1) Pair] windows_resourcesD(9) [OF assms(1) c2] assms(2) c2 c3
    by (cases h) (auto simp: timer_create_def Pair)
qed

lemma windows_destroyReadWaiter_closes:
  assumes "windows_resources opened wn"
  shows "opened (windows_destroyReadWaiter wn r w) = opened w - ww_owned r"
proof -
  have "opened (timer_destroy wn t w) = opened w - KernelObject ` set_option (wt_handle t)" for t w
    by (cases "wt_handle t") (simp_all add: timer_destroy_def Let_def windows_resourcesD [OF assms])
  then show ?thesis
    by (cases "ww_readable r"; cases "ww_interrupt r") (auto simp: windows_destroyReadWaiter_def Let_def ww_owned_def windows_resourcesD [OF assms])
qed

lemma windows_newWaiter_owns:
  assumes "windows_resources opened wn" and "windows_newWaiter wn s w = (r, w')"
  shows "ww_owned r \<inter> opened w = {} \<and> opened w' = opened w \<union> ww_owned r"
proof -
  obtain h1 w1 h2 w2 t w3 where c1: "wn_createEvent wn w = (h1, w1)" and c2: "wn_createEvent wn w1 = (h2, w2)"
    and c3: "timer_create wn w2 = (t, w3)"
    by (metis surj_pair)
  note own = windows_resourcesD(8) [OF assms(1) c1] windows_resourcesD(8) [OF assms(1) c2] timer_create_owns [OF assms(1) c3]
  show ?thesis
  proof (cases h1)
    case None
    then show ?thesis
      using own assms(2) by (auto simp: windows_newWaiter_def c1 c2 c3 ww_owned_def)
  next
    case (Some h)
    obtain failed w4 where c4: "wn_eventSelect wn s (Some h) w3 = (failed, w4)"
      by fastforce
    then have "opened w4 = opened w3"
      using windows_resourcesD(5) [OF assms(1), of s "Some h" w3] by simp
    then show ?thesis
      using own assms(2) Some windows_resourcesD(10) [OF assms(1), of h w4]
      by (auto simp: windows_newWaiter_def c1 c2 c3 c4 ww_owned_def split: if_splits)
  qed
qed

lemma windows_createReadWaiter_owns:
  assumes "windows_resources opened wn" and "windows_createReadWaiter wn s w = (waiter, w')"
  shows "case waiter of None \<Rightarrow> opened w' = opened w | Some r \<Rightarrow> ww_owned r \<inter> opened w = {} \<and> opened w' = opened w \<union> ww_owned r"
proof (cases "windows_newWaiter wn s w")
  case (Pair r w1)
  then show ?thesis
    using assms(2) windows_newWaiter_owns [OF assms(1) Pair] windows_destroyReadWaiter_closes [OF assms(1), of r w1]
    by (auto simp: windows_createReadWaiter_def split: if_splits)
qed

lemma windows_createSocket_opens:
  assumes "windows_resources opened wn"
  shows "opens_one opened w (windows_createSocket wn w)"
proof -
  obtain startup w1 native w2 where c1: "wn_startup wn w = (startup, w1)" and c2: "k_socket (wn_kernel wn) w1 = (native, w2)"
    by (metis surj_pair)
  have w1: "opened w1 = opened w"
    using windows_resourcesD(2) [OF assms, of w] c1 by simp
  have k: "opens_one opened w1 (native, w2)" "opened (k_close (wn_kernel wn) s w0) = opened w0 - {Descriptor s}" for s w0
    using windows_resourcesD(1) [OF assms] c2 [symmetric] by (simp_all add: kernel_resources_def)
  show ?thesis
  proof (cases native)
    case (Inr s)
    obtain err w3 where c3: "wn_ioctl wn s w2 = (err, w3)"
      by fastforce
    then have "opened w3 = opened w2"
      using windows_resourcesD(3) [OF assms, of s w2] by simp
    then show ?thesis
      using k(1) [unfolded Inr, THEN opens_oneD(2)] k(2) w1
      by (cases err) (auto simp: windows_createSocket_def ensureInitialized_def windows_setNonBlocking_def c1 c2 c3 Inr opens_one_def
        windows_resourcesD(4) [OF assms])
  qed (use k(1) w1 in \<open>auto simp: windows_createSocket_def ensureInitialized_def c1 c2 opens_one_def\<close>)
qed

interpretation windows_sockets: socket_resources "windows_platform wn others" ww_owned opened "windows_resources opened wn"
  for wn others opened
  using windows_createSocket_opens [of opened wn] windows_createReadWaiter_owns [of opened wn] windows_destroyReadWaiter_closes [of opened wn]
  by unfold_locales (auto simp: windows_platform_def windows_resourcesD(1))

text \<open>C37: Binding a socket leaks nothing, on no platform and on no error path: when it fails everything that was opened on
  the way is closed again; when it succeeds exactly what the handle of the socket owns was opened, and
  destroying the handle closes exactly that.
\<close>

theorem bind_no_leak:
  shows "(posix_resources opened px \<and> udp_bind (linux_platform px others) a options w = Some (rl, w') \<longrightarrow>
      (case rl of Inl err \<Rightarrow> opened w' = opened w
       | Inr socket \<Rightarrow> opened w \<subset> opened w' \<and> opened (snd (sh_reset (linux_platform px others) (us_handle socket) w')) = opened w)) \<and>
    (posix_resources opened px \<and> udp_bind (macos_platform px others) a options w = Some (rm, w') \<longrightarrow>
      (case rm of Inl err \<Rightarrow> opened w' = opened w
       | Inr socket \<Rightarrow> opened w \<subset> opened w' \<and> opened (snd (sh_reset (macos_platform px others) (us_handle socket) w')) = opened w)) \<and>
    (windows_resources opened wn \<and> udp_bind (windows_platform wn others) a options w = Some (rw, w') \<longrightarrow>
      (case rw of Inl err \<Rightarrow> opened w' = opened w
       | Inr socket \<Rightarrow> opened w \<subset> opened w' \<and> opened (snd (sh_reset (windows_platform wn others) (us_handle socket) w')) = opened w))"
  using linux_sockets.bind_closed [of opened px others a options w rl w'] macos_sockets.bind_closed [of opened px others a options w rm w']
    windows_sockets.bind_closed [of opened wn others a options w rw w']
  by blast


section \<open>Examples\<close>

text \<open>A system where a signal interrupts the first wait, and in which nothing arrives.\<close>

definition demo_posix :: "nat Posix" where
  "demo_posix =
     \<lparr>px_kernel = demo_kernel posixErrors EINTR EAGAIN, px_O_NONBLOCK = 2048, px_getfl = (\<lambda>s w. (Inr 2, w)),
      px_setfl = (\<lambda>s fl w. (None, w)), px_setfd = (\<lambda>s w. w), px_eventfd = (\<lambda>w. (Inr 4, w)),
      px_ppoll = (\<lambda>s e left count w. if w = 0 then (PollFailed EINTR, count, 1)
        else if count = 0 then (PollTimeout, 0, w + nat (fst left * 1000000000 + snd left)) else (PollReady False True, count, w)),
      px_kqueue = (\<lambda>w. (Inr 4, w)), px_register = (\<lambda>q s w. (None, w)),
      px_kevent = (\<lambda>q left triggered w. if w = 0 then (Inl EINTR, triggered, 1)
        else if triggered then (Inr [EVFILT_USER], False, w) else (Inr [], False, w + nat (fst left * 1000000000 + snd left)))\<rparr>"

text \<open>A timer of Windows that fires as soon as it is set, when the clock is moved to its time.\<close>

definition demo_windows :: "nat Windows" where
  "demo_windows =
     \<lparr>wn_kernel = demo_kernel windowsErrors WSAEINTR WSAEWOULDBLOCK, wn_startup = (\<lambda>w. (0, w)), wn_ioctl = (\<lambda>s w. (None, w)),
      wn_connReset = (\<lambda>s w. w), wn_createEvent = (\<lambda>w. (Some 5, w)), wn_eventSelect = (\<lambda>s e w. (False, w)),
      wn_closeHandle = (\<lambda>h w. w), wn_createTimer = (\<lambda>precise w. (Some 6, w)), wn_beginPeriod = (\<lambda>w. (True, w)), wn_endPeriod = (\<lambda>w. w),
      wn_setTimer = (\<lambda>h units w. w + nat (100 * units)),
      wn_wait = (\<lambda>expired signalled w. if signalled then (WaitInterrupt, False, w) else if expired then (WaitTimeout, False, w) else (WaitTimer, False, w))\<rparr>"

definition demo_signals :: "nat \<Rightarrow> nat" where
  "demo_signals w = (if w = 0 then 1 else 0)"

definition demo_handle :: "'r \<Rightarrow> 'r SocketHandle" where
  "demo_handle r = \<lparr>sh_handle = 3, sh_state = Some \<lparr>hs_shutdown = False, hs_waiter = Some r\<rparr>\<rparr>"

lemma demo_kernel_laws:
  "signals_end demo_signals (demo_kernel posixErrors EINTR EAGAIN)" "untimed (demo_kernel posixErrors EINTR EAGAIN)"
  "signals_end demo_signals (demo_kernel windowsErrors WSAEINTR WSAEWOULDBLOCK)" "untimed (demo_kernel windowsErrors WSAEINTR WSAEWOULDBLOCK)"
  by (auto simp: signals_end_def interrupted_by_def untimed_def demo_kernel_def demo_signals_def posixErrors_def windowsErrors_def
      posix_isInterrupted_def windows_isInterrupted_def posix_mapNativeError_def windows_mapNativeError_def)

lemma demo_laws: "linux_laws int demo_signals demo_posix" "macos_laws int demo_signals demo_posix" "windows_laws int demo_signals int demo_windows"
proof -
  show "linux_laws int demo_signals demo_posix"
    using demo_kernel_laws by (auto simp: linux_laws_def polls_def demo_posix_def demo_kernel_def demo_signals_def split: if_splits)
  show "macos_laws int demo_signals demo_posix"
    using demo_kernel_laws by (auto simp: macos_laws_def kevents_def demo_posix_def demo_kernel_def demo_signals_def split: if_splits)
  show "windows_laws int demo_signals int demo_windows"
    using demo_kernel_laws by (auto simp: windows_laws_def waits_for_def demo_windows_def demo_kernel_def split: if_splits)
qed

lemma demo_handle_simps [simp]: "sh_isValid (demo_handle r)" "sh_waiter (demo_handle r) = Some r"
  by (simp_all add: demo_handle_def sh_isValid_def sh_waiter_def InvalidNativeHandle_def)

theorem interrupt_ends_receive_witness:
  "\<exists>result h' w'. receiveFrom (linux_platform demo_posix (\<lambda>w. ([], w))) 1500 5
      (sh_interrupt (linux_platform demo_posix (\<lambda>w. ([], w))) (demo_handle \<lparr>lw_socket = 3, lw_interrupt = 4, lw_count = 0\<rparr>)) 0 =
    Some (result, h', w') \<and> result \<noteq> Inl Timeout"
  using interrupt_ends_receive [of 5 int demo_signals demo_posix "demo_handle \<lparr>lw_socket = 3, lw_interrupt = 4, lw_count = 0\<rparr>" "\<lambda>w. ([], w)" 1500 0]
  by (simp add: demo_laws)

lemma demo_receive_times_out:
  "receiveFrom (linux_platform demo_posix (\<lambda>w. ([], w))) 1500 5 (demo_handle \<lparr>lw_socket = 3, lw_interrupt = 4, lw_count = 0\<rparr>) 0 =
   Some (Inl Timeout, demo_handle \<lparr>lw_socket = 3, lw_interrupt = 4, lw_count = 0\<rparr>, 5000)"
proof -
  let ?r = "\<lparr>lw_socket = 3, lw_interrupt = 4, lw_count = 0\<rparr>"
  have "linux_wait demo_posix 5000 ?r 1 = Some (Some Timeout, ?r, 5000)"
    by (subst linux_wait.simps) (simp add: demo_posix_def demo_kernel_def remainingUntil_def)
  then have wait: "linux_wait demo_posix 5000 ?r 0 = Some (Some Timeout, ?r, 5000)"
    by (subst linux_wait.simps) (simp add: demo_posix_def demo_kernel_def)
  have "receiveDatagram (px_kernel demo_posix) 3 1500 0 = Some (Inl WouldBlock, 0)"
    by (subst receiveDatagram.simps)
       (simp add: demo_posix_def demo_kernel_def posixErrors_def posix_isInterrupted_def callFailed_def posix_isWouldBlock_def)
  moreover have "k_now (px_kernel demo_posix) 0 = (0, 0)"
    by (simp add: demo_posix_def demo_kernel_def)
  ultimately show ?thesis
    using wait
    by (simp add: receiveFrom_def udp_receiveLoop.simps Let_def demo_handle_def sh_isShutdown_def sh_noteReceiveAttempt_def sh_onWaiter_def
        sh_waitReadable_def sh_isValid_def InvalidNativeHandle_def linux_platform_def linux_readWaiter_def)
qed

theorem timeout_not_early_witness:
  "\<exists>h w. receiveFrom (linux_platform demo_posix (\<lambda>w. ([], w))) 1500 5 (demo_handle \<lparr>lw_socket = 3, lw_interrupt = 4, lw_count = 0\<rparr>) 0 =
     Some (Inl Timeout, h, w) \<and> 5 * 1000 \<le> int w"
proof -
  have "steady int (linux_platform demo_posix (\<lambda>w. ([], w)))"
    by (simp add: steady_def linux_platform_def demo_posix_def demo_kernel_def)
  then show ?thesis
    using timeout_not_early [of 5 int demo_signals demo_posix "\<lambda>w. ([], w)" 1500 "demo_handle \<lparr>lw_socket = 3, lw_interrupt = 4, lw_count = 0\<rparr>" 0]
      demo_receive_times_out demo_laws(1) by (auto simp: demo_posix_def demo_kernel_def)
qed

text \<open>
  A system whose world is what is open. There is one descriptor for a socket and one for a waiter; the port 1 is
  in use.
\<close>

definition demo_descriptor :: "'e \<Rightarrow> NativeHandle \<Rightarrow> Resource set \<Rightarrow> ('e + NativeHandle) \<times> Resource set" where
  "demo_descriptor full s w = (if Descriptor s \<in> w then (Inl full, w) else (Inr s, insert (Descriptor s) w))"

definition demo_object :: "NativeHandle \<Rightarrow> Resource set \<Rightarrow> NativeHandle option \<times> Resource set" where
  "demo_object h w = (if KernelObject h \<in> w then (None, w) else (Some h, insert (KernelObject h) w))"

definition demo_open_kernel :: "'e NativeErrors \<Rightarrow> 'e \<Rightarrow> 'e \<Rightarrow> ('e, Resource set) Kernel" where
  "demo_open_kernel errors full inUse =
     \<lparr>k_errors = errors, k_socket = demo_descriptor full 3, k_close = (\<lambda>handle w. w - {Descriptor handle}), k_shutdown = (\<lambda>handle w. w),
      k_setsockopt = (\<lambda>handle name v w. (None, w)), k_getsockopt = (\<lambda>handle name w. (Inr 0, w)),
      k_bind = (\<lambda>handle a w. (if sin_port a = [0, 1] then Some inUse else None, w)),
      k_getsockname = (\<lambda>handle w. (Inr \<lparr>sin_port = [0, 7], sin_addr = [0, 0, 0, 0]\<rparr>, w)),
      k_sendto = (\<lambda>handle to data w. (Inr (length data), w)), k_sendmsg = (\<lambda>handle to parts w. (Inr (length (concat parts)), w)),
      k_recvmsg = (\<lambda>handle n w. (Inl full, w)), k_now = (\<lambda>w. (0, w))\<rparr>"

definition demo_open_posix :: "Resource set Posix" where
  "demo_open_posix =
     \<lparr>px_kernel = demo_open_kernel posixErrors (OtherErrno 24) EADDRINUSE, px_O_NONBLOCK = 2048, px_getfl = (\<lambda>s w. (Inr 2, w)),
      px_setfl = (\<lambda>s fl w. (None, w)), px_setfd = (\<lambda>s w. w), px_eventfd = demo_descriptor (OtherErrno 24) 4,
      px_ppoll = (\<lambda>s e left count w. (PollTimeout, count, w)), px_kqueue = demo_descriptor (OtherErrno 24) 4,
      px_register = (\<lambda>q s w. (None, w)), px_kevent = (\<lambda>q left triggered w. (Inr [], triggered, w))\<rparr>"

definition demo_open_windows :: "Resource set Windows" where
  "demo_open_windows =
     \<lparr>wn_kernel = demo_open_kernel windowsErrors (OtherWsaError 10024) WSAEADDRINUSE, wn_startup = (\<lambda>w. (0, w)), wn_ioctl = (\<lambda>s w. (None, w)),
      wn_connReset = (\<lambda>s w. w), wn_createEvent = (\<lambda>w. if KernelObject 5 \<in> w then demo_object 6 w else demo_object 5 w),
      wn_eventSelect = (\<lambda>s e w. (False, w)), wn_closeHandle = (\<lambda>h w. w - {KernelObject h}), wn_createTimer = (\<lambda>precise w. demo_object 7 w),
      wn_beginPeriod = (\<lambda>w. (True, w)), wn_endPeriod = (\<lambda>w. w), wn_setTimer = (\<lambda>h units w. w),
      wn_wait = (\<lambda>expired signalled w. (WaitTimeout, signalled, w))\<rparr>"

lemma demo_open_laws: "posix_resources (\<lambda>w. w) demo_open_posix" "windows_resources (\<lambda>w. w) demo_open_windows"
  by (auto simp: posix_resources_def windows_resources_def kernel_resources_def opens_one_def opens_object_def demo_open_posix_def
      demo_open_windows_def demo_open_kernel_def demo_descriptor_def demo_object_def InvalidNativeHandle_def)

definition demo_options :: BindOptions where
  "demo_options = \<lparr>enableBroadcast = True, reuseAddress = True, receiveBufferSize = 0, sendBufferSize = 0\<rparr>"

lemmas demo_bind_defs =
  udp_bind_def windows_platform_def linux_platform_def demo_options_def windows_createSocket_def posix_createSocket_def
  posix_setNonBlocking_def windows_setNonBlocking_def ensureInitialized_def sh_create_def windows_createReadWaiter_def windows_newWaiter_def
  linux_createReadWaiter_def timer_create_def demo_open_windows_def demo_open_posix_def demo_open_kernel_def demo_descriptor_def demo_object_def
  applyBindOptions_def setIntOption_def bindTo_def toSockaddr_def be16_def localAddressOf_def fromSockaddr_def lastError_def
  windowsErrors_def windows_mapNativeError_def sh_reset_def windows_destroyReadWaiter_def timer_destroy_def closeHandle_def sh_isValid_def
  InvalidNativeHandle_def Let_def readUint16_def readUint32_def fetch_def

lemma demo_bind:
  "udp_bind (windows_platform demo_open_windows (\<lambda>w. ([], w))) \<lparr>sa_ip = 0, sa_port = 1\<rparr> demo_options {} = Some (Inl AddressInUse, {})"
  "\<exists>socket w'. udp_bind (linux_platform demo_open_posix (\<lambda>w. ([], w))) \<lparr>sa_ip = 0, sa_port = 2\<rparr> demo_options {} = Some (Inr socket, w')"
  by (auto simp: demo_bind_defs)

theorem bind_no_leak_witness:
  "(\<exists>w'. udp_bind (windows_platform demo_open_windows (\<lambda>w. ([], w))) \<lparr>sa_ip = 0, sa_port = 1\<rparr> demo_options {} =
      Some (Inl AddressInUse, w') \<and> w' = {}) \<and>
   (\<exists>socket w'. udp_bind (linux_platform demo_open_posix (\<lambda>w. ([], w))) \<lparr>sa_ip = 0, sa_port = 2\<rparr> demo_options {} =
      Some (Inr socket, w') \<and> {} \<subset> w' \<and> snd (sh_reset (linux_platform demo_open_posix (\<lambda>w. ([], w))) (us_handle socket) w') = {})"
proof
  obtain socket w' where b: "udp_bind (linux_platform demo_open_posix (\<lambda>w. ([], w))) \<lparr>sa_ip = 0, sa_port = 2\<rparr> demo_options {} = Some (Inr socket, w')"
    using demo_bind(2) by blast
  show "\<exists>socket w'. udp_bind (linux_platform demo_open_posix (\<lambda>w. ([], w))) \<lparr>sa_ip = 0, sa_port = 2\<rparr> demo_options {} =
      Some (Inr socket, w') \<and> {} \<subset> w' \<and> snd (sh_reset (linux_platform demo_open_posix (\<lambda>w. ([], w))) (us_handle socket) w') = {}"
    using bind_no_leak [of "\<lambda>w. w" demo_open_posix "\<lambda>w. ([], w)" "\<lparr>sa_ip = 0, sa_port = 2\<rparr>" demo_options "{}" "Inr socket" w']
      demo_open_laws(1) b by auto
  show "\<exists>w'. udp_bind (windows_platform demo_open_windows (\<lambda>w. ([], w))) \<lparr>sa_ip = 0, sa_port = 1\<rparr> demo_options {} =
      Some (Inl AddressInUse, w') \<and> w' = {}"
    using demo_bind(1) by blast
qed

end
