(* ===== verification/Log.thy ===== *)
theory Log
  imports Core
begin

text \<open>
  \<open>NetLinkLog.h\<close> and \<open>NetLinkLog.cpp\<close>: the sink of a thread and the scopes that give it one. A sink is a value; the
  lines it was handed and the number of lines that were formatted are part of the state. The lemma is that
  nested scopes need not know of each other: a line goes to the sink of the thread, or else to the one of the
  outermost scope that has one, nothing else is formatted, and the thread is left with the sink it had.
\<close>

record 's Logger =
  lg_sink :: "'s option"
  lg_lines :: "('s \<times> LogLevel \<times> bytes) list"
  lg_formatted :: nat

definition setThreadLogSink :: "'s option \<Rightarrow> 's Logger \<Rightarrow> 's Logger" where
  "setThreadLogSink sink l = l\<lparr>lg_sink := sink\<rparr>"

definition hasThreadLogSink :: "'s Logger \<Rightarrow> bool" where
  "hasThreadLogSink l \<longleftrightarrow> lg_sink l \<noteq> None"

definition writeLog :: "LogLevel \<Rightarrow> bytes \<Rightarrow> 's Logger \<Rightarrow> 's Logger" where
  "writeLog level line l = (case lg_sink l of Some s \<Rightarrow> l\<lparr>lg_lines := lg_lines l @ [(s, level, line)]\<rparr> | None \<Rightarrow> l)"

text \<open>The macro \<open>NETLINK_LOG\<close>, which formats the line only if there is a sink.\<close>

definition netlink_log :: "LogLevel \<Rightarrow> bytes \<Rightarrow> 's Logger \<Rightarrow> 's Logger" where
  "netlink_log level line l = (if hasThreadLogSink l then writeLog level line (l\<lparr>lg_formatted := lg_formatted l + 1\<rparr>) else l)"

definition logScope_begin :: "'s option \<Rightarrow> 's Logger \<Rightarrow> bool \<times> 's Logger" where
  "logScope_begin sink l =
     (let owns = (sink \<noteq> None \<and> \<not> hasThreadLogSink l) in (owns, if owns then setThreadLogSink sink l else l))"

definition logScope_end :: "bool \<Rightarrow> 's Logger \<Rightarrow> 's Logger" where
  "logScope_end owns l = (if owns then setThreadLogSink None l else l)"

text \<open>What a thread does: lines and scopes with more of both.\<close>

datatype 's Activity = Line LogLevel bytes | Scope "'s option" "'s Activity list"

fun log_run :: "'s Activity \<Rightarrow> 's Logger \<Rightarrow> 's Logger" and log_runs :: "'s Activity list \<Rightarrow> 's Logger \<Rightarrow> 's Logger" where
  "log_run (Line level line) l = netlink_log level line l"
| "log_run (Scope sink acts) l = (let (owns, l) = logScope_begin sink l in logScope_end owns (log_runs acts l))"
| "log_runs [] l = l"
| "log_runs (a # acts) l = log_runs acts (log_run a l)"

text \<open>The lines of an activity with the sink they are for: the one that is there, or the outermost one.\<close>

fun lines_for :: "'s option \<Rightarrow> 's Activity \<Rightarrow> ('s \<times> LogLevel \<times> bytes) list" where
  "lines_for sink (Line level line) = (case sink of Some s \<Rightarrow> [(s, level, line)] | None \<Rightarrow> [])"
| "lines_for sink (Scope inner acts) = concat (map (lines_for (case sink of Some s \<Rightarrow> Some s | None \<Rightarrow> inner)) acts)"

lemma log_outermost:
  "log_run a l = l\<lparr>lg_lines := lg_lines l @ lines_for (lg_sink l) a, lg_formatted := lg_formatted l + length (lines_for (lg_sink l) a)\<rparr>"
  "log_runs acts l = l\<lparr>lg_lines := lg_lines l @ concat (map (lines_for (lg_sink l)) acts),
     lg_formatted := lg_formatted l + length (concat (map (lines_for (lg_sink l)) acts))\<rparr>"
proof (induction a l and acts l rule: log_run_log_runs.induct)
  case (2 sink acts l)
  show ?case
  proof (cases "sink \<noteq> None \<and> lg_sink l = None")
    case True
    then have "logScope_begin sink l = (True, l\<lparr>lg_sink := sink\<rparr>)"
      by (simp add: logScope_begin_def hasThreadLogSink_def setThreadLogSink_def)
    then show ?thesis
      using 2 [of "(True, l\<lparr>lg_sink := sink\<rparr>)" True "l\<lparr>lg_sink := sink\<rparr>"] True
      by (cases l) (simp add: logScope_end_def setThreadLogSink_def)
  next
    case False
    then have "logScope_begin sink l = (False, l)"
      by (auto simp: logScope_begin_def hasThreadLogSink_def)
    then show ?thesis
      using 2 [of "(False, l)" False l] False by (auto simp: logScope_end_def split: option.splits)
  qed
qed (auto simp: netlink_log_def writeLog_def hasThreadLogSink_def split: option.splits)

end
