(* ===== verification/Spec2Isabelle.thy ===== *)
theory Spec2Isabelle
  imports LinkDelivery EngineShutdown Discovery Scheduler Doorbell CCallbacks NetworkInformationMac UdpSocket Log
begin

text \<open>
  NetLink is a C++ library that finds the other instances of an application on a local network and exchanges messages
  with them over UDP. This development models it from the wire format up to the C interface and proves the properties
  each part relies on. File names below are relative to \<open>src/src/internal/\<close> unless they start with \<open>src/\<close>.

  \<^bold>\<open>The program.\<close> An application starts the core (\<open>Core/NetLinkCore.cpp\<close>), which owns an engine with a thread of its own, an event
  thread that runs the callbacks, and the choice of the network adapter. The engine (\<open>Engine/NetworkEngine.cpp\<close>) runs steps: it takes
  the commands and messages the application left in the mailbox (\<open>Channel/Mailbox.h\<close>), looks after the adapter and its sockets, receives
  datagrams, serves timers, and sends what the scheduler (\<open>Channel/SendScheduler.h\<close>) lets it send. Datagrams are either beacons, which the
  discovery (\<open>Discovery/\<close>) keeps a table of, or packets of a link (\<open>Channel/Reliability/ReliableLink.cpp\<close>), one for each session. A link has
  four lanes: Control, Reliable and Bulk are acknowledged and in order, Media is not. Sessions are opened and closed with control messages
  (\<open>Session/ControlMessage.h\<close>). What happened becomes events, which the event thread dispatches to the callbacks of C++ or C.

  \<^bold>\<open>Conventions.\<close> A class is a record of its members and an operation a function from the state to the new one. Machine integers are words
  of their width, \<open>size_t\<close> is \<open>nat\<close>, times are \<open>int\<close> in nanoseconds and durations in the unit the code has. An access outside a buffer,
  and a loop that does not return, is \<open>None\<close>; a \<open>std::optional\<close> within such a result is nested. A \<open>double\<close> is a rational number with the
  rounding written out (\<open>Double\<close>), a \<open>std::map\<close> an association list sorted by its keys (\<open>OrderedMap\<close>). What another thread can see
  in between is several definitions: the sections of a call before and after a wait, which an inductive relation interleaves.
  Code outside the repository is an argument: the sockets, the adapter, the other threads and the random numbers of the engine are
  the record \<open>Environment\<close>, system calls are functions of a world, and what is relied on of them is a named hypothesis.

  \<^bold>\<open>Shared.\<close> \<open>Prelude\<close> has the types, the collections of rewrite rules and the lemmas on buffers and words; \<open>Constants\<close> is \<open>TransportConstants.h\<close>,
  \<open>PublicTypes\<close> the types of \<open>src/include/NetLink/NetLink.h\<close>, and \<open>OrderedMap\<close> the locale \<open>keyed_store\<close> of what a table promises.

  \<^bold>\<open>The wire format\<close> (\<open>Channel/Protocol/\<close>). \<open>Wire\<close> is \<open>ByteOrder.h\<close> and \<open>WireBuffer.h\<close>, \<open>Flags\<close> is \<open>PacketFlags.h\<close>, \<open>PacketHeader\<close> and \<open>AckRanges\<close> the files
  of that name; \<open>ControlMessage\<close>, \<open>BeaconCodec\<close> (\<open>Discovery/Beacon.h\<close>) and \<open>IPv4Address\<close> (\<open>Socket/IPv4Address.h\<close>, \<open>Socket/SocketTypes.h\<close>) are the other
  encodings. Decoders never read outside a datagram, accept exactly the well-formed ones, and read back what was written; the ranges
  of an acknowledgement are exactly the sequence numbers that wait.

  \<^bold>\<open>Links.\<close> \<open>SequenceBuffer\<close> (with the locale \<open>sequence_store\<close>), \<open>MessageAssembler\<close>, \<open>MediaAssembler\<close> and \<open>RttEstimator\<close> are the parts of a link, each shown
  to do what its abstract counterpart does: a map, the message that was cut, the message in any order of its fragments, a timeout
  within bounds. \<open>ReliableLink\<close> is the link itself. \<open>LinkFrames\<close> says what the operations leave alone (locales \<open>link_preorder\<close> and \<open>loss_frame\<close>);
  \<open>LinkDatagrams\<close>, \<open>LinkSending\<close> and \<open>LinkReceiving\<close> are the invariants of the two sides, and \<open>LinkDelivery\<close> puts two links and a network that
  loses, repeats, delays and reorders together: every message is delivered once and in order. \<open>LinkSafety\<close> shows that no
  packet leads to a fault.

  \<^bold>\<open>The engine.\<close> \<open>Scheduler\<close>, \<open>Mailbox\<close> and \<open>Discovery\<close> are components with invariants of their own; \<open>Doorbell\<close> shows that the wake-up of the I/O thread is
  never lost. \<open>EngineState\<close> has the state and the operations on a session, \<open>EngineIo\<close> the handlers and \<open>step\<close>, \<open>EngineApi\<close> the calls of the
  application. \<open>EngineSessions\<close> and \<open>EngineSteps\<close> show the invariant of the table of sessions and of the events (locale \<open>engine_preorder\<close> for
  the operations that do not touch it), \<open>EngineSafety\<close> that a step returns, and \<open>EngineRun\<close> states what follows for every run: the
  session protocol, the table, who is admitted, what a failing socket does. \<open>EngineShutdown\<close> shows that a shutdown comes to an end, and when.

  \<^bold>\<open>The core and its interfaces.\<close> \<open>TaskQueue\<close> is \<open>Util/TaskQueue.h\<close> and \<open>Util/ThreadUtils.h\<close>; \<open>Core\<close> is the lifecycle and the dispatch of events, with the contract of the
  callbacks over any interleaving; \<open>CoreAdapters\<close> is the choice of the adapter; \<open>CApi\<close> and \<open>CCallbacks\<close> are \<open>src/src/capi/NetLinkC.cpp\<close>, whose texts
  stay within their fields and whose callbacks keep the contract. \<open>Log\<close> is \<open>NetLinkLog.cpp\<close>.

  \<^bold>\<open>The system.\<close> \<open>Sockets\<close>, \<open>ReadWaiters\<close> and \<open>UdpSocket\<close> are \<open>Socket/\<close> with its platforms: the locale \<open>read_waiter\<close> is what a wait promises, interpreted for Linux, macOS and
  Windows, and \<open>socket_resources\<close> who owns which descriptor. \<open>NetworkInformation\<close>, \<open>NetworkInformationWindows\<close> and \<open>NetworkInformationMac\<close> are \<open>Network/\<close>: the locale
  \<open>adapter_backend\<close> is what the list of adapters promises, interpreted for the three systems, and the two routing tables are read
  as the kernels write them.

  \<^bold>\<open>Loops.\<close> Loops over containers are folds or structural recursion. The loop over the reorder buffer of a link has the capacity of the buffer as
  fuel, which is enough since every round takes an entry out; the loops of \<open>receivePending\<close> have the bound of the code, 256 datagrams.
  \<open>getlines\<close> and \<open>readRoutes\<close> have a termination proof. \<open>sendAcks\<close>, \<open>freshStreamID\<close>, \<open>runLane\<close>, the loops of the sockets and those of
  the waiters are partial functions: that they return is a theorem, under what it depends on (the rate is limited, stream IDs
  do not stay within 256, signals end).

  \<^bold>\<open>Not modelled.\<close> The facade \<open>src/src/NetLink.cpp\<close> calls the operations of the core and nothing else. Of the engine, the loop around the steps is
  the relation \<open>engine_runs\<close> and not a function, the destructor and the diagnostic counters are left out, and so is \<open>makeInstanceId\<close>, whose
  random number is an argument. Of the task queue, calls from the worker itself, where the thread is detached instead of joined,
  are left out, which the core rules out for all but its destruction within a callback. On Windows the conversion of wide strings depends on
  the locale of the process; its result is the name of the adapter. \<open>nl_version\<close> returns a constant of the build, and \<open>nl_create\<close> and
  \<open>nl_destroy\<close> only allocate and delete. The text of log lines has no influence on anything else. Walking over \<open>mTouched\<close> while it grows is
  modelled as if the vector kept its place, and memory that runs out is not modelled. Tests and benchmarks are not part of the program.
\<close>

end
